(* ===== verification/Linux_Prelude.thy ===== *)
theory Linux_Prelude
  imports Main "HOL-Library.Word" "HOL-Library.Monad_Syntax"
begin

unbundle bit_operations_syntax

text \<open>
  Shared vocabulary of the development: the machine types, the error numbers the sources
  mention, address ranges on a 64 bit address space, rounding with a mask of low bits, and
  the generic facts on lists and words that the component theories use.

  A function of the sources that can end in \<open>abort ()\<close> or in a failed \<open>assert\<close> returns an
  option: \<open>None\<close> is the aborted process, \<open>Some\<close> a return. A call that reports an error number
  returns an \<open>errno option\<close>, where \<open>None\<close> is the C value 0, or a sum with \<open>Inl\<close> for the error.
\<close>

type_synonym u64 = "64 word"
type_synonym u32 = "32 word"

text \<open>The error numbers the sources name; any other value is \<open>E_OTHER\<close>.\<close>

datatype errno =
    EINTR | EINVAL | ENOMEM | EAGAIN | ESRCH | EDEADLK | ETIMEDOUT | ENOSYS | ECHILD
  | ENOENT | ENOEXEC | EACCES | ESTALE | ENOTDIR | ENODEV | EEXIST | EBADF | EMFILE | E_OTHER int

named_theorems range_simps \<open>address ranges\<close>
named_theorems frame_simps \<open>fields an operation leaves alone\<close>
named_theorems inv_intros \<open>invariant preservation\<close>

subsection \<open>Address ranges\<close>

text \<open>
  The addresses \<open>base, \<dots>, base + len - 1\<close> of the 64 bit address space. Subtraction wraps, so
  the test needs no case for a range that ends at the top of the address space.
\<close>

definition in_range :: "u64 \<Rightarrow> u64 \<Rightarrow> u64 \<Rightarrow> bool" where
  "in_range base len a \<longleftrightarrow> a - base < len"

lemma in_range_empty [range_simps, simp]: "\<not> in_range base 0 a"
  by (simp add: in_range_def)

lemma in_range_nat:
  assumes "unat base + unat len < 2 ^ 64"
  shows "in_range base len a \<longleftrightarrow> unat base \<le> unat a \<and> unat a < unat base + unat len"
proof (cases "base \<le> a")
  case True
  then have "unat (a - base) = unat a - unat base" "unat base \<le> unat a"
    by (simp_all add: unat_sub word_le_nat_alt)
  then show ?thesis by (auto simp: in_range_def word_less_nat_alt)
next
  case False
  then have lt: "unat a < unat base" by (simp add: word_le_nat_alt)
  have "unat (a - base) = 2 ^ 64 + unat a - unat base"
    using lt by (simp add: unat_sub_if_size word_size not_le)
  then have "\<not> unat (a - base) < unat len" using assms by linarith
  then show ?thesis using lt by (simp add: in_range_def word_less_nat_alt)
qed

lemma in_range_prefix:
  assumes "n \<le> len" "in_range base n a"
  shows "in_range base len a"
  using assms by (auto simp: in_range_def)

text \<open>The part of a range behind its first \<open>n\<close> addresses.\<close>

lemma in_range_suffix:
  assumes "n \<le> len"
  shows "in_range (base + n) (len - n) a \<longleftrightarrow> in_range base len a \<and> \<not> in_range base n a"
proof -
  let ?d = "a - base"
  have eq: "a - (base + n) = ?d - n" by simp
  have nl: "unat n \<le> unat len" using assms by (simp add: word_le_nat_alt)
  have ul: "unat (len - n) = unat len - unat n" using assms by (simp add: unat_sub)
  show ?thesis
  proof (cases "n \<le> ?d")
    case True
    then have "unat (?d - n) = unat ?d - unat n" "unat n \<le> unat ?d"
      by (simp_all add: unat_sub word_le_nat_alt)
    then show ?thesis using nl ul
      by (auto simp: in_range_def eq word_less_nat_alt)
  next
    case False
    then have lt: "unat ?d < unat n" by (simp add: word_le_nat_alt)
    have "unat (?d - n) = 2 ^ 64 + unat ?d - unat n"
      using lt by (simp add: unat_sub_if_size word_size not_le)
    moreover have "unat len < 2 ^ 64" by (rule order.strict_trans2 [OF unsigned_less]) simp
    ultimately have "\<not> unat (?d - n) < unat (len - n)" using ul nl lt by linarith
    then show ?thesis using lt
      by (auto simp: in_range_def eq word_less_nat_alt)
  qed
qed

definition disjoint_ranges :: "u64 \<Rightarrow> u64 \<Rightarrow> u64 \<Rightarrow> u64 \<Rightarrow> bool" where
  "disjoint_ranges b1 l1 b2 l2 \<longleftrightarrow> (\<forall>a. \<not> (in_range b1 l1 a \<and> in_range b2 l2 a))"

lemma disjoint_ranges_sym: "disjoint_ranges b1 l1 b2 l2 \<Longrightarrow> disjoint_ranges b2 l2 b1 l1"
  by (auto simp: disjoint_ranges_def)

lemma disjoint_rangesD: "disjoint_ranges b1 l1 b2 l2 \<Longrightarrow> in_range b1 l1 a \<Longrightarrow> \<not> in_range b2 l2 a"
  by (auto simp: disjoint_ranges_def)

text \<open>Whether two ranges that do not wrap are disjoint is decided by their end points.\<close>

lemma disjoint_rangesI:
  assumes "unat b1 + unat l1 < 2 ^ 64" "unat b2 + unat l2 < 2 ^ 64"
    and "unat b1 + unat l1 \<le> unat b2 \<or> unat b2 + unat l2 \<le> unat b1"
  shows "disjoint_ranges b1 l1 b2 l2"
  using assms by (auto simp: disjoint_ranges_def in_range_nat)

subsection \<open>Rounding with a mask\<close>

text \<open>\<open>low_mask m\<close>: the value is one less than a power of two, as \<open>__getpagesize () - 1\<close> is.\<close>

definition low_mask :: "u64 \<Rightarrow> bool" where
  "low_mask m \<longleftrightarrow> m AND (m + 1) = 0"

lemma and_not_mask_plus: "(x::u64) = (x AND NOT m) + (x AND m)"
proof -
  have "(x AND NOT m) + (x AND m) = (x AND NOT m) OR (x AND m)"
    by (rule disjunctive_add) (auto simp: bit_simps)
  also have "\<dots> = x" by (rule bit_eqI) (auto simp: bit_simps)
  finally show ?thesis by simp
qed

lemma and_not_mask_le: "(x::u64) AND NOT m \<le> x"
  by (rule word_and_le2)

lemma and_mask_le: "(x::u64) AND m \<le> m"
  by (rule word_and_le1)

lemma unat_round_down:
  "unat ((x::u64) AND NOT m) = unat x - unat (x AND m)"
proof -
  have "unat (x AND m) \<le> unat x"
    by (simp add: word_le_nat_alt [symmetric] word_and_le2)
  moreover have "x AND NOT m = x - (x AND m)"
    using and_not_mask_plus [of x m] by (simp add: algebra_simps)
  ultimately show ?thesis by (simp add: unat_sub word_le_nat_alt)
qed

lemma unat_round_down_bounds:
  "unat ((x::u64) AND NOT m) \<le> unat x" "unat x \<le> unat (x AND NOT m) + unat m"
proof -
  have le: "unat (x AND m) \<le> unat m"
    by (simp add: word_le_nat_alt [symmetric] word_and_le1)
  show "unat (x AND NOT m) \<le> unat x" "unat x \<le> unat (x AND NOT m) + unat m"
    using le by (simp_all add: unat_round_down)
qed

subsection \<open>Lists\<close>

lemma sum_list_remove1_word:
  "x \<in> set xs \<Longrightarrow> sum_list (map f (remove1 x xs)) = sum_list (map f xs) - (f x :: 'b :: ab_group_add)"
  by (induction xs) (auto simp: algebra_simps)

lemma set_remove1_distinct [simp]: "distinct xs \<Longrightarrow> set (remove1 x xs) = set xs - {x}"
  by (rule set_remove1_eq)

lemma map_cong_upd: "x \<notin> set xs \<Longrightarrow> map (\<lambda>y. g ((h(x := v)) y)) xs = map (\<lambda>y. g (h y)) xs"
  by (rule map_cong) auto

subsection \<open>Invariants of transition systems\<close>

locale invariant_system =
  fixes step :: "'s \<Rightarrow> 's \<Rightarrow> bool" and inv :: "'s \<Rightarrow> bool"
  assumes keeps: "inv s \<Longrightarrow> step s t \<Longrightarrow> inv t"
begin

lemma reaches_inv:
  assumes "rtranclp step s t" "inv s"
  shows "inv t"
  using assms by (induction rule: rtranclp_induct) (auto intro: keeps)

end

end
