(* ===== verification/Nptl_Types.thy ===== *)
theory Nptl_Types
  imports Linux_Prelude
begin

text \<open>
  The data of the thread library of glibc 2.32 as the four files under
  \<open>Memory/HiddenOOM/ThreadStackLeaked/code/glibc-2.32\<close> use it: the thread descriptor
  \<open>struct pthread\<close> (its fields carry the prefix \<open>pd_\<close>), the attribute \<open>struct pthread_attr\<close>
  (prefix \<open>at_\<close>), the static variables of \<open>allocatestack.c\<close> and \<open>pthread_create.c\<close> (the record
  \<open>nptl\<close>, names as in the source) and what the library asks of the kernel and of the dynamic
  linker (the record \<open>kern\<close>, a parameter of every operation). The configuration is the one of
  the \<open>clone.S\<close> beside the sources, x86-64: \<open>_STACK_GROWS_DOWN\<close>, \<open>TLS_TCB_AT_TP\<close>,
  \<open>TLS_MULTIPLE_THREADS_IN_TCB\<close> and no separate register stack.

  A pointer is a 64 bit address, 0 is \<open>NULL\<close>. The list links inside a descriptor are not fields:
  the three intrusive lists are HOL lists of descriptor addresses, head first, and a
  \<open>list_t\<close> element stands for the descriptor that contains it (\<open>list_entry\<close>). Bit masks are
  sets of named flags.
\<close>

subsection \<open>Flags\<close>

datatype cancel_flag =
    CANCELSTATE | CANCELTYPE | CANCELING | CANCELED | EXITING | TERMINATED | SETXID

datatype attr_flag =
    ATTR_DETACHSTATE | ATTR_NOTINHERITSCHED | ATTR_SCOPEPROCESS | ATTR_STACKADDR
  | ATTR_OLDATTR | ATTR_SCHED_SET | ATTR_POLICY_SET

datatype prot = PROT_NONE | PROT_RW | PROT_RWX

datatype td_event = TD_CREATE | TD_DEATH | TD_OTHER nat

subsection \<open>The thread descriptor\<close>

text \<open>
  Thread-specific data: an entry of \<open>__pthread_keys\<close>, and an entry of a second-level block. A
  second-level block is an array of the heap, \<open>pd_specific\<close> holds the addresses of the blocks.
\<close>

record key_struct =
  ks_seq :: u64
  ks_destr :: u64

record key_data =
  kd_seq :: u64
  kd_data :: u64

record td_eventbuf =
  ev_mask :: "td_event set"
  ev_num :: "td_event option"
  ev_data :: u64

record pthread =
  pd_tid :: int
  pd_stackblock :: u64
  pd_stackblock_size :: u64
  pd_guardsize :: u64
  pd_reported_guardsize :: u64
  pd_user_stack :: bool
  pd_setxid_futex :: int
  pd_cancelhandling :: "cancel_flag set"
  pd_cleanup :: u64
  pd_nextevent :: u64
  pd_tls_state :: u64
  pd_dtv :: "u64 list"
  pd_joinid :: u64
  pd_lock :: bool
  pd_robust_list :: u64
  pd_list_op_pending :: u64
  pd_specific :: "nat \<Rightarrow> u64"
  pd_specific_used :: bool
  pd_multiple_threads :: bool
  pd_tpp :: u64
  pd_self :: u64
  pd_start_routine :: u64
  pd_arg :: u64
  pd_c11 :: bool
  pd_result :: u64
  pd_flags :: "attr_flag set"
  pd_schedpolicy :: int
  pd_schedparam :: int
  pd_stopped_start :: bool
  pd_report_events :: bool
  pd_eventbuf :: td_eventbuf
  pd_sigmask :: "int set"
  pd_gscope_flag :: int

text \<open>Memory fresh from \<open>mmap\<close>, or cleared by \<open>memset\<close>, is zero.\<close>

definition zero_pthread :: pthread where
  "zero_pthread =
    \<lparr>pd_tid = 0, pd_stackblock = 0, pd_stackblock_size = 0, pd_guardsize = 0,
     pd_reported_guardsize = 0, pd_user_stack = False, pd_setxid_futex = 0,
     pd_cancelhandling = {}, pd_cleanup = 0, pd_nextevent = 0, pd_tls_state = 0, pd_dtv = [],
     pd_joinid = 0, pd_lock = False, pd_robust_list = 0, pd_list_op_pending = 0,
     pd_specific = (\<lambda>_. 0),
     pd_specific_used = False, pd_multiple_threads = False, pd_tpp = 0, pd_self = 0,
     pd_start_routine = 0, pd_arg = 0, pd_c11 = False, pd_result = 0, pd_flags = {},
     pd_schedpolicy = 0, pd_schedparam = 0, pd_stopped_start = False,
     pd_report_events = False, pd_eventbuf = \<lparr>ev_mask = {}, ev_num = None, ev_data = 0\<rparr>,
     pd_sigmask = {}, pd_gscope_flag = 0\<rparr>"

subsection \<open>Thread attributes\<close>

record attr_ext_data =
  ax_addr :: u64
  ax_cpuset :: u64
  ax_cpusetsize :: u64
  ax_sigmask_set :: bool
  ax_sigmask :: "int set"

record pthread_attr =
  at_schedparam :: int
  at_schedpolicy :: int
  at_flags :: "attr_flag set"
  at_guardsize :: u64
  at_stackaddr :: u64
  at_stacksize :: u64
  at_extension :: "attr_ext_data option"

subsection \<open>The state of the library\<close>

datatype nptl_signal = SIGCANCEL | SIGSETXID

record nptl =
  pds :: "u64 \<Rightarrow> pthread"
  stack_cache :: "u64 list"
  stack_used :: "u64 list"
  stack_user :: "u64 list"
  stack_cache_actsize :: u64
  stack_cache_maxsize :: u64
  in_flight_stack :: u64
  stack_cache_lock :: bool
  default_attr_lock :: bool
  default_stacksize :: u64
  nptl_nthreads :: u32
  nptl_last_event :: u64
  threads_events :: "td_event set"
  libc_single_threaded :: bool
  maps :: "u64 \<rightharpoonup> u64"
  prots :: "u64 \<Rightarrow> prot"
  tls_live :: "u64 set"
  mallocs :: "u64 set"
  pthread_keys :: "nat \<Rightarrow> key_struct"
  key_data_at :: "u64 \<Rightarrow> nat \<Rightarrow> key_data"
  bytes_at :: "u64 \<Rightarrow> 8 word list"
  futex_wakes :: "u64 list"
  self_sigmask :: "int set"
  tgkills :: "(int \<times> nptl_signal) list"

text \<open>
  The fields from \<open>maps\<close> on, less \<open>pthread_keys\<close>, are the world the library acts on: the mappings
  it holds (base to length), the protection of each address, the descriptors whose TLS block is
  allocated, the live \<open>malloc\<close> blocks, the contents of blocks of thread-specific data and of byte
  buffers, the descriptors whose futex was woken, the signal mask of the calling thread, and
  the signals sent to single threads. The logs have the newest entry first.
\<close>

subsection \<open>The kernel and the dynamic linker\<close>

text \<open>
  Constants of the platform and the answers of calls whose code is not part of the repository.
  An answer may depend on the arguments; \<open>sys_mmap\<close> also sees the current mappings, the allocator
  the live blocks.
\<close>

record kern =
  pagesize_m1 :: u64
  static_tls_size :: u64
  static_tls_align_m1 :: u64
  tls_tcb_size :: u64
  sizeof_pthread :: u64
  multi_page_aliasing :: u64
  pthread_stack_min :: u64
  tcb_alignment :: u64
  stack_align :: u64
  specific_1stblock_off :: u64
  sizeof_attr_ext :: u64
  key_1stlevel_size :: nat
  key_2ndlevel_size :: nat
  destructor_iterations :: nat
  sys_mmap :: "(u64 \<rightharpoonup> u64) \<Rightarrow> u64 \<Rightarrow> errno + u64"
  sys_munmap :: "u64 \<Rightarrow> u64 \<Rightarrow> errno option"
  sys_mprotect :: "u64 \<Rightarrow> u64 \<Rightarrow> prot \<Rightarrow> errno option"
  dl_allocate_tls :: "u64 \<Rightarrow> errno + u64 list"
  dl_allocate_tls_init :: "u64 list \<Rightarrow> u64 list"
  sys_malloc :: "u64 set \<Rightarrow> u64 \<Rightarrow> u64 option"
  sys_realloc :: "u64 set \<Rightarrow> u64 \<Rightarrow> u64 \<Rightarrow> u64 option"

text \<open>The first block of thread-specific data lies inside the descriptor.\<close>

definition specific_1stblock :: "kern \<Rightarrow> u64 \<Rightarrow> u64" where
  "specific_1stblock k pd = pd + specific_1stblock_off k"

subsection \<open>Primitive updates\<close>

definition upd_pd :: "u64 \<Rightarrow> (pthread \<Rightarrow> pthread) \<Rightarrow> nptl \<Rightarrow> nptl" where
  "upd_pd p f s = s\<lparr>pds := (pds s)(p := f (pds s p))\<rparr>"

lemma upd_pd_sel [simp]:
  "pds (upd_pd p f s) = (pds s)(p := f (pds s p))"
  "stack_cache (upd_pd p f s) = stack_cache s"
  "stack_used (upd_pd p f s) = stack_used s"
  "stack_user (upd_pd p f s) = stack_user s"
  "stack_cache_actsize (upd_pd p f s) = stack_cache_actsize s"
  "stack_cache_maxsize (upd_pd p f s) = stack_cache_maxsize s"
  "in_flight_stack (upd_pd p f s) = in_flight_stack s"
  "stack_cache_lock (upd_pd p f s) = stack_cache_lock s"
  "nptl_nthreads (upd_pd p f s) = nptl_nthreads s"
  "maps (upd_pd p f s) = maps s"
  "prots (upd_pd p f s) = prots s"
  "tls_live (upd_pd p f s) = tls_live s"
  "mallocs (upd_pd p f s) = mallocs s"
  "futex_wakes (upd_pd p f s) = futex_wakes s"
  "pthread_keys (upd_pd p f s) = pthread_keys s"
  "key_data_at (upd_pd p f s) = key_data_at s"
  "self_sigmask (upd_pd p f s) = self_sigmask s"
  "tgkills (upd_pd p f s) = tgkills s"
  "bytes_at (upd_pd p f s) = bytes_at s"
  "nptl_last_event (upd_pd p f s) = nptl_last_event s"
  "threads_events (upd_pd p f s) = threads_events s"
  "libc_single_threaded (upd_pd p f s) = libc_single_threaded s"
  "default_stacksize (upd_pd p f s) = default_stacksize s"
  by (simp_all add: upd_pd_def)

text \<open>A cleared descriptor, with the block of thread-specific data inside it.\<close>

definition zero_key_data :: key_data where
  "zero_key_data = \<lparr>kd_seq = 0, kd_data = 0\<rparr>"

definition zero_descriptor :: "kern \<Rightarrow> u64 \<Rightarrow> nptl \<Rightarrow> nptl" where
  "zero_descriptor k pd s =
    s\<lparr>pds := (pds s)(pd := zero_pthread),
      key_data_at := (key_data_at s)(specific_1stblock k pd := (\<lambda>_. zero_key_data))\<rparr>"

lemma zero_descriptor_sel [simp]:
  "pds (zero_descriptor k p s) = (pds s)(p := zero_pthread)"
  "key_data_at (zero_descriptor k p s) =
    (key_data_at s)(specific_1stblock k p := (\<lambda>_. zero_key_data))"
  "stack_cache (zero_descriptor k p s) = stack_cache s"
  "stack_used (zero_descriptor k p s) = stack_used s"
  "stack_user (zero_descriptor k p s) = stack_user s"
  "stack_cache_actsize (zero_descriptor k p s) = stack_cache_actsize s"
  "stack_cache_maxsize (zero_descriptor k p s) = stack_cache_maxsize s"
  "in_flight_stack (zero_descriptor k p s) = in_flight_stack s"
  "nptl_nthreads (zero_descriptor k p s) = nptl_nthreads s"
  "maps (zero_descriptor k p s) = maps s" "prots (zero_descriptor k p s) = prots s"
  "tls_live (zero_descriptor k p s) = tls_live s" "mallocs (zero_descriptor k p s) = mallocs s"
  by (simp_all add: zero_descriptor_def)

text \<open>\<open>free (NULL)\<close> does nothing.\<close>

definition free_ptr :: "u64 \<Rightarrow> nptl \<Rightarrow> nptl" where
  "free_ptr p s = (if p = 0 then s else s\<lparr>mallocs := mallocs s - {p}\<rparr>)"

fun free_all :: "u64 list \<Rightarrow> nptl \<Rightarrow> nptl" where
  "free_all [] s = s"
| "free_all (p # ps) s = free_all ps (free_ptr p s)"

lemma free_all_mallocs: "free_all ps s = s\<lparr>mallocs := mallocs s - (set ps - {0})\<rparr>"
  by (induction ps arbitrary: s) (auto simp: free_ptr_def intro!: nptl.equality)

text \<open>
  \<open>malloc\<close> and \<open>realloc\<close>: a block that moves carries its bytes along; bytes that have not been
  written are not modelled.
\<close>

definition malloc :: "kern \<Rightarrow> u64 \<Rightarrow> nptl \<Rightarrow> u64 option \<times> nptl" where
  "malloc k n s =
    (case sys_malloc k (mallocs s) n of
       None \<Rightarrow> (None, s)
     | Some p \<Rightarrow> (Some p, s\<lparr>mallocs := insert p (mallocs s), bytes_at := (bytes_at s)(p := [])\<rparr>))"

definition realloc :: "kern \<Rightarrow> u64 \<Rightarrow> u64 \<Rightarrow> nptl \<Rightarrow> u64 option \<times> nptl" where
  "realloc k p n s =
    (if p = 0 then malloc k n s
     else case sys_realloc k (mallocs s) p n of
       None \<Rightarrow> (None, s)
     | Some q \<Rightarrow> (Some q, s\<lparr>mallocs := insert q (mallocs s - {p}),
                           bytes_at := (bytes_at s)(q := take (unat n) (bytes_at s p))\<rparr>))"

text \<open>What the C standard says of them: a result is not \<open>NULL\<close> and overlaps no live block.\<close>

definition malloc_ok :: "kern \<Rightarrow> bool" where
  "malloc_ok k \<longleftrightarrow>
    (\<forall>live n p. sys_malloc k live n = Some p \<longrightarrow> p \<noteq> 0 \<and> p \<notin> live) \<and>
    (\<forall>live q n p. sys_realloc k live q n = Some p \<longrightarrow> p \<noteq> 0 \<and> p \<notin> live - {q})"

text \<open>A successful \<open>mprotect\<close> changes the protection of the range, a failed one nothing.\<close>

definition mprotect :: "kern \<Rightarrow> u64 \<Rightarrow> u64 \<Rightarrow> prot \<Rightarrow> nptl \<Rightarrow> errno option \<times> nptl" where
  "mprotect k base len p s =
    (case sys_mprotect k base len p of
       Some e \<Rightarrow> (Some e, s)
     | None \<Rightarrow> (None, s\<lparr>prots := (\<lambda>a. if in_range base len a then p else prots s a)\<rparr>))"

definition munmap :: "kern \<Rightarrow> u64 \<Rightarrow> u64 \<Rightarrow> nptl \<Rightarrow> errno option \<times> nptl" where
  "munmap k base len s =
    (case sys_munmap k base len of
       Some e \<Rightarrow> (Some e, s)
     | None \<Rightarrow> (None, s\<lparr>maps := (maps s)(base := None)\<rparr>))"

definition dl_deallocate_tls :: "u64 \<Rightarrow> nptl \<Rightarrow> nptl" where
  "dl_deallocate_tls pd s = s\<lparr>tls_live := tls_live s - {pd}\<rparr>"

text \<open>\<open>lll_lock\<close> and \<open>lll_unlock\<close> on \<open>stack_cache_lock\<close>, as the calling thread performs them.\<close>

definition lock_cache :: "nptl \<Rightarrow> nptl" where
  "lock_cache s = s\<lparr>stack_cache_lock := True\<rparr>"

definition unlock_cache :: "nptl \<Rightarrow> nptl" where
  "unlock_cache s = s\<lparr>stack_cache_lock := False\<rparr>"

end
