(* ===== verification/Stack_Pool.thy ===== *)
theory Stack_Pool
  imports Nptl_Types
begin

text \<open>
  The stack pool of \<open>allocatestack.c\<close>: the lists of stacks in use and of cached stacks, the
  search of the cache (\<open>get_cached_stack\<close>), its trimming (\<open>free_stacks\<close>), the return of a stack
  (\<open>queue_stack\<close>, \<open>__deallocate_stack\<close>) and the lookup \<open>__find_in_stack_list\<close> of
  \<open>pthread_create.c\<close>. The invariant \<open>pool_inv\<close> ties the lists to the accounting, to the mappings,
  to the guard pages and to the TLS blocks; every operation keeps it.
\<close>

subsection \<open>List operations with the in-flight mark\<close>

definition FREE_P :: "pthread \<Rightarrow> bool" where
  "FREE_P descr \<longleftrightarrow> pd_tid descr \<le> 0"

text \<open>\<open>list_del\<close> takes an element out of the list it is on, whichever that is.\<close>

definition stack_list_del :: "u64 \<Rightarrow> nptl \<Rightarrow> nptl" where
  "stack_list_del elem s =
    (let s = s\<lparr>in_flight_stack := elem\<rparr>;
         s = s\<lparr>stack_cache := remove1 elem (stack_cache s),
               stack_used := remove1 elem (stack_used s),
               stack_user := remove1 elem (stack_user s)\<rparr>
     in s\<lparr>in_flight_stack := 0\<rparr>)"

datatype which_list = Cache | Used

definition stack_list_add :: "u64 \<Rightarrow> which_list \<Rightarrow> nptl \<Rightarrow> nptl" where
  "stack_list_add elem l s =
    (let s = s\<lparr>in_flight_stack := elem OR 1\<rparr>;
         s = (case l of Cache \<Rightarrow> s\<lparr>stack_cache := elem # stack_cache s\<rparr>
                      | Used \<Rightarrow> s\<lparr>stack_used := elem # stack_used s\<rparr>)
     in s\<lparr>in_flight_stack := 0\<rparr>)"

subsection \<open>Getting a stack from the cache\<close>

text \<open>The search loop: an exact match ends it, otherwise the smallest candidate so far is kept.\<close>

fun find_cached :: "(u64 \<Rightarrow> pthread) \<Rightarrow> u64 \<Rightarrow> u64 option \<Rightarrow> u64 list \<Rightarrow> u64 option" where
  "find_cached h sz result [] = result"
| "find_cached h sz result (cur # rest) =
    (if FREE_P (h cur) \<and> sz \<le> pd_stackblock_size (h cur)
     then if pd_stackblock_size (h cur) = sz then Some cur
          else find_cached h sz
                 (case result of
                    None \<Rightarrow> Some cur
                  | Some r \<Rightarrow> if pd_stackblock_size (h cur) < pd_stackblock_size (h r)
                             then Some cur else result) rest
     else find_cached h sz result rest)"

definition dequeue_cached :: "u64 \<Rightarrow> nptl \<Rightarrow> nptl" where
  "dequeue_cached result s =
    (let s = upd_pd result (\<lambda>p. p\<lparr>pd_setxid_futex := - 1\<rparr>) s;
         s = stack_list_del result s;
         s = stack_list_add result Used s
     in s\<lparr>stack_cache_actsize :=
            stack_cache_actsize s - pd_stackblock_size (pds s result)\<rparr>)"

definition reset_cached :: "kern \<Rightarrow> u64 \<Rightarrow> nptl \<Rightarrow> nptl" where
  "reset_cached k result s =
    (let s = upd_pd result (\<lambda>p. p\<lparr>pd_cancelhandling := {}, pd_cleanup := 0,
                                  pd_nextevent := 0, pd_tls_state := 0\<rparr>) s;
         dtv = pd_dtv (pds s result);
         s = free_all dtv s;
         s = upd_pd result (\<lambda>p. p\<lparr>pd_dtv := replicate (length dtv) 0\<rparr>) s
     in upd_pd result (\<lambda>p. p\<lparr>pd_dtv := dl_allocate_tls_init k (pd_dtv p)\<rparr>) s)"

text \<open>The result is the descriptor, the size and the location of the stack, or \<open>None\<close>.\<close>

definition get_cached_stack :: "kern \<Rightarrow> u64 \<Rightarrow> nptl \<Rightarrow> (u64 \<times> u64 \<times> u64) option \<times> nptl" where
  "get_cached_stack k sz s =
    (let s = lock_cache s in
     case find_cached (pds s) sz None (stack_cache s) of
       None \<Rightarrow> (None, unlock_cache s)
     | Some result \<Rightarrow>
         if pd_stackblock_size (pds s result) > 4 * sz then (None, unlock_cache s)
         else let s = unlock_cache (dequeue_cached result s);
                  sizep = pd_stackblock_size (pds s result);
                  memp = pd_stackblock (pds s result)
              in (Some (result, sizep, memp), reset_cached k result s))"

subsection \<open>Trimming the cache\<close>

text \<open>
  The walk from the end of the list over the entries that are not in use any more. The list of
  entries still to be visited is the argument; an \<open>munmap\<close> that fails aborts the process.
\<close>

fun free_stacks_loop :: "kern \<Rightarrow> u64 \<Rightarrow> u64 list \<Rightarrow> nptl \<Rightarrow> nptl option" where
  "free_stacks_loop k limit [] s = Some s"
| "free_stacks_loop k limit (cur # prev) s =
    (if FREE_P (pds s cur)
     then let s = stack_list_del cur s;
              s = s\<lparr>stack_cache_actsize :=
                      stack_cache_actsize s - pd_stackblock_size (pds s cur)\<rparr>;
              s = dl_deallocate_tls cur s
          in case munmap k (pd_stackblock (pds s cur)) (pd_stackblock_size (pds s cur)) s of
               (Some e, s) \<Rightarrow> None
             | (None, s) \<Rightarrow> if stack_cache_actsize s \<le> limit then Some s
                           else free_stacks_loop k limit prev s
     else free_stacks_loop k limit prev s)"

definition free_stacks :: "kern \<Rightarrow> u64 \<Rightarrow> nptl \<Rightarrow> nptl option" where
  "free_stacks k limit s = free_stacks_loop k limit (rev (stack_cache s)) s"

definition nptl_stacks_freeres :: "kern \<Rightarrow> nptl \<Rightarrow> nptl option" where
  "nptl_stacks_freeres k s = free_stacks k 0 s"

subsection \<open>Returning a stack\<close>

definition queue_stack :: "kern \<Rightarrow> u64 \<Rightarrow> nptl \<Rightarrow> nptl option" where
  "queue_stack k stack s =
    (let s = stack_list_add stack Cache s;
         s = s\<lparr>stack_cache_actsize :=
                 stack_cache_actsize s + pd_stackblock_size (pds s stack)\<rparr>
     in if stack_cache_actsize s > stack_cache_maxsize s
        then free_stacks k (stack_cache_maxsize s) s
        else Some s)"

definition deallocate_stack :: "kern \<Rightarrow> u64 \<Rightarrow> nptl \<Rightarrow> nptl option" where
  "deallocate_stack k pd s =
    (let s = lock_cache s;
         s = stack_list_del pd s
     in do {
       s \<leftarrow> (if \<not> pd_user_stack (pds s pd) then queue_stack k pd s
             else Some (dl_deallocate_tls pd s));
       Some (unlock_cache s)
     })"

subsection \<open>Looking a descriptor up\<close>

definition find_in_stack_list :: "u64 \<Rightarrow> nptl \<Rightarrow> u64 option \<times> nptl" where
  "find_in_stack_list pd s =
    (let s = lock_cache s;
         result = find (\<lambda>curp. curp = pd) (stack_used s);
         result = (if result = None then find (\<lambda>curp. curp = pd) (stack_user s) else result)
     in (result, unlock_cache s))"

subsection \<open>The invariant\<close>

definition sys_stacks :: "nptl \<Rightarrow> u64 list" where
  "sys_stacks s = stack_cache s @ stack_used s"

text \<open>
  The guard area starts at the lowest address of the block and is the only part of the block
  that cannot be accessed.
\<close>

definition guard_ok :: "nptl \<Rightarrow> u64 \<Rightarrow> bool" where
  "guard_ok s p \<longleftrightarrow>
    (let d = pds s p in
     pd_guardsize d \<le> pd_stackblock_size d \<and>
     (\<forall>a. in_range (pd_stackblock d) (pd_stackblock_size d) a \<longrightarrow>
        (prots s a = PROT_NONE \<longleftrightarrow> in_range (pd_stackblock d) (pd_guardsize d) a)))"

definition block_ok :: "nptl \<Rightarrow> u64 \<Rightarrow> bool" where
  "block_ok s p \<longleftrightarrow>
    (let d = pds s p in
     \<not> pd_user_stack d \<and> maps s (pd_stackblock d) = Some (pd_stackblock_size d) \<and>
     in_range (pd_stackblock d) (pd_stackblock_size d) p)"

definition maps_disjoint :: "(u64 \<rightharpoonup> u64) \<Rightarrow> bool" where
  "maps_disjoint m \<longleftrightarrow>
    (\<forall>b l b' l'. m b = Some l \<longrightarrow> m b' = Some l' \<longrightarrow> b \<noteq> b' \<longrightarrow> disjoint_ranges b l b' l')"

definition pool_inv :: "nptl \<Rightarrow> bool" where
  "pool_inv s \<longleftrightarrow>
    distinct (stack_cache s @ stack_used s @ stack_user s) \<and>
    stack_cache_actsize s =
      sum_list (map (\<lambda>p. pd_stackblock_size (pds s p)) (stack_cache s)) \<and>
    (\<forall>p \<in> set (sys_stacks s). block_ok s p \<and> guard_ok s p) \<and>
    (\<forall>p \<in> set (stack_user s). pd_user_stack (pds s p)) \<and>
    inj_on (\<lambda>p. pd_stackblock (pds s p)) (set (sys_stacks s)) \<and>
    dom (maps s) = (\<lambda>p. pd_stackblock (pds s p)) ` set (sys_stacks s) \<and>
    maps_disjoint (maps s) \<and>
    tls_live s = set (stack_cache s) \<union> set (stack_used s) \<union> set (stack_user s) \<and>
    in_flight_stack s = 0"

text \<open>
  The invariant reads four fields of a descriptor. An update of the others, of the locks or of
  the \<open>malloc\<close> heap keeps it.
\<close>

definition same_block :: "pthread \<Rightarrow> pthread \<Rightarrow> bool" where
  "same_block d d' \<longleftrightarrow>
    pd_stackblock d' = pd_stackblock d \<and> pd_stackblock_size d' = pd_stackblock_size d \<and>
    pd_guardsize d' = pd_guardsize d \<and> pd_user_stack d' = pd_user_stack d"

definition same_pool :: "nptl \<Rightarrow> nptl \<Rightarrow> bool" where
  "same_pool s s' \<longleftrightarrow>
    (\<forall>p. same_block (pds s p) (pds s' p)) \<and>
    stack_cache s' = stack_cache s \<and> stack_used s' = stack_used s \<and>
    stack_user s' = stack_user s \<and> stack_cache_actsize s' = stack_cache_actsize s \<and>
    maps s' = maps s \<and> prots s' = prots s \<and> tls_live s' = tls_live s \<and>
    in_flight_stack s' = in_flight_stack s"

lemma same_pool_refl [simp]: "same_pool s s"
  by (simp add: same_pool_def same_block_def)

lemma same_pool_trans: "same_pool s t \<Longrightarrow> same_pool t u \<Longrightarrow> same_pool s u"
  by (simp add: same_pool_def same_block_def)

lemma same_pool_inv:
  assumes "same_pool s s'" "pool_inv s"
  shows "pool_inv s'"
proof -
  have f: "pd_stackblock (pds s' p) = pd_stackblock (pds s p)"
    "pd_stackblock_size (pds s' p) = pd_stackblock_size (pds s p)"
    "pd_guardsize (pds s' p) = pd_guardsize (pds s p)"
    "pd_user_stack (pds s' p) = pd_user_stack (pds s p)" for p
    using assms(1) by (auto simp: same_pool_def same_block_def)
  show ?thesis using assms
    by (simp add: same_pool_def pool_inv_def sys_stacks_def block_ok_def guard_ok_def
        Let_def f cong: map_cong)
qed

text \<open>
  More generally, only the descriptors on the lists count, and only the protection of their
  blocks.
\<close>

lemma pool_inv_agree:
  assumes inv: "pool_inv s"
    and pd: "\<And>p. p \<in> set (sys_stacks s) \<union> set (stack_user s) \<Longrightarrow> same_block (pds s p) (pds s' p)"
    and pr: "\<And>p a. p \<in> set (sys_stacks s) \<Longrightarrow>
      in_range (pd_stackblock (pds s p)) (pd_stackblock_size (pds s p)) a \<Longrightarrow>
      prots s' a = prots s a"
    and eq: "stack_cache s' = stack_cache s" "stack_used s' = stack_used s"
      "stack_user s' = stack_user s" "stack_cache_actsize s' = stack_cache_actsize s"
      "maps s' = maps s" "tls_live s' = tls_live s" "in_flight_stack s' = 0"
  shows "pool_inv s'"
proof -
  have f: "pd_stackblock (pds s' p) = pd_stackblock (pds s p)"
    "pd_stackblock_size (pds s' p) = pd_stackblock_size (pds s p)"
    "pd_guardsize (pds s' p) = pd_guardsize (pds s p)"
    "pd_user_stack (pds s' p) = pd_user_stack (pds s p)"
    if "p \<in> set (sys_stacks s) \<union> set (stack_user s)" for p
    using pd [OF that] by (auto simp: same_block_def)
  have sys: "sys_stacks s' = sys_stacks s" by (simp add: sys_stacks_def eq)
  have ok: "block_ok s' p \<and> guard_ok s' p" if "p \<in> set (sys_stacks s)" for p
    using inv that pr [OF that] f [of p]
    by (auto simp: pool_inv_def block_ok_def guard_ok_def eq Let_def)
  have sum: "map (\<lambda>p. pd_stackblock_size (pds s' p)) (stack_cache s) =
      map (\<lambda>p. pd_stackblock_size (pds s p)) (stack_cache s)"
    by (rule map_cong) (auto simp: f sys_stacks_def)
  have inj: "inj_on (\<lambda>p. pd_stackblock (pds s' p)) (set (sys_stacks s)) =
      inj_on (\<lambda>p. pd_stackblock (pds s p)) (set (sys_stacks s))"
    by (rule inj_on_cong) (simp add: f)
  have img: "(\<lambda>p. pd_stackblock (pds s' p)) ` set (sys_stacks s) =
      (\<lambda>p. pd_stackblock (pds s p)) ` set (sys_stacks s)"
    by (rule image_cong) (simp_all add: f)
  show ?thesis
    using inv ok f
    by (simp add: pool_inv_def sys eq sum inj img)
qed

lemma same_pool_upd_pd:
  "(\<And>d. same_block d (f d)) \<Longrightarrow> same_pool s (upd_pd p f s)"
  by (simp add: same_pool_def same_block_def)

lemma same_pool_locks [simp]:
  "same_pool s (lock_cache s)" "same_pool s (unlock_cache s)"
  by (simp_all add: same_pool_def same_block_def lock_cache_def unlock_cache_def)

lemma same_pool_free_all [simp]: "same_pool s (free_all ps s)"
  by (simp add: free_all_mallocs same_pool_def same_block_def)

lemma same_pool_reset_cached: "same_pool s (reset_cached k r s)"
  unfolding reset_cached_def Let_def
  by (intro same_pool_trans [OF same_pool_upd_pd same_pool_trans [OF same_pool_free_all
        same_pool_trans [OF same_pool_upd_pd same_pool_upd_pd]]])
    (simp_all add: same_block_def)

subsection \<open>Moves between the lists\<close>

lemmas pool_defs = pool_inv_def sys_stacks_def block_ok_def guard_ok_def Let_def

lemma stack_list_del_sel [simp]:
  "pds (stack_list_del e s) = pds s"
  "stack_cache (stack_list_del e s) = remove1 e (stack_cache s)"
  "stack_used (stack_list_del e s) = remove1 e (stack_used s)"
  "stack_user (stack_list_del e s) = remove1 e (stack_user s)"
  "stack_cache_actsize (stack_list_del e s) = stack_cache_actsize s"
  "stack_cache_maxsize (stack_list_del e s) = stack_cache_maxsize s"
  "in_flight_stack (stack_list_del e s) = 0"
  "maps (stack_list_del e s) = maps s" "prots (stack_list_del e s) = prots s"
  "tls_live (stack_list_del e s) = tls_live s"
  "nptl_nthreads (stack_list_del e s) = nptl_nthreads s"
  "mallocs (stack_list_del e s) = mallocs s"
  by (simp_all add: stack_list_del_def Let_def)

lemma stack_list_add_sel [simp]:
  "pds (stack_list_add e l s) = pds s"
  "stack_cache (stack_list_add e Cache s) = e # stack_cache s"
  "stack_used (stack_list_add e Cache s) = stack_used s"
  "stack_cache (stack_list_add e Used s) = stack_cache s"
  "stack_used (stack_list_add e Used s) = e # stack_used s"
  "stack_user (stack_list_add e l s) = stack_user s"
  "stack_cache_actsize (stack_list_add e l s) = stack_cache_actsize s"
  "stack_cache_maxsize (stack_list_add e l s) = stack_cache_maxsize s"
  "in_flight_stack (stack_list_add e l s) = 0"
  "maps (stack_list_add e l s) = maps s" "prots (stack_list_add e l s) = prots s"
  "tls_live (stack_list_add e l s) = tls_live s"
  "nptl_nthreads (stack_list_add e l s) = nptl_nthreads s"
  "mallocs (stack_list_add e l s) = mallocs s"
  by (cases l; simp add: stack_list_add_def Let_def)+

lemma dequeue_cached_inv [inv_intros]:
  assumes "pool_inv s" "r \<in> set (stack_cache s)"
  shows "pool_inv (dequeue_cached r s)"
proof -
  define t where "t = upd_pd r (\<lambda>p. p\<lparr>pd_setxid_futex := - 1\<rparr>) s"
  have t: "pool_inv t"
    unfolding t_def by (rule same_pool_inv [OF same_pool_upd_pd assms(1)]) (simp add: same_block_def)
  have r: "r \<in> set (stack_cache t)" using assms(2) by (simp add: t_def)
  have nu: "remove1 r (stack_used t) = stack_used t" "remove1 r (stack_user t) = stack_user t"
    using t r by (auto simp: pool_inv_def intro!: remove1_idem)
  have d: "distinct (stack_cache t)" "distinct (stack_used t)" using t by (auto simp: pool_inv_def)
  have sets: "set (remove1 r (stack_cache t)) \<union> insert r (set (stack_used t)) =
      set (stack_cache t) \<union> set (stack_used t)" using r d by auto
  let ?u = "(stack_list_add r Used (stack_list_del r t))
    \<lparr>stack_cache_actsize := stack_cache_actsize t - pd_stackblock_size (pds t r)\<rparr>"
  have sys: "set (sys_stacks ?u) = set (sys_stacks t)"
    using sets by (simp add: sys_stacks_def nu)
  have "pool_inv ?u"
    unfolding pool_inv_def sys
    using t r d
    by (auto simp: pool_inv_def block_ok_def guard_ok_def nu sum_list_remove1_word)
  moreover have "dequeue_cached r s = ?u"
    by (simp add: dequeue_cached_def t_def Let_def)
  ultimately show ?thesis by simp
qed

text \<open>A stack in use that is taken off its list and put on the cache.\<close>

lemma requeue_inv:
  assumes "pool_inv s" "p \<in> set (stack_used s)"
  shows "pool_inv ((stack_list_add p Cache (stack_list_del p s))
    \<lparr>stack_cache_actsize := stack_cache_actsize s + pd_stackblock_size (pds s p)\<rparr>)"
    (is "pool_inv ?u")
proof -
  have nu: "remove1 p (stack_cache s) = stack_cache s" "remove1 p (stack_user s) = stack_user s"
    using assms by (auto simp: pool_inv_def intro!: remove1_idem)
  have d: "distinct (stack_cache s)" "distinct (stack_used s)" using assms(1) by (auto simp: pool_inv_def)
  have sys: "set (sys_stacks ?u) = set (sys_stacks s)"
    using assms d by (auto simp: sys_stacks_def nu)
  show ?thesis
    unfolding pool_inv_def sys
    using assms d by (auto simp: pool_inv_def block_ok_def guard_ok_def nu)
qed

text \<open>A cached stack that is unmapped.\<close>

lemma drop_cached_inv:
  assumes "pool_inv s" "p \<in> set (stack_cache s)"
  shows "pool_inv ((stack_list_del p s)
    \<lparr>stack_cache_actsize := stack_cache_actsize s - pd_stackblock_size (pds s p),
     tls_live := tls_live s - {p}, maps := (maps s)(pd_stackblock (pds s p) := None)\<rparr>)"
    (is "pool_inv ?u")
proof -
  have nu: "remove1 p (stack_used s) = stack_used s" "remove1 p (stack_user s) = stack_user s"
    "p \<notin> set (stack_used s)" "p \<notin> set (stack_user s)"
    using assms by (auto simp: pool_inv_def intro!: remove1_idem)
  have d: "distinct (stack_cache s)" using assms(1) by (auto simp: pool_inv_def)
  have sys: "set (sys_stacks ?u) = set (sys_stacks s) - {p}" "p \<in> set (sys_stacks s)"
    using assms d nu by (auto simp: sys_stacks_def)
  have inj: "inj_on (\<lambda>p. pd_stackblock (pds s p)) (set (sys_stacks s))"
    using assms(1) by (simp add: pool_inv_def)
  have blk: "pd_stackblock (pds s q) \<noteq> pd_stackblock (pds s p)"
    if "q \<in> set (sys_stacks s)" "q \<noteq> p" for q
    using inj that sys(2) by (auto dest: inj_onD)
  have img: "(\<lambda>q. pd_stackblock (pds s q)) ` (set (sys_stacks s) - {p}) =
      (\<lambda>q. pd_stackblock (pds s q)) ` set (sys_stacks s) - {pd_stackblock (pds s p)}"
    using blk sys(2) by auto
  have ok: "block_ok ?u q \<and> guard_ok ?u q" if "q \<in> set (sys_stacks s) - {p}" for q
    using assms(1) that blk by (auto simp: pool_inv_def block_ok_def guard_ok_def Let_def)
  show ?thesis
    unfolding pool_inv_def sys
    using assms d nu ok inj img
    by (auto simp: pool_inv_def sum_list_remove1_word maps_disjoint_def inj_on_diff)
qed

subsection \<open>The search of the cache is best fit\<close>

definition candidates :: "(u64 \<Rightarrow> pthread) \<Rightarrow> u64 \<Rightarrow> u64 list \<Rightarrow> u64 list" where
  "candidates h sz xs = filter (\<lambda>p. FREE_P (h p) \<and> sz \<le> pd_stackblock_size (h p)) xs"

text \<open>The reference: the first of the smallest candidates.\<close>

definition best_fit :: "(u64 \<Rightarrow> pthread) \<Rightarrow> u64 \<Rightarrow> u64 list \<Rightarrow> u64 option" where
  "best_fit h sz xs =
    (let c = candidates h sz xs
     in if c = [] then None else Some (arg_min_list (\<lambda>p. pd_stackblock_size (h p)) c))"

lemma arg_min_list_Cons:
  "arg_min_list f (x # xs) =
    (if xs = [] then x else if f x \<le> f (arg_min_list f xs) then x else arg_min_list f xs)"
  by (cases xs) (simp_all add: Let_def)

lemma arg_min_list_exact:
  assumes "\<forall>y \<in> set xs. f x \<le> f y"
  shows "arg_min_list f (x # xs) = x"
  using assms by (auto simp: arg_min_list_Cons arg_min_list_in)

lemma find_cached_Some:
  assumes "FREE_P (h r)" "sz < pd_stackblock_size (h r)"
  shows "find_cached h sz (Some r) xs =
    Some (arg_min_list (\<lambda>p. pd_stackblock_size (h p)) (r # candidates h sz xs))"
  using assms
proof (induction xs arbitrary: r)
  case Nil
  then show ?case by (simp add: candidates_def)
next
  case (Cons cur rest)
  let ?f = "\<lambda>p. pd_stackblock_size (h p)"
  let ?c = "candidates h sz rest"
  show ?case
  proof (cases "FREE_P (h cur) \<and> sz \<le> ?f cur")
    case False
    then show ?thesis using Cons by (auto simp: candidates_def)
  next
    case True
    then have c: "candidates h sz (cur # rest) = cur # ?c" by (simp add: candidates_def)
    have ge: "\<forall>y \<in> set ?c. sz \<le> ?f y" by (simp add: candidates_def)
    consider (exact) "?f cur = sz" | (better) "?f cur \<noteq> sz" "?f cur < ?f r"
      | (worse) "?f cur \<noteq> sz" "\<not> ?f cur < ?f r" by blast
    then show ?thesis
    proof cases
      case exact
      then have "arg_min_list ?f (cur # ?c) = cur" using ge by (intro arg_min_list_exact) auto
      then show ?thesis using exact True Cons.prems
        by (auto simp: c arg_min_list_Cons [of ?f r] dest: leD)
    next
      case better
      have "?f (arg_min_list ?f (cur # ?c)) \<le> ?f cur"
        by (auto simp: arg_min_list_Cons)
      then have "arg_min_list ?f (r # cur # ?c) = arg_min_list ?f (cur # ?c)"
        using better by (auto simp: Let_def dest: leD)
      moreover have "sz < ?f cur" using better True by auto
      ultimately show ?thesis using better True Cons.IH [of cur] by (simp add: c)
    next
      case worse
      have "arg_min_list ?f (r # cur # ?c) = arg_min_list ?f (r # ?c)"
        using worse by (auto simp: arg_min_list_Cons [of ?f r] arg_min_list_Cons [of ?f cur])
      then show ?thesis using worse True Cons by (simp add: c)
    qed
  qed
qed

lemma find_cached_best_fit: "find_cached h sz None xs = best_fit h sz xs"
proof (induction xs)
  case Nil
  then show ?case by (simp add: best_fit_def candidates_def)
next
  case (Cons cur rest)
  let ?f = "\<lambda>p. pd_stackblock_size (h p)"
  let ?c = "candidates h sz rest"
  show ?case
  proof (cases "FREE_P (h cur) \<and> sz \<le> ?f cur")
    case False
    then show ?thesis using Cons by (auto simp: best_fit_def candidates_def)
  next
    case True
    then have c: "candidates h sz (cur # rest) = cur # ?c" by (simp add: candidates_def)
    have ge: "\<forall>y \<in> set ?c. sz \<le> ?f y" by (simp add: candidates_def)
    show ?thesis
    proof (cases "?f cur = sz")
      case True': True
      then have "arg_min_list ?f (cur # ?c) = cur" using ge by (intro arg_min_list_exact) auto
      then show ?thesis using True True' by (simp add: best_fit_def c)
    next
      case False
      then have "sz < ?f cur" using True by auto
      then show ?thesis using True False
        by (simp add: find_cached_Some best_fit_def c)
    qed
  qed
qed

lemma best_fitD:
  assumes "best_fit h sz xs = Some r"
  shows "r \<in> set xs" "FREE_P (h r)" "sz \<le> pd_stackblock_size (h r)"
    "\<And>q. q \<in> set xs \<Longrightarrow> FREE_P (h q) \<Longrightarrow> sz \<le> pd_stackblock_size (h q) \<Longrightarrow>
      pd_stackblock_size (h r) \<le> pd_stackblock_size (h q)"
proof -
  let ?f = "\<lambda>p. pd_stackblock_size (h p)"
  have c: "candidates h sz xs \<noteq> []" "r = arg_min_list ?f (candidates h sz xs)"
    using assms by (auto simp: best_fit_def Let_def split: if_splits)
  have r: "r \<in> set (candidates h sz xs)" using c by (simp add: arg_min_list_in)
  then show "r \<in> set xs" "FREE_P (h r)" "sz \<le> ?f r" by (auto simp: candidates_def)
  fix q assume "q \<in> set xs" "FREE_P (h q)" "sz \<le> ?f q"
  then have "q \<in> set (candidates h sz xs)" by (simp add: candidates_def)
  moreover have "?f r = Min (?f ` set (candidates h sz xs))"
    unfolding c(2) by (rule f_arg_min_list_f [OF c(1)])
  ultimately show "?f r \<le> ?f q" by simp
qed

lemma best_fit_None:
  "best_fit h sz xs = None \<longleftrightarrow>
    (\<forall>q \<in> set xs. FREE_P (h q) \<longrightarrow> pd_stackblock_size (h q) < sz)"
  by (auto simp: best_fit_def candidates_def Let_def filter_empty_conv not_le)

text \<open>A free head entry of exactly the requested size is what the search returns.\<close>

lemma best_fit_head:
  "FREE_P (h p) \<Longrightarrow> pd_stackblock_size (h p) = sz \<Longrightarrow> best_fit h sz (p # xs) = Some p"
  by (simp add: find_cached_best_fit [symmetric])

subsection \<open>Getting a stack\<close>

lemma get_cached_stack_None:
  assumes "get_cached_stack k sz s = (None, s')"
  shows "same_pool s s'" "pds s' = pds s"
  using assms
  by (auto simp: get_cached_stack_def Let_def split: option.splits if_splits
      intro: same_pool_trans [OF same_pool_locks(1) same_pool_locks(2)])
    (simp_all add: lock_cache_def unlock_cache_def)

lemma get_cached_stack_inv [inv_intros]:
  assumes "pool_inv s" "get_cached_stack k sz s = (r, s')"
  shows "pool_inv s'"
proof (cases r)
  case None
  then show ?thesis using assms get_cached_stack_None same_pool_inv by blast
next
  case (Some x)
  let ?l = "lock_cache s"
  obtain p where p: "find_cached (pds ?l) sz None (stack_cache ?l) = Some p"
    "s' = reset_cached k p (unlock_cache (dequeue_cached p ?l))"
    using assms(2) Some
    by (auto simp: get_cached_stack_def Let_def split: option.splits if_splits)
  have "p \<in> set (stack_cache ?l)"
    using p(1) best_fitD(1) unfolding find_cached_best_fit by blast
  then have "pool_inv (dequeue_cached p ?l)"
    using assms(1) by (intro dequeue_cached_inv same_pool_inv [OF same_pool_locks(1)])
  then show ?thesis unfolding p(2)
    by (intro same_pool_inv [OF same_pool_reset_cached] same_pool_inv [OF same_pool_locks(2)])
qed

lemma reset_cached_sel [simp]:
  "pds (reset_cached k r s) = (pds s)(r := (pds s r)
     \<lparr>pd_cancelhandling := {}, pd_cleanup := 0, pd_nextevent := 0, pd_tls_state := 0,
      pd_dtv := dl_allocate_tls_init k (replicate (length (pd_dtv (pds s r))) 0)\<rparr>)"
  "stack_cache (reset_cached k r s) = stack_cache s"
  "stack_used (reset_cached k r s) = stack_used s"
  "stack_user (reset_cached k r s) = stack_user s"
  "stack_cache_actsize (reset_cached k r s) = stack_cache_actsize s"
  "stack_cache_maxsize (reset_cached k r s) = stack_cache_maxsize s"
  "stack_cache_lock (reset_cached k r s) = stack_cache_lock s"
  "maps (reset_cached k r s) = maps s" "prots (reset_cached k r s) = prots s"
  "tls_live (reset_cached k r s) = tls_live s"
  "nptl_nthreads (reset_cached k r s) = nptl_nthreads s"
  "mallocs (reset_cached k r s) = mallocs s - (set (pd_dtv (pds s r)) - {0})"
  by (simp_all add: reset_cached_def Let_def free_all_mallocs)

lemma lock_sel [simp]:
  "pds (lock_cache s) = pds s" "pds (unlock_cache s) = pds s"
  "stack_cache (lock_cache s) = stack_cache s" "stack_cache (unlock_cache s) = stack_cache s"
  "stack_used (lock_cache s) = stack_used s" "stack_used (unlock_cache s) = stack_used s"
  "stack_user (lock_cache s) = stack_user s" "stack_user (unlock_cache s) = stack_user s"
  "stack_cache_actsize (lock_cache s) = stack_cache_actsize s"
  "stack_cache_actsize (unlock_cache s) = stack_cache_actsize s"
  "stack_cache_maxsize (lock_cache s) = stack_cache_maxsize s"
  "stack_cache_maxsize (unlock_cache s) = stack_cache_maxsize s"
  "maps (lock_cache s) = maps s" "maps (unlock_cache s) = maps s"
  "prots (lock_cache s) = prots s" "prots (unlock_cache s) = prots s"
  "tls_live (lock_cache s) = tls_live s" "tls_live (unlock_cache s) = tls_live s"
  "mallocs (lock_cache s) = mallocs s" "mallocs (unlock_cache s) = mallocs s"
  "nptl_nthreads (lock_cache s) = nptl_nthreads s"
  "nptl_nthreads (unlock_cache s) = nptl_nthreads s"
  "stack_cache_lock (lock_cache s)" "\<not> stack_cache_lock (unlock_cache s)"
  by (simp_all add: lock_cache_def unlock_cache_def)

lemma dequeue_cached_sel [simp]:
  "pds (dequeue_cached r s) = (pds s)(r := (pds s r)\<lparr>pd_setxid_futex := - 1\<rparr>)"
  "stack_cache (dequeue_cached r s) = remove1 r (stack_cache s)"
  "stack_used (dequeue_cached r s) = r # remove1 r (stack_used s)"
  "stack_user (dequeue_cached r s) = remove1 r (stack_user s)"
  "stack_cache_actsize (dequeue_cached r s) =
     stack_cache_actsize s - pd_stackblock_size (pds s r)"
  "stack_cache_maxsize (dequeue_cached r s) = stack_cache_maxsize s"
  "maps (dequeue_cached r s) = maps s" "prots (dequeue_cached r s) = prots s"
  "tls_live (dequeue_cached r s) = tls_live s"
  "mallocs (dequeue_cached r s) = mallocs s"
  "nptl_nthreads (dequeue_cached r s) = nptl_nthreads s"
  by (simp_all add: dequeue_cached_def Let_def)

lemma get_cached_stack_Some:
  assumes "get_cached_stack k sz s = (Some (r, sizep, memp), s')"
  shows "best_fit (pds s) sz (stack_cache s) = Some r"
    "sizep = pd_stackblock_size (pds s r)" "memp = pd_stackblock (pds s r)"
    "sizep \<le> 4 * sz"
    "s' = reset_cached k r (unlock_cache (dequeue_cached r (lock_cache s)))"
  using assms
  by (auto simp: get_cached_stack_def Let_def find_cached_best_fit
      split: option.splits if_splits)

lemma get_cached_stack_miss:
  "fst (get_cached_stack k sz s) = None \<longleftrightarrow>
    (case best_fit (pds s) sz (stack_cache s) of
       None \<Rightarrow> True
     | Some r \<Rightarrow> pd_stackblock_size (pds s r) > 4 * sz)"
  by (auto simp: get_cached_stack_def Let_def find_cached_best_fit split: option.splits)

subsection \<open>Trimming\<close>

text \<open>One iteration that frees an entry, when the \<open>munmap\<close> succeeds.\<close>

definition drop_cached :: "u64 \<Rightarrow> nptl \<Rightarrow> nptl" where
  "drop_cached p s = (stack_list_del p s)
    \<lparr>stack_cache_actsize := stack_cache_actsize s - pd_stackblock_size (pds s p),
     tls_live := tls_live s - {p}, maps := (maps s)(pd_stackblock (pds s p) := None)\<rparr>"

lemma drop_cached_sel [simp]:
  "pds (drop_cached p s) = pds s"
  "stack_cache (drop_cached p s) = remove1 p (stack_cache s)"
  "stack_used (drop_cached p s) = remove1 p (stack_used s)"
  "stack_user (drop_cached p s) = remove1 p (stack_user s)"
  "stack_cache_actsize (drop_cached p s) = stack_cache_actsize s - pd_stackblock_size (pds s p)"
  "stack_cache_maxsize (drop_cached p s) = stack_cache_maxsize s"
  "prots (drop_cached p s) = prots s"
  "nptl_nthreads (drop_cached p s) = nptl_nthreads s"
  "mallocs (drop_cached p s) = mallocs s"
  by (simp_all add: drop_cached_def)

lemma free_stacks_loop_Cons:
  "free_stacks_loop k limit (cur # prev) s =
    (if FREE_P (pds s cur)
     then if sys_munmap k (pd_stackblock (pds s cur)) (pd_stackblock_size (pds s cur)) \<noteq> None
          then None
          else if stack_cache_actsize (drop_cached cur s) \<le> limit then Some (drop_cached cur s)
          else free_stacks_loop k limit prev (drop_cached cur s)
     else free_stacks_loop k limit prev s)"
  by (auto simp: Let_def munmap_def dl_deallocate_tls_def drop_cached_def split: option.splits)

declare free_stacks_loop.simps(2) [simp del]

lemma free_stacks_loop_inv:
  assumes "free_stacks_loop k limit es s = Some s'" "pool_inv s" "distinct es"
    "set es \<subseteq> set (stack_cache s)"
  shows "pool_inv s'"
  using assms
proof (induction es arbitrary: s)
  case Nil
  then show ?case by simp
next
  case (Cons cur prev)
  have drop: "pool_inv (drop_cached cur s)"
    unfolding drop_cached_def using Cons.prems by (intro drop_cached_inv) auto
  have "distinct (stack_cache s)" using Cons.prems by (simp add: pool_inv_def)
  then have sub: "set prev \<subseteq> set (stack_cache (drop_cached cur s))"
    using Cons.prems by auto
  show ?case
    using Cons.prems drop sub Cons.IH [of "drop_cached cur s"] Cons.IH [of s]
    by (auto simp: free_stacks_loop_Cons split: if_splits)
qed

lemma free_stacks_inv [inv_intros]:
  assumes "free_stacks k limit s = Some s'" "pool_inv s"
  shows "pool_inv s'"
  using assms
  by (intro free_stacks_loop_inv [of k limit "rev (stack_cache s)" s s'])
    (auto simp: free_stacks_def pool_inv_def)

text \<open>
  What the walk leaves: a prefix of the cache and, of the part it visited, the entries whose
  thread still runs. \<open>suf\<close> is what the walk did not reach.
\<close>

definition pool_frame :: "nptl \<Rightarrow> nptl \<Rightarrow> bool" where
  "pool_frame s s' \<longleftrightarrow>
    pds s' = pds s \<and> stack_used s' = stack_used s \<and> stack_user s' = stack_user s \<and>
    prots s' = prots s \<and> stack_cache_maxsize s' = stack_cache_maxsize s \<and>
    mallocs s' = mallocs s \<and> nptl_nthreads s' = nptl_nthreads s"

lemma free_stacks_loop_shape:
  assumes "free_stacks_loop k limit es s = Some s'"
    "stack_cache s = rev es @ kept" "distinct (stack_cache s)"
    "set es \<inter> (set (stack_used s) \<union> set (stack_user s)) = {}"
  shows "(\<exists>pre suf. es = pre @ suf \<and>
    stack_cache s' = rev suf @ filter (\<lambda>p. \<not> FREE_P (pds s p)) (rev pre) @ kept \<and>
    (suf \<noteq> [] \<longrightarrow> stack_cache_actsize s' \<le> limit)) \<and> pool_frame s s'"
  using assms
proof (induction es arbitrary: s kept)
  case Nil
  then show ?case by (simp add: pool_frame_def)
next
  case (Cons cur prev)
  have nin: "cur \<notin> set prev" "cur \<notin> set kept" using Cons.prems by auto
  have nu: "remove1 cur (stack_used s) = stack_used s" "remove1 cur (stack_user s) = stack_user s"
    using Cons.prems by (auto intro!: remove1_idem)
  have rm: "stack_cache (drop_cached cur s) = rev prev @ kept"
    using Cons.prems(2) nin by (simp add: remove1_append)
  have frame: "pool_frame s (drop_cached cur s)" by (simp add: pool_frame_def nu)
  show ?case
  proof (cases "FREE_P (pds s cur)")
    case False
    then have "free_stacks_loop k limit prev s = Some s'"
      using Cons.prems by (simp add: free_stacks_loop_Cons)
    from Cons.IH [OF this, of "cur # kept"] Cons.prems obtain pre suf where
      *: "prev = pre @ suf"
      "stack_cache s' = rev suf @ filter (\<lambda>p. \<not> FREE_P (pds s p)) (rev pre) @ cur # kept"
      "suf \<noteq> [] \<longrightarrow> stack_cache_actsize s' \<le> limit" "pool_frame s s'"
      by auto
    then show ?thesis using False
      by (intro conjI exI [of _ "cur # pre"] exI [of _ suf]) auto
  next
    case True
    show ?thesis
    proof (cases "stack_cache_actsize (drop_cached cur s) \<le> limit")
      case le: True
      then have "s' = drop_cached cur s"
        using Cons.prems True by (simp add: free_stacks_loop_Cons split: if_splits)
      then show ?thesis using True rm frame le
        by (intro conjI exI [of _ "[cur]"] exI [of _ prev]) auto
    next
      case False
      then have "free_stacks_loop k limit prev (drop_cached cur s) = Some s'"
        using Cons.prems True by (simp add: free_stacks_loop_Cons split: if_splits)
      from Cons.IH [OF this rm] Cons.prems nu obtain pre suf where
        *: "prev = pre @ suf"
        "stack_cache s' = rev suf @ filter (\<lambda>p. \<not> FREE_P (pds s p)) (rev pre) @ kept"
        "suf \<noteq> [] \<longrightarrow> stack_cache_actsize s' \<le> limit" "pool_frame (drop_cached cur s) s'"
        by auto
      then show ?thesis using True frame
        by (intro conjI exI [of _ "cur # pre"] exI [of _ suf]) (auto simp: pool_frame_def)
    qed
  qed
qed

text \<open>The walk frees no more than it must: the last entry it freed was needed.\<close>

lemma free_stacks_loop_minimal:
  assumes "free_stacks_loop k limit es s = Some s'" "limit < stack_cache_actsize s"
    "stack_cache_actsize s' \<le> limit"
  shows "\<exists>q \<in> set es. FREE_P (pds s q) \<and>
    limit < stack_cache_actsize s' + pd_stackblock_size (pds s q)"
  using assms
proof (induction es arbitrary: s)
  case Nil
  then show ?case by simp
next
  case (Cons cur prev)
  show ?case
    using Cons.prems Cons.IH [of s] Cons.IH [of "drop_cached cur s"]
    by (auto simp: free_stacks_loop_Cons not_le split: if_splits)
qed

text \<open>The walk only fails where an \<open>munmap\<close> does.\<close>

lemma free_stacks_loop_total:
  assumes "\<And>b l. sys_munmap k b l = None"
  shows "\<exists>s'. free_stacks_loop k limit es s = Some s'"
  using assms
  by (induction es arbitrary: s) (auto simp: free_stacks_loop_Cons)

lemma free_stacks_shape:
  assumes "free_stacks k limit s = Some s'" "pool_inv s"
  shows "\<exists>n. stack_cache s' = take n (stack_cache s) @
      filter (\<lambda>p. \<not> FREE_P (pds s p)) (drop n (stack_cache s)) \<and>
    (0 < n \<longrightarrow> stack_cache_actsize s' \<le> limit)" "pool_frame s s'"
proof -
  have "(\<exists>pre suf. rev (stack_cache s) = pre @ suf \<and>
    stack_cache s' = rev suf @ filter (\<lambda>p. \<not> FREE_P (pds s p)) (rev pre) @ [] \<and>
    (suf \<noteq> [] \<longrightarrow> stack_cache_actsize s' \<le> limit)) \<and> pool_frame s s'"
    using assms by (intro free_stacks_loop_shape) (auto simp: free_stacks_def pool_inv_def)
  then obtain pre suf where ps: "rev (stack_cache s) = pre @ suf"
    "stack_cache s' = rev suf @ filter (\<lambda>p. \<not> FREE_P (pds s p)) (rev pre)"
    "suf \<noteq> [] \<longrightarrow> stack_cache_actsize s' \<le> limit" and fr: "pool_frame s s'" by auto
  have "stack_cache s = rev suf @ rev pre" using ps(1) by (simp add: rev_swap)
  then show "\<exists>n. stack_cache s' = take n (stack_cache s) @
      filter (\<lambda>p. \<not> FREE_P (pds s p)) (drop n (stack_cache s)) \<and>
    (0 < n \<longrightarrow> stack_cache_actsize s' \<le> limit)"
    using ps(2,3) by (intro exI [of _ "length suf"]) auto
  show "pool_frame s s'" by (rule fr)
qed

subsection \<open>Returning a stack\<close>

lemma drop_user_inv:
  assumes "pool_inv s" "p \<in> set (stack_user s)"
  shows "pool_inv ((stack_list_del p s)\<lparr>tls_live := tls_live s - {p}\<rparr>)" (is "pool_inv ?u")
proof -
  have nu: "remove1 p (stack_used s) = stack_used s" "remove1 p (stack_cache s) = stack_cache s"
    "p \<notin> set (stack_used s)" "p \<notin> set (stack_cache s)"
    using assms by (auto simp: pool_inv_def intro!: remove1_idem)
  have d: "distinct (stack_user s)" using assms(1) by (auto simp: pool_inv_def)
  have sys: "set (sys_stacks ?u) = set (sys_stacks s)" by (simp add: sys_stacks_def nu)
  show ?thesis
    unfolding pool_inv_def sys
    using assms d nu by (auto simp: pool_inv_def block_ok_def guard_ok_def)
qed

text \<open>What \<open>queue_stack\<close> holds before it looks at the limit.\<close>

definition queued :: "u64 \<Rightarrow> nptl \<Rightarrow> nptl" where
  "queued p s = (stack_list_add p Cache (stack_list_del p s))
    \<lparr>stack_cache_actsize := stack_cache_actsize s + pd_stackblock_size (pds s p)\<rparr>"

lemma queued_sel [simp]:
  "pds (queued p s) = pds s"
  "stack_cache (queued p s) = p # remove1 p (stack_cache s)"
  "stack_used (queued p s) = remove1 p (stack_used s)"
  "stack_user (queued p s) = remove1 p (stack_user s)"
  "stack_cache_actsize (queued p s) = stack_cache_actsize s + pd_stackblock_size (pds s p)"
  "stack_cache_maxsize (queued p s) = stack_cache_maxsize s"
  "maps (queued p s) = maps s" "prots (queued p s) = prots s" "tls_live (queued p s) = tls_live s"
  "nptl_nthreads (queued p s) = nptl_nthreads s" "mallocs (queued p s) = mallocs s"
  by (simp_all add: queued_def)

lemma deallocate_stack_eq:
  "deallocate_stack k pd s =
    (if pd_user_stack (pds s pd)
     then Some (unlock_cache (dl_deallocate_tls pd (stack_list_del pd (lock_cache s))))
     else if stack_cache_maxsize s < stack_cache_actsize s + pd_stackblock_size (pds s pd)
     then map_option unlock_cache
            (free_stacks k (stack_cache_maxsize s) (queued pd (lock_cache s)))
     else Some (unlock_cache (queued pd (lock_cache s))))"
  by (simp add: deallocate_stack_def queue_stack_def queued_def Let_def map_conv_bind_option comp_def)

lemma deallocate_stack_inv [inv_intros]:
  assumes "pool_inv s" "pd \<in> set (stack_used s) \<union> set (stack_user s)"
    "deallocate_stack k pd s = Some s'"
  shows "pool_inv s'"
proof (cases "pd_user_stack (pds s pd)")
  case True
  have l: "pool_inv (lock_cache s)" using assms(1) by (rule same_pool_inv [OF same_pool_locks(1)])
  have "pd \<in> set (stack_user s)"
    using assms(1,2) True by (auto simp: pool_inv_def sys_stacks_def block_ok_def Let_def)
  then have "pool_inv (dl_deallocate_tls pd (stack_list_del pd (lock_cache s)))"
    using drop_user_inv [OF l] by (simp add: dl_deallocate_tls_def)
  then show ?thesis using assms(3) True
    by (auto simp: deallocate_stack_eq intro: same_pool_inv [OF same_pool_locks(2)])
next
  case False
  have l: "pool_inv (lock_cache s)" using assms(1) by (rule same_pool_inv [OF same_pool_locks(1)])
  have "pd \<in> set (stack_used s)" using assms(1,2) False by (auto simp: pool_inv_def)
  then have q: "pool_inv (queued pd (lock_cache s))"
    unfolding queued_def using requeue_inv [OF l] by simp
  obtain t where "s' = unlock_cache t"
    "t = queued pd (lock_cache s) \<or>
     free_stacks k (stack_cache_maxsize s) (queued pd (lock_cache s)) = Some t"
    using assms(3) False by (auto simp: deallocate_stack_eq split: if_splits)
  then show ?thesis using q free_stacks_inv same_pool_inv [OF same_pool_locks(2)] by blast
qed

text \<open>After a return the cache is within its limit, or none of its entries could be freed.\<close>

lemma deallocate_stack_bound:
  assumes "pool_inv s" "pd \<in> set (stack_used s)" "deallocate_stack k pd s = Some s'"
  shows "stack_cache_actsize s' \<le> stack_cache_maxsize s \<or>
    (\<forall>p \<in> set (stack_cache s'). \<not> FREE_P (pds s' p))"
proof -
  have l: "pool_inv (lock_cache s)" using assms(1) by (rule same_pool_inv [OF same_pool_locks(1)])
  have nu: "\<not> pd_user_stack (pds s pd)"
    using assms(1,2) by (auto simp: pool_inv_def sys_stacks_def block_ok_def Let_def)
  have q: "pool_inv (queued pd (lock_cache s))"
    unfolding queued_def using requeue_inv [OF l] assms(2) by simp
  show ?thesis
  proof (cases "stack_cache_maxsize s < stack_cache_actsize s + pd_stackblock_size (pds s pd)")
    case True
    then obtain t where t: "s' = unlock_cache t"
      "free_stacks k (stack_cache_maxsize s) (queued pd (lock_cache s)) = Some t"
      using assms(3) nu by (auto simp: deallocate_stack_eq)
    from free_stacks_shape [OF t(2) q] obtain n where
      "stack_cache t = take n (stack_cache (queued pd (lock_cache s))) @
         filter (\<lambda>p. \<not> FREE_P (pds s p)) (drop n (stack_cache (queued pd (lock_cache s))))"
      "0 < n \<longrightarrow> stack_cache_actsize t \<le> stack_cache_maxsize s" "pds t = pds s"
      by (auto simp: pool_frame_def)
    then show ?thesis by (cases n) (auto simp: t(1))
  next
    case False
    then show ?thesis using assms(3) nu by (auto simp: deallocate_stack_eq)
  qed
qed

text \<open>A return that stays within the limit puts the stack at the head of the cache.\<close>

lemma deallocate_stack_cached:
  assumes "\<not> pd_user_stack (pds s pd)"
    "stack_cache_actsize s + pd_stackblock_size (pds s pd) \<le> stack_cache_maxsize s"
  shows "deallocate_stack k pd s = Some (unlock_cache (queued pd (lock_cache s)))"
  using assms by (auto simp: deallocate_stack_eq dest: leD)

lemma find_in_stack_list_iff:
  "fst (find_in_stack_list pd s) =
    (if pd \<in> set (stack_used s) \<union> set (stack_user s) then Some pd else None)"
proof -
  have f: "find (\<lambda>c. c = pd) xs = (if pd \<in> set xs then Some pd else None)" for xs
    by (induction xs) auto
  show ?thesis by (simp add: find_in_stack_list_def Let_def f)
qed

subsection \<open>A new block, a block given up, a new guard\<close>

lemma not_on_lists:
  assumes "pool_inv s" "in_range mem sz pd"
    and "\<And>b l. maps s b = Some l \<Longrightarrow> disjoint_ranges mem sz b l"
    and "\<forall>u \<in> set (stack_user s). \<not> in_range mem sz u"
  shows "pd \<notin> set (stack_cache s)" "pd \<notin> set (stack_used s)" "pd \<notin> set (stack_user s)"
proof -
  have "pd \<notin> set (sys_stacks s)"
  proof
    assume "pd \<in> set (sys_stacks s)"
    then have "block_ok s pd" using assms(1) by (simp add: pool_inv_def)
    then show False using assms(2,3) by (auto simp: block_ok_def Let_def dest: disjoint_rangesD)
  qed
  then show "pd \<notin> set (stack_cache s)" "pd \<notin> set (stack_used s)" "pd \<notin> set (stack_user s)"
    using assms(2,4) by (auto simp: sys_stacks_def)
qed

lemma maps_disjoint_insert:
  assumes "maps_disjoint m" "\<And>b l. m b = Some l \<Longrightarrow> disjoint_ranges mem sz b l"
  shows "maps_disjoint (m(mem \<mapsto> sz))"
  unfolding maps_disjoint_def
proof (intro allI impI)
  fix b l b' l'
  assume m: "(m(mem \<mapsto> sz)) b = Some l" "(m(mem \<mapsto> sz)) b' = Some l'" "b \<noteq> b'"
  have "disjoint_ranges b l b' l'" if "m b = Some l" "m b' = Some l'"
    using assms(1) that m(3) by (auto simp: maps_disjoint_def)
  then show "disjoint_ranges b l b' l'"
    using m assms(2) [of b' l'] disjoint_ranges_sym [OF assms(2) [of b l]]
    by (auto split: if_splits)
qed

lemma inj_on_insert_agree:
  assumes "inj_on f A" "\<And>x. x \<in> A \<Longrightarrow> g x = f x" "\<And>x. x \<in> A \<Longrightarrow> f x \<noteq> g a"
  shows "inj_on g (insert a A)"
  using assms by (auto simp: inj_on_def) (metis assms(2))+

text \<open>A block apart from the new one stays as it is.\<close>

lemma old_block_ok:
  assumes inv: "pool_inv s" and p: "p \<in> set (sys_stacks s)" and same: "pds s' p = pds s p"
    and new: "\<And>b l. maps s b = Some l \<Longrightarrow> disjoint_ranges mem sz b l" "mem \<notin> dom (maps s)"
    and pr: "\<And>a. \<not> in_range mem sz a \<Longrightarrow> prots s' a = prots s a" and eq: "maps s' = (maps s)(mem \<mapsto> sz)"
  shows "block_ok s' p \<and> guard_ok s' p" "pd_stackblock (pds s p) \<noteq> mem"
proof -
  have b: "maps s (pd_stackblock (pds s p)) = Some (pd_stackblock_size (pds s p))"
    using inv p by (auto simp: pool_inv_def block_ok_def Let_def)
  then show ne: "pd_stackblock (pds s p) \<noteq> mem" using new(2) by auto
  have "prots s' a = prots s a"
    if "in_range (pd_stackblock (pds s p)) (pd_stackblock_size (pds s p)) a" for a
    using that new(1) [OF b] by (intro pr) (auto simp: disjoint_ranges_def)
  then show "block_ok s' p \<and> guard_ok s' p" using inv p same ne
    by (auto simp: pool_inv_def block_ok_def guard_ok_def eq Let_def)
qed

lemma add_block_inv:
  assumes inv: "pool_inv s"
    and pd: "in_range mem sz pd"
    and new: "mem \<notin> dom (maps s)"
      "\<And>b l. maps s b = Some l \<Longrightarrow> disjoint_ranges mem sz b l"
      "\<forall>u \<in> set (stack_user s). \<not> in_range mem sz u"
    and d: "pd_stackblock (pds s' pd) = mem" "pd_stackblock_size (pds s' pd) = sz"
      "pd_guardsize (pds s' pd) = g" "\<not> pd_user_stack (pds s' pd)" "g \<le> sz"
    and others: "\<And>p. p \<noteq> pd \<Longrightarrow> pds s' p = pds s p"
    and pr: "\<And>a. in_range mem sz a \<Longrightarrow> prots s' a = PROT_NONE \<longleftrightarrow> in_range mem g a"
      "\<And>a. \<not> in_range mem sz a \<Longrightarrow> prots s' a = prots s a"
    and eq: "stack_cache s' = stack_cache s" "stack_used s' = pd # stack_used s"
      "stack_user s' = stack_user s" "stack_cache_actsize s' = stack_cache_actsize s"
      "maps s' = (maps s)(mem \<mapsto> sz)" "tls_live s' = insert pd (tls_live s)"
      "in_flight_stack s' = 0"
  shows "pool_inv s'"
proof -
  note nin = not_on_lists [OF inv pd new(2,3)]
  have sys: "set (sys_stacks s') = insert pd (set (sys_stacks s))"
    by (auto simp: sys_stacks_def eq)
  have same: "pds s' p = pds s p" if "p \<in> set (sys_stacks s) \<union> set (stack_user s)" for p
    using that nin by (intro others) (auto simp: sys_stacks_def)
  note old = old_block_ok [OF inv _ same new(2,1) pr(2) eq(5)]
  have blk: "pd_stackblock (pds s p) \<noteq> mem" if "p \<in> set (sys_stacks s)" for p
    using old(2) [OF that] that by simp
  have new_ok: "block_ok s' pd \<and> guard_ok s' pd"
    using pd d pr(1) by (simp add: block_ok_def guard_ok_def eq Let_def)
  have inj: "inj_on (\<lambda>p. pd_stackblock (pds s' p)) (insert pd (set (sys_stacks s)))"
    by (rule inj_on_insert_agree [where f = "\<lambda>p. pd_stackblock (pds s p)"])
      (use inv same blk d(1) in \<open>auto simp: pool_inv_def\<close>)
  have img: "(\<lambda>p. pd_stackblock (pds s' p)) ` insert pd (set (sys_stacks s)) =
      insert mem ((\<lambda>p. pd_stackblock (pds s p)) ` set (sys_stacks s))"
    using same d(1) by (auto simp: image_def)
  have sum: "map (\<lambda>p. pd_stackblock_size (pds s' p)) (stack_cache s) =
      map (\<lambda>p. pd_stackblock_size (pds s p)) (stack_cache s)"
    by (rule map_cong) (auto simp: same sys_stacks_def)
  have disj: "maps_disjoint (maps s')"
    unfolding eq using maps_disjoint_insert [OF _ new(2)] inv by (simp add: pool_inv_def)
  have dm: "dom (maps s') = (\<lambda>p. pd_stackblock (pds s' p)) ` insert pd (set (sys_stacks s))"
    using inv unfolding img by (simp add: eq pool_inv_def)
  have us: "\<forall>p \<in> set (stack_user s'). pd_user_stack (pds s' p)"
    using inv same by (auto simp: pool_inv_def eq)
  have dist: "distinct (stack_cache s' @ stack_used s' @ stack_user s')"
    using inv nin by (simp add: pool_inv_def eq)
  have tls: "tls_live s' = set (stack_cache s') \<union> set (stack_used s') \<union> set (stack_user s')"
    using inv by (auto simp: pool_inv_def eq)
  have act: "stack_cache_actsize s' =
      sum_list (map (\<lambda>p. pd_stackblock_size (pds s' p)) (stack_cache s'))"
    using inv by (simp add: pool_inv_def eq sum)
  have ok: "\<forall>p \<in> insert pd (set (sys_stacks s)). block_ok s' p \<and> guard_ok s' p"
    using old(1) new_ok by auto
  show ?thesis
    unfolding pool_inv_def sys
    by (intro conjI dist act ok us inj dm disj tls eq(7))
qed

lemma drop_used_inv:
  assumes "pool_inv s" "p \<in> set (stack_used s)"
  shows "pool_inv ((stack_list_del p s)
    \<lparr>tls_live := tls_live s - {p}, maps := (maps s)(pd_stackblock (pds s p) := None)\<rparr>)"
    (is "pool_inv ?u")
proof -
  let ?q = "(stack_list_add p Cache (stack_list_del p s))
    \<lparr>stack_cache_actsize := stack_cache_actsize s + pd_stackblock_size (pds s p)\<rparr>"
  have nu: "remove1 p (stack_cache s) = stack_cache s" "remove1 p (stack_user s) = stack_user s"
    using assms by (auto simp: pool_inv_def intro!: remove1_idem)
  have nin: "p \<notin> set (remove1 p (stack_used s))" using assms by (auto simp: pool_inv_def)
  have "pool_inv ?q" by (rule requeue_inv [OF assms])
  from drop_cached_inv [OF this, of p]
  have "pool_inv ((stack_list_del p ?q)\<lparr>stack_cache_actsize :=
      stack_cache_actsize ?q - pd_stackblock_size (pds ?q p),
      tls_live := tls_live ?q - {p}, maps := (maps ?q)(pd_stackblock (pds ?q p) := None)\<rparr>)"
    by simp
  then show ?thesis
    by (rule same_pool_inv [rotated])
      (simp add: same_pool_def same_block_def nu remove1_idem nin)
qed

lemma set_guard_inv:
  assumes inv: "pool_inv s" and p: "p \<in> set (sys_stacks s)"
    and d: "pds s' = (pds s)(p := (pds s p)\<lparr>pd_guardsize := g\<rparr>)"
      "g \<le> pd_stackblock_size (pds s p)"
    and pr: "\<And>a. in_range (pd_stackblock (pds s p)) (pd_stackblock_size (pds s p)) a \<Longrightarrow>
        prots s' a = PROT_NONE \<longleftrightarrow> in_range (pd_stackblock (pds s p)) g a"
      "\<And>a. \<not> in_range (pd_stackblock (pds s p)) (pd_stackblock_size (pds s p)) a \<Longrightarrow>
        prots s' a = prots s a"
    and eq: "stack_cache s' = stack_cache s" "stack_used s' = stack_used s"
      "stack_user s' = stack_user s" "stack_cache_actsize s' = stack_cache_actsize s"
      "maps s' = maps s" "tls_live s' = tls_live s" "in_flight_stack s' = 0"
  shows "pool_inv s'"
proof -
  let ?b = "\<lambda>q. pd_stackblock (pds s q)" and ?l = "\<lambda>q. pd_stackblock_size (pds s q)"
  have sys: "sys_stacks s' = sys_stacks s" by (simp add: sys_stacks_def eq)
  have f: "pd_stackblock (pds s' q) = ?b q" "pd_stackblock_size (pds s' q) = ?l q"
    "pd_user_stack (pds s' q) = pd_user_stack (pds s q)" for q
    by (simp_all add: d(1))
  have m: "maps s (?b q) = Some (?l q)" if "q \<in> set (sys_stacks s)" for q
    using inv that by (auto simp: pool_inv_def block_ok_def Let_def)
  have ok: "block_ok s' q \<and> guard_ok s' q" if q: "q \<in> set (sys_stacks s)" for q
  proof (cases "q = p")
    case True
    then show ?thesis using inv q d pr(1)
      by (auto simp: pool_inv_def block_ok_def guard_ok_def eq Let_def)
  next
    case False
    then have "?b q \<noteq> ?b p" using inv p q by (auto simp: pool_inv_def dest: inj_onD)
    then have "disjoint_ranges (?b q) (?l q) (?b p) (?l p)"
      using inv m [OF p] m [OF q] by (auto simp: pool_inv_def maps_disjoint_def)
    then have "prots s' a = prots s a" if "in_range (?b q) (?l q) a" for a
      using that by (intro pr(2)) (auto simp: disjoint_ranges_def)
    then show ?thesis using inv q False
      by (auto simp: pool_inv_def block_ok_def guard_ok_def eq d(1) Let_def)
  qed
  show ?thesis using inv ok by (simp add: pool_inv_def sys f eq)
qed

end
