(* ===== verification/Stack_Alloc.thy ===== *)
theory Stack_Alloc
  imports Stack_Pool
begin

text \<open>
  \<open>allocate_stack\<close> of \<open>allocatestack.c\<close>, in the order of the source: the size of the stack, the
  branch for memory of the user, the rounding and the checks of the sizes, the fresh mapping,
  the guard area, the fields every stack gets. The lemmas are about the sizes (no wrap-around
  survives the checks), about where the descriptor and the top of the stack lie, about the guard
  area and about the pool invariant.

  \<open>errno\<close> is read after the clean-up calls, so where an \<open>munmap\<close> between the failure and the
  \<open>return errno\<close> fails too, its error is what the caller sees.
\<close>

subsection \<open>Permissions\<close>

definition change_stack_perm :: "kern \<Rightarrow> u64 \<Rightarrow> nptl \<Rightarrow> errno option \<times> nptl" where
  "change_stack_perm k pd s =
    (let stack = pd_stackblock (pds s pd) + pd_guardsize (pds s pd);
         len = pd_stackblock_size (pds s pd) - pd_guardsize (pds s pd)
     in mprotect k stack len PROT_RWX s)"

definition guard_position :: "u64 \<Rightarrow> u64 \<Rightarrow> u64 \<Rightarrow> u64 \<Rightarrow> u64 \<Rightarrow> u64" where
  "guard_position mem sz guardsize pd m1 = mem"

definition setup_stack_prot ::
    "kern \<Rightarrow> u64 \<Rightarrow> u64 \<Rightarrow> u64 \<Rightarrow> u64 \<Rightarrow> prot \<Rightarrow> nptl \<Rightarrow> errno option \<times> nptl" where
  "setup_stack_prot k mem sz guard guardsize p s =
    (let guardend = guard + guardsize
     in mprotect k guardend (sz - guardsize) p s)"

text \<open>
  What an exiting thread gives back: the part of its stack below the current frame \<open>sp\<close>, page
  by page, less \<open>PTHREAD_STACK_MIN\<close>. The result is the range passed to \<open>madvise\<close>, if any; the
  failed assertion is \<open>None\<close>.
\<close>

definition advise_stack_range :: "kern \<Rightarrow> u64 \<Rightarrow> u64 \<Rightarrow> u64 \<Rightarrow> (u64 \<times> u64) option option" where
  "advise_stack_range k sp mem sz =
    (let freesize = (sp - mem) AND NOT (pagesize_m1 k)
     in if \<not> freesize < sz then None
        else Some (if freesize > pthread_stack_min k
                   then Some (mem, freesize - pthread_stack_min k) else None))"

subsection \<open>The size\<close>

definition MINIMAL_REST_STACK :: u64 where
  "MINIMAL_REST_STACK = 4096"

definition stack_size_of :: "pthread_attr \<Rightarrow> nptl \<Rightarrow> u64 \<times> nptl" where
  "stack_size_of attr s =
    (if at_stacksize attr \<noteq> 0 then (at_stacksize attr, s)
     else let s = s\<lparr>default_attr_lock := True\<rparr>; sz = default_stacksize s
          in (sz, s\<lparr>default_attr_lock := False\<rparr>))"

subsection \<open>A stack the user provides\<close>

definition allocate_user_stack ::
    "kern \<Rightarrow> pthread_attr \<Rightarrow> u64 \<Rightarrow> nptl \<Rightarrow> ((errno + u64) \<times> nptl) option" where
  "allocate_user_stack k attr sz s =
    (let stackaddr = at_stackaddr attr in
     if at_stacksize attr \<noteq> 0 \<and> at_stacksize attr < static_tls_size k + MINIMAL_REST_STACK
     then Some (Inl EINVAL, s)
     else
       let adj = (stackaddr - tls_tcb_size k) AND static_tls_align_m1 k in
       if \<not> adj + tls_tcb_size k < sz then None
       else
         let pd = stackaddr - tls_tcb_size k - adj;
             s = zero_descriptor k pd s;
             s = upd_pd pd (\<lambda>p. p\<lparr>pd_specific := (pd_specific p)(0 := specific_1stblock k pd),
                                  pd_stackblock := stackaddr - sz,
                                  pd_stackblock_size := sz, pd_user_stack := True,
                                  pd_multiple_threads := True, pd_setxid_futex := - 1\<rparr>) s
         in case dl_allocate_tls k pd of
              Inl e \<Rightarrow> if e = ENOMEM then Some (Inl e, s) else None
            | Inr dtv \<Rightarrow>
                let s = upd_pd pd (\<lambda>p. p\<lparr>pd_dtv := dtv\<rparr>) s;
                    s = s\<lparr>tls_live := insert pd (tls_live s)\<rparr>;
                    s = lock_cache s;
                    s = s\<lparr>stack_user := pd # stack_user s\<rparr>;
                    s = unlock_cache s
                in Some (Inr pd, s))"

subsection \<open>Rounding and checking the sizes\<close>

text \<open>The size of the block with its guard, and the size of the guard.\<close>

definition round_sizes :: "kern \<Rightarrow> pthread_attr \<Rightarrow> u64 \<Rightarrow> (errno + u64 \<times> u64) option" where
  "round_sizes k attr sz =
    (let sz = sz AND NOT (static_tls_align_m1 k) in
     if sz = 0 then None
     else
       let guardsize = (at_guardsize attr + pagesize_m1 k) AND NOT (pagesize_m1 k) in
       if guardsize < at_guardsize attr \<or> sz + guardsize < guardsize then Some (Inl EINVAL)
       else
         let sz = sz + guardsize in
         if sz < ((guardsize + static_tls_size k + MINIMAL_REST_STACK + pagesize_m1 k)
                  AND NOT (pagesize_m1 k))
         then Some (Inl EINVAL)
         else Some (Inr (sz, guardsize)))"

subsection \<open>A fresh mapping\<close>

text \<open>\<open>return errno\<close> after \<open>(void) munmap (mem, size)\<close>, with \<open>e\<close> the error that led there.\<close>

definition unmap_and_fail :: "kern \<Rightarrow> u64 \<Rightarrow> u64 \<Rightarrow> errno \<Rightarrow> nptl \<Rightarrow> errno \<times> nptl" where
  "unmap_and_fail k mem sz e s =
    (case munmap k mem sz s of (Some e', s) \<Rightarrow> (e', s) | (None, s) \<Rightarrow> (e, s))"

definition place_descriptor :: "kern \<Rightarrow> u64 \<Rightarrow> u64 \<Rightarrow> u64" where
  "place_descriptor k mem sz = ((mem + sz) - tls_tcb_size k) AND NOT (static_tls_align_m1 k)"

text \<open>The state after \<open>mmap\<close>: a new mapping, zeroed.\<close>

definition new_mapping :: "kern \<Rightarrow> u64 \<Rightarrow> u64 \<Rightarrow> prot \<Rightarrow> u64 \<Rightarrow> nptl \<Rightarrow> nptl" where
  "new_mapping k mem sz p pd s =
    zero_descriptor k pd (s\<lparr>maps := (maps s)(mem \<mapsto> sz),
      prots := (\<lambda>a. if in_range mem sz a then p else prots s a)\<rparr>)"

definition record_stack :: "kern \<Rightarrow> u64 \<Rightarrow> u64 \<Rightarrow> u64 \<Rightarrow> u64 \<Rightarrow> nptl \<Rightarrow> nptl" where
  "record_stack k mem sz guardsize pd s =
    upd_pd pd (\<lambda>p. p\<lparr>pd_stackblock := mem, pd_stackblock_size := sz,
                     pd_guardsize := guardsize,
                     pd_specific := (pd_specific p)(0 := specific_1stblock k pd),
                     pd_multiple_threads := True, pd_setxid_futex := - 1\<rparr>) s"

definition publish_stack :: "u64 \<Rightarrow> u64 list \<Rightarrow> nptl \<Rightarrow> nptl" where
  "publish_stack pd dtv s =
    (let s = upd_pd pd (\<lambda>p. p\<lparr>pd_dtv := dtv\<rparr>) s;
         s = s\<lparr>tls_live := insert pd (tls_live s)\<rparr>;
         s = lock_cache s;
         s = stack_list_add pd Used s
     in unlock_cache s)"

text \<open>
  \<open>exec1\<close> and \<open>exec2\<close> are the two readings of \<open>GL(dl_stack_flags) & PF_X\<close>: another thread may
  load an object that needs executable stacks between them.
\<close>

definition recheck_perm ::
    "kern \<Rightarrow> bool \<Rightarrow> prot \<Rightarrow> u64 \<Rightarrow> u64 \<Rightarrow> u64 \<Rightarrow> nptl \<Rightarrow> errno option \<times> nptl" where
  "recheck_perm k exec2 prot pd mem sz s =
    (if exec2 \<and> prot \<noteq> PROT_RWX
     then case change_stack_perm k pd s of
            (Some err, s) \<Rightarrow> let (_, s) = unmap_and_fail k mem sz err s in (Some err, s)
          | (None, s) \<Rightarrow> (None, s)
     else (None, s))"

definition map_stack ::
    "kern \<Rightarrow> bool \<Rightarrow> bool \<Rightarrow> u64 \<Rightarrow> u64 \<Rightarrow> nptl \<Rightarrow> ((errno + u64 \<times> u64 \<times> u64) \<times> nptl) option" where
  "map_stack k exec1 exec2 sz guardsize s =
    (let prot = (if exec1 then PROT_RWX else PROT_RW);
         sz = (if multi_page_aliasing k \<noteq> 0 \<and> sz mod multi_page_aliasing k = 0
               then sz + (pagesize_m1 k + 1) else sz)
     in case sys_mmap k (maps s) sz of
       Inl e \<Rightarrow> Some (Inl e, s)
     | Inr mem \<Rightarrow>
         if mem = 0 then None
         else
           let pd = place_descriptor k mem sz;
               s = new_mapping k mem sz (if guardsize = 0 then prot else PROT_NONE) pd s;
               guard = guard_position mem sz guardsize pd (pagesize_m1 k)
           in case (if guardsize > 0 then setup_stack_prot k mem sz guard guardsize prot s
                    else (None, s)) of
                (Some e, s) \<Rightarrow>
                  let (e, s) = unmap_and_fail k mem sz e s in Some (Inl e, s)
              | (None, s) \<Rightarrow>
                  let s = record_stack k mem sz guardsize pd s
                  in case dl_allocate_tls k pd of
                       Inl e \<Rightarrow>
                         if e \<noteq> ENOMEM then None
                         else let (e, s) = unmap_and_fail k mem sz e s in Some (Inl e, s)
                     | Inr dtv \<Rightarrow>
                         let s = publish_stack pd dtv s
                         in case recheck_perm k exec2 prot pd mem sz s of
                              (Some err, s) \<Rightarrow> Some (Inl err, s)
                            | (None, s) \<Rightarrow> Some (Inr (pd, mem, sz), s))"

subsection \<open>The guard area\<close>

definition mprot_error :: "kern \<Rightarrow> u64 \<Rightarrow> u64 \<Rightarrow> u64 \<Rightarrow> errno \<Rightarrow> nptl \<Rightarrow> errno \<times> nptl" where
  "mprot_error k pd mem sz e s =
    (let s = lock_cache s;
         s = stack_list_del pd s;
         s = unlock_cache s;
         s = dl_deallocate_tls pd s
     in unmap_and_fail k mem sz e s)"

definition resize_guard ::
    "kern \<Rightarrow> prot \<Rightarrow> u64 \<Rightarrow> u64 \<Rightarrow> u64 \<Rightarrow> u64 \<Rightarrow> u64 \<Rightarrow> nptl \<Rightarrow> errno option \<times> nptl" where
  "resize_guard k prot pd mem sz reqsize guardsize s =
    (let old = pd_guardsize (pds s pd);
         (r, s) =
           (if guardsize > old
            then let guard = guard_position mem sz guardsize pd (pagesize_m1 k)
                 in case mprotect k guard guardsize PROT_NONE s of
                      (Some e, s) \<Rightarrow> let (e, s) = mprot_error k pd mem sz e s in (Some e, s)
                    | (None, s) \<Rightarrow> (None, upd_pd pd (\<lambda>p. p\<lparr>pd_guardsize := guardsize\<rparr>) s)
            else if old - guardsize > sz - reqsize
            then case mprotect k (mem + guardsize) (old - guardsize) prot s of
                   (Some e, s) \<Rightarrow> let (e, s) = mprot_error k pd mem sz e s in (Some e, s)
                 | (None, s) \<Rightarrow> (None, upd_pd pd (\<lambda>p. p\<lparr>pd_guardsize := guardsize\<rparr>) s)
            else (None, s))
     in case r of
          Some e \<Rightarrow> (Some e, s)
        | None \<Rightarrow> (None, upd_pd pd (\<lambda>p. p\<lparr>pd_reported_guardsize := guardsize\<rparr>) s))"

subsection \<open>The whole allocation\<close>

text \<open>A cached stack if there is one, else a fresh mapping.\<close>

definition obtain_block ::
    "kern \<Rightarrow> bool \<Rightarrow> bool \<Rightarrow> u64 \<Rightarrow> u64 \<Rightarrow> nptl \<Rightarrow> ((errno + u64 \<times> u64 \<times> u64) \<times> nptl) option" where
  "obtain_block k exec1 exec2 sz guardsize s =
    (case get_cached_stack k sz s of
       (Some (pd, sz, mem), s) \<Rightarrow> Some (Inr (pd, mem, sz), s)
     | (None, s) \<Rightarrow> map_stack k exec1 exec2 sz guardsize s)"

definition allocate_system_stack ::
    "kern \<Rightarrow> bool \<Rightarrow> bool \<Rightarrow> pthread_attr \<Rightarrow> u64 \<Rightarrow> nptl \<Rightarrow> ((errno + u64) \<times> nptl) option" where
  "allocate_system_stack k exec1 exec2 attr sz s =
    (let prot = (if exec1 then PROT_RWX else PROT_RW) in
     case round_sizes k attr sz of
       None \<Rightarrow> None
     | Some (Inl e) \<Rightarrow> Some (Inl e, s)
     | Some (Inr (sz, guardsize)) \<Rightarrow>
         let reqsize = sz in
         do {
           (r, s) \<leftarrow> obtain_block k exec1 exec2 sz guardsize s;
           (case r of
              Inl e \<Rightarrow> Some (Inl e, s)
            | Inr (pd, mem, sz) \<Rightarrow>
                (case resize_guard k prot pd mem sz reqsize guardsize s of
                   (Some e, s) \<Rightarrow> Some (Inl e, s)
                 | (None, s) \<Rightarrow> Some (Inr pd, s)))
         })"

definition init_lock_and_robust :: "u64 \<Rightarrow> nptl \<Rightarrow> nptl" where
  "init_lock_and_robust pd s =
    upd_pd pd (\<lambda>p. p\<lparr>pd_lock := False, pd_list_op_pending := 0, pd_robust_list := pd\<rparr>) s"

definition stacktop_of :: "kern \<Rightarrow> u64 \<Rightarrow> u64" where
  "stacktop_of k pd = (pd + sizeof_pthread k) - static_tls_size k"

text \<open>The result is an error or the descriptor and the top of the stack.\<close>

definition allocate_stack ::
    "kern \<Rightarrow> bool \<Rightarrow> bool \<Rightarrow> pthread_attr \<Rightarrow> nptl \<Rightarrow> ((errno + u64 \<times> u64) \<times> nptl) option" where
  "allocate_stack k exec1 exec2 attr s =
    (if \<not> low_mask (pagesize_m1 k) \<or> \<not> stack_align k \<le> tcb_alignment k then None
     else
       let (sz, s) = stack_size_of attr s in
       do {
         (r, s) \<leftarrow> (if ATTR_STACKADDR \<in> at_flags attr then allocate_user_stack k attr sz s
                   else allocate_system_stack k exec1 exec2 attr sz s);
         (case r of
            Inl e \<Rightarrow> Some (Inl e, s)
          | Inr pd \<Rightarrow> Some (Inr (pd, stacktop_of k pd), init_lock_and_robust pd s))
       })"

subsection \<open>What the platform and the kernel are relied on for\<close>

text \<open>
  The page size and the TLS alignment are powers of two, the TLS block with the descriptor fits
  its static size, all of them are small, and, as on x86-64, stacks are not padded against
  aliasing.
\<close>

definition platform_ok :: "kern \<Rightarrow> bool" where
  "platform_ok k \<longleftrightarrow>
    low_mask (pagesize_m1 k) \<and> unat (pagesize_m1 k) < 2 ^ 32 \<and>
    unat (static_tls_align_m1 k) < 4096 \<and>
    0 < tls_tcb_size k \<and> tls_tcb_size k \<le> static_tls_size k \<and>
    unat (static_tls_size k) < 2 ^ 32 \<and>
    stack_align k \<le> tcb_alignment k \<and> multi_page_aliasing k = 0"

text \<open>
  A mapping the kernel hands out for \<open>sz\<close> bytes lies in the lower half of the address space,
  overlaps no mapping the library holds and covers no descriptor a user placed elsewhere.
\<close>

definition mmap_ok :: "kern \<Rightarrow> nptl \<Rightarrow> bool" where
  "mmap_ok k s \<longleftrightarrow>
    (\<forall>sz mem. sys_mmap k (maps s) sz = Inr mem \<longrightarrow>
       unat mem + unat sz < 2 ^ 47 \<and> mem \<notin> dom (maps s) \<and>
       (\<forall>b l. maps s b = Some l \<longrightarrow> disjoint_ranges mem sz b l) \<and>
       (\<forall>u \<in> set (stack_user s). \<not> in_range mem sz u))"

definition munmap_ok :: "kern \<Rightarrow> bool" where
  "munmap_ok k \<longleftrightarrow> (\<forall>b l. sys_munmap k b l = None)"

subsection \<open>The sizes\<close>

lemma round_sizes_bounds:
  assumes "round_sizes k attr sz = Some (Inr (blk, guard))"
  shows "unat blk = unat (sz AND NOT (static_tls_align_m1 k)) + unat guard"
    "guard = (at_guardsize attr + pagesize_m1 k) AND NOT (pagesize_m1 k)"
    "unat (at_guardsize attr) \<le> unat guard"
    "unat guard \<le> unat (at_guardsize attr) + unat (pagesize_m1 k)"
    "guard < blk"
proof -
  let ?s = "sz AND NOT (static_tls_align_m1 k)" and ?m = "pagesize_m1 k"
  let ?a = "at_guardsize attr"
  have r: "blk = ?s + guard" "guard = (?a + ?m) AND NOT ?m" "\<not> guard < ?a" "\<not> ?s + guard < guard"
    "?s \<noteq> 0"
    using assms by (auto simp: round_sizes_def Let_def split: if_splits)
  show "guard = (?a + ?m) AND NOT ?m" by (rule r(2))
  show tot: "unat blk = unat ?s + unat guard"
  proof (cases "unat ?s + unat guard < 2 ^ 64")
    case True
    then show ?thesis by (simp add: r(1) unat_word_ariths)
  next
    case False
    have "unat ?s < 2 ^ 64" "unat guard < 2 ^ 64"
      using unsigned_less [of ?s] unsigned_less [of guard] by simp_all
    then have "unat (?s + guard) = unat ?s + unat guard - 2 ^ 64"
      using False by (simp add: unat_word_ariths mod_if)
    then have "?s + guard < guard" using \<open>unat ?s < 2 ^ 64\<close> False
      unfolding word_less_nat_alt by linarith
    then show ?thesis using r(4) by simp
  qed
  show ge: "unat ?a \<le> unat guard" using r(3) by (simp add: word_le_nat_alt not_less)
  have "unat guard \<le> unat (?a + ?m)"
    unfolding r(2) by (rule unat_round_down_bounds(1))
  also have "\<dots> \<le> unat ?a + unat ?m"
    by (simp add: unat_word_ariths)
  finally show "unat guard \<le> unat ?a + unat ?m" .
  have "0 < unat ?s" using r(5) by (simp add: unat_gt_0)
  then show "guard < blk" using tot by (simp add: word_less_nat_alt)
qed

text \<open>The last check leaves room for the static TLS block and \<open>MINIMAL_REST_STACK\<close>.\<close>

lemma round_sizes_minimum:
  assumes "round_sizes k attr sz = Some (Inr (blk, guard))"
    and "unat guard + unat (static_tls_size k) + 4096 + unat (pagesize_m1 k) < 2 ^ 64"
  shows "unat guard + unat (static_tls_size k) + 4096 \<le> unat blk"
proof -
  let ?x = "guard + static_tls_size k + MINIMAL_REST_STACK + pagesize_m1 k"
  have c: "\<not> blk < (?x AND NOT (pagesize_m1 k))"
    using assms(1) by (auto simp: round_sizes_def Let_def split: if_splits)
  have x: "unat ?x = unat guard + unat (static_tls_size k) + 4096 + unat (pagesize_m1 k)"
    using assms(2) by (simp add: unat_word_ariths MINIMAL_REST_STACK_def)
  have "unat ?x \<le> unat (?x AND NOT (pagesize_m1 k)) + unat (pagesize_m1 k)"
    by (rule unat_round_down_bounds(2))
  then show ?thesis using c x by (simp add: word_less_nat_alt not_less)
qed

subsection \<open>The place of the descriptor\<close>

lemma place_descriptor_bounds:
  assumes "platform_ok k" "unat mem + unat sz < 2 ^ 64"
    "unat (tls_tcb_size k) + unat (static_tls_align_m1 k) \<le> unat sz"
  shows "unat mem + unat sz \<le>
      unat (place_descriptor k mem sz) + unat (tls_tcb_size k) + unat (static_tls_align_m1 k)"
    "unat (place_descriptor k mem sz) + unat (tls_tcb_size k) \<le> unat mem + unat sz"
    "in_range mem sz (place_descriptor k mem sz)"
proof -
  let ?e = "mem + sz - tls_tcb_size k" and ?m = "static_tls_align_m1 k"
  have ms: "unat (mem + sz) = unat mem + unat sz"
    using assms(2) by (simp add: unat_word_ariths)
  have "tls_tcb_size k \<le> mem + sz" using assms(3) ms by (simp add: word_le_nat_alt)
  then have e: "unat ?e = unat mem + unat sz - unat (tls_tcb_size k)"
    by (simp add: unat_sub ms)
  note b = unat_round_down_bounds [of ?e ?m]
  show 1: "unat mem + unat sz \<le>
      unat (place_descriptor k mem sz) + unat (tls_tcb_size k) + unat ?m"
    and 2: "unat (place_descriptor k mem sz) + unat (tls_tcb_size k) \<le> unat mem + unat sz"
    using b e assms(3) by (simp_all add: place_descriptor_def)
  have "0 < unat (tls_tcb_size k)"
    using assms(1) by (simp add: platform_ok_def word_less_nat_alt)
  then show "in_range mem sz (place_descriptor k mem sz)"
    using 1 2 assms(3) by (simp add: in_range_nat [OF assms(2)])
qed

subsection \<open>The pool invariant through an allocation\<close>

lemma mmap_okD:
  assumes "mmap_ok k s" "sys_mmap k (maps s) sz = Inr mem"
  shows "unat mem + unat sz < 2 ^ 47" "mem \<notin> dom (maps s)"
    "\<And>b l. maps s b = Some l \<Longrightarrow> disjoint_ranges mem sz b l"
    "\<forall>u \<in> set (stack_user s). \<not> in_range mem sz u"
  using assms by (auto simp: mmap_ok_def)

lemma unmap_and_fail_ok:
  "munmap_ok k \<Longrightarrow> unmap_and_fail k mem sz e s = (e, s\<lparr>maps := (maps s)(mem := None)\<rparr>)"
  by (simp add: unmap_and_fail_def munmap_def munmap_ok_def)

lemma mprotect_cases:
  obtains (error) e where "sys_mprotect k b l p = Some e" "mprotect k b l p s = (Some e, s)"
  | (success) "sys_mprotect k b l p = None"
      "mprotect k b l p s = (None, s\<lparr>prots := (\<lambda>a. if in_range b l a then p else prots s a)\<rparr>)"
  by (cases "sys_mprotect k b l p") (simp_all add: mprotect_def)

text \<open>A state that differs from \<open>s\<close> inside a block \<open>s\<close> does not hold.\<close>

lemma outside_inv:
  assumes inv: "pool_inv s" and pd: "in_range mem sz pd"
    and new: "\<And>b l. maps s b = Some l \<Longrightarrow> disjoint_ranges mem sz b l"
      "\<forall>u \<in> set (stack_user s). \<not> in_range mem sz u"
    and s': "\<And>p. p \<noteq> pd \<Longrightarrow> pds s' p = pds s p"
      "\<And>a. \<not> in_range mem sz a \<Longrightarrow> prots s' a = prots s a"
      "stack_cache s' = stack_cache s" "stack_used s' = stack_used s"
      "stack_user s' = stack_user s" "stack_cache_actsize s' = stack_cache_actsize s"
      "maps s' = maps s" "tls_live s' = tls_live s" "in_flight_stack s' = in_flight_stack s"
  shows "pool_inv s'"
proof (rule pool_inv_agree [OF inv])
  note nin = not_on_lists [OF inv pd new]
  show "same_block (pds s p) (pds s' p)" if "p \<in> set (sys_stacks s) \<union> set (stack_user s)" for p
  proof -
    have "p \<noteq> pd" using that nin by (auto simp: sys_stacks_def)
    then show ?thesis by (simp add: s'(1) same_block_def)
  qed
  show "prots s' a = prots s a"
    if p: "p \<in> set (sys_stacks s)"
      and a: "in_range (pd_stackblock (pds s p)) (pd_stackblock_size (pds s p)) a" for p a
  proof -
    have "maps s (pd_stackblock (pds s p)) = Some (pd_stackblock_size (pds s p))"
      using inv p by (auto simp: pool_inv_def block_ok_def Let_def)
    from disjoint_rangesD [OF disjoint_ranges_sym [OF new(1) [OF this]] a] show ?thesis
      by (rule s'(2))
  qed
  show "in_flight_stack s' = 0" using inv s' by (simp add: pool_inv_def)
qed (simp_all add: s')

lemma new_mapping_sel [simp]:
  "pds (new_mapping k mem sz p pd s) = (pds s)(pd := zero_pthread)"
  "maps (new_mapping k mem sz p pd s) = (maps s)(mem \<mapsto> sz)"
  "prots (new_mapping k mem sz p pd s) = (\<lambda>a. if in_range mem sz a then p else prots s a)"
  "stack_cache (new_mapping k mem sz p pd s) = stack_cache s"
  "stack_used (new_mapping k mem sz p pd s) = stack_used s"
  "stack_user (new_mapping k mem sz p pd s) = stack_user s"
  "stack_cache_actsize (new_mapping k mem sz p pd s) = stack_cache_actsize s"
  "stack_cache_maxsize (new_mapping k mem sz p pd s) = stack_cache_maxsize s"
  "tls_live (new_mapping k mem sz p pd s) = tls_live s"
  "in_flight_stack (new_mapping k mem sz p pd s) = in_flight_stack s"
  "nptl_nthreads (new_mapping k mem sz p pd s) = nptl_nthreads s"
  "mallocs (new_mapping k mem sz p pd s) = mallocs s"
  by (simp_all add: new_mapping_def)

lemma record_stack_sel [simp]:
  "pds (record_stack k mem sz g pd s) = (pds s)(pd := (pds s pd)
     \<lparr>pd_stackblock := mem, pd_stackblock_size := sz, pd_guardsize := g,
      pd_specific := (pd_specific (pds s pd))(0 := specific_1stblock k pd),
      pd_multiple_threads := True, pd_setxid_futex := - 1\<rparr>)"
  "maps (record_stack k mem sz g pd s) = maps s" "prots (record_stack k mem sz g pd s) = prots s"
  "stack_cache (record_stack k mem sz g pd s) = stack_cache s"
  "stack_used (record_stack k mem sz g pd s) = stack_used s"
  "stack_user (record_stack k mem sz g pd s) = stack_user s"
  "stack_cache_actsize (record_stack k mem sz g pd s) = stack_cache_actsize s"
  "stack_cache_maxsize (record_stack k mem sz g pd s) = stack_cache_maxsize s"
  "tls_live (record_stack k mem sz g pd s) = tls_live s"
  "in_flight_stack (record_stack k mem sz g pd s) = in_flight_stack s"
  "nptl_nthreads (record_stack k mem sz g pd s) = nptl_nthreads s"
  "mallocs (record_stack k mem sz g pd s) = mallocs s"
  by (simp_all add: record_stack_def)

lemma publish_stack_sel [simp]:
  "pds (publish_stack pd dtv s) = (pds s)(pd := (pds s pd)\<lparr>pd_dtv := dtv\<rparr>)"
  "maps (publish_stack pd dtv s) = maps s" "prots (publish_stack pd dtv s) = prots s"
  "stack_cache (publish_stack pd dtv s) = stack_cache s"
  "stack_used (publish_stack pd dtv s) = pd # stack_used s"
  "stack_user (publish_stack pd dtv s) = stack_user s"
  "stack_cache_actsize (publish_stack pd dtv s) = stack_cache_actsize s"
  "stack_cache_maxsize (publish_stack pd dtv s) = stack_cache_maxsize s"
  "tls_live (publish_stack pd dtv s) = insert pd (tls_live s)"
  "in_flight_stack (publish_stack pd dtv s) = 0"
  "nptl_nthreads (publish_stack pd dtv s) = nptl_nthreads s"
  "mallocs (publish_stack pd dtv s) = mallocs s"
  by (simp_all add: publish_stack_def Let_def unlock_cache_def lock_cache_def)

definition race_ok :: "kern \<Rightarrow> bool \<Rightarrow> bool \<Rightarrow> bool" where
  "race_ok k exec1 exec2 \<longleftrightarrow> exec2 \<longrightarrow> exec1 \<or> (\<forall>b l. sys_mprotect k b l PROT_RWX = None)"

text \<open>
  What the failing repair of the permissions leaves behind: the stack is unmapped, but its
  descriptor stays on the list of used stacks, with its TLS block.
\<close>

definition perm_dangles :: "kern \<Rightarrow> nptl \<Rightarrow> nptl \<Rightarrow> bool" where
  "perm_dangles k s s' \<longleftrightarrow>
    (\<exists>b l e. sys_mprotect k b l PROT_RWX = Some e) \<and>
    stack_cache s' = stack_cache s \<and> stack_user s' = stack_user s \<and>
    (\<exists>pd. pd \<notin> set (sys_stacks s) \<and> stack_used s' = pd # stack_used s \<and> pd \<in> tls_live s' \<and>
      maps s' (pd_stackblock (pds s' pd)) = None)"

lemma perm_dangles_not_inv: "perm_dangles k s s' \<Longrightarrow> \<not> pool_inv s'"
  by (auto simp: perm_dangles_def pool_inv_def sys_stacks_def block_ok_def Let_def)

lemma perm_dangles_race: "race_ok k exec1 exec2 \<Longrightarrow> exec2 \<Longrightarrow> \<not> exec1 \<Longrightarrow> \<not> perm_dangles k s s'"
  by (auto simp: perm_dangles_def race_ok_def)

lemma perm_dangles_cong:
  assumes "same_pool s t" shows "perm_dangles k t s' = perm_dangles k s s'"
  using assms by (simp add: perm_dangles_def same_pool_def sys_stacks_def)

lemma perm_dangles_cong2:
  assumes "stack_cache t = stack_cache s'" "stack_used t = stack_used s'" "stack_user t = stack_user s'"
    "tls_live t = tls_live s'" "maps t = maps s'" "pds t = pds s'"
  shows "perm_dangles k s t = perm_dangles k s s'"
  using assms by (simp add: perm_dangles_def)

text \<open>The mapping with its guard in place, before the descriptor is published.\<close>

lemma map_stack_cases:
  assumes "platform_ok k" "munmap_ok k"
    and "map_stack k exec1 exec2 sz g s = Some (r, s')"
  defines "p \<equiv> (if exec1 then PROT_RWX else PROT_RW)"
  obtains (mmap) e where "r = Inl e" "s' = s"
  | (later) mem pd e where "r = Inl e" "sys_mmap k (maps s) sz = Inr mem"
      "pd = place_descriptor k mem sz"
      "\<And>q. q \<noteq> pd \<Longrightarrow> pds s' q = pds s q"
      "\<And>a. \<not> (in_range mem sz a \<or> in_range (mem + g) (sz - g) a) \<Longrightarrow> prots s' a = prots s a"
      "stack_cache s' = stack_cache s" "stack_used s' = stack_used s"
      "stack_user s' = stack_user s" "stack_cache_actsize s' = stack_cache_actsize s"
      "maps s' = (maps s)(mem := None)" "tls_live s' = tls_live s"
      "in_flight_stack s' = in_flight_stack s"
  | (mapped) mem pd where "r = Inr (pd, mem, sz)" "sys_mmap k (maps s) sz = Inr mem"
      "pd = place_descriptor k mem sz"
      "pd_stackblock (pds s' pd) = mem" "pd_stackblock_size (pds s' pd) = sz"
      "pd_guardsize (pds s' pd) = g" "\<not> pd_user_stack (pds s' pd)"
      "\<And>q. q \<noteq> pd \<Longrightarrow> pds s' q = pds s q"
      "\<And>a. prots s' a =
         (if g = 0 \<and> in_range mem sz a \<or> in_range (mem + g) (sz - g) a
          then if exec2 then PROT_RWX else p
          else if in_range mem sz a then PROT_NONE else prots s a)"
      "stack_cache s' = stack_cache s" "stack_used s' = pd # stack_used s"
      "stack_user s' = stack_user s" "stack_cache_actsize s' = stack_cache_actsize s"
      "maps s' = (maps s)(mem \<mapsto> sz)" "tls_live s' = insert pd (tls_live s)"
      "in_flight_stack s' = 0"
      "pds s' pd = zero_pthread\<lparr>pd_stackblock := mem, pd_stackblock_size := sz,
         pd_guardsize := g, pd_specific := (\<lambda>_. 0)(0 := specific_1stblock k pd), pd_multiple_threads := True,
         pd_setxid_futex := - 1, pd_dtv := pd_dtv (pds s' pd)\<rparr>"
  | (dangling) mem pd e where "exec2" "\<not> exec1" "r = Inl e" "sys_mmap k (maps s) sz = Inr mem"
      "pd = place_descriptor k mem sz" "sys_mprotect k (mem + g) (sz - g) PROT_RWX = Some e"
      "pd_stackblock (pds s' pd) = mem" "\<And>q. q \<noteq> pd \<Longrightarrow> pds s' q = pds s q"
      "stack_cache s' = stack_cache s" "stack_used s' = pd # stack_used s"
      "stack_user s' = stack_user s" "maps s' = (maps s)(mem := None)"
      "tls_live s' = insert pd (tls_live s)"
proof (cases "sys_mmap k (maps s) sz")
  case (Inl e)
  then show ?thesis using assms(1,3) mmap by (auto simp: map_stack_def Let_def platform_ok_def)
next
  case (Inr mem)
  define pd where "pd = place_descriptor k mem sz"
  define t where "t = new_mapping k mem sz (if g = 0 then p else PROT_NONE) pd s"
  have mpa: "multi_page_aliasing k = 0" using assms(1) by (simp add: platform_ok_def)
  have mem0: "mem \<noteq> 0" using assms(3) Inr by (auto simp: map_stack_def mpa)
  note unf = map_stack_def Let_def mpa Inr mem0 pd_def [symmetric] p_def [symmetric]
    t_def [symmetric] guard_position_def setup_stack_prot_def unmap_and_fail_ok [OF assms(2)]
  consider (err) e where "g > 0" "mprotect k (mem + g) (sz - g) p t = (Some e, t)"
    | (ok) "\<not> (\<exists>e. g > 0 \<and> mprotect k (mem + g) (sz - g) p t = (Some e, t))"
    by blast
  then show ?thesis
  proof cases
    case err
    then have "r = Inl e" "s' = t\<lparr>maps := (maps t)(mem := None)\<rparr>"
      using assms(3) by (simp_all add: unf)
    then show ?thesis by (intro later [of e mem pd]) (simp_all add: t_def Inr pd_def)
  next
    case ok
    define u where "u = (if g > 0 then t\<lparr>prots := (\<lambda>a. if in_range (mem + g) (sz - g) a then p
        else prots t a)\<rparr> else t)"
    have mp1: "mprotect k (mem + g) (sz - g) p t = (None, u)" if "0 < g"
      using ok that
      by (cases rule: mprotect_cases [of k "mem + g" "sz - g" p t]) (auto simp: u_def)
    have mp2: "t = u" if "\<not> 0 < g" using that by (simp add: u_def)
    define v where "v = record_stack k mem sz g pd u"
    show ?thesis
    proof (cases "dl_allocate_tls k pd")
      case (Inl e)
      then have "r = Inl e" "s' = v\<lparr>maps := (maps v)(mem := None)\<rparr>"
        using assms(3) by (auto simp: unf mp1 mp2 v_def [symmetric] split: if_splits)
      then show ?thesis
        by (intro later [of e mem pd]) (auto simp: t_def u_def v_def Inr pd_def)
    next
      case dtv: (Inr dtv)
      define w where "w = publish_stack pd dtv v"
      have sel: "pd_stackblock (pds w pd) = mem" "pd_stackblock_size (pds w pd) = sz"
        "pd_guardsize (pds w pd) = g"
        by (simp_all add: w_def v_def)
      define x where "x = (if exec2 \<and> \<not> exec1 then w\<lparr>prots := (\<lambda>a.
          if in_range (mem + g) (sz - g) a then PROT_RWX else prots w a)\<rparr> else w)"
      note unf' = unf mp1 mp2 v_def [symmetric] dtv w_def [symmetric]
      show ?thesis
      proof (cases "exec2 \<and> \<not> exec1 \<and> sys_mprotect k (mem + g) (sz - g) PROT_RWX \<noteq> None")
        case True
        then obtain e where e: "sys_mprotect k (mem + g) (sz - g) PROT_RWX = Some e" by auto
        have "recheck_perm k exec2 p pd mem sz w = (Some e, w\<lparr>maps := (maps w)(mem := None)\<rparr>)"
          using True e
          by (simp add: recheck_perm_def p_def change_stack_perm_def Let_def sel mprotect_def
              unmap_and_fail_ok [OF assms(2)])
        then have "r = Inl e" "s' = w\<lparr>maps := (maps w)(mem := None)\<rparr>"
          using assms(3) by (auto simp: unf' split: if_splits)
        then show ?thesis using True e
          by (intro dangling [of e mem pd]) (auto simp: t_def u_def v_def w_def Inr pd_def)
      next
        case False
        then have "recheck_perm k exec2 p pd mem sz w = (None, x)"
          by (auto simp: recheck_perm_def x_def p_def change_stack_perm_def Let_def
              sel mprotect_def)
        then have "r = Inr (pd, mem, sz)" "s' = x"
          using assms(3) by (auto simp: unf' split: if_splits)
        then show ?thesis
          by (intro mapped [of pd mem])
            (auto simp: t_def u_def v_def w_def x_def Inr pd_def p_def zero_pthread_def word_gt_0)
      qed
    qed
  qed
qed

text \<open>A block \<open>mmap\<close> could provide is small enough for the minimum check to be exact.\<close>

lemma round_sizes_room:
  assumes "round_sizes k attr sz0 = Some (Inr (sz, g))" "platform_ok k" "unat sz < 2 ^ 47"
  shows "unat g + unat (static_tls_size k) + 4096 \<le> unat sz"
    "unat (tls_tcb_size k) + unat (static_tls_align_m1 k) \<le> unat sz" "g \<le> sz"
proof -
  have "g < sz" by (rule round_sizes_bounds(5) [OF assms(1)])
  then show "g \<le> sz" by simp
  have "unat g < unat sz" using \<open>g < sz\<close> by (simp add: word_less_nat_alt)
  then have "unat g + unat (static_tls_size k) + 4096 + unat (pagesize_m1 k) < 2 ^ 64"
    using assms(2,3) by (simp add: platform_ok_def)
  from round_sizes_minimum [OF assms(1) this]
  show room: "unat g + unat (static_tls_size k) + 4096 \<le> unat sz" .
  have "unat (tls_tcb_size k) \<le> unat (static_tls_size k)"
    using assms(2) by (simp add: platform_ok_def word_le_nat_alt)
  then show "unat (tls_tcb_size k) + unat (static_tls_align_m1 k) \<le> unat sz"
    using room assms(2) by (simp add: platform_ok_def)
qed

text \<open>A mapping keeps the pool consistent, unless the repair of its permissions fails.\<close>

lemma map_stack_inv:
  assumes "pool_inv s" "platform_ok k" "munmap_ok k" "mmap_ok k s"
    and rs: "round_sizes k attr sz0 = Some (Inr (sz, g))"
    and ms: "map_stack k exec1 exec2 sz g s = Some (r, s')"
  shows "pool_inv s' \<or> isl r \<and> exec2 \<and> \<not> exec1 \<and> perm_dangles k s s'"
  using assms(2,3) ms
proof (cases rule: map_stack_cases)
  case (mmap e)
  then show ?thesis using assms(1) by simp
next
  case (dangling mem pd e)
  note n = mmap_okD [OF assms(4) dangling(4)]
  have b: "unat sz < 2 ^ 47" "unat mem + unat sz < 2 ^ 64" using n(1) by simp_all
  note room = round_sizes_room [OF rs assms(2) b(1)]
  have pd: "in_range mem sz pd"
    unfolding dangling(5) by (rule place_descriptor_bounds(3) [OF assms(2) b(2) room(2)])
  have "pd \<notin> set (sys_stacks s)" using not_on_lists [OF assms(1) pd n(3,4)] by (auto simp: sys_stacks_def)
  then show ?thesis using dangling by (auto simp: perm_dangles_def)
next
  case (later mem pd e)
  note n = mmap_okD [OF assms(4) later(2)]
  have b: "unat sz < 2 ^ 47" "unat mem + unat sz < 2 ^ 64" using n(1) by simp_all
  note room = round_sizes_room [OF rs assms(2) b(1)]
  have pd: "in_range mem sz pd"
    unfolding later(3) by (rule place_descriptor_bounds(3) [OF assms(2) b(2) room(2)])
  have "pool_inv s'"
  proof (rule outside_inv [OF assms(1) pd n(3,4)])
    show "maps s' = maps s" using later(10) n(2) by (auto simp: fun_upd_idem domIff)
    show "prots s' a = prots s a" if "\<not> in_range mem sz a" for a
      using that later(5) by (simp add: in_range_suffix [OF room(3)])
  qed (use later in simp_all)
  then show ?thesis ..
next
  case (mapped mem pd)
  note n = mmap_okD [OF assms(4) mapped(2)]
  have b: "unat sz < 2 ^ 47" "unat mem + unat sz < 2 ^ 64" using n(1) by simp_all
  note room = round_sizes_room [OF rs assms(2) b(1)]
  have pd: "in_range mem sz pd"
    unfolding mapped(3) by (rule place_descriptor_bounds(3) [OF assms(2) b(2) room(2)])
  have "pool_inv s'"
  proof (rule add_block_inv [OF assms(1) pd n(2,3,4) mapped(4-7) room(3) mapped(8)])
    show "prots s' a = PROT_NONE \<longleftrightarrow> in_range mem g a" if "in_range mem sz a" for a
      using that unfolding mapped(9)
      by (auto simp: in_range_suffix [OF room(3)] split: if_splits)
    show "prots s' a = prots s a" if "\<not> in_range mem sz a" for a
      using that unfolding mapped(9) by (auto simp: in_range_suffix [OF room(3)])
  qed (use mapped in simp_all)
  then show ?thesis ..
qed

text \<open>The error path of the guard: the stack leaves the lists, its TLS block and mapping go.\<close>

lemma mprot_error_eq:
  assumes "munmap_ok k"
  shows "mprot_error k pd mem sz e s =
    (e, (stack_list_del pd s)\<lparr>stack_cache_lock := False, tls_live := tls_live s - {pd},
          maps := (maps s)(mem := None)\<rparr>)"
  by (simp add: mprot_error_def Let_def unmap_and_fail_ok [OF assms] dl_deallocate_tls_def
      lock_cache_def unlock_cache_def stack_list_del_def)

lemma mprot_error_inv:
  assumes "pool_inv s" "pd \<in> set (stack_used s)" "munmap_ok k" "mem = pd_stackblock (pds s pd)"
  shows "pool_inv (snd (mprot_error k pd mem sz e s))"
  by (rule same_pool_inv [OF _ drop_used_inv [OF assms(1,2)]])
    (simp add: mprot_error_eq [OF assms(3)] assms(4) same_pool_def same_block_def)

text \<open>
  The guard after \<open>resize_guard\<close>: at least the one asked for, and no larger than what leaves the
  bytes asked for usable. A guard that is larger than asked for stays, if there is room for it.
\<close>

definition set_guard :: "u64 \<Rightarrow> u64 \<Rightarrow> (u64 \<Rightarrow> prot) \<Rightarrow> nptl \<Rightarrow> nptl" where
  "set_guard pd g pr s = (upd_pd pd (\<lambda>p. p\<lparr>pd_guardsize := g\<rparr>) s)\<lparr>prots := pr\<rparr>"

lemma set_guard_sel [simp]:
  "pds (set_guard pd g pr s) = (pds s)(pd := (pds s pd)\<lparr>pd_guardsize := g\<rparr>)"
  "prots (set_guard pd g pr s) = pr" "maps (set_guard pd g pr s) = maps s"
  "stack_cache (set_guard pd g pr s) = stack_cache s"
  "stack_used (set_guard pd g pr s) = stack_used s"
  "stack_user (set_guard pd g pr s) = stack_user s"
  "stack_cache_actsize (set_guard pd g pr s) = stack_cache_actsize s"
  "stack_cache_maxsize (set_guard pd g pr s) = stack_cache_maxsize s"
  "tls_live (set_guard pd g pr s) = tls_live s"
  "in_flight_stack (set_guard pd g pr s) = in_flight_stack s"
  "nptl_nthreads (set_guard pd g pr s) = nptl_nthreads s"
  by (simp_all add: set_guard_def)

lemma resize_guard_cases:
  fixes s :: nptl and pd :: u64
  assumes "munmap_ok k" "resize_guard k prot pd mem sz reqsize g s = (r, s')"
  defines "old \<equiv> pd_guardsize (pds s pd)"
  obtains (error) e e' where "r = Some e" "s' = snd (mprot_error k pd mem sz e' s)"
  | (grow) "r = None" "old < g"
      "s' = upd_pd pd (\<lambda>p. p\<lparr>pd_reported_guardsize := g\<rparr>)
        (set_guard pd g (\<lambda>a. if in_range mem g a then PROT_NONE else prots s a) s)"
  | (shrink) "r = None" "g \<le> old" "sz - reqsize < old - g"
      "s' = upd_pd pd (\<lambda>p. p\<lparr>pd_reported_guardsize := g\<rparr>)
        (set_guard pd g (\<lambda>a. if in_range (mem + g) (old - g) a then prot else prots s a) s)"
  | (keep) "r = None" "g \<le> old" "old - g \<le> sz - reqsize"
      "s' = upd_pd pd (\<lambda>p. p\<lparr>pd_reported_guardsize := g\<rparr>) s"
proof -
  have set_guard: "upd_pd pd (\<lambda>p. p\<lparr>pd_guardsize := g\<rparr>) (s\<lparr>prots := pr\<rparr>) = set_guard pd g pr s" for pr
    by (simp add: set_guard_def upd_pd_def)
  consider "old < g" | "\<not> old < g" "sz - reqsize < old - g" | "\<not> old < g" "\<not> sz - reqsize < old - g"
    by blast
  then show ?thesis
  proof cases
    case 1
    show ?thesis
    proof (cases rule: mprotect_cases [of k mem g PROT_NONE s])
      case (error e)
      then show ?thesis using 1 assms(2)
        by (intro that(1) [of e e])
          (auto simp: resize_guard_def guard_position_def old_def mprot_error_eq [OF assms(1)])
    next
      case success
      then show ?thesis using 1 assms(2)
        by (intro that(2)) (auto simp: resize_guard_def guard_position_def old_def set_guard)
    qed
  next
    case 2
    show ?thesis
    proof (cases rule: mprotect_cases [of k "mem + g" "old - g" prot s])
      case (error e)
      then show ?thesis using 2 assms(2)
        by (intro that(1) [of e e])
          (auto simp: resize_guard_def guard_position_def old_def mprot_error_eq [OF assms(1)])
    next
      case success
      then show ?thesis using 2 assms(2)
        by (intro that(3)) (auto simp: resize_guard_def guard_position_def old_def set_guard)
    qed
  next
    case 3
    then show ?thesis using assms(2)
      by (intro that(4)) (auto simp: resize_guard_def guard_position_def old_def)
  qed
qed

lemma resize_guard_inv:
  assumes inv: "pool_inv s" and pd: "pd \<in> set (stack_used s)" and k: "munmap_ok k"
    and blk: "mem = pd_stackblock (pds s pd)" "sz = pd_stackblock_size (pds s pd)" "g \<le> sz"
    and p: "prot \<noteq> PROT_NONE"
    and r: "resize_guard k prot pd mem sz reqsize g s = (r, s')"
  shows "pool_inv s'"
proof -
  have sys: "pd \<in> set (sys_stacks s)" using pd by (simp add: sys_stacks_def)
  have if0: "in_flight_stack s = 0" using inv by (simp add: pool_inv_def)
  have old: "pd_guardsize (pds s pd) \<le> sz"
    and gd: "\<And>a. in_range mem sz a \<Longrightarrow> prots s a = PROT_NONE \<longleftrightarrow> in_range mem (pd_guardsize (pds s pd)) a"
    using inv sys by (auto simp: pool_inv_def guard_ok_def Let_def blk)
  have final: "pool_inv (upd_pd pd (\<lambda>p. p\<lparr>pd_reported_guardsize := g\<rparr>) t)" if "pool_inv t" for t
    by (rule same_pool_inv [OF same_pool_upd_pd that]) (simp add: same_block_def)
  from k r show ?thesis
  proof (cases rule: resize_guard_cases)
    case (error e e')
    then show ?thesis using mprot_error_inv [OF inv pd k blk(1)] by simp
  next
    case grow
    have "pool_inv (set_guard pd g (\<lambda>a. if in_range mem g a then PROT_NONE else prots s a) s)"
    proof (rule set_guard_inv [OF inv sys set_guard_sel(1)])
      show "g \<le> pd_stackblock_size (pds s pd)" using blk by simp
    qed (use gd grow if0 in \<open>auto simp flip: blk(1,2) intro: in_range_prefix [OF less_imp_le [OF grow(2)]] in_range_prefix [OF blk(3)]\<close>)
    then show ?thesis unfolding grow by (rule final)
  next
    case shrink
    have "pool_inv (set_guard pd g (\<lambda>a. if in_range (mem + g) (pd_guardsize (pds s pd) - g) a
        then prot else prots s a) s)"
    proof (rule set_guard_inv [OF inv sys set_guard_sel(1)])
      show "g \<le> pd_stackblock_size (pds s pd)" using blk by simp
    qed (use gd p shrink if0 in \<open>auto simp: in_range_suffix simp flip: blk(1,2) intro: in_range_prefix [OF old] in_range_prefix [OF shrink(2)]\<close>)
    then show ?thesis unfolding shrink by (rule final)
  next
    case keep
    then show ?thesis using final [OF inv] by simp
  qed
qed

text \<open>What a caller may rely on when the guard could be set.\<close>

lemma resize_guard_spec:
  assumes k: "munmap_ok k" and r: "resize_guard k prot pd mem sz reqsize g s = (None, s')"
    and le: "g \<le> reqsize" "reqsize \<le> sz" "pd_guardsize (pds s pd) \<le> sz"
  shows "g \<le> pd_guardsize (pds s' pd)" "pd_reported_guardsize (pds s' pd) = g"
    "unat reqsize - unat g \<le> unat sz - unat (pd_guardsize (pds s' pd))"
    "stack_used s' = stack_used s" "stack_cache s' = stack_cache s"
    "stack_user s' = stack_user s" "maps s' = maps s" "tls_live s' = tls_live s"
    "pd_stackblock (pds s' pd) = pd_stackblock (pds s pd)"
    "pd_stackblock_size (pds s' pd) = pd_stackblock_size (pds s pd)"
    "\<And>q. q \<noteq> pd \<Longrightarrow> pds s' q = pds s q"
    "stack_cache_actsize s' = stack_cache_actsize s"
    "nptl_nthreads s' = nptl_nthreads s" "mallocs s' = mallocs s"
proof -
  have n: "unat g \<le> unat reqsize" "unat reqsize \<le> unat sz" "unat (pd_guardsize (pds s pd)) \<le> unat sz"
    using le by (simp_all add: word_le_nat_alt)
  have keep: "unat reqsize - unat g \<le> unat sz - unat (pd_guardsize (pds s pd))"
    if "g \<le> pd_guardsize (pds s pd)" "pd_guardsize (pds s pd) - g \<le> sz - reqsize"
  proof -
    have "unat (pd_guardsize (pds s pd)) - unat g \<le> unat sz - unat reqsize"
      using that le by (simp add: word_le_nat_alt unat_sub)
    then show ?thesis using n that(1) by (simp add: word_le_nat_alt)
  qed
  have shrink: "unat reqsize - unat g \<le> unat sz - unat g" using n by simp
  from k r have "g \<le> pd_guardsize (pds s' pd) \<and> pd_reported_guardsize (pds s' pd) = g \<and>
    unat reqsize - unat g \<le> unat sz - unat (pd_guardsize (pds s' pd))"
    by (cases rule: resize_guard_cases) (use keep shrink in auto)
  then show "g \<le> pd_guardsize (pds s' pd)" "pd_reported_guardsize (pds s' pd) = g"
    "unat reqsize - unat g \<le> unat sz - unat (pd_guardsize (pds s' pd))" by auto
  from k r have "stack_used s' = stack_used s \<and> stack_cache s' = stack_cache s \<and>
    stack_user s' = stack_user s \<and> maps s' = maps s \<and> tls_live s' = tls_live s \<and>
    pd_stackblock (pds s' pd) = pd_stackblock (pds s pd) \<and>
    pd_stackblock_size (pds s' pd) = pd_stackblock_size (pds s pd) \<and>
    (\<forall>q. q \<noteq> pd \<longrightarrow> pds s' q = pds s q) \<and> stack_cache_actsize s' = stack_cache_actsize s \<and>
    nptl_nthreads s' = nptl_nthreads s \<and> mallocs s' = mallocs s"
    by (cases rule: resize_guard_cases) (auto simp: set_guard_def)
  then show "stack_used s' = stack_used s" "stack_cache s' = stack_cache s"
    "stack_user s' = stack_user s" "maps s' = maps s" "tls_live s' = tls_live s"
    "pd_stackblock (pds s' pd) = pd_stackblock (pds s pd)"
    "pd_stackblock_size (pds s' pd) = pd_stackblock_size (pds s pd)"
    "\<And>q. q \<noteq> pd \<Longrightarrow> pds s' q = pds s q"
    "stack_cache_actsize s' = stack_cache_actsize s"
    "nptl_nthreads s' = nptl_nthreads s" "mallocs s' = mallocs s" by auto
qed

subsection \<open>Cached or fresh\<close>

lemma mmap_ok_cong:
  "maps s' = maps s \<Longrightarrow> stack_user s' = stack_user s \<Longrightarrow> mmap_ok k s' = mmap_ok k s"
  by (simp add: mmap_ok_def)

lemma obtain_block_cases:
  assumes "obtain_block k exec1 exec2 sz g s = Some (r, s')"
  obtains (cached) pd where "get_cached_stack k sz s =
        (Some (pd, pd_stackblock_size (pds s pd), pd_stackblock (pds s pd)), s')"
      "best_fit (pds s) sz (stack_cache s) = Some pd"
      "r = Inr (pd, pd_stackblock (pds s pd), pd_stackblock_size (pds s pd))"
      "s' = reset_cached k pd (unlock_cache (dequeue_cached pd (lock_cache s)))"
  | (fresh) t where "get_cached_stack k sz s = (None, t)" "same_pool s t" "pds t = pds s"
      "map_stack k exec1 exec2 sz g t = Some (r, s')"
proof (cases "get_cached_stack k sz s")
  case (Pair x t)
  show ?thesis
  proof (cases x)
    case None
    then show ?thesis using assms Pair get_cached_stack_None [of k sz s t]
      by (intro fresh [of t]) (simp_all add: obtain_block_def)
  next
    case (Some y)
    obtain pd z m where y: "y = (pd, z, m)" by (cases y)
    note g = get_cached_stack_Some [of k sz s pd z m t]
    show ?thesis using assms Pair Some y g
      by (intro cached [of pd]) (simp_all add: obtain_block_def)
  qed
qed

definition kernel_ok :: "kern \<Rightarrow> nptl \<Rightarrow> bool" where
  "kernel_ok k s \<longleftrightarrow> platform_ok k \<and> munmap_ok k \<and> mmap_ok k s"

text \<open>With \<open>race_ok\<close> the repair of the permissions, if it is needed at all, does not fail.\<close>

definition alloc_env_ok :: "kern \<Rightarrow> bool \<Rightarrow> bool \<Rightarrow> nptl \<Rightarrow> bool" where
  "alloc_env_ok k exec1 exec2 s \<longleftrightarrow> kernel_ok k s \<and> race_ok k exec1 exec2"

lemma alloc_env_kernel: "alloc_env_ok k exec1 exec2 s \<Longrightarrow> kernel_ok k s"
  by (simp add: alloc_env_ok_def)

lemma kernel_ok_cong: "maps s' = maps s \<Longrightarrow> stack_user s' = stack_user s \<Longrightarrow> kernel_ok k s' = kernel_ok k s"
  using mmap_ok_cong [of s' s k] by (simp add: kernel_ok_def)

lemma obtain_block_inv:
  assumes inv: "pool_inv s" and env: "kernel_ok k s"
    and rs: "round_sizes k attr sz0 = Some (Inr (sz, g))"
    and r: "obtain_block k exec1 exec2 sz g s = Some (r, s')"
  shows "pool_inv s' \<or> isl r \<and> exec2 \<and> \<not> exec1 \<and> perm_dangles k s s'"
  using r
proof (cases rule: obtain_block_cases)
  case (cached pd)
  show ?thesis using get_cached_stack_inv [OF inv cached(1)] ..
next
  case (fresh t)
  have t: "pool_inv t" by (rule same_pool_inv [OF fresh(2) inv])
  have "mmap_ok k t = mmap_ok k s" using fresh(2) by (intro mmap_ok_cong) (simp_all add: same_pool_def)
  then show ?thesis using map_stack_inv [OF t _ _ _ rs fresh(4)] env perm_dangles_cong [OF fresh(2)]
    by (simp add: kernel_ok_def)
qed

lemma obtain_block_spec:
  assumes inv: "pool_inv s" and env: "kernel_ok k s"
    and r: "obtain_block k exec1 exec2 sz g s = Some (Inr (pd, mem, bs), s')"
  shows "pd \<in> set (stack_used s')" "mem = pd_stackblock (pds s' pd)"
    "bs = pd_stackblock_size (pds s' pd)" "sz \<le> bs" "stack_used s' = pd # stack_used s"
    "stack_user s' = stack_user s" "\<And>q. q \<noteq> pd \<Longrightarrow> pds s' q = pds s q"
proof -
  have "pd \<in> set (stack_used s') \<and> mem = pd_stackblock (pds s' pd) \<and>
    bs = pd_stackblock_size (pds s' pd) \<and> sz \<le> bs \<and> stack_user s' = stack_user s \<and>
    stack_used s' = pd # stack_used s \<and> (\<forall>q. q \<noteq> pd \<longrightarrow> pds s' q = pds s q)"
    using r
  proof (cases rule: obtain_block_cases)
    case (cached p)
    note b = best_fitD(1,3) [OF cached(2)]
    have nu: "remove1 p (stack_used s) = stack_used s" "remove1 p (stack_user s) = stack_user s"
      using inv b(1) by (auto simp: pool_inv_def intro!: remove1_idem)
    show ?thesis using cached(3,4) b(2) by (auto simp: nu)
  next
    case (fresh t)
    have e: "platform_ok k" "munmap_ok k"
      using env by (simp_all add: kernel_ok_def)
    have t: "pds t = pds s" "stack_used t = stack_used s" "stack_user t = stack_user s"
      using fresh by (simp_all add: same_pool_def)
    from e fresh(4) show ?thesis by (cases rule: map_stack_cases) (auto simp: t)
  qed
  then show "pd \<in> set (stack_used s')" "mem = pd_stackblock (pds s' pd)"
    "bs = pd_stackblock_size (pds s' pd)" "sz \<le> bs" "stack_used s' = pd # stack_used s"
    "stack_user s' = stack_user s" "\<And>q. q \<noteq> pd \<Longrightarrow> pds s' q = pds s q"
    by auto
qed

lemma allocate_system_stack_cases:
  assumes "allocate_system_stack k exec1 exec2 attr sz0 s = Some (r, s')"
  obtains (sizes) e where "round_sizes k attr sz0 = Some (Inl e)" "r = Inl e" "s' = s"
  | (block) e sz g where "round_sizes k attr sz0 = Some (Inr (sz, g))"
      "obtain_block k exec1 exec2 sz g s = Some (Inl e, s')" "r = Inl e"
  | (guard) e sz g pd mem bs t where "round_sizes k attr sz0 = Some (Inr (sz, g))"
      "obtain_block k exec1 exec2 sz g s = Some (Inr (pd, mem, bs), t)"
      "resize_guard k (if exec1 then PROT_RWX else PROT_RW) pd mem bs sz g t = (Some e, s')"
      "r = Inl e"
  | (ok) sz g pd mem bs t where "round_sizes k attr sz0 = Some (Inr (sz, g))"
      "obtain_block k exec1 exec2 sz g s = Some (Inr (pd, mem, bs), t)"
      "resize_guard k (if exec1 then PROT_RWX else PROT_RW) pd mem bs sz g t = (None, s')"
      "r = Inr pd"
proof -
  obtain x where x: "round_sizes k attr sz0 = Some x"
    using assms by (cases "round_sizes k attr sz0") (auto simp: allocate_system_stack_def Let_def)
  show ?thesis
  proof (cases x)
    case (Inl e)
    then show ?thesis using assms x by (intro sizes) (auto simp: allocate_system_stack_def)
  next
    case (Inr y)
    obtain sz g where y: "y = (sz, g)" by (cases y)
    then obtain z t where z: "obtain_block k exec1 exec2 sz g s = Some (z, t)"
      using assms x Inr by (auto simp: allocate_system_stack_def Let_def bind_eq_Some_conv)
    show ?thesis
    proof (cases z)
      case e: (Inl e)
      show ?thesis using assms x Inr y z e
        by (intro block [of sz g e]) (simp_all add: allocate_system_stack_def)
    next
      case w: (Inr w)
      obtain pd mem bs where w': "w = (pd, mem, bs)" by (cases w)
      obtain q u where q: "resize_guard k (if exec1 then PROT_RWX else PROT_RW) pd mem bs sz g t = (q, u)"
        by fastforce
      show ?thesis using assms x Inr y z w w' q guard [of sz g pd mem bs t] ok [of sz g pd mem bs t]
        by (cases q) (simp_all add: allocate_system_stack_def)
    qed
  qed
qed

lemma allocate_system_stack_inv:
  assumes inv: "pool_inv s" and env: "kernel_ok k s"
    and r: "allocate_system_stack k exec1 exec2 attr sz0 s = Some (r, s')"
  shows "pool_inv s' \<or> isl r \<and> exec2 \<and> \<not> exec1 \<and> perm_dangles k s s'"
proof -
  have guard: "pool_inv s'"
    if "round_sizes k attr sz0 = Some (Inr (sz, g))"
      "obtain_block k exec1 exec2 sz g s = Some (Inr (pd, mem, bs), t)"
      "resize_guard k (if exec1 then PROT_RWX else PROT_RW) pd mem bs sz g t = (x, s')"
    for sz g pd mem bs t x
  proof -
    note o = obtain_block_spec [OF inv env that(2)]
    have "g \<le> bs" using round_sizes_bounds(5) [OF that(1)] o(4) by simp
    moreover have "munmap_ok k" using env by (simp add: kernel_ok_def)
    moreover have "pool_inv t" using obtain_block_inv [OF inv env that(1,2)] by simp
    ultimately show ?thesis
      by (intro resize_guard_inv [OF _ o(1) _ o(2,3) _ _ that(3)]) simp_all
  qed
  from r show ?thesis
  proof (cases rule: allocate_system_stack_cases)
    case (block e sz g)
    then show ?thesis using obtain_block_inv [OF inv env block(1,2)] by simp
  qed (use inv guard in blast)+
qed

subsection \<open>Memory of the user\<close>

definition user_descriptor :: "kern \<Rightarrow> pthread_attr \<Rightarrow> u64" where
  "user_descriptor k attr =
    at_stackaddr attr - tls_tcb_size k -
    ((at_stackaddr attr - tls_tcb_size k) AND static_tls_align_m1 k)"

lemma user_descriptor_eq:
  "user_descriptor k attr = (at_stackaddr attr - tls_tcb_size k) AND NOT (static_tls_align_m1 k)"
  using and_not_mask_plus [of "at_stackaddr attr - tls_tcb_size k" "static_tls_align_m1 k"]
  by (simp add: user_descriptor_def algebra_simps)

lemma add_user_inv:
  assumes inv: "pool_inv s"
    and nin: "p \<notin> set (stack_cache s)" "p \<notin> set (stack_used s)" "p \<notin> set (stack_user s)"
    and u: "pd_user_stack (pds s' p)" "\<And>q. q \<noteq> p \<Longrightarrow> pds s' q = pds s q"
    and eq: "stack_cache s' = stack_cache s" "stack_used s' = stack_used s"
      "stack_user s' = p # stack_user s" "stack_cache_actsize s' = stack_cache_actsize s"
      "maps s' = maps s" "prots s' = prots s" "tls_live s' = insert p (tls_live s)"
      "in_flight_stack s' = 0"
  shows "pool_inv s'"
proof -
  let ?t = "s'\<lparr>stack_user := stack_user s, tls_live := tls_live s\<rparr>"
  have same: "pds s' q = pds s q" if "q \<in> set (sys_stacks s) \<union> set (stack_user s)" for q
    using that nin by (intro u(2)) (auto simp: sys_stacks_def)
  have "pool_inv ?t"
    by (rule pool_inv_agree [OF inv]) (simp_all add: same same_block_def eq)
  moreover have "tls_live s = set (stack_cache s) \<union> set (stack_used s) \<union> set (stack_user s)"
    using inv by (simp add: pool_inv_def)
  ultimately show ?thesis using nin u(1)
    by (simp add: pool_inv_def sys_stacks_def block_ok_def guard_ok_def eq)
qed

lemma forget_user_inv:
  assumes inv: "pool_inv s"
    and nin: "p \<notin> set (stack_cache s)" "p \<notin> set (stack_used s)" "p \<notin> set (stack_user s)"
    and eq: "\<And>q. q \<noteq> p \<Longrightarrow> pds s' q = pds s q"
      "stack_cache s' = stack_cache s" "stack_used s' = stack_used s"
      "stack_user s' = stack_user s" "stack_cache_actsize s' = stack_cache_actsize s"
      "maps s' = maps s" "prots s' = prots s" "tls_live s' = tls_live s"
      "in_flight_stack s' = in_flight_stack s"
  shows "pool_inv s'"
proof (rule pool_inv_agree [OF inv])
  show "same_block (pds s q) (pds s' q)"
    if "q \<in> set (sys_stacks s) \<union> set (stack_user s)" for q
  proof -
    have "q \<noteq> p" using that nin by (auto simp: sys_stacks_def)
    then show ?thesis by (simp add: eq(1) same_block_def)
  qed
qed (use inv eq in \<open>simp_all add: pool_inv_def\<close>)

text \<open>The descriptor a user stack gets: cleared, marked, with the extent of the stack.\<close>

definition user_pthread :: "kern \<Rightarrow> pthread_attr \<Rightarrow> u64 \<Rightarrow> pthread" where
  "user_pthread k attr sz = zero_pthread\<lparr>
     pd_specific := (\<lambda>_. 0)(0 := specific_1stblock k (user_descriptor k attr)), pd_stackblock := at_stackaddr attr - sz,
     pd_stackblock_size := sz, pd_user_stack := True, pd_multiple_threads := True,
     pd_setxid_futex := - 1\<rparr>"

lemma allocate_user_stack_cases:
  assumes "allocate_user_stack k attr sz s = Some (r, s')"
  obtains (small) "r = Inl EINVAL" "s' = s"
  | (tls) "r = Inl ENOMEM" "s' = upd_pd (user_descriptor k attr) (\<lambda>_. user_pthread k attr sz)
        (zero_descriptor k (user_descriptor k attr) s)"
  | (ok) dtv where "r = Inr (user_descriptor k attr)"
      "dl_allocate_tls k (user_descriptor k attr) = Inr dtv"
      "pds s' = (pds s)(user_descriptor k attr := (user_pthread k attr sz)\<lparr>pd_dtv := dtv\<rparr>)"
      "stack_user s' = user_descriptor k attr # stack_user s"
      "stack_cache s' = stack_cache s" "stack_used s' = stack_used s"
      "stack_cache_actsize s' = stack_cache_actsize s" "maps s' = maps s" "prots s' = prots s"
      "tls_live s' = insert (user_descriptor k attr) (tls_live s)"
      "in_flight_stack s' = in_flight_stack s"
  using assms
  by (cases "dl_allocate_tls k (user_descriptor k attr)")
    (auto simp: allocate_user_stack_def Let_def user_descriptor_def [symmetric]
      user_pthread_def upd_pd_def zero_pthread_def zero_descriptor_def lock_cache_def unlock_cache_def split: if_splits)

lemma allocate_user_stack_inv:
  assumes inv: "pool_inv s"
    and nin: "user_descriptor k attr \<notin> set (stack_cache s) \<union> set (stack_used s) \<union> set (stack_user s)"
    and r: "allocate_user_stack k attr sz s = Some (r, s')"
  shows "pool_inv s'"
  using r
proof (cases rule: allocate_user_stack_cases)
  case small
  then show ?thesis using inv by simp
next
  case tls
  show ?thesis
    by (rule forget_user_inv [OF inv, of "user_descriptor k attr"]) (use nin tls in auto)
next
  case (ok dtv)
  show ?thesis
    by (rule add_user_inv [OF inv, of "user_descriptor k attr"])
      (use nin ok inv in \<open>auto simp: user_pthread_def pool_inv_def\<close>)
qed

subsection \<open>The whole operation\<close>

lemma stack_size_of_same: "same_pool s (snd (stack_size_of attr s))"
  "maps (snd (stack_size_of attr s)) = maps s" "stack_user (snd (stack_size_of attr s)) = stack_user s"
  by (simp_all add: stack_size_of_def Let_def same_pool_def same_block_def)

lemma init_lock_and_robust_same: "same_pool s (init_lock_and_robust pd s)"
  unfolding init_lock_and_robust_def by (rule same_pool_upd_pd) (simp add: same_block_def)

lemma allocate_stack_cases:
  assumes "allocate_stack k exec1 exec2 attr s = Some (r, s')"
  obtains (user) q t where "ATTR_STACKADDR \<in> at_flags attr"
      "allocate_user_stack k attr (fst (stack_size_of attr s)) (snd (stack_size_of attr s)) = Some (q, t)"
      "r = map_sum id (\<lambda>pd. (pd, stacktop_of k pd)) q"
      "s' = case_sum (\<lambda>_. t) (\<lambda>pd. init_lock_and_robust pd t) q"
  | (system) q t where "ATTR_STACKADDR \<notin> at_flags attr"
      "allocate_system_stack k exec1 exec2 attr (fst (stack_size_of attr s))
         (snd (stack_size_of attr s)) = Some (q, t)"
      "r = map_sum id (\<lambda>pd. (pd, stacktop_of k pd)) q"
      "s' = case_sum (\<lambda>_. t) (\<lambda>pd. init_lock_and_robust pd t) q"
proof -
  let ?m = "if ATTR_STACKADDR \<in> at_flags attr
    then allocate_user_stack k attr (fst (stack_size_of attr s)) (snd (stack_size_of attr s))
    else allocate_system_stack k exec1 exec2 attr (fst (stack_size_of attr s))
      (snd (stack_size_of attr s))"
  obtain q t where q: "?m = Some (q, t)"
    using assms by (cases ?m) (auto simp: allocate_stack_def case_prod_beta split: if_splits)
  have "r = map_sum id (\<lambda>pd. (pd, stacktop_of k pd)) q"
    "s' = case_sum (\<lambda>_. t) (\<lambda>pd. init_lock_and_robust pd t) q"
    using assms q
    by (cases q; auto simp: allocate_stack_def case_prod_beta split: if_splits)+
  then show ?thesis using q by (auto intro: user system split: if_splits)
qed

text \<open>
  The whole operation keeps the invariant, on every path but that of a failing repair of the
  permissions, if a descriptor placed in memory of the user is not one the library already holds.
\<close>

lemma allocate_stack_inv:
  assumes inv: "pool_inv s" and env: "kernel_ok k s"
    and nin: "ATTR_STACKADDR \<in> at_flags attr \<longrightarrow>
      user_descriptor k attr \<notin> set (stack_cache s) \<union> set (stack_used s) \<union> set (stack_user s)"
    and r: "allocate_stack k exec1 exec2 attr s = Some (r, s')"
  shows "pool_inv s' \<or> isl r \<and> exec2 \<and> \<not> exec1 \<and> perm_dangles k s s'"
proof -
  let ?s = "snd (stack_size_of attr s)"
  note same = stack_size_of_same [where attr = attr and s = s]
  have inv': "pool_inv ?s" by (rule same_pool_inv [OF same(1) inv])
  have env': "kernel_ok k ?s" using env kernel_ok_cong [OF same(2,3)] by simp
  have fin: "pool_inv (case_sum (\<lambda>_. t) (\<lambda>pd. init_lock_and_robust pd t) q)" if "pool_inv t" for t q
    using that same_pool_inv [OF init_lock_and_robust_same] by (simp split: sum.split)
  from r show ?thesis
  proof (cases rule: allocate_stack_cases)
    case (user q t)
    have "pool_inv t"
      using allocate_user_stack_inv [OF inv' _ user(2)] nin user(1) same(1)
      by (simp add: same_pool_def)
    then show ?thesis unfolding user(4) using fin by blast
  next
    case (system q t)
    from allocate_system_stack_inv [OF inv' env' system(2)] show ?thesis
    proof
      assume "pool_inv t"
      then show ?thesis unfolding system(4) using fin by blast
    next
      assume "isl q \<and> exec2 \<and> \<not> exec1 \<and> perm_dangles k ?s t"
      then show ?thesis using system(3,4) perm_dangles_cong [OF same(1)] by (auto simp: isl_def)
    qed
  qed
qed

lemma allocate_stack_keeps_inv:
  assumes "pool_inv s" "alloc_env_ok k exec1 exec2 s"
    and "ATTR_STACKADDR \<in> at_flags attr \<longrightarrow>
      user_descriptor k attr \<notin> set (stack_cache s) \<union> set (stack_used s) \<union> set (stack_user s)"
    and "allocate_stack k exec1 exec2 attr s = Some (r, s')"
  shows "pool_inv s'"
  using allocate_stack_inv [OF assms(1) alloc_env_kernel [OF assms(2)] assms(3,4)] assms(2)
    perm_dangles_race by (auto simp: alloc_env_ok_def)

text \<open>
  What a thread on a stack of the library gets: a stack that is on the list of used stacks, whose
  guard is at least the one asked for, which reports the guard asked for, and which has the bytes
  asked for above the guard.
\<close>

lemma allocate_stack_grants:
  assumes inv: "pool_inv s" and env: "kernel_ok k s"
    and sys: "ATTR_STACKADDR \<notin> at_flags attr"
    and r: "allocate_stack k exec1 exec2 attr s = Some (Inr (pd, stktop), s')"
  shows "pd \<in> set (stack_used s')" "stktop = stacktop_of k pd"
    "at_guardsize attr \<le> pd_guardsize (pds s' pd)"
    "pd_reported_guardsize (pds s' pd) = (at_guardsize attr + pagesize_m1 k) AND NOT (pagesize_m1 k)"
    "unat (fst (stack_size_of attr s) AND NOT (static_tls_align_m1 k))
      \<le> unat (pd_stackblock_size (pds s' pd)) - unat (pd_guardsize (pds s' pd))"
    "stack_used s' = pd # stack_used s"
proof -
  let ?s = "snd (stack_size_of attr s)"
  note same = stack_size_of_same [where attr = attr and s = s]
  have inv': "pool_inv ?s" by (rule same_pool_inv [OF same(1) inv])
  have env': "kernel_ok k ?s" using env kernel_ok_cong [OF same(2,3)] by simp
  obtain t where t: "allocate_system_stack k exec1 exec2 attr (fst (stack_size_of attr s)) ?s
      = Some (Inr pd, t)" "s' = init_lock_and_robust pd t" "stktop = stacktop_of k pd"
    using r sys by (cases rule: allocate_stack_cases) (auto split: sum.splits)
  from t(1) obtain sz g mem bs u where u: "round_sizes k attr (fst (stack_size_of attr s)) = Some (Inr (sz, g))"
    "obtain_block k exec1 exec2 sz g ?s = Some (Inr (pd, mem, bs), u)"
    "resize_guard k (if exec1 then PROT_RWX else PROT_RW) pd mem bs sz g u = (None, t)"
    by (cases rule: allocate_system_stack_cases) auto
  note rb = round_sizes_bounds [OF u(1)] and o = obtain_block_spec [OF inv' env' u(2)]
  have "pool_inv u" using obtain_block_inv [OF inv' env' u(1,2)] by simp
  then have old: "pd_guardsize (pds u pd) \<le> bs"
    using o(1,3) by (auto simp: pool_inv_def sys_stacks_def guard_ok_def Let_def)
  have mok: "munmap_ok k" using env by (simp add: kernel_ok_def)
  note g = resize_guard_spec [OF mok u(3) less_imp_le [OF rb(5)] o(4) old]
  show "pd \<in> set (stack_used s')" "stktop = stacktop_of k pd"
    using o(1) g(4) t by (simp_all add: init_lock_and_robust_def)
  show "stack_used s' = pd # stack_used s"
    using o(5) g(4) t same(1) by (simp add: init_lock_and_robust_def same_pool_def)
  show "at_guardsize attr \<le> pd_guardsize (pds s' pd)"
    using rb(3) g(1) t(2) by (simp add: init_lock_and_robust_def word_le_nat_alt)
  show "pd_reported_guardsize (pds s' pd) = (at_guardsize attr + pagesize_m1 k) AND NOT (pagesize_m1 k)"
    using g(2) rb(2) t(2) by (simp add: init_lock_and_robust_def)
  show "unat (fst (stack_size_of attr s) AND NOT (static_tls_align_m1 k))
      \<le> unat (pd_stackblock_size (pds s' pd)) - unat (pd_guardsize (pds s' pd))"
    using g(3,10) rb(1) o(3) t(2) by (simp add: init_lock_and_robust_def)
qed

text \<open>
  What an allocation that fails leaves behind: nothing but, if the permissions had to be repaired and
  could not, the descriptor of the unmapped stack on the list.
\<close>

lemma allocate_error_lists:
  assumes inv: "pool_inv s" and env: "kernel_ok k s"
    and sys: "ATTR_STACKADDR \<notin> at_flags attr"
    and r: "allocate_stack k exec1 exec2 attr s = Some (Inl e, s')"
  shows "stack_used s' = stack_used s \<and> set (stack_cache s') \<subseteq> set (stack_cache s) \<and>
    stack_user s' = stack_user s \<or> exec2 \<and> \<not> exec1 \<and> perm_dangles k s s'"
proof -
  let ?s = "snd (stack_size_of attr s)"
  note same = stack_size_of_same [where attr = attr and s = s]
  have eq: "stack_used ?s = stack_used s" "stack_cache ?s = stack_cache s" "stack_user ?s = stack_user s"
    using same(1) by (simp_all add: same_pool_def)
  have inv': "pool_inv ?s" by (rule same_pool_inv [OF same(1) inv])
  have env': "kernel_ok k ?s" using env kernel_ok_cong [OF same(2,3)] by simp
  have k: "platform_ok k" "munmap_ok k" using env by (simp_all add: kernel_ok_def)
  have "allocate_system_stack k exec1 exec2 attr (fst (stack_size_of attr s)) ?s = Some (Inl e, s')"
    using r sys by (cases rule: allocate_stack_cases) (auto split: sum.splits)
  then show ?thesis
  proof (cases rule: allocate_system_stack_cases)
    case (sizes x)
    then show ?thesis by (simp add: eq)
  next
    case (block x sz g)
    from block(2) show ?thesis
    proof (cases rule: obtain_block_cases)
      case (fresh t)
      have t: "stack_used t = stack_used s" "stack_cache t = stack_cache s" "stack_user t = stack_user s"
        using fresh(2) eq by (simp_all add: same_pool_def)
      have dangles: "pool_inv s' \<or> exec2 \<and> \<not> exec1 \<and> perm_dangles k s s'"
        using obtain_block_inv [OF inv' env' block(1,2)] perm_dangles_cong [OF same(1)] by simp
      from k fresh(4) show ?thesis
      proof (cases rule: map_stack_cases)
        case (dangling mem pd y)
        then have "\<not> pool_inv s'" by (auto simp: pool_inv_def sys_stacks_def block_ok_def Let_def)
        then show ?thesis using dangles by simp
      qed (use t in simp_all)
    qed simp
  next
    case (guard x sz g pd mem bs t)
    note o = obtain_block_spec [OF inv' env' guard(2)]
    obtain e' where s': "s' = snd (mprot_error k pd mem bs e' t)"
      using k(2) guard(3) by (cases rule: resize_guard_cases) auto
    have t: "pool_inv t" using obtain_block_inv [OF inv' env' guard(1,2)] by simp
    have "set (stack_cache t) \<subseteq> set (stack_cache s)"
      using guard(2)
    proof (cases rule: obtain_block_cases)
      case (cached p)
      then show ?thesis using set_remove1_subset by (fastforce simp: eq)
    next
      case (fresh u)
      have "stack_cache u = stack_cache s" using fresh(2) eq by (simp add: same_pool_def)
      with k fresh(4) show ?thesis by (cases rule: map_stack_cases) auto
    qed
    moreover have "pd \<notin> set (stack_user t)" using t o(1) by (auto simp: pool_inv_def)
    ultimately show ?thesis using o(5,6) set_remove1_subset
      by (fastforce simp: s' mprot_error_eq [OF k(2)] eq remove1_idem)
  qed auto
qed

end
