(* ===== verification/Thread_Data.thy ===== *)
theory Thread_Data
  imports Stack_Alloc
begin

text \<open>
  \<open>__nptl_deallocate_tsd\<close> of \<open>pthread_create.c\<close>: the rounds that call the destructors of
  thread-specific data, and the release of the second-level blocks. A destructor is code of the
  user and hence a parameter: \<open>call f d s\<close> is the state after the function at address \<open>f\<close> has run
  on \<open>d\<close>. The lemmas show which destructors run, that the loops end whatever the destructors do,
  and that no second-level block stays behind.
\<close>

type_synonym destr_call = "u64 \<Rightarrow> u64 \<Rightarrow> nptl \<Rightarrow> nptl"

subsection \<open>The loops\<close>

definition clear_data :: "u64 \<Rightarrow> nat \<Rightarrow> nptl \<Rightarrow> nptl" where
  "clear_data level2 inner s =
    s\<lparr>key_data_at := (key_data_at s)(level2 := (key_data_at s level2)
        (inner := (key_data_at s level2 inner)\<lparr>kd_data := 0\<rparr>))\<rparr>"

text \<open>The loop over one block: \<open>n\<close> entries from \<open>inner\<close> on are left.\<close>

fun tsd_inner :: "destr_call \<Rightarrow> u64 \<Rightarrow> nat \<Rightarrow> nat \<Rightarrow> nat \<Rightarrow> nptl \<Rightarrow> nat \<times> nptl" where
  "tsd_inner call level2 inner 0 idx s = (idx, s)"
| "tsd_inner call level2 inner (Suc n) idx s =
    (let data = kd_data (key_data_at s level2 inner);
         s = (if data \<noteq> 0
              then let s = clear_data level2 inner s in
                   if kd_seq (key_data_at s level2 inner) = ks_seq (pthread_keys s idx) \<and>
                      ks_destr (pthread_keys s idx) \<noteq> 0
                   then call (ks_destr (pthread_keys s idx)) data s else s
              else s)
     in tsd_inner call level2 (Suc inner) n (Suc idx) s)"

text \<open>The loop over the first level. The step over a missing block is the source's.\<close>

fun tsd_outer :: "kern \<Rightarrow> destr_call \<Rightarrow> u64 \<Rightarrow> nat \<Rightarrow> nat \<Rightarrow> nat \<Rightarrow> nptl \<Rightarrow> nat \<times> nptl" where
  "tsd_outer k call self cnt 0 idx s = (idx, s)"
| "tsd_outer k call self cnt (Suc n) idx s =
    (let level2 = pd_specific (pds s self) cnt;
         (idx, s) = (if level2 \<noteq> 0 then tsd_inner call level2 0 (key_2ndlevel_size k) idx s
                     else (idx + key_1stlevel_size k, s))
     in tsd_outer k call self (Suc cnt) n idx s)"

text \<open>The rounds; the result says whether the last one found no new data.\<close>

function tsd_rounds :: "kern \<Rightarrow> destr_call \<Rightarrow> u64 \<Rightarrow> nat \<Rightarrow> nptl \<Rightarrow> bool \<times> nptl" where
  "tsd_rounds k call self round s =
    (let s = upd_pd self (\<lambda>p. p\<lparr>pd_specific_used := False\<rparr>) s;
         (_, s) = tsd_outer k call self 0 (key_1stlevel_size k) 0 s
     in if \<not> pd_specific_used (pds s self) then (True, s)
        else if Suc round < destructor_iterations k then tsd_rounds k call self (Suc round) s
        else (False, s))"
  by pat_completeness auto
termination
  by (relation "measure (\<lambda>(k, call, self, round, s). destructor_iterations k - round)") auto

declare tsd_rounds.simps [simp del]

fun tsd_free :: "u64 \<Rightarrow> nat \<Rightarrow> nat \<Rightarrow> nptl \<Rightarrow> nptl" where
  "tsd_free self cnt 0 s = s"
| "tsd_free self cnt (Suc n) s =
    (let level2 = pd_specific (pds s self) cnt;
         s = (if level2 \<noteq> 0
              then upd_pd self (\<lambda>p. p\<lparr>pd_specific := (pd_specific p)(cnt := 0)\<rparr>) (free_ptr level2 s)
              else s)
     in tsd_free self (Suc cnt) n s)"

definition deallocate_tsd :: "kern \<Rightarrow> destr_call \<Rightarrow> u64 \<Rightarrow> nptl \<Rightarrow> nptl" where
  "deallocate_tsd k call self s =
    (if pd_specific_used (pds s self)
     then let (just_free, s) = tsd_rounds k call self 0 s;
              s = (if just_free then s
                   else s\<lparr>key_data_at := (key_data_at s)
                            (specific_1stblock k self := (\<lambda>_. zero_key_data))\<rparr>);
              s = tsd_free self 1 (key_1stlevel_size k - 1) s
          in upd_pd self (\<lambda>p. p\<lparr>pd_specific_used := False\<rparr>) s
     else s)"

subsection \<open>Whatever the destructors do\<close>

lemma free_ptr_sel [simp]:
  "pds (free_ptr p s) = pds s" "key_data_at (free_ptr p s) = key_data_at s"
  "mallocs (free_ptr p s) = mallocs s - ({p} - {0})"
  "pthread_keys (free_ptr p s) = pthread_keys s"
  by (simp_all add: free_ptr_def)

lemma same_pool_free_ptr [simp]: "same_pool s (free_ptr p s)"
  by (simp add: free_ptr_def same_pool_def same_block_def)

lemma tsd_free_specific:
  "pd_specific (pds (tsd_free self cnt n s) self) i =
    (if cnt \<le> i \<and> i < cnt + n then 0 else pd_specific (pds s self) i)"
proof (induction n arbitrary: cnt s)
  case (Suc n)
  then show ?case by (cases "i = cnt") (simp_all add: Let_def)
qed auto

lemma tsd_free_mallocs:
  "mallocs (tsd_free self cnt n s) =
    mallocs s - (pd_specific (pds s self) ` {cnt..<cnt + n} - {0})"
proof (induction n arbitrary: cnt s)
  case 0
  then show ?case by simp
next
  case (Suc n)
  let ?h = "pd_specific (pds s self)"
  have iv: "?h ` {cnt..<cnt + Suc n} = insert (?h cnt) (?h ` {Suc cnt..<Suc cnt + n})"
    by (auto simp: image_iff Bex_def less_Suc_eq_le Suc_le_eq) (metis le_neq_implies_less)+
  have upd: "(?h(cnt := 0)) ` {Suc cnt..<Suc cnt + n} = ?h ` {Suc cnt..<Suc cnt + n}"
    by (rule image_cong) auto
  show ?case
    unfolding iv by (cases "?h cnt = 0") (auto simp: Suc.IH Let_def upd)
qed

lemma tsd_free_frame:
  "same_pool s (tsd_free self cnt n s)"
  "key_data_at (tsd_free self cnt n s) = key_data_at s"
  "pd_specific_used (pds (tsd_free self cnt n s) p) = pd_specific_used (pds s p)"
proof (induction n arbitrary: cnt s)
  case 0
  { case 1 then show ?case by simp } { case 2 then show ?case by simp }
  { case 3 then show ?case by simp }
next
  case (Suc n)
  have up: "same_pool s (upd_pd self (\<lambda>p. p\<lparr>pd_specific := (pd_specific p)(cnt := 0)\<rparr>) (free_ptr l s))" for l s cnt
    by (rule same_pool_trans [OF same_pool_free_ptr same_pool_upd_pd]) (simp add: same_block_def)
  { case 1 then show ?case
      using Suc.IH(1) by (auto simp: Let_def intro: same_pool_trans [OF up Suc.IH(1)]) }
  { case 2 then show ?case by (simp add: Suc.IH Let_def) }
  { case 3 then show ?case by (simp add: Suc.IH Let_def) }
qed

lemma deallocate_tsd_clears:
  "\<not> pd_specific_used (pds (deallocate_tsd k call self s) self)"
  "pd_specific_used (pds s self) \<Longrightarrow> 1 \<le> i \<Longrightarrow> i < key_1stlevel_size k \<Longrightarrow>
    pd_specific (pds (deallocate_tsd k call self s) self) i = 0"
  by (auto simp: deallocate_tsd_def tsd_free_specific case_prod_beta)

subsection \<open>Destructors that only act on the heap\<close>

text \<open>
  Destructors that leave the thread-specific data alone and act on the \<open>malloc\<close> heap, as
  \<open>free\<close> does: \<open>eff f d\<close> is their effect.
\<close>

definition heap_only :: "destr_call \<Rightarrow> (u64 \<Rightarrow> u64 \<Rightarrow> u64 set \<Rightarrow> u64 set) \<Rightarrow> bool" where
  "heap_only call eff \<longleftrightarrow> (\<forall>f d s. call f d s = s\<lparr>mallocs := eff f d (mallocs s)\<rparr>)"

text \<open>
  The destructor that is due for an entry: the data is set, the key is the one the data was set
  for, and the key has a destructor.
\<close>

definition due :: "key_struct \<Rightarrow> key_data \<Rightarrow> (u64 \<times> u64) list" where
  "due ks kd = (if kd_data kd \<noteq> 0 \<and> kd_seq kd = ks_seq ks \<and> ks_destr ks \<noteq> 0
                then [(ks_destr ks, kd_data kd)] else [])"

definition due_block :: "(nat \<Rightarrow> key_struct) \<Rightarrow> (nat \<Rightarrow> key_data) \<Rightarrow> nat \<Rightarrow> nat \<Rightarrow> nat \<Rightarrow> (u64 \<times> u64) list"
  where "due_block keys blk inner n idx = concat (map (\<lambda>j. due (keys (idx + j)) (blk (inner + j))) [0..<n])"

lemma due_block_Suc:
  "due_block keys blk inner (Suc n) idx =
    due (keys idx) (blk inner) @ due_block keys blk (Suc inner) n (Suc idx)"
  by (simp add: due_block_def upt_conv_Cons map_Suc_upt [symmetric] comp_def del: upt_Suc)

definition clear_from :: "nat \<Rightarrow> nat \<Rightarrow> (nat \<Rightarrow> key_data) \<Rightarrow> nat \<Rightarrow> key_data" where
  "clear_from inner n blk = (\<lambda>i. if inner \<le> i \<and> i < inner + n then (blk i)\<lparr>kd_data := 0\<rparr> else blk i)"

text \<open>The destructors run in the order of the entries.\<close>

definition run_due :: "(u64 \<Rightarrow> u64 \<Rightarrow> u64 set \<Rightarrow> u64 set) \<Rightarrow> (u64 \<times> u64) list \<Rightarrow> u64 set \<Rightarrow> u64 set" where
  "run_due eff ds m = fold (\<lambda>(f, d). eff f d) ds m"

lemma run_due_simps [simp]:
  "run_due eff [] m = m" "run_due eff (ds @ es) m = run_due eff es (run_due eff ds m)"
  "run_due eff [(f, d)] m = eff f d m"
  by (simp_all add: run_due_def)

lemma tsd_inner_heap:
  assumes "heap_only call eff"
  shows "tsd_inner call l inner n idx s =
    (idx + n, s\<lparr>key_data_at := (key_data_at s)(l := clear_from inner n (key_data_at s l)),
      mallocs := run_due eff (due_block (pthread_keys s) (key_data_at s l) inner n idx) (mallocs s)\<rparr>)"
proof (induction n arbitrary: inner idx s)
  case 0
  have "clear_from inner 0 blk = blk" for blk by (intro ext) (auto simp: clear_from_def)
  then show ?case by (simp add: due_block_def)
next
  case (Suc n)
  let ?b = "key_data_at s l"
  have cl: "clear_from (Suc inner) n (?b(inner := (?b inner)\<lparr>kd_data := 0\<rparr>)) = clear_from inner (Suc n) ?b"
    by (rule ext) (auto simp: clear_from_def)
  have cl0: "clear_from (Suc inner) n ?b = clear_from inner (Suc n) ?b" if "kd_data (?b inner) = 0"
    using that by (intro ext) (auto simp: clear_from_def le_eq_less_or_eq [of inner])
  have blk: "due_block keys (?b(inner := x)) (Suc inner) n i = due_block keys ?b (Suc inner) n i" for keys x i
    by (simp add: due_block_def)
  have c: "call f d t = t\<lparr>mallocs := eff f d (mallocs t)\<rparr>" for f d t
    using assms unfolding heap_only_def by blast
  define t where "t = s\<lparr>key_data_at := (key_data_at s)(l := ?b(inner := (?b inner)\<lparr>kd_data := 0\<rparr>)),
    mallocs := run_due eff (due (pthread_keys s idx) (?b inner)) (mallocs s)\<rparr>"
  have step: "tsd_inner call l inner (Suc n) idx s = tsd_inner call l (Suc inner) n (Suc idx) t"
  proof (cases "kd_data (?b inner) = 0")
    case True
    have "x\<lparr>kd_data := 0\<rparr> = x" if "kd_data x = 0" for x :: key_data using that by simp
    then have b: "?b(inner := (?b inner)\<lparr>kd_data := 0\<rparr>) = ?b"
      using True by (simp only: fun_upd_triv)
    have "t = s" unfolding t_def b using True by (simp add: due_def)
    then show ?thesis using True by simp
  next
    case False
    then show ?thesis by (simp add: t_def due_def clear_data_def Let_def c [of "ks_destr (pthread_keys s idx)"])
  qed
  show ?case
    unfolding step Suc.IH by (simp add: t_def due_block_Suc cl blk) (simp add: fun_upd_def)
qed

definition due_all :: "kern \<Rightarrow> u64 \<Rightarrow> nptl \<Rightarrow> nat \<Rightarrow> nat \<Rightarrow> (u64 \<times> u64) list" where
  "due_all k self s cnt n = concat (map (\<lambda>c.
     let l = pd_specific (pds s self) c in
     if l = 0 then []
     else due_block (pthread_keys s) (key_data_at s l) 0 (key_2ndlevel_size k) (c * key_2ndlevel_size k))
     [cnt..<cnt + n])"

definition clear_blocks :: "nat \<Rightarrow> u64 set \<Rightarrow> (u64 \<Rightarrow> nat \<Rightarrow> key_data) \<Rightarrow> u64 \<Rightarrow> nat \<Rightarrow> key_data" where
  "clear_blocks n ls h = (\<lambda>l. if l \<in> ls \<and> l \<noteq> 0 then clear_from 0 n (h l) else h l)"

lemma tsd_outer_heap:
  assumes "heap_only call eff" "key_1stlevel_size k = key_2ndlevel_size k"
    and "\<forall>i j. cnt \<le> i \<and> i < j \<and> j < cnt + n \<longrightarrow> pd_specific (pds s self) i \<noteq> 0 \<longrightarrow>
      pd_specific (pds s self) i \<noteq> pd_specific (pds s self) j"
    and "idx = cnt * key_2ndlevel_size k"
  shows "tsd_outer k call self cnt n idx s =
    ((cnt + n) * key_2ndlevel_size k, s\<lparr>key_data_at := clear_blocks (key_2ndlevel_size k)
        (pd_specific (pds s self) ` {cnt..<cnt + n}) (key_data_at s),
      mallocs := run_due eff (due_all k self s cnt n) (mallocs s)\<rparr>)"
  using assms(3,4)
proof (induction n arbitrary: cnt idx s)
  case 0
  then show ?case by (simp add: due_all_def clear_blocks_def)
next
  case (Suc n)
  let ?h = "pd_specific (pds s self)" and ?K = "key_2ndlevel_size k"
  have iv: "?h ` {cnt..<cnt + Suc n} = insert (?h cnt) (?h ` {Suc cnt..<Suc cnt + n})"
    by (auto simp: image_iff Bex_def less_Suc_eq_le Suc_le_eq) (metis le_neq_implies_less)+
  have up: "[cnt..<cnt + Suc n] = cnt # [Suc cnt..<Suc cnt + n]"
    using upt_conv_Cons [of cnt "cnt + Suc n"] by simp
  have d: "\<forall>i j. Suc cnt \<le> i \<and> i < j \<and> j < Suc cnt + n \<longrightarrow> ?h i \<noteq> 0 \<longrightarrow> ?h i \<noteq> ?h j"
    using Suc.prems(1) by simp
  show ?case
  proof (cases "?h cnt = 0")
    case True
    have "clear_blocks ?K (insert (?h cnt) ls) h = clear_blocks ?K ls h" for ls h
      using True by (auto simp: clear_blocks_def)
    moreover have "due_all k self s cnt (Suc n) = due_all k self s (Suc cnt) n"
      using True unfolding due_all_def up by simp
    ultimately show ?thesis
      using True Suc.IH [OF d refl] Suc.prems(2) unfolding iv
      by (simp add: assms(2) add.commute)
  next
    case False
    define t where "t = s\<lparr>key_data_at := (key_data_at s)(?h cnt := clear_from 0 ?K (key_data_at s (?h cnt))),
      mallocs := run_due eff (due_block (pthread_keys s) (key_data_at s (?h cnt)) 0 ?K idx) (mallocs s)\<rparr>"
    have st: "pds t = pds s" "pthread_keys t = pthread_keys s" by (simp_all add: t_def)
    have other: "?h c \<noteq> ?h cnt" if "c \<in> {Suc cnt..<Suc cnt + n}" for c
    proof -
      have "cnt \<le> cnt \<and> cnt < c \<and> c < cnt + Suc n" using that by auto
      with Suc.prems(1) False show ?thesis by metis
    qed
    have due': "due_all k self t (Suc cnt) n = due_all k self s (Suc cnt) n"
      unfolding due_all_def st set_upt by (intro arg_cong [of _ _ concat] map_cong refl)
        (use other in \<open>auto simp: t_def Let_def\<close>)
    have "?h cnt \<notin> ?h ` {Suc cnt..<Suc cnt + n}" using other by force
    then have clear: "clear_blocks ?K (?h ` {Suc cnt..<Suc cnt + n}) (key_data_at t) =
        clear_blocks ?K (?h ` {cnt..<cnt + Suc n}) (key_data_at s)"
      unfolding iv using False by (intro ext) (simp add: clear_blocks_def t_def)
    have due_s: "due_all k self s cnt (Suc n) =
        due_block (pthread_keys s) (key_data_at s (?h cnt)) 0 ?K idx @ due_all k self s (Suc cnt) n"
      using False unfolding due_all_def up by (simp add: Let_def Suc.prems(2))
    have step: "tsd_outer k call self cnt (Suc n) idx s = tsd_outer k call self (Suc cnt) n (Suc cnt * ?K) t"
      using False Suc.prems(2) by (simp add: tsd_inner_heap [OF assms(1)] t_def add.commute Let_def)
    have mt: "mallocs t = run_due eff
        (due_block (pthread_keys s) (key_data_at s (?h cnt)) 0 ?K idx) (mallocs s)"
      by (simp add: t_def)
    have rt: "t\<lparr>key_data_at := x, mallocs := y\<rparr> = s\<lparr>key_data_at := x, mallocs := y\<rparr>" for x y
      by (simp add: t_def)
    have "tsd_outer k call self (Suc cnt) n (Suc cnt * ?K) t = ((Suc cnt + n) * ?K,
        t\<lparr>key_data_at := clear_blocks ?K (?h ` {Suc cnt..<Suc cnt + n}) (key_data_at t),
          mallocs := run_due eff (due_all k self t (Suc cnt) n) (mallocs t)\<rparr>)"
      using Suc.IH [of "Suc cnt" t] d by (simp only: st)
    then show ?thesis
      unfolding step clear due' due_s mt rt by (simp only: run_due_simps add_Suc_right add_Suc)
  qed
qed

text \<open>
  One round is enough: every destructor that is due runs, once, in the order of the keys; then
  the blocks go.
\<close>

lemma deallocate_tsd_heap:
  assumes h: "heap_only call eff" and sz: "key_1stlevel_size k = key_2ndlevel_size k"
    and used: "pd_specific_used (pds s self)"
    and d: "\<forall>i j. i < j \<and> j < key_1stlevel_size k \<longrightarrow> pd_specific (pds s self) i \<noteq> 0 \<longrightarrow>
      pd_specific (pds s self) i \<noteq> pd_specific (pds s self) j"
  shows "mallocs (deallocate_tsd k call self s) =
      run_due eff (due_all k self s 0 (key_1stlevel_size k)) (mallocs s)
        - (pd_specific (pds s self) ` {1..<key_1stlevel_size k} - {0})"
    "pd_specific (pds s self) i \<noteq> 0 \<Longrightarrow> i < key_1stlevel_size k \<Longrightarrow> j < key_2ndlevel_size k \<Longrightarrow>
      kd_data (key_data_at (deallocate_tsd k call self s) (pd_specific (pds s self) i) j) = 0"
proof -
  define u where "u = upd_pd self (\<lambda>p. p\<lparr>pd_specific_used := False\<rparr>) s"
  have us: "pd_specific (pds u self) = pd_specific (pds s self)" "key_data_at u = key_data_at s"
    "mallocs u = mallocs s" "pthread_keys u = pthread_keys s" "\<not> pd_specific_used (pds u self)"
    by (simp_all add: u_def)
  have due: "due_all k self u 0 n = due_all k self s 0 n" for n
    by (simp add: due_all_def us Let_def cong: if_cong)
  define v where "v = u\<lparr>key_data_at := clear_blocks (key_2ndlevel_size k)
        (pd_specific (pds s self) ` {0..<key_1stlevel_size k}) (key_data_at s),
      mallocs := run_due eff (due_all k self s 0 (key_1stlevel_size k)) (mallocs s)\<rparr>"
  have "tsd_outer k call self 0 (key_1stlevel_size k) 0 u =
      (key_1stlevel_size k * key_2ndlevel_size k, v)"
    using tsd_outer_heap [OF h sz, of 0 "key_1stlevel_size k" u self 0] d
    by (simp add: us due v_def)
  then have r: "tsd_rounds k call self 0 s = (True, v)"
    using us(5) by (subst tsd_rounds.simps) (simp add: u_def [symmetric], simp add: v_def)
  then have eq: "deallocate_tsd k call self s = upd_pd self (\<lambda>p. p\<lparr>pd_specific_used := False\<rparr>)
      (tsd_free self 1 (key_1stlevel_size k - 1) v)"
    using used by (simp add: deallocate_tsd_def)
  have vs: "pds v = pds u" by (simp add: v_def)
  have iv: "{1..<1 + (n - 1)} = {1..<n}" for n :: nat by auto
  show "mallocs (deallocate_tsd k call self s) =
      run_due eff (due_all k self s 0 (key_1stlevel_size k)) (mallocs s)
        - (pd_specific (pds s self) ` {1..<key_1stlevel_size k} - {0})"
    unfolding eq by (simp add: tsd_free_mallocs vs us iv [simplified]) (simp add: v_def)
  show "kd_data (key_data_at (deallocate_tsd k call self s) (pd_specific (pds s self) i) j) = 0"
    if "pd_specific (pds s self) i \<noteq> 0" "i < key_1stlevel_size k" "j < key_2ndlevel_size k"
    unfolding eq using that by (simp add: tsd_free_frame(2)) (simp add: v_def clear_blocks_def clear_from_def)
qed

subsection \<open>The pool through the destructors\<close>

definition keeps_pool :: "destr_call \<Rightarrow> bool" where
  "keeps_pool call \<longleftrightarrow> (\<forall>f d s. same_pool s (call f d s))"

lemma same_pool_clear_data [simp]: "same_pool s (clear_data l i s)"
  by (simp add: clear_data_def same_pool_def same_block_def)

lemma tsd_inner_pool:
  assumes "keeps_pool call"
  shows "same_pool s (snd (tsd_inner call l inner n idx s))"
proof (induction n arbitrary: inner idx s)
  case (Suc n)
  have call: "same_pool t (call f d t)" for f d t using assms by (simp add: keeps_pool_def)
  have 1: "same_pool s (snd (tsd_inner call l i n j (clear_data l inner s)))" for i j
    by (rule same_pool_trans [OF same_pool_clear_data Suc.IH])
  have 2: "same_pool s (snd (tsd_inner call l i n j (call f d (clear_data l inner s))))" for f d i j
    by (rule same_pool_trans [OF same_pool_clear_data same_pool_trans [OF call Suc.IH]])
  show ?case using Suc.IH 1 2 by (simp add: Let_def)
qed simp

lemma tsd_outer_pool:
  assumes "keeps_pool call"
  shows "same_pool s (snd (tsd_outer k call self cnt n idx s))"
proof (induction n arbitrary: cnt idx s)
  case (Suc n)
  have "same_pool s (snd (tsd_outer k call self c n (fst x) (snd x)))"
    if "x = tsd_inner call l 0 m j s" for c l m j x
    unfolding that by (rule same_pool_trans [OF tsd_inner_pool [OF assms] Suc.IH])
  then show ?case using Suc.IH by (simp add: Let_def case_prod_beta)
qed simp

lemma tsd_rounds_pool:
  assumes "keeps_pool call"
  shows "same_pool s (snd (tsd_rounds k call self round s))"
  using assms
proof (induction k call self round s rule: tsd_rounds.induct)
  case (1 k c self round s)
  let ?u = "upd_pd self (\<lambda>p. p\<lparr>pd_specific_used := False\<rparr>) s"
  let ?v = "snd (tsd_outer k c self 0 (key_1stlevel_size k) 0 ?u)"
  have u: "same_pool s ?u" by (rule same_pool_upd_pd) (simp add: same_block_def)
  have v: "same_pool s ?v" by (rule same_pool_trans [OF u tsd_outer_pool [OF 1(2)]])
  have "same_pool s (snd (tsd_rounds k c self (Suc round) ?v))"
    if "pd_specific_used (pds ?v self)" "Suc round < destructor_iterations k"
    by (rule same_pool_trans [OF v 1(1) [OF refl refl prod.collapse _ that(2) 1(2)]])
      (use that(1) in simp)
  then show ?case using v by (subst tsd_rounds.simps) (simp add: Let_def case_prod_beta)
qed

lemma deallocate_tsd_pool:
  assumes "keeps_pool call"
  shows "same_pool s (deallocate_tsd k call self s)"
proof -
  have up: "same_pool t (upd_pd self (\<lambda>p. p\<lparr>pd_specific_used := False\<rparr>) t)" for t
    by (rule same_pool_upd_pd) (simp add: same_block_def)
  have kd: "same_pool t (t\<lparr>key_data_at := x\<rparr>)" for t x
    by (simp add: same_pool_def same_block_def)
  note r = tsd_rounds_pool [OF assms, of s k self 0]
  show ?thesis
    using same_pool_trans [OF r same_pool_trans [OF tsd_free_frame(1) up]]
      same_pool_trans [OF r same_pool_trans [OF kd same_pool_trans [OF tsd_free_frame(1) up]]]
    by (auto simp: deallocate_tsd_def Let_def case_prod_beta)
qed

end
