(* ===== verification/Thread_Attr.thy ===== *)
theory Thread_Attr
  imports Nptl_Types
begin

text \<open>
  The attribute functions of glibc 2.32 that own \<open>malloc\<close> blocks: \<open>__pthread_attr_destroy\<close>,
  \<open>__pthread_attr_extension\<close>, \<open>__pthread_attr_setaffinity_np\<close> and \<open>__pthread_getattr_np\<close>. An
  attribute owns its extension and, through it, a CPU set. The invariant \<open>owns\<close> says that
  the live blocks are those of the attribute and a rest \<open>R\<close>; every function keeps \<open>R\<close>, so that
  nothing leaks, with one exception: an attribute that carries \<open>ATTR_FLAG_OLDATTR\<close> and has an
  extension.
\<close>

subsection \<open>Destroying and extending\<close>

definition attr_destroy :: "pthread_attr \<Rightarrow> nptl \<Rightarrow> nptl" where
  "attr_destroy iattr s =
    (if ATTR_OLDATTR \<notin> at_flags iattr
     then case at_extension iattr of
            None \<Rightarrow> s
          | Some x \<Rightarrow> free_ptr (ax_addr x) (free_ptr (ax_cpuset x) s)
     else s)"

definition attr_extension ::
    "kern \<Rightarrow> pthread_attr \<Rightarrow> nptl \<Rightarrow> errno option \<times> pthread_attr \<times> nptl" where
  "attr_extension k attr s =
    (if at_extension attr \<noteq> None then (None, attr, s)
     else case malloc k (sizeof_attr_ext k) s of
            (None, s) \<Rightarrow> (Some ENOMEM, attr, s)
          | (Some p, s) \<Rightarrow>
              (None, attr\<lparr>at_extension := Some \<lparr>ax_addr = p, ax_cpuset = 0, ax_cpusetsize = 0,
                 ax_sigmask_set = False, ax_sigmask = {}\<rparr>\<rparr>, s))"

subsection \<open>The CPU set\<close>

text \<open>
  The CPU set is a byte string, or \<open>None\<close> for \<open>NULL\<close>. \<open>store_cpuset\<close> is the part of the function
  that has an extension to write to; its last step is the \<open>memcpy\<close>.
\<close>

definition store_cpuset ::
    "kern \<Rightarrow> pthread_attr \<Rightarrow> attr_ext_data \<Rightarrow> u64 \<Rightarrow> 8 word list \<Rightarrow> nptl
      \<Rightarrow> errno option \<times> pthread_attr \<times> nptl" where
  "store_cpuset k iattr x cpusetsize cpuset s =
    (let (ret, x, s) =
       (if ax_cpusetsize x \<noteq> cpusetsize
        then case realloc k (ax_cpuset x) cpusetsize s of
               (None, s) \<Rightarrow> (Some ENOMEM, x, s)
             | (Some newp, s) \<Rightarrow> (None, x\<lparr>ax_cpuset := newp, ax_cpusetsize := cpusetsize\<rparr>, s)
        else (None, x, s));
         iattr = iattr\<lparr>at_extension := Some x\<rparr>
     in if ret \<noteq> None then (ret, iattr, s)
        else (None, iattr,
              s\<lparr>bytes_at := (bytes_at s)(ax_cpuset x := take (unat cpusetsize) cpuset)\<rparr>))"

definition attr_setaffinity ::
    "kern \<Rightarrow> pthread_attr \<Rightarrow> u64 \<Rightarrow> 8 word list option \<Rightarrow> nptl \<Rightarrow> errno option \<times> pthread_attr \<times> nptl"
  where
  "attr_setaffinity k iattr cpusetsize cpuset s =
    (if cpuset = None \<or> cpusetsize = 0
     then case at_extension iattr of
            None \<Rightarrow> (None, iattr, s)
          | Some x \<Rightarrow>
              let s = free_ptr (ax_cpuset x) s
              in (None, iattr\<lparr>at_extension := Some (x\<lparr>ax_cpuset := 0, ax_cpusetsize := 0\<rparr>)\<rparr>, s)
     else
       case attr_extension k iattr s of
         (Some ret, iattr, s) \<Rightarrow> (Some ret, iattr, s)
       | (None, iattr, s) \<Rightarrow>
           store_cpuset k iattr (the (at_extension iattr)) cpusetsize (the cpuset) s)"

definition attr_setaffinity_old ::
    "kern \<Rightarrow> pthread_attr \<Rightarrow> 8 word list option \<Rightarrow> nptl \<Rightarrow> errno option \<times> pthread_attr \<times> nptl" where
  "attr_setaffinity_old k attr cpuset s = attr_setaffinity k attr 128 cpuset s"

subsection \<open>The attributes of a running thread\<close>

text \<open>
  What the initial thread is told about its stack: the lines of \<open>/proc/self/maps\<close> (\<open>None\<close> for a
  line that does not start with a range), the stack limit, the end of the stack, and the page
  size.
\<close>

record proc_env =
  pe_maps :: "errno + (u64 \<times> u64) option list"
  pe_rlimit :: "errno + u64"
  pe_stack_end :: u64
  pe_pagesize :: u64

fun scan_maps ::
    "proc_env \<Rightarrow> u64 \<Rightarrow> u64 \<Rightarrow> u64 \<Rightarrow> (u64 \<times> u64) option list \<Rightarrow> pthread_attr \<Rightarrow> errno option \<times> pthread_attr"
  where
  "scan_maps pe rlim stack_end last_to [] iattr = (Some ENOENT, iattr)"
| "scan_maps pe rlim stack_end last_to (None # lines) iattr =
    scan_maps pe rlim stack_end last_to lines iattr"
| "scan_maps pe rlim stack_end last_to (Some (from, to) # lines) iattr =
    (if from \<le> pe_stack_end pe \<and> pe_stack_end pe < to
     then let sz = rlim - (to - stack_end);
              sz = sz AND - pe_pagesize pe;
              sz = (if sz > stack_end - last_to then stack_end - last_to else sz)
          in (None, iattr\<lparr>at_stackaddr := stack_end, at_stacksize := sz\<rparr>)
     else scan_maps pe rlim stack_end to lines iattr)"

definition initial_thread_stack :: "proc_env \<Rightarrow> pthread_attr \<Rightarrow> errno option \<times> pthread_attr" where
  "initial_thread_stack pe iattr =
    (case pe_maps pe of
       Inl e \<Rightarrow> (Some e, iattr)
     | Inr lines \<Rightarrow>
         (case pe_rlimit pe of
            Inl e \<Rightarrow> (Some e, iattr)
          | Inr rlim \<Rightarrow>
              let stack_end = (pe_stack_end pe AND - pe_pagesize pe) + pe_pagesize pe
              in scan_maps pe rlim stack_end 0 lines iattr))"

text \<open>
  The loop that asks for the CPU set with growing buffers: in its \<open>i\<close>-th round the buffer has
  \<open>32 * 2 ^ i\<close> bytes. \<open>getaff\<close> is \<open>__pthread_getaffinity_np\<close>, an error or the set.
\<close>

function affinity_loop ::
    "kern \<Rightarrow> (u64 \<Rightarrow> errno + 8 word list) \<Rightarrow> nat \<Rightarrow> u64 \<Rightarrow> nptl
      \<Rightarrow> errno option \<times> u64 \<times> u64 \<times> nptl" where
  "affinity_loop k getaff i cpuset s =
    (let size = 32 * 2 ^ i in
     case realloc k cpuset (of_nat size) s of
       (None, s) \<Rightarrow> (Some ENOMEM, of_nat size, cpuset, s)
     | (Some cpuset, s) \<Rightarrow>
         (case getaff (of_nat size) of
            Inr bytes \<Rightarrow>
              (None, of_nat size, cpuset, s\<lparr>bytes_at := (bytes_at s)(cpuset := bytes)\<rparr>)
          | Inl e \<Rightarrow>
              if e = EINVAL \<and> size < 1024 * 1024
              then affinity_loop k getaff (Suc i) cpuset s
              else (Some e, of_nat size, cpuset, s)))"
  by pat_completeness auto
termination
proof (relation "measure (\<lambda>(k, getaff, i, cpuset, s). 20 - i)", goal_cases)
  case 1
  then show ?case by simp
next
  case (2 k getaff i cpuset s x xa y xb e)
  have "i < 20"
  proof (rule ccontr)
    assume "\<not> i < 20"
    then have "(2::nat) ^ 20 \<le> 2 ^ i" by (intro power_increasing) auto
    then show False using 2 by simp
  qed
  then show ?case by simp
qed

declare affinity_loop.simps [simp del]

text \<open>The part of \<open>__pthread_getattr_np\<close> between the lock and the CPU set, and the CPU set.\<close>

definition getattr_base :: "proc_env \<Rightarrow> pthread_attr \<Rightarrow> u64 \<Rightarrow> nptl \<Rightarrow> errno option \<times> pthread_attr" where
  "getattr_base pe iattr thread s =
    (let p = pds s thread;
         iattr = iattr\<lparr>at_schedparam := pd_schedparam p, at_schedpolicy := pd_schedpolicy p,
                       at_flags := pd_flags p\<rparr>;
         iattr = (if pd_joinid p = thread
                  then iattr\<lparr>at_flags := insert ATTR_DETACHSTATE (at_flags iattr)\<rparr> else iattr);
         iattr = iattr\<lparr>at_guardsize := pd_reported_guardsize p\<rparr>;
         (ret, iattr) =
           (if pd_stackblock p \<noteq> 0
            then (None, iattr\<lparr>at_stacksize := pd_stackblock_size p - pd_guardsize p,
                              at_stackaddr := pd_stackblock p + pd_stackblock_size p\<rparr>)
            else initial_thread_stack pe iattr)
     in (ret, iattr\<lparr>at_flags := insert ATTR_STACKADDR (at_flags iattr)\<rparr>))"

definition getattr_cpuset ::
    "kern \<Rightarrow> (u64 \<Rightarrow> errno + 8 word list) \<Rightarrow> pthread_attr \<Rightarrow> nptl
      \<Rightarrow> errno option \<times> pthread_attr \<times> nptl" where
  "getattr_cpuset k getaff iattr s =
    (let (ret, size, cpuset, s) = affinity_loop k getaff 0 0 s;
         (ret, iattr, s) =
           (if ret = None
            then attr_setaffinity k iattr size
                   (if cpuset = 0 then None else Some (bytes_at s cpuset)) s
            else (if ret = Some ENOSYS then None else ret, iattr, s))
     in (ret, iattr, free_ptr cpuset s))"

definition getattr_np ::
    "kern \<Rightarrow> proc_env \<Rightarrow> (errno + pthread_attr) \<Rightarrow> (u64 \<Rightarrow> errno + 8 word list) \<Rightarrow> u64 \<Rightarrow> nptl
      \<Rightarrow> errno option \<times> pthread_attr option \<times> nptl" where
  "getattr_np k pe attr_init getaff thread s =
    (case attr_init of
       Inl ret \<Rightarrow> (Some ret, None, s)
     | Inr iattr \<Rightarrow>
         let s = upd_pd thread (\<lambda>p. p\<lparr>pd_lock := True\<rparr>) s;
             (ret, iattr) = getattr_base pe iattr thread s;
             (ret, iattr, s) =
               (if ret = None then getattr_cpuset k getaff iattr s else (ret, iattr, s));
             s = upd_pd thread (\<lambda>p. p\<lparr>pd_lock := False\<rparr>) s
         in if ret \<noteq> None then (ret, Some iattr, attr_destroy iattr s) else (None, Some iattr, s))"

subsection \<open>Ownership of blocks\<close>

definition attr_blocks :: "pthread_attr \<Rightarrow> u64 set" where
  "attr_blocks attr =
    (case at_extension attr of None \<Rightarrow> {} | Some x \<Rightarrow> {ax_addr x, ax_cpuset x} - {0})"

definition owns :: "u64 set \<Rightarrow> pthread_attr \<Rightarrow> nptl \<Rightarrow> bool" where
  "owns R attr s \<longleftrightarrow>
    mallocs s = R \<union> attr_blocks attr \<and> R \<inter> attr_blocks attr = {} \<and>
    (\<forall>x. at_extension attr = Some x \<longrightarrow> ax_addr x \<noteq> 0 \<and> ax_addr x \<noteq> ax_cpuset x)"

lemma ownsD:
  assumes "owns R attr s"
  shows "mallocs s = R \<union> attr_blocks attr" "R \<inter> attr_blocks attr = {}"
    "at_extension attr = Some x \<Longrightarrow> ax_addr x \<noteq> 0 \<and> ax_addr x \<noteq> ax_cpuset x"
  using assms by (auto simp: owns_def)

lemma owns_cong:
  "at_extension a' = at_extension a \<Longrightarrow> mallocs s' = mallocs s \<Longrightarrow> owns R a' s' = owns R a s"
  unfolding owns_def attr_blocks_def by (simp only:)

lemma free_ptr_mallocs [simp]: "mallocs (free_ptr p s) = mallocs s - ({p} - {0})"
  by (simp add: free_ptr_def)

lemma malloc_cases:
  assumes "malloc_ok k" "malloc k n s = (r, s')"
  obtains (fail) "r = None" "s' = s"
  | (ok) p where "r = Some p" "p \<noteq> 0" "p \<notin> mallocs s" "mallocs s' = insert p (mallocs s)"
      "pds s' = pds s"
proof (cases "sys_malloc k (mallocs s) n")
  case None
  then show ?thesis using assms(2) by (intro fail) (simp_all add: malloc_def)
next
  case (Some p)
  then have "p \<noteq> 0 \<and> p \<notin> mallocs s" using assms(1) unfolding malloc_ok_def by blast
  then show ?thesis using assms(2) Some by (intro ok [of p]) (auto simp: malloc_def)
qed

lemma realloc_cases:
  assumes "malloc_ok k" "realloc k q n s = (r, s')"
  obtains (fail) "r = None" "s' = s"
  | (ok) p where "r = Some p" "p \<noteq> 0" "p \<notin> mallocs s - ({q} - {0})"
      "mallocs s' = insert p (mallocs s - ({q} - {0}))" "pds s' = pds s"
proof (cases "q = 0")
  case True
  then have "malloc k n s = (r, s')" using assms(2) by (simp add: realloc_def)
  from assms(1) this show ?thesis
    by (cases rule: malloc_cases) (use True fail ok in auto)
next
  case False
  show ?thesis
  proof (cases "sys_realloc k (mallocs s) q n")
    case None
    then show ?thesis using assms(2) False by (intro fail) (simp_all add: realloc_def)
  next
    case (Some p)
    then have "p \<noteq> 0 \<and> p \<notin> mallocs s - {q}" using assms(1) unfolding malloc_ok_def by blast
    then show ?thesis using assms(2) False Some by (intro ok [of p]) (auto simp: realloc_def)
  qed
qed

lemma attr_destroy_owns:
  "owns R attr s \<Longrightarrow> ATTR_OLDATTR \<notin> at_flags attr \<Longrightarrow> mallocs (attr_destroy attr s) = R"
  by (auto simp: owns_def attr_destroy_def attr_blocks_def split: option.splits)

lemma attr_extension_owns:
  assumes "malloc_ok k" "owns R attr s" "attr_extension k attr s = (r, attr', s')"
  shows "owns R attr' s'" "r = None \<Longrightarrow> at_extension attr' \<noteq> None"
    "at_flags attr' = at_flags attr" "pds s' = pds s"
proof -
  have "owns R attr' s' \<and> (r = None \<longrightarrow> at_extension attr' \<noteq> None) \<and>
    at_flags attr' = at_flags attr \<and> pds s' = pds s"
  proof (cases "at_extension attr")
    case (Some x)
    then show ?thesis using assms by (simp add: attr_extension_def)
  next
    case None
    obtain q t where m: "malloc k (sizeof_attr_ext k) s = (q, t)" by fastforce
    have b: "attr_blocks attr = {}" using None by (simp add: attr_blocks_def)
    from assms(1) m show ?thesis
    proof (cases rule: malloc_cases)
      case fail
      then show ?thesis using assms None m by (auto simp: attr_extension_def)
    next
      case (ok p)
      have eq: "r = None" "s' = t" "attr' = attr\<lparr>at_extension := Some \<lparr>ax_addr = p, ax_cpuset = 0,
          ax_cpusetsize = 0, ax_sigmask_set = False, ax_sigmask = {}\<rparr>\<rparr>"
        using assms(3) None m ok(1) by (simp_all add: attr_extension_def)
      have "mallocs s = R" using ownsD(1) [OF assms(2)] b by simp
      moreover have "attr_blocks attr' = {p}" using ok(2) by (auto simp: eq attr_blocks_def)
      ultimately have "owns R attr' s'" using ok(2-4) unfolding owns_def by (auto simp: eq)
      then show ?thesis using ok(5) by (simp add: eq)
    qed
  qed
  then show "owns R attr' s'" "r = None \<Longrightarrow> at_extension attr' \<noteq> None"
    "at_flags attr' = at_flags attr" "pds s' = pds s" by auto
qed

lemma store_cpuset_owns:
  assumes k: "malloc_ok k" and o: "owns R a t" and y: "at_extension a = Some y"
    and r: "store_cpuset k a y n bytes t = (r, attr', s')"
  shows "owns R attr' s' \<and> at_flags attr' = at_flags a \<and> pds s' = pds t"
proof (cases "ax_cpusetsize y = n")
  case True
  have eq: "attr' = a\<lparr>at_extension := Some y\<rparr>" "mallocs s' = mallocs t" "pds s' = pds t"
    using True r by (auto simp: store_cpuset_def Let_def)
  then have "owns R attr' s' = owns R a t" using y by (intro owns_cong) simp_all
  then show ?thesis using o eq by simp
next
  case neq: False
  obtain q u where q: "realloc k (ax_cpuset y) n t = (q, u)" by fastforce
  note oy = ownsD [OF o] and ny = ownsD(3) [OF o y]
  have b: "attr_blocks a = {ax_addr y, ax_cpuset y} - {0}" by (simp add: attr_blocks_def y)
  from k q show ?thesis
  proof (cases rule: realloc_cases)
    case fail
    have eq: "attr' = a\<lparr>at_extension := Some y\<rparr>" "s' = t"
      using fail neq r q by (auto simp: store_cpuset_def Let_def)
    then have "owns R attr' s' = owns R a t" using y by (intro owns_cong) simp_all
    then show ?thesis using o eq by simp
  next
    case (ok p)
    have "mallocs t - ({ax_cpuset y} - {0}) = R \<union> {ax_addr y}" "ax_addr y \<notin> R"
      using oy(1,2) ny b by auto
    moreover have "mallocs s' = mallocs u" "pds s' = pds u"
      "attr' = a\<lparr>at_extension := Some (y\<lparr>ax_cpuset := p, ax_cpusetsize := n\<rparr>)\<rparr>"
      using neq r q ok(1) by (auto simp: store_cpuset_def Let_def)
    ultimately show ?thesis using ok(2-5) ny by (auto simp: owns_def attr_blocks_def)
  qed
qed

lemma attr_setaffinity_owns:
  assumes k: "malloc_ok k" and o: "owns R attr s"
    and r: "attr_setaffinity k attr n cpuset s = (r, attr', s')"
  shows "owns R attr' s' \<and> at_flags attr' = at_flags attr \<and> pds s' = pds s"
proof (cases "cpuset = None \<or> n = 0")
  case True
  show ?thesis
  proof (cases "at_extension attr")
    case None
    then have "attr' = attr" "s' = s" using True r by (simp_all add: attr_setaffinity_def)
    then show ?thesis using o by simp
  next
    case (Some x)
    have eq: "attr' = attr\<lparr>at_extension := Some (x\<lparr>ax_cpuset := 0, ax_cpusetsize := 0\<rparr>)\<rparr>"
      "s' = free_ptr (ax_cpuset x) s"
      using True r Some by (simp_all add: attr_setaffinity_def Let_def)
    have b: "attr_blocks attr = {ax_addr x, ax_cpuset x} - {0}" by (simp add: attr_blocks_def Some)
    have b': "attr_blocks attr' = {ax_addr x}"
      using ownsD(3) [OF o Some] by (auto simp: eq attr_blocks_def)
    have "mallocs s' = R \<union> attr_blocks attr'" "R \<inter> attr_blocks attr' = {}"
      using ownsD(1,2) [OF o] ownsD(3) [OF o Some] unfolding b b' eq(2) free_ptr_mallocs by auto
    then have "owns R attr' s'" using ownsD(3) [OF o Some] by (simp add: owns_def eq(1))
    then show ?thesis by (simp add: eq free_ptr_def)
  qed
next
  case False
  obtain e a t where e: "attr_extension k attr s = (e, a, t)" by (cases "attr_extension k attr s") auto
  note x = attr_extension_owns [OF k o e]
  show ?thesis
  proof (cases e)
    case (Some err)
    then have "attr' = a" "s' = t" using False r e by (auto simp: attr_setaffinity_def)
    then show ?thesis using x by simp
  next
    case None
    obtain y where y: "at_extension a = Some y" using x(2) None by auto
    have "store_cpuset k a y n (the cpuset) t = (r, attr', s')"
      using None False r e y by (auto simp: attr_setaffinity_def)
    from store_cpuset_owns [OF k x(1) y this] x(3,4) show ?thesis by simp
  qed
qed

lemma affinity_loop_unfold:
  assumes "n = of_nat (32 * 2 ^ i)" "realloc k cpuset n s = (q, t)"
  shows "affinity_loop k getaff i cpuset s =
    (case q of
       None \<Rightarrow> (Some ENOMEM, n, cpuset, t)
     | Some p \<Rightarrow>
         (case getaff n of
            Inr bytes \<Rightarrow> (None, n, p, t\<lparr>bytes_at := (bytes_at t)(p := bytes)\<rparr>)
          | Inl e \<Rightarrow>
              if e = EINVAL \<and> 32 * 2 ^ i < (1024 * 1024 :: nat)
              then affinity_loop k getaff (Suc i) p t
              else (Some e, n, p, t)))"
  unfolding affinity_loop.simps [of k getaff i] Let_def assms(1) [symmetric] assms(2)
  by (simp split: option.split)

text \<open>The buffer of the loop is the only block it holds, and it is never lost.\<close>

lemma affinity_loop_mallocs:
  assumes "malloc_ok k" "affinity_loop k getaff i cpuset s = (r, n, cpuset', s')"
    and "mallocs s = R \<union> ({cpuset} - {0})" "cpuset \<notin> R"
  shows "mallocs s' = R \<union> ({cpuset'} - {0}) \<and> cpuset' \<notin> R - {0} \<and> pds s' = pds s"
  using assms
proof (induction k getaff i cpuset s rule: affinity_loop.induct)
  case (1 k getaff i cpuset s)
  define n0 :: u64 where "n0 = of_nat (32 * 2 ^ i)"
  obtain q t where q: "realloc k cpuset n0 s = (q, t)" by fastforce
  note loop = 1(3) [unfolded affinity_loop_unfold [OF n0_def q]]
  from 1(2) q show ?case
  proof (cases rule: realloc_cases)
    case fail
    then have "cpuset' = cpuset" "s' = s" using loop by simp_all
    then show ?thesis using 1(4,5) by simp
  next
    case (ok p)
    have R: "mallocs s - ({cpuset} - {0}) = R" using 1(4,5) by auto
    have t: "mallocs t = R \<union> ({p} - {0})" "p \<notin> R" using ok(2-4) R by auto
    show ?thesis
    proof (cases "getaff n0")
      case (Inr bytes)
      then have "cpuset' = p" "mallocs s' = mallocs t" "pds s' = pds t"
        using loop ok(1) by auto
      then show ?thesis using t ok(5) by simp
    next
      case (Inl e)
      show ?thesis
      proof (cases "e = EINVAL \<and> 32 * 2 ^ i < (1024 * 1024 :: nat)")
        case True
        then have "affinity_loop k getaff (Suc i) p t = (r, n, cpuset', s')"
          using loop ok(1) Inl by simp
        then show ?thesis
          using 1(1) [OF refl q [unfolded n0_def, symmetric] ok(1) Inl [unfolded n0_def] True 1(2) _ t] ok(5)
          by simp
      next
        case False
        then have "cpuset' = p" "s' = t" using loop ok(1) Inl by (auto split: if_splits)
        then show ?thesis using t ok(5) by simp
      qed
    qed
  qed
qed

subsection \<open>\<open>pthread_getattr_np\<close>\<close>

lemma scan_maps_frame:
  "scan_maps pe rlim se lt lines iattr = (r, a) \<Longrightarrow>
    at_extension a = at_extension iattr \<and> at_flags a = at_flags iattr"
  by (induction pe rlim se lt lines iattr rule: scan_maps.induct)
    (auto simp: Let_def split: if_splits)

lemma initial_thread_stack_frame:
  "initial_thread_stack pe iattr = (r, a) \<Longrightarrow>
    at_extension a = at_extension iattr \<and> at_flags a = at_flags iattr"
  by (auto simp: initial_thread_stack_def Let_def scan_maps_frame split: sum.splits)

text \<open>
  The line that is found contains the end of the stack, and the reported stack does not reach
  down into the mapping before it.
\<close>

lemma scan_maps_bound:
  assumes "scan_maps pe rlim se lt lines iattr = (None, a)"
  shows "at_stackaddr a = se \<and>
    (\<exists>from to. Some (from, to) \<in> set lines \<and> from \<le> pe_stack_end pe \<and> pe_stack_end pe < to) \<and>
    (\<exists>last. (last = lt \<or> (\<exists>from. Some (from, last) \<in> set lines)) \<and> at_stacksize a \<le> se - last)"
  using assms
  by (induction pe rlim se lt lines iattr rule: scan_maps.induct)
    (auto simp: Let_def not_less split: if_splits)

lemma getattr_base_frame:
  assumes "getattr_base pe a thread s = (r, a')"
  shows "at_extension a' = at_extension a"
    "at_flags a' = insert ATTR_STACKADDR (pd_flags (pds s thread)) \<union>
       (if pd_joinid (pds s thread) = thread then {ATTR_DETACHSTATE} else {})"
proof -
  let ?p = "pds s thread"
  let ?a = "a\<lparr>at_schedparam := pd_schedparam ?p, at_schedpolicy := pd_schedpolicy ?p,
    at_flags := (if pd_joinid ?p = thread then insert ATTR_DETACHSTATE (pd_flags ?p) else pd_flags ?p),
    at_guardsize := pd_reported_guardsize ?p\<rparr>"
  obtain q b where b: "initial_thread_stack pe ?a = (q, b)" by fastforce
  note f = initial_thread_stack_frame [OF b]
  have "a' = (if pd_stackblock ?p \<noteq> 0
    then ?a\<lparr>at_stacksize := pd_stackblock_size ?p - pd_guardsize ?p,
            at_stackaddr := pd_stackblock ?p + pd_stackblock_size ?p\<rparr>
    else b)\<lparr>at_flags := insert ATTR_STACKADDR (at_flags ?a)\<rparr>"
    using assms b f by (auto simp: getattr_base_def Let_def)
  then show "at_extension a' = at_extension a"
    "at_flags a' = insert ATTR_STACKADDR (pd_flags (pds s thread)) \<union>
       (if pd_joinid (pds s thread) = thread then {ATTR_DETACHSTATE} else {})"
    using f by auto
qed

lemma getattr_cpuset_owns:
  assumes k: "malloc_ok k" and o: "owns R a s" and r: "getattr_cpuset k getaff a s = (r, a', s')"
    and z: "0 \<notin> mallocs s"
  shows "owns R a' s' \<and> at_flags a' = at_flags a \<and> pds s' = pds s"
proof -
  obtain q n c t where l: "affinity_loop k getaff 0 0 s = (q, n, c, t)"
    by (cases "affinity_loop k getaff 0 0 s") auto
  from affinity_loop_mallocs [OF k l, of "mallocs s"] z
  have m: "mallocs t = mallocs s \<union> ({c} - {0})" "c \<notin> mallocs s - {0}" "pds t = pds s" by auto
  let ?C = "{c} - {0}"
  have c: "?C \<inter> (R \<union> attr_blocks a) = {}" using m(2) ownsD(1) [OF o] by auto
  have ot: "owns (R \<union> ?C) a t"
    using m(1) ownsD [OF o] c unfolding owns_def by auto
  have fin: "owns R b (free_ptr c u)" if "owns (R \<union> ?C) b u" for b u
  proof -
    have "mallocs (free_ptr c u) = R \<union> attr_blocks b" "R \<inter> attr_blocks b = {}"
      using ownsD(1,2) [OF that] c unfolding free_ptr_mallocs by auto
    then show ?thesis using ownsD(3) [OF that] unfolding owns_def by auto
  qed
  show ?thesis
  proof (cases "q = None")
    case True
    obtain w b u where w: "attr_setaffinity k a n (if c = 0 then None else Some (bytes_at t c)) t = (w, b, u)"
      by (metis prod_cases3)
    from attr_setaffinity_owns [OF k ot w]
    have "owns (R \<union> ?C) b u \<and> at_flags b = at_flags a \<and> pds u = pds t" .
    moreover have "a' = b" "s' = free_ptr c u"
      using r l w True by (simp_all add: getattr_cpuset_def)
    ultimately show ?thesis using fin m(3) by (simp add: free_ptr_def)
  next
    case False
    then have "a' = a" "s' = free_ptr c t" using r l by (auto simp: getattr_cpuset_def Let_def split: if_splits)
    then show ?thesis using fin [OF ot] m(3) by (simp add: free_ptr_def)
  qed
qed

lemma owns_upd_pd [simp]: "owns R a (upd_pd p f s) = owns R a s"
  by (simp add: owns_def)

text \<open>
  Success hands the caller an attribute with its blocks; failure leaves no block behind, unless
  the thread was created through the old interface.
\<close>

lemma getattr_np_owns:
  assumes k: "malloc_ok k" and a: "at_extension a = None" and z: "0 \<notin> mallocs s"
    and r: "getattr_np k pe (Inr a) getaff thread s = (r, res, s')"
  obtains a' where "res = Some a'"
    "at_flags a' = insert ATTR_STACKADDR (pd_flags (pds s thread)) \<union>
       (if pd_joinid (pds s thread) = thread then {ATTR_DETACHSTATE} else {})"
    "r = None \<Longrightarrow> owns (mallocs s) a' s'"
    "r \<noteq> None \<Longrightarrow> ATTR_OLDATTR \<notin> at_flags a' \<Longrightarrow> mallocs s' = mallocs s"
proof -
  let ?s = "upd_pd thread (\<lambda>p. p\<lparr>pd_lock := True\<rparr>) s"
  have o: "owns (mallocs s) a s" using a by (simp add: owns_def attr_blocks_def)
  obtain q b where b: "getattr_base pe a thread ?s = (q, b)" by fastforce
  note f = getattr_base_frame [OF b]
  have ob: "owns (mallocs s) b ?s" using o f(1) a by (simp add: owns_def attr_blocks_def)
  obtain x c t where x: "(if q = None then getattr_cpuset k getaff b ?s else (q, b, ?s)) = (x, c, t)"
    by (metis prod_cases3)
  have ct: "owns (mallocs s) c t \<and> at_flags c = at_flags b"
  proof (cases "q = None")
    case True
    then show ?thesis using getattr_cpuset_owns [OF k ob] x z by auto
  next
    case False
    then show ?thesis using x ob by auto
  qed
  have eq: "r = x" "res = Some c" "s' = (if x = None then upd_pd thread (\<lambda>p. p\<lparr>pd_lock := False\<rparr>) t
      else attr_destroy c (upd_pd thread (\<lambda>p. p\<lparr>pd_lock := False\<rparr>) t))"
    using r b x by (auto simp: getattr_np_def Let_def split: if_splits)
  show ?thesis
  proof (rule that [OF eq(2)])
    show "at_flags c = insert ATTR_STACKADDR (pd_flags (pds s thread)) \<union>
       (if pd_joinid (pds s thread) = thread then {ATTR_DETACHSTATE} else {})"
      using ct f(2) by simp
    show "owns (mallocs s) c s'" if "r = None" using ct eq(1,3) that by simp
    show "mallocs s' = mallocs s" if "r \<noteq> None" "ATTR_OLDATTR \<notin> at_flags c"
      using ct eq(1,3) that by (auto simp: attr_destroy_owns)
  qed
qed

text \<open>For a thread other than the initial one, the range reported is the stack above its guard.\<close>

definition same_stack_report :: "pthread_attr \<Rightarrow> pthread_attr \<Rightarrow> bool" where
  "same_stack_report a b \<longleftrightarrow>
    at_stackaddr b = at_stackaddr a \<and> at_stacksize b = at_stacksize a \<and>
    at_guardsize b = at_guardsize a"

lemma attr_setaffinity_report:
  "attr_setaffinity k a n c s = (r, b, s') \<Longrightarrow> same_stack_report a b"
  by (auto simp: attr_setaffinity_def store_cpuset_def attr_extension_def Let_def
      same_stack_report_def split: if_splits option.splits prod.splits)

lemma getattr_np_report:
  assumes "getattr_np k pe (Inr a) getaff thread s = (None, Some b, s')"
    and "pd_stackblock (pds s thread) \<noteq> 0"
  shows "at_stackaddr b = pd_stackblock (pds s thread) + pd_stackblock_size (pds s thread)"
    "at_stackaddr b - at_stacksize b = pd_stackblock (pds s thread) + pd_guardsize (pds s thread)"
    "at_guardsize b = pd_reported_guardsize (pds s thread)"
proof -
  let ?s = "upd_pd thread (\<lambda>p. p\<lparr>pd_lock := True\<rparr>) s"
  obtain q c where c: "getattr_base pe a thread ?s = (q, c)" by fastforce
  have q: "q = None" "at_stackaddr c = pd_stackblock (pds s thread) + pd_stackblock_size (pds s thread)"
    "at_stacksize c = pd_stackblock_size (pds s thread) - pd_guardsize (pds s thread)"
    "at_guardsize c = pd_reported_guardsize (pds s thread)"
    using c assms(2) by (auto simp: getattr_base_def Let_def)
  obtain x d t where x: "getattr_cpuset k getaff c ?s = (x, d, t)" by (metis prod_cases3)
  have "b = d" using assms(1) c q(1) x by (auto simp: getattr_np_def Let_def split: if_splits)
  moreover have "same_stack_report c d"
    using x attr_setaffinity_report
    by (auto simp: getattr_cpuset_def Let_def same_stack_report_def split: if_splits prod.splits)
  ultimately show "at_stackaddr b = pd_stackblock (pds s thread) + pd_stackblock_size (pds s thread)"
    "at_stackaddr b - at_stacksize b = pd_stackblock (pds s thread) + pd_guardsize (pds s thread)"
    "at_guardsize b = pd_reported_guardsize (pds s thread)"
    using q by (simp_all add: same_stack_report_def)
qed

end
