(* ===== verification/Thread_Life.thy ===== *)
theory Thread_Life
  imports Thread_Data Thread_Attr
begin

text \<open>
  The life of a thread in \<open>pthread_create.c\<close> and \<open>createthread.c\<close>: \<open>create_thread\<close>,
  \<open>__pthread_create_2_1\<close> and \<open>__pthread_create_2_0\<close> on the side of the creator, \<open>start_thread\<close>
  on the side of the new thread, \<open>__free_tcb\<close> on either. The code of the user, the clone and the
  scheduler are parameters (the record \<open>thread_ops\<close>). Where the thread waits, the steps of the
  other threads are a list of state changes; a function is \<open>None\<close> if the thread still waits at
  the end of the list, or if the process aborts.
\<close>

record thread_ops =
  op_getattr_default :: "nptl \<Rightarrow> (errno + pthread_attr) \<times> nptl"
  op_clone :: "u64 \<Rightarrow> u64 \<Rightarrow> nptl \<Rightarrow> errno + int"
  op_setaffinity :: "int \<Rightarrow> u64 \<Rightarrow> u64 \<Rightarrow> errno option"
  op_setscheduler :: "int \<Rightarrow> int \<Rightarrow> int \<Rightarrow> errno option"
  op_default_sched :: "pthread \<Rightarrow> pthread"
  op_sigcancel :: int
  op_run :: "u64 \<Rightarrow> u64 \<Rightarrow> nptl \<Rightarrow> u64 option \<times> nptl"
  op_tls_dtors :: "nptl \<Rightarrow> nptl"
  op_destr :: destr_call
  op_freeres :: "nptl \<Rightarrow> nptl"
  op_sp :: u64
  op_debugging :: bool

subsection \<open>Freeing the descriptor\<close>

definition free_tcb :: "kern \<Rightarrow> thread_ops \<Rightarrow> u64 \<Rightarrow> nptl \<Rightarrow> nptl option" where
  "free_tcb k ops pd s =
    (if TERMINATED \<in> pd_cancelhandling (pds s pd) then Some s
     else
       let s = upd_pd pd (\<lambda>p. p\<lparr>pd_cancelhandling := insert TERMINATED (pd_cancelhandling p)\<rparr>) s;
           (found, s) = (if op_debugging ops then find_in_stack_list pd s else (Some pd, s))
       in if found = None then None
          else
            let tpp = pd_tpp (pds s pd);
                s = (if tpp \<noteq> 0 then free_ptr tpp (upd_pd pd (\<lambda>p. p\<lparr>pd_tpp := 0\<rparr>) s) else s)
            in deallocate_stack k pd s)"

subsection \<open>Events for the debugger\<close>

definition report_thread_creation :: "u64 \<Rightarrow> u64 \<Rightarrow> nptl \<Rightarrow> bool" where
  "report_thread_creation self pd s =
    (if pd_report_events (pds s self)
     then TD_CREATE \<in> threads_events s \<union> ev_mask (pd_eventbuf (pds s pd))
     else False)"

text \<open>
  The descriptor becomes the head of the list of events. The compare-and-exchange loop has one
  round here, as no other thread changes \<open>__nptl_last_event\<close> in between.
\<close>

definition enqueue_event :: "td_event \<Rightarrow> u64 \<Rightarrow> nptl \<Rightarrow> nptl" where
  "enqueue_event ev pd s =
    (let s = upd_pd pd (\<lambda>p. p\<lparr>pd_eventbuf := (pd_eventbuf p)\<lparr>ev_num := Some ev, ev_data := pd\<rparr>\<rparr>) s;
         s = upd_pd pd (\<lambda>p. p\<lparr>pd_nextevent := nptl_last_event s\<rparr>) s
     in s\<lparr>nptl_last_event := pd\<rparr>)"

text \<open>The exchange that lets a thread that waits to change the IDs go on.\<close>

definition release_setxid :: "u64 \<Rightarrow> nptl \<Rightarrow> nptl" where
  "release_setxid pd s =
    (let old = pd_setxid_futex (pds s pd);
         s = upd_pd pd (\<lambda>p. p\<lparr>pd_setxid_futex := 0\<rparr>) s
     in if old = - 2 then s\<lparr>futex_wakes := pd # futex_wakes s\<rparr> else s)"

subsection \<open>\<open>create_thread\<close>\<close>

definition cancel_new_thread :: "u64 \<Rightarrow> nptl \<Rightarrow> nptl" where
  "cancel_new_thread pd s = s\<lparr>tgkills := (pd_tid (pds s pd), SIGCANCEL) # tgkills s\<rparr>"

text \<open>
  The result: the error, \<open>stopped_start\<close>, \<open>thread_ran\<close> and the state. \<open>set_attributes\<close> is the part
  behind a clone that succeeded.
\<close>

definition set_attributes ::
    "thread_ops \<Rightarrow> u64 \<Rightarrow> bool \<Rightarrow> bool \<Rightarrow> attr_ext_data option \<Rightarrow> bool \<Rightarrow> nptl
      \<Rightarrow> (errno option \<times> bool \<times> bool \<times> nptl) option" where
  "set_attributes ops pd need_setaffinity notinherit x stopped_start s =
    (let tid = pd_tid (pds s pd);
         res = (if need_setaffinity
                then op_setaffinity ops tid (ax_cpusetsize (the x)) (ax_cpuset (the x)) else None)
     in if need_setaffinity \<and> \<not> stopped_start then None
        else if res \<noteq> None then Some (res, stopped_start, True, cancel_new_thread pd s)
        else
          let res = (if notinherit
                     then op_setscheduler ops tid (pd_schedpolicy (pds s pd)) (pd_schedparam (pds s pd))
                     else None)
          in if notinherit \<and> \<not> stopped_start then None
             else if res \<noteq> None then Some (res, stopped_start, True, cancel_new_thread pd s)
             else Some (None, stopped_start, True, s))"

definition create_thread ::
    "thread_ops \<Rightarrow> u64 \<Rightarrow> pthread_attr option \<Rightarrow> bool \<Rightarrow> u64 \<Rightarrow> nptl
      \<Rightarrow> (errno option \<times> bool \<times> bool \<times> nptl) option" where
  "create_thread ops pd attr stopped_start stktop s =
    (let need_setaffinity =
           (case attr of None \<Rightarrow> False
            | Some a \<Rightarrow> (case at_extension a of None \<Rightarrow> False | Some x \<Rightarrow> ax_cpuset x \<noteq> 0));
         notinherit = (case attr of None \<Rightarrow> False | Some a \<Rightarrow> ATTR_NOTINHERITSCHED \<in> at_flags a);
         stopped_start = (if attr \<noteq> None \<and> (need_setaffinity \<or> notinherit) then True else stopped_start);
         s = upd_pd pd (\<lambda>p. p\<lparr>pd_stopped_start := stopped_start\<rparr>) s;
         s = (if stopped_start then upd_pd pd (\<lambda>p. p\<lparr>pd_lock := True\<rparr>) s else s)
     in case op_clone ops pd stktop s of
          Inl e \<Rightarrow> Some (Some e, stopped_start, False, s)
        | Inr tid \<Rightarrow>
            let s = upd_pd pd (\<lambda>p. p\<lparr>pd_tid := tid\<rparr>) s;
                x = (case attr of None \<Rightarrow> None | Some a \<Rightarrow> at_extension a)
            in set_attributes ops pd need_setaffinity notinherit x stopped_start s)"

subsection \<open>\<open>pthread_create\<close>\<close>

datatype attr_arg = ATTR_NULL | ATTR_C11_THREAD | ATTR_USER pthread_attr

definition init_tcb ::
    "u64 \<Rightarrow> pthread_attr \<Rightarrow> u64 \<Rightarrow> u64 \<Rightarrow> bool \<Rightarrow> u64 \<Rightarrow> nptl \<Rightarrow> nptl" where
  "init_tcb self iattr start_routine arg c11 pd s =
    (let me = pds s self; keep = {ATTR_SCHED_SET, ATTR_POLICY_SET} in
     upd_pd pd (\<lambda>p. p\<lparr>pd_self := pd, pd_start_routine := start_routine, pd_arg := arg, pd_c11 := c11,
       pd_flags := (at_flags iattr - keep) \<union> (pd_flags me \<inter> keep),
       pd_joinid := (if ATTR_DETACHSTATE \<in> at_flags iattr then pd else 0),
       pd_eventbuf := pd_eventbuf me,
       pd_schedpolicy := pd_schedpolicy me, pd_schedparam := pd_schedparam me\<rparr>) s)"

definition init_sched :: "thread_ops \<Rightarrow> pthread_attr \<Rightarrow> u64 \<Rightarrow> nptl \<Rightarrow> nptl" where
  "init_sched ops iattr pd s =
    (if ATTR_NOTINHERITSCHED \<in> at_flags iattr \<and>
        at_flags iattr \<inter> {ATTR_SCHED_SET, ATTR_POLICY_SET} \<noteq> {}
     then
       let s = (if ATTR_POLICY_SET \<in> at_flags iattr
                then upd_pd pd (\<lambda>p. p\<lparr>pd_schedpolicy := at_schedpolicy iattr,
                                     pd_flags := insert ATTR_POLICY_SET (pd_flags p)\<rparr>) s else s);
           s = (if ATTR_SCHED_SET \<in> at_flags iattr
                then upd_pd pd (\<lambda>p. p\<lparr>pd_schedparam := at_schedparam iattr,
                                     pd_flags := insert ATTR_SCHED_SET (pd_flags p)\<rparr>) s else s)
       in if pd_flags (pds s pd) \<inter> {ATTR_SCHED_SET, ATTR_POLICY_SET} \<noteq> {ATTR_SCHED_SET, ATTR_POLICY_SET}
          then upd_pd pd (op_default_sched ops) s else s
     else s)"

text \<open>The mask the new thread starts with.\<close>

definition init_sigmask :: "thread_ops \<Rightarrow> pthread_attr \<Rightarrow> int set \<Rightarrow> u64 \<Rightarrow> nptl \<Rightarrow> nptl" where
  "init_sigmask ops iattr original pd s =
    upd_pd pd (\<lambda>p. p\<lparr>pd_sigmask :=
      (case at_extension iattr of
         Some x \<Rightarrow> if ax_sigmask_set x then ax_sigmask x else original - {op_sigcancel ops}
       | None \<Rightarrow> original - {op_sigcancel ops})\<rparr>) s"

definition eagain :: "errno \<Rightarrow> errno" where
  "eagain e = (if e = ENOMEM then EAGAIN else e)"

text \<open>From the counting of the new thread to the label \<open>out\<close>.\<close>

definition launch_thread ::
    "kern \<Rightarrow> thread_ops \<Rightarrow> u64 \<Rightarrow> pthread_attr \<Rightarrow> u64 \<Rightarrow> u64 \<Rightarrow> nptl \<Rightarrow> (errno option \<times> nptl) option" where
  "launch_thread k ops self iattr pd stktop s =
    (let s = s\<lparr>nptl_nthreads := nptl_nthreads s + 1\<rparr>;
         original = self_sigmask s;
         s = s\<lparr>self_sigmask := UNIV\<rparr>;
         s = init_sigmask ops iattr original pd s;
         report = report_thread_creation self pd s
     in do {
       (retval, stopped_start, thread_ran, s) \<leftarrow> create_thread ops pd (Some iattr) report stktop s;
       s \<leftarrow> (if report \<and> retval = None
            then if \<not> stopped_start \<or> \<not> pd_stopped_start (pds s pd) then None
                 else Some (enqueue_event TD_CREATE pd s)
            else Some s);
       let s = s\<lparr>self_sigmask := original\<rparr>;
       (case retval of
          Some e \<Rightarrow>
            if thread_ran
            then if \<not> stopped_start then None else Some (Some (eagain e), s)
            else do {
              let s = s\<lparr>nptl_nthreads := nptl_nthreads s - 1\<rparr>;
              s \<leftarrow> deallocate_stack k pd (release_setxid pd s);
              Some (Some (eagain e), s)
            }
        | None \<Rightarrow>
            let s = (if stopped_start then upd_pd pd (\<lambda>p. p\<lparr>pd_lock := False\<rparr>) s else s)
            in Some (None, upd_pd self (\<lambda>p. p\<lparr>pd_multiple_threads := True\<rparr>) s))
     })"

text \<open>The result: the error, what was stored in \<open>*newthread\<close>, and the state.\<close>

definition pthread_create_2_1 ::
    "kern \<Rightarrow> thread_ops \<Rightarrow> bool \<Rightarrow> bool \<Rightarrow> u64 \<Rightarrow> attr_arg \<Rightarrow> u64 \<Rightarrow> u64 \<Rightarrow> nptl
      \<Rightarrow> (errno option \<times> u64 option \<times> nptl) option" where
  "pthread_create_2_1 k ops exec1 exec2 self attr start_routine arg s =
    (let s = s\<lparr>libc_single_threaded := False\<rparr>;
         c11 = (attr = ATTR_C11_THREAD);
         (iattr, destroy_default_attr, s) =
           (case attr of
              ATTR_USER a \<Rightarrow> (Inr a, False, s)
            | _ \<Rightarrow> (case op_getattr_default ops s of (r, s) \<Rightarrow> (r, True, s)))
     in case iattr of
          Inl ret \<Rightarrow> Some (Some ret, None, s)
        | Inr iattr \<Rightarrow>
            do {
              (err, s) \<leftarrow> allocate_stack k exec1 exec2 iattr s;
              (retval, newthread, s) \<leftarrow>
                (case err of
                   Inl e \<Rightarrow> Some (Some (eagain e), None, s)
                 | Inr (pd, stktop) \<Rightarrow>
                     let s = init_tcb self iattr start_routine arg c11 pd s;
                         s = init_sched ops iattr pd s
                     in map_option (\<lambda>(r, s). (r, Some pd, s)) (launch_thread k ops self iattr pd stktop s));
              Some (retval, newthread, if destroy_default_attr then attr_destroy iattr s else s)
            })"

definition pthread_create_2_0 ::
    "kern \<Rightarrow> thread_ops \<Rightarrow> bool \<Rightarrow> bool \<Rightarrow> u64 \<Rightarrow> attr_arg \<Rightarrow> u64 \<Rightarrow> u64 \<Rightarrow> nptl
      \<Rightarrow> (errno option \<times> u64 option \<times> nptl) option" where
  "pthread_create_2_0 k ops exec1 exec2 self attr start_routine arg s =
    (let attr = (case attr of
                   ATTR_USER iattr \<Rightarrow>
                     ATTR_USER \<lparr>at_schedparam = at_schedparam iattr, at_schedpolicy = at_schedpolicy iattr,
                       at_flags = at_flags iattr, at_guardsize = pagesize_m1 k + 1,
                       at_stackaddr = 0, at_stacksize = 0, at_extension = None\<rparr>
                 | a \<Rightarrow> a)
     in pthread_create_2_1 k ops exec1 exec2 self attr start_routine arg s)"

subsection \<open>\<open>start_thread\<close>\<close>

text \<open>The steps of other threads while this one waits for \<open>P\<close>; what is left of them is returned.\<close>

fun wait_until :: "(nptl \<Rightarrow> bool) \<Rightarrow> (nptl \<Rightarrow> nptl) list \<Rightarrow> nptl \<Rightarrow> ((nptl \<Rightarrow> nptl) list \<times> nptl) option" where
  "wait_until P [] s = (if P s then Some ([], s) else None)"
| "wait_until P (w # ws) s = (if P s then Some (w # ws, s) else wait_until P ws (w s))"

text \<open>What follows \<open>setjmp\<close>, on its first return and on the return through \<open>longjmp\<close>.\<close>

definition thread_begin :: "u64 \<Rightarrow> nptl \<Rightarrow> nptl" where
  "thread_begin pd s = release_setxid pd (s\<lparr>self_sigmask := pd_sigmask (pds s pd)\<rparr>)"

definition thread_body ::
    "thread_ops \<Rightarrow> u64 \<Rightarrow> (nptl \<Rightarrow> nptl) list \<Rightarrow> nptl \<Rightarrow> ((nptl \<Rightarrow> nptl) list \<times> nptl) option" where
  "thread_body ops pd ws s =
    do {
      (ws, s) \<leftarrow> (if pd_stopped_start (pds s pd)
                 then do {
                   (ws, s) \<leftarrow> wait_until (\<lambda>s. \<not> pd_lock (pds s pd)) ws s;
                   let s = upd_pd pd (\<lambda>p. p\<lparr>pd_lock := True\<rparr>) s;
                   Some (ws, upd_pd pd (\<lambda>p. p\<lparr>pd_lock := False\<rparr>) s)
                 }
                 else Some (ws, s));
      (case op_run ops (pd_start_routine (pds s pd)) (pd_arg (pds s pd)) s of
         (Some ret, s) \<Rightarrow>
           let ret = (if pd_c11 (pds s pd) then scast (ucast ret :: 32 word) else ret)
           in Some (ws, upd_pd pd (\<lambda>p. p\<lparr>pd_result := ret\<rparr>) s)
       | (None, s) \<Rightarrow> Some (ws, thread_begin pd s))
    }"

definition report_death :: "u64 \<Rightarrow> nptl \<Rightarrow> nptl" where
  "report_death pd s =
    (if pd_report_events (pds s pd) \<and> TD_DEATH \<in> threads_events s \<union> ev_mask (pd_eventbuf (pds s pd))
        \<and> pd_nextevent (pds s pd) = 0
     then enqueue_event TD_DEATH pd s else s)"

datatype thread_end = Process_exits | Thread_exits

definition thread_finish ::
    "kern \<Rightarrow> thread_ops \<Rightarrow> u64 \<Rightarrow> (nptl \<Rightarrow> nptl) list \<Rightarrow> nptl \<Rightarrow> (thread_end \<times> nptl) option" where
  "thread_finish k ops pd ws s =
    (let s = op_tls_dtors ops s;
         s = deallocate_tsd k (op_destr ops) pd s;
         s = op_freeres ops s;
         s = s\<lparr>nptl_nthreads := nptl_nthreads s - 1\<rparr>
     in if nptl_nthreads s = 0 then Some (Process_exits, s)
        else
          let s = report_death pd s;
              s = upd_pd pd (\<lambda>p. p\<lparr>pd_cancelhandling := insert EXITING (pd_cancelhandling p)\<rparr>) s
          in if \<not> pd_user_stack (pds s pd) \<and>
                advise_stack_range k (op_sp ops) (pd_stackblock (pds s pd)) (pd_stackblock_size (pds s pd)) = None
             then None
             else do {
               s \<leftarrow> (if SETXID \<in> pd_cancelhandling (pds s pd)
                    then do {
                      (ws, s) \<leftarrow> wait_until (\<lambda>s. SETXID \<notin> pd_cancelhandling (pds s pd)) ws s;
                      Some (upd_pd pd (\<lambda>p. p\<lparr>pd_setxid_futex := 0\<rparr>) s)
                    }
                    else Some s);
               s \<leftarrow> (if pd_joinid (pds s pd) = pd then free_tcb k ops pd s else Some s);
               Some (Thread_exits, s)
             })"

definition start_thread ::
    "kern \<Rightarrow> thread_ops \<Rightarrow> u64 \<Rightarrow> (nptl \<Rightarrow> nptl) list \<Rightarrow> nptl \<Rightarrow> (thread_end \<times> nptl) option" where
  "start_thread k ops pd ws s =
    do {
      (ws, s) \<leftarrow> thread_body ops pd ws (thread_begin pd s);
      thread_finish k ops pd ws s
    }"

text \<open>
  After \<open>__exit_thread\<close> the kernel clears the thread ID (\<open>CLONE_CHILD_CLEARTID\<close>). Only now may the
  stack be reused.
\<close>

definition kernel_clears_tid :: "u64 \<Rightarrow> nptl \<Rightarrow> nptl" where
  "kernel_clears_tid pd s =
    (upd_pd pd (\<lambda>p. p\<lparr>pd_tid := 0\<rparr>) s)\<lparr>futex_wakes := pd # futex_wakes s\<rparr>"

subsection \<open>What the user code is relied on for\<close>

text \<open>
  The code of the user and the parts of the library that are not modelled may change anything but
  the stack pool.
\<close>

definition pool_neutral :: "(nptl \<Rightarrow> nptl) \<Rightarrow> bool" where
  "pool_neutral f \<longleftrightarrow> (\<forall>s. same_pool s (f s))"

definition ops_ok :: "thread_ops \<Rightarrow> bool" where
  "ops_ok ops \<longleftrightarrow>
    pool_neutral (\<lambda>s. snd (op_getattr_default ops s)) \<and>
    (\<forall>p. same_block p (op_default_sched ops p)) \<and>
    (\<forall>f a. pool_neutral (\<lambda>s. snd (op_run ops f a s))) \<and>
    pool_neutral (op_tls_dtors ops) \<and> keeps_pool (op_destr ops) \<and> pool_neutral (op_freeres ops)"

lemma same_pool_upd [intro!]:
  "(\<And>d. same_block d (f d)) \<Longrightarrow> same_pool s t \<Longrightarrow> same_pool s (upd_pd p f t)"
  by (rule same_pool_trans [OF _ same_pool_upd_pd])

lemma same_pool_steps [intro!]:
  "same_pool s t \<Longrightarrow> same_pool s (free_ptr q t)"
  "same_pool s t \<Longrightarrow> same_pool s (lock_cache t)" "same_pool s t \<Longrightarrow> same_pool s (unlock_cache t)"
  by (erule same_pool_trans, simp)+

lemma same_block_simps [simp]:
  "same_block d d"
  "same_block d (d\<lparr>pd_cancelhandling := x1\<rparr>)" "same_block d (d\<lparr>pd_tpp := x2\<rparr>)"
  "same_block d (d\<lparr>pd_eventbuf := x3\<rparr>)" "same_block d (d\<lparr>pd_nextevent := x2\<rparr>)"
  "same_block d (d\<lparr>pd_setxid_futex := x4\<rparr>)" "same_block d (d\<lparr>pd_stopped_start := b\<rparr>)"
  "same_block d (d\<lparr>pd_lock := b\<rparr>)" "same_block d (d\<lparr>pd_tid := x4\<rparr>)"
  "same_block d (d\<lparr>pd_schedpolicy := x4, pd_flags := x5\<rparr>)"
  "same_block d (d\<lparr>pd_schedparam := x4, pd_flags := x5\<rparr>)"
  "same_block d (d\<lparr>pd_sigmask := x6\<rparr>)" "same_block d (d\<lparr>pd_multiple_threads := b\<rparr>)"
  "same_block d (d\<lparr>pd_result := x2\<rparr>)"
  by (simp_all add: same_block_def)

lemma same_pool_fields [simp]:
  "same_pool s (t\<lparr>nptl_last_event := e\<rparr>) = same_pool s t"
  "same_pool s (t\<lparr>futex_wakes := w\<rparr>) = same_pool s t"
  "same_pool s (t\<lparr>tgkills := g\<rparr>) = same_pool s t"
  "same_pool s (t\<lparr>nptl_nthreads := n\<rparr>) = same_pool s t"
  "same_pool s (t\<lparr>self_sigmask := m\<rparr>) = same_pool s t"
  "same_pool s (t\<lparr>libc_single_threaded := b\<rparr>) = same_pool s t"
  by (simp_all add: same_pool_def)

lemma release_setxid_pool [simp]: "same_pool s (release_setxid pd s)"
  by (auto simp: release_setxid_def Let_def)

lemma enqueue_event_pool [simp]: "same_pool s (enqueue_event ev pd s)"
  by (auto simp: enqueue_event_def Let_def)

lemma thread_begin_pool [simp]: "same_pool s (thread_begin pd s)"
  unfolding thread_begin_def
  by (rule same_pool_trans [OF _ release_setxid_pool]) simp

lemma report_death_pool [simp]: "same_pool s (report_death pd s)"
  by (simp add: report_death_def)

lemma init_tcb_pool [simp]: "same_pool s (init_tcb self a f x c pd s)"
  by (auto simp: init_tcb_def Let_def same_block_def)

lemma init_sched_pool:
  assumes "ops_ok ops" shows "same_pool s (init_sched ops a pd s)"
proof -
  have "same_block p (op_default_sched ops p)" for p using assms by (simp add: ops_ok_def)
  then show ?thesis by (auto simp: init_sched_def Let_def)
qed

lemma init_sigmask_pool [simp]: "same_pool s (init_sigmask ops a m pd s)"
  by (auto simp: init_sigmask_def)

lemma create_thread_pool:
  assumes "create_thread ops pd attr b stktop s = Some (r, st, tr, s')"
  shows "same_pool s s'"
  using assms
  by (auto simp: create_thread_def set_attributes_def cancel_new_thread_def Let_def
      split: if_splits sum.splits)

subsection \<open>Freeing\<close>

lemma free_tcb_done: "TERMINATED \<in> pd_cancelhandling (pds s pd) \<Longrightarrow> free_tcb k ops pd s = Some s"
  by (simp add: free_tcb_def)

text \<open>The state handed to \<open>__deallocate_stack\<close>.\<close>

definition terminated :: "u64 \<Rightarrow> nptl \<Rightarrow> nptl" where
  "terminated pd s =
    (let t = upd_pd pd (\<lambda>p. p\<lparr>pd_cancelhandling := insert TERMINATED (pd_cancelhandling p)\<rparr>) s
     in if pd_tpp (pds s pd) \<noteq> 0
        then free_ptr (pd_tpp (pds s pd)) (upd_pd pd (\<lambda>p. p\<lparr>pd_tpp := 0\<rparr>) t) else t)"

lemma terminated_pool [simp]: "same_pool s (terminated pd s)"
  by (auto simp: terminated_def Let_def)

lemma find_in_stack_list_eq:
  "find_in_stack_list pd s =
    (if pd \<in> set (stack_used s) \<union> set (stack_user s) then Some pd else None,
     unlock_cache (lock_cache s))"
  by (rule prod_eqI) (simp_all add: find_in_stack_list_iff, simp add: find_in_stack_list_def Let_def)

lemma free_tcb_cases:
  assumes "free_tcb k ops pd s = Some s'"
  obtains (again) "TERMINATED \<in> pd_cancelhandling (pds s pd)" "s' = s"
  | (free) t where "TERMINATED \<notin> pd_cancelhandling (pds s pd)" "same_pool s t"
      "pds t pd = (pds s pd)\<lparr>pd_cancelhandling := insert TERMINATED (pd_cancelhandling (pds s pd)), pd_tpp := 0\<rparr>"
      "\<And>q. q \<noteq> pd \<Longrightarrow> pds t q = pds s q" "stack_cache_maxsize t = stack_cache_maxsize s"
      "deallocate_stack k pd t = Some s'"
      "op_debugging ops \<Longrightarrow> pd \<in> set (stack_used s) \<union> set (stack_user s)"
proof (cases "TERMINATED \<in> pd_cancelhandling (pds s pd)")
  case True
  then show ?thesis using assms by (intro again) (simp_all add: free_tcb_def)
next
  case False
  let ?t = "upd_pd pd (\<lambda>p. p\<lparr>pd_cancelhandling := insert TERMINATED (pd_cancelhandling p)\<rparr>) s"
  let ?u = "if op_debugging ops then unlock_cache (lock_cache ?t) else ?t"
  let ?v = "if pd_tpp (pds s pd) \<noteq> 0 then free_ptr (pd_tpp (pds s pd)) (upd_pd pd (\<lambda>p. p\<lparr>pd_tpp := 0\<rparr>) ?u) else ?u"
  have found: "op_debugging ops \<Longrightarrow> pd \<in> set (stack_used s) \<union> set (stack_user s)"
    using assms False by (auto simp: free_tcb_def find_in_stack_list_eq split: if_splits)
  have d: "deallocate_stack k pd ?v = Some s'"
    using assms False by (auto simp: free_tcb_def find_in_stack_list_eq split: if_splits)
  have v: "same_pool s ?v" by (simp only: split: if_split) auto
  show ?thesis
    by (rule free [OF False v _ _ _ d found]) (auto simp: free_ptr_def)
qed

lemma free_tcb_inv:
  assumes "pool_inv s" "pd \<in> set (stack_used s) \<union> set (stack_user s)"
    "free_tcb k ops pd s = Some s'"
  shows "pool_inv s'"
  using assms(3)
proof (cases rule: free_tcb_cases)
  case again
  then show ?thesis using assms(1) by simp
next
  case (free t)
  have "pool_inv t" by (rule same_pool_inv [OF free(2) assms(1)])
  then show ?thesis
    using deallocate_stack_inv [OF _ _ free(6)] assms(2) free(2) by (simp add: same_pool_def)
qed

subsection \<open>Creating\<close>

text \<open>Fields the pool operations leave alone.\<close>

definition outer_frame :: "nptl \<Rightarrow> nptl \<Rightarrow> bool" where
  "outer_frame s t \<longleftrightarrow>
    self_sigmask t = self_sigmask s \<and> tgkills t = tgkills s \<and> futex_wakes t = futex_wakes s \<and>
    nptl_nthreads t = nptl_nthreads s \<and> mallocs t = mallocs s \<and> pds t = pds s"

lemma free_stacks_loop_outer: "free_stacks_loop k limit es s = Some t \<Longrightarrow> outer_frame s t"
proof (induction es arbitrary: s)
  case Nil
  then show ?case by (simp add: outer_frame_def)
next
  case (Cons c es)
  have "outer_frame s (drop_cached c s)"
    by (simp add: outer_frame_def drop_cached_def stack_list_del_def Let_def)
  then show ?case using Cons
    by (auto simp: free_stacks_loop_Cons outer_frame_def split: if_splits)
qed

lemma deallocate_stack_outer:
  assumes "deallocate_stack k pd s = Some t" shows "outer_frame s t"
proof -
  have q: "outer_frame s (unlock_cache (queued pd (lock_cache s)))"
    "outer_frame s (queued pd (lock_cache s))"
    by (simp_all add: outer_frame_def queued_def unlock_cache_def lock_cache_def stack_list_del_def
        stack_list_add_def Let_def)
  have u: "outer_frame s (unlock_cache (dl_deallocate_tls pd (stack_list_del pd (lock_cache s))))"
    by (simp add: outer_frame_def unlock_cache_def lock_cache_def stack_list_del_def
        dl_deallocate_tls_def Let_def)
  have f: "outer_frame s (unlock_cache v)"
    if "free_stacks k l (queued pd (lock_cache s)) = Some v" for l v
    using free_stacks_loop_outer [OF that [unfolded free_stacks_def]] q(2)
    by (simp add: outer_frame_def unlock_cache_def)
  show ?thesis using assms q u f
    by (auto simp: deallocate_stack_eq split: if_splits)
qed

lemma create_thread_outcome:
  assumes "create_thread ops pd (Some a) b stktop s = Some (r, st, tr, t)"
  shows "r \<noteq> None \<and> \<not> tr \<and> tgkills t = tgkills s \<or>
    r \<noteq> None \<and> tr \<and> st \<and> pd_lock (pds t pd) \<and> tgkills t = (pd_tid (pds t pd), SIGCANCEL) # tgkills s \<or>
    r = None \<and> tr \<and> tgkills t = tgkills s"
  using assms
  by (auto simp: create_thread_def set_attributes_def cancel_new_thread_def Let_def
      split: if_splits sum.splits) metis

lemma create_thread_cases:
  assumes "create_thread ops pd (Some a) b stktop s = Some (r, st, tr, t)"
  obtains (refused) e where "r = Some e" "\<not> tr" "tgkills t = tgkills s"
  | (cancelled) e where "r = Some e" "tr" "st" "pd_lock (pds t pd)"
      "tgkills t = (pd_tid (pds t pd), SIGCANCEL) # tgkills s"
  | (runs) "r = None" "tr" "tgkills t = tgkills s"
  using create_thread_outcome [OF assms] that by blast

lemma create_thread_frame:
  assumes "create_thread ops pd a b stktop s = Some (r, st, tr, t)"
  shows "self_sigmask t = self_sigmask s" "nptl_nthreads t = nptl_nthreads s"
    "mallocs t = mallocs s" "futex_wakes t = futex_wakes s"
    "pd_stopped_start (pds t pd) = st" "pd_lock (pds t pd) \<longleftrightarrow> st \<or> pd_lock (pds s pd)"
    "pd_joinid (pds t pd) = pd_joinid (pds s pd)" "\<And>q. q \<noteq> pd \<Longrightarrow> pds t q = pds s q"
    "pd_cancelhandling (pds t pd) = pd_cancelhandling (pds s pd)"
  using assms
  by (auto simp: create_thread_def set_attributes_def cancel_new_thread_def Let_def
      split: if_splits sum.splits)

lemma release_setxid_sel [simp]:
  "self_sigmask (release_setxid pd s) = self_sigmask s"
  "nptl_nthreads (release_setxid pd s) = nptl_nthreads s"
  "tgkills (release_setxid pd s) = tgkills s" "mallocs (release_setxid pd s) = mallocs s"
  "pds (release_setxid pd s) = (pds s)(pd := (pds s pd)\<lparr>pd_setxid_futex := 0\<rparr>)"
  by (simp_all add: release_setxid_def Let_def)

lemma enqueue_event_sel [simp]:
  "self_sigmask (enqueue_event ev pd s) = self_sigmask s"
  "nptl_nthreads (enqueue_event ev pd s) = nptl_nthreads s"
  "tgkills (enqueue_event ev pd s) = tgkills s" "mallocs (enqueue_event ev pd s) = mallocs s"
  "pd_lock (pds (enqueue_event ev pd s) p) = pd_lock (pds s p)"
  "pd_joinid (pds (enqueue_event ev pd s) p) = pd_joinid (pds s p)"
  by (simp_all add: enqueue_event_def Let_def)

lemma init_sigmask_sel [simp]:
  "self_sigmask (init_sigmask ops a m pd s) = self_sigmask s"
  "nptl_nthreads (init_sigmask ops a m pd s) = nptl_nthreads s"
  "tgkills (init_sigmask ops a m pd s) = tgkills s" "mallocs (init_sigmask ops a m pd s) = mallocs s"
  "pd_lock (pds (init_sigmask ops a m pd s) p) = pd_lock (pds s p)"
  "pd_joinid (pds (init_sigmask ops a m pd s) p) = pd_joinid (pds s p)"
  by (simp_all add: init_sigmask_def)

text \<open>
  Three outcomes: the clone failed and everything is given back; the thread runs but its
  attributes could not be set, so it is cancelled while its creator keeps the lock it waits for;
  the thread runs.
\<close>

lemma launch_thread_cases:
  assumes "launch_thread k ops self a pd stktop s = Some (r, s')"
  obtains (refused) e t where "r = Some (eagain e)" "same_pool s t" "pds t pd = (pds t pd)\<lparr>pd_setxid_futex := 0\<rparr>"
      "deallocate_stack k pd t = Some s'" "nptl_nthreads s' = nptl_nthreads s"
      "self_sigmask s' = self_sigmask s" "tgkills s' = tgkills s" "mallocs s' = mallocs s"
  | (cancelled) e where "r = Some (eagain e)" "same_pool s s'" "pd_lock (pds s' pd)"
      "nptl_nthreads s' = nptl_nthreads s + 1" "self_sigmask s' = self_sigmask s"
      "tgkills s' = (pd_tid (pds s' pd), SIGCANCEL) # tgkills s" "mallocs s' = mallocs s"
  | (runs) "r = None" "same_pool s s'" "pd_lock (pds s' pd) \<Longrightarrow> pd_lock (pds s pd)"
      "nptl_nthreads s' = nptl_nthreads s + 1" "self_sigmask s' = self_sigmask s"
      "tgkills s' = tgkills s" "mallocs s' = mallocs s" "pd_joinid (pds s' pd) = pd_joinid (pds s pd)"
proof -
  let ?s = "init_sigmask ops a (self_sigmask s) pd
    (s\<lparr>nptl_nthreads := nptl_nthreads s + 1, self_sigmask := UNIV\<rparr>)"
  let ?rep = "report_thread_creation self pd ?s"
  obtain q st tr t where c: "create_thread ops pd (Some a) ?rep stktop ?s = Some (q, st, tr, t)"
    using assms by (cases "create_thread ops pd (Some a) ?rep stktop ?s") (auto simp: launch_thread_def Let_def)
  note f = create_thread_frame [OF c]
  have "same_pool s ?s" by (rule same_pool_trans [OF _ init_sigmask_pool]) simp
  then have st: "same_pool s t" by (rule same_pool_trans [OF _ create_thread_pool [OF c]])
  define u where "u = (if ?rep \<and> q = None then enqueue_event TD_CREATE pd t else t)\<lparr>self_sigmask := self_sigmask s\<rparr>"
  have u: "same_pool s u" "nptl_nthreads u = nptl_nthreads s + 1" "self_sigmask u = self_sigmask s"
    "tgkills u = tgkills t" "mallocs u = mallocs s" "pd_lock (pds u pd) = pd_lock (pds t pd)"
    "pd_joinid (pds u pd) = pd_joinid (pds s pd)"
    using st f by (auto simp: u_def intro: same_pool_trans [OF _ enqueue_event_pool])
  show ?thesis
  proof (cases q)
    case None
    have s': "r = None" "s' = upd_pd self (\<lambda>p. p\<lparr>pd_multiple_threads := True\<rparr>)
        (if st then upd_pd pd (\<lambda>p. p\<lparr>pd_lock := False\<rparr>) u else u)"
      using assms c None
      by (auto simp: launch_thread_def Let_def u_def split: if_splits)
    have "tgkills t = tgkills s" using c None by (cases rule: create_thread_cases) auto
    moreover have "pd_lock (pds s pd)" if "pd_lock (pds s' pd)"
      using that s'(2) u(6) f(6) by (cases st; cases "pd = self") auto
    moreover have "pd_joinid (pds s' pd) = pd_joinid (pds s pd)"
      using s'(2) u(7) by (cases st; cases "pd = self") auto
    moreover have "same_pool s s'" using u(1) s'(2) by (cases st) auto
    ultimately show ?thesis using s' u by (intro runs) auto
  next
    case (Some e)
    show ?thesis
    proof (cases tr)
      case True
      have s': "r = Some (eagain e)" "s' = u"
        using assms c Some True
        by (auto simp: launch_thread_def Let_def u_def split: if_splits)
      have "u = t\<lparr>self_sigmask := self_sigmask s\<rparr>" using Some by (simp add: u_def)
      moreover have "pd_lock (pds t pd)" "tgkills t = (pd_tid (pds t pd), SIGCANCEL) # tgkills s"
        using c Some True by (cases rule: create_thread_cases; auto)+
      ultimately show ?thesis using s' u by (intro cancelled) auto
    next
      case False
      let ?v = "release_setxid pd (u\<lparr>nptl_nthreads := nptl_nthreads u - 1\<rparr>)"
      have s': "r = Some (eagain e)" "deallocate_stack k pd ?v = Some s'"
        using assms c Some False
        by (auto simp: launch_thread_def Let_def u_def bind_eq_Some_conv split: if_splits)
      have v: "same_pool s ?v" by (rule same_pool_trans [OF _ release_setxid_pool]) (use u(1) in simp)
      have "tgkills t = tgkills s" using c Some False by (cases rule: create_thread_cases) auto
      then show ?thesis using s' u v deallocate_stack_outer [OF s'(2)]
        by (intro refused [of e ?v]) (auto simp: outer_frame_def)
    qed
  qed
qed

text \<open>Allocation touches neither the signal mask nor the count of threads, and not the limits.\<close>

definition thread_frame :: "nptl \<Rightarrow> nptl \<Rightarrow> bool" where
  "thread_frame s t \<longleftrightarrow>
    self_sigmask t = self_sigmask s \<and> nptl_nthreads t = nptl_nthreads s \<and> tgkills t = tgkills s \<and>
    stack_cache_maxsize t = stack_cache_maxsize s \<and> default_stacksize t = default_stacksize s"

lemma thread_frame_simps [simp]:
  "thread_frame s s"
  "thread_frame s (upd_pd p f t) = thread_frame s t"
  "thread_frame s (zero_descriptor k p t) = thread_frame s t"
  "thread_frame s (lock_cache t) = thread_frame s t"
  "thread_frame s (unlock_cache t) = thread_frame s t"
  "thread_frame s (free_ptr q t) = thread_frame s t"
  "thread_frame s (stack_list_del p t) = thread_frame s t"
  "thread_frame s (stack_list_add p l t) = thread_frame s t"
  "thread_frame s (dl_deallocate_tls p t) = thread_frame s t"
  "thread_frame s (t\<lparr>stack_cache_actsize := x1\<rparr>) = thread_frame s t"
  "thread_frame s (t\<lparr>default_attr_lock := x2\<rparr>) = thread_frame s t"
  "thread_frame s (t\<lparr>stack_user := x3\<rparr>) = thread_frame s t"
  "thread_frame s (t\<lparr>tls_live := x4\<rparr>) = thread_frame s t"
  "thread_frame s (t\<lparr>maps := x5\<rparr>) = thread_frame s t"
  "thread_frame s (t\<lparr>maps := x5, prots := x6\<rparr>) = thread_frame s t"
  "thread_frame s (t\<lparr>prots := x6\<rparr>) = thread_frame s t"
  "thread_frame s (free_all ps t) = thread_frame s t"
  by (cases l; simp add: thread_frame_def upd_pd_def zero_descriptor_def lock_cache_def unlock_cache_def
      free_ptr_def stack_list_del_def stack_list_add_def dl_deallocate_tls_def free_all_mallocs Let_def)+

lemma thread_frame_prims:
  "mprotect k b l p t = (r, t') \<Longrightarrow> thread_frame s t' = thread_frame s t"
  "munmap k b l t = (r, t') \<Longrightarrow> thread_frame s t' = thread_frame s t"
  by (auto simp: mprotect_def munmap_def split: option.splits)

lemma thread_frame_trans: "thread_frame s t \<Longrightarrow> thread_frame t u \<Longrightarrow> thread_frame s u"
  by (simp add: thread_frame_def)

lemma get_cached_stack_frame: "thread_frame s (snd (get_cached_stack k sz s))"
  by (simp add: get_cached_stack_def Let_def reset_cached_def dequeue_cached_def split: option.splits)

lemma unmap_and_fail_frame: "unmap_and_fail k m n e t = (r, t') \<Longrightarrow> thread_frame s t' = thread_frame s t"
  by (auto simp: unmap_and_fail_def thread_frame_prims split: prod.splits option.splits)

lemma map_stack_frame:
  assumes "map_stack k x1 x2 sz g s = Some (r, s')" shows "thread_frame s s'"
  using assms
  by (auto simp: map_stack_def Let_def setup_stack_prot_def new_mapping_def record_stack_def publish_stack_def
      recheck_perm_def change_stack_perm_def thread_frame_prims [where s = s] unmap_and_fail_frame [where s = s]
      split: option.splits sum.splits prod.splits if_splits)

lemma mprot_error_frame: "mprot_error k pd m n e t = (r, t') \<Longrightarrow> thread_frame s t' = thread_frame s t"
  unfolding mprot_error_def Let_def by (drule unmap_and_fail_frame [where s = s]) simp

lemma resize_guard_frame:
  assumes "resize_guard k p pd m n rs g t = (r, t')" shows "thread_frame t t'"
  using assms
  by (auto simp: resize_guard_def Let_def thread_frame_prims [where s = t] mprot_error_frame [where s = t]
      split: option.splits prod.splits if_splits)

lemma allocate_stack_frame:
  assumes "allocate_stack k x1 x2 attr s = Some (r, s')" shows "thread_frame s s'"
proof -
  have sz: "thread_frame s (snd (stack_size_of attr s))" by (simp add: stack_size_of_def Let_def)
  have obt: "thread_frame t u" if "obtain_block k x1 x2 sz g t = Some (q, u)" for t u q sz g
    using that
  proof (cases rule: obtain_block_cases)
    case (cached pd)
    then show ?thesis using get_cached_stack_frame [of t k sz] by simp
  next
    case (fresh v)
    then show ?thesis using get_cached_stack_frame [of t k sz] map_stack_frame [OF fresh(4)]
      by (auto intro: thread_frame_trans)
  qed
  have sys: "thread_frame t u" if "allocate_system_stack k x1 x2 attr sz t = Some (q, u)" for t u q sz
    using that
    by (cases rule: allocate_system_stack_cases)
      (auto dest!: obt resize_guard_frame intro: thread_frame_trans)
  have usr: "thread_frame t u" if "allocate_user_stack k attr sz t = Some (q, u)" for t u q sz
    using that by (auto simp: allocate_user_stack_def Let_def split: if_splits sum.splits)
  from assms show ?thesis
  proof (cases rule: allocate_stack_cases)
    case (user q t)
    then show ?thesis using thread_frame_trans [OF sz usr [OF user(2)]]
      by (auto simp: init_lock_and_robust_def split: sum.split)
  next
    case (system q t)
    then show ?thesis using thread_frame_trans [OF sz sys [OF system(2)]]
      by (auto simp: init_lock_and_robust_def split: sum.split)
  qed
qed

lemma allocate_stack_on_lists:
  assumes inv: "pool_inv s" and env: "kernel_ok k s"
    and r: "allocate_stack k exec1 exec2 attr s = Some (Inr (pd, stktop), s')"
  shows "pd \<in> set (stack_used s') \<union> set (stack_user s')"
proof (cases "ATTR_STACKADDR \<in> at_flags attr")
  case False
  then show ?thesis using allocate_stack_grants(1) [OF inv env _ r] by simp
next
  case True
  from r True obtain t where
    "allocate_user_stack k attr (fst (stack_size_of attr s)) (snd (stack_size_of attr s)) = Some (Inr pd, t)"
    "s' = init_lock_and_robust pd t"
    by (cases rule: allocate_stack_cases) (auto split: sum.splits)
  then show ?thesis
    by (auto elim: allocate_user_stack_cases simp: init_lock_and_robust_def)
qed

definition user_stack_ok :: "kern \<Rightarrow> pthread_attr \<Rightarrow> nptl \<Rightarrow> bool" where
  "user_stack_ok k attr s \<longleftrightarrow> ATTR_STACKADDR \<in> at_flags attr \<longrightarrow>
    user_descriptor k attr \<notin> set (stack_cache s) \<union> set (stack_used s) \<union> set (stack_user s)"

text \<open>The attribute in force and the state in which it is read.\<close>

definition effective_attr :: "thread_ops \<Rightarrow> attr_arg \<Rightarrow> nptl \<Rightarrow> (errno + pthread_attr) \<times> nptl" where
  "effective_attr ops attr s =
    (case attr of
       ATTR_USER a \<Rightarrow> (Inr a, s\<lparr>libc_single_threaded := False\<rparr>)
     | _ \<Rightarrow> op_getattr_default ops (s\<lparr>libc_single_threaded := False\<rparr>))"

lemma effective_attr_pool:
  assumes "ops_ok ops" "effective_attr ops attr s = (a, t)"
  shows "same_pool s t"
proof (cases attr)
  case (ATTR_USER b)
  then show ?thesis using assms(2) by (auto simp: effective_attr_def)
next
  case ATTR_NULL
  have "same_pool u (snd (op_getattr_default ops u))" for u
    using assms(1) by (simp add: ops_ok_def pool_neutral_def)
  from this [of "s\<lparr>libc_single_threaded := False\<rparr>"] assms(2) ATTR_NULL show ?thesis
    by (simp add: effective_attr_def same_pool_def)
next
  case ATTR_C11_THREAD
  have "same_pool u (snd (op_getattr_default ops u))" for u
    using assms(1) by (simp add: ops_ok_def pool_neutral_def)
  from this [of "s\<lparr>libc_single_threaded := False\<rparr>"] assms(2) ATTR_C11_THREAD show ?thesis
    by (simp add: effective_attr_def same_pool_def)
qed

lemma pthread_create_cases:
  assumes "pthread_create_2_1 k ops exec1 exec2 self attr f x s = Some (r, p, s')"
  obtains (default) e where "effective_attr ops attr s = (Inl e, s')" "r = Some e" "p = None"
  | (stack) a e t u where "effective_attr ops attr s = (Inr a, t)"
      "allocate_stack k exec1 exec2 a t = Some (Inl e, u)" "r = Some (eagain e)" "p = None"
      "s' = (if attr = ATTR_NULL \<or> attr = ATTR_C11_THREAD then attr_destroy a u else u)"
  | (launch) a t pd stktop u v w where "effective_attr ops attr s = (Inr a, t)"
      "allocate_stack k exec1 exec2 a t = Some (Inr (pd, stktop), u)"
      "v = init_sched ops a pd (init_tcb self a f x (attr = ATTR_C11_THREAD) pd u)"
      "launch_thread k ops self a pd stktop v = Some (r, w)" "p = Some pd"
      "s' = (if attr = ATTR_NULL \<or> attr = ATTR_C11_THREAD then attr_destroy a w else w)"
proof -
  obtain a t where a: "effective_attr ops attr s = (a, t)" by fastforce
  show ?thesis
  proof (cases a)
    case (Inl e)
    then show ?thesis using a assms
      by (intro default [of e]) (auto simp: pthread_create_2_1_def effective_attr_def split: attr_arg.splits)
  next
    case (Inr b)
    have bind: "Some (r, p, s') = do {
        (err, s) \<leftarrow> allocate_stack k exec1 exec2 b t;
        (retval, newthread, s) \<leftarrow>
          (case err of
             Inl e \<Rightarrow> Some (Some (eagain e), None, s)
           | Inr (pd, stktop) \<Rightarrow>
               map_option (\<lambda>(r, s). (r, Some pd, s)) (launch_thread k ops self b pd stktop
                 (init_sched ops b pd (init_tcb self b f x (attr = ATTR_C11_THREAD) pd s))));
        Some (retval, newthread, if attr = ATTR_NULL \<or> attr = ATTR_C11_THREAD then attr_destroy b s else s)
      }"
      using assms a Inr
      unfolding pthread_create_2_1_def effective_attr_def Let_def by (auto split: attr_arg.splits)
    then obtain q u where q: "allocate_stack k exec1 exec2 b t = Some (q, u)"
      by (cases "allocate_stack k exec1 exec2 b t") auto
    show ?thesis
    proof (cases q)
      case (Inl e)
      then show ?thesis using a Inr bind q by (intro stack [of b t e u]) auto
    next
      case q2: (Inr y)
      obtain pd stktop where y: "y = (pd, stktop)" by (cases y)
      then obtain z w where z: "launch_thread k ops self b pd stktop
          (init_sched ops b pd (init_tcb self b f x (attr = ATTR_C11_THREAD) pd u)) = Some (z, w)"
        using bind q q2 by (cases "launch_thread k ops self b pd stktop
          (init_sched ops b pd (init_tcb self b f x (attr = ATTR_C11_THREAD) pd u))") auto
      then show ?thesis using a Inr bind q q2 y
        by (intro launch [of b t pd stktop u _ w]) auto
    qed
  qed
qed

lemma attr_destroy_pool: "same_pool s t \<Longrightarrow> same_pool s (attr_destroy a t)"
  by (auto simp: attr_destroy_def split: option.split)

lemma perm_dangles_attr_destroy: "perm_dangles k s (attr_destroy a u) = perm_dangles k s u"
  by (rule perm_dangles_cong2) (simp_all add: attr_destroy_def free_ptr_def split: option.split)

text \<open>A creation keeps the pool consistent, unless the repair of the permissions of a stack fails.\<close>

lemma pthread_create_inv:
  assumes inv: "pool_inv s" and ops: "ops_ok ops" and env: "kernel_ok k s"
    and usr: "\<And>a t. effective_attr ops attr s = (Inr a, t) \<Longrightarrow> user_stack_ok k a s"
    and r: "pthread_create_2_1 k ops exec1 exec2 self attr f x s = Some (r, p, s')"
  shows "pool_inv s' \<or> r \<noteq> None \<and> exec2 \<and> \<not> exec1 \<and> perm_dangles k s s'"
proof -
  have destroy: "pool_inv (if b then attr_destroy a u else u)" if "pool_inv u" for a b u
    using that same_pool_inv [OF attr_destroy_pool [OF same_pool_refl]] by simp
  have env': "kernel_ok k t" if "same_pool s t" for t
    using env kernel_ok_cong [of t s k] that by (simp add: same_pool_def)
  have usr': "ATTR_STACKADDR \<in> at_flags a \<longrightarrow>
      user_descriptor k a \<notin> set (stack_cache t) \<union> set (stack_used t) \<union> set (stack_user t)"
    if "effective_attr ops attr s = (Inr a, t)" for a t
    using usr [OF that] effective_attr_pool [OF ops that] by (simp add: user_stack_ok_def same_pool_def)
  from r show ?thesis
  proof (cases rule: pthread_create_cases)
    case (default e)
    then show ?thesis using same_pool_inv [OF effective_attr_pool [OF ops default(1)] inv] by simp
  next
    case (stack a e t u)
    note t = effective_attr_pool [OF ops stack(1)]
    have "perm_dangles k s s' = perm_dangles k t u"
      unfolding stack(5) perm_dangles_cong [OF t, symmetric]
      by (simp add: perm_dangles_attr_destroy)
    moreover have "pool_inv u \<or> exec2 \<and> \<not> exec1 \<and> perm_dangles k t u"
      using allocate_stack_inv [OF same_pool_inv [OF t inv] env' [OF t] usr' [OF stack(1)] stack(2)] by simp
    moreover have "pool_inv s'" if "pool_inv u" using destroy [OF that] stack(5) by simp
    ultimately show ?thesis using stack(3) by blast
  next
    case (launch a t pd stktop u v w)
    note t = effective_attr_pool [OF ops launch(1)]
    note ti = same_pool_inv [OF t inv]
    have u: "pool_inv u"
      using allocate_stack_inv [OF ti env' [OF t] usr' [OF launch(1)] launch(2)] by simp
    have pd: "pd \<in> set (stack_used u) \<union> set (stack_user u)"
      by (rule allocate_stack_on_lists [OF ti env' [OF t] launch(2)])
    have uv: "same_pool u v" unfolding launch(3)
      by (rule same_pool_trans [OF init_tcb_pool init_sched_pool [OF ops]])
    have v: "pool_inv v" by (rule same_pool_inv [OF uv u])
    from launch(4) have "pool_inv w"
    proof (cases rule: launch_thread_cases)
      case (refused e z)
      have "pool_inv z" by (rule same_pool_inv [OF refused(2) v])
      moreover have "pd \<in> set (stack_used z) \<union> set (stack_user z)"
        using pd uv refused(2) by (simp add: same_pool_def)
      ultimately show ?thesis using deallocate_stack_inv [OF _ _ refused(4)] by blast
    next
      case (cancelled e)
      then show ?thesis using v by (blast intro: same_pool_inv)
    next
      case runs
      then show ?thesis using v by (blast intro: same_pool_inv)
    qed
    then show ?thesis unfolding launch(6) using destroy by blast
  qed
qed

subsection \<open>Running and ending\<close>

lemma wait_until_pool:
  assumes "wait_until P ws s = Some (vs, t)" "\<forall>w \<in> set ws. pool_neutral w"
  shows "same_pool s t" "P t" "set vs \<subseteq> set ws"
proof -
  have "same_pool s t \<and> P t \<and> set vs \<subseteq> set ws"
    using assms
  proof (induction P ws s rule: wait_until.induct)
    case (1 P s)
    then show ?case by (simp split: if_splits)
  next
    case (2 P w ws s)
    show ?case
    proof (cases "P s")
      case False
      then have "wait_until P ws (w s) = Some (vs, t)" using 2(2) by simp
      from 2(1) [OF False this] 2(3) have "same_pool (w s) t \<and> P t \<and> set vs \<subseteq> set ws" by simp
      moreover have "same_pool s (w s)" using 2(3) by (simp add: pool_neutral_def)
      ultimately show ?thesis by (auto intro: same_pool_trans)
    qed (use 2 in auto)
  qed
  then show "same_pool s t" "P t" "set vs \<subseteq> set ws" by auto
qed

text \<open>A wait ends if some prefix of the other threads' steps brings about what is waited for.\<close>

lemma wait_until_returns:
  "P (fold id (take n ws) s) \<Longrightarrow> \<exists>vs t. wait_until P ws s = Some (vs, t)"
proof (induction P ws s arbitrary: n rule: wait_until.induct)
  case (2 P w ws s)
  then show ?case by (cases n; cases "P s") auto
qed simp

lemma thread_body_pool:
  assumes ops: "ops_ok ops" and ws: "\<forall>w \<in> set ws. pool_neutral w"
    and r: "thread_body ops pd ws s = Some (vs, s')"
  shows "same_pool s s'" "set vs \<subseteq> set ws"
proof -
  let ?m = "if pd_stopped_start (pds s pd)
    then do {
      (ws, s) \<leftarrow> wait_until (\<lambda>s. \<not> pd_lock (pds s pd)) ws s;
      let s = upd_pd pd (\<lambda>p. p\<lparr>pd_lock := True\<rparr>) s;
      Some (ws, upd_pd pd (\<lambda>p. p\<lparr>pd_lock := False\<rparr>) s)
    }
    else Some (ws, s)"
  obtain us t where t: "?m = Some (us, t)"
    using r unfolding thread_body_def by (cases ?m) auto
  have st: "same_pool s t \<and> set us \<subseteq> set ws"
  proof (cases "pd_stopped_start (pds s pd)")
    case True
    then obtain x where x: "wait_until (\<lambda>s. \<not> pd_lock (pds s pd)) ws s = Some (us, x)"
      "t = upd_pd pd (\<lambda>p. p\<lparr>pd_lock := False\<rparr>) (upd_pd pd (\<lambda>p. p\<lparr>pd_lock := True\<rparr>) x)"
      using t by (auto simp: bind_eq_Some_conv Let_def)
    then show ?thesis using wait_until_pool [OF x(1) ws] by auto
  qed (use t in auto)
  obtain q u where q: "op_run ops (pd_start_routine (pds t pd)) (pd_arg (pds t pd)) t = (q, u)"
    by fastforce
  have "same_pool t u"
    using ops q unfolding ops_ok_def pool_neutral_def by (metis snd_conv)
  moreover have "s' = (case q of Some ret \<Rightarrow>
      upd_pd pd (\<lambda>p. p\<lparr>pd_result := if pd_c11 (pds u pd) then scast (ucast ret :: 32 word) else ret\<rparr>) u
      | None \<Rightarrow> thread_begin pd u)" "vs = us"
    using r t q unfolding thread_body_def Let_def by (auto split: option.splits)
  ultimately show "same_pool s s'" "set vs \<subseteq> set ws"
    using st by (auto split: option.splits intro: same_pool_trans [OF _ thread_begin_pool] same_pool_trans)
qed

text \<open>
  What the end of a thread does to the pool: nothing for a joinable thread or for the last one,
  \<open>__free_tcb\<close> for a detached one.
\<close>

lemma thread_finish_cases:
  assumes ops: "ops_ok ops" and ws: "\<forall>w \<in> set ws. pool_neutral w"
    and r: "thread_finish k ops pd ws s = Some (e, s')"
  obtains (last) "e = Process_exits" "same_pool s s'"
  | (joinable) "e = Thread_exits" "same_pool s s'" "pd_joinid (pds s' pd) \<noteq> pd"
  | (detached) t where "e = Thread_exits" "same_pool s t" "pd_joinid (pds t pd) = pd"
      "SETXID \<notin> pd_cancelhandling (pds t pd)"
      "free_tcb k ops pd t = Some s'"
proof -
  define t where "t = (op_freeres ops (deallocate_tsd k (op_destr ops) pd (op_tls_dtors ops s)))
    \<lparr>nptl_nthreads := nptl_nthreads (op_freeres ops (deallocate_tsd k (op_destr ops) pd (op_tls_dtors ops s))) - 1\<rparr>"
  have n: "same_pool a (op_tls_dtors ops a)" "same_pool a (op_freeres ops a)" "keeps_pool (op_destr ops)" for a
    using ops by (auto simp: ops_ok_def pool_neutral_def)
  have st: "same_pool s t"
    unfolding t_def using same_pool_trans [OF n(1) same_pool_trans [OF deallocate_tsd_pool [OF n(3)] n(2)]]
    by simp
  define u where "u = upd_pd pd (\<lambda>p. p\<lparr>pd_cancelhandling := insert EXITING (pd_cancelhandling p)\<rparr>) (report_death pd t)"
  have su: "same_pool s u" unfolding u_def
    by (intro same_pool_upd same_pool_trans [OF st report_death_pool]) simp
  show ?thesis
  proof (cases "nptl_nthreads t = 0")
    case True
    then have "e = Process_exits" "s' = t"
      using r unfolding thread_finish_def Let_def t_def by simp_all
    then show ?thesis using st by (intro last) simp_all
  next
    case False
    let ?m = "if SETXID \<in> pd_cancelhandling (pds u pd)
      then do {
        (ws, s) \<leftarrow> wait_until (\<lambda>s. SETXID \<notin> pd_cancelhandling (pds s pd)) ws u;
        Some (upd_pd pd (\<lambda>p. p\<lparr>pd_setxid_futex := 0\<rparr>) s)
      }
      else Some u"
    have eq: "Some (e, s') = do {
        s \<leftarrow> ?m;
        s \<leftarrow> (if pd_joinid (pds s pd) = pd then free_tcb k ops pd s else Some s);
        Some (Thread_exits, s)
      }"
      using r False unfolding thread_finish_def Let_def t_def [symmetric] u_def [symmetric]
      by (simp split: if_splits)
    then obtain v where v: "?m = Some v" by (cases ?m) auto
    have sv: "same_pool s v \<and> SETXID \<notin> pd_cancelhandling (pds v pd)"
    proof (cases "SETXID \<in> pd_cancelhandling (pds u pd)")
      case True
      then obtain vs x where x: "wait_until (\<lambda>s. SETXID \<notin> pd_cancelhandling (pds s pd)) ws u = Some (vs, x)"
        "v = upd_pd pd (\<lambda>p. p\<lparr>pd_setxid_futex := 0\<rparr>) x"
        using v by (auto simp: bind_eq_Some_conv)
      then show ?thesis using wait_until_pool [OF x(1) ws] same_pool_trans [OF su] by auto
    next
      case False
      then show ?thesis using v su by auto
    qed
    show ?thesis
    proof (cases "pd_joinid (pds v pd) = pd")
      case True
      then have "free_tcb k ops pd v \<bind> (\<lambda>s. Some (Thread_exits, s)) = Some (e, s')"
        using eq v by simp
      then have "free_tcb k ops pd v = Some s'" "e = Thread_exits"
        by (cases "free_tcb k ops pd v"; simp)+
      then show ?thesis using True sv by (intro detached [of v]) auto
    next
      case False
      then have "e = Thread_exits" "s' = v" using eq v by auto
      then show ?thesis using sv False by (intro joinable) auto
    qed
  qed
qed

lemma start_thread_cases:
  assumes ops: "ops_ok ops" and ws: "\<forall>w \<in> set ws. pool_neutral w"
    and r: "start_thread k ops pd ws s = Some (e, s')"
  obtains (last) "e = Process_exits" "same_pool s s'"
  | (joinable) "e = Thread_exits" "same_pool s s'" "pd_joinid (pds s' pd) \<noteq> pd"
  | (detached) t where "e = Thread_exits" "same_pool s t" "pd_joinid (pds t pd) = pd"
      "free_tcb k ops pd t = Some s'"
proof -
  obtain vs t where t: "thread_body ops pd ws (thread_begin pd s) = Some (vs, t)"
    "thread_finish k ops pd vs t = Some (e, s')"
    using r by (auto simp: start_thread_def bind_eq_Some_conv)
  note b = thread_body_pool [OF ops ws t(1)]
  have st: "same_pool s t" by (rule same_pool_trans [OF thread_begin_pool b(1)])
  have vs: "\<forall>w \<in> set vs. pool_neutral w" using ws b(2) by auto
  from ops vs t(2) show ?thesis
  proof (cases rule: thread_finish_cases)
    case last
    then show ?thesis using \<open>same_pool s t\<close> by (intro that(1)) (auto intro: same_pool_trans)
  next
    case joinable
    then show ?thesis using \<open>same_pool s t\<close> by (intro that(2)) (auto intro: same_pool_trans)
  next
    case (detached u)
    then show ?thesis using st by (intro that(3) [of u]) (auto intro: same_pool_trans)
  qed
qed

lemma start_thread_keeps_inv:
  assumes inv: "pool_inv s" and ops: "ops_ok ops" and ws: "\<forall>w \<in> set ws. pool_neutral w"
    and pd: "pd \<in> set (stack_used s) \<union> set (stack_user s)"
    and r: "start_thread k ops pd ws s = Some (e, s')"
  shows "pool_inv s'"
  using ops ws r
proof (cases rule: start_thread_cases)
  case (detached t)
  have "pool_inv t" by (rule same_pool_inv [OF detached(2) inv])
  then show ?thesis using free_tcb_inv [OF _ _ detached(4)] pd detached(2) by (simp add: same_pool_def)
qed (use inv same_pool_inv in blast)+

end
