(* ===== verification/Thread_Setxid.thy ===== *)
theory Thread_Setxid
  imports Thread_Life
begin

text \<open>
  \<open>__nptl_setxid\<close> of \<open>allocatestack.c\<close>: every thread of the process changes its IDs. The caller
  marks all threads, signals the marked ones until none is left, takes the marks away and makes
  the system call itself. What the signalled threads do while the caller waits is a list of
  steps on the library and on the command; a function is \<open>None\<close> if the caller still waits at its
  end, or if it aborts.
\<close>

record xid_command =
  xc_cntr :: int
  xc_error :: int

type_synonym xid_state = "xid_command \<times> nptl"
type_synonym xid_steps = "(xid_state \<Rightarrow> xid_state) list"

fun xid_wait :: "(xid_state \<Rightarrow> bool) \<Rightarrow> xid_steps \<Rightarrow> xid_state \<Rightarrow> (xid_steps \<times> xid_state) option" where
  "xid_wait P [] s = (if P s then Some ([], s) else None)"
| "xid_wait P (w # ws) s = (if P s then Some (w # ws, s) else xid_wait P ws (w s))"

subsection \<open>Marking\<close>

text \<open>The thread is not cloned yet while its futex is - 1; the caller asks to be woken with - 2.\<close>

definition setxid_mark_thread :: "u64 \<Rightarrow> xid_steps \<Rightarrow> xid_state \<Rightarrow> (xid_steps \<times> xid_state) option" where
  "setxid_mark_thread t ws s =
    do {
      (ws, c, s) \<leftarrow> (if pd_setxid_futex (pds (snd s) t) = - 1
                    then xid_wait (\<lambda>(_, s). pd_setxid_futex (pds s t) \<noteq> - 2) ws
                           (apsnd (upd_pd t (\<lambda>p. p\<lparr>pd_setxid_futex := - 2\<rparr>)) s)
                    else Some (ws, s));
      let s = upd_pd t (\<lambda>p. p\<lparr>pd_setxid_futex := 0\<rparr>) s;
      let ch = pd_cancelhandling (pds s t);
      Some (ws, c,
        if EXITING \<in> ch
        then if SETXID \<notin> ch
             then (upd_pd t (\<lambda>p. p\<lparr>pd_setxid_futex := 1\<rparr>) s)\<lparr>futex_wakes := t # futex_wakes s\<rparr>
             else s
        else upd_pd t (\<lambda>p. p\<lparr>pd_cancelhandling := insert SETXID ch\<rparr>) s)
    }"

definition setxid_unmark_thread :: "u64 \<Rightarrow> nptl \<Rightarrow> nptl" where
  "setxid_unmark_thread t s =
    (let ch = pd_cancelhandling (pds s t) in
     if SETXID \<notin> ch then s
     else let s = upd_pd t (\<lambda>p. p\<lparr>pd_cancelhandling := ch - {SETXID}\<rparr>) s;
              s = upd_pd t (\<lambda>p. p\<lparr>pd_setxid_futex := 1\<rparr>) s
          in s\<lparr>futex_wakes := t # futex_wakes s\<rparr>)"

text \<open>\<open>kill\<close> is the \<open>tgkill\<close> of the system; the result counts the signals sent.\<close>

definition setxid_signal_thread :: "(int \<Rightarrow> nptl \<Rightarrow> errno option) \<Rightarrow> u64 \<Rightarrow> xid_state \<Rightarrow> nat \<times> xid_state" where
  "setxid_signal_thread kill t cs =
    (let (c, s) = cs in
     if SETXID \<notin> pd_cancelhandling (pds s t) then (0, c, s)
     else
       let tid = pd_tid (pds s t); val = kill tid s;
           s = s\<lparr>tgkills := (tid, SIGSETXID) # tgkills s\<rparr>
       in if val = None then (1, c\<lparr>xc_cntr := xc_cntr c + 1\<rparr>, s) else (0, c, s))"

definition setxid_error :: "int \<Rightarrow> xid_command \<Rightarrow> xid_command option" where
  "setxid_error err cmdp =
    (if xc_error cmdp = err then Some cmdp
     else if xc_error cmdp \<noteq> - 1 then None
     else Some (cmdp\<lparr>xc_error := err\<rparr>))"

subsection \<open>The loops over the lists\<close>

fun mark_each :: "u64 \<Rightarrow> u64 list \<Rightarrow> xid_steps \<Rightarrow> xid_state \<Rightarrow> (xid_steps \<times> xid_state) option" where
  "mark_each self [] ws s = Some (ws, s)"
| "mark_each self (t # runp) ws s =
    (if t = self then mark_each self runp ws s
     else do { (ws, s) \<leftarrow> setxid_mark_thread t ws s; mark_each self runp ws s })"

fun signal_each :: "(int \<Rightarrow> nptl \<Rightarrow> errno option) \<Rightarrow> u64 \<Rightarrow> u64 list \<Rightarrow> xid_state \<Rightarrow> nat \<times> xid_state" where
  "signal_each kill self [] s = (0, s)"
| "signal_each kill self (t # runp) s =
    (if t = self then signal_each kill self runp s
     else let (n, s) = setxid_signal_thread kill t s;
              (m, s) = signal_each kill self runp s
          in (n + m, s))"

fun unmark_each :: "u64 \<Rightarrow> u64 list \<Rightarrow> nptl \<Rightarrow> nptl" where
  "unmark_each self [] s = s"
| "unmark_each self (t # runp) s =
    unmark_each self runp (if t = self then s else setxid_unmark_thread t s)"

text \<open>The signals of one round, to both lists.\<close>

definition signal_all ::
    "(int \<Rightarrow> nptl \<Rightarrow> errno option) \<Rightarrow> u64 \<Rightarrow> xid_state \<Rightarrow> nat \<times> xid_state" where
  "signal_all kill self s =
    (let (n, s) = signal_each kill self (stack_used (snd s)) s;
         (m, s) = signal_each kill self (stack_user (snd s)) s
     in (n + m, s))"

text \<open>The rounds of signals may go on for ever if the threads keep being marked.\<close>

partial_function (option) setxid_rounds ::
    "(int \<Rightarrow> nptl \<Rightarrow> errno option) \<Rightarrow> u64 \<Rightarrow> xid_steps \<Rightarrow> xid_state \<Rightarrow> (xid_steps \<times> xid_state) option" where
  [code]: "setxid_rounds kill self ws s =
    (case signal_all kill self s of (signalled, s) \<Rightarrow> do {
       (ws, s) \<leftarrow> xid_wait (\<lambda>(c, _). xc_cntr c = 0) ws s;
       (if signalled \<noteq> 0 then setxid_rounds kill self ws s else Some (ws, s))
     })"

text \<open>The last argument is the result of the system call, 0 or an error number.\<close>

definition nptl_setxid ::
    "(int \<Rightarrow> nptl \<Rightarrow> errno option) \<Rightarrow> u64 \<Rightarrow> xid_steps \<Rightarrow> (nptl \<Rightarrow> int) \<Rightarrow> xid_command \<Rightarrow> nptl
      \<Rightarrow> (int \<times> xid_command \<times> nptl) option" where
  "nptl_setxid kill self ws syscall cmdp s =
    do {
      let s = lock_cache s;
      let cmdp = cmdp\<lparr>xc_cntr := 0, xc_error := - 1\<rparr>;
      (ws, cmdp, s) \<leftarrow> mark_each self (stack_used s) ws (cmdp, s);
      (ws, cmdp, s) \<leftarrow> mark_each self (stack_user s) ws (cmdp, s);
      (ws, cmdp, s) \<leftarrow> setxid_rounds kill self ws (cmdp, s);
      let s = unmark_each self (stack_used s) s;
      let s = unmark_each self (stack_user s) s;
      let err = syscall s;
      cmdp \<leftarrow> setxid_error err cmdp;
      Some (if err = 0 then 0 else - 1, cmdp, unlock_cache s)
    }"

subsection \<open>Consistency of the results\<close>

text \<open>The error is recorded once; a thread that reports another one ends the process.\<close>

lemma setxid_error_spec:
  "setxid_error e c = Some c' \<Longrightarrow> xc_error c' = e \<and> (xc_error c = - 1 \<or> xc_error c = e)"
  by (auto simp: setxid_error_def split: if_splits)

lemma setxid_error_idem: "setxid_error e c = Some c' \<Longrightarrow> setxid_error e c' = Some c'"
  by (auto simp: setxid_error_def split: if_splits)

lemma setxid_error_abort: "setxid_error e c = None \<longleftrightarrow> xc_error c \<noteq> - 1 \<and> xc_error c \<noteq> e"
  by (auto simp: setxid_error_def)

subsection \<open>Nobody stays marked\<close>

lemma unmark_thread_flag:
  "SETXID \<in> pd_cancelhandling (pds (setxid_unmark_thread t s) p) \<longleftrightarrow>
    p \<noteq> t \<and> SETXID \<in> pd_cancelhandling (pds s p)"
  by (auto simp: setxid_unmark_thread_def Let_def)

lemma unmark_thread_pool: "same_pool s (setxid_unmark_thread t s)"
  by (auto simp: setxid_unmark_thread_def Let_def)

lemma unmark_each_flag:
  "SETXID \<in> pd_cancelhandling (pds (unmark_each self ts s) p) \<longleftrightarrow>
    (p \<in> set ts \<longrightarrow> p = self) \<and> SETXID \<in> pd_cancelhandling (pds s p)"
  by (induction self ts s rule: unmark_each.induct) (auto simp: unmark_thread_flag)

lemma unmark_each_pool: "same_pool s (unmark_each self ts s)"
proof (induction self ts s rule: unmark_each.induct)
  case (2 self t runp s)
  then show ?case using same_pool_trans [OF unmark_thread_pool] by auto
qed simp

text \<open>The steps of the other threads leave the lists alone: the caller holds the lock.\<close>

definition steps_ok :: "xid_steps \<Rightarrow> bool" where
  "steps_ok ws \<longleftrightarrow> (\<forall>w \<in> set ws. \<forall>c s. same_pool s (snd (w (c, s))))"

lemma xid_wait_spec:
  assumes "xid_wait P ws s = Some (vs, t)" "steps_ok ws"
  shows "same_pool (snd s) (snd t) \<and> P t \<and> steps_ok vs \<and> length vs \<le> length ws"
  using assms
proof (induction P ws s rule: xid_wait.induct)
  case (1 P s)
  then show ?case by (simp split: if_splits)
next
  case (2 P w ws s)
  show ?case
  proof (cases "P s")
    case False
    then have "xid_wait P ws (w s) = Some (vs, t)" using 2(2) by simp
    moreover have "steps_ok ws" using 2(3) by (simp add: steps_ok_def)
    ultimately have "same_pool (snd (w s)) (snd t) \<and> P t \<and> steps_ok vs \<and> length vs \<le> length ws"
      by (rule 2(1) [OF False])
    moreover have "same_pool (snd s) (snd (w s))"
      using 2(3) by (cases s) (simp add: steps_ok_def)
    ultimately show ?thesis by (auto intro: same_pool_trans)
  qed (use 2 in auto)
qed

lemma mark_thread_spec:
  assumes "setxid_mark_thread t ws s = Some (vs, u)" "steps_ok ws"
  shows "same_pool (snd s) (snd u) \<and> steps_ok vs"
proof -
  let ?m = "if pd_setxid_futex (pds (snd s) t) = - 1
    then xid_wait (\<lambda>(_, s). pd_setxid_futex (pds s t) \<noteq> - 2) ws
           (apsnd (upd_pd t (\<lambda>p. p\<lparr>pd_setxid_futex := - 2\<rparr>)) s)
    else Some (ws, s)"
  obtain xs c x where m: "?m = Some (xs, c, x)"
    using assms(1) unfolding setxid_mark_thread_def by (cases ?m) auto
  have sx: "same_pool (snd s) x \<and> steps_ok xs"
  proof (cases "pd_setxid_futex (pds (snd s) t) = - 1")
    case True
    then have w: "xid_wait (\<lambda>(_, s). pd_setxid_futex (pds s t) \<noteq> - 2) ws
           (apsnd (upd_pd t (\<lambda>p. p\<lparr>pd_setxid_futex := - 2\<rparr>)) s) = Some (xs, c, x)"
      using m by simp
    have "same_pool (snd s) (upd_pd t (\<lambda>p. p\<lparr>pd_setxid_futex := - 2\<rparr>) (snd s))" by auto
    then show ?thesis using xid_wait_spec [OF w assms(2)] by (auto intro: same_pool_trans)
  qed (use m assms(2) in auto)
  have "snd u = (let s = upd_pd t (\<lambda>p. p\<lparr>pd_setxid_futex := 0\<rparr>) x;
      ch = pd_cancelhandling (pds s t) in
      if EXITING \<in> ch
      then if SETXID \<notin> ch
           then (upd_pd t (\<lambda>p. p\<lparr>pd_setxid_futex := 1\<rparr>) s)\<lparr>futex_wakes := t # futex_wakes s\<rparr>
           else s
      else upd_pd t (\<lambda>p. p\<lparr>pd_cancelhandling := insert SETXID ch\<rparr>) s)" "vs = xs"
    using assms(1) m unfolding setxid_mark_thread_def by (auto simp: Let_def)
  then show ?thesis using sx by (auto simp: Let_def)
qed

lemma mark_each_spec:
  assumes "mark_each self ts ws s = Some (vs, u)" "steps_ok ws"
  shows "same_pool (snd s) (snd u) \<and> steps_ok vs"
  using assms
proof (induction self ts ws s rule: mark_each.induct)
  case (2 self t runp ws s)
  show ?case
  proof (cases "t = self")
    case False
    then obtain xs x where x: "setxid_mark_thread t ws s = Some (xs, x)"
      "mark_each self runp xs x = Some (vs, u)"
      using 2(3) by (auto simp: bind_eq_Some_conv)
    note m = mark_thread_spec [OF x(1) 2(4)]
    obtain c y where y: "x = (c, y)" by (cases x)
    show ?thesis
      using 2(2) [OF False x(1) refl x(2)] m by (auto intro: same_pool_trans)
  qed (use 2 in auto)
qed simp

lemma signal_each_spec:
  "same_pool (snd s) (snd (snd (signal_each kill self ts s)))"
proof (induction kill self ts s rule: signal_each.induct)
  case (2 kill self t runp s)
  have sig: "same_pool (snd s) (snd (snd (setxid_signal_thread kill t s)))"
    by (cases s) (simp add: setxid_signal_thread_def Let_def)
  show ?case
  proof (cases "t = self")
    case False
    obtain n x where x: "setxid_signal_thread kill t s = (n, x)"
      by (cases "setxid_signal_thread kill t s")
    obtain m y where y: "signal_each kill self runp x = (m, y)"
      by (cases "signal_each kill self runp x")
    have "same_pool (snd x) (snd y)" using 2(2) [OF False x [symmetric] refl] y by simp
    then show ?thesis using sig x y False same_pool_trans by simp
  qed (use 2 in auto)
qed simp

lemma signal_all_pool: "same_pool (snd s) (snd (snd (signal_all kill self s)))"
  using same_pool_trans [OF signal_each_spec [of s kill self "stack_used (snd s)"] signal_each_spec]
  by (simp add: signal_all_def case_prod_beta)

lemma setxid_rounds_spec:
  assumes "setxid_rounds kill self ws s = Some r" "steps_ok ws"
  shows "same_pool (snd s) (snd (snd r)) \<and> xc_cntr (fst (snd r)) = 0"
proof -
  have "steps_ok ws \<longrightarrow> same_pool (snd s) (snd (snd r)) \<and> xc_cntr (fst (snd r)) = 0"
    using assms(1)
  proof (induction rule: setxid_rounds.raw_induct [rotated, consumes 1, case_names rounds])
    case (rounds rec kill self ws s r)
    obtain n x where x: "signal_all kill self s = (n, x)" by (cases "signal_all kill self s")
    have sx: "same_pool (snd s) (snd x)" using signal_all_pool [of s kill self] x by simp
    from rounds(2) x obtain vs y where y: "xid_wait (\<lambda>(c, _). xc_cntr c = 0) ws x = Some (vs, y)"
      "(if n \<noteq> 0 then rec kill self vs y else Some (vs, y)) = Some r"
      by (auto simp: bind_eq_Some_conv)
    show ?case
    proof
      assume ok: "steps_ok ws"
      note w = xid_wait_spec [OF y(1) ok]
      show "same_pool (snd s) (snd (snd r)) \<and> xc_cntr (fst (snd r)) = 0"
      proof (cases "n = 0")
        case True
        then show ?thesis using y(2) w sx by (auto intro: same_pool_trans split: prod.splits)
      next
        case False
        then have "same_pool (snd y) (snd (snd r)) \<and> xc_cntr (fst (snd r)) = 0"
          using rounds(1) [of kill self vs y r] y(2) w by simp
        then show ?thesis using sx w by (auto intro: same_pool_trans)
      qed
    qed
  qed
  then show ?thesis using assms(2) by simp
qed

subsection \<open>Every thread is asked\<close>

text \<open>
  What a thread does in answer to the signal, and what its creator does, is code outside the
  sources (\<open>sighandler_setxid\<close> and the system call \<open>clone\<close>). Relied on is this: no step takes back a
  signal, and a thread whose creation is complete stays so, keeps its thread ID unless it is on its way
  out, and is rid of its mark only if it has been sent the signal or is on its way out.
\<close>

definition created :: "pthread \<Rightarrow> bool" where
  "created d \<longleftrightarrow> pd_setxid_futex d \<noteq> - 1 \<and> pd_setxid_futex d \<noteq> - 2"

definition answers_only :: "(xid_state \<Rightarrow> xid_state) \<Rightarrow> bool" where
  "answers_only w \<longleftrightarrow> (\<forall>c s. set (tgkills s) \<subseteq> set (tgkills (snd (w (c, s)))) \<and>
    (\<forall>t. created (pds s t) \<longrightarrow>
      (let d = pds s t; d' = pds (snd (w (c, s))) t in
       created d' \<and> (EXITING \<in> pd_cancelhandling d' \<or>
         EXITING \<notin> pd_cancelhandling d \<and> pd_tid d' = pd_tid d \<and>
         (SETXID \<in> pd_cancelhandling d \<and> (pd_tid d, SIGSETXID) \<notin> set (tgkills s) \<longrightarrow>
           SETXID \<in> pd_cancelhandling d')))))"

definition answers_ok :: "xid_steps \<Rightarrow> bool" where
  "answers_ok ws \<longleftrightarrow> (\<forall>w \<in> set ws. answers_only w)"

text \<open>A thread has been reached when it was sent the signal or is on its way out; till then it is marked.\<close>

definition reached :: "u64 \<Rightarrow> nptl \<Rightarrow> bool" where
  "reached t s \<longleftrightarrow> created (pds s t) \<and>
    (EXITING \<in> pd_cancelhandling (pds s t) \<or> (pd_tid (pds s t), SIGSETXID) \<in> set (tgkills s))"

definition asked :: "u64 \<Rightarrow> nptl \<Rightarrow> bool" where
  "asked t s \<longleftrightarrow> reached t s \<or> created (pds s t) \<and> SETXID \<in> pd_cancelhandling (pds s t)"

lemma answers_step:
  assumes "answers_only w"
  shows "asked t (snd s) \<Longrightarrow> asked t (snd (w s))" "reached t (snd s) \<Longrightarrow> reached t (snd (w s))"
proof -
  obtain c u where s: "s = (c, u)" by (cases s)
  note w = assms [unfolded answers_only_def, rule_format, of u c]
  show "reached t (snd s) \<Longrightarrow> reached t (snd (w s))"
    using w by (fastforce simp: s reached_def Let_def)
  show "asked t (snd s) \<Longrightarrow> asked t (snd (w s))"
    using w by (fastforce simp: s asked_def reached_def Let_def)
qed

lemma xid_wait_keeps:
  assumes "xid_wait P ws s = Some (vs, u)" "answers_ok ws"
  shows "answers_ok vs" "asked t (snd s) \<Longrightarrow> asked t (snd u)" "reached t (snd s) \<Longrightarrow> reached t (snd u)"
proof -
  have "answers_ok vs \<and> (asked t (snd s) \<longrightarrow> asked t (snd u)) \<and> (reached t (snd s) \<longrightarrow> reached t (snd u))"
    using assms
  proof (induction P ws s rule: xid_wait.induct)
    case (2 P w ws s)
    then show ?case using answers_step [of w t s] by (auto simp: answers_ok_def split: if_splits)
  qed (simp split: if_splits)
  then show "answers_ok vs" "asked t (snd s) \<Longrightarrow> asked t (snd u)" "reached t (snd s) \<Longrightarrow> reached t (snd u)"
    by blast+
qed

lemma mark_thread_asks:
  assumes "setxid_mark_thread t ws s = Some (vs, u)" "answers_ok ws"
  shows "answers_ok vs" "asked t (snd u)" "asked q (snd s) \<Longrightarrow> asked q (snd u)"
proof -
  let ?m = "if pd_setxid_futex (pds (snd s) t) = - 1
    then xid_wait (\<lambda>(_, s). pd_setxid_futex (pds s t) \<noteq> - 2) ws
           (apsnd (upd_pd t (\<lambda>p. p\<lparr>pd_setxid_futex := - 2\<rparr>)) s)
    else Some (ws, s)"
  obtain xs c x where m: "?m = Some (xs, c, x)"
    using assms(1) unfolding setxid_mark_thread_def by (cases ?m) auto
  have u: "snd u = (let s = upd_pd t (\<lambda>p. p\<lparr>pd_setxid_futex := 0\<rparr>) x;
      ch = pd_cancelhandling (pds s t) in
      if EXITING \<in> ch
      then if SETXID \<notin> ch
           then (upd_pd t (\<lambda>p. p\<lparr>pd_setxid_futex := 1\<rparr>) s)\<lparr>futex_wakes := t # futex_wakes s\<rparr>
           else s
      else upd_pd t (\<lambda>p. p\<lparr>pd_cancelhandling := insert SETXID ch\<rparr>) s)" "vs = xs"
    using assms(1) m unfolding setxid_mark_thread_def by (auto simp: Let_def)
  have x: "answers_ok xs \<and> (q \<noteq> t \<longrightarrow> asked q (snd s) \<longrightarrow> asked q x)"
  proof (cases "pd_setxid_futex (pds (snd s) t) = - 1")
    case True
    then have w: "xid_wait (\<lambda>(_, s). pd_setxid_futex (pds s t) \<noteq> - 2) ws
           (apsnd (upd_pd t (\<lambda>p. p\<lparr>pd_setxid_futex := - 2\<rparr>)) s) = Some (xs, c, x)"
      using m by simp
    have "asked q (upd_pd t (\<lambda>p. p\<lparr>pd_setxid_futex := - 2\<rparr>) (snd s))" if "q \<noteq> t" "asked q (snd s)"
      using that by (simp add: asked_def reached_def)
    then show ?thesis using xid_wait_keeps [OF w assms(2)] by simp
  qed (use m assms(2) in auto)
  then show "answers_ok vs" using u(2) by simp
  show t: "asked t (snd u)" by (auto simp: u(1) asked_def reached_def created_def Let_def)
  show "asked q (snd u)" if "asked q (snd s)"
  proof (cases "q = t")
    case False
    then have "asked q x" using x that by blast
    then show ?thesis using False by (auto simp: u(1) asked_def reached_def Let_def)
  qed (use t in simp)
qed

lemma mark_each_asks:
  assumes "mark_each self ts ws s = Some (vs, u)" "answers_ok ws"
  shows "answers_ok vs" "q \<in> set ts \<Longrightarrow> q \<noteq> self \<Longrightarrow> asked q (snd u)" "asked q (snd s) \<Longrightarrow> asked q (snd u)"
proof -
  have "answers_ok vs \<and> (q \<in> set ts \<and> q \<noteq> self \<or> asked q (snd s) \<longrightarrow> asked q (snd u))"
    using assms
  proof (induction self ts ws s rule: mark_each.induct)
    case (2 self t runp ws s)
    show ?case
    proof (cases "t = self")
      case False
      then obtain xs x where x: "setxid_mark_thread t ws s = Some (xs, x)"
        "mark_each self runp xs x = Some (vs, u)"
        using 2(3) by (auto simp: bind_eq_Some_conv)
      note m = mark_thread_asks [OF x(1) 2(4)]
      obtain c y where y: "x = (c, y)" by (cases x)
      show ?thesis using 2(2) [OF False x(1) refl x(2)] m False by auto
    qed (use 2 in auto)
  qed simp
  then show "answers_ok vs" "q \<in> set ts \<Longrightarrow> q \<noteq> self \<Longrightarrow> asked q (snd u)" "asked q (snd s) \<Longrightarrow> asked q (snd u)"
    by blast+
qed

lemma signal_thread_asks:
  "asked q (snd s) \<Longrightarrow> asked q (snd (snd (setxid_signal_thread kill t s)))"
  "reached q (snd s) \<Longrightarrow> reached q (snd (snd (setxid_signal_thread kill t s)))"
  "asked t (snd s) \<Longrightarrow> reached t (snd (snd (setxid_signal_thread kill t s)))"
  by (cases s; auto simp: setxid_signal_thread_def asked_def reached_def Let_def)+

lemma signal_each_asks:
  "(asked q (snd s) \<longrightarrow> asked q (snd (snd (signal_each kill self ts s)))) \<and>
   (reached q (snd s) \<longrightarrow> reached q (snd (snd (signal_each kill self ts s)))) \<and>
   (q \<in> set ts \<and> q \<noteq> self \<and> asked q (snd s) \<longrightarrow> reached q (snd (snd (signal_each kill self ts s))))"
proof (induction kill self ts s rule: signal_each.induct)
  case (2 kill self t runp s)
  show ?case
  proof (cases "t = self")
    case False
    obtain n x where x: "setxid_signal_thread kill t s = (n, x)"
      by (cases "setxid_signal_thread kill t s")
    obtain m y where y: "signal_each kill self runp x = (m, y)"
      by (cases "signal_each kill self runp x")
    show ?thesis
      using 2(2) [OF False x [symmetric] refl] signal_thread_asks(1,2) [of q s kill t]
        signal_thread_asks(3) [of t s kill] x y False by auto
  qed (use 2 in auto)
qed simp

text \<open>A round reaches every thread that was asked.\<close>

lemma signal_all_reaches:
  assumes "q \<in> set (stack_used (snd s)) \<union> set (stack_user (snd s))" "q \<noteq> self" "asked q (snd s)"
  shows "reached q (snd (snd (signal_all kill self s)))"
proof -
  let ?x = "snd (signal_each kill self (stack_used (snd s)) s)"
  have "stack_user (snd ?x) = stack_user (snd s)"
    using signal_each_spec [of s kill self "stack_used (snd s)"] by (simp add: same_pool_def)
  then show ?thesis
    using signal_each_asks [of q s kill self "stack_used (snd s)"]
      signal_each_asks [of q ?x kill self "stack_user (snd ?x)"] assms
    by (auto simp: signal_all_def case_prod_beta)
qed

lemma setxid_rounds_reach:
  assumes "setxid_rounds kill self ws s = Some r" "steps_ok ws" "answers_ok ws"
    and "q \<in> set (stack_used (snd s)) \<union> set (stack_user (snd s))" "q \<noteq> self" "asked q (snd s)"
  shows "reached q (snd (snd r))"
proof -
  have "steps_ok ws \<longrightarrow> answers_ok ws \<longrightarrow> q \<in> set (stack_used (snd s)) \<union> set (stack_user (snd s)) \<longrightarrow>
      q \<noteq> self \<longrightarrow> asked q (snd s) \<longrightarrow> reached q (snd (snd r))"
    using assms(1)
  proof (induction rule: setxid_rounds.raw_induct [rotated, consumes 1, case_names rounds])
    case (rounds rec kill self ws s r)
    obtain n x where x: "signal_all kill self s = (n, x)" by (cases "signal_all kill self s")
    have sx: "same_pool (snd s) (snd x)" using signal_all_pool [of s kill self] x by simp
    from rounds(2) x obtain vs y where y: "xid_wait (\<lambda>(c, _). xc_cntr c = 0) ws x = Some (vs, y)"
      "(if n \<noteq> 0 then rec kill self vs y else Some (vs, y)) = Some r"
      by (auto simp: bind_eq_Some_conv)
    show ?case
    proof (intro impI)
      assume ok: "steps_ok ws" "answers_ok ws"
        and q: "q \<in> set (stack_used (snd s)) \<union> set (stack_user (snd s))" "q \<noteq> self" "asked q (snd s)"
      note w = xid_wait_spec [OF y(1) ok(1)] and a = xid_wait_keeps [OF y(1) ok(2)]
      have "reached q (snd x)" using signal_all_reaches [OF q, of kill] x by simp
      then have ry: "reached q (snd y)" by (rule a(3))
      have ly: "q \<in> set (stack_used (snd y)) \<union> set (stack_user (snd y))"
        using q(1) sx w by (simp add: same_pool_def)
      show "reached q (snd (snd r))"
      proof (cases "n = 0")
        case True
        then show ?thesis using y(2) ry by auto
      next
        case False
        then show ?thesis using rounds(1) [of kill self vs y r] y(2) w a(1) ly q(2) ry
          by (auto simp: asked_def)
      qed
    qed
  qed
  then show ?thesis using assms(2-6) by blast
qed

lemma unmark_keeps_reached: "reached q s \<Longrightarrow> reached q (setxid_unmark_thread t s)"
  by (auto simp: setxid_unmark_thread_def reached_def created_def Let_def)

lemma unmark_each_reached: "reached q s \<Longrightarrow> reached q (unmark_each self ts s)"
  by (induction self ts s rule: unmark_each.induct) (auto simp: unmark_keeps_reached)

subsection \<open>The whole call\<close>

text \<open>
  When the call returns, no thread but the caller is still marked, no answer is outstanding and
  the recorded result is that of the caller's own system call. The rounds are explicit in the first
  lemma.
\<close>

lemma nptl_setxid_cases:
  assumes "nptl_setxid kill self ws syscall cmdp s = Some (res, c, s')"
  obtains w1 c1 s1 w2 c2 s2 w3 c3 s3 v where
    "mark_each self (stack_used s) ws (cmdp\<lparr>xc_cntr := 0, xc_error := -1\<rparr>, lock_cache s) = Some (w1, c1, s1)"
    "mark_each self (stack_user s1) w1 (c1, s1) = Some (w2, c2, s2)"
    "setxid_rounds kill self w2 (c2, s2) = Some (w3, c3, s3)"
    "v = unmark_each self (stack_user (unmark_each self (stack_used s3) s3)) (unmark_each self (stack_used s3) s3)"
    "setxid_error (syscall v) c3 = Some c" "s' = unlock_cache v" "res = (if syscall v = 0 then 0 else - 1)"
proof -
  let ?s = "lock_cache s" and ?c = "cmdp\<lparr>xc_cntr := 0, xc_error := - 1\<rparr>"
  obtain w1 c1 s1 where 1: "mark_each self (stack_used s) ws (?c, ?s) = Some (w1, c1, s1)"
    using assms unfolding nptl_setxid_def Let_def
    by (cases "mark_each self (stack_used ?s) ws (?c, ?s)") auto
  obtain w2 c2 s2 where 2: "mark_each self (stack_user s1) w1 (c1, s1) = Some (w2, c2, s2)"
    using assms 1 unfolding nptl_setxid_def Let_def
    by (cases "mark_each self (stack_user s1) w1 (c1, s1)") auto
  obtain w3 c3 s3 where 3: "setxid_rounds kill self w2 (c2, s2) = Some (w3, c3, s3)"
    using assms 1 2 unfolding nptl_setxid_def Let_def
    by (cases "setxid_rounds kill self w2 (c2, s2)") auto
  show ?thesis
    using assms that [OF 1 2 3 refl] 1 2 3 unfolding nptl_setxid_def Let_def by (auto simp: bind_eq_Some_conv)
qed

lemma nptl_setxid_spec:
  assumes ok: "steps_ok ws" and r: "nptl_setxid kill self ws syscall cmdp s = Some (res, c, s')"
  shows "same_pool s s'" "xc_cntr c = 0" "\<not> stack_cache_lock s'"
    "\<And>t. t \<in> set (stack_used s') \<union> set (stack_user s') \<Longrightarrow> t \<noteq> self \<Longrightarrow>
      SETXID \<notin> pd_cancelhandling (pds s' t) \<and> (answers_ok ws \<longrightarrow> reached t s')"
    "\<exists>v. s' = unlock_cache v \<and> res = (if syscall v = 0 then 0 else - 1) \<and> xc_error c = syscall v"
proof -
  from r obtain w1 c1 s1 w2 c2 s2 w3 c3 s3 v where
    1: "mark_each self (stack_used s) ws (cmdp\<lparr>xc_cntr := 0, xc_error := -1\<rparr>, lock_cache s) = Some (w1, c1, s1)"
    and 2: "mark_each self (stack_user s1) w1 (c1, s1) = Some (w2, c2, s2)"
    and 3: "setxid_rounds kill self w2 (c2, s2) = Some (w3, c3, s3)"
    and v: "v = unmark_each self (stack_user (unmark_each self (stack_used s3) s3)) (unmark_each self (stack_used s3) s3)"
    and d: "setxid_error (syscall v) c3 = Some c" "s' = unlock_cache v" "res = (if syscall v = 0 then 0 else - 1)"
    by (rule nptl_setxid_cases)
  let ?u = "unmark_each self (stack_used s3) s3"
  note m1 = mark_each_spec [OF 1 ok] and m2 = mark_each_spec [OF 2]
  have w: "steps_ok w2" using m1 m2 by simp
  note rd = setxid_rounds_spec [OF 3 w]
  have "same_pool s s3"
    using m1 m2 rd by (auto intro: same_pool_trans [OF same_pool_locks(1)] same_pool_trans)
  moreover have uu: "same_pool s3 ?u" "same_pool ?u v" unfolding v by (rule unmark_each_pool)+
  ultimately show pool: "same_pool s s'" unfolding d(2)
    by (auto intro: same_pool_trans [OF _ same_pool_locks(2)] same_pool_trans)
  show "xc_cntr c = 0" using d(1) rd by (auto simp: setxid_error_def split: if_splits)
  show "\<not> stack_cache_lock s'" by (simp add: d(2))
  show "SETXID \<notin> pd_cancelhandling (pds s' t) \<and> (answers_ok ws \<longrightarrow> reached t s')"
    if t: "t \<in> set (stack_used s') \<union> set (stack_user s')" "t \<noteq> self" for t
  proof (intro conjI impI)
    show "SETXID \<notin> pd_cancelhandling (pds s' t)"
      using t uu by (auto simp: d(2) v unmark_each_flag same_pool_def)
    assume a: "answers_ok ws"
    note a1 = mark_each_asks [OF 1 a] and a2 = mark_each_asks [OF 2]
    have l: "t \<in> set (stack_used s) \<union> set (stack_user s)" "stack_user s1 = stack_user s"
      "t \<in> set (stack_used s2) \<union> set (stack_user s2)"
      using t(1) pool m1 m2 by (simp_all add: same_pool_def)
    have "asked t s2" using l(1,2) t(2) a1(2,3) [of t] a2(2,3) [OF a1(1), of t] by auto
    then have "reached t s3"
      using setxid_rounds_reach [OF 3 w a2(1) [OF a1(1)], of t] l(3) t(2) by simp
    then have "reached t v" unfolding v by (intro unmark_each_reached)
    then show "reached t s'" by (simp add: d(2) reached_def unlock_cache_def)
  qed
  show "\<exists>v. s' = unlock_cache v \<and> res = (if syscall v = 0 then 0 else - 1) \<and> xc_error c = syscall v"
    using d setxid_error_spec [OF d(1)] by blast
qed

text \<open>In a process with one thread the call is the system call.\<close>

lemma nptl_setxid_single:
  assumes "set (stack_used s) \<union> set (stack_user s) \<subseteq> {self}"
  shows "nptl_setxid kill self ws syscall cmdp s =
    (let err = syscall (lock_cache s) in
     Some (if err = 0 then 0 else - 1, cmdp\<lparr>xc_cntr := 0, xc_error := err\<rparr>, unlock_cache (lock_cache s)))"
proof -
  have mark: "set ts \<subseteq> {self} \<Longrightarrow> mark_each self ts vs x = Some (vs, x)" for ts vs x
    by (induction ts) auto
  have sig: "set ts \<subseteq> {self} \<Longrightarrow> signal_each kill self ts x = (0, x)" for ts x
    by (induction ts) auto
  have unm: "set ts \<subseteq> {self} \<Longrightarrow> unmark_each self ts x = x" for ts x
    by (induction ts) auto
  have xw: "P x \<Longrightarrow> xid_wait P vs x = Some (vs, x)" for P vs x by (cases vs) auto
  show ?thesis using assms
    by (simp add: nptl_setxid_def mark unm Let_def setxid_error_def setxid_rounds.simps signal_all_def sig xw)
qed

end
