(* ===== verification/Thread_Join.thy ===== *)
theory Thread_Join
  imports Thread_Life
begin

text \<open>
  Joining and cancelling: \<open>pthread_join_common.c\<close> (\<open>cleanup\<close>, \<open>clockwait_tid\<close>,
  \<open>__pthread_clockjoin_ex\<close>), \<open>pthread_join.c\<close> and \<open>pthread_cancel.c\<close>. The predicates on descriptors
  that the headers of glibc define are parameters (the record \<open>join_ops\<close>). A wait is driven by a
  list of events: what the other threads have done when the waiter wakes up, a timeout, or the
  cancellation of the waiter. \<open>None\<close> means that the thread still waits at the end of the list.
\<close>

record timespec =
  ts_sec :: int
  ts_nsec :: int

record join_ops =
  jo_invalid_not_terminated :: "pthread \<Rightarrow> bool"
  jo_invalid :: "pthread \<Rightarrow> bool"
  jo_enabled_and_canceled :: "cancel_flag set \<Rightarrow> bool"
  jo_enabled_canceled_async :: "cancel_flag set \<Rightarrow> bool"
  jo_valid_nanoseconds :: "int \<Rightarrow> bool"
  jo_tgkill :: "int \<Rightarrow> errno option"
  jo_joinid_off :: u64

text \<open>
  \<open>atomic_compare_exchange_weak_acquire (mem, &expected, desired)\<close>, as in C11: the result, the
  new contents of the memory and the new value of \<open>expected\<close>. It may fail spuriously.
\<close>

definition compare_exchange_weak :: "bool \<Rightarrow> 'a \<Rightarrow> 'a \<Rightarrow> 'a \<Rightarrow> bool \<times> 'a \<times> 'a" where
  "compare_exchange_weak spurious mem expected desired =
    (if \<not> spurious \<and> mem = expected then (True, desired, expected) else (False, mem, mem))"

subsection \<open>Waiting for the end of a thread\<close>

text \<open>
  The handler for a cancelled join. It exchanges its own parameter, \<open>&arg\<close>, and not the word
  \<open>arg\<close> points to.
\<close>

definition cleanup :: "bool \<Rightarrow> u64 \<Rightarrow> u64 \<Rightarrow> nptl \<Rightarrow> nptl" where
  "cleanup spurious self arg s =
    (let (_, arg, _) = compare_exchange_weak spurious arg self 0 in s)"

datatype wait_event = Wakes "nptl \<Rightarrow> nptl" | Times_out "nptl \<Rightarrow> nptl" | Cancelled_here

datatype wait_end = Returns "errno option" | Unwinds

text \<open>An iteration starts with a reading of the clock, which fails for an invalid clock.\<close>

fun clockwait_loop ::
    "u64 \<Rightarrow> timespec \<Rightarrow> (timespec option \<times> wait_event) list \<Rightarrow> nptl \<Rightarrow> (wait_end \<times> nptl) option" where
  "clockwait_loop pd abstime [] s = (if pd_tid (pds s pd) = 0 then Some (Returns None, s) else None)"
| "clockwait_loop pd abstime ((now, ev) # evs) s =
    (if pd_tid (pds s pd) = 0 then Some (Returns None, s)
     else case now of
       None \<Rightarrow> Some (Returns (Some EINVAL), s)
     | Some rt \<Rightarrow>
         let sec = ts_sec abstime - ts_sec rt;
             nsec = ts_nsec abstime - ts_nsec rt;
             sec = (if nsec < 0 then sec - 1 else sec)
         in if sec < 0 then Some (Returns (Some ETIMEDOUT), s)
            else (case ev of
                    Times_out w \<Rightarrow> Some (Returns (Some ETIMEDOUT), w s)
                  | Cancelled_here \<Rightarrow> Some (Unwinds, s)
                  | Wakes w \<Rightarrow> clockwait_loop pd abstime evs (w s)))"

definition clockwait_tid ::
    "join_ops \<Rightarrow> u64 \<Rightarrow> timespec \<Rightarrow> (timespec option \<times> wait_event) list \<Rightarrow> nptl
      \<Rightarrow> (wait_end \<times> nptl) option" where
  "clockwait_tid jo pd abstime evs s =
    (if \<not> jo_valid_nanoseconds jo (ts_nsec abstime) then Some (Returns (Some EINVAL), s)
     else clockwait_loop pd abstime evs s)"

text \<open>The wait without a limit; a timeout is not among its events.\<close>

fun join_wait :: "u64 \<Rightarrow> (timespec option \<times> wait_event) list \<Rightarrow> nptl \<Rightarrow> (wait_end \<times> nptl) option" where
  "join_wait pd [] s = (if pd_tid (pds s pd) = 0 then Some (Returns None, s) else None)"
| "join_wait pd ((now, ev) # evs) s =
    (if pd_tid (pds s pd) = 0 then Some (Returns None, s)
     else case ev of
       Cancelled_here \<Rightarrow> Some (Unwinds, s)
     | Wakes w \<Rightarrow> join_wait pd evs (w s)
     | Times_out w \<Rightarrow> join_wait pd evs (w s))"

subsection \<open>\<open>__pthread_clockjoin_ex\<close>\<close>

definition join_deadlock :: "join_ops \<Rightarrow> u64 \<Rightarrow> u64 \<Rightarrow> nptl \<Rightarrow> bool" where
  "join_deadlock jo self pd s \<longleftrightarrow>
    (pd = self \<or>
     pd_joinid (pds s self) = pd \<and>
     pd_cancelhandling (pds s pd) \<inter> {CANCELING, CANCELED, EXITING, TERMINATED} = {}) \<and>
    \<not> jo_enabled_and_canceled jo (pd_cancelhandling (pds s self))"

text \<open>
  The exchange that is to record the waiter, with its arguments in the order of the source:
  \<open>self\<close> is what is expected, \<open>NULL\<close> what is stored.
\<close>

definition join_register :: "bool \<Rightarrow> u64 \<Rightarrow> u64 \<Rightarrow> nptl \<Rightarrow> bool \<times> nptl" where
  "join_register spurious self pd s =
    (let (busy, joinid, self) = compare_exchange_weak spurious (pd_joinid (pds s pd)) self 0
     in (busy, upd_pd pd (\<lambda>p. p\<lparr>pd_joinid := joinid\<rparr>) s))"

text \<open>The result: how the call ends, what was stored in \<open>*thread_return\<close>, and the state.\<close>

definition clockjoin_ex ::
    "kern \<Rightarrow> thread_ops \<Rightarrow> join_ops \<Rightarrow> bool \<Rightarrow> u64 \<Rightarrow> u64 \<Rightarrow> bool \<Rightarrow> timespec option \<Rightarrow> bool
      \<Rightarrow> (timespec option \<times> wait_event) list \<Rightarrow> nptl \<Rightarrow> (wait_end \<times> u64 option \<times> nptl) option" where
  "clockjoin_ex k ops jo spurious self pd thread_return abstime block evs s =
    (if jo_invalid_not_terminated jo (pds s pd) then Some (Returns (Some ESRCH), None, s)
     else if pd_joinid (pds s pd) = pd then Some (Returns (Some EINVAL), None, s)
     else if join_deadlock jo self pd s then Some (Returns (Some EDEADLK), None, s)
     else
       let (busy, s) = join_register spurious self pd s in
       if busy then Some (Returns (Some EINVAL), None, s)
       else
         do {
           (result, s) \<leftarrow>
             (if block
              then (case abstime of
                      Some abstime \<Rightarrow> clockwait_tid jo pd abstime evs s
                    | None \<Rightarrow> join_wait pd evs s)
              else Some (Returns None, s));
           (case result of
              Unwinds \<Rightarrow> Some (Unwinds, None, cleanup spurious self (pd + jo_joinid_off jo) s)
            | Returns None \<Rightarrow>
                let pd_res = pd_result (pds s pd);
                    s = upd_pd pd (\<lambda>p. p\<lparr>pd_tid := - 1\<rparr>) s
                in map_option (\<lambda>s. (Returns None, if thread_return then Some pd_res else None, s))
                     (free_tcb k ops pd s)
            | Returns (Some e) \<Rightarrow>
                Some (Returns (Some e), None, upd_pd pd (\<lambda>p. p\<lparr>pd_joinid := 0\<rparr>) s))
         })"

definition pthread_join ::
    "kern \<Rightarrow> thread_ops \<Rightarrow> join_ops \<Rightarrow> bool \<Rightarrow> u64 \<Rightarrow> u64 \<Rightarrow> bool
      \<Rightarrow> (timespec option \<times> wait_event) list \<Rightarrow> nptl \<Rightarrow> (wait_end \<times> u64 option \<times> nptl) option" where
  "pthread_join k ops jo spurious self pd thread_return evs s =
    clockjoin_ex k ops jo spurious self pd thread_return None True evs s"

subsection \<open>\<open>pthread_cancel\<close>\<close>

text \<open>
  The list holds what other threads do between the reading of the flags and the exchange; when it
  is used up nobody interferes any more.
\<close>

fun cancel_loop ::
    "join_ops \<Rightarrow> u64 \<Rightarrow> u64 \<Rightarrow> (nptl \<Rightarrow> nptl) list \<Rightarrow> nptl \<Rightarrow> errno option \<times> nptl" where
  "cancel_loop jo self pd [] s =
    (let oldval = pd_cancelhandling (pds s pd);
         newval = oldval \<union> {CANCELING, CANCELED}
     in if oldval = newval then (None, s)
        else if jo_enabled_canceled_async jo newval
        then let s = upd_pd pd (\<lambda>p. p\<lparr>pd_cancelhandling := oldval \<union> {CANCELING}\<rparr>) s
             in (jo_tgkill jo (pd_tid (pds s pd)),
                 s\<lparr>tgkills := (pd_tid (pds s pd), SIGCANCEL) # tgkills s\<rparr>)
        else let s = upd_pd self (\<lambda>p. p\<lparr>pd_multiple_threads := True\<rparr>) s
             in (None, upd_pd pd (\<lambda>p. p\<lparr>pd_cancelhandling := newval\<rparr>) s))"
| "cancel_loop jo self pd (w # ws) s =
    (let oldval = pd_cancelhandling (pds s pd);
         newval = oldval \<union> {CANCELING, CANCELED}
     in if oldval = newval then (None, s)
        else if jo_enabled_canceled_async jo newval
        then let s = w s in
             if pd_cancelhandling (pds s pd) \<noteq> oldval then cancel_loop jo self pd ws s
             else let s = upd_pd pd (\<lambda>p. p\<lparr>pd_cancelhandling := oldval \<union> {CANCELING}\<rparr>) s
                  in (jo_tgkill jo (pd_tid (pds s pd)),
                      s\<lparr>tgkills := (pd_tid (pds s pd), SIGCANCEL) # tgkills s\<rparr>)
        else let s = upd_pd self (\<lambda>p. p\<lparr>pd_multiple_threads := True\<rparr>) s;
                 s = w s
             in if pd_cancelhandling (pds s pd) \<noteq> oldval then cancel_loop jo self pd ws s
                else (None, upd_pd pd (\<lambda>p. p\<lparr>pd_cancelhandling := newval\<rparr>) s))"

definition pthread_cancel ::
    "join_ops \<Rightarrow> u64 \<Rightarrow> u64 \<Rightarrow> (nptl \<Rightarrow> nptl) list \<Rightarrow> nptl \<Rightarrow> errno option \<times> nptl" where
  "pthread_cancel jo self th ws s =
    (if jo_invalid jo (pds s th) then (Some ESRCH, s) else cancel_loop jo self th ws s)"

subsection \<open>The wait\<close>

definition event_neutral :: "wait_event \<Rightarrow> bool" where
  "event_neutral ev \<longleftrightarrow>
    (case ev of Wakes w \<Rightarrow> pool_neutral w | Times_out w \<Rightarrow> pool_neutral w | Cancelled_here \<Rightarrow> True)"

definition events_ok :: "(timespec option \<times> wait_event) list \<Rightarrow> bool" where
  "events_ok evs \<longleftrightarrow> (\<forall>(now, ev) \<in> set evs. event_neutral ev)"

lemma events_ok_Cons [simp]: "events_ok ((now, ev) # evs) \<longleftrightarrow> event_neutral ev \<and> events_ok evs"
  by (simp add: events_ok_def)

lemma clockwait_loop_spec:
  assumes "clockwait_loop pd abstime evs s = Some (r, t)" "events_ok evs"
  shows "same_pool s t \<and> (r = Returns None \<longrightarrow> pd_tid (pds t pd) = 0)"
  using assms
proof (induction pd abstime evs s rule: clockwait_loop.induct)
  case (1 pd abstime s)
  then show ?case by (auto split: if_splits)
next
  case (2 pd abstime now ev evs s)
  show ?case
  proof (cases "pd_tid (pds s pd) = 0 \<or> now = None")
    case True
    then show ?thesis using 2(2) by (auto split: if_splits)
  next
    case False
    then obtain rt where rt: "now = Some rt" by auto
    let ?sec = "if ts_nsec abstime - ts_nsec rt < 0 then ts_sec abstime - ts_sec rt - 1
      else ts_sec abstime - ts_sec rt"
    show ?thesis
    proof (cases "?sec < 0")
      case True
      then show ?thesis using 2(2) False rt by (auto simp: Let_def)
    next
      case sec: False
      show ?thesis
      proof (cases ev)
        case (Wakes w)
        have w: "same_pool s (w s)"
          using 2(3) Wakes by (simp add: event_neutral_def pool_neutral_def)
        have "clockwait_loop pd abstime evs (w s) = Some (r, t)"
          using 2(2) False rt sec Wakes by (auto simp: Let_def split: if_splits)
        then have "same_pool (w s) t \<and> (r = Returns None \<longrightarrow> pd_tid (pds t pd) = 0)"
          using 2(1) [OF _ rt refl refl refl _ Wakes] False sec 2(3) by (auto simp: Let_def)
        then show ?thesis using same_pool_trans [OF w] by simp
      qed (use 2(2,3) False rt sec in
          \<open>auto simp: Let_def event_neutral_def pool_neutral_def split: if_splits\<close>)
    qed
  qed
qed

lemma join_wait_spec:
  assumes "join_wait pd evs s = Some (r, t)" "events_ok evs"
  shows "same_pool s t \<and> (r = Returns None \<longrightarrow> pd_tid (pds t pd) = 0)"
  using assms
proof (induction pd evs s rule: join_wait.induct)
  case (1 pd s)
  then show ?case by (auto split: if_splits)
next
  case (2 pd now ev evs s)
  show ?case
  proof (cases "pd_tid (pds s pd) = 0")
    case True
    then show ?thesis using 2(3) by auto
  next
    case False
    have *: "same_pool s t \<and> (r = Returns None \<longrightarrow> pd_tid (pds t pd) = 0)"
      if "same_pool s (w s)" "same_pool (w s) t \<and> (r = Returns None \<longrightarrow> pd_tid (pds t pd) = 0)" for w
      using that same_pool_trans by blast
    show ?thesis
    proof (cases ev)
      case (Wakes w)
      then show ?thesis using 2 False
        by (intro * [of w]) (auto simp: event_neutral_def pool_neutral_def)
    next
      case (Times_out w)
      then show ?thesis using 2 False
        by (intro * [of w]) (auto simp: event_neutral_def pool_neutral_def)
    next
      case Cancelled_here
      then show ?thesis using 2(3) False by auto
    qed
  qed
qed

subsection \<open>The waiter\<close>

lemma join_register_eq:
  "join_register spurious self pd s =
    (\<not> spurious \<and> pd_joinid (pds s pd) = self,
     upd_pd pd (\<lambda>p. p\<lparr>pd_joinid := (if \<not> spurious \<and> pd_joinid (pds s pd) = self then 0 else pd_joinid (pds s pd))\<rparr>) s)"
  by (simp add: join_register_def compare_exchange_weak_def)

text \<open>The exchange never stores the waiter.\<close>

lemma join_register_joinid:
  assumes "self \<noteq> 0" "join_register spurious self pd s = (busy, t)"
  shows "pd_joinid (pds t pd) \<noteq> self \<or> spurious" "busy \<longleftrightarrow> \<not> spurious \<and> pd_joinid (pds s pd) = self"
    "\<not> busy \<Longrightarrow> pds t = pds s"
  using assms by (auto simp: join_register_eq split: if_splits)

lemma cleanup_eq [simp]: "cleanup spurious self arg s = s"
  by (simp add: cleanup_def case_prod_beta)

lemma join_register_pool: "join_register spurious self pd s = (busy, t) \<Longrightarrow> same_pool s t"
  by (auto simp: join_register_eq same_block_def)

lemma clockjoin_cases:
  assumes evs: "events_ok evs"
    and r: "clockjoin_ex k ops jo spurious self pd tr abstime block evs s = Some (e, v, s')"
  obtains (refused) x where "e = Returns (Some x)" "x \<in> {ESRCH, EINVAL, EDEADLK}" "v = None" "same_pool s s'"
  | (unwound) "e = Unwinds" "v = None" "same_pool s s'"
  | (failed) x where "e = Returns (Some x)" "v = None" "same_pool s s'" "pd_joinid (pds s' pd) = 0"
  | (joined) t where "e = Returns None" "same_pool s t" "block \<Longrightarrow> pd_tid (pds t pd) = 0"
      "v = (if tr then Some (pd_result (pds t pd)) else None)"
      "free_tcb k ops pd (upd_pd pd (\<lambda>p. p\<lparr>pd_tid := - 1\<rparr>) t) = Some s'"
proof -
  obtain busy u where u: "join_register spurious self pd s = (busy, u)" by fastforce
  have su: "same_pool s u" by (rule join_register_pool [OF u])
  show ?thesis
  proof (cases "jo_invalid_not_terminated jo (pds s pd) \<or> pd_joinid (pds s pd) = pd \<or> join_deadlock jo self pd s \<or> busy")
    case True
    then have "\<exists>x \<in> {ESRCH, EINVAL, EDEADLK}. e = Returns (Some x) \<and> v = None \<and> (s' = s \<or> s' = u)"
      using r u by (auto simp: clockjoin_ex_def split: if_splits)
    then show ?thesis using su refused same_pool_refl by blast
  next
    case False
    let ?w = "if block
      then (case abstime of Some abstime \<Rightarrow> clockwait_tid jo pd abstime evs u | None \<Rightarrow> join_wait pd evs u)
      else Some (Returns None, u)"
    have eq: "Some (e, v, s') = do {
        (result, s) \<leftarrow> ?w;
        (case result of
           Unwinds \<Rightarrow> Some (Unwinds, None, s)
         | Returns None \<Rightarrow>
             let pd_res = pd_result (pds s pd);
                 s = upd_pd pd (\<lambda>p. p\<lparr>pd_tid := - 1\<rparr>) s
             in map_option (\<lambda>s. (Returns None, if tr then Some pd_res else None, s)) (free_tcb k ops pd s)
         | Returns (Some e) \<Rightarrow>
             Some (Returns (Some e), None, upd_pd pd (\<lambda>p. p\<lparr>pd_joinid := 0\<rparr>) s))
      }"
      using r u False unfolding clockjoin_ex_def cleanup_eq Let_def by (simp split: option.splits)
    then obtain q t where t: "?w = Some (q, t)" by (cases ?w) auto
    have wait: "same_pool u t \<and> (block \<and> q = Returns None \<longrightarrow> pd_tid (pds t pd) = 0)"
      using t clockwait_loop_spec [OF _ evs] join_wait_spec [OF _ evs]
      by (auto simp: clockwait_tid_def split: if_splits option.splits)
    then have st: "same_pool s t" using same_pool_trans [OF su] by blast
    show ?thesis
    proof (cases q)
      case Unwinds
      then show ?thesis using eq t st by (intro unwound) auto
    next
      case (Returns x)
      show ?thesis
      proof (cases x)
        case (Some y)
        have "s' = upd_pd pd (\<lambda>p. p\<lparr>pd_joinid := 0\<rparr>) t" "e = Returns (Some y)" "v = None"
          using eq t Returns Some by auto
        then show ?thesis using st by (intro failed [of y]) (auto simp: same_block_def)
      next
        case None
        let ?t = "upd_pd pd (\<lambda>p. p\<lparr>pd_tid := - 1\<rparr>) t"
        have "Some (e, v, s') = map_option (\<lambda>s. (Returns None, if tr then Some (pd_result (pds t pd)) else None, s))
            (free_tcb k ops pd ?t)"
          using eq t Returns None by (simp add: Let_def)
        then have "e = Returns None" "v = (if tr then Some (pd_result (pds t pd)) else None)"
          "free_tcb k ops pd ?t = Some s'"
          by (cases "free_tcb k ops pd ?t"; simp)+
        then show ?thesis using st wait Returns None by (intro joined [of t]) auto
      qed
    qed
  qed
qed

lemma clockjoin_keeps_inv:
  assumes inv: "pool_inv s" and evs: "events_ok evs"
    and pd: "pd \<in> set (stack_used s) \<union> set (stack_user s)"
    and r: "clockjoin_ex k ops jo spurious self pd tr abstime block evs s = Some (e, v, s')"
  shows "pool_inv s'"
  using evs r
proof (cases rule: clockjoin_cases)
  case (joined t)
  have t: "same_pool s (upd_pd pd (\<lambda>p. p\<lparr>pd_tid := - 1\<rparr>) t)"
    by (rule same_pool_trans [OF joined(2)]) (auto simp: same_block_def)
  have "pool_inv (upd_pd pd (\<lambda>p. p\<lparr>pd_tid := - 1\<rparr>) t)" by (rule same_pool_inv [OF t inv])
  then show ?thesis using free_tcb_inv [OF _ _ joined(5)] pd t by (simp add: same_pool_def)
qed (use inv same_pool_inv in blast)+

text \<open>A descriptor that has been joined never satisfies a second waiter.\<close>

lemma join_wait_blocks:
  assumes "pd_tid (pds s pd) \<noteq> 0"
    and "\<And>now ev. (now, ev) \<in> set evs \<Longrightarrow> \<exists>w. (ev = Wakes w \<or> ev = Times_out w) \<and>
      (\<forall>t. pd_tid (pds (w t) pd) = pd_tid (pds t pd))"
  shows "join_wait pd evs s = None"
  using assms
proof (induction pd evs s rule: join_wait.induct)
  case (2 pd now ev evs s)
  obtain w where w: "ev = Wakes w \<or> ev = Times_out w" "\<forall>t. pd_tid (pds (w t) pd) = pd_tid (pds t pd)"
    using 2(4) [of now ev] by auto
  have tl: "\<exists>w. (ev' = Wakes w \<or> ev' = Times_out w) \<and> (\<forall>t. pd_tid (pds (w t) pd) = pd_tid (pds t pd))"
    if "(now', ev') \<in> set evs" for now' ev' using 2(4) [of now' ev'] that by simp
  have nz: "pd_tid (pds (w s) pd) \<noteq> 0" using w(2) 2(3) by simp
  from w(1) show ?case
  proof
    assume "ev = Wakes w"
    moreover have "join_wait pd evs (w s) = None" by (rule 2(1) [OF 2(3) calculation nz tl])
    ultimately show ?thesis using 2(3) by simp
  next
    assume "ev = Times_out w"
    moreover have "join_wait pd evs (w s) = None" by (rule 2(2) [OF 2(3) calculation nz tl])
    ultimately show ?thesis using 2(3) by simp
  qed
qed simp

subsection \<open>Cancelling\<close>

definition cancel_mark :: "join_ops \<Rightarrow> u64 \<Rightarrow> errno option \<times> nptl \<Rightarrow> bool" where
  "cancel_mark jo pd x \<longleftrightarrow>
    CANCELING \<in> pd_cancelhandling (pds (snd x) pd) \<and>
    (fst x \<noteq> None \<longrightarrow> (\<exists>tid. fst x = jo_tgkill jo tid)) \<and>
    (CANCELED \<in> pd_cancelhandling (pds (snd x) pd) \<or>
     (\<exists>l. tgkills (snd x) = (pd_tid (pds (snd x) pd), SIGCANCEL) # l))"

lemma cancel_mark_intros:
  "CANCELING \<in> pd_cancelhandling (pds s pd) \<Longrightarrow> CANCELED \<in> pd_cancelhandling (pds s pd) \<Longrightarrow>
    cancel_mark jo pd (None, s)"
  "CANCELING \<in> pd_cancelhandling (pds s pd) \<Longrightarrow> tgkills s = (pd_tid (pds s pd), SIGCANCEL) # l \<Longrightarrow>
    cancel_mark jo pd (jo_tgkill jo tid, s)"
  by (auto simp: cancel_mark_def)

lemma cancel_loop_marks: "cancel_mark jo pd (cancel_loop jo self pd ws s)"
proof (induction jo self pd ws s rule: cancel_loop.induct)
  case (1 jo self pd s)
  then show ?case
    unfolding cancel_loop.simps Let_def
    by (simp only: split: if_split) (auto intro: cancel_mark_intros)
next
  case (2 jo self pd w ws s)
  then show ?case
    unfolding cancel_loop.simps Let_def
    by (simp only: split: if_split) (auto intro: cancel_mark_intros)
qed

lemma cancel_loop_pool:
  assumes "\<forall>w \<in> set ws. pool_neutral w"
  shows "same_pool s (snd (cancel_loop jo self pd ws s))"
  using assms
proof (induction jo self pd ws s rule: cancel_loop.induct)
  case (1 jo self pd s)
  then show ?case by (auto simp: Let_def)
next
  case (2 jo self pd w ws s)
  let ?m = "upd_pd self (\<lambda>p. p\<lparr>pd_multiple_threads := True\<rparr>) s"
  have w: "same_pool t (w t)" for t using 2(3) by (simp add: pool_neutral_def)
  have m: "same_pool s (w ?m)" by (rule same_pool_trans [OF _ w]) auto
  have IH1: "same_pool s (snd (cancel_loop jo self pd ws (w s)))"
    if "pd_cancelhandling (pds s pd) \<noteq> pd_cancelhandling (pds s pd) \<union> {CANCELING, CANCELED}"
      "jo_enabled_canceled_async jo (pd_cancelhandling (pds s pd) \<union> {CANCELING, CANCELED})"
      "pd_cancelhandling (pds (w s) pd) \<noteq> pd_cancelhandling (pds s pd)"
    using same_pool_trans [OF w 2(1) [OF refl refl that(1,2) refl that(3)]] 2(3) by simp
  have IH2: "same_pool s (snd (cancel_loop jo self pd ws (w ?m)))"
    if "pd_cancelhandling (pds s pd) \<noteq> pd_cancelhandling (pds s pd) \<union> {CANCELING, CANCELED}"
      "\<not> jo_enabled_canceled_async jo (pd_cancelhandling (pds s pd) \<union> {CANCELING, CANCELED})"
      "pd_cancelhandling (pds (w ?m) pd) \<noteq> pd_cancelhandling (pds s pd)"
    using same_pool_trans [OF m 2(2) [OF refl refl that(1,2) refl refl that(3)]] 2(3) by simp
  show ?case using IH1 IH2 w m by (auto simp: Let_def)
qed

end
