(* ===== verification/Stack_Fork.thy ===== *)
theory Stack_Fork
  imports Stack_Alloc
begin

text \<open>
  The rest of \<open>allocatestack.c\<close> that walks over all stacks: \<open>__make_stacks_executable\<close>,
  \<open>__reclaim_stacks\<close> in the child of a \<open>fork\<close>, \<open>__pthread_init_static_tls\<close> and
  \<open>__wait_lookup_done\<close>. The repair of a list operation that the \<open>fork\<close> interrupted is modelled on
  the links themselves, everything else on the lists they stand for.
\<close>

subsection \<open>Executable stacks\<close>

fun change_stack_perms :: "kern \<Rightarrow> u64 list \<Rightarrow> nptl \<Rightarrow> errno option \<times> nptl" where
  "change_stack_perms k [] s = (None, s)"
| "change_stack_perms k (pd # runp) s =
    (case change_stack_perm k pd s of
       (Some err, s) \<Rightarrow> (Some err, s)
     | (None, s) \<Rightarrow> change_stack_perms k runp s)"

text \<open>\<open>main_err\<close> is the result of \<open>_dl_make_stack_executable\<close>.\<close>

definition make_stacks_executable :: "kern \<Rightarrow> errno option \<Rightarrow> nptl \<Rightarrow> errno option \<times> nptl" where
  "make_stacks_executable k main_err s =
    (if main_err \<noteq> None then (main_err, s)
     else
       let s = lock_cache s;
           (err, s) = change_stack_perms k (stack_used s) s;
           (err, s) = (if err = None then change_stack_perms k (stack_cache s) s else (err, s))
       in (err, unlock_cache s))"

subsection \<open>The links of the lists\<close>

text \<open>The \<open>next\<close> and \<open>prev\<close> fields, by the address of the element or of the list head.\<close>

record links =
  lnext :: "u64 \<Rightarrow> u64"
  lprev :: "u64 \<Rightarrow> u64"

text \<open>
  What \<open>__reclaim_stacks\<close> does with \<open>in_flight_stack\<close>; \<open>used\<close> and \<open>cache\<close> are the addresses of the
  two heads. The failed assertion is \<open>None\<close>.
\<close>

definition repair_lists :: "u64 \<Rightarrow> u64 \<Rightarrow> u64 \<Rightarrow> links \<Rightarrow> links option" where
  "repair_lists used cache in_flight h =
    (if in_flight = 0 then Some h
     else
       let add_p = (in_flight AND 1 \<noteq> 0);
           elem = in_flight AND NOT 1
       in if add_p
          then
            let l = (if lprev h (lnext h used) \<noteq> used then Some used
                     else if lprev h (lnext h cache) \<noteq> cache then Some cache else None)
            in case l of
                 None \<Rightarrow> Some h
               | Some l \<Rightarrow>
                   if lprev h (lnext h l) \<noteq> elem then None
                   else Some (let h = h\<lparr>lnext := (lnext h)(elem := lnext h l)\<rparr>;
                                  h = h\<lparr>lprev := (lprev h)(elem := l)\<rparr>
                              in h\<lparr>lnext := (lnext h)(l := elem)\<rparr>)
          else Some (let h = h\<lparr>lprev := (lprev h)(lnext h elem := lprev h elem)\<rparr>
                     in h\<lparr>lnext := (lnext h)(lprev h elem := lnext h elem)\<rparr>))"

subsection \<open>Reclaiming the stacks after a fork\<close>

fun reclaim_blocks :: "u64 \<Rightarrow> nat \<Rightarrow> nat \<Rightarrow> nptl \<Rightarrow> nptl" where
  "reclaim_blocks curp cnt 0 s = s"
| "reclaim_blocks curp cnt (Suc n) s =
    (let l = pd_specific (pds s curp) cnt;
         s = (if l \<noteq> 0
              then upd_pd curp (\<lambda>p. p\<lparr>pd_specific_used := True\<rparr>)
                     (s\<lparr>key_data_at := (key_data_at s)(l := (\<lambda>_. zero_key_data))\<rparr>)
              else s)
     in reclaim_blocks curp (Suc cnt) n s)"

definition reclaim_stack :: "kern \<Rightarrow> u64 \<Rightarrow> nptl \<Rightarrow> nptl" where
  "reclaim_stack k curp s =
    (let s = upd_pd curp (\<lambda>p. p\<lparr>pd_tid := 0\<rparr>) s;
         s = s\<lparr>stack_cache_actsize := stack_cache_actsize s + pd_stackblock_size (pds s curp)\<rparr>
     in if pd_specific_used (pds s curp)
        then let s = s\<lparr>key_data_at := (key_data_at s)(specific_1stblock k curp := (\<lambda>_. zero_key_data))\<rparr>;
                 s = upd_pd curp (\<lambda>p. p\<lparr>pd_specific_used := False\<rparr>) s
             in reclaim_blocks curp 1 (key_1stlevel_size k - 1) s
        else s)"

fun reclaim_each :: "kern \<Rightarrow> u64 \<Rightarrow> u64 list \<Rightarrow> nptl \<Rightarrow> nptl" where
  "reclaim_each k self [] s = s"
| "reclaim_each k self (curp # runp) s =
    reclaim_each k self runp (if curp \<noteq> self then reclaim_stack k curp s else s)"

text \<open>The lists are the ones the repaired links stand for.\<close>

definition reclaim_stacks :: "kern \<Rightarrow> u64 \<Rightarrow> nptl \<Rightarrow> nptl" where
  "reclaim_stacks k self s =
    (let s = reclaim_each k self (stack_used s) s;
         s = s\<lparr>stack_cache := stack_used s @ stack_cache s\<rparr>;
         s = stack_list_del self s;
         s = s\<lparr>stack_used := [], stack_user := []\<rparr>;
         s = (if pd_user_stack (pds s self) then s\<lparr>stack_user := self # stack_user s\<rparr>
              else s\<lparr>stack_used := self # stack_used s\<rparr>)
     in s\<lparr>nptl_nthreads := 1, in_flight_stack := 0, stack_cache_lock := False,
          default_attr_lock := False\<rparr>)"

subsection \<open>Static TLS and the global scope\<close>

record link_map =
  l_tls_offset :: u64
  l_tls_initimage :: "8 word list"
  l_tls_blocksize :: nat

definition init_one_static_tls :: "link_map \<Rightarrow> u64 \<Rightarrow> nptl \<Rightarrow> nptl" where
  "init_one_static_tls lm curp s =
    s\<lparr>bytes_at := (bytes_at s)(curp - l_tls_offset lm :=
        l_tls_initimage lm @ replicate (l_tls_blocksize lm - length (l_tls_initimage lm)) 0)\<rparr>"

fun init_each_static_tls :: "link_map \<Rightarrow> u64 list \<Rightarrow> nptl \<Rightarrow> nptl" where
  "init_each_static_tls lm [] s = s"
| "init_each_static_tls lm (curp # runp) s =
    init_each_static_tls lm runp (init_one_static_tls lm curp s)"

definition pthread_init_static_tls :: "link_map \<Rightarrow> nptl \<Rightarrow> nptl" where
  "pthread_init_static_tls lm s =
    (let s = lock_cache s;
         s = init_each_static_tls lm (stack_used s) s;
         s = init_each_static_tls lm (stack_user s) s
     in unlock_cache s)"

text \<open>The values of the flag a thread keeps on the global scope.\<close>

record gscope_flags =
  gs_unused :: int
  gs_used :: int
  gs_wait :: int

text \<open>
  The steps of the other threads while the caller waits are a list, as everywhere; the result
  holds what is left of it.
\<close>

fun wait_gscope :: "gscope_flags \<Rightarrow> u64 \<Rightarrow> (nptl \<Rightarrow> nptl) list \<Rightarrow> nptl \<Rightarrow> ((nptl \<Rightarrow> nptl) list \<times> nptl) option" where
  "wait_gscope gf t [] s = (if pd_gscope_flag (pds s t) = gs_wait gf then None else Some ([], s))"
| "wait_gscope gf t (w # ws) s =
    (if pd_gscope_flag (pds s t) = gs_wait gf then wait_gscope gf t ws (w s) else Some (w # ws, s))"

fun lookup_done_each ::
    "gscope_flags \<Rightarrow> u64 \<Rightarrow> u64 list \<Rightarrow> (nptl \<Rightarrow> nptl) list \<Rightarrow> nptl \<Rightarrow> ((nptl \<Rightarrow> nptl) list \<times> nptl) option" where
  "lookup_done_each gf self [] ws s = Some (ws, s)"
| "lookup_done_each gf self (t # runp) ws s =
    (if t = self \<or> pd_gscope_flag (pds s t) = gs_unused gf then lookup_done_each gf self runp ws s
     else if pd_gscope_flag (pds s t) \<noteq> gs_used gf then lookup_done_each gf self runp ws s
     else do {
       (ws, s) \<leftarrow> wait_gscope gf t ws (upd_pd t (\<lambda>p. p\<lparr>pd_gscope_flag := gs_wait gf\<rparr>) s);
       lookup_done_each gf self runp ws s
     })"

definition wait_lookup_done :: "gscope_flags \<Rightarrow> u64 \<Rightarrow> (nptl \<Rightarrow> nptl) list \<Rightarrow> nptl \<Rightarrow> nptl option" where
  "wait_lookup_done gf self ws s =
    do {
      let s = lock_cache s;
      (ws, s) \<leftarrow> lookup_done_each gf self (stack_used s) ws s;
      (ws, s) \<leftarrow> lookup_done_each gf self (stack_user s) ws s;
      Some (unlock_cache s)
    }"

subsection \<open>All stacks become executable\<close>

lemma change_stack_perm_inv:
  assumes inv: "pool_inv s" and p: "p \<in> set (sys_stacks s)" and r: "change_stack_perm k p s = (x, t)"
  shows "pool_inv t" "stack_used t = stack_used s" "stack_cache t = stack_cache s" "pds t = pds s"
    "x = None \<Longrightarrow> in_range (pd_stackblock (pds s p)) (pd_stackblock_size (pds s p)) a \<Longrightarrow>
      \<not> in_range (pd_stackblock (pds s p)) (pd_guardsize (pds s p)) a \<Longrightarrow> prots t a = PROT_RWX"
    "prots s a = PROT_RWX \<Longrightarrow> prots t a = PROT_RWX"
proof -
  let ?b = "pd_stackblock (pds s p)" and ?l = "pd_stackblock_size (pds s p)"
    and ?g = "pd_guardsize (pds s p)"
  have g: "?g \<le> ?l" "\<And>a. in_range ?b ?l a \<Longrightarrow> prots s a = PROT_NONE \<longleftrightarrow> in_range ?b ?g a"
    using inv p by (auto simp: pool_inv_def guard_ok_def Let_def)
  have if0: "in_flight_stack s = 0" using inv by (simp add: pool_inv_def)
  have t: "t = s \<and> x \<noteq> None \<or>
    x = None \<and> t = s\<lparr>prots := (\<lambda>a. if in_range (?b + ?g) (?l - ?g) a then PROT_RWX else prots s a)\<rparr>"
    using r by (auto simp: change_stack_perm_def Let_def mprotect_def split: option.splits)
  then show "stack_used t = stack_used s" "stack_cache t = stack_cache s" "pds t = pds s"
    "prots s a = PROT_RWX \<Longrightarrow> prots t a = PROT_RWX" by auto
  show "prots t a = PROT_RWX" if "x = None" "in_range ?b ?l a" "\<not> in_range ?b ?g a"
    using t that by (auto simp: in_range_suffix [OF g(1)])
  show "pool_inv t"
    using t
  proof
    assume "t = s \<and> x \<noteq> None"
    then show ?thesis using inv by simp
  next
    assume t: "x = None \<and> t = s\<lparr>prots := (\<lambda>a. if in_range (?b + ?g) (?l - ?g) a then PROT_RWX else prots s a)\<rparr>"
    show ?thesis
      by (rule set_guard_inv [OF inv p, where g = ?g])
        (use t g if0 in \<open>auto simp: in_range_suffix fun_upd_idem\<close>)
  qed
qed

lemma change_stack_perms_inv:
  assumes "pool_inv s" "set ps \<subseteq> set (sys_stacks s)" "change_stack_perms k ps s = (x, t)"
  shows "pool_inv t \<and> stack_used t = stack_used s \<and> stack_cache t = stack_cache s \<and> pds t = pds s \<and>
    (\<forall>a. prots s a = PROT_RWX \<longrightarrow> prots t a = PROT_RWX) \<and>
    (x = None \<longrightarrow> (\<forall>p \<in> set ps. \<forall>a. in_range (pd_stackblock (pds s p)) (pd_stackblock_size (pds s p)) a \<longrightarrow>
      \<not> in_range (pd_stackblock (pds s p)) (pd_guardsize (pds s p)) a \<longrightarrow> prots t a = PROT_RWX))"
  using assms
proof (induction ps arbitrary: s)
  case Nil
  then show ?case by simp
next
  case (Cons p ps)
  obtain y u where y: "change_stack_perm k p s = (y, u)" by fastforce
  have p: "p \<in> set (sys_stacks s)" using Cons.prems(2) by simp
  note u = change_stack_perm_inv [OF Cons.prems(1) p y]
  have sys: "sys_stacks u = sys_stacks s" using u(2,3) by (simp add: sys_stacks_def)
  show ?case
  proof (cases y)
    case (Some e)
    then have "t = u" "x = Some e" using Cons.prems(3) y by simp_all
    then show ?thesis using u(1-4,6) by simp
  next
    case None
    then have c: "change_stack_perms k ps u = (x, t)" using Cons.prems(3) y by simp
    have "set ps \<subseteq> set (sys_stacks u)" using Cons.prems(2) sys by simp
    from Cons.IH [OF u(1) this c] show ?thesis
      using u(2-6) None by auto
  qed
qed

text \<open>
  Success makes every byte of every stack but its guard executable, used or cached; the guards
  stay. The pool invariant holds in any case.
\<close>

lemma make_stacks_executable_spec:
  assumes inv: "pool_inv s" and r: "make_stacks_executable k me s = (x, t)"
  shows "pool_inv t" "pds t = pds s"
    "x = None \<Longrightarrow> p \<in> set (sys_stacks s) \<Longrightarrow>
      in_range (pd_stackblock (pds s p)) (pd_stackblock_size (pds s p)) a \<Longrightarrow>
      \<not> in_range (pd_stackblock (pds s p)) (pd_guardsize (pds s p)) a \<Longrightarrow> prots t a = PROT_RWX"
proof -
  have "pool_inv t \<and> pds t = pds s \<and> (x = None \<longrightarrow> (\<forall>p \<in> set (sys_stacks s). \<forall>a.
    in_range (pd_stackblock (pds s p)) (pd_stackblock_size (pds s p)) a \<longrightarrow>
    \<not> in_range (pd_stackblock (pds s p)) (pd_guardsize (pds s p)) a \<longrightarrow> prots t a = PROT_RWX))"
  proof (cases "me = None")
    case False
    then show ?thesis using inv r by (auto simp: make_stacks_executable_def)
  next
    case True
    let ?s = "lock_cache s"
    have i: "pool_inv ?s" using inv by (rule same_pool_inv [OF same_pool_locks(1)])
    have un: "pool_inv (unlock_cache u)" if "pool_inv u" for u
      using that by (rule same_pool_inv [OF same_pool_locks(2)])
    obtain y u where y: "change_stack_perms k (stack_used s) ?s = (y, u)" by fastforce
    have "set (stack_used s) \<subseteq> set (sys_stacks ?s)" by (simp add: sys_stacks_def)
    note u = change_stack_perms_inv [OF i this y]
    show ?thesis
    proof (cases y)
      case (Some e)
      then have "x = Some e" "t = unlock_cache u" using r True y by (auto simp: make_stacks_executable_def)
      then show ?thesis using u un by simp
    next
      case None
      obtain z v where z: "change_stack_perms k (stack_cache u) u = (z, v)" by fastforce
      have ui: "pool_inv u" using u by simp
      have "set (stack_cache u) \<subseteq> set (sys_stacks u)" by (simp add: sys_stacks_def)
      note v = change_stack_perms_inv [OF ui this z]
      have "x = z" "t = unlock_cache v" using r True y None z by (auto simp: make_stacks_executable_def)
      then show ?thesis using u v un None by (auto simp: sys_stacks_def)
    qed
  qed
  then show "pool_inv t" "pds t = pds s"
    "x = None \<Longrightarrow> p \<in> set (sys_stacks s) \<Longrightarrow>
      in_range (pd_stackblock (pds s p)) (pd_stackblock_size (pds s p)) a \<Longrightarrow>
      \<not> in_range (pd_stackblock (pds s p)) (pd_guardsize (pds s p)) a \<Longrightarrow> prots t a = PROT_RWX"
    by auto
qed

subsection \<open>The repair of an interrupted list operation\<close>

text \<open>
  \<open>chain h a xs b\<close>: the links lead from \<open>a\<close> over \<open>xs\<close> to \<open>b\<close> and back. \<open>dll h l xs\<close>: the list with
  head \<open>l\<close> holds \<open>xs\<close>.
\<close>

fun chain :: "links \<Rightarrow> u64 \<Rightarrow> u64 list \<Rightarrow> u64 \<Rightarrow> bool" where
  "chain h a [] b \<longleftrightarrow> lnext h a = b \<and> lprev h b = a"
| "chain h a (x # xs) b \<longleftrightarrow> lnext h a = x \<and> lprev h x = a \<and> chain h x xs b"

definition dll :: "links \<Rightarrow> u64 \<Rightarrow> u64 list \<Rightarrow> bool" where
  "dll h l xs \<longleftrightarrow> distinct (l # xs) \<and> chain h l xs l"

lemma chain_cong:
  assumes "\<And>x. x \<in> set (a # xs) \<Longrightarrow> lnext h' x = lnext h x"
    "\<And>x. x \<in> set (xs @ [b]) \<Longrightarrow> lprev h' x = lprev h x"
  shows "chain h' a xs b = chain h a xs b"
  using assms by (induction xs arbitrary: a) auto

lemma chain_append:
  "chain h a (xs @ x # ys) b \<longleftrightarrow> chain h a xs x \<and> chain h x ys b"
  by (induction xs arbitrary: a) auto

lemma chain_first: "chain h a xs b \<Longrightarrow> lnext h a = hd (xs @ [b]) \<and> lprev h (lnext h a) = a"
  by (cases xs) auto

lemma chain_last: "chain h a xs b \<Longrightarrow> lprev h b = last (a # xs) \<and> lnext h (lprev h b) = b"
  by (induction xs arbitrary: a) auto

text \<open>The links of two lists with the head of the first one's first element already redirected.\<close>

definition add_started :: "links \<Rightarrow> u64 \<Rightarrow> u64 \<Rightarrow> links \<Rightarrow> bool" where
  "add_started h l elem h' \<longleftrightarrow>
    (\<forall>x. x \<noteq> elem \<longrightarrow> lnext h' x = lnext h x) \<and>
    (\<forall>x. x \<noteq> elem \<longrightarrow> lprev h' x = (if x = lnext h l then elem else lprev h x))"

text \<open>Completing an addition whose second store had happened.\<close>

definition add_finished :: "u64 \<Rightarrow> u64 \<Rightarrow> links \<Rightarrow> links" where
  "add_finished l elem h =
    h\<lparr>lnext := (lnext h)(elem := lnext h l, l := elem), lprev := (lprev h)(elem := l)\<rparr>"

lemma add_finished_dll:
  assumes d: "dll h l xs" and e: "elem \<notin> set (l # xs)" and s: "add_started h l elem h'"
  shows "dll (add_finished l elem h') l (elem # xs)"
proof -
  have l: "l \<noteq> elem" using e by auto
  have n: "lnext h' l = lnext h l" using s l by (simp add: add_started_def)
  have d': "distinct (l # xs)" "chain h l xs l" using d by (simp_all add: dll_def)
  have "chain (add_finished l elem h') elem xs l"
  proof (cases xs)
    case Nil
    then have "lnext h l = l" using d' by simp
    then show ?thesis using Nil s l n by (simp add: add_finished_def add_started_def)
  next
    case (Cons x ys)
    have c: "lnext h l = x" "chain h x ys l" using d'(2) Cons by simp_all
    have "chain (add_finished l elem h') x ys l = chain h x ys l"
    proof (rule chain_cong)
      fix y assume "y \<in> set (x # ys)"
      then have "y \<noteq> elem" "y \<noteq> l" using e d'(1) Cons by auto
      then show "lnext (add_finished l elem h') y = lnext h y"
        using s by (simp add: add_finished_def add_started_def)
    next
      fix y assume "y \<in> set (ys @ [l])"
      then have "y \<noteq> elem" "y \<noteq> x" using e d'(1) Cons by auto
      then show "lprev (add_finished l elem h') y = lprev h y"
        using s c by (simp add: add_finished_def add_started_def)
    qed
    moreover have "x \<noteq> elem" using e Cons by auto
    ultimately show ?thesis using Cons c s n l
      by (simp add: add_finished_def add_started_def)
  qed
  then show ?thesis using d'(1) e l by (simp add: dll_def) (simp add: add_finished_def)
qed

text \<open>The other list does not notice.\<close>

lemma add_finished_other:
  assumes d: "dll h m ys" "dll h l xs" and disj: "set (m # ys) \<inter> set (l # xs) = {}"
    and e: "elem \<notin> set (m # ys)" and s: "add_started h l elem h'"
  shows "dll (add_finished l elem h') m ys"
proof -
  have nl: "lnext h l \<in> set (l # xs)"
    using d(2) chain_first [of h l xs l] by (cases xs) (auto simp: dll_def)
  have "chain (add_finished l elem h') m ys m = chain h m ys m"
  proof (rule chain_cong)
    fix y assume "y \<in> set (m # ys)"
    then have "y \<noteq> elem" "y \<noteq> l" using e disj by auto
    then show "lnext (add_finished l elem h') y = lnext h y"
      using s by (simp add: add_finished_def add_started_def)
  next
    fix y assume "y \<in> set (ys @ [m])"
    then have "y \<noteq> elem" "y \<noteq> lnext h l" using e disj nl by auto
    then show "lprev (add_finished l elem h') y = lprev h y"
      using s by (simp add: add_finished_def add_started_def)
  qed
  then show ?thesis using d(1) by (simp add: dll_def)
qed

text \<open>
  An interrupted addition is completed, to whichever list it was; an addition that had not
  become visible, or was complete, leaves the links alone.
\<close>

lemma in_flight_add:
  assumes "elem AND 1 = (0 :: u64)" "elem \<noteq> 0"
  shows "(elem OR 1) AND 1 \<noteq> 0" "(elem OR 1) AND NOT 1 = elem" "elem OR 1 \<noteq> 0"
proof -
  have b: "\<not> bit elem 0" using assms(1) by (simp add: and_one_eq mod_2_eq_odd split: if_splits)
       (simp add: bit_0)
  show "(elem OR 1) AND 1 \<noteq> 0" by (simp add: and_one_eq even_or_iff bit_0 mod_2_eq_odd)
  show "elem OR 1 \<noteq> 0" using assms(2) by (simp add: or_eq_0_iff)
  show "(elem OR 1) AND NOT 1 = elem"
  proof (rule bit_word_eqI)
    fix n show "bit ((elem OR 1) AND NOT 1) n = bit elem n" if "n < LENGTH(64)"
      using that b by (cases n) (auto simp: bit_simps)
  qed
qed

lemma repair_add_visible:
  assumes "dll h used xs" "dll h cache ys" and disj: "set (used # xs) \<inter> set (cache # ys) = {}"
    and e: "elem \<notin> set (used # xs) \<union> set (cache # ys)" "elem AND 1 = 0" "elem \<noteq> 0"
    and l: "l = used \<or> l = cache" and s: "add_started h l elem h'"
  shows "repair_lists used cache (elem OR 1) h' = Some (add_finished l elem h')"
proof -
  note f = in_flight_add [OF e(2,3)]
  have fu: "lprev h (lnext h used) = used" "lnext h used \<in> set (used # xs)"
    using assms(1) chain_first [of h used xs used] by (cases xs; auto simp: dll_def)+
  have fc: "lprev h (lnext h cache) = cache" "lnext h cache \<in> set (cache # ys)"
    using assms(2) chain_first [of h cache ys cache] by (cases ys; auto simp: dll_def)+
  have ne: "used \<noteq> elem" "cache \<noteq> elem" "lnext h used \<noteq> elem" "lnext h cache \<noteq> elem" "used \<noteq> cache"
    "lnext h used \<noteq> lnext h cache"
    using e(1) fu(2) fc(2) disj by auto
  have n: "lnext h' used = lnext h used" "lnext h' cache = lnext h cache"
    using s ne by (simp_all add: add_started_def)
  have p: "lprev h' (lnext h used) = (if l = used then elem else used)"
    "lprev h' (lnext h cache) = (if l = cache then elem else cache)"
    using s ne l fu(1) fc(1) by (auto simp: add_started_def)
  show ?thesis
    using l n p ne f
    by (auto simp: repair_lists_def add_finished_def Let_def fun_upd_twist)
qed

lemma repair_add_invisible:
  assumes "dll h used xs" "dll h cache ys" "elem AND 1 = 0" "elem \<noteq> 0"
  shows "repair_lists used cache (elem OR 1) h = Some h"
proof -
  have "lprev h (lnext h used) = used" "lprev h (lnext h cache) = cache"
    using assms(1,2) chain_first [of h used xs used] chain_first [of h cache ys cache]
    unfolding dll_def by blast+
  then show ?thesis using in_flight_add(1,3) [OF assms(3,4)] by (simp add: repair_lists_def Let_def)
qed

text \<open>
  A deletion is replayed. \<open>h'\<close> may hold any part of its two stores, the links of the element
  itself are intact.
\<close>

definition del_started :: "links \<Rightarrow> u64 \<Rightarrow> links \<Rightarrow> bool" where
  "del_started h elem h' \<longleftrightarrow>
    (\<forall>x. lnext h' x = lnext h x \<or> x = lprev h elem \<and> x \<noteq> elem \<and> lnext h' x = lnext h elem) \<and>
    (\<forall>x. lprev h' x = lprev h x \<or> x = lnext h elem \<and> x \<noteq> elem \<and> lprev h' x = lprev h elem)"

lemma repair_del:
  assumes d: "dll h l (xs @ elem # ys)" and s: "del_started h elem h'"
    and e: "elem AND 1 = 0" "elem \<noteq> 0"
  obtains h'' where "repair_lists used cache elem h' = Some h''" "dll h'' l (xs @ ys)"
    "\<And>m zs. dll h m zs \<Longrightarrow> set (m # zs) \<inter> set (l # xs @ elem # ys) = {} \<Longrightarrow> dll h'' m zs"
proof -
  let ?p = "lprev h elem" and ?n = "lnext h elem"
  have dist: "distinct (l # xs @ elem # ys)" and ch: "chain h l xs elem" "chain h elem ys l"
    using d by (simp_all add: dll_def chain_append)
  have p: "?p = last (l # xs)" "?p \<noteq> elem" and n: "?n = hd (ys @ [l])" "?n \<noteq> elem"
    using chain_last [OF ch(1)] chain_first [OF ch(2)] dist by (cases xs; cases ys; auto)+
  have own: "lnext h' elem = ?n" "lprev h' elem = ?p"
    using s p(2) n(2) by (auto simp: del_started_def)
  let ?h = "h'\<lparr>lprev := (lprev h')(?n := ?p), lnext := (lnext h')(?p := ?n)\<rparr>"
  have rep: "repair_lists used cache elem h' = Some ?h"
  proof -
    have "elem AND NOT 1 = elem"
    proof -
      have b: "\<not> bit elem 0" using e(1) by (simp add: and_one_eq mod_2_eq_odd split: if_splits)
          (simp add: bit_0)
      show ?thesis
      proof (rule bit_word_eqI)
        fix n show "bit (elem AND NOT 1) n = bit elem n" if "n < LENGTH(64)"
          using that b by (cases n) (auto simp: bit_simps)
      qed
    qed
    then show ?thesis using e own n(2) by (simp add: repair_lists_def Let_def)
  qed
  have same: "lnext ?h x = lnext h x" if "x \<noteq> ?p" for x
    using s that by (auto simp: del_started_def)
  have same': "lprev ?h x = lprev h x" if "x \<noteq> ?n" for x
    using s that by (auto simp: del_started_def)
  have "chain ?h l (xs @ ys) l"
  proof (cases ys)
    case Nil
    then have nl: "?n = l" using n(1) by simp
    show ?thesis
    proof (cases xs rule: rev_cases)
      case Nil
      then show ?thesis using \<open>ys = []\<close> p(1) nl by simp
    next
      case (snoc zs z)
      then have z: "?p = z" using p(1) by simp
      have c: "chain h l zs z" using ch(1) snoc by (simp add: chain_append)
      have "chain ?h l zs z = chain h l zs z"
        by (rule chain_cong; intro same same') (use z nl dist snoc in auto)
      then show ?thesis using c \<open>ys = []\<close> snoc z nl by (simp add: chain_append)
    qed
  next
    case (Cons y ws)
    then have ny: "?n = y" using n(1) by simp
    have c: "chain h y ws l" using ch(2) Cons by simp
    have yl: "y \<noteq> l" "y \<notin> set xs" "y \<notin> set ws" using dist Cons by auto
    have pin: "?p \<in> set (l # xs)" using p(1) last_in_set [of "l # xs"] by simp
    have c1: "chain ?h y ws l = chain h y ws l"
      by (rule chain_cong; intro same same') (use pin ny yl dist Cons in auto)
    show ?thesis
    proof (cases xs rule: rev_cases)
      case Nil
      then show ?thesis using Cons p(1) ny c c1 by simp
    next
      case (snoc zs z)
      then have z: "?p = z" using p(1) by simp
      have c2: "chain h l zs z" using ch(1) snoc by (simp add: chain_append)
      have "chain ?h l zs z = chain h l zs z"
        by (rule chain_cong; intro same same') (use z ny yl dist snoc in auto)
      then show ?thesis using Cons snoc c c1 c2 z ny by (simp add: chain_append)
    qed
  qed
  then have "dll ?h l (xs @ ys)" using dist by (simp add: dll_def)
  moreover have "dll ?h m zs" if m: "dll h m zs" "set (m # zs) \<inter> set (l # xs @ elem # ys) = {}" for m zs
  proof -
    have "?p \<in> set (l # xs)" "?n \<in> set (ys @ [l])"
      using p(1) n(1) last_in_set [of "l # xs"] hd_in_set [of "ys @ [l]"] by simp_all
    then have "?p \<notin> set (m # zs)" "?n \<notin> set (zs @ [m])" using m(2) by auto
    then have "chain ?h m zs m = chain h m zs m" by (intro chain_cong same same') auto
    then show ?thesis using m(1) by (simp add: dll_def)
  qed
  ultimately show ?thesis using rep that by blast
qed

text \<open>Whatever store of an addition or of a deletion was the last before the \<open>fork\<close>, both lists are whole again.\<close>

lemma repair_whole:
  assumes d: "dll h used xs" "dll h cache ys" "set (used # xs) \<inter> set (cache # ys) = {}"
    and e: "elem AND 1 = 0" "elem \<noteq> 0"
  shows "elem \<notin> set (used # xs) \<union> set (cache # ys) \<Longrightarrow> l \<in> {used, cache} \<Longrightarrow> add_started h l elem h' \<Longrightarrow>
      \<exists>h''. repair_lists used cache (elem OR 1) h' = Some h'' \<and>
        dll h'' used (if l = used then elem # xs else xs) \<and> dll h'' cache (if l = used then ys else elem # ys)"
    and "elem \<notin> set (used # xs) \<union> set (cache # ys) \<Longrightarrow> \<forall>x. x \<noteq> elem \<longrightarrow> lnext h' x = lnext h x \<and> lprev h' x = lprev h x \<Longrightarrow>
      \<exists>h''. repair_lists used cache (elem OR 1) h' = Some h'' \<and> dll h'' used xs \<and> dll h'' cache ys"
    and "elem \<in> set xs \<union> set ys \<Longrightarrow> del_started h elem h' \<Longrightarrow>
      \<exists>h''. repair_lists used cache elem h' = Some h'' \<and> dll h'' used (remove1 elem xs) \<and> dll h'' cache (remove1 elem ys)"
proof -
  assume n: "elem \<notin> set (used # xs) \<union> set (cache # ys)"
  show "\<exists>h''. repair_lists used cache (elem OR 1) h' = Some h'' \<and>
      dll h'' used (if l = used then elem # xs else xs) \<and> dll h'' cache (if l = used then ys else elem # ys)"
    if l: "l \<in> {used, cache}" and s: "add_started h l elem h'"
  proof (cases "l = used")
    case True
    then show ?thesis
      using repair_add_visible [OF d n e _ s] add_finished_dll [OF d(1) _ s [unfolded True]]
        add_finished_other [OF d(2,1) _ _ s [unfolded True]] d(3) n by (auto simp: Int_commute)
  next
    case False
    then have l: "l = cache" using l by simp
    then show ?thesis
      using False repair_add_visible [OF d n e _ s] add_finished_dll [OF d(2) _ s [unfolded l]]
        add_finished_other [OF d(1,2) _ _ s [unfolded l]] d(3) n by auto
  qed
  show "\<exists>h''. repair_lists used cache (elem OR 1) h' = Some h'' \<and> dll h'' used xs \<and> dll h'' cache ys"
    if s: "\<forall>x. x \<noteq> elem \<longrightarrow> lnext h' x = lnext h x \<and> lprev h' x = lprev h x"
  proof -
    have "chain h' used xs used = chain h used xs used" "chain h' cache ys cache = chain h cache ys cache"
      by (rule chain_cong; use s n in auto)+
    then have "dll h' used xs" "dll h' cache ys" using d(1,2) by (simp_all add: dll_def)
    with repair_add_invisible [OF this e] show ?thesis by blast
  qed
next
  assume i: "elem \<in> set xs \<union> set ys" and s: "del_started h elem h'"
  show "\<exists>h''. repair_lists used cache elem h' = Some h'' \<and> dll h'' used (remove1 elem xs) \<and> dll h'' cache (remove1 elem ys)"
  proof (cases "elem \<in> set xs")
    case True
    then obtain us vs where x: "xs = us @ elem # vs" "elem \<notin> set us" by (blast dest: split_list_first)
    show ?thesis
      by (rule repair_del [OF d(1) [unfolded x] s e, of used cache])
        (use d x in \<open>auto simp: remove1_append remove1_idem Int_commute\<close>)
  next
    case False
    then obtain us vs where y: "ys = us @ elem # vs" "elem \<notin> set us" using i by (blast dest: split_list_first)
    show ?thesis
      by (rule repair_del [OF d(2) [unfolded y] s e, of used cache])
        (use d y False in \<open>auto simp: remove1_append remove1_idem\<close>)
  qed
qed

subsection \<open>The pool of the child\<close>

definition reclaim_frame :: "nptl \<Rightarrow> nptl \<Rightarrow> bool" where
  "reclaim_frame s t \<longleftrightarrow>
    stack_cache t = stack_cache s \<and> stack_used t = stack_used s \<and> stack_user t = stack_user s \<and>
    maps t = maps s \<and> prots t = prots s \<and> tls_live t = tls_live s \<and>
    stack_cache_maxsize t = stack_cache_maxsize s \<and> (\<forall>p. same_block (pds s p) (pds t p))"

lemma reclaim_frame_trans: "reclaim_frame s t \<Longrightarrow> reclaim_frame t u \<Longrightarrow> reclaim_frame s u"
  by (simp add: reclaim_frame_def same_block_def)

lemma reclaim_blocks_frame:
  "reclaim_frame s (reclaim_blocks c cnt n s) \<and>
    stack_cache_actsize (reclaim_blocks c cnt n s) = stack_cache_actsize s \<and>
    (\<forall>p. pd_tid (pds (reclaim_blocks c cnt n s) p) = pd_tid (pds s p))"
proof (induction n arbitrary: cnt s)
  case 0
  then show ?case by (simp add: reclaim_frame_def same_block_def)
next
  case (Suc n)
  let ?t = "upd_pd c (\<lambda>p. p\<lparr>pd_specific_used := True\<rparr>)
    (s\<lparr>key_data_at := (key_data_at s)(pd_specific (pds s c) cnt := (\<lambda>_. zero_key_data))\<rparr>)"
  have "reclaim_frame s ?t" by (simp add: reclaim_frame_def same_block_def)
  then show ?case using Suc.IH [of s "Suc cnt"] Suc.IH [of ?t "Suc cnt"] reclaim_frame_trans
    by (auto simp: Let_def)
qed

lemma reclaim_stack_frame:
  "reclaim_frame s (reclaim_stack k c s)"
  "stack_cache_actsize (reclaim_stack k c s) = stack_cache_actsize s + pd_stackblock_size (pds s c)"
  "pd_tid (pds (reclaim_stack k c s) p) = (if p = c then 0 else pd_tid (pds s p))"
proof -
  let ?t = "(upd_pd c (\<lambda>p. p\<lparr>pd_tid := 0\<rparr>) s)\<lparr>stack_cache_actsize :=
    stack_cache_actsize s + pd_stackblock_size (pds s c)\<rparr>"
  let ?u = "upd_pd c (\<lambda>p. p\<lparr>pd_specific_used := False\<rparr>)
    (?t\<lparr>key_data_at := (key_data_at ?t)(specific_1stblock k c := (\<lambda>_. zero_key_data))\<rparr>)"
  have t: "reclaim_frame s ?t" "reclaim_frame s ?u"
    by (simp_all add: reclaim_frame_def same_block_def)
  have eq: "reclaim_stack k c s =
      (if pd_specific_used (pds s c) then reclaim_blocks c 1 (key_1stlevel_size k - 1) ?u else ?t)"
    by (simp add: reclaim_stack_def Let_def)
  note b = reclaim_blocks_frame [of ?u c 1 "key_1stlevel_size k - 1"]
  show "reclaim_frame s (reclaim_stack k c s)"
    unfolding eq using t b reclaim_frame_trans by auto
  show "stack_cache_actsize (reclaim_stack k c s) = stack_cache_actsize s + pd_stackblock_size (pds s c)"
    "pd_tid (pds (reclaim_stack k c s) p) = (if p = c then 0 else pd_tid (pds s p))"
    unfolding eq using b by auto
qed

lemma reclaim_each_frame:
  "reclaim_frame s (reclaim_each k self cs s)"
  "stack_cache_actsize (reclaim_each k self cs s) = stack_cache_actsize s +
    sum_list (map (\<lambda>p. pd_stackblock_size (pds s p)) (filter (\<lambda>p. p \<noteq> self) cs))"
  "pd_tid (pds (reclaim_each k self cs s) p) =
    (if p \<in> set cs \<and> p \<noteq> self then 0 else pd_tid (pds s p))"
proof (induction cs arbitrary: s)
  case Nil
  { case 1 show ?case by (simp add: reclaim_frame_def same_block_def) }
  { case 2 show ?case by simp } { case 3 show ?case by simp }
next
  case (Cons c cs)
  have f: "reclaim_frame s (if c \<noteq> self then reclaim_stack k c s else s)" for s
    using reclaim_stack_frame(1) by (simp add: reclaim_frame_def same_block_def)
  have sz: "pd_stackblock_size (pds (if c \<noteq> self then reclaim_stack k c s else s) p) =
      pd_stackblock_size (pds s p)" for s p
    using f [of s] by (simp add: reclaim_frame_def same_block_def)
  { case 1 show ?case using reclaim_frame_trans [OF f Cons.IH(1)] by simp }
  { case 2 show ?case
      unfolding reclaim_each.simps Cons.IH(2) sz by (simp add: reclaim_stack_frame(2)) }
  { case 3 show ?case
      unfolding reclaim_each.simps Cons.IH(3) by (simp add: reclaim_stack_frame(3)) }
qed

lemma reclaim_stacks_sel:
  fixes s :: nptl and self :: u64 and k :: kern
  defines "t \<equiv> reclaim_each k self (stack_used s) s"
  shows "pds (reclaim_stacks k self s) = pds t"
    "stack_cache (reclaim_stacks k self s) = remove1 self (stack_used s @ stack_cache s)"
    "stack_used (reclaim_stacks k self s) = (if pd_user_stack (pds s self) then [] else [self])"
    "stack_user (reclaim_stacks k self s) = (if pd_user_stack (pds s self) then [self] else [])"
    "stack_cache_actsize (reclaim_stacks k self s) = stack_cache_actsize t"
    "maps (reclaim_stacks k self s) = maps s" "prots (reclaim_stacks k self s) = prots s"
    "tls_live (reclaim_stacks k self s) = tls_live s"
    "in_flight_stack (reclaim_stacks k self s) = 0" "nptl_nthreads (reclaim_stacks k self s) = 1"
    "\<not> stack_cache_lock (reclaim_stacks k self s)" "\<not> default_attr_lock (reclaim_stacks k self s)"
  using reclaim_each_frame(1) [where s = s and k = k and self = self and cs = "stack_used s"]
  by (simp_all add: reclaim_stacks_def t_def Let_def reclaim_frame_def same_block_def)

lemma filter_neq_remove1: "distinct xs \<Longrightarrow> filter (\<lambda>x. x \<noteq> a) xs = remove1 a xs"
  by (simp add: distinct_remove1_removeAll removeAll_filter_not_eq) (rule filter_cong; auto)

text \<open>
  In the child the pool is in order again, if no other thread ran on a stack of the user: those
  are forgotten together with their TLS blocks.
\<close>

lemma reclaim_stacks_keeps_inv:
  assumes inv: "pool_inv s" and self: "self \<in> set (stack_used s) \<union> set (stack_user s)"
    and usr: "set (stack_user s) \<subseteq> {self}"
  shows "pool_inv (reclaim_stacks k self s)"
proof -
  let ?r = "reclaim_stacks k self s" and ?U = "stack_used s" and ?C = "stack_cache s"
  note sel = reclaim_stacks_sel [where k = k and self = self and s = s] and f = reclaim_each_frame [where s = s and k = k and self = self and cs = ?U]
  have d: "distinct (?C @ ?U @ stack_user s)" using inv by (simp add: pool_inv_def)
  have same: "pd_stackblock (pds ?r p) = pd_stackblock (pds s p)"
    "pd_stackblock_size (pds ?r p) = pd_stackblock_size (pds s p)"
    "pd_guardsize (pds ?r p) = pd_guardsize (pds s p)"
    "pd_user_stack (pds ?r p) = pd_user_stack (pds s p)" for p
    using f(1) by (simp_all add: sel(1) reclaim_frame_def same_block_def)
  have uS: "pd_user_stack (pds s self) \<longleftrightarrow> self \<in> set (stack_user s)"
    using inv self by (auto simp: pool_inv_def sys_stacks_def block_ok_def Let_def)
  have inC: "self \<notin> set ?C" using d self by auto
  have cache: "stack_cache ?r = remove1 self ?U @ ?C"
    unfolding sel(2) using inC by (simp add: remove1_append remove1_idem)
  have sys: "set (sys_stacks ?r) = set (sys_stacks s)"
    using d self uS by (auto simp: sys_stacks_def cache sel(3))
  have dist: "distinct (stack_cache ?r @ stack_used ?r @ stack_user ?r)"
    using d self uS inC by (auto simp: cache sel(3,4))
  have "stack_cache_actsize s = sum_list (map (\<lambda>p. pd_stackblock_size (pds s p)) ?C)"
    using inv by (simp add: pool_inv_def)
  then have act: "stack_cache_actsize ?r = sum_list (map (\<lambda>p. pd_stackblock_size (pds ?r p)) (stack_cache ?r))"
    using d by (simp add: sel(5) f(2) cache same filter_neq_remove1 add.commute)
  have ok: "\<forall>p \<in> set (sys_stacks ?r). block_ok ?r p \<and> guard_ok ?r p"
    unfolding sys using inv by (simp add: pool_inv_def block_ok_def guard_ok_def same sel(6,7) Let_def)
  have us: "\<forall>p \<in> set (stack_user ?r). pd_user_stack (pds ?r p)" by (simp add: sel(4) same)
  have tls: "tls_live ?r = set (stack_cache ?r) \<union> set (stack_used ?r) \<union> set (stack_user ?r)"
    using inv usr self uS d by (auto simp: pool_inv_def sel(3,4,8) cache)
  show ?thesis
    unfolding pool_inv_def sys
    using inv dist act ok us tls by (simp add: same sel(6,9) pool_inv_def [of s] sys)
qed

text \<open>Every stack that was in use, but the caller's, can be reused; and the count is right.\<close>

lemma reclaim_stacks_frees:
  assumes "p \<in> set (stack_used s)" "p \<noteq> self"
  shows "p \<in> set (stack_cache (reclaim_stacks k self s))" "FREE_P (pds (reclaim_stacks k self s) p)"
  using assms by (auto simp: reclaim_stacks_sel reclaim_each_frame(3) FREE_P_def in_set_remove1)

text \<open>
  A stack that was in the cache while its detached thread had not ended yet keeps its thread
  ID, though the thread does not exist in the child.
\<close>

lemma reclaim_stacks_keeps_tid:
  assumes "p \<in> set (stack_cache s)" "p \<notin> set (stack_used s)" "p \<noteq> self" "0 < pd_tid (pds s p)"
  shows "p \<in> set (stack_cache (reclaim_stacks k self s))" "\<not> FREE_P (pds (reclaim_stacks k self s) p)"
  using assms by (auto simp: reclaim_stacks_sel reclaim_each_frame(3) FREE_P_def in_set_remove1)

end
