(* ===== verification/Stack_Holding.thy ===== *)
theory Stack_Holding
  imports Thread_Setxid Thread_Join Stack_Fork
begin

text \<open>
  What a call leaves of a stack that some other thread uses: \<open>holds q s t\<close> says that the stack of
  \<open>q\<close>, in use in \<open>s\<close>, is still in use in \<open>t\<close>, on the same block of memory. Every call keeps it, but
  the end and the joining of \<open>q\<close> itself and the reclaiming of stacks in the child of a \<open>fork\<close>.
\<close>

definition holds :: "u64 \<Rightarrow> nptl \<Rightarrow> nptl \<Rightarrow> bool" where
  "holds q s t \<longleftrightarrow> q \<in> set (stack_used t) \<and>
    pd_stackblock (pds t q) = pd_stackblock (pds s q) \<and>
    pd_stackblock_size (pds t q) = pd_stackblock_size (pds s q)"

lemma holds_trans: "holds q s t \<Longrightarrow> holds q t u \<Longrightarrow> holds q s u"
  by (simp add: holds_def)

lemma holds_same_pool: "same_pool s t \<Longrightarrow> q \<in> set (stack_used s) \<Longrightarrow> holds q s t"
  by (simp add: holds_def same_pool_def same_block_def)

lemma holds_same_pds: "pds t q = pds s q \<Longrightarrow> q \<in> set (stack_used t) \<Longrightarrow> holds q s t"
  by (simp add: holds_def)

text \<open>In a consistent pool a stack in use has its mapping and its TLS block.\<close>

lemma used_is_mapped:
  assumes "pool_inv s" "q \<in> set (stack_used s)"
  shows "maps s (pd_stackblock (pds s q)) = Some (pd_stackblock_size (pds s q))" "q \<in> tls_live s"
    "\<not> pd_user_stack (pds s q)"
  using assms by (auto simp: pool_inv_def sys_stacks_def block_ok_def Let_def)

subsection \<open>Allocation\<close>

lemma map_stack_holds:
  assumes inv: "pool_inv s" and env: "kernel_ok k s" and rs: "round_sizes k attr sz0 = Some (Inr (sz, g))"
    and r: "map_stack k exec1 exec2 sz g s = Some (r, s')" and q: "q \<in> set (stack_used s)"
  shows "pds s' q = pds s q"
proof -
  have k: "platform_ok k" "munmap_ok k" "mmap_ok k s" using env by (simp_all add: kernel_ok_def)
  have ne: "q \<noteq> place_descriptor k mem sz" if m: "sys_mmap k (maps s) sz = Inr mem" for mem
  proof -
    note n = mmap_okD [OF k(3) m]
    have b: "unat sz < 2 ^ 47" "unat mem + unat sz < 2 ^ 64" using n(1) by simp_all
    have "in_range mem sz (place_descriptor k mem sz)"
      by (rule place_descriptor_bounds(3) [OF k(1) b(2) round_sizes_room(2) [OF rs k(1) b(1)]])
    from not_on_lists(2) [OF inv this n(3,4)] q show ?thesis by blast
  qed
  from k(1,2) r show ?thesis
  proof (cases rule: map_stack_cases)
    case (later mem pd e)
    then show ?thesis using ne [OF later(2)] by simp
  next
    case (mapped mem pd)
    then show ?thesis using ne [OF mapped(2)] by simp
  next
    case (dangling mem pd e)
    then show ?thesis using ne [OF dangling(4)] by simp
  qed simp
qed

lemma obtain_block_holds:
  assumes inv: "pool_inv s" and env: "kernel_ok k s" and rs: "round_sizes k attr sz0 = Some (Inr (sz, g))"
    and r: "obtain_block k exec1 exec2 sz g s = Some (r, s')" and q: "q \<in> set (stack_used s)"
  shows "pds s' q = pds s q"
  using r
proof (cases rule: obtain_block_cases)
  case (cached pd)
  have "q \<noteq> pd" using best_fitD(1) [OF cached(2)] q inv by (auto simp: pool_inv_def)
  then show ?thesis unfolding cached(4) by (simp add: q)
next
  case (fresh t)
  have t: "pool_inv t" by (rule same_pool_inv [OF fresh(2) inv])
  have "kernel_ok k t = kernel_ok k s" using fresh(2) by (intro kernel_ok_cong) (simp_all add: same_pool_def)
  moreover have "q \<in> set (stack_used t)" using fresh(2) q by (simp add: same_pool_def)
  ultimately show ?thesis using map_stack_holds [OF t _ rs fresh(4)] env fresh(3) by simp
qed

lemma allocate_system_stack_holds:
  assumes inv: "pool_inv s" and env: "kernel_ok k s"
    and r: "allocate_system_stack k exec1 exec2 attr sz s = Some (r, s')" and q: "q \<in> set (stack_used s)"
  shows "pds s' q = pds s q"
  using r
proof (cases rule: allocate_system_stack_cases)
  case (block e sz g)
  then show ?thesis using obtain_block_holds [OF inv env _ _ q] by blast
next
  case (guard e sz g pd mem bs t)
  have mu: "munmap_ok k" using env by (simp add: kernel_ok_def)
  then have "pds s' = pds t" using guard(3)
    by (cases rule: resize_guard_cases) (auto simp: mprot_error_eq [OF mu] stack_list_del_def)
  then show ?thesis using obtain_block_holds [OF inv env guard(1,2) q] by simp
next
  case (ok sz g pd mem bs t)
  note o = obtain_block_spec [OF inv env ok(2)]
  have t: "pool_inv t" using obtain_block_inv [OF inv env ok(1,2)] by simp
  then have old: "pd_guardsize (pds t pd) \<le> bs"
    using o(1,3) by (auto simp: pool_inv_def sys_stacks_def guard_ok_def Let_def)
  have "q \<noteq> pd" using t o(5) q by (auto simp: pool_inv_def)
  moreover have "munmap_ok k" using env by (simp add: kernel_ok_def)
  ultimately have "pds s' q = pds t q"
    using resize_guard_spec(11) [OF _ ok(3) less_imp_le [OF round_sizes_bounds(5) [OF ok(1)]] o(4) old]
    by blast
  then show ?thesis using obtain_block_holds [OF inv env ok(1,2) q] by simp
qed simp

lemma allocate_stack_holds:
  assumes inv: "pool_inv s" and env: "kernel_ok k s" and usr: "user_stack_ok k attr s"
    and r: "allocate_stack k exec1 exec2 attr s = Some (r, s')" and q: "q \<in> set (stack_used s)"
  shows "holds q s s'" "r = Inr (pd, stktop) \<Longrightarrow> q \<noteq> pd"
proof -
  let ?s = "snd (stack_size_of attr s)"
  note same = stack_size_of_same [where attr = attr and s = s]
  have s: "pds ?s = pds s" "stack_used ?s = stack_used s"
    by (simp_all add: stack_size_of_def Let_def)
  have inv': "pool_inv ?s" by (rule same_pool_inv [OF same(1) inv])
  have env': "kernel_ok k ?s" using env kernel_ok_cong [OF same(2,3)] by simp
  have q': "q \<in> set (stack_used ?s)" using q s by simp
  have "holds q s s' \<and> (\<forall>pd st. r = Inr (pd, st) \<longrightarrow> q \<noteq> pd)"
    using r
  proof (cases rule: allocate_stack_cases)
    case (user x t)
    have ne: "q \<noteq> user_descriptor k attr" using usr user(1) q by (auto simp: user_stack_ok_def)
    from user(2) have "pds t q = pds s q \<and> stack_used t = stack_used s \<and>
        (\<forall>pd. x = Inr pd \<longrightarrow> pd = user_descriptor k attr)"
      by (cases rule: allocate_user_stack_cases) (use ne s in auto)
    then show ?thesis using user(3,4) ne q
      by (cases x) (auto simp: holds_def init_lock_and_robust_def)
  next
    case (system x t)
    have t: "pds t q = pds s q" using allocate_system_stack_holds [OF inv' env' system(2) q'] s by simp
    show ?thesis
    proof (cases x)
      case (Inl e)
      have r': "allocate_stack k exec1 exec2 attr s = Some (Inl e, s')" using r system(3) Inl by simp
      have "q \<in> set (stack_used s')"
        using allocate_error_lists [OF inv env system(1) r'] q by (auto simp: perm_dangles_def)
      then show ?thesis using t system(3,4) Inl by (simp add: holds_same_pds)
    next
      case (Inr pd)
      have r': "allocate_stack k exec1 exec2 attr s = Some (Inr (pd, stacktop_of k pd), s')"
        using r system(3) Inr by simp
      have u: "stack_used s' = pd # stack_used s" by (rule allocate_stack_grants(6) [OF inv env system(1) r'])
      have "pool_inv s'" using allocate_stack_inv [OF inv env _ r'] system(1) by simp
      then have "q \<noteq> pd" using u q by (auto simp: pool_inv_def)
      then show ?thesis using t u system(3,4) Inr q
        by (auto simp: init_lock_and_robust_def intro!: holds_same_pds)
    qed
  qed
  then show "holds q s s'" "r = Inr (pd, stktop) \<Longrightarrow> q \<noteq> pd" by blast+
qed

subsection \<open>Giving back\<close>

lemma deallocate_stack_holds:
  assumes "pool_inv s" "q \<in> set (stack_used s)" "q \<noteq> pd" "pd \<in> set (stack_used s) \<union> set (stack_user s)"
    and "deallocate_stack k pd s = Some t"
  shows "holds q s t"
proof (rule holds_same_pds)
  show "pds t q = pds s q" using deallocate_stack_outer [OF assms(5)] by (simp add: outer_frame_def)
  show "q \<in> set (stack_used t)"
  proof (cases "pd_user_stack (pds s pd)")
    case True
    then show ?thesis using assms(2,3,5)
      by (auto simp: deallocate_stack_eq dl_deallocate_tls_def stack_list_del_def in_set_remove1)
  next
    case n: False
    then have pd: "pd \<in> set (stack_used s)" using assms(1,4) by (auto simp: pool_inv_def)
    show ?thesis
    proof (cases "stack_cache_maxsize s < stack_cache_actsize s + pd_stackblock_size (pds s pd)")
      case False
      then show ?thesis using assms(2,3,5) n by (auto simp: deallocate_stack_eq in_set_remove1)
    next
      case True
      then obtain u where u: "free_stacks k (stack_cache_maxsize s) (queued pd (lock_cache s)) = Some u"
        "t = unlock_cache u" using assms(5) n by (auto simp: deallocate_stack_eq)
      have "pool_inv (lock_cache s)" using assms(1) by (rule same_pool_inv [OF same_pool_locks(1)])
      then have "pool_inv (queued pd (lock_cache s))"
        unfolding queued_def by (rule requeue_inv) (use pd in simp)
      from free_stacks_shape(2) [OF u(1) this] show ?thesis
        using assms(2,3) by (simp add: u(2) pool_frame_def in_set_remove1)
    qed
  qed
qed

lemma free_tcb_holds:
  assumes "pool_inv s" "q \<in> set (stack_used s)" "q \<noteq> pd" "pd \<in> set (stack_used s) \<union> set (stack_user s)"
    and "free_tcb k ops pd s = Some t"
  shows "holds q s t"
  using assms(5)
proof (cases rule: free_tcb_cases)
  case again
  then show ?thesis using assms(2) by (simp add: holds_def)
next
  case (free u)
  have "holds q u t"
    by (rule deallocate_stack_holds [OF same_pool_inv [OF free(2) assms(1)] _ assms(3) _ free(6)])
      (use assms(2,4) free(2) in \<open>simp_all add: same_pool_def\<close>)
  with holds_same_pool [OF free(2) assms(2)] show ?thesis by (rule holds_trans)
qed

subsection \<open>The calls\<close>

lemma pthread_create_holds:
  assumes inv: "pool_inv s" and ops: "ops_ok ops" and env: "kernel_ok k s"
    and usr: "\<And>a t. effective_attr ops attr s = (Inr a, t) \<Longrightarrow> user_stack_ok k a s"
    and r: "pthread_create_2_1 k ops exec1 exec2 self attr f x s = Some (r, p, s')"
    and q: "q \<in> set (stack_used s)"
  shows "holds q s s'"
proof -
  have start: "pool_inv t" "kernel_ok k t" "user_stack_ok k a t" "q \<in> set (stack_used t)" "holds q s t"
    if "effective_attr ops attr s = (Inr a, t)" for a t
  proof -
    note t = effective_attr_pool [OF ops that]
    show "pool_inv t" by (rule same_pool_inv [OF t inv])
    show "kernel_ok k t" using env kernel_ok_cong [of t s k] t by (simp add: same_pool_def)
    show "user_stack_ok k a t" using usr [OF that] t by (simp add: user_stack_ok_def same_pool_def)
    show "q \<in> set (stack_used t)" using q t by (simp add: same_pool_def)
    show "holds q s t" by (rule holds_same_pool [OF t q])
  qed
  have destroy: "holds q u (if b then attr_destroy a u else u)" if "holds q s u" for a b u
  proof -
    have "q \<in> set (stack_used u)" using that by (simp add: holds_def)
    then have "holds q u (attr_destroy a u)" "holds q u u"
      using holds_same_pool [OF attr_destroy_pool [OF same_pool_refl]] holds_same_pool [OF same_pool_refl] by blast+
    then show ?thesis by simp
  qed
  from r show ?thesis
  proof (cases rule: pthread_create_cases)
    case (default e)
    then show ?thesis using holds_same_pool [OF effective_attr_pool [OF ops default(1)] q] by simp
  next
    case (stack a e t u)
    note t = start [OF stack(1)]
    have "holds q s u" by (rule holds_trans [OF t(5) allocate_stack_holds(1) [OF t(1-3) stack(2) t(4)]])
    then show ?thesis unfolding stack(5) by (rule holds_trans) (rule destroy, fact)
  next
    case (launch a t pd stktop u v w)
    note t = start [OF launch(1)]
    have su: "holds q s u" by (rule holds_trans [OF t(5) allocate_stack_holds(1) [OF t(1-3) launch(2) t(4)]])
    have ne: "q \<noteq> pd" by (rule allocate_stack_holds(2) [OF t(1-3) launch(2) t(4) refl])
    have "ATTR_STACKADDR \<in> at_flags a \<longrightarrow>
        user_descriptor k a \<notin> set (stack_cache t) \<union> set (stack_used t) \<union> set (stack_user t)"
      using t(3) by (simp add: user_stack_ok_def)
    then have u: "pool_inv u" using allocate_stack_inv [OF t(1,2) _ launch(2)] by simp
    have pd: "pd \<in> set (stack_used u) \<union> set (stack_user u)"
      by (rule allocate_stack_on_lists [OF t(1,2) launch(2)])
    have uv: "same_pool u v" unfolding launch(3)
      by (rule same_pool_trans [OF init_tcb_pool init_sched_pool [OF ops]])
    have sv: "holds q s v"
      by (rule holds_trans [OF su holds_same_pool [OF uv]]) (use su in \<open>simp add: holds_def\<close>)
    have qv: "q \<in> set (stack_used v)" using sv by (simp add: holds_def)
    from launch(4) have "holds q v w"
    proof (cases rule: launch_thread_cases)
      case (refused e z)
      have z: "pool_inv z" by (rule same_pool_inv [OF refused(2) same_pool_inv [OF uv u]])
      have "holds q z w"
        by (rule deallocate_stack_holds [OF z _ ne _ refused(4)])
          (use pd qv uv refused(2) in \<open>simp_all add: same_pool_def\<close>)
      with holds_same_pool [OF refused(2) qv] show ?thesis by (rule holds_trans)
    next
      case (cancelled e)
      then show ?thesis using holds_same_pool qv by blast
    next
      case runs
      then show ?thesis using holds_same_pool qv by blast
    qed
    then have "holds q s w" by (rule holds_trans [OF sv])
    then show ?thesis unfolding launch(6) by (rule holds_trans) (rule destroy, fact)
  qed
qed

lemma start_thread_holds:
  assumes inv: "pool_inv s" and ops: "ops_ok ops" and ws: "\<forall>w \<in> set ws. pool_neutral w"
    and pd: "pd \<in> set (stack_used s) \<union> set (stack_user s)"
    and r: "start_thread k ops pd ws s = Some (e, s')" and q: "q \<in> set (stack_used s)" "q \<noteq> pd"
  shows "holds q s s'"
  using ops ws r
proof (cases rule: start_thread_cases)
  case (detached t)
  have "holds q t s'"
    by (rule free_tcb_holds [OF same_pool_inv [OF detached(2) inv] _ q(2) _ detached(4)])
      (use pd q detached(2) in \<open>simp_all add: same_pool_def\<close>)
  with holds_same_pool [OF detached(2) q(1)] show ?thesis by (rule holds_trans)
qed (use q holds_same_pool in blast)+

lemma clockjoin_holds:
  assumes inv: "pool_inv s" and evs: "events_ok evs"
    and pd: "pd \<in> set (stack_used s) \<union> set (stack_user s)"
    and r: "clockjoin_ex k ops jo spurious self pd tr abstime block evs s = Some (e, v, s')"
    and q: "q \<in> set (stack_used s)" "q \<noteq> pd"
  shows "holds q s s'"
  using evs r
proof (cases rule: clockjoin_cases)
  case (joined t)
  have t: "same_pool s (upd_pd pd (\<lambda>p. p\<lparr>pd_tid := - 1\<rparr>) t)"
    by (rule same_pool_trans [OF joined(2)]) (auto simp: same_block_def)
  have "holds q (upd_pd pd (\<lambda>p. p\<lparr>pd_tid := - 1\<rparr>) t) s'"
    by (rule free_tcb_holds [OF same_pool_inv [OF t inv] _ q(2) _ joined(5)])
      (use pd q t in \<open>simp_all add: same_pool_def\<close>)
  with holds_same_pool [OF t q(1)] show ?thesis by (rule holds_trans)
qed (use q holds_same_pool in blast)+

lemma make_stacks_executable_holds:
  assumes inv: "pool_inv s" and r: "make_stacks_executable k me s = (x, t)" and q: "q \<in> set (stack_used s)"
  shows "holds q s t"
proof (rule holds_same_pds)
  show "pds t q = pds s q" using make_stacks_executable_spec(2) [OF inv r] by simp
  have used: "stack_used v = stack_used u" if "change_stack_perms k ps u = (e, v)" for e v ps u
    using that
    by (induction k ps u rule: change_stack_perms.induct)
      (auto simp: change_stack_perm_def mprotect_def Let_def split: option.splits prod.splits)
  show "q \<in> set (stack_used t)"
    using r q by (auto simp: make_stacks_executable_def Let_def dest!: used split: if_splits prod.splits)
qed

lemma free_stacks_holds:
  assumes "pool_inv s" "free_stacks k limit s = Some t" "q \<in> set (stack_used s)"
  shows "holds q s t"
  using free_stacks_shape(2) [OF assms(2,1)] assms(3) by (simp add: pool_frame_def holds_def)

end
