(* ===== verification/Nptl_System.thy ===== *)
theory Nptl_System
  imports Stack_Holding
begin

text \<open>
  The thread library as a transition system: a step is one call of the library by some thread, in
  any order. \<open>nptl_step\<close> lists the calls with what each relies on (the kernel hands out
  memory that is free, user code leaves the lists of stacks alone, a call gets a descriptor that
  is in use). \<open>pool_breaks\<close> names the two events after which the pool is not consistent any more. The locale \<open>invariant_system\<close> carries an invariant along all runs; the locale
  \<open>block_store\<close> is the contract between the pool of stacks and its clients.
\<close>

subsection \<open>A store that hands out blocks\<close>

text \<open>
  \<open>held\<close> are the blocks handed out and not returned. Anything else that happens to the store is a
  pause. The client's lemma: along any run of calls the blocks handed out are different from each
  other, and exactly the ones the store knows.
\<close>

datatype 'b transfer = Takes 'b | Gives 'b | Pauses

fun outstanding :: "'b transfer list \<Rightarrow> 'b list \<Rightarrow> 'b list" where
  "outstanding [] bs = bs"
| "outstanding (Takes b # ts) bs = outstanding ts (b # bs)"
| "outstanding (Gives b # ts) bs = outstanding ts (remove1 b bs)"
| "outstanding (Pauses # ts) bs = outstanding ts bs"

fun store_run ::
    "('s \<Rightarrow> 'b \<Rightarrow> 's \<Rightarrow> bool) \<Rightarrow> ('s \<Rightarrow> 'b \<Rightarrow> 's \<Rightarrow> bool) \<Rightarrow> ('s \<Rightarrow> 's \<Rightarrow> bool) \<Rightarrow>
      'b transfer list \<Rightarrow> 's list \<Rightarrow> 's \<Rightarrow> 's \<Rightarrow> bool" where
  "store_run acq rel idle [] [] s t \<longleftrightarrow> s = t"
| "store_run acq rel idle (Takes b # ts) (u # us) s t \<longleftrightarrow> acq s b u \<and> store_run acq rel idle ts us u t"
| "store_run acq rel idle (Gives b # ts) (u # us) s t \<longleftrightarrow> rel s b u \<and> store_run acq rel idle ts us u t"
| "store_run acq rel idle (Pauses # ts) (u # us) s t \<longleftrightarrow> idle s u \<and> store_run acq rel idle ts us u t"
| "store_run acq rel idle _ _ s t \<longleftrightarrow> False"

locale block_store =
  fixes ok :: "'s \<Rightarrow> bool" and held :: "'s \<Rightarrow> 'b set"
    and acquire :: "'s \<Rightarrow> 'b \<Rightarrow> 's \<Rightarrow> bool" and release :: "'s \<Rightarrow> 'b \<Rightarrow> 's \<Rightarrow> bool"
    and pause :: "'s \<Rightarrow> 's \<Rightarrow> bool"
  assumes acquire_fresh: "ok s \<Longrightarrow> acquire s b t \<Longrightarrow> b \<notin> held s"
    and acquire_held: "ok s \<Longrightarrow> acquire s b t \<Longrightarrow> held t = insert b (held s)"
    and acquire_ok: "ok s \<Longrightarrow> acquire s b t \<Longrightarrow> ok t"
    and release_held: "ok s \<Longrightarrow> release s b t \<Longrightarrow> held t = held s - {b}"
    and release_ok: "ok s \<Longrightarrow> release s b t \<Longrightarrow> ok t"
    and pause_held: "ok s \<Longrightarrow> pause s t \<Longrightarrow> held t = held s"
    and pause_ok: "ok s \<Longrightarrow> pause s t \<Longrightarrow> ok t"
begin

lemma run_distinct:
  assumes "store_run acquire release pause ts us s t" "ok s" "distinct bs" "set bs = held s"
  shows "distinct (outstanding ts bs) \<and> set (outstanding ts bs) = held t \<and> ok t"
  using assms
proof (induction ts arbitrary: us s bs)
  case Nil
  then show ?case by (cases us) auto
next
  case (Cons x ts)
  then obtain u us' where us: "us = u # us'" by (cases us) (cases x, auto)+
  show ?case
  proof (cases x)
    case (Takes b)
    have "distinct (outstanding ts (b # bs)) \<and> set (outstanding ts (b # bs)) = held t \<and> ok t"
      by (rule Cons.IH [where us = us' and s = u])
        (use Cons us Takes acquire_fresh acquire_held acquire_ok in auto)
    then show ?thesis using Takes by simp
  next
    case (Gives b)
    have "distinct (outstanding ts (remove1 b bs)) \<and>
      set (outstanding ts (remove1 b bs)) = held t \<and> ok t"
      by (rule Cons.IH [where us = us' and s = u])
        (use Cons us Gives release_held release_ok in auto)
    then show ?thesis using Gives by simp
  next
    case Pauses
    have "distinct (outstanding ts bs) \<and> set (outstanding ts bs) = held t \<and> ok t"
      by (rule Cons.IH [where us = us' and s = u])
        (use Cons us Pauses pause_held pause_ok in auto)
    then show ?thesis using Pauses by simp
  qed
qed

end

subsection \<open>The pool of stacks as a store\<close>

text \<open>
  The stacks of the system that are in use: \<open>allocate_stack\<close>, with whatever attributes and whatever
  the loader does to the permissions meanwhile, hands one out unless the thread brings a stack of its
  own; \<open>__deallocate_stack\<close> takes it back. In between allocations may fail, stacks of users may
  come, the cache may be emptied, and the threads and the kernel may do what leaves the pool alone,
  such as clearing the thread ID of a stack in the cache.
\<close>

definition take_stack :: "kern \<Rightarrow> nptl \<Rightarrow> u64 \<Rightarrow> nptl \<Rightarrow> bool" where
  "take_stack k s pd t \<longleftrightarrow> kernel_ok k s \<and>
    (\<exists>attr exec1 exec2. ATTR_STACKADDR \<notin> at_flags attr \<and>
      allocate_stack k exec1 exec2 attr s = Some (Inr (pd, stacktop_of k pd), t))"

definition give_stack :: "kern \<Rightarrow> nptl \<Rightarrow> u64 \<Rightarrow> nptl \<Rightarrow> bool" where
  "give_stack k s pd t \<longleftrightarrow> pd \<in> set (stack_used s) \<and> deallocate_stack k pd s = Some t"

definition idle_stacks :: "kern \<Rightarrow> nptl \<Rightarrow> nptl \<Rightarrow> bool" where
  "idle_stacks k s t \<longleftrightarrow>
    (kernel_ok k s \<and> \<not> perm_dangles k s t \<and>
      (\<exists>attr exec1 exec2 e. ATTR_STACKADDR \<notin> at_flags attr \<and>
        allocate_stack k exec1 exec2 attr s = Some (Inl e, t))) \<or>
    (\<exists>attr exec1 exec2 r. ATTR_STACKADDR \<in> at_flags attr \<and> user_stack_ok k attr s \<and> kernel_ok k s \<and>
      allocate_stack k exec1 exec2 attr s = Some (r, t)) \<or>
    (\<exists>limit. free_stacks k limit s = Some t) \<or> same_pool s t"

lemma take_stack_used:
  assumes "pool_inv s" "take_stack k s pd t"
  shows "stack_used t = pd # stack_used s" "pool_inv t"
proof -
  obtain attr x1 x2 where r: "kernel_ok k s" "ATTR_STACKADDR \<notin> at_flags attr"
    "allocate_stack k x1 x2 attr s = Some (Inr (pd, stacktop_of k pd), t)"
    using assms(2) by (auto simp: take_stack_def)
  show "stack_used t = pd # stack_used s" using allocate_stack_grants(6) [OF assms(1) r] .
  show "pool_inv t" using allocate_stack_inv [OF assms(1) r(1) _ r(3)] r(2) by simp
qed

lemma user_stack_used:
  assumes "ATTR_STACKADDR \<in> at_flags attr" "allocate_stack k x1 x2 attr s = Some (r, t)"
  shows "stack_used t = stack_used s"
  using assms(2)
proof (cases rule: allocate_stack_cases)
  case (user q u)
  from user(2) have "stack_used u = stack_used s"
    by (cases rule: allocate_user_stack_cases) (simp_all add: stack_size_of_def Let_def)
  then show ?thesis using user(4) by (cases q) (simp_all add: init_lock_and_robust_def)
qed (use assms in simp)

lemma idle_stacks_used:
  assumes inv: "pool_inv s" and i: "idle_stacks k s t"
  shows "set (stack_used t) = set (stack_used s)" "pool_inv t"
proof -
  have "set (stack_used t) = set (stack_used s) \<and> pool_inv t"
    using i [unfolded idle_stacks_def]
  proof (elim disjE exE conjE)
    fix attr x1 x2 e
    assume k: "kernel_ok k s" and d: "\<not> perm_dangles k s t"
      and a: "ATTR_STACKADDR \<notin> at_flags attr" "allocate_stack k x1 x2 attr s = Some (Inl e, t)"
    show ?thesis using allocate_error_lists [OF inv k a] allocate_stack_inv [OF inv k _ a(2)] a(1) d by auto
  next
    fix attr x1 x2 r
    assume a: "ATTR_STACKADDR \<in> at_flags attr" "user_stack_ok k attr s" "kernel_ok k s"
      "allocate_stack k x1 x2 attr s = Some (r, t)"
    have n: "\<not> perm_dangles k s t"
      using user_stack_used [OF a(1,4)] by (auto simp: perm_dangles_def)
    show ?thesis
      using allocate_stack_inv [OF inv a(3) _ a(4)] a(2) n user_stack_used [OF a(1,4)]
      by (auto simp: user_stack_ok_def)
  next
    fix limit
    assume f: "free_stacks k limit s = Some t"
    show ?thesis using free_stacks_inv [OF f inv] free_stacks_shape(2) [OF f inv] by (simp add: pool_frame_def)
  next
    assume "same_pool s t"
    then show ?thesis using same_pool_inv [OF _ inv] by (simp add: same_pool_def)
  qed
  then show "set (stack_used t) = set (stack_used s)" "pool_inv t" by simp_all
qed

lemma give_stack_used:
  assumes "pool_inv s" "give_stack k s pd t"
  shows "stack_used t = remove1 pd (stack_used s)" "pool_inv t"
proof -
  note g = assms(2) [unfolded give_stack_def]
  show inv: "pool_inv t" using deallocate_stack_inv [OF assms(1)] g by blast
  have n: "\<not> pd_user_stack (pds s pd)"
    using assms(1) g by (auto simp: pool_inv_def sys_stacks_def block_ok_def Let_def)
  show "stack_used t = remove1 pd (stack_used s)"
  proof (cases "stack_cache_maxsize s < stack_cache_actsize s + pd_stackblock_size (pds s pd)")
    case False
    then show ?thesis using g n by (auto simp: deallocate_stack_eq)
  next
    case True
    then obtain u where u: "free_stacks k (stack_cache_maxsize s) (queued pd (lock_cache s)) = Some u"
      "t = unlock_cache u" using g n by (auto simp: deallocate_stack_eq)
    have "pool_inv (lock_cache s)" using assms(1) by (rule same_pool_inv [OF same_pool_locks(1)])
    then have "pool_inv (queued pd (lock_cache s))"
      unfolding queued_def by (rule requeue_inv) (use g in simp)
    from free_stacks_shape(2) [OF u(1) this] show ?thesis by (simp add: u(2) pool_frame_def)
  qed
qed

interpretation stacks: block_store pool_inv "\<lambda>s. set (stack_used s)" "take_stack k" "give_stack k"
    "idle_stacks k"
  for k
proof unfold_locales
  fix s b t
  assume inv: "pool_inv s" and r: "take_stack k s b t"
  note t = take_stack_used [OF inv r]
  show "pool_inv t" by (rule t(2))
  show "b \<notin> set (stack_used s)" using t by (simp add: pool_inv_def)
  show "set (stack_used t) = insert b (set (stack_used s))" using t(1) by simp
next
  fix s b t
  assume inv: "pool_inv s" and r: "give_stack k s b t"
  note t = give_stack_used [OF inv r]
  show "pool_inv t" by (rule t(2))
  show "set (stack_used t) = set (stack_used s) - {b}" using t(1) inv by (simp add: pool_inv_def)
next
  fix s t
  assume inv: "pool_inv s" and r: "idle_stacks k s t"
  show "set (stack_used t) = set (stack_used s)" "pool_inv t" by (fact idle_stacks_used [OF inv r])+
qed

subsection \<open>The calls of the library as steps\<close>

text \<open>
  The calls of a process whose threads run \<open>ops\<close>. What the threads do between the calls is the
  step \<open>other\<close>: it leaves the pool alone. A step carries the name of its call, with the
  descriptor it is about.
\<close>

datatype nptl_call =
    Call_create | Call_run u64 | Call_exited u64 | Call_join u64 | Call_cancel | Call_setxid
  | Call_executable | Call_freeres | Call_fork | Call_other

inductive nptl_step :: "kern \<Rightarrow> thread_ops \<Rightarrow> join_ops \<Rightarrow> nptl_call \<Rightarrow> nptl \<Rightarrow> nptl \<Rightarrow> bool"
  for k ops jo where
  create: "nptl_step k ops jo Call_create s t"
    if "kernel_ok k s"
      "\<And>a u. effective_attr ops attr s = (Inr a, u) \<Longrightarrow> user_stack_ok k a s"
      "pthread_create_2_1 k ops exec1 exec2 self attr f x s = Some (r, p, t)"
| run: "nptl_step k ops jo (Call_run pd) s t"
    if "pd \<in> set (stack_used s) \<union> set (stack_user s)" "\<forall>w \<in> set ws. pool_neutral w"
      "start_thread k ops pd ws s = Some (e, t)"
| exited: "nptl_step k ops jo (Call_exited pd) s (kernel_clears_tid pd s)"
| join: "nptl_step k ops jo (Call_join pd) s t"
    if "pd \<in> set (stack_used s) \<union> set (stack_user s)" "events_ok evs"
      "clockjoin_ex k ops jo spurious self pd tr abstime block evs s = Some (e, v, t)"
| cancel: "nptl_step k ops jo Call_cancel s (snd (cancel_loop jo self pd ws s))"
    if "\<forall>w \<in> set ws. pool_neutral w"
| setxid: "nptl_step k ops jo Call_setxid s t"
    if "steps_ok ws" "nptl_setxid kill self ws syscall c s = Some (res, c', t)"
| make_executable: "nptl_step k ops jo Call_executable s t"
    if "make_stacks_executable k me s = (x, t)"
| freeres: "nptl_step k ops jo Call_freeres s t"
    if "nptl_stacks_freeres k s = Some t"
| forked: "nptl_step k ops jo Call_fork s (reclaim_stacks k self s)"
    if "self \<in> set (stack_used s) \<union> set (stack_user s)"
| other: "nptl_step k ops jo Call_other s t"
    if "same_pool s t"

text \<open>
  The two events that break the pool. A creation whose repair of the permissions fails leaves a
  descriptor in memory that is unmapped (\<open>perm_dangles\<close>). The child of a \<open>fork\<close> forgets the
  stacks that other threads had got from their users, but not the TLS blocks of these threads.
\<close>

definition pool_breaks :: "kern \<Rightarrow> nptl_call \<Rightarrow> nptl \<Rightarrow> nptl \<Rightarrow> bool" where
  "pool_breaks k c s t \<longleftrightarrow> c = Call_create \<and> perm_dangles k s t \<or>
    c = Call_fork \<and>
      (\<exists>q \<in> set (stack_user s). q \<in> tls_live t \<and> q \<notin> set (sys_stacks t) \<union> set (stack_user t))"

lemma pool_breaks_not_inv: "pool_breaks k c s t \<Longrightarrow> \<not> pool_inv t"
  using perm_dangles_not_inv by (auto simp: pool_breaks_def pool_inv_def sys_stacks_def)

lemma reclaim_forgets_user_stacks:
  assumes "pool_inv s" "self \<in> set (stack_used s) \<union> set (stack_user s)" "q \<in> set (stack_user s)" "q \<noteq> self"
  shows "q \<in> tls_live (reclaim_stacks k self s)"
    "q \<notin> set (sys_stacks (reclaim_stacks k self s)) \<union> set (stack_user (reclaim_stacks k self s))"
  using assms
  by (auto simp: reclaim_stacks_sel pool_inv_def sys_stacks_def dest: notin_set_remove1 in_set_remove1 [THEN iffD1]
      split: if_splits)

lemma nptl_step_inv:
  assumes "nptl_step k ops jo c s t" "pool_inv s" "ops_ok ops"
  shows "pool_inv t \<or> pool_breaks k c s t"
  using assms(1)
proof (cases rule: nptl_step.cases)
  case (create attr exec1 exec2 self f x r p)
  then show ?thesis using pthread_create_inv assms(2,3) unfolding pool_breaks_def by blast
next
  case (run pd ws e)
  then show ?thesis using start_thread_keeps_inv assms(2,3) by blast
next
  case (exited pd)
  then show ?thesis using assms(2)
    by (auto simp: kernel_clears_tid_def same_pool_def same_block_def intro!: same_pool_inv [where s = s])
next
  case (join pd evs spurious self tr abstime block e v)
  then show ?thesis using clockjoin_keeps_inv assms(2) by blast
next
  case (cancel ws self pd)
  then show ?thesis using cancel_loop_pool same_pool_inv assms(2) by blast
next
  case (setxid ws kill self syscall c res c')
  then show ?thesis using nptl_setxid_spec(1) same_pool_inv assms(2) by blast
next
  case (make_executable me x)
  then show ?thesis using make_stacks_executable_spec(1) assms(2) by blast
next
  case freeres
  then show ?thesis using free_stacks_inv assms(2) unfolding nptl_stacks_freeres_def by blast
next
  case (forked self)
  show ?thesis
  proof (cases "set (stack_user s) \<subseteq> {self}")
    case True
    then show ?thesis using reclaim_stacks_keeps_inv assms(2) forked by blast
  next
    case False
    then show ?thesis using reclaim_forgets_user_stacks [OF assms(2) forked(3)] forked(1,2)
      unfolding pool_breaks_def by blast
  qed
next
  case other
  then show ?thesis using same_pool_inv assms(2) by blast
qed

abbreviation sound_run :: "kern \<Rightarrow> thread_ops \<Rightarrow> join_ops \<Rightarrow> nptl \<Rightarrow> nptl \<Rightarrow> bool" where
  "sound_run k ops jo \<equiv> rtranclp (\<lambda>s t. \<exists>c. nptl_step k ops jo c s t \<and> \<not> pool_breaks k c s t)"

interpretation pool: invariant_system
    "\<lambda>s t. (\<exists>c. nptl_step k ops jo c s t \<and> \<not> pool_breaks k c s t) \<and> ops_ok ops" pool_inv
  for k ops jo
  by unfold_locales (blast dest: nptl_step_inv)

lemma sound_run_inv:
  assumes "sound_run k ops jo s t" "pool_inv s" "ops_ok ops"
  shows "pool_inv t"
proof (rule pool.reaches_inv)
  show "rtranclp (\<lambda>s t. (\<exists>c. nptl_step k ops jo c s t \<and> \<not> pool_breaks k c s t) \<and> ops_ok ops) s t"
    using assms(1,3) by simp
qed (rule assms(2))

subsection \<open>A stack in use along a run\<close>

lemma nptl_step_holds:
  assumes "nptl_step k ops jo c s t" "pool_inv s" "ops_ok ops" "q \<in> set (stack_used s)"
    and "c \<noteq> Call_run q" "c \<noteq> Call_join q" "c \<noteq> Call_fork"
  shows "holds q s t"
  using assms(1)
proof (cases rule: nptl_step.cases)
  case (create attr exec1 exec2 self f x r p)
  then show ?thesis using pthread_create_holds assms(2-4) by blast
next
  case (run pd ws e)
  then show ?thesis using start_thread_holds [OF assms(2,3)] assms(4,5) by blast
next
  case (exited pd)
  have "same_pool s t" using exited by (simp add: kernel_clears_tid_def same_pool_def same_block_def)
  then show ?thesis using holds_same_pool assms(4) by blast
next
  case (join pd evs spurious self tr abstime block e v)
  then show ?thesis using clockjoin_holds [OF assms(2)] assms(4,6) by blast
next
  case (cancel ws self pd)
  then show ?thesis using cancel_loop_pool holds_same_pool assms(4) by blast
next
  case (setxid ws kill self syscall c res c')
  then show ?thesis using nptl_setxid_spec(1) holds_same_pool assms(4) by blast
next
  case (make_executable me x)
  then show ?thesis using make_stacks_executable_holds assms(2,4) by blast
next
  case freeres
  then show ?thesis using free_stacks_holds assms(2,4) unfolding nptl_stacks_freeres_def by blast
next
  case forked
  then show ?thesis using assms(7) by simp
next
  case other
  then show ?thesis using holds_same_pool assms(4) by blast
qed

text \<open>
  The steps of a process that spare \<open>q\<close>: they are not the run or the joining of \<open>q\<close>, the process is not
  the child of a \<open>fork\<close>, and the pool is not broken.
\<close>

definition spares :: "kern \<Rightarrow> thread_ops \<Rightarrow> join_ops \<Rightarrow> u64 \<Rightarrow> nptl \<Rightarrow> nptl \<Rightarrow> bool" where
  "spares k ops jo q s t \<longleftrightarrow> (\<exists>c. nptl_step k ops jo c s t \<and>
    c \<notin> {Call_run q, Call_join q, Call_fork} \<and> \<not> pool_breaks k c s t)"

lemma spares_holds:
  assumes "rtranclp (spares k ops jo q) s t" "pool_inv s" "ops_ok ops" "q \<in> set (stack_used s)"
  shows "pool_inv t \<and> holds q s t"
  using assms(1)
proof (induction rule: rtranclp_induct)
  case base
  then show ?case using assms by (simp add: holds_def)
next
  case (step u v)
  then have u: "pool_inv u" "q \<in> set (stack_used u)" "holds q s u" by (simp_all add: holds_def)
  obtain c where c: "nptl_step k ops jo c u v" "c \<noteq> Call_run q" "c \<noteq> Call_join q" "c \<noteq> Call_fork"
    "\<not> pool_breaks k c u v" using step.hyps(2) by (auto simp: spares_def)
  have "holds q u v" by (rule nptl_step_holds [OF c(1) u(1) assms(3) u(2) c(2-4)])
  then show ?case using holds_trans [OF u(3)] nptl_step_inv [OF c(1) u(1) assms(3)] c(5) by blast
qed

end
