(* ===== verification/Nptl_Examples.thy ===== *)
theory Nptl_Examples
  imports Nptl_System
begin

text \<open>
  A concrete platform, a concrete process and concrete user code, on which the properties of the
  thread library are instantiated. The kernel hands out one region of memory, at \<open>0x10000000\<close>.
\<close>

definition ex_kern :: kern where
  "ex_kern = \<lparr>pagesize_m1 = 0xFFF, static_tls_size = 0x1000, static_tls_align_m1 = 0x3F,
     tls_tcb_size = 0x900, sizeof_pthread = 0x900, multi_page_aliasing = 0,
     pthread_stack_min = 0x4000, tcb_alignment = 64, stack_align = 16,
     specific_1stblock_off = 0x310, sizeof_attr_ext = 64, key_1stlevel_size = 2,
     key_2ndlevel_size = 2, destructor_iterations = 4,
     sys_mmap = (\<lambda>m sz. if m 0x10000000 = None \<and> sz \<le> 0x40000000 then Inr 0x10000000 else Inl ENOMEM),
     sys_munmap = (\<lambda>b l. None), sys_mprotect = (\<lambda>b l p. None),
     dl_allocate_tls = (\<lambda>pd. Inr [0, 0]), dl_allocate_tls_init = (\<lambda>d. d),
     sys_malloc = (\<lambda>live n. find (\<lambda>p. p \<notin> live) [0x5000, 0x6000, 0x7000, 0x8000]),
     sys_realloc = (\<lambda>live p n. find (\<lambda>p. p \<notin> live) [0x5000, 0x6000, 0x7000, 0x8000])\<rparr>"

lemma ex_kern_sel [simp]:
  "sys_munmap ex_kern b l = None" "sys_mprotect ex_kern b l p = None"
  "key_1stlevel_size ex_kern = 2" "key_2ndlevel_size ex_kern = 2"
  by (simp_all add: ex_kern_def)

lemma ex_malloc_ok: "malloc_ok ex_kern"
  by (auto simp: malloc_ok_def ex_kern_def find_Some_iff split: if_splits)

definition ex_attr :: pthread_attr where
  "ex_attr = \<lparr>at_schedparam = 0, at_schedpolicy = 0, at_flags = {}, at_guardsize = 0x1000,
     at_stackaddr = 0, at_stacksize = 0x100000, at_extension = None\<rparr>"

lemma ex_attr_sel [simp]:
  "at_flags ex_attr = {}" "at_extension ex_attr = None" "at_guardsize ex_attr = 0x1000"
  "at_stacksize ex_attr = 0x100000"
  by (simp_all add: ex_attr_def)

text \<open>The process before its first thread is created.\<close>

definition ex_start :: nptl where
  "ex_start = \<lparr>pds = (\<lambda>_. zero_pthread), stack_cache = [], stack_used = [], stack_user = [],
     stack_cache_actsize = 0, stack_cache_maxsize = 0x2800000, in_flight_stack = 0,
     stack_cache_lock = False, default_attr_lock = False, default_stacksize = 0x800000,
     nptl_nthreads = 1, nptl_last_event = 0, threads_events = {}, libc_single_threaded = False,
     maps = Map.empty, prots = (\<lambda>_. PROT_NONE), tls_live = {}, mallocs = {},
     pthread_keys = (\<lambda>_. \<lparr>ks_seq = 0, ks_destr = 0\<rparr>),
     key_data_at = (\<lambda>_ _. zero_key_data), bytes_at = (\<lambda>_. []), futex_wakes = [],
     self_sigmask = {}, tgkills = []\<rparr>"

definition ex_ops :: thread_ops where
  "ex_ops = \<lparr>op_getattr_default = (\<lambda>s. (Inr ex_attr, s)), op_clone = (\<lambda>pd stktop s. Inr 4711),
     op_setaffinity = (\<lambda>_ _ _. None), op_setscheduler = (\<lambda>_ _ _. None),
     op_default_sched = (\<lambda>p. p), op_sigcancel = 32, op_run = (\<lambda>f a s. (Some 42, s)),
     op_tls_dtors = (\<lambda>s. s), op_destr = (\<lambda>f d s. s), op_freeres = (\<lambda>s. s),
     op_sp = 0x10100000, op_debugging = False\<rparr>"

definition ex_join :: join_ops where
  "ex_join = \<lparr>jo_invalid_not_terminated = (\<lambda>p. pd_tid p < 0), jo_invalid = (\<lambda>p. pd_tid p \<le> 0),
     jo_enabled_and_canceled = (\<lambda>c. CANCELED \<in> c), jo_enabled_canceled_async = (\<lambda>c. False),
     jo_valid_nanoseconds = (\<lambda>n. 0 \<le> n \<and> n < 1000000000), jo_tgkill = (\<lambda>_. None),
     jo_joinid_off = 0x60\<rparr>"

lemma ex_start_inv: "pool_inv ex_start"
  by (simp add: ex_start_def pool_inv_def sys_stacks_def maps_disjoint_def)

lemma ex_ops_ok: "ops_ok ex_ops"
  by (simp add: ops_ok_def ex_ops_def pool_neutral_def keeps_pool_def same_block_def)

lemma ex_env: "maps s = Map.empty \<Longrightarrow> stack_user s = [] \<Longrightarrow> alloc_env_ok ex_kern False False s"
  by (auto simp: alloc_env_ok_def kernel_ok_def platform_ok_def munmap_ok_def race_ok_def mmap_ok_def ex_kern_def
      low_mask_def word_le_nat_alt split: if_splits)

text \<open>The stack of the first thread.\<close>

definition ex_pd :: u64 where
  "ex_pd = 0x10100700"

definition ex_allocated :: nptl where
  "ex_allocated = snd (the (allocate_stack ex_kern False False ex_attr ex_start))"

lemma ex_allocate_result:
  "map_option fst (allocate_stack ex_kern False False ex_attr ex_start) =
    Some (Inr (ex_pd, stacktop_of ex_kern ex_pd))"
  by code_simp

lemma ex_allocate: "allocate_stack ex_kern False False ex_attr ex_start =
    Some (Inr (ex_pd, stacktop_of ex_kern ex_pd), ex_allocated)"
  using ex_allocate_result by (auto simp: ex_allocated_def)

lemma ex_allocated_sel [simp]:
  "stack_used ex_allocated = [ex_pd]" "stack_user ex_allocated = []"
  "stack_cache ex_allocated = []" "stack_cache_actsize ex_allocated = 0"
  "stack_cache_maxsize ex_allocated = 0x2800000" "nptl_nthreads ex_allocated = 1"
  "maps ex_allocated 0x10000000 = Some 0x101000" "tgkills ex_allocated = []" "mallocs ex_allocated = {}"
  "self_sigmask ex_allocated = {}"
  by code_simp+

lemma ex_allocated_pd [simp]:
  "pd_stackblock (pds ex_allocated ex_pd) = 0x10000000"
  "pd_stackblock_size (pds ex_allocated ex_pd) = 0x101000"
  "pd_guardsize (pds ex_allocated ex_pd) = 0x1000"
  "pd_cancelhandling (pds ex_allocated ex_pd) = {}"
  "\<not> pd_user_stack (pds ex_allocated ex_pd)" "pd_tpp (pds ex_allocated ex_pd) = 0"
  "pd_setxid_futex (pds ex_allocated ex_pd) = - 1"
  "\<not> pd_specific_used (pds ex_allocated ex_pd)" "pd_tid (pds ex_allocated ex_pd) = 0"
  "\<not> pd_report_events (pds ex_allocated ex_pd)"
  "\<not> pd_report_events (pds ex_allocated 0x1000)" "pd_joinid (pds ex_allocated 0x1000) = 0"
  "pd_flags (pds ex_allocated 0x1000) = {}"
  by code_simp+

lemma ex_pd_ne [simp]: "ex_pd \<noteq> 0x1000" "ex_pd \<noteq> 0"
  by (simp_all add: ex_pd_def)

lemma ex_start_env: "alloc_env_ok ex_kern False False ex_start"
  by (rule ex_env) (simp_all add: ex_start_def)

lemma ex_start_kernel: "kernel_ok ex_kern ex_start"
  by (rule alloc_env_kernel [OF ex_start_env])

lemma ex_take: "take_stack ex_kern ex_start ex_pd ex_allocated"
  unfolding take_stack_def
  by (intro conjI ex_start_kernel exI [of _ ex_attr] exI [of _ False]) (simp_all add: ex_allocate)

text \<open>The stack goes back and is taken again, by an allocation that asks for half of it.\<close>

definition ex_back :: nptl where
  "ex_back = unlock_cache (queued ex_pd (lock_cache ex_allocated))"

definition ex_small :: pthread_attr where
  "ex_small = ex_attr\<lparr>at_stacksize := 0x80000\<rparr>"

definition ex_again :: nptl where
  "ex_again = snd (the (allocate_stack ex_kern False True ex_small ex_back))"

lemma ex_give: "give_stack ex_kern ex_allocated ex_pd ex_back"
  by (simp add: give_stack_def ex_back_def deallocate_stack_cached)

lemma ex_again_result: "map_option fst (allocate_stack ex_kern False True ex_small ex_back) =
    Some (Inr (ex_pd, stacktop_of ex_kern ex_pd))"
  by code_simp

lemma ex_take_again: "take_stack ex_kern ex_back ex_pd ex_again"
proof -
  have a: "allocate_stack ex_kern False True ex_small ex_back = Some (Inr (ex_pd, stacktop_of ex_kern ex_pd), ex_again)"
    using ex_again_result by (auto simp: ex_again_def)
  have "maps ex_back 0x10000000 = Some 0x101000" by (simp add: ex_back_def)
  then have "kernel_ok ex_kern ex_back"
    using ex_start_kernel by (auto simp: kernel_ok_def mmap_ok_def ex_kern_def split: if_splits)
  then show ?thesis using a unfolding take_stack_def
    by (intro conjI exI [of _ ex_small] exI [of _ False] exI [of _ True]) (simp_all add: ex_small_def)
qed

lemma ex_unthreaded: "ex_start\<lparr>libc_single_threaded := False\<rparr> = ex_start"
  by (simp add: ex_start_def)

text \<open>One thread has been created.\<close>

definition ex_created :: "(errno option \<times> u64 option \<times> nptl) option" where
  "ex_created = pthread_create_2_1 ex_kern ex_ops False False 0x1000 (ATTR_USER ex_attr) 7 8 ex_start"

definition ex_one :: nptl where
  "ex_one = snd (snd (the ex_created))"

lemmas ex_create_simps = ex_created_def pthread_create_2_1_def ex_unthreaded ex_allocate
  init_sched_def init_tcb_def Let_def launch_thread_def create_thread_def ex_ops_def init_sigmask_def
  report_thread_creation_def set_attributes_def

lemma ex_create: "pthread_create_2_1 ex_kern ex_ops False False 0x1000 (ATTR_USER ex_attr) 7 8 ex_start =
    Some (None, Some ex_pd, ex_one)"
  by (simp add: ex_one_def ex_create_simps)

lemma ex_one_sel [simp]:
  "stack_used ex_one = [ex_pd]" "stack_user ex_one = []" "stack_cache ex_one = []"
  "stack_cache_actsize ex_one = 0" "stack_cache_maxsize ex_one = 0x2800000"
  "nptl_nthreads ex_one = 2" "tgkills ex_one = []" "mallocs ex_one = {}" "maps ex_one 0x10000000 = Some 0x101000"
  by (simp_all add: ex_one_def ex_create_simps)

lemma ex_one_pd [simp]:
  "pd_tid (pds ex_one ex_pd) = 4711" "pd_joinid (pds ex_one ex_pd) = 0"
  "pd_stackblock (pds ex_one ex_pd) = 0x10000000"
  "pd_stackblock_size (pds ex_one ex_pd) = 0x101000"
  "pd_cancelhandling (pds ex_one ex_pd) = {}" "\<not> pd_user_stack (pds ex_one ex_pd)"
  "pd_tpp (pds ex_one ex_pd) = 0" "\<not> pd_specific_used (pds ex_one ex_pd)"
  "\<not> pd_stopped_start (pds ex_one ex_pd)" "pd_setxid_futex (pds ex_one ex_pd) = - 1"
  "\<not> pd_report_events (pds ex_one ex_pd)" "pd_start_routine (pds ex_one ex_pd) = 7"
  "pd_joinid (pds ex_one 0x1000) = 0" "pd_flags (pds ex_one ex_pd) = {}"
  by (simp_all add: ex_one_def ex_create_simps)

lemma ex_create_step: "nptl_step ex_kern ex_ops ex_join Call_create ex_start ex_one"
  by (rule nptl_step.create [OF ex_start_kernel _ ex_create])
    (simp add: effective_attr_def user_stack_ok_def ex_attr_def)

lemma ex_no_break: "stack_user s = [] \<Longrightarrow> \<not> pool_breaks ex_kern c s t"
  by (simp add: pool_breaks_def perm_dangles_def)

lemma ex_start_sel [simp]: "stack_user ex_start = []" "stack_used ex_start = []" "stack_cache ex_start = []"
  by (simp_all add: ex_start_def)

lemma ex_one_inv: "pool_inv ex_one"
  using nptl_step_inv [OF ex_create_step ex_start_inv ex_ops_ok] ex_no_break by simp

text \<open>The thread has ended, and its stack has been returned.\<close>

definition ex_exited :: nptl where
  "ex_exited = kernel_clears_tid ex_pd ex_one"

lemma ex_exited_step: "nptl_step ex_kern ex_ops ex_join (Call_exited ex_pd) ex_one ex_exited"
  unfolding ex_exited_def by (rule nptl_step.exited)

lemma ex_exited_inv: "pool_inv ex_exited"
  using nptl_step_inv [OF ex_exited_step ex_one_inv ex_ops_ok] ex_no_break by simp

lemma ex_exited_sel [simp]:
  "pds ex_exited = (pds ex_one)(ex_pd := (pds ex_one ex_pd)\<lparr>pd_tid := 0\<rparr>)"
  "stack_used ex_exited = [ex_pd]" "stack_user ex_exited = []" "stack_cache ex_exited = []"
  "stack_cache_actsize ex_exited = 0" "stack_cache_maxsize ex_exited = 0x2800000"
  by (simp_all add: ex_exited_def kernel_clears_tid_def)

definition ex_returned :: nptl where
  "ex_returned = unlock_cache (queued ex_pd (lock_cache ex_exited))"

lemma ex_return: "deallocate_stack ex_kern ex_pd ex_exited = Some ex_returned"
  unfolding ex_returned_def by (rule deallocate_stack_cached) simp_all

lemma ex_returned_inv: "pool_inv ex_returned"
  by (rule deallocate_stack_inv [OF ex_exited_inv _ ex_return]) simp

end
