(* ===== verification/Nptl_Properties.thy ===== *)
theory Nptl_Properties
  imports Nptl_Examples
begin

text \<open>
  The properties of the stack pool and of the allocation of stacks, each with an instance on the
  concrete process of \<open>Nptl_Examples\<close>.
\<close>

subsection \<open>The pool along all runs\<close>

text \<open>C1: along a run of the calls of the library, in any order and with any arguments, the lists of stacks,
  their accounting, the mappings, the guard pages and the TLS blocks agree (\<open>pool_inv\<close>), until one of two events
  (\<open>pool_breaks\<close>), and each of them does break the pool: a \<open>pthread_create\<close> whose repair of the permissions of the new
  stack fails, and the child of a \<open>fork\<close> in which another thread had a stack of its user. Relied on are a kernel that
  maps unused memory in the lower half of the addresses and never fails to unmap, the sizes of the platform
  (\<open>kernel_ok\<close>), calls about threads that are on the lists, and user code that leaves the lists alone and places no
  descriptor where one is.\<close>

theorem pool_always_consistent:
  assumes "sound_run k ops jo s t" "pool_inv s" "ops_ok ops"
  shows "pool_inv t \<and>
    (\<forall>c v. nptl_step k ops jo c t v \<longrightarrow> (pool_inv v \<longleftrightarrow> \<not> pool_breaks k c t v))"
  using sound_run_inv [OF assms] nptl_step_inv [OF _ _ assms(3)] pool_breaks_not_inv by blast

lemma ex_sound_run: "sound_run ex_kern ex_ops ex_join ex_start ex_exited"
proof -
  have "sound_run ex_kern ex_ops ex_join ex_start ex_one"
    using ex_create_step ex_no_break by (intro r_into_rtranclp) fastforce
  then show ?thesis
    by (rule rtranclp.rtrancl_into_rtrancl) (use ex_exited_step ex_no_break in fastforce)
qed

theorem pool_always_consistent_witness:
  "sound_run ex_kern ex_ops ex_join ex_start ex_exited \<and> pool_inv ex_exited \<and>
    nptl_step ex_kern ex_ops ex_join Call_fork ex_exited (reclaim_stacks ex_kern ex_pd ex_exited) \<and>
    pool_inv (reclaim_stacks ex_kern ex_pd ex_exited)"
proof -
  have "nptl_step ex_kern ex_ops ex_join Call_fork ex_exited (reclaim_stacks ex_kern ex_pd ex_exited)"
    by (rule nptl_step.forked) simp
  then show ?thesis
    using pool_always_consistent [OF ex_sound_run ex_start_inv ex_ops_ok] ex_sound_run ex_no_break [of ex_exited] by simp
qed

text \<open>C2: however allocations, of whatever sizes and attributes, and returns of stacks follow each other, no
  stack is handed out twice: the stacks that were taken and not returned are pairwise different, and they are the used
  ones. In between allocations may fail, stacks of users may be set up, the cache may be trimmed, and threads and
  kernel may do anything that leaves the pool alone. Relied on, at each allocation, is \<open>kernel_ok\<close>; a
  failing allocation must not be the failing repair of the permissions (\<open>perm_dangles\<close>).\<close>

theorem stacks_handed_out_once:
  assumes "store_run (take_stack k) (give_stack k) (idle_stacks k) ts us s t" "pool_inv s"
  shows "distinct (outstanding ts (stack_used s)) \<and>
    set (outstanding ts (stack_used s)) = set (stack_used t)"
  using stacks.run_distinct [OF assms] assms(2) by (simp add: pool_inv_def)

theorem stacks_handed_out_once_witness:
  "store_run (take_stack ex_kern) (give_stack ex_kern) (idle_stacks ex_kern)
      [Takes ex_pd, Pauses, Gives ex_pd, Takes ex_pd] [ex_allocated, ex_allocated, ex_back, ex_again] ex_start ex_again \<and>
    set (stack_used ex_again) = {ex_pd}"
proof -
  have "idle_stacks ex_kern ex_allocated ex_allocated" by (simp add: idle_stacks_def)
  then have "store_run (take_stack ex_kern) (give_stack ex_kern) (idle_stacks ex_kern)
      [Takes ex_pd, Pauses, Gives ex_pd, Takes ex_pd] [ex_allocated, ex_allocated, ex_back, ex_again] ex_start ex_again"
    by (simp add: ex_take ex_give ex_take_again)
  then show ?thesis using stacks_handed_out_once [OF _ ex_start_inv] by fastforce
qed

subsection \<open>Taking a stack from the cache\<close>

text \<open>C3: \<open>get_cached_stack\<close> takes the smallest cached stack that is free and large enough, unless even that
  one is more than four times too large; the optimised loop with its early exit is that choice.\<close>

theorem get_cached_stack_takes_best_fit:
  "get_cached_stack k sz s =
    (let s' = lock_cache s in
     case best_fit (pds s) sz (stack_cache s) of
       None \<Rightarrow> (None, unlock_cache s')
     | Some r \<Rightarrow>
         if pd_stackblock_size (pds s r) > 4 * sz then (None, unlock_cache s')
         else (Some (r, pd_stackblock_size (pds s r), pd_stackblock (pds s r)),
               reset_cached k r (unlock_cache (dequeue_cached r s'))))"
  by (simp add: get_cached_stack_def Let_def find_cached_best_fit split: option.split)

subsection \<open>A new stack\<close>

text \<open>C4: a successful \<open>allocate_stack\<close> for a thread without memory of its own puts one new stack on the used
  list; the guard of the stack is at least the one asked for, and the one it reports is the one asked for, rounded up to
  whole pages. Above the guard in force lie at least the bytes asked for, rounded DOWN to the alignment of the TLS
  block: all of them if the size is a multiple of that alignment, and else less than the alignment too few. Relied on is
  a consistent pool and \<open>kernel_ok\<close>: unused memory from \<open>mmap\<close>, no failing \<open>munmap\<close>, the sizes of the platform.\<close>

theorem allocate_stack_grants_request:
  assumes "pool_inv s" "kernel_ok k s" "ATTR_STACKADDR \<notin> at_flags attr"
    and "allocate_stack k exec1 exec2 attr s = Some (Inr (pd, stktop), s')"
  defines "asked_for \<equiv> fst (stack_size_of attr s)"
    and "usable \<equiv> unat (pd_stackblock_size (pds s' pd)) - unat (pd_guardsize (pds s' pd))"
  shows "stack_used s' = pd # stack_used s \<and> stktop = stacktop_of k pd \<and>
    at_guardsize attr \<le> pd_guardsize (pds s' pd) \<and>
    pd_reported_guardsize (pds s' pd) = (at_guardsize attr + pagesize_m1 k) AND NOT (pagesize_m1 k) \<and>
    unat (asked_for AND NOT (static_tls_align_m1 k)) \<le> usable \<and>
    unat asked_for \<le> usable + unat (static_tls_align_m1 k) \<and>
    (asked_for AND NOT (static_tls_align_m1 k) = asked_for \<longrightarrow> unat asked_for \<le> usable)"
proof -
  note g = allocate_stack_grants [OF assms(1-4), folded assms(5), folded assms(6)]
  have "unat asked_for \<le> unat (asked_for AND NOT (static_tls_align_m1 k)) + unat (static_tls_align_m1 k)"
    by (rule unat_round_down_bounds(2))
  then show ?thesis using g by (intro conjI impI) simp_all
qed

theorem allocate_stack_grants_request_witness:
  "stack_used ex_allocated = ex_pd # stack_used ex_start \<and>
    at_guardsize ex_attr \<le> pd_guardsize (pds ex_allocated ex_pd) \<and>
    unat (0x100000 :: u64) \<le> unat (pd_stackblock_size (pds ex_allocated ex_pd)) - unat (pd_guardsize (pds ex_allocated ex_pd))"
proof -
  have "fst (stack_size_of ex_attr ex_start) = 0x100000" by (simp add: stack_size_of_def)
  moreover have "(0x100000 :: u64) AND NOT (static_tls_align_m1 ex_kern) = 0x100000" by code_simp
  ultimately show ?thesis
    using allocate_stack_grants_request [OF ex_start_inv ex_start_kernel _ ex_allocate] by simp
qed

text \<open>The size computed for the mapping is the size asked for, rounded down to the alignment of the TLS
  block, plus the guard; neither the rounding nor the sum wraps around once the checks have passed,
  and the guard never swallows the stack.\<close>

theorem round_sizes_exact:
  assumes "round_sizes k attr sz = Some (Inr (blk, guard))"
  shows "unat blk = unat (sz AND NOT (static_tls_align_m1 k)) + unat guard \<and>
    unat (at_guardsize attr) \<le> unat guard \<and>
    unat guard \<le> unat (at_guardsize attr) + unat (pagesize_m1 k) \<and> guard < blk"
  using round_sizes_bounds [OF assms] by blast

theorem round_sizes_exact_witness:
  "unat (0x101000 :: u64) = unat ((0x100000 :: u64) AND NOT (static_tls_align_m1 ex_kern)) + unat (0x1000 :: u64)"
proof -
  have "round_sizes ex_kern ex_attr 0x100000 = Some (Inr (0x101000, 0x1000))" by code_simp
  from round_sizes_exact [OF this] show ?thesis by blast
qed

text \<open>In a mapping of the size that passed the checks, the descriptor lies inside the mapping with its
  TLS block below the end, and the top of the stack is at least 4096 bytes, less the padding
  of the alignment, above the guard.\<close>

theorem fresh_stack_layout:
  assumes k: "platform_ok k" and r: "round_sizes k attr sz0 = Some (Inr (sz, g))"
    and m: "unat mem + unat sz < 2 ^ 47" and tcb: "sizeof_pthread k = tls_tcb_size k"
  shows "in_range mem sz (place_descriptor k mem sz) \<and>
    unat (place_descriptor k mem sz) + unat (tls_tcb_size k) \<le> unat mem + unat sz \<and>
    unat mem + unat g + 4096 \<le>
      unat (stacktop_of k (place_descriptor k mem sz)) + unat (static_tls_align_m1 k)"
proof -
  let ?p = "place_descriptor k mem sz"
  note room = round_sizes_room [OF r k]
  have sz: "unat sz < 2 ^ 47" using m by simp
  have m': "unat mem + unat sz < 2 ^ 64" using m by simp
  note p = place_descriptor_bounds [OF k m' room(2) [OF sz]]
  have "unat (?p + tls_tcb_size k) = unat ?p + unat (tls_tcb_size k)"
    by (rule unat_add_lem [THEN iffD1]) (use p(2) m in simp)
  moreover have "unat (static_tls_size k) \<le> unat ?p + unat (tls_tcb_size k)"
    using p(1) room(1) [OF sz] k by (simp add: platform_ok_def)
  ultimately have "unat (stacktop_of k ?p) = unat ?p + unat (tls_tcb_size k) - unat (static_tls_size k)"
    by (simp add: stacktop_of_def tcb unat_sub word_le_nat_alt)
  then show ?thesis using p room(1) [OF sz] by simp
qed

theorem fresh_stack_layout_witness:
  "in_range 0x10000000 0x101000 (place_descriptor ex_kern 0x10000000 0x101000)"
proof -
  have r: "round_sizes ex_kern ex_attr 0x100000 = Some (Inr (0x101000, 0x1000))" by code_simp
  have k: "platform_ok ex_kern" using ex_start_kernel by (simp add: kernel_ok_def)
  show ?thesis using fresh_stack_layout [OF k r, where mem = "0x10000000"] by (simp add: ex_kern_def)
qed

lemma dangling_not_inv:
  "pd \<in> set (stack_used t) \<Longrightarrow> maps t (pd_stackblock (pds t pd)) = None \<Longrightarrow> \<not> pool_inv t"
  by (auto simp: pool_inv_def sys_stacks_def block_ok_def Let_def)

text \<open>C5: an allocation that fails leaves nothing behind, but for one path: the used list and the stacks of users are
  unchanged, the cache has lost at most a stack that is unmapped now, and as the pool is still consistent no
  mapping and no TLS block is without an entry of the lists. The exception is the stack that was made while the loader
  began to need executable stacks, when the repair of its permissions fails: the memory is unmapped, but the
  descriptor in it stays on the used list, with its TLS block, and the pool is not consistent any more. Relied on is
  a consistent pool and \<open>kernel_ok\<close>, with a \<open>munmap\<close> that does not fail.\<close>

theorem allocate_stack_error_leaks_nothing:
  assumes inv: "pool_inv s" and env: "kernel_ok k s"
    and sys: "ATTR_STACKADDR \<notin> at_flags attr"
    and r: "allocate_stack k exec1 exec2 attr s = Some (Inl e, s')"
  shows "stack_used s' = stack_used s \<and> set (stack_cache s') \<subseteq> set (stack_cache s) \<and>
      stack_user s' = stack_user s \<and> pool_inv s' \<or>
    exec2 \<and> \<not> exec1 \<and> \<not> pool_inv s' \<and> stack_cache s' = stack_cache s \<and>
      (\<exists>b l x. sys_mprotect k b l PROT_RWX = Some x) \<and>
      (\<exists>pd. stack_used s' = pd # stack_used s \<and> pd \<in> tls_live s' \<and>
        maps s' (pd_stackblock (pds s' pd)) = None)"
proof -
  have "pool_inv s' \<or> exec2 \<and> \<not> exec1 \<and> perm_dangles k s s'"
    using allocate_stack_inv [OF inv env _ r] sys by simp
  then show ?thesis
    using allocate_error_lists [OF assms] perm_dangles_not_inv [of k s s'] unfolding perm_dangles_def by blast
qed

definition ex_full :: kern where
  "ex_full = ex_kern\<lparr>sys_mmap := \<lambda>m sz. Inl ENOMEM\<rparr>"

definition ex_strict :: kern where
  "ex_strict = ex_kern\<lparr>sys_mprotect := \<lambda>b l p. if p = PROT_RWX then Some EACCES else None\<rparr>"

theorem allocate_stack_error_leaks_nothing_witness:
  "(\<exists>s'. allocate_stack ex_full False False ex_attr ex_start = Some (Inl ENOMEM, s') \<and>
      stack_used s' = [] \<and> pool_inv s') \<and>
   (\<exists>s'. allocate_stack ex_strict False True ex_attr ex_start = Some (Inl EACCES, s') \<and>
      \<not> pool_inv s' \<and> (\<exists>pd. stack_used s' = [pd]))"
proof
  have e: "kernel_ok ex_full ex_start" "kernel_ok ex_strict ex_start"
    using ex_start_kernel
    by (auto simp: kernel_ok_def platform_ok_def munmap_ok_def mmap_ok_def ex_full_def ex_strict_def)
  have "map_option fst (allocate_stack ex_full False False ex_attr ex_start) = Some (Inl ENOMEM)"
    by code_simp
  then obtain s' where s': "allocate_stack ex_full False False ex_attr ex_start = Some (Inl ENOMEM, s')"
    by (auto simp: map_option_eq_Some)
  show "\<exists>s'. allocate_stack ex_full False False ex_attr ex_start = Some (Inl ENOMEM, s') \<and>
      stack_used s' = [] \<and> pool_inv s'"
    using allocate_stack_error_leaks_nothing [OF ex_start_inv e(1) _ s'] s' by simp
  have "map_option (\<lambda>(r, t). (r, length (stack_used t))) (allocate_stack ex_strict False True ex_attr ex_start) =
    Some (Inl EACCES, 1)" by code_simp
  then obtain t where t: "allocate_stack ex_strict False True ex_attr ex_start = Some (Inl EACCES, t)"
    "length (stack_used t) = 1" by (auto simp: map_option_eq_Some)
  have "stack_used ex_start = []" by simp
  then show "\<exists>s'. allocate_stack ex_strict False True ex_attr ex_start = Some (Inl EACCES, s') \<and>
      \<not> pool_inv s' \<and> (\<exists>pd. stack_used s' = [pd])"
    using allocate_stack_error_leaks_nothing [OF ex_start_inv e(2) _ t(1)] t by auto
qed

text \<open>If the stack permissions are tightened by another thread between the two reads of
  \<open>dl_stack_flags\<close> and the repair of the new stack fails, the memory is unmapped but the
  descriptor inside it stays on the used list with a live TLS block.\<close>

theorem perm_failure_leaves_dangling_stack:
  assumes "munmap_ok k" "multi_page_aliasing k = 0" "sys_mmap k (maps s) sz = Inr mem" "mem \<noteq> 0"
    and "\<And>b l p. sys_mprotect k b l p = (if p = PROT_RWX then Some e else None)"
    and "\<And>pd. dl_allocate_tls k pd = Inr dtv"
  shows "\<exists>s'. map_stack k False True sz g s = Some (Inl e, s') \<and> maps s' mem = None \<and>
    place_descriptor k mem sz \<in> set (stack_used s') \<and> place_descriptor k mem sz \<in> tls_live s' \<and>
    pd_stackblock (pds s' (place_descriptor k mem sz)) = mem \<and> \<not> pool_inv s'"
proof -
  have m: "sys_munmap k b l = None" for b l using assms(1) by (simp add: munmap_ok_def)
  let ?r = "map_stack k False True sz g s"
  have r: "?r = Some (Inl e, snd (the ?r)) \<and> maps (snd (the ?r)) mem = None \<and>
    place_descriptor k mem sz \<in> set (stack_used (snd (the ?r))) \<and>
    place_descriptor k mem sz \<in> tls_live (snd (the ?r)) \<and>
    pd_stackblock (pds (snd (the ?r)) (place_descriptor k mem sz)) = mem"
    using assms(2-6) m
    by (simp add: map_stack_def Let_def setup_stack_prot_def mprotect_def recheck_perm_def
        change_stack_perm_def unmap_and_fail_def munmap_def guard_position_def)
  then have "\<not> pool_inv (snd (the ?r))"
    by (intro dangling_not_inv [where pd = "place_descriptor k mem sz"]) simp_all
  then show ?thesis using r by blast
qed

theorem perm_failure_leaves_dangling_stack_witness:
  "\<exists>s'. map_stack (ex_kern\<lparr>sys_mprotect := \<lambda>b l p. if p = PROT_RWX then Some EACCES else None\<rparr>)
      False True 0x101000 0x1000 ex_start = Some (Inl EACCES, s') \<and>
    maps s' 0x10000000 = None \<and> \<not> pool_inv s'"
  using perm_failure_leaves_dangling_stack
    [where k = "ex_kern\<lparr>sys_mprotect := \<lambda>b l p. if p = PROT_RWX then Some EACCES else None\<rparr>"
      and s = ex_start and sz = "0x101000" and mem = "0x10000000" and e = EACCES and dtv = "[0, 0]" and g = "0x1000"]
  by (simp add: munmap_ok_def ex_kern_def ex_start_def) blast

subsection \<open>Returning a stack and trimming the cache\<close>

text \<open>C6: after a stack has been returned, the bytes in the cache are within \<open>stack_cache_maxsize\<close>, or every
  stack that is left still belongs to a thread the kernel has not finished with.\<close>

theorem deallocate_stack_within_limit:
  assumes "pool_inv s" "pd \<in> set (stack_used s)" "deallocate_stack k pd s = Some s'"
  shows "stack_cache_actsize s' \<le> stack_cache_maxsize s \<or>
    (\<forall>p \<in> set (stack_cache s'). \<not> FREE_P (pds s' p))"
  using assms by (rule deallocate_stack_bound)

theorem deallocate_stack_within_limit_witness:
  "deallocate_stack ex_kern ex_pd ex_one = Some (unlock_cache (queued ex_pd (lock_cache ex_one))) \<and>
    stack_cache_actsize (unlock_cache (queued ex_pd (lock_cache ex_one))) \<le> stack_cache_maxsize ex_one"
proof -
  have d: "deallocate_stack ex_kern ex_pd ex_one = Some (unlock_cache (queued ex_pd (lock_cache ex_one)))"
    by (rule deallocate_stack_cached) simp_all
  show ?thesis using deallocate_stack_within_limit [OF ex_one_inv _ d] d by simp
qed

text \<open>A stack whose thread is gone and that was returned within the limit is the one the next request for
  its size gets: the cache is last in, first out for equal sizes.\<close>

theorem returned_stack_is_reused:
  assumes "deallocate_stack k pd s = Some s'" "\<not> pd_user_stack (pds s pd)" "FREE_P (pds s pd)"
    and "stack_cache_actsize s + pd_stackblock_size (pds s pd) \<le> stack_cache_maxsize s"
    and "unat (pd_stackblock_size (pds s pd)) < 2 ^ 62"
  shows "fst (get_cached_stack k (pd_stackblock_size (pds s pd)) s') =
    Some (pd, pd_stackblock_size (pds s pd), pd_stackblock (pds s pd))"
proof -
  let ?z = "pd_stackblock_size (pds s pd)"
  have s': "s' = unlock_cache (queued pd (lock_cache s))"
    using assms(1) deallocate_stack_cached [OF assms(2,4)] by simp
  have "best_fit (pds s') ?z (stack_cache s') = Some pd"
    unfolding s' by (simp add: best_fit_head assms(3))
  moreover have "\<not> 4 * ?z < ?z"
    using assms(5) by (simp add: word_less_nat_alt unat_word_ariths)
  ultimately show ?thesis
    by (simp add: get_cached_stack_def Let_def find_cached_best_fit s')
qed

theorem returned_stack_is_reused_witness:
  "fst (get_cached_stack ex_kern 0x101000 ex_returned) = Some (ex_pd, 0x101000, 0x10000000)"
  using returned_stack_is_reused [OF ex_return] by (simp add: FREE_P_def)

text \<open>\<open>free_stacks\<close> keeps the newest entries as long as they fit the limit and, of the older ones,
  only the stacks that are still in use by the kernel; the lists of used stacks are not touched.\<close>

theorem free_stacks_trims_oldest:
  assumes "free_stacks k limit s = Some s'" "pool_inv s"
  shows "(\<exists>n. stack_cache s' = take n (stack_cache s) @
      filter (\<lambda>p. \<not> FREE_P (pds s p)) (drop n (stack_cache s)) \<and>
    (0 < n \<longrightarrow> stack_cache_actsize s' \<le> limit)) \<and>
    stack_used s' = stack_used s \<and> stack_user s' = stack_user s \<and> pool_inv s'"
  using free_stacks_shape [OF assms] free_stacks_inv [OF assms] by (simp add: pool_frame_def)

theorem free_stacks_trims_oldest_witness:
  "\<exists>s'. free_stacks ex_kern 0 ex_returned = Some s' \<and> stack_used s' = [] \<and> pool_inv s'"
proof -
  have "\<exists>s'. free_stacks ex_kern 0 ex_returned = Some s'"
    by (simp add: free_stacks_def ex_returned_def free_stacks_loop.simps FREE_P_def Let_def munmap_def
        dl_deallocate_tls_def)
  then obtain s' where s': "free_stacks ex_kern 0 ex_returned = Some s'" by blast
  have "stack_used ex_returned = []" by (simp add: ex_returned_def)
  then show ?thesis using free_stacks_trims_oldest [OF s' ex_returned_inv] s' by auto
qed

end
