(* ===== verification/Thread_Properties.thy ===== *)
theory Thread_Properties
  imports Nptl_Examples
begin

text \<open>
  The properties of the life of a thread: its creation and its end, joining and cancelling it,
  its specific data, the change of the IDs, and the repair of the lists after a \<open>fork\<close>.
\<close>

subsection \<open>Creation\<close>

text \<open>When the last stage of \<open>pthread_create\<close> fails, the error is never \<open>ENOMEM\<close>, the signal mask of the
  caller and the heap are as before, and either the thread was not cloned, so it is not counted, no signal was
  sent and its stack is not in use any more, or it runs, stays locked and was sent exactly one
  \<open>SIGCANCEL\<close>.\<close>

theorem failed_launch_rolls_back:
  assumes "launch_thread k ops self a pd stktop s = Some (Some e, s')"
    and "pool_inv s" "pd \<in> set (stack_used s)"
  shows "e \<noteq> ENOMEM \<and> self_sigmask s' = self_sigmask s \<and> mallocs s' = mallocs s \<and>
    (nptl_nthreads s' = nptl_nthreads s \<and> tgkills s' = tgkills s \<and> pd \<notin> set (stack_used s') \<or>
     nptl_nthreads s' = nptl_nthreads s + 1 \<and> pd_lock (pds s' pd) \<and> stack_used s' = stack_used s \<and>
     tgkills s' = (pd_tid (pds s' pd), SIGCANCEL) # tgkills s)"
  using assms(1)
proof (cases rule: launch_thread_cases)
  case (refused x t)
  have "stack_used t = stack_used s" "pool_inv t"
    using refused(2) same_pool_inv [OF refused(2) assms(2)] by (simp_all add: same_pool_def)
  then have "give_stack k t pd s'" using refused(4) assms(3) by (simp add: give_stack_def)
  from give_stack_used(1) [OF \<open>pool_inv t\<close> this] have "stack_used s' = remove1 pd (stack_used t)" .
  moreover have "distinct (stack_used t)" using \<open>pool_inv t\<close> by (simp add: pool_inv_def)
  ultimately show ?thesis using refused by (auto simp: eagain_def)
next
  case (cancelled x)
  then show ?thesis by (auto simp: eagain_def same_pool_def)
qed simp

definition ex_no_clone :: thread_ops where
  "ex_no_clone = ex_ops\<lparr>op_clone := \<lambda>pd stktop s. Inl ENOMEM\<rparr>"

theorem failed_launch_rolls_back_witness:
  "\<exists>s'. launch_thread ex_kern ex_no_clone 0x1000 ex_attr ex_pd 0 ex_allocated = Some (Some EAGAIN, s') \<and>
    ex_pd \<notin> set (stack_used s')"
proof -
  have inv: "pool_inv ex_allocated" by (rule take_stack_used(2) [OF ex_start_inv ex_take])
  have "\<exists>s'. launch_thread ex_kern ex_no_clone 0x1000 ex_attr ex_pd 0 ex_allocated = Some (Some EAGAIN, s')"
    by (simp add: launch_thread_def create_thread_def Let_def ex_no_clone_def init_sigmask_def ex_ops_def
        report_thread_creation_def release_setxid_def deallocate_stack_eq eagain_def)
  then obtain s' where s': "launch_thread ex_kern ex_no_clone 0x1000 ex_attr ex_pd 0 ex_allocated = Some (Some EAGAIN, s')"
    by blast
  moreover have "stack_used ex_allocated = [ex_pd]" by simp
  ultimately show ?thesis using failed_launch_rolls_back [OF s' inv]
    by (auto simp: launch_thread_def create_thread_def Let_def ex_no_clone_def init_sigmask_def ex_ops_def
        report_thread_creation_def release_setxid_def deallocate_stack_eq)
qed

text \<open>\<open>pthread_create\<close> translates \<open>ENOMEM\<close> to \<open>EAGAIN\<close> on every path but one: when the default
  attributes cannot be read, \<open>ENOMEM\<close>, which the standard does not list for it, reaches the caller.\<close>

theorem enomem_only_from_default_attributes:
  assumes "pthread_create_2_1 k ops exec1 exec2 self attr f x s = Some (Some ENOMEM, p, s')"
  shows "(\<forall>a. attr \<noteq> ATTR_USER a) \<and> p = None \<and>
    fst (op_getattr_default ops (s\<lparr>libc_single_threaded := False\<rparr>)) = Inl ENOMEM"
  using assms
proof (cases rule: pthread_create_cases)
  case (default e)
  then show ?thesis by (cases attr) (auto simp: effective_attr_def)
next
  case (stack a e t u)
  then show ?thesis by (simp add: eagain_def split: if_splits)
next
  case (launch a t pd stktop u v w)
  from launch(4) show ?thesis by (cases rule: launch_thread_cases) (auto simp: eagain_def split: if_splits)
qed

theorem enomem_only_from_default_attributes_witness:
  "\<exists>s'. pthread_create_2_1 ex_kern (ex_ops\<lparr>op_getattr_default := \<lambda>s. (Inl ENOMEM, s)\<rparr>) False False 0x1000
      ATTR_NULL 7 8 ex_start = Some (Some ENOMEM, None, s') \<and> (\<forall>a. ATTR_NULL \<noteq> ATTR_USER a)"
proof -
  have c: "pthread_create_2_1 ex_kern (ex_ops\<lparr>op_getattr_default := \<lambda>s. (Inl ENOMEM, s)\<rparr>) False False 0x1000
      ATTR_NULL 7 8 ex_start = Some (Some ENOMEM, None, ex_start\<lparr>libc_single_threaded := False\<rparr>)"
    by (simp add: pthread_create_2_1_def)
  from enomem_only_from_default_attributes [OF c] c show ?thesis by blast
qed

subsection \<open>The end of a thread\<close>

lemma free_stacks_loop_pds: "free_stacks_loop k limit es s = Some t \<Longrightarrow> pds t = pds s"
proof (induction k limit es s rule: free_stacks_loop.induct)
  case (2 k limit cur prev s)
  then show ?case
    by (auto simp: free_stacks_loop.simps Let_def munmap_def dl_deallocate_tls_def
        split: if_splits option.splits)
qed simp

lemma deallocate_stack_pds: "deallocate_stack k pd s = Some t \<Longrightarrow> pds t = pds s"
  by (auto simp: deallocate_stack_eq free_stacks_def dl_deallocate_tls_def
      split: if_splits dest: free_stacks_loop_pds)

lemma free_tcb_joinid: "free_tcb k ops pd s = Some t \<Longrightarrow> pd_joinid (pds t pd) = pd_joinid (pds s pd)"
  by (erule free_tcb_cases) (auto dest: deallocate_stack_pds)

lemma free_tcb_tid: "free_tcb k ops pd s = Some t \<Longrightarrow> pd_tid (pds t pd) = pd_tid (pds s pd)"
  by (erule free_tcb_cases) (auto dest: deallocate_stack_pds)

text \<open>C7: a joinable thread that has ended keeps its stack until it is joined: whatever calls the other threads
  make after its end, creations, ends, joins and cancellations of others, changes of the IDs, the trimming of
  the cache, the descriptor stays on the used list, the mapping of its stack stays in place, and so does its TLS
  block. (Which of the pages the kernel may drop meanwhile, by \<open>madvise\<close>, is not modelled.) The run
  is one of the process itself, not of a child it forks, and has no step that breaks the pool (\<open>spares\<close>); user
  code leaves the lists alone.\<close>

theorem unjoined_thread_keeps_its_stack:
  assumes "pool_inv s" "ops_ok ops" "\<forall>w \<in> set ws. pool_neutral w" "pd \<in> set (stack_used s)"
    and "start_thread k ops pd ws s = Some (Thread_exits, s')" "pd_joinid (pds s' pd) \<noteq> pd"
    and "rtranclp (spares k ops jo pd) s' t"
  shows "stack_used s' = stack_used s \<and> stack_cache s' = stack_cache s \<and> maps s' = maps s \<and>
    tls_live s' = tls_live s \<and> pd \<in> set (stack_used t) \<and>
    maps t (pd_stackblock (pds s pd)) = Some (pd_stackblock_size (pds s pd)) \<and> pd \<in> tls_live t"
proof -
  from assms(2,3,5) have same: "same_pool s s'"
  proof (cases rule: start_thread_cases)
    case (detached t)
    then show ?thesis using assms(6) free_tcb_joinid by metis
  qed simp_all
  have inv: "pool_inv s'" by (rule same_pool_inv [OF same assms(1)])
  have used: "pd \<in> set (stack_used s')" using same assms(4) by (simp add: same_pool_def)
  have t: "pool_inv t" "holds pd s' t" using spares_holds [OF assms(7) inv assms(2) used] by simp_all
  have "holds pd s t" by (rule holds_trans [OF holds_same_pool [OF same assms(4)] t(2)])
  then show ?thesis using used_is_mapped [OF t(1), of pd] same by (simp add: holds_def same_pool_def)
qed

lemma ex_run:
  "map_option fst (start_thread ex_kern ex_ops ex_pd [] ex_one) = Some Thread_exits \<and>
   map_option (\<lambda>(e, t). pd_joinid (pds t ex_pd)) (start_thread ex_kern ex_ops ex_pd [] ex_one) = Some 0"
  by (simp add: start_thread_def thread_body_def thread_begin_def release_setxid_def Let_def ex_ops_def
      thread_finish_def deallocate_tsd_def report_death_def advise_stack_range_def ex_kern_def)

text \<open>The thread ends, the kernel clears its ID, and the main thread empties the cache.\<close>

theorem unjoined_thread_keeps_its_stack_witness:
  "\<exists>s' t. start_thread ex_kern ex_ops ex_pd [] ex_one = Some (Thread_exits, s') \<and>
    nptl_stacks_freeres ex_kern (kernel_clears_tid ex_pd s') = Some t \<and>
    ex_pd \<in> set (stack_used t) \<and> maps t 0x10000000 = Some 0x101000 \<and> ex_pd \<in> tls_live t"
proof -
  obtain s' where s': "start_thread ex_kern ex_ops ex_pd [] ex_one = Some (Thread_exits, s')"
    "pd_joinid (pds s' ex_pd) = 0" using ex_run by (auto simp: map_option_eq_Some)
  from ex_ops_ok _ s'(1) have same: "same_pool ex_one s'"
    by (cases rule: start_thread_cases) (use s'(2) free_tcb_joinid in \<open>fastforce+\<close>)
  let ?u = "kernel_clears_tid ex_pd s'"
  have l: "stack_user s' = []" "stack_cache s' = []" "stack_user ?u = []" "stack_cache ?u = []"
    using same by (simp_all add: same_pool_def kernel_clears_tid_def)
  have 1: "spares ex_kern ex_ops ex_join ex_pd s' ?u"
    unfolding spares_def using nptl_step.exited [of ex_kern ex_ops ex_join ex_pd s'] ex_no_break [OF l(1)] by fastforce
  obtain t where t: "nptl_stacks_freeres ex_kern ?u = Some t"
    using l(4) by (simp add: nptl_stacks_freeres_def free_stacks_def free_stacks_loop.simps)
  have 2: "spares ex_kern ex_ops ex_join ex_pd ?u t"
    unfolding spares_def using nptl_step.freeres [OF t, of ex_ops ex_join] ex_no_break [OF l(3)] by fastforce
  have "rtranclp (spares ex_kern ex_ops ex_join ex_pd) s' t" using 1 2 by (simp add: rtranclp.rtrancl_into_rtrancl)
  from unjoined_thread_keeps_its_stack [OF ex_one_inv ex_ops_ok _ _ s'(1) _ this] s' t show ?thesis by auto
qed

text \<open>A descriptor is given back once: the first \<open>__free_tcb\<close> takes the stack off the used list and
  marks the descriptor, every later call, from the thread itself or from a joiner, does nothing.\<close>

theorem free_tcb_frees_once:
  assumes "pool_inv s" "pd \<in> set (stack_used s)" "TERMINATED \<notin> pd_cancelhandling (pds s pd)"
    and "free_tcb k ops pd s = Some s'"
  shows "pd \<notin> set (stack_used s') \<and> pool_inv s' \<and> free_tcb k ops pd s' = Some s'"
  using assms(4)
proof (cases rule: free_tcb_cases)
  case (free t)
  have t: "pool_inv t" "stack_used t = stack_used s"
    using free(2) same_pool_inv [OF free(2) assms(1)] by (simp_all add: same_pool_def)
  then have g: "give_stack k t pd s'" using free assms(2) by (simp add: give_stack_def)
  have "distinct (stack_used s)" using assms(1) by (simp add: pool_inv_def)
  moreover have "free_tcb k ops pd s' = Some s'"
    using deallocate_stack_pds [OF free(6)] free(3) by (simp add: free_tcb_def)
  ultimately show ?thesis using give_stack_used [OF t(1) g] t(2) by simp
qed (use assms in simp)

theorem free_tcb_frees_once_witness:
  "\<exists>s'. free_tcb ex_kern ex_ops ex_pd ex_one = Some s' \<and> ex_pd \<notin> set (stack_used s') \<and>
    free_tcb ex_kern ex_ops ex_pd s' = Some s'"
proof -
  have "\<exists>s'. free_tcb ex_kern ex_ops ex_pd ex_one = Some s'"
    by (simp add: free_tcb_def ex_ops_def Let_def deallocate_stack_eq)
  then show ?thesis using free_tcb_frees_once [OF ex_one_inv] by auto
qed

subsection \<open>Joining\<close>




lemma join_register_misses:
  "pd_joinid (pds s pd) \<noteq> self \<Longrightarrow> join_register spurious self pd s = (False, s)"
  by (auto simp: join_register_eq upd_pd_def)

text \<open>C9: a second joiner is not refused while a first one waits, and it leaves the first one behind for good: from the
  state in which the first one waits, once the thread has ended, the second call succeeds with the result and frees
  the descriptor, and the first one does not return any more, as long as nobody clears the thread ID of that
  descriptor again. The exchange that should record the first joiner has its operands swapped. The calls are those of two
  threads for which neither the checks of the descriptor nor the deadlock test strikes, spurious failures of
  the exchange or not.\<close>

theorem second_joiner_is_not_refused:
  assumes first: "\<not> jo_invalid_not_terminated jo (pds s pd)" "pd_joinid (pds s pd) \<notin> {pd, one, two}"
      "\<not> join_deadlock jo one pd s" "pd_tid (pds s pd) \<noteq> 0"
    and waits: "u = snd (join_register sp1 one pd s)"
    and second: "\<not> jo_invalid_not_terminated jo (pds (kernel_clears_tid pd u) pd)"
      "\<not> join_deadlock jo two pd (kernel_clears_tid pd u)"
      "clockjoin_ex k ops jo sp2 two pd True None True [] (kernel_clears_tid pd u) = Some (e, v, t)"
    and later: "\<forall>(now, ev) \<in> set evs. \<exists>w. (ev = Wakes w \<or> ev = Times_out w) \<and>
      (\<forall>x. pd_tid (pds (w x) pd) = pd_tid (pds x pd))"
  shows "e = Returns None \<and> v = Some (pd_result (pds s pd)) \<and>
    free_tcb k ops pd (upd_pd pd (\<lambda>p. p\<lparr>pd_tid := - 1\<rparr>) (kernel_clears_tid pd u)) = Some t \<and>
    clockjoin_ex k ops jo sp1 one pd tr None True ((now, Wakes (\<lambda>_. t)) # evs) s = None"
proof -
  have u: "u = s" using first(2) waits by (auto simp: join_register_misses)
  let ?z = "kernel_clears_tid pd u"
  have z: "pd_joinid (pds ?z pd) = pd_joinid (pds s pd)" "pd_tid (pds ?z pd) = 0"
    "pd_result (pds ?z pd) = pd_result (pds s pd)" by (simp_all add: u kernel_clears_tid_def)
  have r: "join_register sp2 two pd ?z = (False, ?z)" "join_register sp1 one pd s = (False, s)"
    using first(2) z(1) by (auto intro!: join_register_misses)
  have e: "e = Returns None" "v = Some (pd_result (pds s pd))"
    "free_tcb k ops pd (upd_pd pd (\<lambda>p. p\<lparr>pd_tid := - 1\<rparr>) ?z) = Some t"
    using second first(2) z r(1) by (auto simp: clockjoin_ex_def Let_def)
  have "pd_tid (pds t pd) = - 1"
    using free_tcb_tid [OF e(3)] by simp
  then have "join_wait pd evs t = None"
    using join_wait_blocks [of t pd evs] later by fastforce
  then have "clockjoin_ex k ops jo sp1 one pd tr None True ((now, Wakes (\<lambda>_. t)) # evs) s = None"
    using first r(2) by (auto simp: clockjoin_ex_def)
  then show ?thesis using e by simp
qed

theorem second_joiner_is_not_refused_witness:
  "\<exists>t. clockjoin_ex ex_kern ex_ops ex_join False 0x2000 ex_pd True None True [] ex_exited =
      Some (Returns None, Some (pd_result (pds ex_one ex_pd)), t) \<and>
    clockjoin_ex ex_kern ex_ops ex_join False 0x1000 ex_pd True None True [(None, Wakes (\<lambda>_. t))] ex_one = None"
proof -
  have ne: "ex_pd \<noteq> 0x2000" by (simp add: ex_pd_def)
  have j2: "pd_joinid (pds ex_one 0x2000) = 0"
    using ne by (simp add: ex_one_def ex_create_simps) code_simp
  have u: "snd (join_register False 0x1000 ex_pd ex_one) = ex_one" by (simp add: join_register_misses)
  have d: "\<not> join_deadlock ex_join 0x1000 ex_pd ex_one" "\<not> join_deadlock ex_join 0x2000 ex_pd ex_exited"
    using ne j2 by (auto simp: join_deadlock_def)
  have "\<exists>t. clockjoin_ex ex_kern ex_ops ex_join False 0x2000 ex_pd True None True [] ex_exited =
      Some (Returns None, Some (pd_result (pds ex_one ex_pd)), t)"
    using d(2) by (simp add: clockjoin_ex_def ex_join_def join_register_eq Let_def free_tcb_def
        ex_ops_def deallocate_stack_eq)
  then obtain t where t: "clockjoin_ex ex_kern ex_ops ex_join False 0x2000 ex_pd True None True []
      (kernel_clears_tid ex_pd (snd (join_register False 0x1000 ex_pd ex_one))) =
      Some (Returns None, Some (pd_result (pds ex_one ex_pd)), t)"
    unfolding u ex_exited_def by blast
  have "clockjoin_ex ex_kern ex_ops ex_join False 0x1000 ex_pd True None True [(None, Wakes (\<lambda>_. t))] ex_one = None"
    using second_joiner_is_not_refused [OF _ _ d(1) _ refl _ _ t, where evs = "[]" and tr = True and now = None]
      d(2) by (simp add: u ex_exited_def [symmetric] ex_join_def)
  then show ?thesis using t unfolding u ex_exited_def by blast
qed

text \<open>A join without a limit returns only when the thread ID has been cleared, and as long as no other
  thread changes the ID it goes on waiting.\<close>

theorem join_waits_for_the_end:
  assumes "events_ok evs"
  shows "(join_wait pd evs s = Some (Returns None, t) \<longrightarrow> pd_tid (pds t pd) = 0 \<and> same_pool s t) \<and>
    (pd_tid (pds s pd) \<noteq> 0 \<and>
      (\<forall>(now, ev) \<in> set evs. \<exists>w. (ev = Wakes w \<or> ev = Times_out w) \<and>
        (\<forall>u. pd_tid (pds (w u) pd) = pd_tid (pds u pd))) \<longrightarrow> join_wait pd evs s = None)"
  using join_wait_spec [of pd evs s] join_wait_blocks [of s pd evs] assms by blast

theorem join_waits_for_the_end_witness:
  "join_wait ex_pd [(None, Wakes (\<lambda>s. s))] ex_one = None \<and>
   join_wait ex_pd [(None, Wakes (kernel_clears_tid ex_pd))] ex_one = Some (Returns None, ex_exited) \<and>
   pd_tid (pds ex_exited ex_pd) = 0"
proof -
  have n: "pool_neutral (kernel_clears_tid ex_pd)" "pool_neutral (\<lambda>s. s)"
    by (auto simp: pool_neutral_def kernel_clears_tid_def same_pool_def same_block_def)
  have w: "join_wait ex_pd [(None, Wakes (kernel_clears_tid ex_pd))] ex_one = Some (Returns None, ex_exited)"
    by (simp add: ex_exited_def kernel_clears_tid_def)
  have e: "events_ok [(None, Wakes (kernel_clears_tid ex_pd))]" "events_ok [(None, Wakes (\<lambda>s. s))]"
    using n by (simp_all add: events_ok_def event_neutral_def)
  show ?thesis
    using join_waits_for_the_end [OF e(1), of ex_pd ex_one ex_exited]
      join_waits_for_the_end [OF e(2), of ex_pd ex_one] w by auto
qed

subsection \<open>Cancelling\<close>

text \<open>Whatever other threads do to the flags in between, \<open>pthread_cancel\<close> of a live thread ends with the
  thread marked as being cancelled, and either marked cancelled or sent the signal; an error can only be that
  of the signal.\<close>

theorem cancel_marks_the_thread:
  assumes "\<not> jo_invalid jo (pds s th)" "pthread_cancel jo self th ws s = (r, s')"
  shows "CANCELING \<in> pd_cancelhandling (pds s' th) \<and>
    (CANCELED \<in> pd_cancelhandling (pds s' th) \<or>
      (\<exists>l. tgkills s' = (pd_tid (pds s' th), SIGCANCEL) # l)) \<and>
    (r = None \<or> (\<exists>tid. r = jo_tgkill jo tid))"
  using cancel_loop_marks [of jo th self ws s] assms by (auto simp: cancel_mark_def pthread_cancel_def)

theorem cancel_marks_the_thread_witness:
  "CANCELED \<in> pd_cancelhandling (pds (snd (pthread_cancel ex_join 0x1000 ex_pd [] ex_one)) ex_pd)"
proof -
  have p: "pthread_cancel ex_join 0x1000 ex_pd [] ex_one =
    (None, snd (pthread_cancel ex_join 0x1000 ex_pd [] ex_one))"
    "tgkills (snd (pthread_cancel ex_join 0x1000 ex_pd [] ex_one)) = []"
    by (simp_all add: pthread_cancel_def ex_join_def Let_def)
  show ?thesis using cancel_marks_the_thread [OF _ p(1)] p(2) by (simp add: ex_join_def)
qed

end
