(* ===== verification/Process_Properties.thy ===== *)
theory Process_Properties
  imports Nptl_Examples
begin

text \<open>
  The properties of the operations that concern all threads of a process, or the heap: the change of the
  IDs, thread-specific data, the child of a \<open>fork\<close>, executable stacks, and attributes.
\<close>

subsection \<open>Changing the IDs\<close>








subsection \<open>Thread-specific data\<close>

text \<open>C12: with destructors that act on the heap only, the end of a thread runs the destructor of every entry
  that is set and whose key is still the one it was set for, once and in the order of the keys, clears every entry,
  and frees exactly the blocks of the second level.\<close>

theorem tsd_destructors_run_once:
  assumes "heap_only call eff" "key_1stlevel_size k = key_2ndlevel_size k" "pd_specific_used (pds s self)"
    and "\<forall>i j. i < j \<and> j < key_1stlevel_size k \<longrightarrow> pd_specific (pds s self) i \<noteq> 0 \<longrightarrow>
      pd_specific (pds s self) i \<noteq> pd_specific (pds s self) j"
  shows "mallocs (deallocate_tsd k call self s) =
      run_due eff (due_all k self s 0 (key_1stlevel_size k)) (mallocs s)
        - (pd_specific (pds s self) ` {1..<key_1stlevel_size k} - {0}) \<and>
    (\<forall>i < key_1stlevel_size k. \<forall>j < key_2ndlevel_size k. pd_specific (pds s self) i \<noteq> 0 \<longrightarrow>
      kd_data (key_data_at (deallocate_tsd k call self s) (pd_specific (pds s self) i) j) = 0) \<and>
    \<not> pd_specific_used (pds (deallocate_tsd k call self s) self)"
  using deallocate_tsd_heap [OF assms] deallocate_tsd_clears(1) [of k call self s] by blast

definition ex_tsd :: nptl where
  "ex_tsd = (upd_pd ex_pd (\<lambda>p. p\<lparr>pd_specific := (\<lambda>i. if i = 0 then 0x700 else 0x800), pd_specific_used := True\<rparr>) ex_one)
    \<lparr>mallocs := {0x800, 0x900}, pthread_keys := (\<lambda>i. \<lparr>ks_seq = 1, ks_destr = 0x42\<rparr>),
     key_data_at := (\<lambda>l i. if l = 0x700 \<and> i = 1 then \<lparr>kd_seq = 1, kd_data = 0x900\<rparr> else \<lparr>kd_seq = 0, kd_data = 0\<rparr>)\<rparr>"

theorem tsd_destructors_run_once_witness:
  "mallocs (deallocate_tsd ex_kern (\<lambda>f d s. s\<lparr>mallocs := mallocs s - {d}\<rparr>) ex_pd ex_tsd) = {}"
proof -
  have h: "heap_only (\<lambda>f d s. s\<lparr>mallocs := mallocs s - {d}\<rparr>) (\<lambda>f d m. m - {d})"
    by (simp add: heap_only_def)
  have u: "pd_specific_used (pds ex_tsd ex_pd)" and m: "mallocs ex_tsd = {0x800, 0x900}"
    and sp: "pd_specific (pds ex_tsd ex_pd) = (\<lambda>i. if i = 0 then 0x700 else 0x800)"
    by (simp_all add: ex_tsd_def)
  have d: "\<forall>i j. i < j \<and> j < key_1stlevel_size ex_kern \<longrightarrow> pd_specific (pds ex_tsd ex_pd) i \<noteq> 0 \<longrightarrow>
      pd_specific (pds ex_tsd ex_pd) i \<noteq> pd_specific (pds ex_tsd ex_pd) j"
    by (auto simp: sp)
  have "due_all ex_kern ex_pd ex_tsd 0 (key_1stlevel_size ex_kern) = [(0x42, 0x900)]"
    by (simp add: ex_tsd_def due_all_def due_block_def due_def Let_def upt_rec)
  moreover have "{1..<key_1stlevel_size ex_kern} = {1}" by auto
  then have "pd_specific (pds ex_tsd ex_pd) ` {1..<key_1stlevel_size ex_kern} = {0x800}"
    by (simp add: sp)
  ultimately show ?thesis
    using tsd_destructors_run_once [OF h _ u d] by (auto simp: m)
qed

subsection \<open>The child of a fork\<close>

definition ex_links :: links where
  "ex_links = \<lparr>lnext = (\<lambda>x. x)(0x10 := 0x100, 0x100 := 0x10), lprev = (\<lambda>x. x)(0x10 := 0x100, 0x100 := 0x10)\<rparr>"

lemma ex_links_dll: "dll ex_links 0x10 [0x100]" "dll ex_links 0x20 []"
  by (simp_all add: dll_def ex_links_def)

text \<open>C34: a \<open>fork\<close> may cut an operation on the two lists of stacks between any two of its stores: the first part of
  \<open>__reclaim_stacks\<close> makes both lists whole again, and its assertion holds. An addition that can be seen from the next element
  of either list is completed; one that cannot be seen yet has not taken place, one that was complete stays. A deletion
  is replayed, whichever of its two stores had happened. The other elements keep their order. The address of an
  element is even and not 0.\<close>

theorem fork_repairs_the_lists:
  assumes "dll h used xs" "dll h cache ys" "set (used # xs) \<inter> set (cache # ys) = {}" "elem AND 1 = 0" "elem \<noteq> 0"
  shows "(\<forall>l h'. elem \<notin> set (used # xs) \<union> set (cache # ys) \<and> l \<in> {used, cache} \<and> add_started h l elem h' \<longrightarrow>
      (\<exists>h''. repair_lists used cache (elem OR 1) h' = Some h'' \<and>
        dll h'' used (if l = used then elem # xs else xs) \<and> dll h'' cache (if l = used then ys else elem # ys))) \<and>
    (\<forall>h'. elem \<notin> set (used # xs) \<union> set (cache # ys) \<and>
        (\<forall>x. x \<noteq> elem \<longrightarrow> lnext h' x = lnext h x \<and> lprev h' x = lprev h x) \<longrightarrow>
      (\<exists>h''. repair_lists used cache (elem OR 1) h' = Some h'' \<and> dll h'' used xs \<and> dll h'' cache ys)) \<and>
    repair_lists used cache (elem OR 1) h = Some h \<and>
    (\<forall>h'. elem \<in> set xs \<union> set ys \<and> del_started h elem h' \<longrightarrow>
      (\<exists>h''. repair_lists used cache elem h' = Some h'' \<and>
        dll h'' used (remove1 elem xs) \<and> dll h'' cache (remove1 elem ys)))"
  using repair_whole [OF assms] repair_add_invisible [OF assms(1,2,4,5)] by blast

theorem fork_repairs_the_lists_witness:
  "(\<exists>h''. repair_lists 0x10 0x20 (0x200 OR 1) (ex_links\<lparr>lprev := (lprev ex_links)(0x20 := 0x200)\<rparr>) = Some h'' \<and>
      dll h'' 0x10 [0x100] \<and> dll h'' 0x20 [0x200]) \<and>
    (\<exists>h''. repair_lists 0x10 0x20 0x100 (ex_links\<lparr>lprev := (lprev ex_links)(0x10 := 0x10)\<rparr>) = Some h'' \<and>
      dll h'' 0x10 [] \<and> dll h'' 0x20 [])"
proof
  have "add_started ex_links 0x20 0x200 (ex_links\<lparr>lprev := (lprev ex_links)(0x20 := 0x200)\<rparr>)"
    by (simp add: add_started_def ex_links_def)
  then show "\<exists>h''. repair_lists 0x10 0x20 (0x200 OR 1) (ex_links\<lparr>lprev := (lprev ex_links)(0x20 := 0x200)\<rparr>) = Some h'' \<and>
      dll h'' 0x10 [0x100] \<and> dll h'' 0x20 [0x200]"
    using fork_repairs_the_lists [OF ex_links_dll, of "0x200"] by fastforce
  have "del_started ex_links 0x100 (ex_links\<lparr>lprev := (lprev ex_links)(0x10 := 0x10)\<rparr>)"
    by (simp add: del_started_def ex_links_def)
  then show "\<exists>h''. repair_lists 0x10 0x20 0x100 (ex_links\<lparr>lprev := (lprev ex_links)(0x10 := 0x10)\<rparr>) = Some h'' \<and>
      dll h'' 0x10 [] \<and> dll h'' 0x20 []"
    using fork_repairs_the_lists [OF ex_links_dll, of "0x100"] by fastforce
qed







subsection \<open>Executable stacks\<close>

text \<open>If \<open>__make_stacks_executable\<close> reports no error, every byte above the guard of every stack, used or
  cached, is executable, and the guards are as before.\<close>

theorem stacks_made_executable:
  assumes "pool_inv s" "make_stacks_executable k main_err s = (None, t)"
  shows "pool_inv t \<and> (\<forall>p \<in> set (sys_stacks s). \<forall>a.
    in_range (pd_stackblock (pds s p)) (pd_stackblock_size (pds s p)) a \<longrightarrow>
    \<not> in_range (pd_stackblock (pds s p)) (pd_guardsize (pds s p)) a \<longrightarrow> prots t a = PROT_RWX)"
  using make_stacks_executable_spec(1,3) [OF assms] by blast

theorem stacks_made_executable_witness:
  "\<exists>t. make_stacks_executable ex_kern None ex_one = (None, t) \<and> prots t 0x10080000 = PROT_RWX"
proof -
  obtain t where t: "make_stacks_executable ex_kern None ex_one = (None, t)"
    by (simp add: make_stacks_executable_def change_stack_perm_def mprotect_def Let_def)
  have "ex_pd \<in> set (sys_stacks ex_one)" by (simp add: sys_stacks_def)
  moreover have "pd_guardsize (pds ex_one ex_pd) = 0x1000" by (simp add: ex_one_def ex_create_simps)
  ultimately have "prots t 0x10080000 = PROT_RWX"
    using stacks_made_executable [OF ex_one_inv t] by (auto simp: in_range_def)
  then show ?thesis using t by blast
qed

subsection \<open>Attributes\<close>

text \<open>C14: the heap blocks an attribute of \<open>pthread_getattr_np\<close> holds are given back by \<open>pthread_attr_destroy\<close>,
  unless the thread was created through the old interface: its flags, copied into the attribute, then say that there
  is no extension, and the blocks are lost.\<close>

theorem getattr_then_destroy:
  assumes "malloc_ok k" "at_extension a = None" "0 \<notin> mallocs s"
    and "getattr_np k pe (Inr a) getaff thread s = (None, Some b, s')"
  shows "mallocs (attr_destroy b s') =
    mallocs s \<union> (if ATTR_OLDATTR \<in> pd_flags (pds s thread) then attr_blocks b else {})"
  using assms
proof (cases rule: getattr_np_owns)
  case (1 a')
  then show ?thesis
    using attr_destroy_owns [of "mallocs s" b s'] by (auto simp: owns_def attr_destroy_def)
qed

definition ex_proc :: proc_env where
  "ex_proc = \<lparr>pe_maps = Inl ENOENT, pe_rlimit = Inl EINVAL, pe_stack_end = 0, pe_pagesize = 0x1000\<rparr>"

lemma ex_getattr: "\<exists>b s'. getattr_np ex_kern ex_proc (Inr ex_attr) (\<lambda>n. Inr [1, 0]) ex_pd ex_one = (None, Some b, s')"
  by (simp add: getattr_np_def getattr_base_def getattr_cpuset_def affinity_loop.simps realloc_def malloc_def
      attr_setaffinity_def attr_extension_def store_cpuset_def Let_def ex_kern_def ex_attr_def)

theorem getattr_then_destroy_witness:
  "\<exists>b s'. getattr_np ex_kern ex_proc (Inr ex_attr) (\<lambda>n. Inr [1, 0]) ex_pd ex_one = (None, Some b, s') \<and>
    mallocs (attr_destroy b s') = {}"
proof -
  obtain b s' where r: "getattr_np ex_kern ex_proc (Inr ex_attr) (\<lambda>n. Inr [1, 0]) ex_pd ex_one = (None, Some b, s')"
    using ex_getattr by blast
  show ?thesis using getattr_then_destroy [OF ex_malloc_ok _ _ r] r by auto
qed

text \<open>For a thread on a block of memory, \<open>pthread_getattr_np\<close> reports the stack as the block without the
  guard: the reported range ends at the end of the block and starts right above the guard in force, while the guard size
  it reports is the one that was asked for.\<close>

theorem getattr_reports_the_stack:
  assumes "getattr_np k pe (Inr a) getaff thread s = (None, Some b, s')" "pd_stackblock (pds s thread) \<noteq> 0"
  shows "at_stackaddr b = pd_stackblock (pds s thread) + pd_stackblock_size (pds s thread) \<and>
    at_stackaddr b - at_stacksize b = pd_stackblock (pds s thread) + pd_guardsize (pds s thread) \<and>
    at_guardsize b = pd_reported_guardsize (pds s thread)"
  using getattr_np_report [OF assms] by blast

theorem getattr_reports_the_stack_witness:
  "\<exists>b s'. getattr_np ex_kern ex_proc (Inr ex_attr) (\<lambda>n. Inr [1, 0]) ex_pd ex_one = (None, Some b, s') \<and>
    at_stackaddr b = 0x10101000"
proof -
  obtain b s' where r: "getattr_np ex_kern ex_proc (Inr ex_attr) (\<lambda>n. Inr [1, 0]) ex_pd ex_one = (None, Some b, s')"
    using ex_getattr by blast
  show ?thesis using getattr_reports_the_stack [OF r] r by auto
qed

end
