(* ===== verification/Spawn_Util.thy ===== *)
theory Spawn_Util
  imports Linux_Prelude
begin

text \<open>
  The helpers of \<open>gspawn.c\<close> (GLib 2.60.7): transfers that retry after \<open>EINTR\<close>, the parser of
  descriptor numbers, the reports a child sends to its parent, and the check of exit statuses. A
  system call that is retried answers from a list of results; \<open>None\<close> is a call that has not
  returned when the list is used up.
\<close>

subsection \<open>Transfers\<close>

text \<open>A system call returns a count or an error.\<close>

type_synonym answers = "(errno + nat) list"

text \<open>\<open>write_all\<close>: the result, the number of bytes left, and the remaining answers.\<close>

fun write_all :: "nat \<Rightarrow> answers \<Rightarrow> (bool \<times> nat \<times> answers) option" where
  "write_all to_write as =
    (if to_write = 0 then Some (True, 0, as)
     else case as of
       [] \<Rightarrow> None
     | Inl e # as \<Rightarrow> if e \<noteq> EINTR then Some (False, to_write, as) else write_all to_write as
     | Inr count # as \<Rightarrow> write_all (to_write - count) as)"

declare write_all.simps [simp del]

text \<open>
  The errors of \<open>gspawn.c\<close>; \<open>G_UNIX_ERROR\<close> is the one of a pipe that cannot be opened,
  \<open>G_SHELL_ERROR\<close> the one of a command line that cannot be parsed, and
  \<open>CRITICAL_WARNING\<close> stands for a failed \<open>g_return_val_if_fail\<close>, which sets no error.
\<close>

datatype gspawn_error =
    CRITICAL_WARNING | G_UNIX_ERROR | G_SHELL_ERROR | G_SPAWN_ERROR_FORK | G_SPAWN_ERROR_READ | G_SPAWN_ERROR_CHDIR | G_SPAWN_ERROR_FAILED
  | G_SPAWN_EXIT_ERROR int | G_SPAWN_EXEC_ERROR int

text \<open>
  \<open>read_ints\<close> on a pipe: an answer holds the bytes one \<open>read\<close> delivers, none at the end of the
  pipe. An \<open>int\<close> has four bytes; \<open>n\<close> is the number of integers the buffer holds.
\<close>

type_synonym byte_answers = "(errno + 8 word list) list"

fun read_bytes :: "nat \<Rightarrow> 8 word list \<Rightarrow> byte_answers \<Rightarrow> ((errno + 8 word list) \<times> byte_answers) option" where
  "read_bytes n buf as =
    (if 4 * 2 \<le> length buf then Some (Inr buf, as)
     else case as of
       [] \<Rightarrow> None
     | Inl e # as \<Rightarrow> if e = EINTR then read_bytes n buf as else Some (Inl e, as)
     | Inr chunk # as \<Rightarrow>
         (let chunk = take (4 * n - length buf) chunk in
          if chunk = [] then Some (Inr buf, as) else read_bytes n (buf @ chunk) as))"

declare read_bytes.simps [simp del]

definition read_ints :: "nat \<Rightarrow> byte_answers \<Rightarrow> ((gspawn_error + 8 word list \<times> nat) \<times> byte_answers) option" where
  "read_ints n_ints_in_buf as =
    (case read_bytes n_ints_in_buf [] as of
       None \<Rightarrow> None
     | Some (Inl e, as) \<Rightarrow> Some (Inl G_SPAWN_ERROR_FAILED, as)
     | Some (Inr buf, as) \<Rightarrow> Some (Inr (buf, length buf div 4), as))"

text \<open>An \<open>int\<close> of the machine, in little-endian order.\<close>

definition int_bytes :: "int \<Rightarrow> 8 word list" where
  "int_bytes i = map (\<lambda>n. word_of_int (drop_bit (8 * n) i)) [0..<4]"

definition bytes_int :: "8 word list \<Rightarrow> int" where
  "bytes_int bs = sint (word_of_int (foldr (\<lambda>b acc. uint b + 256 * acc) (take 4 bs) 0) :: 32 word)"

text \<open>What \<open>write_err_and_exit\<close> puts into the pipe before the child exits.\<close>

definition err_report :: "int \<Rightarrow> int \<Rightarrow> 8 word list" where
  "err_report msg en = int_bytes msg @ int_bytes en"

datatype read_result = READ_FAILED | READ_OK | READ_EOF

text \<open>\<open>read_data\<close>: what is read is appended to \<open>str\<close>; a buffer has 4096 bytes.\<close>

fun read_data :: "8 word list \<Rightarrow> byte_answers \<Rightarrow> (read_result \<times> 8 word list \<times> byte_answers) option" where
  "read_data str [] = None"
| "read_data str (Inl e # as) = (if e = EINTR then read_data str as else Some (READ_FAILED, str, as))"
| "read_data str (Inr bytes # as) =
    (let bytes = take 4096 bytes in
     if bytes = [] then Some (READ_EOF, str, as) else Some (READ_OK, str @ bytes, as))"

subsection \<open>Descriptor numbers\<close>

definition G_MAXINT :: int where
  "G_MAXINT = 2 ^ 31 - 1"

definition is_digit :: "char \<Rightarrow> bool" where
  "is_digit c \<longleftrightarrow> 48 \<le> (of_char c :: int) \<and> (of_char c :: int) \<le> 57"

fun fd_digits :: "int \<Rightarrow> string \<Rightarrow> int" where
  "fd_digits fd [] = fd"
| "fd_digits fd (c # p) =
    (if \<not> is_digit c then - 1
     else let d = of_char c - 48 in
       if fd > G_MAXINT div 10 \<or> (fd = G_MAXINT div 10 \<and> d > G_MAXINT mod 10) then - 1
       else fd_digits (fd * 10 + d) p)"

definition filename_to_fd :: "string \<Rightarrow> int" where
  "filename_to_fd p = (if p = [] then - 1 else fd_digits 0 p)"

subsection \<open>Exit statuses\<close>

text \<open>The macros of \<open>sys/wait.h\<close>, on Linux.\<close>

definition WTERMSIG :: "int \<Rightarrow> int" where
  "WTERMSIG status = status AND 127"

definition WIFEXITED :: "int \<Rightarrow> bool" where
  "WIFEXITED status \<longleftrightarrow> WTERMSIG status = 0"

definition WEXITSTATUS :: "int \<Rightarrow> int" where
  "WEXITSTATUS status = drop_bit 8 (status AND 65280)"

definition WIFSIGNALED :: "int \<Rightarrow> bool" where
  "WIFSIGNALED status \<longleftrightarrow> 0 < WTERMSIG status \<and> WTERMSIG status < 127"

definition WIFSTOPPED :: "int \<Rightarrow> bool" where
  "WIFSTOPPED status \<longleftrightarrow> status AND 255 = 127"

definition g_spawn_check_exit_status :: "int \<Rightarrow> gspawn_error option" where
  "g_spawn_check_exit_status exit_status =
    (if WIFEXITED exit_status
     then if WEXITSTATUS exit_status \<noteq> 0 then Some (G_SPAWN_EXIT_ERROR (WEXITSTATUS exit_status))
          else None
     else if WIFSIGNALED exit_status then Some G_SPAWN_ERROR_FAILED
     else if WIFSTOPPED exit_status then Some G_SPAWN_ERROR_FAILED
     else Some G_SPAWN_ERROR_FAILED)"

subsection \<open>Lemmas\<close>

text \<open>
  The parser accepts exactly the digit strings whose value is an \<open>int\<close>; no intermediate value
  leaves the range.
\<close>

definition decimal :: "int \<Rightarrow> string \<Rightarrow> int" where
  "decimal = foldl (\<lambda>n c. n * 10 + (of_char c - 48))"

lemma decimal_ge:
  assumes "0 \<le> n" "list_all is_digit p" shows "n \<le> decimal n p"
  using assms
proof (induction p arbitrary: n)
  case Nil
  then show ?case by (simp add: decimal_def)
next
  case (Cons c p)
  have d: "0 \<le> (of_char c :: int) - 48" using Cons.prems(2) by (simp add: is_digit_def)
  then have "n * 10 + (of_char c - 48) \<le> decimal (n * 10 + (of_char c - 48)) p"
    using Cons by (intro Cons.IH) auto
  moreover have "n \<le> n * 10 + (of_char c - 48)" using d Cons.prems(1) by simp
  ultimately show ?case by (simp add: decimal_def)
qed

lemma fd_digits_eq:
  assumes "0 \<le> fd" "fd \<le> G_MAXINT"
  shows "fd_digits fd p =
    (if list_all is_digit p \<and> decimal fd p \<le> G_MAXINT then decimal fd p else - 1)"
  using assms
proof (induction p arbitrary: fd)
  case Nil
  then show ?case by (simp add: decimal_def)
next
  case (Cons c p)
  show ?case
  proof (cases "is_digit c")
    case False
    then show ?thesis by simp
  next
    case True
    let ?d = "of_char c - 48 :: int" and ?n = "fd * 10 + (of_char c - 48) :: int"
    have d: "0 \<le> ?d" "?d \<le> 9" using True by (simp_all add: is_digit_def)
    have over: "(fd > G_MAXINT div 10 \<or> (fd = G_MAXINT div 10 \<and> ?d > G_MAXINT mod 10)) \<longleftrightarrow> G_MAXINT < ?n"
      using d Cons.prems by (auto simp: G_MAXINT_def)
    show ?thesis
    proof (cases "G_MAXINT < ?n")
      case big: True
      have "list_all is_digit p \<Longrightarrow> G_MAXINT < decimal ?n p"
        using big decimal_ge [of ?n p] d Cons.prems by simp
      then show ?thesis using True over big by (auto simp: Let_def decimal_def)
    next
      case False
      then have no: "\<not> (fd > G_MAXINT div 10 \<or> (fd = G_MAXINT div 10 \<and> ?d > G_MAXINT mod 10))"
        unfolding over by simp
      have "fd_digits fd (c # p) = fd_digits ?n p"
        using True unfolding fd_digits.simps Let_def if_not_P [OF no] by simp
      also have "\<dots> = (if list_all is_digit p \<and> decimal ?n p \<le> G_MAXINT then decimal ?n p else - 1)"
        using False d Cons.prems by (intro Cons.IH) auto
      finally show ?thesis using True by (simp add: decimal_def)
    qed
  qed
qed

lemma filename_to_fd_eq:
  "filename_to_fd p =
    (if p \<noteq> [] \<and> list_all is_digit p \<and> decimal 0 p \<le> G_MAXINT then decimal 0 p else - 1)"
  by (simp add: filename_to_fd_def fd_digits_eq G_MAXINT_def)

text \<open>
  \<open>write_all\<close> succeeds only when every byte is written, and fails only on an error other than
  \<open>EINTR\<close>.
\<close>

lemma write_all_result:
  assumes "write_all n as = Some (ok, left, as')"
  shows "ok \<longleftrightarrow> left = 0" "\<not> ok \<Longrightarrow> \<exists>e. e \<noteq> EINTR \<and> Inl e \<in> set as"
proof -
  have "(ok \<longleftrightarrow> left = 0) \<and> (\<not> ok \<longrightarrow> (\<exists>e. e \<noteq> EINTR \<and> Inl e \<in> set as))"
    using assms
  proof (induction as arbitrary: n)
    case Nil
    then show ?case by (auto simp: write_all.simps split: if_splits)
  next
    case (Cons a as)
    show ?case
    proof (cases a)
      case (Inl e)
      then show ?thesis using Cons.prems Cons.IH [of n]
        by (subst (asm) write_all.simps) (auto split: if_splits)
    next
      case (Inr m)
      then show ?thesis using Cons.prems Cons.IH [of "n - m"]
        by (subst (asm) write_all.simps) (auto split: if_splits)
    qed
  qed
  then show "ok \<longleftrightarrow> left = 0" "\<not> ok \<Longrightarrow> \<exists>e. e \<noteq> EINTR \<and> Inl e \<in> set as" by auto
qed

subsection \<open>Printed numbers\<close>

text \<open>The kernel prints the entries of \<open>/proc/self/fd\<close> in decimal.\<close>

definition digit_char :: "nat \<Rightarrow> char" where
  "digit_char d = char_of (48 + d)"

fun print_decimal :: "nat \<Rightarrow> string" where
  "print_decimal n = (if n < 10 then [digit_char n] else print_decimal (n div 10) @ [digit_char (n mod 10)])"

declare print_decimal.simps [simp del]

lemma digit_char_value:
  assumes "d < 10" shows "(of_char (digit_char d) :: int) = 48 + int d"
proof -
  have "(of_char (digit_char d) :: nat) = 48 + d" using assms by (simp add: digit_char_def)
  then have "int (of_char (digit_char d)) = 48 + int d" by simp
  then show ?thesis by (simp only: of_nat_of_char)
qed

lemma is_digit_digit_char: "d < 10 \<Longrightarrow> is_digit (digit_char d)"
  by (simp add: is_digit_def digit_char_value)

lemma print_decimal_digits: "print_decimal n \<noteq> [] \<and> list_all is_digit (print_decimal n)"
  by (induction n rule: print_decimal.induct)
    (subst (1 2) print_decimal.simps, auto simp: is_digit_digit_char)

lemma decimal_print: "decimal 0 (print_decimal n) = int n"
proof (induction n rule: print_decimal.induct)
  case (1 n)
  show ?case
  proof (cases "n < 10")
    case True
    then show ?thesis by (subst print_decimal.simps) (simp add: decimal_def digit_char_value)
  next
    case False
    have "decimal 0 (print_decimal n) = decimal 0 (print_decimal (n div 10)) * 10 + int (n mod 10)"
      using False by (subst print_decimal.simps) (simp add: decimal_def digit_char_value)
    also have "\<dots> = int (n div 10 * 10 + n mod 10)" using 1 [OF False]
      by (simp only: of_nat_add of_nat_mult of_nat_numeral)
    finally show ?thesis by (simp only: div_mult_mod_eq)
  qed
qed

lemma filename_to_fd_print: "int n \<le> G_MAXINT \<Longrightarrow> filename_to_fd (print_decimal n) = int n"
  using print_decimal_digits [of n] by (simp add: filename_to_fd_eq decimal_print)

end
