(* ===== verification/Spawn_Exec.thy ===== *)
theory Spawn_Exec
  imports Linux_Prelude
begin

text \<open>
  \<open>g_execute\<close> of \<open>gspawn.c\<close> with the shell fallback \<open>script_execute\<close>: the \<open>execvp\<close> of GLib. The
  system call is a parameter that gives the error \<open>execve\<close> returns with for a file, an argument
  vector and an environment (\<open>None\<close> for the inherited one), or \<open>None\<close> where the process image is
  replaced.
\<close>

type_synonym environment = "string list option"
type_synonym exec_call = "string \<Rightarrow> string list \<Rightarrow> environment \<Rightarrow> errno option"

text \<open>
  How an attempt ends: the image is replaced by a file started with an argument vector, an
  error is returned, or the kernel is handed an argument vector with no terminating null
  pointer, and reads past its end.
\<close>

datatype exec_end = Replaced string "string list" | Failed errno | Unterminated

subsection \<open>The shell fallback\<close>

text \<open>An argument vector in memory: null pointers are \<open>None\<close>. The kernel reads up to the first.\<close>

fun terminated_args :: "string option list \<Rightarrow> string list option" where
  "terminated_args [] = None"
| "terminated_args (None # xs) = Some []"
| "terminated_args (Some x # xs) = map_option (Cons x) (terminated_args xs)"

fun script_copy :: "string option list \<Rightarrow> nat \<Rightarrow> string option list \<Rightarrow> string option list" where
  "script_copy argv 0 new_argv = new_argv"
| "script_copy argv (Suc argc) new_argv =
    script_copy argv argc (new_argv[Suc argc + 1 := argv ! Suc argc])"

definition bin_sh :: string where
  "bin_sh = ''/bin/sh''"

definition script_argv :: "string \<Rightarrow> string list \<Rightarrow> string option list" where
  "script_argv file argv =
    (let argc = length argv;
         new_argv = replicate (argc + 2) None;
         new_argv = new_argv[0 := Some bin_sh];
         new_argv = new_argv[1 := Some file]
     in script_copy (map Some argv @ [None]) argc new_argv)"

definition script_execute :: "exec_call \<Rightarrow> string \<Rightarrow> string list \<Rightarrow> environment \<Rightarrow> exec_end" where
  "script_execute ex file argv envp =
    (case terminated_args (script_argv file argv) of
       None \<Rightarrow> Unterminated
     | Some new_argv \<Rightarrow>
         (case ex bin_sh new_argv envp of None \<Rightarrow> Replaced bin_sh new_argv | Some e \<Rightarrow> Failed e))"

text \<open>One name: the file itself, then the shell if it has no known format.\<close>

definition try_name :: "exec_call \<Rightarrow> string \<Rightarrow> string list \<Rightarrow> environment \<Rightarrow> exec_end" where
  "try_name ex name argv envp =
    (case ex name argv envp of
       None \<Rightarrow> Replaced name argv
     | Some e \<Rightarrow> if e = ENOEXEC then script_execute ex name argv envp else Failed e)"

subsection \<open>The search\<close>

fun my_strchrnul :: "string \<Rightarrow> char \<Rightarrow> string" where
  "my_strchrnul [] c = []"
| "my_strchrnul (p # ps) c = (if p \<noteq> c then my_strchrnul ps c else p # ps)"

lemma my_strchrnul_length [termination_simp]: "length (my_strchrnul p c) \<le> length p"
  by (induction p) auto

text \<open>The errors after which the next directory is tried.\<close>

definition try_next :: "errno \<Rightarrow> bool" where
  "try_next e \<longleftrightarrow> e \<in> {EACCES, ENOENT, ESTALE, ENOTDIR, ENODEV, ETIMEDOUT}"

text \<open>
  The loop over \<open>PATH\<close>. The pointer \<open>p\<close> is the rest of the string, so the directory is what
  lies before it; the name is put together in front of the slash and the file that stand at the
  top of the buffer.
\<close>

function search_loop ::
    "exec_call \<Rightarrow> string \<Rightarrow> string list \<Rightarrow> environment \<Rightarrow> bool \<Rightarrow> string \<Rightarrow> exec_end" where
  "search_loop ex file argv envp got_eacces path =
    (let p = my_strchrnul path CHR '':'';
         dir = take (length path - length p) path;
         startp = (if dir = [] then file else dir @ ''/'' @ file)
     in case try_name ex startp argv envp of
          Replaced f as \<Rightarrow> Replaced f as
        | Unterminated \<Rightarrow> Unterminated
        | Failed e \<Rightarrow>
            if \<not> try_next e then Failed e
            else let got_eacces = (got_eacces \<or> e = EACCES) in
              if p \<noteq> [] then search_loop ex file argv envp got_eacces (tl p)
              else if got_eacces then Failed EACCES else Failed e)"
  by pat_completeness auto
termination
proof (relation "measure (\<lambda>(ex, file, argv, envp, got, path). length path)", goal_cases)
  case (2 ex prog argv envp got path p dir startp e got')
  have "length (tl p) < length p" using 2(7) by (cases p) auto
  also have "\<dots> \<le> length path" using my_strchrnul_length 2(1) by simp
  finally show ?case by simp
qed simp

declare search_loop.simps [simp del]

text \<open>
  The environment variables are read by \<open>g_environ_getenv\<close> in the given environment and by
  \<open>g_getenv\<close> in the process's own, neither of which is in this repository.
\<close>

record exec_env =
  ee_exec :: exec_call
  ee_environ_getenv :: "environment \<Rightarrow> string \<Rightarrow> string option"
  ee_getenv :: "string \<Rightarrow> string option"

definition search_path_value :: "exec_env \<Rightarrow> environment \<Rightarrow> bool \<Rightarrow> bool \<Rightarrow> string" where
  "search_path_value ee envp search_path search_path_from_envp =
    (let path = (if search_path_from_envp then ee_environ_getenv ee envp ''PATH'' else None);
         path = (if search_path \<and> path = None then ee_getenv ee ''PATH'' else path)
     in case path of None \<Rightarrow> ''/bin:/usr/bin:.'' | Some path \<Rightarrow> path)"

definition g_execute :: "exec_env \<Rightarrow> string \<Rightarrow> string list \<Rightarrow> environment \<Rightarrow> bool \<Rightarrow> bool \<Rightarrow> exec_end" where
  "g_execute ee file argv envp search_path search_path_from_envp =
    (if file = [] then Failed ENOENT
     else if \<not> (search_path \<or> search_path_from_envp) \<or> CHR ''/'' \<in> set file
     then try_name (ee_exec ee) file argv envp
     else search_loop (ee_exec ee) file argv envp False
            (search_path_value ee envp search_path search_path_from_envp))"

subsection \<open>Lemmas\<close>

text \<open>The new argument vector is the shell, the file, and the arguments after the first.\<close>

lemma script_copy_eq:
  assumes "argc < length argv" "length new_argv = length argv + 1"
  shows "script_copy argv argc new_argv =
    take 2 new_argv @ take argc (tl argv) @ drop (argc + 2) new_argv"
  using assms
proof (induction argc arbitrary: new_argv)
  case 0
  then show ?case by (simp add: numeral_2_eq_2)
next
  case (Suc argc)
  have "script_copy argv (Suc argc) new_argv =
      take 2 new_argv @ take argc (tl argv) @ drop (argc + 2) (new_argv[Suc argc + 1 := argv ! Suc argc])"
    using Suc by simp
  also have "drop (argc + 2) (new_argv[Suc argc + 1 := argv ! Suc argc])
      = argv ! Suc argc # drop (Suc argc + 2) new_argv"
    using Suc.prems by (subst Cons_nth_drop_Suc [symmetric]) auto
  also have "take argc (tl argv) @ argv ! Suc argc # drop (Suc argc + 2) new_argv
      = take (Suc argc) (tl argv) @ drop (Suc argc + 2) new_argv"
    using Suc.prems by (simp add: take_Suc_conv_app_nth nth_tl)
  finally show ?case by simp
qed

lemma terminated_args_Some: "terminated_args (map Some xs @ None # ys) = Some xs"
  by (induction xs) auto

lemma script_argv_nonempty:
  assumes "argv \<noteq> []"
  shows "terminated_args (script_argv file argv) = Some (bin_sh # file # tl argv)"
proof -
  obtain a as where argv: "argv = a # as" using assms by (cases argv) auto
  have "script_argv file argv =
      script_copy (map Some argv @ [None]) (length argv)
        ((replicate (length argv + 2) None)[0 := Some bin_sh, 1 := Some file])"
    by (simp add: script_argv_def Let_def)
  also have "\<dots> = Some bin_sh # Some file # map Some as @ [None]"
    by (subst script_copy_eq) (simp_all add: argv numeral_2_eq_2 take_Suc_conv_app_nth nth_append)
  finally have "script_argv file argv = Some bin_sh # Some file # map Some as @ [None]" .
  then show ?thesis
    using terminated_args_Some [of "bin_sh # file # as" "[]"] by (simp add: argv)
qed

text \<open>With no arguments at all, the vector has no room for the null pointer.\<close>

lemma script_argv_empty: "terminated_args (script_argv file []) = None"
  by (simp add: script_argv_def numeral_2_eq_2)

text \<open>
  The search against its description: the exec_candidates are the file in each directory of the
  colon-separated list, an empty one standing for the current directory; they are tried in order
  until one does not fail with an error of \<open>try_next\<close>.
\<close>

fun split_colons :: "string \<Rightarrow> string list" where
  "split_colons [] = [[]]"
| "split_colons (c # cs) =
    (if c = CHR '':'' then [] # split_colons cs
     else (c # hd (split_colons cs)) # tl (split_colons cs))"

definition exec_candidates :: "string \<Rightarrow> string \<Rightarrow> string list" where
  "exec_candidates file path = map (\<lambda>dir. if dir = [] then file else dir @ ''/'' @ file) (split_colons path)"

fun moves_on :: "exec_end \<Rightarrow> bool" where
  "moves_on (Failed e) \<longleftrightarrow> try_next e"
| "moves_on _ \<longleftrightarrow> False"

definition first_decisive :: "bool \<Rightarrow> exec_end list \<Rightarrow> exec_end" where
  "first_decisive denied rs =
    (case find (\<lambda>r. \<not> moves_on r) rs of
       Some r \<Rightarrow> r
     | None \<Rightarrow> if denied \<or> Failed EACCES \<in> set rs then Failed EACCES else last rs)"

lemma split_colons_step:
  "split_colons path =
    (let p = my_strchrnul path CHR '':'' in
     take (length path - length p) path # (if p = [] then [] else split_colons (tl p)))"
proof (induction path)
  case Nil
  then show ?case by simp
next
  case (Cons c cs)
  show ?case
  proof (cases "c = CHR '':''")
    case True
    then show ?thesis by simp
  next
    case False
    have "length (my_strchrnul cs CHR '':'') \<le> length cs" by (rule my_strchrnul_length)
    then show ?thesis using False Cons by (simp add: Let_def Suc_diff_le)
  qed
qed

lemma search_loop_eq:
  "search_loop ex prog argv envp got path =
    first_decisive got (map (\<lambda>name. try_name ex name argv envp) (exec_candidates prog path))"
proof (induction ex prog argv envp got path rule: search_loop.induct)
  case (1 ex prog argv envp got path)
  let ?p = "my_strchrnul path CHR '':''"
  let ?dir = "take (length path - length ?p) path"
  let ?name = "if ?dir = [] then prog else ?dir @ ''/'' @ prog"
  let ?rest = "if ?p = [] then [] else map (\<lambda>name. try_name ex name argv envp) (exec_candidates prog (tl ?p))"
  have cands: "map (\<lambda>name. try_name ex name argv envp) (exec_candidates prog path)
      = try_name ex ?name argv envp # ?rest"
    unfolding exec_candidates_def by (subst split_colons_step) (simp add: Let_def)
  have loop: "search_loop ex prog argv envp got path =
      (case try_name ex ?name argv envp of
         Replaced f as \<Rightarrow> Replaced f as
       | Unterminated \<Rightarrow> Unterminated
       | Failed e \<Rightarrow>
           if \<not> try_next e then Failed e
           else if ?p \<noteq> [] then search_loop ex prog argv envp (got \<or> e = EACCES) (tl ?p)
           else if got \<or> e = EACCES then Failed EACCES else Failed e)"
    unfolding search_loop.simps [of ex prog argv envp got path] Let_def by (rule refl)
  show ?case
  proof (cases "try_name ex ?name argv envp")
    case (Failed e)
    show ?thesis
    proof (cases "try_next e")
      case False
      then show ?thesis unfolding cands loop Failed by (simp add: first_decisive_def)
    next
      case next_dir: True
      show ?thesis
      proof (cases "?p = []")
        case True
        then show ?thesis unfolding cands loop Failed
          using next_dir by (auto simp: first_decisive_def)
      next
        case False
        have IH: "search_loop ex prog argv envp (got \<or> e = EACCES) (tl ?p) =
            first_decisive (got \<or> e = EACCES) ?rest"
          using "1" [OF refl refl refl Failed _ refl False] next_dir False by simp
        have "?rest \<noteq> []"
          using False by (simp add: exec_candidates_def split_colons_step [of "tl ?p"] Let_def)
        moreover obtain rs where rs: "?rest = rs" by blast
        moreover have "search_loop ex prog argv envp (got \<or> e = EACCES) (tl ?p) =
            first_decisive (got \<or> e = EACCES) rs"
          using IH unfolding rs .
        ultimately show ?thesis unfolding cands loop Failed rs
          using next_dir False by (auto simp: first_decisive_def split: option.splits)
      qed
    qed
  next
    case (Replaced f as)
    then show ?thesis unfolding cands loop Replaced by (simp add: first_decisive_def)
  next
    case Unterminated
    then show ?thesis unfolding cands loop Unterminated by (simp add: first_decisive_def)
  qed
qed

end
