(* ===== verification/Spawn_Fds.thy ===== *)
theory Spawn_Fds
  imports Spawn_Util Spawn_Exec
begin

text \<open>
  Descriptors in a spawned process (\<open>gspawn.c\<close>): the retried system calls, the walk over the
  open descriptors, \<open>do_exec\<close>, which a forked child runs, and \<open>do_posix_spawn\<close>, which replaces
  the fork where no option forbids it. A process is its descriptor table with the flags
  \<open>FD_CLOEXEC\<close>, its working directory, its signal dispositions and its unreaped children.

  Whether a system call fails is decided by the environment: \<open>faults\<close> lists what the next calls
  meet, \<open>Some e\<close> for the error \<open>e\<close> and \<open>None\<close> for a call that goes through; when the list is used
  up every call goes through. So a call that is retried after \<open>EINTR\<close> ends.
\<close>

subsection \<open>A process\<close>

text \<open>What a descriptor refers to; the two ends of a pipe share its number.\<close>

datatype ofile =
    Null_Read | Null_Write | Proc_Fd_Dir | Pipe_Read nat | Pipe_Write nat | Other_File nat

datatype spawn_signal = SIG_CHLD | SIG_INT | SIG_TERM | SIG_HUP | SIG_PIPE
datatype disposition = Default | Ignored | Handler

type_synonym fd_table = "int \<Rightarrow> (ofile \<times> bool) option"

text \<open>What \<open>execve\<close> leaves of a process, and how a child ends.\<close>

record image =
  im_fds :: "int \<Rightarrow> ofile option"
  im_cwd :: string
  im_disp :: "spawn_signal \<Rightarrow> disposition"

text \<open>
  A child runs a program, has exited, was aborted by a failed \<open>g_assert\<close>, or did something C
  leaves undefined.
\<close>

datatype child_end = Running string "string list" image | Exited int | Aborted | Undefined

record proc =
  fds :: fd_table
  open_max :: nat
  cwd :: string
  disp :: "spawn_signal \<Rightarrow> disposition"
  faults :: "errno option list"
  next_pipe :: nat
  next_pid :: int
  children :: "(int \<times> child_end) list"
  orphans :: "(int \<times> child_end) list"
  pipe_data :: "nat \<Rightarrow> 8 word list"

definition next_fault :: "proc \<Rightarrow> errno option \<times> proc" where
  "next_fault p = (case faults p of [] \<Rightarrow> (None, p) | f # fs \<Rightarrow> (f, p\<lparr>faults := fs\<rparr>))"

text \<open>The numbers Linux gives the errors (\<open>errno.h\<close>).\<close>

fun errno_code :: "errno \<Rightarrow> int" where
  "errno_code ENOENT = 2" | "errno_code ESRCH = 3" | "errno_code EINTR = 4"
| "errno_code ENOEXEC = 8" | "errno_code EBADF = 9" | "errno_code ECHILD = 10"
| "errno_code EAGAIN = 11" | "errno_code ENOMEM = 12" | "errno_code EACCES = 13"
| "errno_code EEXIST = 17" | "errno_code ENODEV = 19" | "errno_code ENOTDIR = 20"
| "errno_code EINVAL = 22" | "errno_code EMFILE = 24" | "errno_code EDEADLK = 35"
| "errno_code ENOSYS = 38" | "errno_code ETIMEDOUT = 110" | "errno_code ESTALE = 116"
| "errno_code (E_OTHER n) = n"

subsection \<open>System calls\<close>

definition lowest_fd :: "proc \<Rightarrow> int option" where
  "lowest_fd p = find (\<lambda>fd. fds p fd = None) (map int [0..<open_max p])"

definition sys_open :: "ofile \<Rightarrow> bool \<Rightarrow> proc \<Rightarrow> (errno + int) \<times> proc" where
  "sys_open f cloexec p =
    (case next_fault p of
       (Some e, p) \<Rightarrow> (Inl e, p)
     | (None, p) \<Rightarrow>
         (case lowest_fd p of
            None \<Rightarrow> (Inl EMFILE, p)
          | Some fd \<Rightarrow> (Inr fd, p\<lparr>fds := (fds p)(fd \<mapsto> (f, cloexec))\<rparr>)))"

definition sys_dup2 :: "int \<Rightarrow> int \<Rightarrow> proc \<Rightarrow> (errno + int) \<times> proc" where
  "sys_dup2 fd1 fd2 p =
    (case next_fault p of
       (Some e, p) \<Rightarrow> (Inl e, p)
     | (None, p) \<Rightarrow>
         (case fds p fd1 of
            None \<Rightarrow> (Inl EBADF, p)
          | Some (f, cloexec) \<Rightarrow>
              (Inr fd2, if fd1 = fd2 then p else p\<lparr>fds := (fds p)(fd2 \<mapsto> (f, False))\<rparr>)))"

definition sys_chdir :: "string \<Rightarrow> proc \<Rightarrow> errno option \<times> proc" where
  "sys_chdir dir p =
    (case next_fault p of (Some e, p) \<Rightarrow> (Some e, p) | (None, p) \<Rightarrow> (None, p\<lparr>cwd := dir\<rparr>))"

definition close_fd :: "int \<Rightarrow> proc \<Rightarrow> proc" where
  "close_fd fd p = p\<lparr>fds := (fds p)(fd := None)\<rparr>"

text \<open>\<open>close_and_invalidate\<close>: the value the variable has afterwards, and the process.\<close>

definition close_and_invalidate :: "int \<Rightarrow> proc \<Rightarrow> int \<times> proc" where
  "close_and_invalidate fd p = (if fd < 0 then (fd, p) else (- 1, close_fd fd p))"

text \<open>\<open>fcntl (fd, F_SETFD, FD_CLOEXEC)\<close>; its error for a closed descriptor is ignored.\<close>

definition set_cloexec :: "int \<Rightarrow> int \<Rightarrow> proc \<Rightarrow> int \<times> proc" where
  "set_cloexec data fd p =
    (if fd \<ge> data
     then (0, case fds p fd of
                None \<Rightarrow> p
              | Some (f, cloexec) \<Rightarrow> p\<lparr>fds := (fds p)(fd \<mapsto> (f, True))\<rparr>)
     else (0, p))"

lemma sys_open_EINTR: "sys_open f c p = (Inl EINTR, p') \<Longrightarrow> length (faults p') < length (faults p)"
  by (auto simp: sys_open_def next_fault_def split: list.splits option.splits)

lemma sys_dup2_EINTR: "sys_dup2 fd1 fd2 p = (Inl EINTR, p') \<Longrightarrow> length (faults p') < length (faults p)"
  by (auto simp: sys_dup2_def next_fault_def split: list.splits option.splits)

function sane_dup2 :: "int \<Rightarrow> int \<Rightarrow> proc \<Rightarrow> (errno + int) \<times> proc" where
  "sane_dup2 fd1 fd2 p =
    (case sys_dup2 fd1 fd2 p of
       (Inl e, p) \<Rightarrow> if e = EINTR then sane_dup2 fd1 fd2 p else (Inl e, p)
     | (Inr fd, p) \<Rightarrow> (Inr fd, p))"
  by pat_completeness auto
termination by (relation "measure (\<lambda>(fd1, fd2, p). length (faults p))") (auto simp: sys_dup2_EINTR)

function sane_open :: "ofile \<Rightarrow> bool \<Rightarrow> proc \<Rightarrow> (errno + int) \<times> proc" where
  "sane_open f cloexec p =
    (case sys_open f cloexec p of
       (Inl e, p) \<Rightarrow> if e = EINTR then sane_open f cloexec p else (Inl e, p)
     | (Inr fd, p) \<Rightarrow> (Inr fd, p))"
  by pat_completeness auto
termination by (relation "measure (\<lambda>(f, c, p). length (faults p))") (auto simp: sys_open_EINTR)

declare sane_dup2.simps [simp del] sane_open.simps [simp del]

subsection \<open>The walk over the descriptors\<close>

text \<open>
  \<open>fdwalk\<close> reads \<open>/proc/self/fd\<close>, or tries every number below the limit where the directory
  cannot be opened. The directory's entries come in buffers; \<open>getdents\<close> gives them for the state
  of the process. The inner loop is left by the \<open>break\<close>, the outer one goes on with the next
  buffer.
\<close>

type_synonym walk_fun = "int \<Rightarrow> proc \<Rightarrow> int \<times> proc"

fun walk_names :: "walk_fun \<Rightarrow> int \<Rightarrow> string list \<Rightarrow> int \<Rightarrow> proc \<Rightarrow> int \<times> proc" where
  "walk_names cb dir_fd [] res p = (res, p)"
| "walk_names cb dir_fd (name # names) res p =
    (let fd = filename_to_fd name in
     if fd < 0 \<or> fd = dir_fd then walk_names cb dir_fd names res p
     else case cb fd p of (res, p) \<Rightarrow>
       if res \<noteq> 0 then (res, p) else walk_names cb dir_fd names res p)"

fun walk_bufs :: "walk_fun \<Rightarrow> int \<Rightarrow> string list list \<Rightarrow> int \<Rightarrow> proc \<Rightarrow> int \<times> proc" where
  "walk_bufs cb dir_fd [] res p = (res, p)"
| "walk_bufs cb dir_fd (buf # bufs) res p =
    (case walk_names cb dir_fd buf res p of (res, p) \<Rightarrow> walk_bufs cb dir_fd bufs res p)"

fun walk_range :: "walk_fun \<Rightarrow> int \<Rightarrow> nat \<Rightarrow> int \<Rightarrow> proc \<Rightarrow> int \<times> proc" where
  "walk_range cb fd 0 res p = (res, p)"
| "walk_range cb fd (Suc n) res p =
    (case cb fd p of (res, p) \<Rightarrow> if res \<noteq> 0 then (res, p) else walk_range cb (fd + 1) n res p)"

definition fdwalk :: "(proc \<Rightarrow> string list list) \<Rightarrow> walk_fun \<Rightarrow> proc \<Rightarrow> int \<times> proc" where
  "fdwalk getdents cb p =
    (case sys_open Proc_Fd_Dir False p of
       (Inr dir_fd, p) \<Rightarrow>
         (case walk_bufs cb dir_fd (getdents p) 0 p of (res, p) \<Rightarrow> (res, close_fd dir_fd p))
     | (Inl e, p) \<Rightarrow> walk_range cb 0 (open_max p) 0 p)"

subsection \<open>The forked child\<close>

text \<open>
  What the functions call outside this repository: the \<open>execve\<close> family with the environment, the
  entries of \<open>/proc/self/fd\<close>, the GLib function \<open>g_unix_open_pipe\<close> with its close-on-exec flag,
  the program start of \<open>posix_spawn\<close> (with and without a search), the pieces in which a pipe
  delivers bytes, \<open>_g_spawn_exec_err_to_g_error\<close>, what the calls of a new process meet, and the
  status \<open>waitpid\<close> gives for a child.
\<close>

record spawn_os =
  os_env :: exec_env
  os_getdents :: "proc \<Rightarrow> string list list"
  os_open_pipe :: "bool \<Rightarrow> proc \<Rightarrow> (int \<times> int) option \<times> proc"
  os_posix_spawn :: "bool \<Rightarrow> string \<Rightarrow> string list \<Rightarrow> environment \<Rightarrow> errno option"
  os_pieces :: "8 word list \<Rightarrow> byte_answers"
  os_exec_error :: "int \<Rightarrow> gspawn_error"
  os_child_faults :: "int \<Rightarrow> errno option list"
  os_wait_status :: "int \<Rightarrow> child_end \<Rightarrow> int"

record spawn_opts =
  so_working_directory :: "string option"
  so_argv :: "string list"
  so_envp :: environment
  so_close_descriptors :: bool
  so_search_path :: bool
  so_search_path_from_envp :: bool
  so_stdout_to_null :: bool
  so_stderr_to_null :: bool
  so_child_inherits_stdin :: bool
  so_file_and_argv_zero :: bool
  so_child_setup :: "(proc \<Rightarrow> proc) option"

text \<open>A write of at most \<open>PIPE_BUF\<close> bytes into a pipe is not split.\<close>

definition write_fd :: "int \<Rightarrow> 8 word list \<Rightarrow> proc \<Rightarrow> proc" where
  "write_fd fd bytes p =
    (case fds p fd of
       Some (Pipe_Write n, _) \<Rightarrow> p\<lparr>pipe_data := (pipe_data p)(n := pipe_data p n @ bytes)\<rparr>
     | _ \<Rightarrow> p)"

definition CHILD_CHDIR_FAILED :: int where "CHILD_CHDIR_FAILED = 0"
definition CHILD_EXEC_FAILED :: int where "CHILD_EXEC_FAILED = 1"
definition CHILD_DUP2_FAILED :: int where "CHILD_DUP2_FAILED = 2"
definition CHILD_FORK_FAILED :: int where "CHILD_FORK_FAILED = 3"

definition write_err_and_exit :: "int \<Rightarrow> int \<Rightarrow> errno \<Rightarrow> proc \<Rightarrow> child_end \<times> proc" where
  "write_err_and_exit fd msg en p =
    (Exited 1, write_fd fd (int_bytes (errno_code en)) (write_fd fd (int_bytes msg) p))"

definition redirect_fd :: "int \<Rightarrow> int \<Rightarrow> int \<Rightarrow> proc \<Rightarrow> (child_end \<times> proc) + proc" where
  "redirect_fd child_err_report_fd fd std p =
    (case sane_dup2 fd std p of
       (Inl e, p) \<Rightarrow> Inl (write_err_and_exit child_err_report_fd CHILD_DUP2_FAILED e p)
     | (Inr _, p) \<Rightarrow> Inr (snd (set_cloexec 0 fd p)))"

text \<open>The descriptor is \<open>-1\<close> after a failed \<open>open\<close>; the branch for \<open>stderr\<close> has no \<open>g_assert\<close>.\<close>

definition redirect_null :: "bool \<Rightarrow> ofile \<Rightarrow> int \<Rightarrow> proc \<Rightarrow> (child_end \<times> proc) + proc" where
  "redirect_null asserted f std p =
    (case sane_open f False p of
       (Inl e, p) \<Rightarrow>
         if asserted then Inl (Aborted, p)
         else Inr (snd (close_and_invalidate (- 1) (snd (sane_dup2 (- 1) std p))))
     | (Inr fd, p) \<Rightarrow> Inr (snd (close_and_invalidate fd (snd (sane_dup2 fd std p)))))"

definition image_of :: "proc \<Rightarrow> image" where
  "image_of p =
    \<lparr>im_fds = (\<lambda>fd. case fds p fd of Some (f, False) \<Rightarrow> Some f | _ \<Rightarrow> None),
     im_cwd = cwd p,
     im_disp = (\<lambda>s. if disp p s = Ignored then Ignored else Default)\<rparr>"

definition change_directory :: "string option \<Rightarrow> proc \<Rightarrow> errno option \<times> proc" where
  "change_directory working_directory p =
    (case working_directory of None \<Rightarrow> (None, p) | Some dir \<Rightarrow> sys_chdir dir p)"

definition mark_descriptors :: "spawn_os \<Rightarrow> bool \<Rightarrow> int \<Rightarrow> proc \<Rightarrow> proc" where
  "mark_descriptors os close_descriptors child_err_report_fd p =
    (if close_descriptors then snd (fdwalk (os_getdents os) (set_cloexec 3) p)
     else snd (set_cloexec 0 child_err_report_fd p))"

definition redirect_std ::
    "int \<Rightarrow> int \<Rightarrow> int \<Rightarrow> bool \<Rightarrow> bool \<Rightarrow> ofile \<Rightarrow> proc \<Rightarrow> (child_end \<times> proc) + proc" where
  "redirect_std child_err_report_fd fd std to_null asserted f p =
    (if fd \<ge> 0 then redirect_fd child_err_report_fd fd std p
     else if to_null then redirect_null asserted f std p
     else Inr p)"

definition run_program :: "spawn_os \<Rightarrow> spawn_opts \<Rightarrow> int \<Rightarrow> proc \<Rightarrow> child_end \<times> proc" where
  "run_program os opts child_err_report_fd p =
    (let p = (case so_child_setup opts of None \<Rightarrow> p | Some child_setup \<Rightarrow> child_setup p) in
     case so_argv opts of
       [] \<Rightarrow> (Undefined, p)
     | prog # args \<Rightarrow>
         (case g_execute (os_env os) prog (if so_file_and_argv_zero opts then args else prog # args)
                 (so_envp opts) (so_search_path opts) (so_search_path_from_envp opts) of
            Replaced f as \<Rightarrow> (Running f as (image_of p), p)
          | Unterminated \<Rightarrow> (Undefined, p)
          | Failed e \<Rightarrow> write_err_and_exit child_err_report_fd CHILD_EXEC_FAILED e p))"

definition do_exec ::
    "spawn_os \<Rightarrow> spawn_opts \<Rightarrow> int \<Rightarrow> int \<Rightarrow> int \<Rightarrow> int \<Rightarrow> proc \<Rightarrow> child_end \<times> proc" where
  "do_exec os opts child_err_report_fd stdin_fd stdout_fd stderr_fd p =
    (case change_directory (so_working_directory opts) p of
       (Some e, p) \<Rightarrow> write_err_and_exit child_err_report_fd CHILD_CHDIR_FAILED e p
     | (None, p) \<Rightarrow>
         (let p = mark_descriptors os (so_close_descriptors opts) child_err_report_fd p in
          case redirect_std child_err_report_fd stdin_fd 0 (\<not> so_child_inherits_stdin opts) True
                 Null_Read p of
            Inl r \<Rightarrow> r
          | Inr p \<Rightarrow>
              (case redirect_std child_err_report_fd stdout_fd 1 (so_stdout_to_null opts) True
                      Null_Write p of
                 Inl r \<Rightarrow> r
               | Inr p \<Rightarrow>
                   (case redirect_std child_err_report_fd stderr_fd 2 (so_stderr_to_null opts) False
                           Null_Write p of
                      Inl r \<Rightarrow> r
                    | Inr p \<Rightarrow> run_program os opts child_err_report_fd p))))"

subsection \<open>\<open>posix_spawn\<close>\<close>

datatype file_action = Dup2 int int | Close int

text \<open>
  The state of \<open>do_posix_spawn\<close>: its variables \<open>r\<close>, \<open>file_actions\<close>, \<open>child_close\<close> and
  \<open>parent_close_fds\<close>. A step is skipped when \<open>r\<close> is set: that is the jump to the clean-up.
\<close>

record spawn_build =
  sb_r :: "errno option"
  sb_actions :: "file_action list"
  sb_child_close :: "int list"
  sb_parent_close :: "int list"
  sb_proc :: proc

definition lib_call :: "spawn_build \<Rightarrow> spawn_build" where
  "lib_call b = (case next_fault (sb_proc b) of (r, p) \<Rightarrow> b\<lparr>sb_r := r, sb_proc := p\<rparr>)"

definition add_action :: "file_action \<Rightarrow> spawn_build \<Rightarrow> spawn_build" where
  "add_action a b =
    (let b = lib_call b in
     if sb_r b \<noteq> None then b else b\<lparr>sb_actions := sb_actions b @ [a]\<rparr>)"

definition spawn_redirect :: "int \<Rightarrow> int \<Rightarrow> bool \<Rightarrow> ofile \<Rightarrow> spawn_build \<Rightarrow> spawn_build option" where
  "spawn_redirect fd std to_null f b =
    (if sb_r b \<noteq> None then Some b
     else if fd \<ge> 0 then
       (let b = add_action (Dup2 fd std) b in
        Some (if sb_r b \<noteq> None \<or> fd \<in> set (sb_child_close b) then b
              else b\<lparr>sb_child_close := fd # sb_child_close b\<rparr>))
     else if to_null then
       (case sane_open f True (sb_proc b) of
          (Inl e, p) \<Rightarrow> None
        | (Inr null, p) \<Rightarrow>
            Some (add_action (Dup2 null std)
              (b\<lparr>sb_parent_close := sb_parent_close b @ [null], sb_proc := p\<rparr>)))
     else Some b)"

fun spawn_closes :: "int list \<Rightarrow> spawn_build \<Rightarrow> spawn_build" where
  "spawn_closes [] b = b"
| "spawn_closes (fd # l) b =
    (let b = add_action (Close fd) b in if sb_r b \<noteq> None then b else spawn_closes l b)"

text \<open>The list of descriptors ends at the first \<open>-1\<close>; its elements are put in front one by one.\<close>

fun collect_closes :: "int list \<Rightarrow> int list \<Rightarrow> int list" where
  "collect_closes [] child_close = child_close"
| "collect_closes (fd # l) child_close =
    (if fd = - 1 then child_close else collect_closes l (fd # child_close))"

text \<open>The file actions in the child, in their order; \<open>dup2\<close> to the same number clears the flag.\<close>

fun run_actions :: "file_action list \<Rightarrow> fd_table \<Rightarrow> errno + fd_table" where
  "run_actions [] t = Inr t"
| "run_actions (Dup2 a b # as) t =
    (case t a of None \<Rightarrow> Inl EBADF | Some (f, _) \<Rightarrow> run_actions as (t(b \<mapsto> (f, False))))"
| "run_actions (Close a # as) t = run_actions as (t(a := None))"

definition spawn_child ::
    "spawn_os \<Rightarrow> bool \<Rightarrow> string \<Rightarrow> file_action list \<Rightarrow> spawn_signal set \<Rightarrow> string list \<Rightarrow> environment
      \<Rightarrow> proc \<Rightarrow> errno + int \<times> proc" where
  "spawn_child os search prog actions defaults args envp p =
    (case run_actions actions (fds p) of
       Inl e \<Rightarrow> Inl e
     | Inr t \<Rightarrow>
         (case os_posix_spawn os search prog args envp of
            Some e \<Rightarrow> Inl e
          | None \<Rightarrow>
              (let c = p\<lparr>fds := t, disp := (\<lambda>s. if s \<in> defaults then Default else disp p s)\<rparr>;
                   pid = next_pid p
               in Inr (pid, p\<lparr>next_pid := pid + 1,
                    children := (pid, Running prog args (image_of c)) # children p\<rparr>))))"

fun close_all :: "int list \<Rightarrow> proc \<Rightarrow> proc" where
  "close_all [] p = p"
| "close_all (fd # l) p = close_all l (snd (close_and_invalidate fd p))"

text \<open>
  \<open>do_posix_spawn\<close>: 0 with the child's pid, or an error number; \<open>None\<close> is an aborted or crashed
  process. \<open>envp = None\<close> stands for \<open>environ\<close> throughout.
\<close>

definition spawn_actions ::
    "spawn_opts \<Rightarrow> int \<Rightarrow> int \<Rightarrow> int \<Rightarrow> spawn_build \<Rightarrow> spawn_build option" where
  "spawn_actions opts stdin_fd stdout_fd stderr_fd b =
    do { b \<leftarrow> spawn_redirect stdin_fd 0 (\<not> so_child_inherits_stdin opts) Null_Read b;
         b \<leftarrow> spawn_redirect stdout_fd 1 (so_stdout_to_null opts) Null_Write b;
         b \<leftarrow> spawn_redirect stderr_fd 2 (so_stderr_to_null opts) Null_Write b;
         Some (if sb_r b \<noteq> None then b else spawn_closes (sb_child_close b) b) }"

definition spawn_finish ::
    "spawn_os \<Rightarrow> spawn_opts \<Rightarrow> string \<Rightarrow> string list \<Rightarrow> spawn_build \<Rightarrow> (errno + int) \<times> proc" where
  "spawn_finish os opts prog args b =
    (case sb_r b of
       Some e \<Rightarrow> (Inl e, close_all (sb_parent_close b) (sb_proc b))
     | None \<Rightarrow>
         (case spawn_child os (so_search_path opts \<and> CHR ''/'' \<notin> set prog) prog (sb_actions b)
                 {SIG_CHLD, SIG_INT, SIG_TERM, SIG_HUP}
                 (if so_file_and_argv_zero opts then args else prog # args)
                 (so_envp opts) (sb_proc b) of
            Inl e \<Rightarrow> (Inl e, close_all (sb_parent_close b) (sb_proc b))
          | Inr (pid, p) \<Rightarrow> (Inr pid, close_all (sb_parent_close b) p)))"

definition do_posix_spawn ::
    "spawn_os \<Rightarrow> spawn_opts \<Rightarrow> int list option \<Rightarrow> int \<Rightarrow> int \<Rightarrow> int \<Rightarrow> proc
      \<Rightarrow> ((errno + int) \<times> proc) option" where
  "do_posix_spawn os opts child_close_fds stdin_fd stdout_fd stderr_fd p =
    (case so_argv opts of
       [] \<Rightarrow> None
     | prog # args \<Rightarrow>
       if prog = [] then Some (Inl ENOENT, p)
       else
         (let child_close = (case child_close_fds of None \<Rightarrow> [] | Some l \<Rightarrow> collect_closes l []);
              b = \<lparr>sb_r = None, sb_actions = [], sb_child_close = child_close,
                   sb_parent_close = [], sb_proc = p\<rparr>;
              b = lib_call b
          in case sb_r b of Some e \<Rightarrow> Some (Inl e, sb_proc b) | None \<Rightarrow>
         (let b = lib_call b
          in case sb_r b of Some e \<Rightarrow> Some (Inl e, sb_proc b) | None \<Rightarrow>
         (let b = lib_call b
          in case sb_r b of Some e \<Rightarrow> Some (Inl e, sb_proc b) | None \<Rightarrow>
         (let b = lib_call b
          in case sb_r b of Some e \<Rightarrow> Some (Inl e, sb_proc b) | None \<Rightarrow>
            do { b \<leftarrow> spawn_actions opts stdin_fd stdout_fd stderr_fd b;
                 Some (spawn_finish os opts prog args b) })))))"

subsection \<open>Lemmas on the system calls\<close>

lemma next_fault_faults: "next_fault p = (f, p') \<Longrightarrow> \<exists>fs. p' = p\<lparr>faults := fs\<rparr>"
  by (cases "faults p") (auto simp: next_fault_def intro: exI [of _ "faults p"])

lemma faults_twice: "p\<lparr>faults := fs\<rparr>\<lparr>faults := gs\<rparr> = p\<lparr>faults := gs\<rparr>" by simp

lemma lowest_fd_free:
  assumes "lowest_fd p = Some fd" shows "fds p fd = None" "0 \<le> fd" "fd < int (open_max p)"
  using assms by (auto simp: lowest_fd_def find_Some_iff nth_append)

lemma sys_dup2_cases:
  assumes "sys_dup2 a b p = (r, p')"
  obtains e fs where "r = Inl e" "p' = p\<lparr>faults := fs\<rparr>"
  | f c fs where "r = Inr b" "fds p a = Some (f, c)"
      "p' = p\<lparr>faults := fs, fds := (fds p)(b \<mapsto> (f, c \<and> a = b))\<rparr>"
proof -
  obtain x q where nf: "next_fault p = (x, q)" by fastforce
  from next_fault_faults [OF nf] obtain fs where q: "q = p\<lparr>faults := fs\<rparr>" by blast
  show ?thesis
  proof (cases x)
    case (Some e)
    then show ?thesis using assms nf q that(1) [of e fs] by (simp add: sys_dup2_def)
  next
    case None
    show ?thesis
    proof (cases "fds p a")
      case None
      then show ?thesis using assms nf q \<open>x = None\<close> that(1) [of EBADF fs]
        by (simp add: sys_dup2_def)
    next
      case (Some y)
      then show ?thesis using assms nf q \<open>x = None\<close> that(2) [of "fst y" "snd y" fs]
        by (cases y) (auto simp: sys_dup2_def fun_upd_idem split: if_splits)
    qed
  qed
qed

lemma sane_dup2_cases:
  assumes "sane_dup2 a b p = (r, p')"
  obtains e fs where "r = Inl e" "e \<noteq> EINTR" "p' = p\<lparr>faults := fs\<rparr>"
  | f c fs where "r = Inr b" "fds p a = Some (f, c)"
      "p' = p\<lparr>faults := fs, fds := (fds p)(b \<mapsto> (f, c \<and> a = b))\<rparr>"
proof -
  have "(\<exists>e fs. r = Inl e \<and> e \<noteq> EINTR \<and> p' = p\<lparr>faults := fs\<rparr>) \<or>
    (\<exists>f c fs. r = Inr b \<and> fds p a = Some (f, c) \<and>
      p' = p\<lparr>faults := fs, fds := (fds p)(b \<mapsto> (f, c \<and> a = b))\<rparr>)"
    using assms
  proof (induction a b p rule: sane_dup2.induct)
    case (1 a b p)
    obtain r1 p1 where call: "sys_dup2 a b p = (r1, p1)" by fastforce
    from call show ?case
    proof (cases rule: sys_dup2_cases)
      case (1 e fs)
      show ?thesis
      proof (cases "e = EINTR")
        case True
        then have again: "sane_dup2 a b p1 = (r, p')"
          using "1.prems" call 1 by (subst (asm) sane_dup2.simps) simp
        from "1.IH" [OF call [symmetric] 1(1) True again] show ?thesis unfolding 1 by simp
      next
        case False
        then show ?thesis using "1.prems" call 1 by (subst (asm) sane_dup2.simps) auto
      qed
    next
      case (2 f c fs)
      have "r = r1 \<and> p' = p1"
        using "1.prems" call 2(1) by (subst (asm) sane_dup2.simps) auto
      then show ?thesis using 2 by blast
    qed
  qed
  then show ?thesis using that by blast
qed

lemma sys_open_cases:
  assumes "sys_open f c p = (r, p')"
  obtains e fs where "r = Inl e" "p' = p\<lparr>faults := fs\<rparr>"
  | fd fs where "r = Inr fd" "fds p fd = None" "0 \<le> fd"
      "p' = p\<lparr>faults := fs, fds := (fds p)(fd \<mapsto> (f, c))\<rparr>"
proof -
  obtain x q where nf: "next_fault p = (x, q)" by fastforce
  from next_fault_faults [OF nf] obtain fs where q: "q = p\<lparr>faults := fs\<rparr>" by blast
  show ?thesis
  proof (cases x)
    case (Some e)
    then show ?thesis using assms nf q that(1) [of e fs] by (simp add: sys_open_def)
  next
    case None
    show ?thesis
    proof (cases "lowest_fd q")
      case None
      then show ?thesis using assms nf q \<open>x = None\<close> that(1) [of EMFILE fs]
        by (simp add: sys_open_def)
    next
      case (Some fd)
      then show ?thesis
        using assms nf q \<open>x = None\<close> that(2) [of fd fs] lowest_fd_free [of q fd]
        by (auto simp: sys_open_def)
    qed
  qed
qed

lemma sane_open_cases:
  assumes "sane_open f c p = (r, p')"
  obtains e fs where "r = Inl e" "p' = p\<lparr>faults := fs\<rparr>"
  | fd fs where "r = Inr fd" "fds p fd = None" "0 \<le> fd"
      "p' = p\<lparr>faults := fs, fds := (fds p)(fd \<mapsto> (f, c))\<rparr>"
proof -
  have "(\<exists>e fs. r = Inl e \<and> p' = p\<lparr>faults := fs\<rparr>) \<or>
    (\<exists>fd fs. r = Inr fd \<and> fds p fd = None \<and> 0 \<le> fd \<and>
      p' = p\<lparr>faults := fs, fds := (fds p)(fd \<mapsto> (f, c))\<rparr>)"
    using assms
  proof (induction f c p rule: sane_open.induct)
    case (1 f c p)
    obtain r1 p1 where call: "sys_open f c p = (r1, p1)" by fastforce
    from call show ?case
    proof (cases rule: sys_open_cases)
      case (1 e fs)
      show ?thesis
      proof (cases "e = EINTR")
        case True
        then have again: "sane_open f c p1 = (r, p')"
          using "1.prems" call 1 by (subst (asm) sane_open.simps) simp
        from "1.IH" [OF call [symmetric] 1(1) True again] show ?thesis unfolding 1 by simp
      next
        case False
        then show ?thesis using "1.prems" call 1 by (subst (asm) sane_open.simps) auto
      qed
    next
      case (2 fd fs)
      have "r = r1 \<and> p' = p1"
        using "1.prems" call 2(1) by (subst (asm) sane_open.simps) auto
      then show ?thesis using 2 by blast
    qed
  qed
  then show ?thesis using that by blast
qed

lemma close_all_fds:
  "fds (close_all l p) = (\<lambda>fd. if fd \<in> set l \<and> 0 \<le> fd then None else fds p fd)"
  by (induction l arbitrary: p) (auto simp: close_and_invalidate_def close_fd_def fun_eq_iff)

lemma close_all_frame [simp]:
  "children (close_all l p) = children p" "orphans (close_all l p) = orphans p"
  "pipe_data (close_all l p) = pipe_data p" "next_pid (close_all l p) = next_pid p"
  "next_pipe (close_all l p) = next_pipe p"
  by (induction l arbitrary: p) (simp_all add: close_and_invalidate_def close_fd_def)

subsection \<open>The parent of a \<open>posix_spawn\<close>\<close>

text \<open>
  \<open>restored l p b\<close>: once the descriptors \<open>b\<close> has opened in the parent are closed, its table is the
  one of \<open>p\<close> again.
\<close>

definition restored :: "proc \<Rightarrow> spawn_build \<Rightarrow> bool" where
  "restored p b \<longleftrightarrow>
    (\<forall>fd \<in> set (sb_parent_close b). 0 \<le> fd \<and> fds p fd = None) \<and>
    (\<forall>fd. fd \<notin> set (sb_parent_close b) \<longrightarrow> fds (sb_proc b) fd = fds p fd) \<and>
    children (sb_proc b) = children p \<and> orphans (sb_proc b) = orphans p \<and>
    next_pid (sb_proc b) = next_pid p"

lemma restored_close_all:
  assumes "restored p b" "fds q = fds (sb_proc b)"
  shows "fds (close_all (sb_parent_close b) q) = fds p"
  using assms by (auto simp: close_all_fds restored_def fun_eq_iff)

lemma lib_call_restored: "restored p b \<Longrightarrow> restored p (lib_call b)"
  by (auto simp: restored_def lib_call_def split: prod.splits dest!: next_fault_faults)

lemma add_action_restored: "restored p b \<Longrightarrow> restored p (add_action a b)"
  using lib_call_restored [of p b] by (auto simp: add_action_def Let_def restored_def)

lemma spawn_redirect_restored:
  assumes "restored p b" "spawn_redirect fd std to_null f b = Some b'"
  shows "restored p b'"
proof (cases "sb_r b \<noteq> None")
  case True
  then show ?thesis using assms by (simp add: spawn_redirect_def)
next
  case going: False
  show ?thesis
  proof (cases "fd \<ge> 0")
    case True
    let ?a = "add_action (Dup2 fd std) b"
    have b': "b' = (if sb_r ?a \<noteq> None \<or> fd \<in> set (sb_child_close ?a) then ?a
              else ?a\<lparr>sb_child_close := fd # sb_child_close ?a\<rparr>)"
      using assms(2) going True unfolding spawn_redirect_def Let_def by simp
    have "restored p ?a" by (rule add_action_restored [OF assms(1)])
    then show ?thesis unfolding b' by (simp add: restored_def)
  next
    case no_fd: False
    show ?thesis
    proof (cases to_null)
      case False
      then show ?thesis using assms going no_fd by (simp add: spawn_redirect_def)
    next
      case True
      obtain x q where call: "sane_open f True (sb_proc b) = (x, q)" by fastforce
      then obtain null where x: "x = Inr null"
        using assms(2) going no_fd True by (cases x) (simp_all add: spawn_redirect_def)
      let ?b = "b\<lparr>sb_parent_close := sb_parent_close b @ [null], sb_proc := q\<rparr>"
      have b': "b' = add_action (Dup2 null std) ?b"
        using assms(2) going no_fd True call x by (simp add: spawn_redirect_def)
      from call have "restored p ?b"
      proof (cases rule: sane_open_cases)
        case (1 e fs)
        then show ?thesis using x by simp
      next
        case (2 fd fs)
        then show ?thesis using assms(1) x by (auto simp: restored_def)
      qed
      then show ?thesis unfolding b' by (rule add_action_restored)
    qed
  qed
qed

lemma spawn_closes_restored: "restored p b \<Longrightarrow> restored p (spawn_closes l b)"
  by (induction l arbitrary: b) (auto simp: Let_def add_action_restored)

lemma spawn_actions_restored:
  assumes "restored p b" "spawn_actions opts i o' e b = Some b'"
  shows "restored p b'"
proof -
  obtain b1 b2 b3 where "spawn_redirect i 0 (\<not> so_child_inherits_stdin opts) Null_Read b = Some b1"
    "spawn_redirect o' 1 (so_stdout_to_null opts) Null_Write b1 = Some b2"
    "spawn_redirect e 2 (so_stderr_to_null opts) Null_Write b2 = Some b3"
    and b': "b' = (if sb_r b3 \<noteq> None then b3 else spawn_closes (sb_child_close b3) b3)"
    using assms(2) by (auto simp: spawn_actions_def bind_eq_Some_conv)
  then have "restored p b3" using assms(1) spawn_redirect_restored by blast
  then show ?thesis using spawn_closes_restored unfolding b' by simp
qed

text \<open>
  On every path, successful or not, the parent's descriptor table is the one before the call; a
  failed call leaves no child, a successful one adds the child whose pid it returns.
\<close>

lemma do_posix_spawn_parent:
  assumes "do_posix_spawn os opts ccf i o' e p = Some (r, p')"
  shows "fds p' = fds p \<and> orphans p' = orphans p \<and>
    (case r of
       Inl _ \<Rightarrow> children p' = children p \<and> next_pid p' = next_pid p
     | Inr pid \<Rightarrow> pid = next_pid p \<and>
         (\<exists>f as im. children p' = (pid, Running f as im) # children p))"
proof -
  define b0 where "b0 = \<lparr>sb_r = None, sb_actions = [],
    sb_child_close = (case ccf of None \<Rightarrow> [] | Some l \<Rightarrow> collect_closes l []),
    sb_parent_close = [], sb_proc = p\<rparr>"
  have b0: "restored p b0" "sb_parent_close b0 = []" by (simp_all add: restored_def b0_def)
  have calls: "restored p (lib_call b)" "sb_parent_close (lib_call b) = []"
    if "restored p b" "sb_parent_close b = []" for b
    using that lib_call_restored by (auto simp: lib_call_def split: prod.splits)
  have failed: ?thesis if "restored p b" "r = Inl err" "p' = close_all (sb_parent_close b) (sb_proc b)" for b err
    using that restored_close_all [of p b "sb_proc b"] by (simp add: restored_def)
  have failed0: ?thesis if "restored p b" "sb_parent_close b = []" "r = Inl err" "p' = sb_proc b" for b err
    using failed [of b err] that by simp
  obtain prog args where argv: "so_argv opts = prog # args"
    using assms by (cases "so_argv opts") (auto simp: do_posix_spawn_def)
  define b1 where "b1 = lib_call b0"
  define b2 where "b2 = lib_call b1"
  define b3 where "b3 = lib_call b2"
  define b4 where "b4 = lib_call b3"
  have bs: "restored p b1" "sb_parent_close b1 = []" "restored p b2" "sb_parent_close b2 = []"
    "restored p b3" "sb_parent_close b3 = []" "restored p b4" "sb_parent_close b4 = []"
    unfolding b4_def b3_def b2_def b1_def by (intro calls b0)+
  note unf = assms [unfolded do_posix_spawn_def argv list.case Let_def,
      folded b0_def, folded b1_def, folded b2_def, folded b3_def, folded b4_def]
  consider "r = Inl ENOENT" "p' = p" | e1 where "r = Inl e1" "p' = sb_proc b1"
    | e1 where "r = Inl e1" "p' = sb_proc b2" | e1 where "r = Inl e1" "p' = sb_proc b3"
    | e1 where "r = Inl e1" "p' = sb_proc b4"
    | b where "spawn_actions opts i o' e b4 = Some b"
        "spawn_finish os opts prog args b = (r, p')"
    using unf by (auto simp: bind_eq_Some_conv split: if_splits option.split_asm)
  then show ?thesis
  proof cases
    case (6 b)
    have b: "restored p b" by (rule spawn_actions_restored [OF bs(7) 6(1)])
    consider err where "r = Inl err" "p' = close_all (sb_parent_close b) (sb_proc b)"
      | s2 a2 d2 g2 v2 pid q where "spawn_child os s2 prog a2 d2 g2 v2 (sb_proc b) = Inr (pid, q)"
          "r = Inr pid" "p' = close_all (sb_parent_close b) q"
      using 6(2) unfolding spawn_finish_def
      by (auto split: option.split_asm sum.split_asm prod.split_asm)
    then show ?thesis
    proof cases
      case 1
      then show ?thesis using failed [OF b] by blast
    next
      case 2
      have q: "pid = next_pid (sb_proc b)" "fds q = fds (sb_proc b)" "orphans q = orphans (sb_proc b)"
        "\<exists>f as im. children q = (pid, Running f as im) # children (sb_proc b)"
        using 2(1) by (auto simp: spawn_child_def Let_def split: sum.splits option.splits)
      then show ?thesis
        using b restored_close_all [OF b, of q] by (simp add: 2 restored_def)
    qed
  next
    case 1
    show ?thesis by (rule failed0 [OF b0]) (use 1 in \<open>simp_all add: b0_def\<close>)
  next
    case 2
    show ?thesis by (rule failed0 [OF bs(1,2) 2])
  next
    case 3
    show ?thesis by (rule failed0 [OF bs(3,4) 3])
  next
    case 4
    show ?thesis by (rule failed0 [OF bs(5,6) 4])
  next
    case 5
    show ?thesis by (rule failed0 [OF bs(7,8) 5])
  qed
qed

subsection \<open>The forked child marks and redirects\<close>

text \<open>\<open>mark S t\<close>: the descriptors of \<open>S\<close> that are open are closed on exec.\<close>

fun flagged :: "(ofile \<times> bool) option \<Rightarrow> (ofile \<times> bool) option" where
  "flagged None = None"
| "flagged (Some (f, c)) = Some (f, True)"

lemma flagged_flagged [simp]: "flagged (flagged x) = flagged x"
  by (cases x rule: flagged.cases) auto

lemma flagged_None [simp]: "flagged x = None \<longleftrightarrow> x = None"
  by (cases x rule: flagged.cases) auto

definition mark :: "int set \<Rightarrow> fd_table \<Rightarrow> fd_table" where
  "mark S t = (\<lambda>fd. if fd \<in> S then flagged (t fd) else t fd)"

lemma mark_mark: "mark A (mark B t) = mark (A \<union> B) t"
  by (auto simp: mark_def fun_eq_iff)

lemma mark_empty [simp]: "mark {} t = t"
  by (simp add: mark_def)

lemma set_cloexec_mark:
  "set_cloexec d fd p = (0, p\<lparr>fds := mark (if d \<le> fd then {fd} else {}) (fds p)\<rparr>)"
  by (auto simp: set_cloexec_def mark_def fun_eq_iff split: option.splits intro!: proc.equality)

lemma walk_names_mark:
  "walk_names (set_cloexec d) dir_fd names 0 p =
    (0, p\<lparr>fds := mark {fd \<in> filename_to_fd ` set names. 0 \<le> fd \<and> d \<le> fd \<and> fd \<noteq> dir_fd} (fds p)\<rparr>)"
proof (induction names arbitrary: p)
  case Nil
  then show ?case by simp
next
  case (Cons a names)
  let ?fd = "filename_to_fd a"
  let ?S = "{fd \<in> filename_to_fd ` set names. 0 \<le> fd \<and> d \<le> fd \<and> fd \<noteq> dir_fd}"
  show ?case
  proof (cases "?fd < 0 \<or> ?fd = dir_fd")
    case True
    then have "{fd \<in> filename_to_fd ` set (a # names). 0 \<le> fd \<and> d \<le> fd \<and> fd \<noteq> dir_fd} = ?S"
      by auto
    then show ?thesis using True Cons.IH by simp
  next
    case False
    then have "{fd \<in> filename_to_fd ` set (a # names). 0 \<le> fd \<and> d \<le> fd \<and> fd \<noteq> dir_fd}
        = ?S \<union> (if d \<le> ?fd then {?fd} else {})"
      by auto
    then show ?thesis using False Cons.IH by (simp add: set_cloexec_mark mark_mark)
  qed
qed

lemma walk_bufs_mark:
  "walk_bufs (set_cloexec d) dir_fd bufs 0 p =
    (0, p\<lparr>fds := mark {fd \<in> filename_to_fd ` set (concat bufs). 0 \<le> fd \<and> d \<le> fd \<and> fd \<noteq> dir_fd} (fds p)\<rparr>)"
proof (induction bufs arbitrary: p)
  case (Cons a bufs)
  have "{fd \<in> filename_to_fd ` set (concat (a # bufs)). 0 \<le> fd \<and> d \<le> fd \<and> fd \<noteq> dir_fd} =
    {fd \<in> filename_to_fd ` set (concat bufs). 0 \<le> fd \<and> d \<le> fd \<and> fd \<noteq> dir_fd} \<union>
    {fd \<in> filename_to_fd ` set a. 0 \<le> fd \<and> d \<le> fd \<and> fd \<noteq> dir_fd}" by auto
  then show ?case using Cons by (simp add: walk_names_mark mark_mark)
qed simp

lemma walk_range_mark:
  "walk_range (set_cloexec d) a n 0 p =
    (0, p\<lparr>fds := mark {fd. a \<le> fd \<and> fd < a + int n \<and> d \<le> fd} (fds p)\<rparr>)"
proof (induction n arbitrary: a p)
  case 0
  have "{fd. a \<le> fd \<and> fd < a + int 0 \<and> d \<le> fd} = {}" by auto
  then show ?case by (simp only: walk_range.simps mark_empty) simp
next
  case (Suc n)
  have "{fd. a \<le> fd \<and> fd < a + int (Suc n) \<and> d \<le> fd} =
    {fd. a + 1 \<le> fd \<and> fd < a + 1 + int n \<and> d \<le> fd} \<union> (if d \<le> a then {a} else {})" by auto
  then show ?case using Suc by (simp add: set_cloexec_mark mark_mark)
qed

text \<open>A descriptor table within its limit, and a directory that lists the open descriptors.\<close>

definition table_ok :: "proc \<Rightarrow> bool" where
  "table_ok p \<longleftrightarrow> (\<forall>fd. fds p fd \<noteq> None \<longrightarrow> 0 \<le> fd \<and> fd < int (open_max p) \<and> fd \<le> G_MAXINT)"

definition lists_open :: "(proc \<Rightarrow> string list list) \<Rightarrow> bool" where
  "lists_open getdents \<longleftrightarrow>
    (\<forall>p fd. 0 \<le> fd \<longrightarrow> fd < int (open_max p) \<longrightarrow> fd \<le> G_MAXINT \<longrightarrow> fds p fd \<noteq> None
      \<longrightarrow> fd \<in> filename_to_fd ` set (concat (getdents p)))"

lemma mark_cong: "(\<And>fd. t fd \<noteq> None \<Longrightarrow> fd \<in> A \<longleftrightarrow> fd \<in> B) \<Longrightarrow> mark A t = mark B t"
  unfolding mark_def by (rule ext) (metis flagged.simps(1))

lemma fdwalk_marks:
  assumes "table_ok p" "lists_open getdents" "0 \<le> d"
  shows "\<exists>fs. fdwalk getdents (set_cloexec d) p = (0, p\<lparr>faults := fs, fds := mark {d..} (fds p)\<rparr>)"
proof -
  obtain r q where call: "sys_open Proc_Fd_Dir False p = (r, q)" by fastforce
  from call show ?thesis
  proof (cases rule: sys_open_cases)
    case (1 e fs)
    have "mark {fd. 0 \<le> fd \<and> fd < 0 + int (open_max p) \<and> d \<le> fd} (fds p) = mark {d..} (fds p)"
      using assms(1) by (intro mark_cong) (auto simp: table_ok_def)
    then show ?thesis using call 1 by (simp add: fdwalk_def walk_range_mark) blast
  next
    case (2 dir fs)
    let ?t = "(fds p)(dir \<mapsto> (Proc_Fd_Dir, False))"
    let ?S = "{fd \<in> filename_to_fd ` set (concat (getdents q)). 0 \<le> fd \<and> d \<le> fd \<and> fd \<noteq> dir}"
    have "(mark ?S ?t)(dir := None) = mark ?S (fds p)"
      using 2(2) by (auto simp: mark_def fun_eq_iff)
    also have "\<dots> = mark {d..} (fds p)"
    proof (rule mark_cong)
      fix fd assume open_fd: "fds p fd \<noteq> None"
      then have "0 \<le> fd" "fd < int (open_max q)" "fd \<le> G_MAXINT" "fds q fd \<noteq> None" "fd \<noteq> dir"
        using assms(1) 2 by (auto simp: table_ok_def)
      moreover from this have "fd \<in> filename_to_fd ` set (concat (getdents q))"
        using assms(2) unfolding lists_open_def by blast
      ultimately show "fd \<in> ?S \<longleftrightarrow> fd \<in> {d..}" by auto
    qed
    finally show ?thesis using call 2
      by (simp add: fdwalk_def walk_bufs_mark close_fd_def) blast
  qed
qed

lemma mark_descriptors_marks:
  assumes "table_ok p" "lists_open (os_getdents os)" "0 \<le> err"
  shows "\<exists>fs. mark_descriptors os cd err p =
    p\<lparr>faults := fs, fds := mark (if cd then {3..} else {err}) (fds p)\<rparr>"
proof (cases cd)
  case True
  then show ?thesis using fdwalk_marks [OF assms(1,2), of 3] by (auto simp: mark_descriptors_def)
next
  case False
  then show ?thesis using assms(3)
    by (auto simp: mark_descriptors_def set_cloexec_mark intro!: exI [of _ "faults p"])
qed

text \<open>
  \<open>redirected fd std null f t\<close> is what a standard descriptor refers to after its redirection; the
  rest of the table keeps its files, and no close-on-exec flag is cleared there.
\<close>

definition keeps :: "int set \<Rightarrow> proc \<Rightarrow> proc \<Rightarrow> bool" where
  "keeps S p q \<longleftrightarrow> (\<exists>fs t d. q = p\<lparr>faults := fs, fds := t, cwd := d\<rparr> \<and>
    (\<forall>fd. fd \<notin> S \<longrightarrow> t fd = fds p fd \<or> t fd = flagged (fds p fd)))"

lemma keeps_refl [simp]: "keeps S p p"
  unfolding keeps_def by (intro exI [of _ "faults p"] exI [of _ "fds p"] exI [of _ "cwd p"]) simp

lemma keeps_trans:
  assumes "keeps S p q" "keeps T q r" shows "keeps (S \<union> T) p r"
proof -
  obtain fs t d where q: "q = p\<lparr>faults := fs, fds := t, cwd := d\<rparr>"
    "\<And>fd. fd \<notin> S \<Longrightarrow> t fd = fds p fd \<or> t fd = flagged (fds p fd)"
    using assms(1) unfolding keeps_def by blast
  obtain fs' t' d' where r: "r = q\<lparr>faults := fs', fds := t', cwd := d'\<rparr>"
    "\<And>fd. fd \<notin> T \<Longrightarrow> t' fd = fds q fd \<or> t' fd = flagged (fds q fd)"
    using assms(2) unfolding keeps_def by blast
  have "t' fd = fds p fd \<or> t' fd = flagged (fds p fd)"
    if "fd \<notin> S \<union> T" for fd
    using q(2) [of fd] r(2) [of fd] that
    by (auto simp: q(1))
  then show ?thesis unfolding keeps_def by (auto simp: r(1) q(1))
qed

lemma keeps_mono: "keeps S p q \<Longrightarrow> S \<subseteq> T \<Longrightarrow> keeps T p q"
  unfolding keeps_def by blast

lemma keeps_marked:
  "keeps {} p (p\<lparr>faults := fs, fds := mark S (fds p)\<rparr>)"
  unfolding keeps_def
  by (intro exI [of _ fs] exI [of _ "mark S (fds p)"] exI [of _ "cwd p"]) (auto simp: mark_def)

lemma keeps_faults: "keeps S p (p\<lparr>faults := fs\<rparr>)"
  unfolding keeps_def by (intro exI [of _ fs] exI [of _ "fds p"] exI [of _ "cwd p"]) simp

lemma keeps_upd:
  assumes "\<And>fd. fd \<notin> S \<Longrightarrow> t fd = fds p fd \<or> t fd = flagged (fds p fd)"
  shows "keeps S p (p\<lparr>faults := fs, fds := t\<rparr>)"
  unfolding keeps_def using assms by (intro exI [of _ fs] exI [of _ t] exI [of _ "cwd p"]) simp

text \<open>One redirection: it goes through and the standard descriptor has its file, or it is reported.\<close>

lemma redirect_fd_cases:
  assumes "redirect_fd err fd std p = r" "0 \<le> fd"
  obtains e q where "r = Inl (write_err_and_exit err CHILD_DUP2_FAILED e q)" "keeps {std} p q"
  | f c q where "r = Inr q" "keeps {std} p q" "fds p fd = Some (f, c)"
      "fd \<noteq> std \<longrightarrow> fds q std = Some (f, False)" "fd = std \<longrightarrow> fds q std = Some (f, True)"
proof -
  obtain x q where call: "sane_dup2 fd std p = (x, q)" by fastforce
  from call show ?thesis
  proof (cases rule: sane_dup2_cases)
    case (1 e fs)
    then show ?thesis using that(1) [of e q] assms call by (simp add: redirect_fd_def keeps_faults)
  next
    case (2 f c fs)
    let ?t = "(fds p)(std \<mapsto> (f, c \<and> fd = std))"
    let ?q = "p\<lparr>faults := fs, fds := mark {fd} ?t\<rparr>"
    have r: "r = Inr ?q"
      using assms call 2 by (simp add: redirect_fd_def set_cloexec_mark)
    have k: "keeps {std} p ?q" by (rule keeps_upd) (auto simp: mark_def)
    show ?thesis using that(2) [OF r k 2(2)] by (simp add: mark_def)
  qed
qed

lemma redirect_null_cases:
  assumes "redirect_null asserted f std p = r"
  obtains q where "r = Inl (Aborted, q)" "keeps {std} p q" | q where "r = Inr q" "keeps {std} p q"
proof -
  obtain x q where call: "sane_open f False p = (x, q)" by fastforce
  from call show ?thesis
  proof (cases rule: sane_open_cases)
    case (1 e fs)
    show ?thesis
    proof (cases asserted)
      case True
      then show ?thesis using that(1) [of q] assms call 1 by (simp add: redirect_null_def keeps_faults)
    next
      case False
      obtain x2 q2 where dup: "sane_dup2 (- 1) std q = (x2, q2)" by fastforce
      then have "keeps {std} p q2"
      proof (cases rule: sane_dup2_cases)
        case (1 e fs')
        then show ?thesis using \<open>q = p\<lparr>faults := fs\<rparr>\<close> by (simp add: keeps_faults)
      next
        case (2 f c fs')
        then show ?thesis using \<open>q = p\<lparr>faults := fs\<rparr>\<close> by (auto intro!: keeps_upd)
      qed
      then show ?thesis using that(2) [of q2] assms call 1 False dup
        by (simp add: redirect_null_def close_and_invalidate_def)
    qed
  next
    case (2 fd fs)
    obtain x2 q2 where dup: "sane_dup2 fd std q = (x2, q2)" by fastforce
    then have "keeps {std} p (close_fd fd q2)"
    proof (cases rule: sane_dup2_cases)
      case (1 e fs')
      have "close_fd fd q2 = p\<lparr>faults := fs', fds := (fds p)(fd := None)\<rparr>"
        unfolding 1 2(4) by (simp add: close_fd_def)
      then show ?thesis using 2(2) by (auto intro!: keeps_upd)
    next
      case (2 f' c fs')
      have "close_fd fd q2 = p\<lparr>faults := fs',
          fds := ((fds p)(fd \<mapsto> (f, False), std \<mapsto> (f', c \<and> fd = std)))(fd := None)\<rparr>"
        unfolding 2 \<open>q = p\<lparr>faults := fs, fds := (fds p)(fd \<mapsto> (f, False))\<rparr>\<close> by (simp add: close_fd_def)
      then show ?thesis using \<open>fds p fd = None\<close> by (auto intro!: keeps_upd)
    qed
    then show ?thesis using that(2) [of "close_fd fd q2"] assms call 2 dup
      by (simp add: redirect_null_def close_and_invalidate_def)
  qed
qed

text \<open>How the child ends: what it writes is one report, of an error met with the table \<open>keeps\<close> describes.\<close>

definition child_outcome :: "int \<Rightarrow> proc \<Rightarrow> child_end \<times> proc \<Rightarrow> bool" where
  "child_outcome err p r \<longleftrightarrow> (\<exists>q. keeps {0, 1, 2} p q \<and>
    ((\<exists>f as. r = (Running f as (image_of q), q)) \<or> r = (Aborted, q) \<or> r = (Undefined, q) \<or>
     (\<exists>msg e. msg \<in> {CHILD_CHDIR_FAILED, CHILD_EXEC_FAILED, CHILD_DUP2_FAILED} \<and>
        r = write_err_and_exit err msg e q)))"

lemma redirect_std_cases:
  assumes "redirect_std err fd std to_null asserted f p = r" "std \<in> {0, 1, 2}"
  obtains x where "r = Inl x" "\<And>p0. keeps {0, 1, 2} p0 p \<Longrightarrow> child_outcome err p0 x"
  | q where "r = Inr q" "keeps {std} p q"
proof -
  have out: "keeps {0, 1, 2} p0 q" if "keeps {0, 1, 2} p0 p" "keeps {std} p q" for p0 q
    using keeps_trans [OF that] assms(2) by (auto elim!: keeps_mono)
  show ?thesis
  proof (cases "0 \<le> fd")
    case True
    then have "redirect_fd err fd std p = r" using assms by (simp add: redirect_std_def)
    from this True show ?thesis
    proof (cases rule: redirect_fd_cases)
      case (1 e q)
      then show ?thesis using that(1) out unfolding child_outcome_def by blast
    next
      case (2 f c q)
      then show ?thesis using that(2) by blast
    qed
  next
    case no_fd: False
    show ?thesis
    proof (cases to_null)
      case True
      then have "redirect_null asserted f std p = r" using no_fd assms by (simp add: redirect_std_def)
      then show ?thesis
      proof (cases rule: redirect_null_cases)
        case (1 q)
        then show ?thesis using that(1) out unfolding child_outcome_def by blast
      next
        case (2 q)
        then show ?thesis using that(2) by blast
      qed
    next
      case False
      then show ?thesis using no_fd assms that(2) [of p] by (simp add: redirect_std_def)
    qed
  qed
qed

lemma run_program_outcome:
  assumes "keeps {0, 1, 2} p q" "so_child_setup opts = None"
  shows "child_outcome err p (run_program os opts err q)"
proof (cases "so_argv opts")
  case Nil
  then show ?thesis using assms unfolding child_outcome_def run_program_def by auto
next
  case (Cons prog args)
  show ?thesis
  proof (cases "g_execute (os_env os) prog (if so_file_and_argv_zero opts then args else prog # args)
                 (so_envp opts) (so_search_path opts) (so_search_path_from_envp opts)")
    case (Replaced f as)
    then show ?thesis using assms Cons unfolding child_outcome_def run_program_def by auto
  next
    case (Failed e)
    then have "run_program os opts err q = write_err_and_exit err CHILD_EXEC_FAILED e q"
      using assms Cons by (simp add: run_program_def)
    then show ?thesis using assms(1) unfolding child_outcome_def by blast
  next
    case Unterminated
    then show ?thesis using assms Cons unfolding child_outcome_def run_program_def by auto
  qed
qed

lemma change_directory_keeps: "change_directory wd p = (e, q) \<Longrightarrow> keeps {} p q"
proof (cases wd)
  case (Some dir)
  assume cd: "change_directory wd p = (e, q)"
  obtain x q1 where nf: "next_fault p = (x, q1)" by fastforce
  from next_fault_faults [OF nf] obtain fs where q1: "q1 = p\<lparr>faults := fs\<rparr>" by blast
  have "\<exists>fs d. q = p\<lparr>faults := fs, cwd := d\<rparr>"
  proof (cases x)
    case None
    then show ?thesis using cd Some nf q1
      by (auto simp: change_directory_def sys_chdir_def)
  next
    case (Some y)
    then have "q = p\<lparr>faults := fs, cwd := cwd p\<rparr>" using cd \<open>wd = Some dir\<close> nf q1
      by (auto simp: change_directory_def sys_chdir_def)
    then show ?thesis by blast
  qed
  then obtain fs d where q: "q = p\<lparr>faults := fs, cwd := d\<rparr>" by blast
  show ?thesis unfolding q keeps_def
    by (intro exI [of _ fs] exI [of _ "fds p"] exI [of _ d]) simp
qed (simp add: change_directory_def)

text \<open>The three redirections and the exec, from the descriptors as they are marked.\<close>

lemma redirections_outcome:
  assumes r: "r = (case redirect_std err i 0 n0 True Null_Read p of
            Inl r \<Rightarrow> r
          | Inr p \<Rightarrow> (case redirect_std err o' 1 n1 True Null_Write p of
              Inl r \<Rightarrow> r
            | Inr p \<Rightarrow> (case redirect_std err e 2 n2 False Null_Write p of
                Inl r \<Rightarrow> r
              | Inr p \<Rightarrow> run_program os opts err p)))"
    and s: "so_child_setup opts = None"
  shows "child_outcome err p r"
proof (cases "redirect_std err i 0 n0 True Null_Read p")
  case (Inl x1)
  from Inl show ?thesis
    by (cases rule: redirect_std_cases) (use r Inl in \<open>auto simp: keeps_refl\<close>)
next
  case Inr1: (Inr q1)
  from Inr1 have k2: "keeps {0, 1, 2} p q1" by (cases rule: redirect_std_cases) (auto elim!: keeps_mono)
  show ?thesis
  proof (cases "redirect_std err o' 1 n1 True Null_Write q1")
    case (Inl x2)
    from Inl show ?thesis by (cases rule: redirect_std_cases) (use r Inr1 Inl k2 in auto)
  next
    case Inr2: (Inr q2)
    from Inr2 have "keeps {1} q1 q2" by (cases rule: redirect_std_cases) auto
    from keeps_trans [OF k2 this] have k3: "keeps {0, 1, 2} p q2" by (rule keeps_mono) auto
    show ?thesis
    proof (cases "redirect_std err e 2 n2 False Null_Write q2")
      case (Inl x3)
      from Inl show ?thesis by (cases rule: redirect_std_cases) (use r Inr1 Inr2 Inl k3 in auto)
    next
      case Inr3: (Inr q3)
      from Inr3 have "keeps {2} q2 q3" by (cases rule: redirect_std_cases) auto
      from keeps_trans [OF k3 this] have k4: "keeps {0, 1, 2} p q3" by (rule keeps_mono) auto
      have "r = run_program os opts err q3" using r Inr1 Inr2 Inr3 by simp
      then show ?thesis using run_program_outcome [OF k4 s] by simp
    qed
  qed
qed

text \<open>\<open>do_exec\<close> up to the redirections.\<close>

lemma do_exec_marks:
  assumes "do_exec os opts err i o' e p = r" "table_ok p" "lists_open (os_getdents os)" "0 \<le> err"
  defines "S \<equiv> if so_close_descriptors opts then {3..} else {err}"
  obtains (chdir) e' q where "keeps {} p q" "r = write_err_and_exit err CHILD_CHDIR_FAILED e' q"
  | (marked) q where "keeps {} p q" "fds q = mark S (fds p)"
      "r = (case redirect_std err i 0 (\<not> so_child_inherits_stdin opts) True Null_Read q of
            Inl r \<Rightarrow> r
          | Inr p \<Rightarrow> (case redirect_std err o' 1 (so_stdout_to_null opts) True Null_Write p of
              Inl r \<Rightarrow> r
            | Inr p \<Rightarrow> (case redirect_std err e 2 (so_stderr_to_null opts) False Null_Write p of
                Inl r \<Rightarrow> r
              | Inr p \<Rightarrow> run_program os opts err p)))"
proof -
  obtain x p0 where cd: "change_directory (so_working_directory opts) p = (x, p0)" by fastforce
  have k0: "keeps {} p p0" by (rule change_directory_keeps [OF cd])
  show thesis
  proof (cases x)
    case (Some err_no)
    then show thesis using assms(1) cd by (intro chdir [OF k0, of err_no]) (simp add: do_exec_def)
  next
    case None
    have t0: "fds p0 = fds p" "open_max p0 = open_max p"
      using cd by (auto simp: change_directory_def sys_chdir_def
          split: option.splits prod.splits if_splits dest!: next_fault_faults)
    then have "table_ok p0" using assms(2) by (simp add: table_ok_def)
    from mark_descriptors_marks [OF this assms(3,4)] obtain fs where
      md: "mark_descriptors os (so_close_descriptors opts) err p0 = p0\<lparr>faults := fs, fds := mark S (fds p0)\<rparr>"
      unfolding S_def by blast
    let ?q = "p0\<lparr>faults := fs, fds := mark S (fds p0)\<rparr>"
    have "keeps {} p ?q" using keeps_trans [OF k0 keeps_marked [where p = p0 and fs = fs and S = S]] by simp
    then show thesis
      by (rule marked) (use assms(1) cd None md t0 in \<open>simp_all add: do_exec_def Let_def\<close>)
  qed
qed

lemma marked_not_open:
  assumes "fds p1 = mark S (fds p)" "keeps {0, 1, 2} p1 q" "fd \<in> S - {0, 1, 2}"
  shows "im_fds (image_of q) fd = None"
proof -
  have "fds q fd = fds p1 fd \<or> fds q fd = flagged (fds p1 fd)" using assms(2,3) by (auto simp: keeps_def)
  moreover have "fds p1 fd = flagged (fds p fd)" using assms(1,3) by (simp add: mark_def)
  ultimately have "fds q fd = flagged (fds p fd)" by auto
  then show ?thesis unfolding image_of_def by (cases "fds p fd" rule: flagged.cases) auto
qed

text \<open>
  \<open>do_exec\<close> ends in one of these ways; in the program that runs, the marked descriptors above 2 are
  closed.
\<close>

lemma do_exec_outcome:
  assumes "do_exec os opts err i o' e p = r" "so_child_setup opts = None" "table_ok p"
    "lists_open (os_getdents os)" "0 \<le> err"
  shows "child_outcome err p r"
    "\<And>f as im p' fd. r = (Running f as im, p') \<Longrightarrow> fd \<in> (if so_close_descriptors opts then {3..} else {err})
      \<Longrightarrow> fd \<notin> {0, 1, 2} \<Longrightarrow> im_fds im fd = None"
proof -
  let ?S = "if so_close_descriptors opts then {3..} else {err}"
  from assms(1,3-5) have "child_outcome err p r \<and> (\<forall>f as im p' fd. r = (Running f as im, p') \<longrightarrow>
      fd \<in> ?S - {0, 1, 2} \<longrightarrow> im_fds im fd = None)"
  proof (cases rule: do_exec_marks)
    case (chdir e' q)
    have "child_outcome err p r"
      unfolding child_outcome_def chdir(2) using keeps_mono [OF chdir(1)] by blast
    then show ?thesis by (simp add: chdir(2) write_err_and_exit_def)
  next
    case (marked p1)
    from redirections_outcome [OF marked(3) assms(2)] obtain q where q: "keeps {0, 1, 2} p1 q"
      "(\<exists>f as. r = (Running f as (image_of q), q)) \<or> r = (Aborted, q) \<or> r = (Undefined, q) \<or>
       (\<exists>msg e. msg \<in> {CHILD_CHDIR_FAILED, CHILD_EXEC_FAILED, CHILD_DUP2_FAILED} \<and>
          r = write_err_and_exit err msg e q)"
      unfolding child_outcome_def by blast
    have "keeps {0, 1, 2} p q" using keeps_trans [OF marked(1) q(1)] by simp
    then have "child_outcome err p r" using q(2) unfolding child_outcome_def by blast
    moreover have "im = image_of q" if "r = (Running f as im, p')" for f as im p'
      using q(2) that by (auto simp: write_err_and_exit_def)
    ultimately show ?thesis using marked_not_open [OF marked(2) q(1)] by blast
  qed
  then show "child_outcome err p r"
    "\<And>f as im p' fd. r = (Running f as im, p') \<Longrightarrow> fd \<in> ?S \<Longrightarrow> fd \<notin> {0, 1, 2} \<Longrightarrow> im_fds im fd = None"
    by blast+
qed

lemma redirect_std_not_running:
  assumes "redirect_std err fd std to_null asserted f p = Inl (Running g as im, q)" shows False
  using assms
  by (auto simp: redirect_std_def redirect_fd_def redirect_null_def write_err_and_exit_def
      split: if_splits sum.splits prod.splits)

text \<open>Where calls meet no error but interruptions, a standard descriptor is what was asked for.\<close>

definition quiet :: "proc \<Rightarrow> bool" where
  "quiet p \<longleftrightarrow> (\<forall>f \<in> set (faults p). f = None \<or> f = Some EINTR)"

lemma next_fault_quiet:
  assumes "next_fault p = (f, q)" "quiet p"
  shows "quiet q" "f = None \<or> f = Some EINTR"
proof -
  have "quiet q \<and> (f = None \<or> f = Some EINTR)"
  proof (cases "faults p")
    case Nil
    then have "f = None" "q = p" using assms(1) by (simp_all add: next_fault_def)
    then show ?thesis using assms(2) by simp
  next
    case (Cons x fs)
    then have "f = x" "q = p\<lparr>faults := fs\<rparr>" using assms(1) by (simp_all add: next_fault_def)
    then show ?thesis using assms(2) Cons by (simp add: quiet_def)
  qed
  then show "quiet q" "f = None \<or> f = Some EINTR" by auto
qed

lemma sane_dup2_quiet:
  assumes "quiet p" "fds p a = Some (f, c)"
  shows "\<exists>q. sane_dup2 a b p = (Inr b, q) \<and> quiet q \<and> fds q = (fds p)(b \<mapsto> (f, c \<and> a = b))"
  using assms
proof (induction a b p rule: sane_dup2.induct)
  case (1 a b p)
  obtain x q where nf: "next_fault p = (x, q)" by fastforce
  from next_fault_faults [OF nf] obtain fs where q: "q = p\<lparr>faults := fs\<rparr>" by blast
  note quiet_q = next_fault_quiet [OF nf "1.prems"(1)]
  show ?case
  proof (cases x)
    case None
    have "sys_dup2 a b p = (Inr b, if a = b then q else q\<lparr>fds := (fds q)(b \<mapsto> (f, False))\<rparr>)"
      using "1.prems"(2) by (simp add: sys_dup2_def nf None q)
    then have dup: "sane_dup2 a b p = (Inr b, if a = b then q else q\<lparr>fds := (fds q)(b \<mapsto> (f, False))\<rparr>)"
      by (subst sane_dup2.simps) simp
    then show ?thesis
    proof (cases "a = b")
      case True
      then have "fds q = (fds p)(b \<mapsto> (f, c \<and> a = b))"
        using "1.prems"(2) fun_upd_idem [of "fds p" b "Some (f, c)"] by (simp add: q)
      then show ?thesis using quiet_q(1) True dup by (simp add: fun_eq_iff)
    next
      case False
      then show ?thesis using quiet_q(1) dup by (simp add: q quiet_def fun_eq_iff)
    qed
  next
    case (Some e)
    then have e: "e = EINTR" using quiet_q by simp
    then have call: "sys_dup2 a b p = (Inl EINTR, q)" using nf Some by (simp add: sys_dup2_def)
    have "fds q a = Some (f, c)" using "1.prems"(2) by (simp add: q)
    from "1.IH" [OF call [symmetric] refl refl quiet_q(1) this] obtain q2 where
      q2: "sane_dup2 a b q = (Inr b, q2)" "quiet q2" "fds q2 = (fds q)(b \<mapsto> (f, c \<and> a = b))" by blast
    have "sane_dup2 a b p = sane_dup2 a b q" by (subst sane_dup2.simps) (simp add: call)
    then show ?thesis using q2 by (simp add: q fun_eq_iff)
  qed
qed

lemma sane_dup2_closed:
  assumes "quiet p" "fds p a = None"
  shows "\<exists>q. sane_dup2 a b p = (Inl EBADF, q) \<and> quiet q \<and> fds q = fds p"
  using assms
proof (induction a b p rule: sane_dup2.induct)
  case (1 a b p)
  obtain x q where nf: "next_fault p = (x, q)" by fastforce
  from next_fault_faults [OF nf] obtain fs where q: "q = p\<lparr>faults := fs\<rparr>" by blast
  note quiet_q = next_fault_quiet [OF nf "1.prems"(1)]
  show ?case
  proof (cases x)
    case None
    have "sys_dup2 a b p = (Inl EBADF, q)"
      using "1.prems"(2) by (simp add: sys_dup2_def nf None q)
    then have "sane_dup2 a b p = (Inl EBADF, q)" by (subst sane_dup2.simps) simp
    then show ?thesis using quiet_q(1) by (simp add: q)
  next
    case (Some e)
    then have e: "e = EINTR" using quiet_q by simp
    then have call: "sys_dup2 a b p = (Inl EINTR, q)" using nf Some by (simp add: sys_dup2_def)
    have "fds q a = None" using "1.prems"(2) by (simp add: q)
    from "1.IH" [OF call [symmetric] refl refl quiet_q(1) this] obtain q2 where
      q2: "sane_dup2 a b q = (Inl EBADF, q2)" "quiet q2" "fds q2 = fds q" by blast
    have "sane_dup2 a b p = sane_dup2 a b q" by (subst sane_dup2.simps) (simp add: call)
    then show ?thesis using q2 by (simp add: q fun_eq_iff)
  qed
qed

lemma sane_open_quiet:
  assumes "quiet p" "sane_open f c p = (r, q)" shows "quiet q"
  using assms
proof (induction f c p rule: sane_open.induct)
  case (1 f c p)
  obtain x p1 where nf: "next_fault p = (x, p1)" by fastforce
  note quiet_p1 = next_fault_quiet [OF nf "1.prems"(1)]
  show ?case
  proof (cases x)
    case None
    have "quiet (snd (sys_open f c p)) \<and> fst (sys_open f c p) \<noteq> Inl EINTR"
      using quiet_p1(1) by (auto simp: sys_open_def nf None quiet_def split: option.splits)
    moreover obtain y p2 where "sys_open f c p = (y, p2)" by fastforce
    ultimately show ?thesis using "1.prems"(2)
      by (subst (asm) sane_open.simps) (auto split: sum.splits if_splits)
  next
    case (Some e)
    then have e: "e = EINTR" using quiet_p1 by simp
    then have call: "sys_open f c p = (Inl EINTR, p1)" using nf Some by (simp add: sys_open_def)
    then have "sane_open f c p1 = (r, q)" using "1.prems"(2) by (subst (asm) sane_open.simps) simp
    from "1.IH" [OF call [symmetric] refl refl quiet_p1(1) this] show ?thesis .
  qed
qed

lemma redirect_std_exact:
  assumes "redirect_std err fd std to_null asserted f p = Inr q" "quiet p" "std \<noteq> fd"
    "fds p std \<noteq> None" "fds p (- 1) = None"
  shows "quiet q" "\<And>x. x \<noteq> std \<Longrightarrow> x \<noteq> fd \<Longrightarrow> fds q x = fds p x"
    "\<And>x. x \<noteq> std \<Longrightarrow> map_option fst (fds q x) = map_option fst (fds p x)"
    "0 \<le> fd \<Longrightarrow> \<exists>g c. fds p fd = Some (g, c) \<and> fds q std = Some (g, False)"
    "fd < 0 \<Longrightarrow> to_null \<Longrightarrow> fds q std = Some (f, False) \<or> \<not> asserted \<and> fds q std = fds p std"
    "fd < 0 \<Longrightarrow> \<not> to_null \<Longrightarrow> fds q std = fds p std"
    "fds q std \<noteq> None"
proof -
  have "quiet q \<and> (\<forall>x. x \<noteq> std \<longrightarrow> x \<noteq> fd \<longrightarrow> fds q x = fds p x) \<and>
    (\<forall>x. x \<noteq> std \<longrightarrow> map_option fst (fds q x) = map_option fst (fds p x)) \<and>
    (0 \<le> fd \<longrightarrow> (\<exists>g c. fds p fd = Some (g, c) \<and> fds q std = Some (g, False))) \<and>
    (fd < 0 \<longrightarrow> to_null \<longrightarrow> fds q std = Some (f, False) \<or> \<not> asserted \<and> fds q std = fds p std) \<and>
    (fd < 0 \<longrightarrow> \<not> to_null \<longrightarrow> fds q std = fds p std) \<and> fds q std \<noteq> None"
  proof (cases "0 \<le> fd")
    case True
    obtain g c where g: "fds p fd = Some (g, c)"
    proof (cases "fds p fd")
      case None
      obtain x p1 where call: "sane_dup2 fd std p = (x, p1)" by fastforce
      from call None have "\<exists>e. x = Inl e" by (cases rule: sane_dup2_cases) auto
      then show ?thesis using assms(1) True call by (auto simp: redirect_std_def redirect_fd_def)
    next
      case (Some y)
      then show ?thesis using that by (cases y) auto
    qed
    obtain p1 where p1: "sane_dup2 fd std p = (Inr std, p1)" "quiet p1"
      "fds p1 = (fds p)(std \<mapsto> (g, c \<and> fd = std))"
      using sane_dup2_quiet [OF assms(2) g] by blast
    have q: "q = p1\<lparr>fds := mark {fd} (fds p1)\<rparr>"
      using assms(1) True p1 by (simp add: redirect_std_def redirect_fd_def set_cloexec_mark)
    show ?thesis using True g p1 assms(3) by (auto simp: q mark_def quiet_def)
  next
    case no_fd: False
    show ?thesis
    proof (cases to_null)
      case False
      then show ?thesis using assms no_fd by (simp add: redirect_std_def)
    next
      case True
      then have null: "redirect_null asserted f std p = Inr q"
        using assms(1) no_fd by (simp add: redirect_std_def)
      obtain x p1 where call: "sane_open f False p = (x, p1)" by fastforce
      have quiet_p1: "quiet p1" by (rule sane_open_quiet [OF assms(2) call])
      from call show ?thesis
      proof (cases rule: sane_open_cases)
        case (1 e fs)
        have "fds p1 (- 1) = None" using 1 assms(5) by simp
        from sane_dup2_closed [OF quiet_p1 this, of std] obtain p2 where
          p2: "sane_dup2 (- 1) std p1 = (Inl EBADF, p2)" "quiet p2" "fds p2 = fds p1" by blast
        have q: "q = p2" "\<not> asserted"
          using null call 1 p2
          by (auto simp: redirect_null_def close_and_invalidate_def split: if_splits)
        then show ?thesis using p2 1 no_fd True assms(4) by auto
      next
        case (2 n fs)
        have "n \<noteq> std" using 2(2) assms(4) by auto
        have "fds p1 n = Some (f, False)" using 2 by simp
        from sane_dup2_quiet [OF quiet_p1 this, of std] obtain p2 where
          p2: "sane_dup2 n std p1 = (Inr std, p2)" "quiet p2" "fds p2 = (fds p1)(std \<mapsto> (f, False))"
          using \<open>n \<noteq> std\<close> by auto
        have q: "q = close_fd n p2"
          using null call 2 p2 by (simp add: redirect_null_def close_and_invalidate_def)
        show ?thesis using no_fd True p2 2 \<open>n \<noteq> std\<close> assms(4)
          by (auto simp: q close_fd_def quiet_def)
      qed
    qed
  qed
  then show "quiet q" "\<And>x. x \<noteq> std \<Longrightarrow> x \<noteq> fd \<Longrightarrow> fds q x = fds p x"
    "\<And>x. x \<noteq> std \<Longrightarrow> map_option fst (fds q x) = map_option fst (fds p x)"
    "0 \<le> fd \<Longrightarrow> \<exists>g c. fds p fd = Some (g, c) \<and> fds q std = Some (g, False)"
    "fd < 0 \<Longrightarrow> to_null \<Longrightarrow> fds q std = Some (f, False) \<or> \<not> asserted \<and> fds q std = fds p std"
    "fd < 0 \<Longrightarrow> \<not> to_null \<Longrightarrow> fds q std = fds p std"
    "fds q std \<noteq> None" by blast+
qed

text \<open>
  \<open>std_file\<close> is what a standard descriptor of the started program is meant to be: the given
  descriptor's file, \<open>/dev/null\<close>, or what the process itself has there.
\<close>

definition std_file :: "proc \<Rightarrow> int \<Rightarrow> int \<Rightarrow> bool \<Rightarrow> ofile \<Rightarrow> ofile option" where
  "std_file p fd std to_null null =
    (if 0 \<le> fd then map_option fst (fds p fd)
     else if to_null then Some null
     else (case fds p std of Some (f, False) \<Rightarrow> Some f | _ \<Rightarrow> None))"

definition not_std :: "int \<Rightarrow> bool" where
  "not_std fd \<longleftrightarrow> fd \<notin> {0, 1, 2}"

lemma quiet_faults: "faults q = faults p \<Longrightarrow> quiet q = quiet p"
  by (simp add: quiet_def)

lemma sys_open_quiet:
  assumes "quiet p" shows "quiet (snd (sys_open f c p))"
proof -
  obtain x p1 where nf: "next_fault p = (x, p1)" by fastforce
  show ?thesis using next_fault_quiet(1) [OF nf assms]
    by (auto simp: sys_open_def nf quiet_def split: option.splits)
qed

lemma mark_descriptors_quiet:
  assumes "quiet p" shows "quiet (mark_descriptors os cd err p)"
proof (cases cd)
  case True
  obtain r q where call: "sys_open Proc_Fd_Dir False p = (r, q)" by fastforce
  then have "quiet q" using sys_open_quiet [OF assms, of Proc_Fd_Dir False] by simp
  then show ?thesis using True call
    by (cases r) (simp_all add: mark_descriptors_def fdwalk_def walk_bufs_mark walk_range_mark
        close_fd_def quiet_def)
next
  case False
  then show ?thesis using assms by (simp add: mark_descriptors_def set_cloexec_mark quiet_def)
qed

lemma change_directory_table:
  assumes "change_directory wd p = (x, q)"
  shows "fds q = fds p" "open_max q = open_max p" "quiet p \<Longrightarrow> quiet q"
proof -
  have "fds q = fds p \<and> open_max q = open_max p \<and> (quiet p \<longrightarrow> quiet q)"
  proof (cases wd)
    case None
    then show ?thesis using assms by (simp add: change_directory_def)
  next
    case (Some dir)
    obtain y p1 where nf: "next_fault p = (y, p1)" by fastforce
    from next_fault_faults [OF nf] obtain fs where p1: "p1 = p\<lparr>faults := fs\<rparr>" by blast
    have "quiet p \<longrightarrow> quiet p1" using next_fault_quiet(1) [OF nf] by simp
    moreover have "fds q = fds p1" "open_max q = open_max p1" "faults q = faults p1"
      using assms Some nf by (auto simp: change_directory_def sys_chdir_def split: option.splits)
    ultimately show ?thesis by (simp add: p1 quiet_def)
  qed
  then show "fds q = fds p" "open_max q = open_max p" "quiet p \<Longrightarrow> quiet q" by auto
qed

lemma do_exec_std:
  assumes "do_exec os opts err i o' e p = (Running f as im, p')" "so_child_setup opts = None"
    "table_ok p" "lists_open (os_getdents os)" "0 \<le> err" "not_std err" "quiet p"
    "not_std i" "not_std o'" "not_std e" "fds p 0 \<noteq> None" "fds p 1 \<noteq> None" "fds p 2 \<noteq> None"
  shows "im_fds im 0 = std_file p i 0 (\<not> so_child_inherits_stdin opts) Null_Read"
    "im_fds im 1 = std_file p o' 1 (so_stdout_to_null opts) Null_Write"
    "im_fds im 2 = std_file p e 2 (so_stderr_to_null opts) Null_Write
      \<or> im_fds im 2 = std_file p e 2 False Null_Write"
proof -
  let ?S = "if so_close_descriptors opts then {3..} else {err}"
  obtain x p0 where cd: "change_directory (so_working_directory opts) p = (x, p0)" by fastforce
  have x: "x = None" using assms(1) cd
    by (cases x) (auto simp: do_exec_def write_err_and_exit_def)
  note t0 = change_directory_table [OF cd]
  have "table_ok p0" using assms(3) t0 by (simp add: table_ok_def)
  then obtain fs where md: "mark_descriptors os (so_close_descriptors opts) err p0 =
      p0\<lparr>faults := fs, fds := mark ?S (fds p0)\<rparr>"
    using mark_descriptors_marks [OF _ assms(4,5)] by blast
  define p1 where "p1 = mark_descriptors os (so_close_descriptors opts) err p0"
  have p1: "quiet p1" "fds p1 = mark ?S (fds p)"
    unfolding p1_def
    by (rule mark_descriptors_quiet [OF t0(3) [OF assms(7)]]) (simp add: md t0)
  have std1: "fds p1 n = fds p n" if "n \<in> {0, 1, 2}" for n
    using that assms(6) by (auto simp: p1 mark_def not_std_def)
  have file1: "map_option fst (fds p1 n) = map_option fst (fds p n)" for n
    by (cases "fds p n" rule: flagged.cases) (auto simp: p1 mark_def)
  have "fds p (- 1) = None"
    using spec [OF assms(3) [unfolded table_ok_def], of "- 1"] by fastforce
  then have neg1: "fds p1 (- 1) = None" using file1 [of "- 1"] by simp
  have step1: "do_exec os opts err i o' e p =
      (case redirect_std err i 0 (\<not> so_child_inherits_stdin opts) True Null_Read p1 of
            Inl r \<Rightarrow> r
          | Inr p \<Rightarrow> (case redirect_std err o' 1 (so_stdout_to_null opts) True Null_Write p of
              Inl r \<Rightarrow> r
            | Inr p \<Rightarrow> (case redirect_std err e 2 (so_stderr_to_null opts) False Null_Write p of
                Inl r \<Rightarrow> r
              | Inr p \<Rightarrow> run_program os opts err p)))"
    using cd x by (simp add: do_exec_def p1_def Let_def)
  obtain q1 where q1: "redirect_std err i 0 (\<not> so_child_inherits_stdin opts) True Null_Read p1 = Inr q1"
    by (cases "redirect_std err i 0 (\<not> so_child_inherits_stdin opts) True Null_Read p1") (use step1 assms(1) in \<open>auto dest: redirect_std_not_running\<close>)
  obtain q2 where q2: "redirect_std err o' 1 (so_stdout_to_null opts) True Null_Write q1 = Inr q2"
    by (cases "redirect_std err o' 1 (so_stdout_to_null opts) True Null_Write q1") (use step1 assms(1) q1 in \<open>auto dest: redirect_std_not_running\<close>)
  obtain q3 where q3: "redirect_std err e 2 (so_stderr_to_null opts) False Null_Write q2 = Inr q3"
    by (cases "redirect_std err e 2 (so_stderr_to_null opts) False Null_Write q2") (use step1 assms(1) q1 q2 in \<open>auto dest: redirect_std_not_running\<close>)
  have im: "im = image_of q3"
    using step1 assms(1,2) q1 q2 q3
    by (auto simp: run_program_def write_err_and_exit_def split: list.splits exec_end.splits)
  have ne: "0 \<noteq> i" "1 \<noteq> o'" "2 \<noteq> e" "i \<noteq> 1" "i \<noteq> 2" "o' \<noteq> 0" "o' \<noteq> 2" "e \<noteq> 0" "e \<noteq> 1"
    using assms(8-10) by (auto simp: not_std_def)
  have n1: "fds p1 0 \<noteq> None" using assms(11) std1 by simp
  note r1 = redirect_std_exact [OF q1 p1(1) ne(1) n1 neg1]
  have n2: "fds q1 1 \<noteq> None" "fds q1 (- 1) = None"
    using assms(12) std1 r1(2) [of 1] r1(3) [of "- 1"] neg1 ne by auto
  note r2 = redirect_std_exact [OF q2 r1(1) ne(2) n2]
  have n3: "fds q2 2 \<noteq> None" "fds q2 (- 1) = None"
    using assms(13) std1 r1(2) [of 2] r2(2) [of 2] r2(3) [of "- 1"] n2(2) ne by auto
  note r3 = redirect_std_exact [OF q3 r2(1) ne(3) n3]
  have q3_0: "fds q3 0 = fds q1 0" using r2(2) [of 0] r3(2) [of 0] ne by simp
  have q3_1: "fds q3 1 = fds q2 1" using r3(2) [of 1] ne by simp
  have file2: "map_option fst (fds q1 o') = map_option fst (fds p o')" if "0 \<le> o'"
    using r1(3) [of o'] file1 ne by simp
  have file3: "map_option fst (fds q2 e) = map_option fst (fds p e)" if "0 \<le> e"
    using r2(3) [of e] r1(3) [of e] file1 ne by simp
  have same1: "fds q1 1 = fds p 1" using r1(2) [of 1] std1 ne by simp
  have same2: "fds q2 2 = fds p 2" using r1(2) [of 2] r2(2) [of 2] std1 ne by simp
  show "im_fds im 0 = std_file p i 0 (\<not> so_child_inherits_stdin opts) Null_Read"
    using r1(4-6) file1 [of i] std1 [of 0]
    by (cases "0 \<le> i") (auto simp: im image_of_def q3_0 std_file_def)
  show "im_fds im 1 = std_file p o' 1 (so_stdout_to_null opts) Null_Write"
    using r2(4-6) file2 same1
    by (cases "0 \<le> o'") (auto simp: im image_of_def q3_1 std_file_def)
  show "im_fds im 2 = std_file p e 2 (so_stderr_to_null opts) Null_Write
      \<or> im_fds im 2 = std_file p e 2 False Null_Write"
    using r3(4-6) file3 same2
    by (cases "0 \<le> e") (auto simp: im image_of_def std_file_def)
qed

text \<open>
  A given descriptor that is the standard one itself is closed on exec by the marking that
  follows its redirection.
\<close>

lemma redirect_same_fd:
  assumes "redirect_std err std std to_null asserted f p = Inr q" "0 \<le> std"
  shows "\<exists>g. fds q std = Some (g, True)"
proof -
  have "redirect_fd err std std p = Inr q" using assms by (simp add: redirect_std_def)
  from this assms(2) show ?thesis by (cases rule: redirect_fd_cases) auto
qed

lemma keepsD: "keeps S p q \<Longrightarrow> fd \<notin> S \<Longrightarrow> fds q fd = fds p fd \<or> fds q fd = flagged (fds p fd)"
  by (auto simp: keeps_def)

lemma do_exec_steps:
  assumes "do_exec os opts err i o' e p = (Running f as im, p')"
  obtains p0 q1 q2 q3 where "change_directory (so_working_directory opts) p = (None, p0)"
    "redirect_std err i 0 (\<not> so_child_inherits_stdin opts) True Null_Read
       (mark_descriptors os (so_close_descriptors opts) err p0) = Inr q1"
    "redirect_std err o' 1 (so_stdout_to_null opts) True Null_Write q1 = Inr q2"
    "redirect_std err e 2 (so_stderr_to_null opts) False Null_Write q2 = Inr q3"
    "run_program os opts err q3 = (Running f as im, p')"
proof -
  obtain x p0 where cd: "change_directory (so_working_directory opts) p = (x, p0)" by fastforce
  have x: "x = None" using assms cd by (cases x) (auto simp: do_exec_def write_err_and_exit_def)
  define p1 where "p1 = mark_descriptors os (so_close_descriptors opts) err p0"
  have step: "do_exec os opts err i o' e p =
      (case redirect_std err i 0 (\<not> so_child_inherits_stdin opts) True Null_Read p1 of
            Inl r \<Rightarrow> r
          | Inr p \<Rightarrow> (case redirect_std err o' 1 (so_stdout_to_null opts) True Null_Write p of
              Inl r \<Rightarrow> r
            | Inr p \<Rightarrow> (case redirect_std err e 2 (so_stderr_to_null opts) False Null_Write p of
                Inl r \<Rightarrow> r
              | Inr p \<Rightarrow> run_program os opts err p)))"
    using cd x by (simp add: do_exec_def p1_def Let_def)
  obtain q1 where q1: "redirect_std err i 0 (\<not> so_child_inherits_stdin opts) True Null_Read p1 = Inr q1"
    by (cases "redirect_std err i 0 (\<not> so_child_inherits_stdin opts) True Null_Read p1")
      (use step assms in \<open>auto dest: redirect_std_not_running\<close>)
  obtain q2 where q2: "redirect_std err o' 1 (so_stdout_to_null opts) True Null_Write q1 = Inr q2"
    by (cases "redirect_std err o' 1 (so_stdout_to_null opts) True Null_Write q1")
      (use step assms q1 in \<open>auto dest: redirect_std_not_running\<close>)
  obtain q3 where q3: "redirect_std err e 2 (so_stderr_to_null opts) False Null_Write q2 = Inr q3"
    by (cases "redirect_std err e 2 (so_stderr_to_null opts) False Null_Write q2")
      (use step assms q1 q2 in \<open>auto dest: redirect_std_not_running\<close>)
  show ?thesis
    using that [of p0 q1 q2 q3] cd x q1 q2 q3 step assms by (simp add: p1_def)
qed

text \<open>
  Whatever calls fail and whichever standard descriptors are open: a descriptor that was passed arrives, or the
  program does not run; a \<open>/dev/null\<close> that cannot be opened or moved leaves what was there.
\<close>

lemma redirect_std_any:
  assumes "redirect_std err fd std to_null asserted f p = Inr q" "std \<noteq> fd" "fds p (- 1) = None"
  shows "\<And>x. x \<noteq> std \<Longrightarrow> x \<noteq> fd \<Longrightarrow> fds q x = fds p x"
    "\<And>x. x \<noteq> std \<Longrightarrow> map_option fst (fds q x) = map_option fst (fds p x)"
    "0 \<le> fd \<Longrightarrow> \<exists>g c. fds p fd = Some (g, c) \<and> fds q std = Some (g, False)"
    "fd < 0 \<Longrightarrow> fds q std = fds p std \<or> to_null \<and> fds q std = Some (f, False)"
proof -
  have "(\<forall>x. x \<noteq> std \<longrightarrow> x \<noteq> fd \<longrightarrow> fds q x = fds p x) \<and>
    (\<forall>x. x \<noteq> std \<longrightarrow> map_option fst (fds q x) = map_option fst (fds p x)) \<and>
    (0 \<le> fd \<longrightarrow> (\<exists>g c. fds p fd = Some (g, c) \<and> fds q std = Some (g, False))) \<and>
    (fd < 0 \<longrightarrow> fds q std = fds p std \<or> to_null \<and> fds q std = Some (f, False))"
  proof (cases "0 \<le> fd")
    case True
    obtain x p1 where call: "sane_dup2 fd std p = (x, p1)" by fastforce
    from call show ?thesis
    proof (cases rule: sane_dup2_cases)
      case (1 e fs)
      then show ?thesis using assms(1) True call by (simp add: redirect_std_def redirect_fd_def)
    next
      case (2 g c fs)
      then have "q = p1\<lparr>fds := mark {fd} (fds p1)\<rparr>"
        using assms(1) True call by (simp add: redirect_std_def redirect_fd_def set_cloexec_mark)
      then show ?thesis using True 2 assms(2) by (auto simp: mark_def)
    qed
  next
    case no_fd: False
    show ?thesis
    proof (cases to_null)
      case False
      then show ?thesis using assms no_fd by (simp add: redirect_std_def)
    next
      case True
      then have null: "redirect_null asserted f std p = Inr q"
        using assms(1) no_fd by (simp add: redirect_std_def)
      obtain x p1 where call: "sane_open f False p = (x, p1)" by fastforce
      from call show ?thesis
      proof (cases rule: sane_open_cases)
        case (1 e fs)
        obtain y p2 where dup: "sane_dup2 (- 1) std p1 = (y, p2)" by fastforce
        have "fds p2 = fds p1" using dup 1 assms(3) by (cases rule: sane_dup2_cases) auto
        then show ?thesis using null call 1 dup no_fd
          by (auto simp: redirect_null_def close_and_invalidate_def split: if_splits)
      next
        case (2 n fs)
        obtain y p2 where dup: "sane_dup2 n std p1 = (y, p2)" by fastforce
        have q: "q = close_fd n p2"
          using null call 2 dup by (simp add: redirect_null_def close_and_invalidate_def)
        from dup show ?thesis
          by (cases rule: sane_dup2_cases) (use 2 no_fd True in \<open>auto simp: q close_fd_def\<close>)
      qed
    qed
  qed
  then show "\<And>x. x \<noteq> std \<Longrightarrow> x \<noteq> fd \<Longrightarrow> fds q x = fds p x"
    "\<And>x. x \<noteq> std \<Longrightarrow> map_option fst (fds q x) = map_option fst (fds p x)"
    "0 \<le> fd \<Longrightarrow> \<exists>g c. fds p fd = Some (g, c) \<and> fds q std = Some (g, False)"
    "fd < 0 \<Longrightarrow> fds q std = fds p std \<or> to_null \<and> fds q std = Some (f, False)" by blast+
qed

text \<open>What a standard descriptor may be: what was asked for, or, where \<open>/dev/null\<close> was, what was there.\<close>

definition std_redirected :: "proc \<Rightarrow> image \<Rightarrow> int \<Rightarrow> int \<Rightarrow> bool \<Rightarrow> ofile \<Rightarrow> bool" where
  "std_redirected p im fd std to_null f \<longleftrightarrow> im_fds im std = std_file p fd std to_null f \<or>
    fd < 0 \<and> to_null \<and> im_fds im std = std_file p fd std False f"

lemma do_exec_std_any:
  assumes "do_exec os opts err i o' e p = (Running f as im, p')" "so_child_setup opts = None"
    "table_ok p" "lists_open (os_getdents os)" "0 \<le> err" "not_std err" "not_std i" "not_std o'" "not_std e"
  shows "std_redirected p im i 0 (\<not> so_child_inherits_stdin opts) Null_Read"
    "std_redirected p im o' 1 (so_stdout_to_null opts) Null_Write"
    "std_redirected p im e 2 (so_stderr_to_null opts) Null_Write"
proof -
  let ?S = "if so_close_descriptors opts then {3..} else {err}"
  from assms(1) obtain p0 q1 q2 q3 where cd: "change_directory (so_working_directory opts) p = (None, p0)"
    and q1: "redirect_std err i 0 (\<not> so_child_inherits_stdin opts) True Null_Read
       (mark_descriptors os (so_close_descriptors opts) err p0) = Inr q1"
    and q2: "redirect_std err o' 1 (so_stdout_to_null opts) True Null_Write q1 = Inr q2"
    and q3: "redirect_std err e 2 (so_stderr_to_null opts) False Null_Write q2 = Inr q3"
    and run: "run_program os opts err q3 = (Running f as im, p')"
    by (rule do_exec_steps)
  note t0 = change_directory_table [OF cd]
  have "table_ok p0" using assms(3) t0 by (simp add: table_ok_def)
  then obtain fs where md: "mark_descriptors os (so_close_descriptors opts) err p0 =
      p0\<lparr>faults := fs, fds := mark ?S (fds p0)\<rparr>"
    using mark_descriptors_marks [OF _ assms(4,5)] by blast
  define p1 where "p1 = mark_descriptors os (so_close_descriptors opts) err p0"
  have p1: "fds p1 = mark ?S (fds p)" unfolding p1_def by (simp add: md t0)
  have std1: "fds p1 n = fds p n" if "n \<in> {0, 1, 2}" for n
    using that assms(6) by (auto simp: p1 mark_def not_std_def)
  have file1: "map_option fst (fds p1 n) = map_option fst (fds p n)" for n
    by (cases "fds p n" rule: flagged.cases) (auto simp: p1 mark_def)
  have "fds p (- 1) = None"
    using spec [OF assms(3) [unfolded table_ok_def], of "- 1"] by fastforce
  then have neg: "fds p1 (- 1) = None" using file1 [of "- 1"] by simp
  have im: "im = image_of q3"
    using run assms(2) by (auto simp: run_program_def write_err_and_exit_def split: list.splits exec_end.splits)
  have ne: "0 \<noteq> i" "1 \<noteq> o'" "2 \<noteq> e" "i \<noteq> 1" "i \<noteq> 2" "o' \<noteq> 0" "o' \<noteq> 2" "e \<noteq> 0" "e \<noteq> 1"
    using assms(7-9) by (auto simp: not_std_def)
  note r1 = redirect_std_any [OF q1 [folded p1_def] ne(1) neg]
  have n2: "fds q1 (- 1) = None" using r1(2) [of "- 1"] neg by simp
  note r2 = redirect_std_any [OF q2 ne(2) n2]
  have n3: "fds q2 (- 1) = None" using r2(2) [of "- 1"] n2 by simp
  note r3 = redirect_std_any [OF q3 ne(3) n3]
  have q3_0: "fds q3 0 = fds q1 0" using r2(1) [of 0] r3(1) [of 0] ne by simp
  have q3_1: "fds q3 1 = fds q2 1" using r3(1) [of 1] ne by simp
  have file2: "map_option fst (fds q1 o') = map_option fst (fds p o')" if "0 \<le> o'"
    using r1(2) [of o'] file1 ne by simp
  have file3: "map_option fst (fds q2 e) = map_option fst (fds p e)" if "0 \<le> e"
    using r2(2) [of e] r1(2) [of e] file1 ne by simp
  have same1: "fds q1 1 = fds p 1" using r1(1) [of 1] std1 ne by simp
  have same2: "fds q2 2 = fds p 2" using r1(1) [of 2] r2(1) [of 2] std1 ne by simp
  show "std_redirected p im i 0 (\<not> so_child_inherits_stdin opts) Null_Read"
    using r1(3,4) file1 [of i] std1 [of 0]
    by (cases "0 \<le> i") (auto simp: im image_of_def q3_0 std_file_def std_redirected_def)
  show "std_redirected p im o' 1 (so_stdout_to_null opts) Null_Write"
    using r2(3,4) file2 same1
    by (cases "0 \<le> o'") (auto simp: im image_of_def q3_1 std_file_def std_redirected_def)
  show "std_redirected p im e 2 (so_stderr_to_null opts) Null_Write"
    using r3(3,4) file3 same2
    by (cases "0 \<le> e") (auto simp: im image_of_def std_file_def std_redirected_def)
qed

lemma redirect_std_keeps:
  assumes "redirect_std err fd std to_null asserted f p = Inr q" "std \<in> {0, 1, 2}"
  shows "keeps {std} p q"
  using assms by (cases rule: redirect_std_cases) auto

text \<open>
  A caller that passes the descriptor 0 itself as \<open>stdin_fd\<close> gets a program whose descriptor 0 is
  closed.
\<close>

lemma do_exec_stdin_zero:
  assumes "do_exec os opts err 0 o' e p = (Running f as im, p')" "so_child_setup opts = None"
  shows "im_fds im 0 = None"
proof -
  from assms(1) obtain p0 q1 q2 q3 where
    q1: "redirect_std err 0 0 (\<not> so_child_inherits_stdin opts) True Null_Read
       (mark_descriptors os (so_close_descriptors opts) err p0) = Inr q1"
    and q2: "redirect_std err o' 1 (so_stdout_to_null opts) True Null_Write q1 = Inr q2"
    and q3: "redirect_std err e 2 (so_stderr_to_null opts) False Null_Write q2 = Inr q3"
    and run: "run_program os opts err q3 = (Running f as im, p')"
    by (rule do_exec_steps)
  obtain g where g: "fds q1 0 = Some (g, True)" using redirect_same_fd [OF q1] by auto
  have "keeps ({1} \<union> {2}) q1 q3"
    using redirect_std_keeps [OF q2] redirect_std_keeps [OF q3] keeps_trans by blast
  from keepsD [OF this, of 0] have "fds q3 0 = Some (g, True)" using g by auto
  moreover have "im = image_of q3"
    using run assms(2)
    by (auto simp: run_program_def write_err_and_exit_def split: list.splits exec_end.splits)
  ultimately show ?thesis by (simp add: image_of_def)
qed

text \<open>Only the descriptor \<open>fd\<close> of a process refers to the writing end of pipe \<open>n\<close>.\<close>

definition sole_writer :: "nat \<Rightarrow> int \<Rightarrow> proc \<Rightarrow> bool" where
  "sole_writer n fd p \<longleftrightarrow> (\<forall>x c. fds p x = Some (Pipe_Write n, c) \<longrightarrow> x = fd)"

lemma sole_writer_flagged:
  assumes "\<And>x. fds q x = fds p x \<or> fds q x = flagged (fds p x)" "sole_writer n fd p"
  shows "sole_writer n fd q"
  unfolding sole_writer_def
proof (intro allI impI)
  fix x c assume q: "fds q x = Some (Pipe_Write n, c)"
  then have "\<exists>c. fds p x = Some (Pipe_Write n, c)"
    using assms(1) [of x] by (cases "fds p x" rule: flagged.cases) auto
  then show "x = fd" using assms(2) by (auto simp: sole_writer_def)
qed

lemma keeps_empty_sole: "keeps {} p q \<Longrightarrow> sole_writer n fd p \<Longrightarrow> sole_writer n fd q"
  by (rule sole_writer_flagged) (auto simp: keeps_def)

lemma sane_dup2_sole:
  assumes "sane_dup2 a b p = (r, q)" "sole_writer n err p" "a \<noteq> err"
  shows "sole_writer n err q"
  using assms(1)
proof (cases rule: sane_dup2_cases)
  case (1 e fs)
  then show ?thesis using assms(2) by (simp add: sole_writer_def)
next
  case (2 f c fs)
  then show ?thesis using assms(2,3) by (auto simp: sole_writer_def)
qed

lemma redirect_std_sole:
  assumes "redirect_std err fd std to_null asserted f p = Inr q" "sole_writer n err p"
    "fd \<noteq> err" "f \<noteq> Pipe_Write n" "fds p err \<noteq> None" "0 \<le> err"
  shows "sole_writer n err q"
proof (cases "0 \<le> fd")
  case True
  obtain x p1 where call: "sane_dup2 fd std p = (x, p1)" by fastforce
  then obtain y where x: "x = Inr y" using assms(1) True
    by (cases x) (auto simp: redirect_std_def redirect_fd_def)
  have q: "q = snd (set_cloexec 0 fd p1)"
    using assms(1) True call x by (simp add: redirect_std_def redirect_fd_def)
  have "sole_writer n err p1" by (rule sane_dup2_sole [OF call assms(2,3)])
  then show ?thesis
    by (rule sole_writer_flagged [rotated]) (auto simp: q set_cloexec_mark mark_def)
next
  case no_fd: False
  show ?thesis
  proof (cases to_null)
    case False
    then show ?thesis using no_fd assms by (simp add: redirect_std_def)
  next
    case True
    then have null: "redirect_null asserted f std p = Inr q"
      using assms(1) no_fd by (simp add: redirect_std_def)
    obtain x p1 where call: "sane_open f False p = (x, p1)" by fastforce
    from call show ?thesis
    proof (cases rule: sane_open_cases)
      case (1 e fs)
      then have "q = snd (sane_dup2 (- 1) std p1)"
        using null call by (auto simp: redirect_null_def close_and_invalidate_def split: if_splits)
      moreover have "sole_writer n err p1" using assms(2) 1 by (simp add: sole_writer_def)
      ultimately show ?thesis
        using sane_dup2_sole [of "- 1" std p1 "fst (sane_dup2 (- 1) std p1)" q n err] assms(6) by simp
    next
      case (2 m fs)
      then have q: "q = close_fd m (snd (sane_dup2 m std p1))"
        using null call by (simp add: redirect_null_def close_and_invalidate_def)
      have "m \<noteq> err" using 2(2) assms(5) by auto
      moreover have "sole_writer n err p1" using assms(2,4) 2 by (auto simp: sole_writer_def)
      ultimately have "sole_writer n err (snd (sane_dup2 m std p1))"
        using sane_dup2_sole [of m std p1 "fst (sane_dup2 m std p1)"] by simp
      then show ?thesis by (auto simp: q close_fd_def sole_writer_def)
    qed
  qed
qed

text \<open>So the program that runs has no descriptor of the pipe for the error report.\<close>

lemma do_exec_pipe_free:
  assumes "do_exec os opts err i o' e p = (Running f as im, p')" "so_child_setup opts = None"
    "table_ok p" "lists_open (os_getdents os)" "0 \<le> err" "not_std err" "sole_writer n err p"
    "fds p err \<noteq> None" "i \<noteq> err" "o' \<noteq> err" "e \<noteq> err"
  shows "im_fds im fd \<noteq> Some (Pipe_Write n)"
proof -
  from assms(1) obtain p0 q1 q2 q3 where
    cd: "change_directory (so_working_directory opts) p = (None, p0)"
    and q1: "redirect_std err i 0 (\<not> so_child_inherits_stdin opts) True Null_Read
       (mark_descriptors os (so_close_descriptors opts) err p0) = Inr q1"
    and q2: "redirect_std err o' 1 (so_stdout_to_null opts) True Null_Write q1 = Inr q2"
    and q3: "redirect_std err e 2 (so_stderr_to_null opts) False Null_Write q2 = Inr q3"
    and run: "run_program os opts err q3 = (Running f as im, p')"
    by (rule do_exec_steps)
  define p1 where "p1 = mark_descriptors os (so_close_descriptors opts) err p0"
  have t0: "fds p0 = fds p" "open_max p0 = open_max p" using change_directory_table [OF cd] by auto
  then have "table_ok p0" using assms(3) by (simp add: table_ok_def)
  then obtain fs where p1: "p1 = p0\<lparr>faults := fs, fds := mark (if so_close_descriptors opts then {3..} else {err}) (fds p0)\<rparr>"
    using mark_descriptors_marks [OF _ assms(4,5)] unfolding p1_def by blast
  have k1: "keeps {} p0 p1" unfolding p1 by (rule keeps_marked)
  have open_err: "fds b err \<noteq> None" if "keeps {std} a b" "std \<in> {0, 1, 2}" "fds a err \<noteq> None" for a b std
  proof -
    have "err \<notin> {std}" using that(2) assms(6) by (auto simp: not_std_def)
    from keepsD [OF that(1) this] show ?thesis using that(3) by auto
  qed
  have "sole_writer n err p0" using assms(7) by (simp add: sole_writer_def t0)
  then have s1: "sole_writer n err p1" by (rule keeps_empty_sole [OF k1])
  have o1: "fds p1 err \<noteq> None" using assms(8) by (auto simp: p1 mark_def t0)
  note kq1 = redirect_std_keeps [OF q1 [folded p1_def]]
  have s2: "sole_writer n err q1" by (rule redirect_std_sole [OF q1 [folded p1_def] s1 assms(9) _ o1 assms(5)]) simp
  have o2: "fds q1 err \<noteq> None" by (rule open_err [OF kq1 _ o1]) auto
  have s3: "sole_writer n err q2" by (rule redirect_std_sole [OF q2 s2 assms(10) _ o2 assms(5)]) simp
  have o3: "fds q2 err \<noteq> None" by (rule open_err [OF redirect_std_keeps [OF q2] _ o2]) auto
  have s4: "sole_writer n err q3" by (rule redirect_std_sole [OF q3 s3 assms(11) _ o3 assms(5)]) simp
  have im: "im = image_of q3"
    using run assms(2)
    by (auto simp: run_program_def write_err_and_exit_def split: list.splits exec_end.splits)
  show ?thesis
  proof (cases "fd = err")
    case True
    have "err \<in> (if so_close_descriptors opts then {3..} else {err})"
      using assms(5,6) by (auto simp: not_std_def)
    then have "im_fds im err = None"
      using do_exec_outcome(2) [OF refl assms(2-5), of i o' e f as im p' err] assms(1,6)
      by (simp add: not_std_def)
    then show ?thesis using True by simp
  next
    case False
    then show ?thesis using s4
      by (auto simp: im image_of_def sole_writer_def split: option.splits bool.splits prod.splits)
  qed
qed

end
