(* ===== verification/Spawn_Fork.thy ===== *)
theory Spawn_Fork
  imports Spawn_Fds
begin

text \<open>
  The functions of \<open>gspawn.c\<close> that start a process: \<open>fork_exec_with_fds\<close> with its two pipes for
  the child's error report and the pid of a grandchild, \<open>fork_exec_with_pipes\<close>, and the public
  functions over them. \<open>None\<close> is a parent that waits for ever, is aborted, or runs into behaviour
  C leaves undefined.

  A forked child runs until it execs, exits or aborts before the parent goes on: what the parent
  learns from it, it learns through a pipe or \<open>waitpid\<close>, which wait.
\<close>

subsection \<open>Processes and pipes\<close>

definition start_child :: "spawn_os \<Rightarrow> int \<Rightarrow> proc \<Rightarrow> proc" where
  "start_child os pid p = p\<lparr>faults := os_child_faults os pid, children := [], orphans := []\<rparr>"

definition signal_default :: "spawn_signal \<Rightarrow> proc \<Rightarrow> proc" where
  "signal_default s p = p\<lparr>disp := (disp p)(s := Default)\<rparr>"

text \<open>
  \<open>waitpid\<close>, retried after \<open>EINTR\<close>. Besides an interruption it fails only for want of such a
  child: it was waited for before, or \<open>SIGCHLD\<close> is ignored and the kernel has discarded it.
\<close>

function wait_child :: "spawn_os \<Rightarrow> int \<Rightarrow> proc \<Rightarrow> (errno + int) \<times> proc" where
  "wait_child os pid p =
    (case next_fault p of (f, p) \<Rightarrow>
       if f = Some EINTR then wait_child os pid p
       else
         (let rest = filter (\<lambda>(c, _). c \<noteq> pid) (children p) in
          case map_of (children p) pid of
            None \<Rightarrow> (Inl ECHILD, p)
          | Some ending \<Rightarrow>
              (if disp p SIG_CHLD = Ignored then Inl ECHILD else Inr (os_wait_status os pid ending),
               p\<lparr>children := rest\<rparr>)))"
  by pat_completeness auto
termination
  by (relation "measure (\<lambda>(os, pid, p). length (faults p))")
    (auto simp: next_fault_def split: list.splits)

declare wait_child.simps [simp del]

text \<open>
  What a reader of the pipe gets: the bytes in it, in pieces, and the end of the file when no
  process has a descriptor of the other end.
\<close>

definition image_holds :: "nat \<Rightarrow> nat \<Rightarrow> child_end \<Rightarrow> bool" where
  "image_holds n limit ending =
    (case ending of
       Running _ _ im \<Rightarrow> list_ex (\<lambda>fd. im_fds im fd = Some (Pipe_Write n)) (map int [0..<limit])
     | _ \<Rightarrow> False)"

definition pipe_held :: "nat \<Rightarrow> proc \<Rightarrow> bool" where
  "pipe_held n p \<longleftrightarrow>
    list_ex (\<lambda>fd. map_option fst (fds p fd) = Some (Pipe_Write n)) (map int [0..<open_max p])
    \<or> list_ex (\<lambda>(pid, ending). image_holds n (open_max p) ending) (children p @ orphans p)"

definition pipe_answers :: "spawn_os \<Rightarrow> int \<Rightarrow> proc \<Rightarrow> byte_answers" where
  "pipe_answers os fd p =
    (case fds p fd of
       Some (Pipe_Read n, _) \<Rightarrow>
         os_pieces os (pipe_data p n) @ (if pipe_held n p then [] else [Inr []])
     | _ \<Rightarrow> [Inl EBADF])"

subsection \<open>\<open>fork_exec_with_fds\<close>\<close>

fun close_until :: "int list \<Rightarrow> proc \<Rightarrow> proc" where
  "close_until [] p = p"
| "close_until (fd # l) p =
    (if fd = - 1 then p else close_until l (snd (close_and_invalidate fd p)))"

text \<open>The part of the child; a pipe is the pair of its descriptors, \<open>- 1\<close> where it has none.\<close>

definition intermediate_body ::
    "spawn_os \<Rightarrow> spawn_opts \<Rightarrow> int \<Rightarrow> int \<Rightarrow> int \<Rightarrow> int \<Rightarrow> int \<Rightarrow> proc \<Rightarrow> child_end \<times> proc" where
  "intermediate_body os opts err_w pid_w stdin_fd stdout_fd stderr_fd p =
    (case next_fault p of
       (Some e, p) \<Rightarrow>
         write_err_and_exit err_w CHILD_FORK_FAILED e (write_fd pid_w (int_bytes (- 1)) p)
     | (None, p) \<Rightarrow>
         (let grandchild_pid = next_pid p;
              p = p\<lparr>next_pid := grandchild_pid + 1\<rparr>;
              g = snd (close_and_invalidate pid_w (start_child os grandchild_pid p))
          in case do_exec os opts err_w stdin_fd stdout_fd stderr_fd g of (ending, g) \<Rightarrow>
            (let p = p\<lparr>pipe_data := pipe_data g, orphans := (grandchild_pid, ending) # orphans p\<rparr>;
                 p = write_fd pid_w (int_bytes grandchild_pid) p;
                 p = snd (close_and_invalidate pid_w p)
             in (Exited 0, p))))"

definition child_body ::
    "spawn_os \<Rightarrow> spawn_opts \<Rightarrow> bool \<Rightarrow> int \<times> int \<Rightarrow> int \<times> int \<Rightarrow> int list option
      \<Rightarrow> int \<Rightarrow> int \<Rightarrow> int \<Rightarrow> proc \<Rightarrow> child_end \<times> proc" where
  "child_body os opts intermediate_child err_pipe pid_pipe child_close_fds
      stdin_fd stdout_fd stderr_fd p =
    (let p = signal_default SIG_CHLD p;
         p = signal_default SIG_INT p;
         p = signal_default SIG_TERM p;
         p = signal_default SIG_HUP p;
         p = signal_default SIG_PIPE p;
         p = snd (close_and_invalidate (fst err_pipe) p);
         p = snd (close_and_invalidate (fst pid_pipe) p);
         p = (case child_close_fds of None \<Rightarrow> p | Some l \<Rightarrow> close_until l p)
     in if intermediate_child
        then intermediate_body os opts (snd err_pipe) (snd pid_pipe) stdin_fd stdout_fd stderr_fd p
        else do_exec os opts (snd err_pipe) stdin_fd stdout_fd stderr_fd p)"

text \<open>
  \<open>fork\<close> in the parent: the child with its end is among the children, the pipes have what it and
  its own child wrote, and a grandchild has no parent in this program any more.
\<close>

definition fork_child ::
    "spawn_os \<Rightarrow> (proc \<Rightarrow> child_end \<times> proc) \<Rightarrow> proc \<Rightarrow> (errno + int) \<times> proc" where
  "fork_child os body p =
    (case next_fault p of
       (Some e, p) \<Rightarrow> (Inl e, p)
     | (None, p) \<Rightarrow>
         (let pid = next_pid p in
          case body (start_child os pid (p\<lparr>next_pid := pid + 1\<rparr>)) of (ending, c) \<Rightarrow>
            (Inr pid, p\<lparr>next_pid := next_pid c, pipe_data := pipe_data c,
                        children := (pid, ending) # children p,
                        orphans := orphans c @ orphans p\<rparr>)))"

text \<open>The error that a report of the child stands for.\<close>

definition report_error :: "spawn_os \<Rightarrow> int \<Rightarrow> int \<Rightarrow> gspawn_error" where
  "report_error os msg en =
    (if msg = CHILD_CHDIR_FAILED then G_SPAWN_ERROR_CHDIR
     else if msg = CHILD_EXEC_FAILED then os_exec_error os en
     else if msg = CHILD_DUP2_FAILED then G_SPAWN_ERROR_FAILED
     else if msg = CHILD_FORK_FAILED then G_SPAWN_ERROR_FORK
     else G_SPAWN_ERROR_FAILED)"

type_synonym spawn_result = "((gspawn_error + int) \<times> proc) option"

definition cleanup_and_fail ::
    "spawn_os \<Rightarrow> int \<Rightarrow> int list \<Rightarrow> gspawn_error \<Rightarrow> proc \<Rightarrow> spawn_result" where
  "cleanup_and_fail os pid pipe_fds error p =
    (let p = (if pid > 0 then snd (wait_child os pid p) else p)
     in Some (Inl error, close_all pipe_fds p))"

text \<open>The parent after the fork: \<open>pid\<close> is the child, the descriptors are the reading ends.\<close>

definition parent_body ::
    "spawn_os \<Rightarrow> bool \<Rightarrow> int \<times> int \<Rightarrow> int \<times> int \<Rightarrow> int \<Rightarrow> proc \<Rightarrow> spawn_result" where
  "parent_body os intermediate_child err_pipe pid_pipe pid p =
    (let (err_w, p) = close_and_invalidate (snd err_pipe) p;
         (pid_w, p) = close_and_invalidate (snd pid_pipe) p;
         p = (if intermediate_child then snd (wait_child os pid p) else p);
         fail = cleanup_and_fail os pid [fst err_pipe, err_w, fst pid_pipe, pid_w];
         succeed = (\<lambda>pid p.
           Some (Inr pid, close_all [fst err_pipe, fst pid_pipe] p))
     in case read_ints 2 (pipe_answers os (fst err_pipe) p) of
          None \<Rightarrow> None
        | Some (Inl error, _) \<Rightarrow> fail error p
        | Some (Inr (buf, n_ints), _) \<Rightarrow>
            if n_ints \<ge> 2 then fail (report_error os (bytes_int buf) (bytes_int (drop 4 buf))) p
            else if intermediate_child then
              (case read_ints 1 (pipe_answers os (fst pid_pipe) p) of
                 None \<Rightarrow> None
               | Some (Inl error, _) \<Rightarrow> fail error p
               | Some (Inr (buf, n_ints), _) \<Rightarrow>
                   if n_ints < 1 then fail G_SPAWN_ERROR_FAILED p
                   else succeed (bytes_int buf) p)
            else succeed pid p)"

definition fork_and_report ::
    "spawn_os \<Rightarrow> spawn_opts \<Rightarrow> bool \<Rightarrow> bool \<Rightarrow> int list option \<Rightarrow> int \<Rightarrow> int \<Rightarrow> int \<Rightarrow> proc
      \<Rightarrow> spawn_result" where
  "fork_and_report os opts intermediate_child cloexec_pipes child_close_fds
      stdin_fd stdout_fd stderr_fd p =
    (case os_open_pipe os cloexec_pipes p of
       (None, p) \<Rightarrow> Some (Inl G_UNIX_ERROR, p)
     | (Some err_pipe, p) \<Rightarrow>
         (case (if intermediate_child then os_open_pipe os cloexec_pipes p
                else (Some (- 1, - 1), p)) of
            (None, p) \<Rightarrow> cleanup_and_fail os (- 1) [fst err_pipe, snd err_pipe, - 1, - 1] G_UNIX_ERROR p
          | (Some pid_pipe, p) \<Rightarrow>
              (case fork_child os
                      (child_body os opts intermediate_child err_pipe pid_pipe child_close_fds
                        stdin_fd stdout_fd stderr_fd) p of
                 (Inl e, p) \<Rightarrow>
                   cleanup_and_fail os (- 1)
                     [fst err_pipe, snd err_pipe, fst pid_pipe, snd pid_pipe] G_SPAWN_ERROR_FORK p
               | (Inr pid, p) \<Rightarrow>
                   parent_body os intermediate_child err_pipe pid_pipe pid p)))"

definition fork_exec_with_fds ::
    "spawn_os \<Rightarrow> spawn_opts \<Rightarrow> bool \<Rightarrow> bool \<Rightarrow> int list option \<Rightarrow> int \<Rightarrow> int \<Rightarrow> int \<Rightarrow> proc
      \<Rightarrow> spawn_result" where
  "fork_exec_with_fds os opts intermediate_child cloexec_pipes child_close_fds
      stdin_fd stdout_fd stderr_fd p =
    (if \<not> intermediate_child \<and> so_working_directory opts = None \<and> \<not> so_close_descriptors opts \<and>
        \<not> so_search_path_from_envp opts \<and> so_child_setup opts = None
     then
       (case do_posix_spawn os opts child_close_fds stdin_fd stdout_fd stderr_fd p of
          None \<Rightarrow> None
        | Some (Inr pid, p) \<Rightarrow> Some (Inr pid, p)
        | Some (Inl status, p) \<Rightarrow>
            if status \<noteq> ENOEXEC then Some (Inl G_SPAWN_ERROR_FAILED, p)
            else fork_and_report os opts intermediate_child cloexec_pipes child_close_fds
                   stdin_fd stdout_fd stderr_fd p)
     else fork_and_report os opts intermediate_child cloexec_pipes child_close_fds
            stdin_fd stdout_fd stderr_fd p)"

subsection \<open>\<open>fork_exec_with_pipes\<close>\<close>

text \<open>
  \<open>want_stdin\<close>, \<open>want_stdout\<close> and \<open>want_stderr\<close> say which of the caller's pointers are not null;
  the result holds the pid and the caller's ends, \<open>- 1\<close> for a pipe that was not asked for. On every
  failure all six variables are closed.
\<close>

definition opt_pipe :: "spawn_os \<Rightarrow> bool \<Rightarrow> bool \<Rightarrow> proc \<Rightarrow> (int \<times> int) option \<times> proc" where
  "opt_pipe os wanted cloexec p =
    (if wanted then os_open_pipe os cloexec p else (Some (- 1, - 1), p))"

definition fork_exec_with_pipes ::
    "spawn_os \<Rightarrow> spawn_opts \<Rightarrow> bool \<Rightarrow> bool \<Rightarrow> bool \<Rightarrow> bool \<Rightarrow> bool \<Rightarrow> proc
      \<Rightarrow> ((gspawn_error + int \<times> int \<times> int \<times> int) \<times> proc) option" where
  "fork_exec_with_pipes os opts intermediate_child cloexec_pipes want_stdin want_stdout want_stderr p =
    (case opt_pipe os want_stdin cloexec_pipes p of
       (None, p) \<Rightarrow> Some (Inl G_UNIX_ERROR, p)
     | (Some (in_r, in_w), p) \<Rightarrow>
     case opt_pipe os want_stdout cloexec_pipes p of
       (None, p) \<Rightarrow> Some (Inl G_UNIX_ERROR, close_all [in_r, in_w] p)
     | (Some (out_r, out_w), p) \<Rightarrow>
     case opt_pipe os want_stderr True p of
       (None, p) \<Rightarrow> Some (Inl G_UNIX_ERROR, close_all [in_r, in_w, out_r, out_w] p)
     | (Some (err_r, err_w), p) \<Rightarrow>
     case fork_exec_with_fds os opts intermediate_child cloexec_pipes
            (Some [in_w, out_r, err_r, - 1]) in_r out_w err_w p of
       None \<Rightarrow> None
     | Some (Inl error, p) \<Rightarrow>
         Some (Inl error, close_all [in_r, in_w, out_r, out_w, err_r, err_w] p)
     | Some (Inr pid, p) \<Rightarrow>
         Some (Inr (pid, in_w, out_r, err_r), close_all [in_r, out_w, err_w] p))"

subsection \<open>The public functions\<close>

datatype gspawn_flag =
    G_SPAWN_LEAVE_DESCRIPTORS_OPEN | G_SPAWN_DO_NOT_REAP_CHILD | G_SPAWN_SEARCH_PATH
  | G_SPAWN_STDOUT_TO_DEV_NULL | G_SPAWN_STDERR_TO_DEV_NULL | G_SPAWN_CHILD_INHERITS_STDIN
  | G_SPAWN_FILE_AND_ARGV_ZERO | G_SPAWN_SEARCH_PATH_FROM_ENVP | G_SPAWN_CLOEXEC_PIPES

definition opts_of ::
    "string option \<Rightarrow> string list \<Rightarrow> environment \<Rightarrow> gspawn_flag set \<Rightarrow> (proc \<Rightarrow> proc) option
      \<Rightarrow> spawn_opts" where
  "opts_of working_directory args envp flags child_setup =
    \<lparr>so_working_directory = working_directory,
     so_argv = args,
     so_envp = envp,
     so_close_descriptors = (G_SPAWN_LEAVE_DESCRIPTORS_OPEN \<notin> flags),
     so_search_path = (G_SPAWN_SEARCH_PATH \<in> flags),
     so_search_path_from_envp = (G_SPAWN_SEARCH_PATH_FROM_ENVP \<in> flags),
     so_stdout_to_null = (G_SPAWN_STDOUT_TO_DEV_NULL \<in> flags),
     so_stderr_to_null = (G_SPAWN_STDERR_TO_DEV_NULL \<in> flags),
     so_child_inherits_stdin = (G_SPAWN_CHILD_INHERITS_STDIN \<in> flags),
     so_file_and_argv_zero = (G_SPAWN_FILE_AND_ARGV_ZERO \<in> flags),
     so_child_setup = child_setup\<rparr>"

definition g_spawn_async_with_pipes ::
    "spawn_os \<Rightarrow> string option \<Rightarrow> string list option \<Rightarrow> environment \<Rightarrow> gspawn_flag set
      \<Rightarrow> (proc \<Rightarrow> proc) option \<Rightarrow> bool \<Rightarrow> bool \<Rightarrow> bool \<Rightarrow> proc
      \<Rightarrow> ((gspawn_error + int \<times> int \<times> int \<times> int) \<times> proc) option" where
  "g_spawn_async_with_pipes os working_directory args envp flags child_setup
      want_stdin want_stdout want_stderr p =
    (case args of
       None \<Rightarrow> Some (Inl CRITICAL_WARNING, p)
     | Some args \<Rightarrow>
         if want_stdout \<and> G_SPAWN_STDOUT_TO_DEV_NULL \<in> flags then Some (Inl CRITICAL_WARNING, p)
         else if want_stderr \<and> G_SPAWN_STDERR_TO_DEV_NULL \<in> flags then Some (Inl CRITICAL_WARNING, p)
         else if want_stdin \<and> G_SPAWN_CHILD_INHERITS_STDIN \<in> flags then Some (Inl CRITICAL_WARNING, p)
         else fork_exec_with_pipes os (opts_of working_directory args envp flags child_setup)
                (G_SPAWN_DO_NOT_REAP_CHILD \<notin> flags) (G_SPAWN_CLOEXEC_PIPES \<in> flags)
                want_stdin want_stdout want_stderr p)"

definition g_spawn_async ::
    "spawn_os \<Rightarrow> string option \<Rightarrow> string list option \<Rightarrow> environment \<Rightarrow> gspawn_flag set
      \<Rightarrow> (proc \<Rightarrow> proc) option \<Rightarrow> proc
      \<Rightarrow> ((gspawn_error + int \<times> int \<times> int \<times> int) \<times> proc) option" where
  "g_spawn_async os working_directory args envp flags child_setup p =
    (if args = None then Some (Inl CRITICAL_WARNING, p)
     else g_spawn_async_with_pipes os working_directory args envp flags child_setup
            False False False p)"

definition g_spawn_async_with_fds ::
    "spawn_os \<Rightarrow> string option \<Rightarrow> string list option \<Rightarrow> environment \<Rightarrow> gspawn_flag set
      \<Rightarrow> (proc \<Rightarrow> proc) option \<Rightarrow> int \<Rightarrow> int \<Rightarrow> int \<Rightarrow> proc \<Rightarrow> spawn_result" where
  "g_spawn_async_with_fds os working_directory args envp flags child_setup
      stdin_fd stdout_fd stderr_fd p =
    (case args of
       None \<Rightarrow> Some (Inl CRITICAL_WARNING, p)
     | Some args \<Rightarrow>
         if \<not> (stdout_fd < 0 \<or> G_SPAWN_STDOUT_TO_DEV_NULL \<notin> flags) then Some (Inl CRITICAL_WARNING, p)
         else if \<not> (stderr_fd < 0 \<or> G_SPAWN_STDERR_TO_DEV_NULL \<notin> flags) then Some (Inl CRITICAL_WARNING, p)
         else if \<not> (stdin_fd < 0 \<or> G_SPAWN_CHILD_INHERITS_STDIN \<notin> flags) then Some (Inl CRITICAL_WARNING, p)
         else fork_exec_with_fds os (opts_of working_directory args envp flags child_setup)
                (G_SPAWN_DO_NOT_REAP_CHILD \<notin> flags) (G_SPAWN_CLOEXEC_PIPES \<in> flags) None
                stdin_fd stdout_fd stderr_fd p)"

subsection \<open>Reports through a pipe\<close>

lemma mod_split_256: "(i::int) mod (256 * m) = i mod 256 + 256 * (i div 256 mod m)" if "0 < m"
  using that by (simp add: zmod_zmult2_eq)

lemma int_bytes_words:
  "int_bytes i = [word_of_int i, word_of_int (i div 256), word_of_int (i div 65536),
    word_of_int (i div 16777216)]"
proof -
  have "[0..<4] = [0, 1, 2, 3 :: nat]" by (simp add: upt_rec)
  then show ?thesis unfolding int_bytes_def by (simp add: drop_bit_eq_div)
qed

lemma int_bytes_value:
  "foldr (\<lambda>b acc. uint b + 256 * acc) (int_bytes i) 0 = i mod 4294967296"
proof -
  have d: "i div 256 div 256 = i div 65536" "i div 65536 div 256 = i div 16777216"
    using zdiv_zmult2_eq [of 256 i 256] zdiv_zmult2_eq [of 256 i 65536] by simp_all
  have m1: "i mod 4294967296 = i mod 256 + 256 * (i div 256 mod 16777216)"
    using mod_split_256 [of 16777216 i] by simp
  have m2: "i div 256 mod 16777216 = i div 256 mod 256 + 256 * (i div 65536 mod 65536)"
    using mod_split_256 [of 65536 "i div 256"] unfolding d by simp
  have m3: "i div 65536 mod 65536 = i div 65536 mod 256 + 256 * (i div 16777216 mod 256)"
    using mod_split_256 [of 256 "i div 65536"] unfolding d by simp
  have "foldr (\<lambda>b acc. uint b + 256 * acc) (int_bytes i) 0 = i mod 256 + 256 * (i div 256 mod 256 + 256 *
      (i div 65536 mod 256 + 256 * (i div 16777216 mod 256)))"
    by (simp add: int_bytes_words uint_word_of_int)
  then show ?thesis unfolding m1 m2 m3 .
qed

lemma bytes_int_int_bytes:
  assumes "- (2 ^ 31) \<le> i" "i < 2 ^ 31" shows "bytes_int (int_bytes i @ bs) = i"
proof -
  have "take 4 (int_bytes i @ bs) = int_bytes i" by (simp add: int_bytes_words)
  then have "bytes_int (int_bytes i @ bs) = sint (word_of_int (i mod 4294967296) :: 32 word)"
    unfolding bytes_int_def by (simp only: int_bytes_value)
  also have "(word_of_int (i mod 4294967296) :: 32 word) = word_of_int i"
    by (simp add: word_of_int_eq_iff take_bit_eq_mod)
  also have "sint (word_of_int i :: 32 word) = i"
    using assms by (simp add: sint_sbintrunc' signed_take_bit_int_eq_self)
  finally show ?thesis .
qed

lemma int_bytes_length [simp]: "length (int_bytes i) = 4"
  by (simp add: int_bytes_words)

text \<open>
  What an answer list delivers when it is interrupted at most: its pieces are not empty, and its
  only errors are \<open>EINTR\<close>.
\<close>

fun pieces_of :: "byte_answers \<Rightarrow> 8 word list" where
  "pieces_of [] = []"
| "pieces_of (Inl e # as) = pieces_of as"
| "pieces_of (Inr bs # as) = bs @ pieces_of as"

definition delivers :: "byte_answers \<Rightarrow> 8 word list \<Rightarrow> bool" where
  "delivers as bs \<longleftrightarrow> pieces_of as = bs \<and> Inr [] \<notin> set as \<and> (\<forall>e. Inl e \<in> set as \<longrightarrow> e = EINTR)"

lemma read_bytes_delivers:
  assumes "delivers as bs" "length buf + length bs \<le> 4 * n" "n \<le> 2"
  shows "\<exists>rest. read_bytes n buf (as @ [Inr []]) = Some (Inr (buf @ bs), rest)"
  using assms
proof (induction as arbitrary: buf bs)
  case Nil
  then show ?case by (subst read_bytes.simps) (simp add: delivers_def)
next
  case (Cons a as)
  show ?case
  proof (cases "4 * 2 \<le> length buf")
    case True
    then have "length bs = 0" using Cons.prems(2,3) by linarith
    then have "bs = []" by simp
    then show ?thesis using True by (subst read_bytes.simps) simp
  next
    case more: False
    show ?thesis
    proof (cases a)
      case (Inl e)
      then have "e = EINTR" "delivers as bs" using Cons.prems(1) by (auto simp: delivers_def)
      then show ?thesis using Cons.IH [of bs buf] Cons.prems(2,3) Inl more
        by (subst read_bytes.simps) simp
    next
      case (Inr c)
      then have c: "c \<noteq> []" "bs = c @ pieces_of as" "delivers as (pieces_of as)"
        using Cons.prems(1) by (auto simp: delivers_def)
      then have "take (4 * n - length buf) c = c" using Cons.prems(2) by simp
      then have "read_bytes n buf ((a # as) @ [Inr []]) = read_bytes n (buf @ c) (as @ [Inr []])"
        using Inr more c(1) by (subst read_bytes.simps) simp
      also have "\<exists>rest. \<dots> = Some (Inr ((buf @ c) @ pieces_of as), rest)"
        using c Cons.prems by (intro Cons.IH) auto
      finally show ?thesis using c(2) by simp
    qed
  qed
qed

lemma read_ints_delivers:
  assumes "delivers as bs" "length bs \<le> 4 * n" "n \<le> 2"
  shows "\<exists>rest. read_ints n (as @ [Inr []]) = Some (Inr (bs, length bs div 4), rest)"
  using read_bytes_delivers [OF assms(1), of "[]" n] assms(2,3) by (auto simp: read_ints_def)

lemma err_report_decoded:
  assumes "- (2 ^ 31) \<le> msg" "msg < 2 ^ 31" "- (2 ^ 31) \<le> en" "en < 2 ^ 31"
  shows "bytes_int (err_report msg en) = msg" "bytes_int (drop 4 (err_report msg en)) = en"
  using bytes_int_int_bytes [OF assms(1,2), of "int_bytes en"] bytes_int_int_bytes [OF assms(3,4), of "[]"]
  by (simp_all add: err_report_def)

end
