(* ===== verification/Spawn_Sync.thy ===== *)
theory Spawn_Sync
  imports Spawn_Fork
begin

text \<open>
  \<open>g_spawn_sync\<close> of \<open>gspawn.c\<close>: it starts the child, reads its two output pipes as \<open>select\<close> reports
  them ready, and waits for it; and the two functions that take a command line.
\<close>

subsection \<open>The read loop\<close>

text \<open>
  An answer of \<open>select\<close>: an error, or which of the two descriptors are ready. The loop leaves the
  failure flag, the two descriptors, the two strings and the process.
\<close>

datatype select_answer = Select_Error errno | Ready bool bool

definition sync_read ::
    "bool \<Rightarrow> int \<Rightarrow> 8 word list \<Rightarrow> byte_answers \<Rightarrow> proc
      \<Rightarrow> (bool \<times> int \<times> 8 word list \<times> byte_answers \<times> proc) option" where
  "sync_read ready fd str rs p =
    (if fd \<ge> 0 \<and> ready then
       (case read_data str rs of
          None \<Rightarrow> None
        | Some (READ_FAILED, str, rs) \<Rightarrow> Some (True, fd, str, rs, p)
        | Some (READ_EOF, str, rs) \<Rightarrow>
            (case close_and_invalidate fd p of (fd, p) \<Rightarrow> Some (False, fd, str, rs, p))
        | Some (READ_OK, str, rs) \<Rightarrow> Some (False, fd, str, rs, p))
     else Some (False, fd, str, rs, p))"

fun sync_loop ::
    "select_answer list \<Rightarrow> int \<Rightarrow> int \<Rightarrow> 8 word list \<Rightarrow> 8 word list \<Rightarrow> byte_answers \<Rightarrow> byte_answers
      \<Rightarrow> proc \<Rightarrow> (bool \<times> int \<times> int \<times> 8 word list \<times> 8 word list \<times> proc) option" where
  "sync_loop sel outpipe errpipe outstr errstr out_reads err_reads p =
    (if \<not> (outpipe \<ge> 0 \<or> errpipe \<ge> 0) then Some (False, outpipe, errpipe, outstr, errstr, p)
     else case sel of
       [] \<Rightarrow> None
     | Select_Error e # sel \<Rightarrow>
         if e = EINTR then sync_loop sel outpipe errpipe outstr errstr out_reads err_reads p
         else Some (True, outpipe, errpipe, outstr, errstr, p)
     | Ready out_ready err_ready # sel \<Rightarrow>
         (case sync_read out_ready outpipe outstr out_reads p of
            None \<Rightarrow> None
          | Some (failed, outpipe, outstr, out_reads, p) \<Rightarrow>
              if failed then Some (True, outpipe, errpipe, outstr, errstr, p)
              else
                (case sync_read err_ready errpipe errstr err_reads p of
                   None \<Rightarrow> None
                 | Some (failed, errpipe, errstr, err_reads, p) \<Rightarrow>
                     if failed then Some (True, outpipe, errpipe, outstr, errstr, p)
                     else sync_loop sel outpipe errpipe outstr errstr out_reads err_reads p)))"

declare sync_loop.simps [simp del]

text \<open>
  What the calls of one \<open>g_spawn_sync\<close> answer after the start of the child. The status is \<open>None\<close>
  where \<open>waitpid\<close> did not set it: the caller then gets the indeterminate value of the local
  variable \<open>status\<close>.
\<close>

record sync_io =
  io_select :: "select_answer list"
  io_out :: byte_answers
  io_err :: byte_answers

record sync_result =
  sr_output :: "8 word list option"
  sr_error :: "8 word list option"
  sr_status :: "int option"

definition g_spawn_sync ::
    "spawn_os \<Rightarrow> sync_io \<Rightarrow> string option \<Rightarrow> string list option \<Rightarrow> environment \<Rightarrow> gspawn_flag set
      \<Rightarrow> (proc \<Rightarrow> proc) option \<Rightarrow> bool \<Rightarrow> bool \<Rightarrow> proc
      \<Rightarrow> ((gspawn_error + sync_result) \<times> proc) option" where
  "g_spawn_sync os io working_directory args envp flags child_setup want_output want_error p =
    (case args of
       None \<Rightarrow> Some (Inl CRITICAL_WARNING, p)
     | Some args \<Rightarrow>
       if G_SPAWN_DO_NOT_REAP_CHILD \<in> flags then Some (Inl CRITICAL_WARNING, p)
       else if want_output \<and> G_SPAWN_STDOUT_TO_DEV_NULL \<in> flags then Some (Inl CRITICAL_WARNING, p)
       else if want_error \<and> G_SPAWN_STDERR_TO_DEV_NULL \<in> flags then Some (Inl CRITICAL_WARNING, p)
       else
         (case fork_exec_with_pipes os (opts_of working_directory args envp flags child_setup) False
                 (G_SPAWN_CLOEXEC_PIPES \<in> flags) False want_output want_error p of
            None \<Rightarrow> None
          | Some (Inl error, p) \<Rightarrow> Some (Inl error, p)
          | Some (Inr (pid, _, outpipe, errpipe), p) \<Rightarrow>
              do { (failed, outpipe, errpipe, outstr, errstr, p) \<leftarrow>
                     sync_loop (io_select io) outpipe errpipe [] [] (io_out io) (io_err io) p;
                   let p = close_all [outpipe, errpipe] p;
                   Some (case wait_child os pid p of
                     (status, p) \<Rightarrow>
                       (let failed = (failed \<or> (case status of Inl e \<Rightarrow> e \<noteq> ECHILD | Inr _ \<Rightarrow> False)) in
                        if failed then (Inl G_SPAWN_ERROR_READ, p)
                        else (Inr \<lparr>sr_output = (if want_output then Some outstr else None),
                                   sr_error = (if want_error then Some errstr else None),
                                   sr_status = (case status of Inl _ \<Rightarrow> None | Inr s \<Rightarrow> Some s)\<rparr>, p))) }))"

subsection \<open>Command lines\<close>

text \<open>\<open>g_shell_parse_argv\<close> is not in this repository: \<open>parse\<close>.\<close>

definition g_spawn_command_line_sync ::
    "spawn_os \<Rightarrow> (string \<Rightarrow> string list option) \<Rightarrow> sync_io \<Rightarrow> string option \<Rightarrow> bool \<Rightarrow> bool \<Rightarrow> proc
      \<Rightarrow> ((gspawn_error + sync_result) \<times> proc) option" where
  "g_spawn_command_line_sync os parse io command_line want_output want_error p =
    (case command_line of
       None \<Rightarrow> Some (Inl CRITICAL_WARNING, p)
     | Some command_line \<Rightarrow>
         (case parse command_line of
            None \<Rightarrow> Some (Inl G_SHELL_ERROR, p)
          | Some args \<Rightarrow>
              g_spawn_sync os io None (Some args) None {G_SPAWN_SEARCH_PATH} None
                want_output want_error p))"

definition g_spawn_command_line_async ::
    "spawn_os \<Rightarrow> (string \<Rightarrow> string list option) \<Rightarrow> string option \<Rightarrow> proc
      \<Rightarrow> ((gspawn_error + int \<times> int \<times> int \<times> int) \<times> proc) option" where
  "g_spawn_command_line_async os parse command_line p =
    (case command_line of
       None \<Rightarrow> Some (Inl CRITICAL_WARNING, p)
     | Some command_line \<Rightarrow>
         (case parse command_line of
            None \<Rightarrow> Some (Inl G_SHELL_ERROR, p)
          | Some args \<Rightarrow>
              g_spawn_async os None (Some args) None {G_SPAWN_SEARCH_PATH} None p))"

subsection \<open>Lemmas\<close>

text \<open>The bytes a reader gets up to the end of the pipe.\<close>

fun delivered :: "byte_answers \<Rightarrow> 8 word list" where
  "delivered [] = []"
| "delivered (Inl e # rs) = delivered rs"
| "delivered (Inr bytes # rs) =
    (if take 4096 bytes = [] then [] else take 4096 bytes @ delivered rs)"

lemma read_data_delivered:
  assumes "read_data str rs = Some (r, str', rs')"
  shows "r = READ_OK \<Longrightarrow> str' @ delivered rs' = str @ delivered rs"
    "r = READ_EOF \<Longrightarrow> str' = str \<and> delivered rs = []"
  using assms by (induction str rs rule: read_data.induct) (auto simp: Let_def split: if_splits)

text \<open>A step leaves a pipe open with the rest of its bytes to come, or closed with all of them read.\<close>

definition gathered :: "int \<Rightarrow> 8 word list \<Rightarrow> byte_answers \<Rightarrow> 8 word list" where
  "gathered fd str rs = (if fd < 0 then str else str @ delivered rs)"

lemma sync_read_gathered:
  assumes "sync_read ready fd str rs p = Some (False, fd', str', rs', p')"
  shows "gathered fd' str' rs' = gathered fd str rs" "fd' = fd \<or> fd' = - 1"
    "fds p' = (\<lambda>n. if n = fd \<and> fd' \<noteq> fd then None else fds p n)" "fd' = - 1 \<or> p' = p"
proof -
  have "gathered fd' str' rs' = gathered fd str rs \<and> (fd' = fd \<or> fd' = - 1) \<and>
    fds p' = (\<lambda>n. if n = fd \<and> fd' \<noteq> fd then None else fds p n) \<and> (fd' = - 1 \<or> p' = p)"
  proof (cases "fd \<ge> 0 \<and> ready")
    case True
    then obtain r s1 r1 where rd: "read_data str rs = Some (r, s1, r1)"
      using assms by (auto simp: sync_read_def split: option.splits)
    show ?thesis
      using assms True rd read_data_delivered [OF rd]
      by (cases r) (auto simp: sync_read_def close_and_invalidate_def close_fd_def gathered_def)
  next
    case False
    then show ?thesis using assms by (auto simp: sync_read_def split: if_splits)
  qed
  then show "gathered fd' str' rs' = gathered fd str rs" "fd' = fd \<or> fd' = - 1"
    "fds p' = (\<lambda>n. if n = fd \<and> fd' \<noteq> fd then None else fds p n)" "fd' = - 1 \<or> p' = p" by auto
qed

lemma sync_loop_gathers:
  assumes "sync_loop sel outpipe errpipe outstr errstr ro re p = Some (False, o', e', outs, errs, p')"
  shows "outs = gathered outpipe outstr ro \<and> errs = gathered errpipe errstr re \<and> o' < 0 \<and> e' < 0"
  using assms
proof (induction sel arbitrary: outpipe errpipe outstr errstr ro re p)
  case Nil
  then show ?case by (auto simp: sync_loop.simps gathered_def split: if_splits)
next
  case (Cons a sel)
  show ?case
  proof (cases "outpipe \<ge> 0 \<or> errpipe \<ge> 0")
    case False
    then show ?thesis using Cons.prems by (subst (asm) sync_loop.simps) (auto simp: gathered_def)
  next
    case going: True
    show ?thesis
    proof (cases a)
      case (Select_Error e)
      then show ?thesis using Cons.prems going Cons.IH
        by (subst (asm) sync_loop.simps) (auto split: if_splits)
    next
      case (Ready ready1 ready2)
      obtain f1 o1 s1 r1 p1 where
        one: "sync_read ready1 outpipe outstr ro p = Some (f1, o1, s1, r1, p1)"
        using Cons.prems going Ready by (subst (asm) sync_loop.simps) (auto split: option.splits)
      have f1: "\<not> f1"
        using Cons.prems going by (subst (asm) sync_loop.simps) (auto simp: Ready one)
      obtain f2 o2 s2 r2 p2 where
        two: "sync_read ready2 errpipe errstr re p1 = Some (f2, o2, s2, r2, p2)"
        using Cons.prems going f1
        by (subst (asm) sync_loop.simps) (auto simp: Ready one split: option.splits)
      have f2: "\<not> f2"
        using Cons.prems going f1 by (subst (asm) sync_loop.simps) (auto simp: Ready one two)
      have "sync_loop sel o1 o2 s1 s2 r1 r2 p2 = Some (False, o', e', outs, errs, p')"
        using Cons.prems going f1 f2 by (subst (asm) sync_loop.simps) (simp add: Ready one two)
      then have "outs = gathered o1 s1 r1 \<and> errs = gathered o2 s2 r2 \<and> o' < 0 \<and> e' < 0"
        by (rule Cons.IH)
      moreover have "sync_read ready1 outpipe outstr ro p = Some (False, o1, s1, r1, p1)"
        "sync_read ready2 errpipe errstr re p1 = Some (False, o2, s2, r2, p2)"
        using one two f1 f2 by simp_all
      ultimately show ?thesis using sync_read_gathered(1) by metis
    qed
  qed
qed

end
