(* ===== verification/Spawn_Contract.thy ===== *)
theory Spawn_Contract
  imports Spawn_Sync
begin

text \<open>
  What the functions that start a process leave behind in the caller: whatever fails, the table of
  descriptors and the list of children are the ones before the call, apart from the ends of pipes and
  the child a successful call returns. \<open>opened S p q\<close> says that \<open>q\<close> has, besides the table of \<open>p\<close>, at most
  the descriptors of \<open>S\<close>, which \<open>p\<close> had closed.
\<close>

subsection \<open>Pipes\<close>

text \<open>
  What \<open>g_unix_open_pipe\<close> is documented to do: it fails, or gives two new descriptors, the ends of a new
  pipe.
\<close>

definition pipe_law :: "spawn_os \<Rightarrow> bool" where
  "pipe_law os \<longleftrightarrow> (\<forall>c p r q. os_open_pipe os c p = (r, q) \<longrightarrow>
    children q = children p \<and> orphans q = orphans p \<and> next_pid q = next_pid p \<and>
    open_max q = open_max p \<and> pipe_data q = pipe_data p \<and> disp q = disp p \<and>
    (case r of
       None \<Rightarrow> fds q = fds p
     | Some (a, b) \<Rightarrow> 0 \<le> a \<and> 0 \<le> b \<and> a \<noteq> b \<and> fds p a = None \<and> fds p b = None \<and>
         fds q = (fds p)(a \<mapsto> (Pipe_Read (next_pipe p), c), b \<mapsto> (Pipe_Write (next_pipe p), c))))"

definition opened :: "int set \<Rightarrow> proc \<Rightarrow> proc \<Rightarrow> bool" where
  "opened S p q \<longleftrightarrow> (\<forall>fd \<in> S. fds p fd = None) \<and> (\<forall>fd. fd \<notin> S \<longrightarrow> fds q fd = fds p fd)"

lemma opened_refl: "opened {} p p" "opened S p q \<Longrightarrow> fds r = fds q \<Longrightarrow> opened S p r"
  by (simp_all add: opened_def)

lemma opened_pipe:
  assumes "opened S p q" "pipe_law os" "os_open_pipe os c q = (Some (a, b), r)"
  shows "opened (insert a (insert b S)) p r" "0 \<le> a" "0 \<le> b" "a \<noteq> b" "fds q a = None" "fds q b = None"
proof -
  have l: "0 \<le> a" "0 \<le> b" "a \<noteq> b" "fds q a = None" "fds q b = None"
    "fds r = (fds q)(a \<mapsto> (Pipe_Read (next_pipe q), c), b \<mapsto> (Pipe_Write (next_pipe q), c))"
    using assms(2) [unfolded pipe_law_def, rule_format, OF assms(3)] by simp_all
  then show "0 \<le> a" "0 \<le> b" "a \<noteq> b" "fds q a = None" "fds q b = None" by blast+
  show "opened (insert a (insert b S)) p r"
    using assms(1) l(4-6) by (auto simp: opened_def)
qed

lemma pipe_frame:
  assumes "pipe_law os" "os_open_pipe os c q = (x, r)"
  shows "children r = children q" "orphans r = orphans q" "next_pid r = next_pid q" "x = None \<Longrightarrow> fds r = fds q"
  using assms(1) [unfolded pipe_law_def, rule_format, OF assms(2)] by simp_all

lemma opened_close:
  "opened S p q \<Longrightarrow> fd \<in> S \<or> fd < 0 \<Longrightarrow> opened S p (snd (close_and_invalidate fd q))"
  by (auto simp: opened_def close_and_invalidate_def close_fd_def)

lemma opened_close_all:
  assumes "opened S p q" "S \<subseteq> set l" "\<forall>fd \<in> set l. fd < 0 \<or> fds p fd = None" "\<forall>fd \<in> S. 0 \<le> fd"
  shows "fds (close_all l q) = fds p"
proof (rule ext)
  fix fd
  show "fds (close_all l q) fd = fds p fd"
    using assms by (cases "fd \<in> S") (auto simp: close_all_fds opened_def)
qed

lemma close_and_invalidate_frame [simp]:
  "children (snd (close_and_invalidate fd p)) = children p"
  "orphans (snd (close_and_invalidate fd p)) = orphans p"
  "next_pid (snd (close_and_invalidate fd p)) = next_pid p"
  "pipe_data (snd (close_and_invalidate fd p)) = pipe_data p"
  "fst (close_and_invalidate fd p) = (if fd < 0 then fd else - 1)"
  by (simp_all add: close_and_invalidate_def close_fd_def)

subsection \<open>Waiting and forking\<close>

lemma wait_child_effect:
  assumes "wait_child os pid p = (r, q)"
  shows "fds q = fds p \<and> children q = filter (\<lambda>(c, _). c \<noteq> pid) (children p) \<and>
    orphans q = orphans p \<and> pipe_data q = pipe_data p \<and> next_pid q = next_pid p"
  using assms
proof (induction os pid p rule: wait_child.induct)
  case (1 os pid p)
  obtain f p1 where nf: "next_fault p = (f, p1)" by fastforce
  from next_fault_faults [OF nf] obtain fs where p1: "p1 = p\<lparr>faults := fs\<rparr>" by blast
  show ?case
  proof (cases "f = Some EINTR")
    case True
    then have "wait_child os pid p1 = (r, q)"
      using 1(2) nf by (subst (asm) wait_child.simps) simp
    from 1(1) [OF nf [symmetric] True this] show ?thesis by (simp add: p1)
  next
    case False
    have no: "filter (\<lambda>(c, _). c \<noteq> pid) (children p) = children p" if "map_of (children p) pid = None"
      using that by (force simp: map_of_eq_None_iff intro!: filter_True)
    show ?thesis
      using 1(2) nf False no by (subst (asm) wait_child.simps) (auto simp: p1 split: option.splits)
  qed
qed

definition fresh_pid :: "proc \<Rightarrow> bool" where
  "fresh_pid p \<longleftrightarrow> 0 < next_pid p \<and> (\<forall>(c, _) \<in> set (children p). c \<noteq> next_pid p)"

lemma fresh_pid_filter:
  "fresh_pid p \<Longrightarrow> filter (\<lambda>(c, _). c \<noteq> next_pid p) (children p) = children p"
  by (auto simp: fresh_pid_def intro!: filter_True)

lemma fork_child_effect:
  assumes "fork_child os body p = (r, q)"
  shows "fds q = fds p \<and> (case r of
      Inl _ \<Rightarrow> children q = children p \<and> next_pid q = next_pid p
    | Inr pid \<Rightarrow> pid = next_pid p \<and> (\<exists>ending. children q = (pid, ending) # children p))"
proof -
  obtain f p1 where nf: "next_fault p = (f, p1)" by fastforce
  from next_fault_faults [OF nf] obtain fs where p1: "p1 = p\<lparr>faults := fs\<rparr>" by blast
  show ?thesis using assms nf
    by (auto simp: fork_child_def p1 Let_def split: option.splits prod.splits)
qed

subsection \<open>The parent\<close>

text \<open>
  What a call that starts a process leaves behind: the table as it was, and, if it reports success, the
  child unless the grandchild is the one that goes on.
\<close>

definition leaves_nothing :: "bool \<Rightarrow> proc \<Rightarrow> (gspawn_error + int) \<times> proc \<Rightarrow> bool" where
  "leaves_nothing grandchild p r \<longleftrightarrow>
    fds (snd r) = fds p \<and>
    (case fst r of
       Inl _ \<Rightarrow> children (snd r) = children p
     | Inr pid \<Rightarrow>
         if grandchild then children (snd r) = children p
         else pid = next_pid p \<and> (\<exists>ending. children (snd r) = (pid, ending) # children p))"

lemma cleanup_leaves_nothing:
  assumes "opened S p q" "S \<subseteq> set l" "\<forall>fd \<in> set l. fd < 0 \<or> fds p fd = None" "\<forall>fd \<in> S. 0 \<le> fd"
    and "children q = children p \<or> pid = next_pid p \<and> fresh_pid p \<and> (\<exists>ending. children q = (pid, ending) # children p)"
    and "fresh_pid p" "pid \<le> 0 \<or> pid = next_pid p"
  shows "\<exists>r. cleanup_and_fail os pid l e q = Some r \<and> leaves_nothing g p r"
proof (cases "0 < pid")
  case True
  obtain x u where u: "wait_child os pid q = (x, u)" by fastforce
  note w = wait_child_effect [OF u]
  have "opened S p u" using opened_refl(2) [OF assms(1)] w by blast
  then have "fds (close_all l u) = fds p" by (rule opened_close_all) (use assms in auto)
  moreover have "children u = children p"
    using w assms(5,7) True fresh_pid_filter [OF assms(6)] by auto
  ultimately show ?thesis using True by (simp add: cleanup_and_fail_def u leaves_nothing_def)
next
  case False
  have "fds (close_all l q) = fds p" by (rule opened_close_all [OF assms(1)]) (use assms in auto)
  moreover have "children q = children p" using assms(5) False by (auto simp: fresh_pid_def)
  ultimately show ?thesis using False by (simp add: cleanup_and_fail_def leaves_nothing_def)
qed

lemma opened_closed:
  assumes "opened S p q" "fd < 0 \<longleftrightarrow> fd \<notin> S"
  shows "opened (S - {fd}) p (snd (close_and_invalidate fd q))"
  using assms by (auto simp: opened_def close_and_invalidate_def close_fd_def)

lemma close_all_Cons: "close_all [a, b] q = close_all [a, - 1, b, - 1] q"
  by (simp add: close_and_invalidate_def)

text \<open>The table and the children when the parent of the fork has closed its writing ends.\<close>

lemma parent_body_leaves_nothing:
  assumes q: "opened ({err_r, err_w} \<union> ({pid_r, pid_w} \<inter> {0..})) p q"
    and ends: "0 \<le> err_r" "0 \<le> err_w" "err_r \<noteq> err_w" "pid_r < 0 \<or> pid_r \<notin> {err_r, err_w, pid_w}"
      "pid_w < 0 \<or> pid_w \<notin> {err_r, err_w}" "pid_r < 0 \<longleftrightarrow> pid_w < 0"
    and ch: "children q = (pid, ending) # children p" "pid = next_pid p" "fresh_pid p"
    and r: "parent_body os g (err_r, err_w) (pid_r, pid_w) pid q = Some r"
  shows "leaves_nothing g p r"
proof -
  define q2 where "q2 = snd (close_and_invalidate pid_w (snd (close_and_invalidate err_w q)))"
  define q3 where "q3 = (if g then snd (wait_child os pid q2) else q2)"
  let ?S = "{err_r} \<union> ({pid_r} \<inter> {0..})"
  have "opened ({err_r, err_w} \<union> ({pid_r, pid_w} \<inter> {0..}) - {err_w} - {pid_w}) p q2"
    unfolding q2_def by (intro opened_closed q) (use ends in auto)
  moreover have "{err_r, err_w} \<union> ({pid_r, pid_w} \<inter> {0..}) - {err_w} - {pid_w} = ?S"
    using ends by auto
  ultimately have o2: "opened ?S p q2" by simp
  have c2: "children q2 = (pid, ending) # children p" by (simp add: q2_def ch(1))
  have o3: "opened ?S p q3" and c3: "children q3 = (if g then children p else (pid, ending) # children p)"
  proof -
    obtain x u where u: "wait_child os pid q2 = (x, u)" by fastforce
    note w = wait_child_effect [OF u]
    show "opened ?S p q3" unfolding q3_def using o2 opened_refl(2) [OF o2] w by (simp add: u)
    show "children q3 = (if g then children p else (pid, ending) # children p)"
      unfolding q3_def using w fresh_pid_filter [OF ch(3)] unfolding ch(2) [symmetric] by (simp add: u c2)
  qed
  have none: "fds p err_r = None" "pid_r < 0 \<or> fds p pid_r = None" using o3 by (auto simp: opened_def)
  have fail: "leaves_nothing g p y"
    if "cleanup_and_fail os pid [err_r, w, pid_r, w'] e q3 = Some y" "w < 0" "w' < 0" for e y w w'
  proof -
    have "\<exists>r. cleanup_and_fail os pid [err_r, w, pid_r, w'] e q3 = Some r \<and> leaves_nothing g p r"
      by (rule cleanup_leaves_nothing [OF o3])
        (use ends(1) none that(2,3) ch(2,3) c3 in \<open>(simp_all split: if_splits)?, auto\<close>)
    then show ?thesis using that(1) by auto
  qed
  have succeed: "leaves_nothing g p (Inr x, close_all [err_r, pid_r] q3)" if "g \<or> x = pid" for x
  proof -
    have "fds (close_all [err_r, pid_r] q3) = fds p"
      by (rule opened_close_all [OF o3]) (use ends(1) none in auto)
    moreover have "children (close_all [err_r, pid_r] q3) = children q3" by (rule close_all_frame)
    ultimately show ?thesis using c3 ch that unfolding leaves_nothing_def by auto
  qed
  obtain w q1 where w: "close_and_invalidate err_w q = (w, q1)" by fastforce
  obtain w' q2' where w': "close_and_invalidate pid_w q1 = (w', q2')" by fastforce
  have "q2' = q2" "w < 0" "w' < 0"
    using w w' close_and_invalidate_frame(5) [of err_w q] close_and_invalidate_frame(5) [of pid_w q1]
    by (auto simp: q2_def simp del: close_and_invalidate_frame(5) split: if_splits)
  then have c: "close_and_invalidate err_w q = (w, q1)" "close_and_invalidate pid_w q1 = (w', q2)"
    "w < 0" "w' < 0" using w w' by simp_all
  note r' = r [unfolded parent_body_def Let_def fst_conv snd_conv c(1) prod.case c(2), folded q3_def]
  show ?thesis
    using r' fail [OF _ c(3,4)] succeed
    by (auto split: option.split_asm sum.split_asm prod.split_asm if_split_asm)
qed

text \<open>\<open>fork_and_report\<close> is the part of \<open>fork_exec_with_fds\<close> behind \<open>posix_spawn\<close>.\<close>

text \<open>The second pipe, where there is one, has ends of its own.\<close>

lemma second_pipe_opened:
  assumes law: "pipe_law os" and x: "os_open_pipe os cl p = (Some (err_r, err_w), p1)"
    and y: "(if g then os_open_pipe os cl p1 else (Some (- 1, - 1), p1)) = (Some (pid_r, pid_w), p2)"
  shows "opened ({err_r, err_w} \<union> ({pid_r, pid_w} \<inter> {0..})) p p2"
    "pid_r < 0 \<or> pid_r \<notin> {err_r, err_w, pid_w}" "pid_w < 0 \<or> pid_w \<notin> {err_r, err_w}"
    "pid_r < 0 \<longleftrightarrow> pid_w < 0"
proof -
  let ?S = "{err_r, err_w} \<union> ({pid_r, pid_w} \<inter> {0..})"
  note o1 = opened_pipe [OF opened_refl(1) law x]
  have "opened ?S p p2 \<and> (pid_r < 0 \<or> pid_r \<notin> {err_r, err_w, pid_w}) \<and>
    (pid_w < 0 \<or> pid_w \<notin> {err_r, err_w}) \<and> (pid_r < 0 \<longleftrightarrow> pid_w < 0)"
  proof (cases g)
    case True
    then have y': "os_open_pipe os cl p1 = (Some (pid_r, pid_w), p2)" using y by simp
    note o2 = opened_pipe [OF o1(1) law y']
    have "fds p1 err_r \<noteq> None \<and> fds p1 err_w \<noteq> None"
      using law [unfolded pipe_law_def, rule_format, OF x] by simp
    moreover have "insert pid_r (insert pid_w {err_r, err_w}) = ?S" using o2(2,3) by auto
    ultimately show ?thesis using o2 by auto
  next
    case False
    then show ?thesis using y o1(1) by auto
  qed
  then show "opened ?S p p2" "pid_r < 0 \<or> pid_r \<notin> {err_r, err_w, pid_w}"
    "pid_w < 0 \<or> pid_w \<notin> {err_r, err_w}" "pid_r < 0 \<longleftrightarrow> pid_w < 0" by blast+
qed

lemma fork_and_report_leaves_nothing:
  assumes law: "pipe_law os" and fresh: "fresh_pid p"
    and r: "fork_and_report os opts g cl ccf i o' e p = Some r"
  shows "leaves_nothing g p r"
proof -
  obtain x p1 where x: "os_open_pipe os cl p = (x, p1)" by fastforce
  note f1 = pipe_frame [OF law x]
  show ?thesis
  proof (cases x)
    case None
    then show ?thesis using r f1 by (auto simp: fork_and_report_def x leaves_nothing_def)
  next
    case (Some ep)
    obtain err_r err_w where ep: "ep = (err_r, err_w)" by (cases ep)
    note o1 = opened_pipe [OF opened_refl(1) law x [unfolded Some ep]]
    obtain y p2 where y: "(if g then os_open_pipe os cl p1 else (Some (- 1, - 1), p1)) = (y, p2)" by fastforce
    have f2: "children p2 = children p" "next_pid p2 = next_pid p"
      using y f1 pipe_frame [OF law, of cl p1] by (auto split: if_splits)
    show ?thesis
    proof (cases y)
      case None
      then have "os_open_pipe os cl p1 = (None, p2)" using y by (auto split: if_splits)
      then have "opened {err_r, err_w} p p2" using pipe_frame(4) [OF law] opened_refl(2) [OF o1(1)] by blast
      then have "\<exists>r. cleanup_and_fail os (- 1) [err_r, err_w, - 1, - 1] G_UNIX_ERROR p2 = Some r \<and>
          leaves_nothing g p r"
        by (rule cleanup_leaves_nothing) (use o1 f2 fresh in \<open>auto simp: opened_def\<close>)
      then show ?thesis using r x Some ep y None by (auto simp: fork_and_report_def)
    next
      case (Some pp)
      obtain pid_r pid_w where pp: "pp = (pid_r, pid_w)" by (cases pp)
      let ?S = "{err_r, err_w} \<union> ({pid_r, pid_w} \<inter> {0..})"
      note o2 = second_pipe_opened(1) [OF law x [unfolded \<open>x = Some ep\<close> ep] y [unfolded Some pp]]
        and ends = second_pipe_opened(2-4) [OF law x [unfolded \<open>x = Some ep\<close> ep] y [unfolded Some pp]]
      obtain z p3 where z: "fork_child os (child_body os opts g (err_r, err_w) (pid_r, pid_w) ccf i o' e) p2 = (z, p3)"
        by fastforce
      note f3 = fork_child_effect [OF z]
      have o3: "opened ?S p p3" using opened_refl(2) [OF o2] f3 by blast
      show ?thesis
      proof (cases z)
        case (Inl u)
        have "\<exists>r. cleanup_and_fail os (- 1) [err_r, err_w, pid_r, pid_w] G_SPAWN_ERROR_FORK p3 = Some r \<and>
            leaves_nothing g p r"
        proof (rule cleanup_leaves_nothing [OF o3])
          have "\<forall>fd \<in> ?S. fds p fd = None" using o2 by (simp add: opened_def)
          then show "\<forall>fd \<in> set [err_r, err_w, pid_r, pid_w]. fd < 0 \<or> fds p fd = None"
            by (simp add: Ball_def) (metis linorder_not_less)
        qed (use o1(2,3) f2 f3 fresh Inl in auto)
        then show ?thesis using r x \<open>x = Some ep\<close> ep y Some pp z Inl by (auto simp: fork_and_report_def)
      next
        case (Inr pid)
        have "parent_body os g (err_r, err_w) (pid_r, pid_w) pid p3 = Some r"
          using r x \<open>x = Some ep\<close> ep y Some pp z Inr by (simp add: fork_and_report_def)
        moreover obtain ending where "children p3 = (pid, ending) # children p" "pid = next_pid p"
          using f2 f3 Inr by auto
        ultimately show ?thesis using parent_body_leaves_nothing [OF o3 o1(2-4) ends _ _ fresh] by blast
      qed
    qed
  qed
qed

lemma fork_exec_with_fds_leaves_nothing:
  assumes law: "pipe_law os" and fresh: "fresh_pid p"
    and r: "fork_exec_with_fds os opts g cl ccf i o' e p = Some r"
  shows "leaves_nothing g p r"
proof (cases "\<not> g \<and> so_working_directory opts = None \<and> \<not> so_close_descriptors opts \<and>
    \<not> so_search_path_from_envp opts \<and> so_child_setup opts = None")
  case False
  then show ?thesis using r fork_and_report_leaves_nothing [OF law fresh]
    unfolding fork_exec_with_fds_def if_not_P [OF False] by blast
next
  case True
  then obtain y q where y: "do_posix_spawn os opts ccf i o' e p = Some (y, q)"
    using r by (cases "do_posix_spawn os opts ccf i o' e p") (auto simp: fork_exec_with_fds_def)
  note s = do_posix_spawn_parent [OF y]
  show ?thesis
  proof (cases y)
    case (Inr pid)
    then show ?thesis using r y s True by (auto simp: fork_exec_with_fds_def leaves_nothing_def)
  next
    case (Inl x)
    have q: "fds q = fds p" "children q = children p" "next_pid q = next_pid p" using s Inl by auto
    show ?thesis
    proof (cases "x = ENOEXEC")
      case False
      then show ?thesis using r y Inl q True by (auto simp: fork_exec_with_fds_def leaves_nothing_def)
    next
      case ne: True
      have "leaves_nothing g q r"
        using r y Inl True ne q fresh by (intro fork_and_report_leaves_nothing [OF law])
          (simp_all add: fork_exec_with_fds_def fresh_pid_def)
      then show ?thesis using q by (cases "fst r") (auto simp: leaves_nothing_def)
    qed
  qed
qed

subsection \<open>The caller's pipes\<close>

definition ends_open :: "int set \<Rightarrow> proc \<Rightarrow> proc \<Rightarrow> bool" where
  "ends_open S p q \<longleftrightarrow> opened S p q \<and> (\<forall>fd \<in> S. 0 \<le> fd \<and> fds q fd \<noteq> None) \<and>
    children q = children p \<and> next_pid q = next_pid p"

lemma opt_pipe_fails:
  assumes "ends_open S p q" "pipe_law os" "opt_pipe os want c q = (None, r)"
  shows "ends_open S p r"
proof -
  have "os_open_pipe os c q = (None, r)" using assms(3) by (auto simp: opt_pipe_def split: if_splits)
  then show ?thesis using assms(1) pipe_frame [OF assms(2)] by (simp add: ends_open_def opened_def)
qed

lemma opt_pipe_opens:
  assumes "ends_open S p q" "pipe_law os" "opt_pipe os want c q = (Some (a, b), r)"
  shows "ends_open (S \<union> ({a, b} \<inter> {0..})) p r" "a \<notin> S" "b \<notin> S"
    "if want then 0 \<le> a \<and> 0 \<le> b \<and> a \<noteq> b else a = - 1 \<and> b = - 1"
proof -
  have "ends_open (S \<union> ({a, b} \<inter> {0..})) p r \<and> a \<notin> S \<and> b \<notin> S \<and>
    (if want then 0 \<le> a \<and> 0 \<le> b \<and> a \<noteq> b else a = - 1 \<and> b = - 1)"
  proof (cases want)
    case True
    then have call: "os_open_pipe os c q = (Some (a, b), r)" using assms(3) by (simp add: opt_pipe_def)
    have S: "opened S p q" "\<And>fd. fd \<in> S \<Longrightarrow> 0 \<le> fd \<and> fds q fd \<noteq> None"
      "children q = children p" "next_pid q = next_pid p" using assms(1) by (simp_all add: ends_open_def)
    note o = opened_pipe [OF S(1) assms(2) call] and f = pipe_frame [OF assms(2) call]
    have "fds r = (fds q)(a \<mapsto> (Pipe_Read (next_pipe q), c), b \<mapsto> (Pipe_Write (next_pipe q), c))"
      using assms(2) [unfolded pipe_law_def, rule_format, OF call] by simp
    moreover have "S \<union> ({a, b} \<inter> {0..}) = insert a (insert b S)" using o(2,3) by auto
    moreover have "a \<notin> S" "b \<notin> S" using S(2) [of a] S(2) [of b] o(5,6) by auto
    ultimately show ?thesis using o(1-4) f S True unfolding ends_open_def by simp
  next
    case False
    then show ?thesis using assms(1,3) by (auto simp: opt_pipe_def ends_open_def)
  qed
  then show "ends_open (S \<union> ({a, b} \<inter> {0..})) p r" "a \<notin> S" "b \<notin> S"
    "if want then 0 \<le> a \<and> 0 \<le> b \<and> a \<noteq> b else a = - 1 \<and> b = - 1" by blast+
qed

lemma opened_close_some:
  assumes "opened S p q" "T \<subseteq> S" "S - T \<subseteq> set l" "\<And>fd. fd \<in> set l \<Longrightarrow> 0 \<le> fd \<Longrightarrow> fd \<in> S"
    "\<And>fd. fd \<in> S \<Longrightarrow> 0 \<le> fd"
  shows "opened T p (close_all l q)"
proof -
  have "fd \<notin> S" if "\<not> 0 \<le> fd" for fd using assms(5) that by blast
  then show ?thesis using assms(1-4) by (auto simp: opened_def close_all_fds)
qed

lemma ends_open_close_all:
  assumes "ends_open S p q" "S = set l \<inter> {0..}"
  shows "fds (close_all l q) = fds p" "children (close_all l q) = children p"
proof -
  have "fd < 0 \<or> fds p fd = None" if "fd \<in> set l" for fd
    using assms that by (cases "fd < 0") (auto simp: ends_open_def opened_def)
  then show "fds (close_all l q) = fds p"
    by (intro opened_close_all [of S]) (use assms in \<open>auto simp: ends_open_def\<close>)
qed (use assms in \<open>simp add: ends_open_def\<close>)

lemma close_all_same_fds: "fds q = fds r \<Longrightarrow> fds (close_all l q) = fds (close_all l r)"
  by (simp only: close_all_fds)

text \<open>The caller's ends are open and no other descriptor has changed; after an error, none.\<close>

definition pipes_result ::
    "bool \<Rightarrow> bool \<Rightarrow> bool \<Rightarrow> bool \<Rightarrow> proc \<Rightarrow> (gspawn_error + int \<times> int \<times> int \<times> int) \<times> proc \<Rightarrow> bool" where
  "pipes_result g want_in want_out want_err p r \<longleftrightarrow>
    (case fst r of
       Inl _ \<Rightarrow> fds (snd r) = fds p \<and> children (snd r) = children p
     | Inr (pid, a, b, c) \<Rightarrow>
         opened ({a, b, c} \<inter> {0..}) p (snd r) \<and> (\<forall>fd \<in> {a, b, c} \<inter> {0..}. fds (snd r) fd \<noteq> None) \<and>
         (if want_in then 0 \<le> a else a = - 1) \<and> (if want_out then 0 \<le> b else b = - 1) \<and>
         (if want_err then 0 \<le> c else c = - 1) \<and>
         (if g then children (snd r) = children p
          else pid = next_pid p \<and> (\<exists>ending. children (snd r) = (pid, ending) # children p)))"

text \<open>A failure closes all ends there are; a success keeps three of them.\<close>

lemma pipes_dropped:
  assumes "ends_open S p q" "S = set l \<inter> {0..}" "fds q' = fds q" "children q' = children q"
  shows "pipes_result g wi wo we p (Inl e, close_all l q')"
  using ends_open_close_all [OF assms(1,2)] close_all_same_fds [OF assms(3)] close_all_frame(1) [of l] assms(4)
  by (simp add: pipes_result_def del: close_all.simps)

lemma pipes_handed_over:
  assumes o: "ends_open ({in_r, in_w, out_r, out_w, err_r, err_w} \<inter> {0..}) p q" and f: "fds q' = fds q"
    and apart: "\<forall>fd \<in> {in_w, out_r, err_r} \<inter> {0..}. fd \<notin> {in_r, out_w, err_w}"
    and sgn: "(if wi then 0 \<le> in_w else in_w = - 1) \<and> (if wo then 0 \<le> out_r else out_r = - 1) \<and>
      (if we then 0 \<le> err_r else err_r = - 1)"
    and kids: "if g then children q' = children p
      else pid = next_pid p \<and> (\<exists>ending. children q' = (pid, ending) # children p)"
  shows "pipes_result g wi wo we p (Inr (pid, in_w, out_r, err_r), close_all [in_r, out_w, err_w] q')"
proof -
  let ?S = "{in_r, in_w, out_r, out_w, err_r, err_w} \<inter> {0..}"
  let ?T = "{in_w, out_r, err_r} \<inter> {0..}" and ?l = "[in_r, out_w, err_w]"
  have "opened ?S p q" using o unfolding ends_open_def by blast
  from opened_refl(2) [OF this f] have "opened ?T p (close_all ?l q')" by (rule opened_close_some) auto
  moreover have "\<forall>fd \<in> ?T. fds (close_all ?l q') fd \<noteq> None"
  proof
    fix fd assume fd: "fd \<in> ?T"
    then have "fds q' fd \<noteq> None" using o unfolding ends_open_def f by blast
    moreover have "fd \<notin> set ?l" using apart fd by simp
    ultimately show "fds (close_all ?l q') fd \<noteq> None" unfolding close_all_fds by auto
  qed
  ultimately show ?thesis using sgn kids unfolding pipes_result_def close_all_frame by (cases g) auto
qed

text \<open>The step behind the three pipes.\<close>

lemma pipes_forked:
  assumes law: "pipe_law os" and fresh: "fresh_pid p"
    and o: "ends_open ({in_r, in_w, out_r, out_w, err_r, err_w} \<inter> {0..}) p q"
    and apart: "\<forall>fd \<in> {in_w, out_r, err_r} \<inter> {0..}. fd \<notin> {in_r, out_w, err_w}"
    and sgn: "(if wi then 0 \<le> in_w else in_w = - 1) \<and> (if wo then 0 \<le> out_r else out_r = - 1) \<and>
      (if we then 0 \<le> err_r else err_r = - 1)"
    and z: "fork_exec_with_fds os opts g cl (Some [in_w, out_r, err_r, - 1]) in_r out_w err_w q = Some (z, q')"
    and r: "r = (case z of
        Inl err \<Rightarrow> (Inl err, close_all [in_r, in_w, out_r, out_w, err_r, err_w] q')
      | Inr pid \<Rightarrow> (Inr (pid, in_w, out_r, err_r), close_all [in_r, out_w, err_w] q'))"
  shows "pipes_result g wi wo we p r"
proof -
  have q: "children q = children p" "next_pid q = next_pid p" "fresh_pid q"
    using o fresh by (simp_all add: ends_open_def fresh_pid_def)
  note ln = fork_exec_with_fds_leaves_nothing [OF law q(3) z, unfolded leaves_nothing_def fst_conv snd_conv]
  show ?thesis
  proof (cases z)
    case (Inl err)
    have "{in_r, in_w, out_r, out_w, err_r, err_w} \<inter> {0..} = set [in_r, in_w, out_r, out_w, err_r, err_w] \<inter> {0..}"
      by simp
    from pipes_dropped [OF o this, of q'] show ?thesis using ln Inl r by simp
  next
    case (Inr pid)
    have f: "fds q' = fds q" using ln by simp
    have "if g then children q' = children p
      else pid = next_pid p \<and> (\<exists>ending. children q' = (pid, ending) # children p)"
      using ln Inr q(1,2) by (cases g) auto
    from pipes_handed_over [OF o f apart sgn this] show ?thesis unfolding r Inr sum.case .
  qed
qed

lemma fork_exec_with_pipes_result:
  assumes law: "pipe_law os" and fresh: "fresh_pid p"
    and r: "fork_exec_with_pipes os opts g cl wi wo we p = Some r"
  shows "pipes_result g wi wo we p r"
proof -
  have e0: "ends_open {} p p" by (simp add: ends_open_def opened_refl)
  obtain x1 p1 where c1: "opt_pipe os wi cl p = (x1, p1)" by fastforce
  show ?thesis
  proof (cases x1)
    case None
    have "ends_open {} p p1" by (rule opt_pipe_fails [OF e0 law c1 [unfolded None]])
    then show ?thesis using r c1 None
      by (auto simp: fork_exec_with_pipes_def pipes_result_def ends_open_def opened_def fun_eq_iff)
  next
    case (Some y1)
    obtain in_r in_w where y1: "y1 = (in_r, in_w)" by (cases y1)
    note c1' = c1 [unfolded Some y1]
    note o1 = opt_pipe_opens [OF e0 law c1']
    obtain x2 p2 where c2: "opt_pipe os wo cl p1 = (x2, p2)" by fastforce
    show ?thesis
    proof (cases x2)
      case None
      have "r = (Inl G_UNIX_ERROR, close_all [in_r, in_w] p2)"
        using r c1' c2 None by (simp add: fork_exec_with_pipes_def)
      then show ?thesis
        using pipes_dropped [OF opt_pipe_fails [OF o1(1) law c2 [unfolded None]], of "[in_r, in_w]" p2] by simp
    next
      case (Some y2)
      obtain out_r out_w where y2: "y2 = (out_r, out_w)" by (cases y2)
      note c2' = c2 [unfolded Some y2]
      note o2 = opt_pipe_opens [OF o1(1) law c2']
      obtain x3 p3 where c3: "opt_pipe os we True p2 = (x3, p3)" by fastforce
      show ?thesis
      proof (cases x3)
        case None
        have r': "r = (Inl G_UNIX_ERROR, close_all [in_r, in_w, out_r, out_w] p3)"
          using r c1' c2' c3 None by (simp add: fork_exec_with_pipes_def)
        have "{} \<union> {in_r, in_w} \<inter> {0..} \<union> {out_r, out_w} \<inter> {0..} = set [in_r, in_w, out_r, out_w] \<inter> {0..}"
          by auto
        from pipes_dropped [OF opt_pipe_fails [OF o2(1) law c3 [unfolded None]] this refl refl] show ?thesis
          unfolding r' .
      next
        case (Some y3)
        obtain err_r err_w where y3: "y3 = (err_r, err_w)" by (cases y3)
        note c3' = c3 [unfolded Some y3]
        note o3 = opt_pipe_opens [OF o2(1) law c3']
        obtain z p4 where z: "fork_exec_with_fds os opts g cl (Some [in_w, out_r, err_r, - 1]) in_r out_w err_w p3
            = Some (z, p4)"
          using r c1' c2' c3' by (cases "fork_exec_with_fds os opts g cl (Some [in_w, out_r, err_r, - 1]) in_r out_w err_w p3")
            (auto simp: fork_exec_with_pipes_def)
        show ?thesis
        proof (rule pipes_forked [OF law fresh _ _ _ z])
          have "{} \<union> {in_r, in_w} \<inter> {0..} \<union> {out_r, out_w} \<inter> {0..} \<union> {err_r, err_w} \<inter> {0..} =
              {in_r, in_w, out_r, out_w, err_r, err_w} \<inter> {0..}" by auto
          then show "ends_open ({in_r, in_w, out_r, out_w, err_r, err_w} \<inter> {0..}) p p3" using o3(1) by simp
          show "\<forall>fd \<in> {in_w, out_r, err_r} \<inter> {0..}. fd \<notin> {in_r, out_w, err_w}"
            using o1(4) o2(2-4) o3(2-4) by (auto split: if_splits)
          show "(if wi then 0 \<le> in_w else in_w = - 1) \<and> (if wo then 0 \<le> out_r else out_r = - 1) \<and>
              (if we then 0 \<le> err_r else err_r = - 1)" using o1(4) o2(4) o3(4) by (auto split: if_splits)
        qed (use r c1' c2' c3' z in \<open>simp add: fork_exec_with_pipes_def split: sum.splits\<close>)
      qed
    qed
  qed
qed

subsection \<open>\<open>g_spawn_sync\<close>\<close>

text \<open>
  While the output is read, descriptors are only closed: what differs from the table \<open>t\<close> are pipe ends
  that are still open.
\<close>

definition only_pipes :: "fd_table \<Rightarrow> int \<Rightarrow> int \<Rightarrow> proc \<Rightarrow> bool" where
  "only_pipes t a b p \<longleftrightarrow> (\<forall>fd. fds p fd = t fd \<or> fd \<in> {a, b} \<and> 0 \<le> fd \<and> t fd = None)"

lemma sync_read_frame:
  assumes "sync_read ready fd str rs p = Some (failed, fd', str', rs', p')"
  shows "fd' = fd \<or> fd' = - 1" "children p' = children p" "fd' \<noteq> fd \<Longrightarrow> fds p' = (fds p)(fd := None)"
    "fd' = fd \<Longrightarrow> fds p' = fds p" "fd' \<noteq> fd \<Longrightarrow> 0 \<le> fd"
  using assms
  by (auto simp: sync_read_def close_and_invalidate_def close_fd_def split: if_splits option.splits read_result.splits)

lemma only_pipes_read:
  assumes "only_pipes t a b p" "sync_read ready a str rs p = Some (failed, a', str', rs', p')"
    and "a < 0 \<or> t a = None"
  shows "only_pipes t a' b p'"
proof (cases "a' = a")
  case True
  then show ?thesis using assms(1) sync_read_frame(4) [OF assms(2)] by (simp add: only_pipes_def)
next
  case False
  then have "fds p' = (fds p)(a := None)" "t a = None"
    using sync_read_frame(3,5) [OF assms(2)] assms(3) by auto
  then show ?thesis using assms(1) by (auto simp: only_pipes_def)
qed

lemma only_pipes_swap: "only_pipes t a b p = only_pipes t b a p"
  by (auto simp: only_pipes_def)

lemma only_pipes_close_all:
  assumes "only_pipes t a b p" "a < 0 \<or> t a = None" "b < 0 \<or> t b = None"
  shows "fds (close_all [a, b] p) = t"
  using assms unfolding only_pipes_def close_all_fds by (auto simp: fun_eq_iff)

lemma sync_loop_only_pipes:
  assumes "sync_loop sel a b outs errs ro re p = Some (failed, a', b', outs', errs', p')"
    and "only_pipes t a b p" "a < 0 \<or> t a = None" "b < 0 \<or> t b = None"
  shows "only_pipes t a' b' p' \<and> (a' < 0 \<or> t a' = None) \<and> (b' < 0 \<or> t b' = None) \<and> children p' = children p"
  using assms
proof (induction sel arbitrary: a b outs errs ro re p)
  case Nil
  then show ?case by (auto simp: sync_loop.simps split: if_splits)
next
  case (Cons x sel)
  show ?case
  proof (cases "a \<ge> 0 \<or> b \<ge> 0")
    case False
    then show ?thesis using Cons.prems by (subst (asm) sync_loop.simps) auto
  next
    case going: True
    show ?thesis
    proof (cases x)
      case (Select_Error e)
      show ?thesis
      proof (cases "e = EINTR")
        case True
        have "sync_loop sel a b outs errs ro re p = Some (failed, a', b', outs', errs', p')"
          using Cons.prems(1) going Select_Error True by (subst (asm) sync_loop.simps) simp
        from Cons.IH [OF this Cons.prems(2-4)] show ?thesis .
      next
        case False
        then show ?thesis using Cons.prems going Select_Error by (subst (asm) sync_loop.simps) auto
      qed
    next
      case (Ready ready1 ready2)
      obtain f1 a1 s1 r1 p1 where one: "sync_read ready1 a outs ro p = Some (f1, a1, s1, r1, p1)"
        using Cons.prems(1) going Ready by (subst (asm) sync_loop.simps) (auto split: option.splits)
      note o1 = sync_read_frame(1-4) [OF one] only_pipes_read [OF Cons.prems(2) one Cons.prems(3)]
      have t1: "a1 < 0 \<or> t a1 = None" using o1(1) Cons.prems(3) by auto
      show ?thesis
      proof (cases f1)
        case True
        then show ?thesis using Cons.prems going Ready one o1 t1
          by (subst (asm) sync_loop.simps) auto
      next
        case nf1: False
        obtain f2 b1 s2 r2 p2 where two: "sync_read ready2 b errs re p1 = Some (f2, b1, s2, r2, p2)"
          using Cons.prems(1) going nf1
          by (subst (asm) sync_loop.simps) (auto simp: Ready one split: option.splits)
        note o2 = sync_read_frame [OF two]
        have op: "only_pipes t a1 b1 p2"
        proof -
          have "only_pipes t b a1 p1" using o1(5) only_pipes_swap by blast
          from only_pipes_read [OF this two Cons.prems(4)] show ?thesis using only_pipes_swap by blast
        qed
        have t2: "b1 < 0 \<or> t b1 = None" using o2(1) Cons.prems(4) by auto
        show ?thesis
        proof (cases f2)
          case True
          then show ?thesis using Cons.prems going Ready one nf1 two op t1 t2 o1 o2
            by (subst (asm) sync_loop.simps) auto
        next
          case False
          have "sync_loop sel a1 b1 s1 s2 r1 r2 p2 = Some (failed, a', b', outs', errs', p')"
            using Cons.prems(1) going nf1 False by (subst (asm) sync_loop.simps) (simp add: Ready one two)
          from Cons.IH [OF this op t1 t2] show ?thesis using o1(2) o2(2) by simp
        qed
      qed
    qed
  qed
qed

lemma g_spawn_sync_leaves_nothing:
  assumes law: "pipe_law os" and fresh: "fresh_pid p"
    and r: "g_spawn_sync os io wd args envp flags setup wo we p = Some (res, p')"
  shows "fds p' = fds p \<and> children p' = children p"
proof (cases args)
  case None
  then show ?thesis using r by (simp add: g_spawn_sync_def)
next
  case (Some as)
  let ?bad = "G_SPAWN_DO_NOT_REAP_CHILD \<in> flags \<or> wo \<and> G_SPAWN_STDOUT_TO_DEV_NULL \<in> flags \<or>
    we \<and> G_SPAWN_STDERR_TO_DEV_NULL \<in> flags"
  let ?start = "fork_exec_with_pipes os (opts_of wd as envp flags setup) False
    (G_SPAWN_CLOEXEC_PIPES \<in> flags) False wo we p"
  show ?thesis
  proof (cases ?bad)
    case True
    then show ?thesis using r Some by (auto simp: g_spawn_sync_def split: if_splits)
  next
    case ok: False
    obtain y q where y: "?start = Some (y, q)"
      using r Some ok by (cases ?start) (auto simp: g_spawn_sync_def)
    note pr = fork_exec_with_pipes_result [OF law fresh y, unfolded pipes_result_def fst_conv snd_conv]
    show ?thesis
    proof (cases y)
      case (Inl e)
      then show ?thesis using r Some ok y pr by (auto simp: g_spawn_sync_def)
    next
      case (Inr z)
      obtain pid a b c where z: "z = (pid, a, b, c)" by (cases z)
      obtain failed b' c' outs errs q1 where
        l: "sync_loop (io_select io) b c [] [] (io_out io) (io_err io) q = Some (failed, b', c', outs, errs, q1)"
        using r Some ok y Inr z by (auto simp: g_spawn_sync_def bind_eq_Some_conv)
      have o: "opened ({b, c} \<inter> {0..}) p q" "pid = next_pid p" "\<exists>ending. children q = (pid, ending) # children p"
        using pr Inr z by auto
      have "x < 0 \<or> fds p x = None" if "x \<in> {b, c}" for x
        using o(1) that by (cases "x < 0") (auto simp: opened_def)
      then have "only_pipes (fds p) b c q" "b < 0 \<or> fds p b = None" "c < 0 \<or> fds p c = None"
        using o(1) by (auto simp: only_pipes_def opened_def)
      from sync_loop_only_pipes [OF l this] have s: "only_pipes (fds p) b' c' q1"
        "b' < 0 \<or> fds p b' = None" "c' < 0 \<or> fds p c' = None" "children q1 = children q" by simp_all
      obtain x u where u: "wait_child os pid (close_all [b', c'] q1) = (x, u)" by fastforce
      have "p' = u"
        using r Some ok y Inr z l u by (auto simp: g_spawn_sync_def Let_def split: if_splits)
      moreover have "fds u = fds p"
        using wait_child_effect [OF u] only_pipes_close_all [OF s(1-3)] by simp
      moreover have "children u = children p"
        using wait_child_effect [OF u] s(4) o(2,3) fresh_pid_filter [OF fresh] by auto
      ultimately show ?thesis by simp
    qed
  qed
qed

end
