(* ===== verification/Spawn_Properties.thy ===== *)
theory Spawn_Properties
  imports Spawn_Contract
begin

text \<open>
  The properties of \<open>gspawn.c\<close>, each with an instance in a concrete system: a kernel that knows two
  programs, a process with the standard descriptors, and a pipe call that takes the lowest free
  numbers.
\<close>

subsection \<open>Concrete systems\<close>

definition ex_exec :: exec_call where
  "ex_exec f args envp =
    (if f = ''/usr/bin/prog'' then None else if f = ''/bin/sh'' then None else if f = ''/bin/script'' then Some ENOEXEC
     else if f = ''/root/prog'' then Some EACCES else Some ENOENT)"

definition ex_env_os :: exec_env where
  "ex_env_os = \<lparr>ee_exec = ex_exec, ee_environ_getenv = (\<lambda>_ _. None),
     ee_getenv = (\<lambda>v. if v = ''PATH'' then Some ''/root:/usr/bin'' else None)\<rparr>"

definition ex_pipe :: "bool \<Rightarrow> proc \<Rightarrow> (int \<times> int) option \<times> proc" where
  "ex_pipe c p =
    (case lowest_fd p of
       None \<Rightarrow> (None, p)
     | Some a \<Rightarrow>
         (case lowest_fd (p\<lparr>fds := (fds p)(a \<mapsto> (Pipe_Read (next_pipe p), c))\<rparr>) of
            None \<Rightarrow> (None, p)
          | Some b \<Rightarrow> (Some (a, b), p\<lparr>next_pipe := next_pipe p + 1,
              fds := (fds p)(a \<mapsto> (Pipe_Read (next_pipe p), c), b \<mapsto> (Pipe_Write (next_pipe p), c))\<rparr>)))"

text \<open>The directory lists the open descriptors.\<close>

definition ex_names :: "proc \<Rightarrow> string list list" where
  "ex_names p = [map print_decimal (filter (\<lambda>n. fds p (int n) \<noteq> None) [0..<open_max p])]"

definition ex_os :: spawn_os where
  "ex_os = \<lparr>os_env = ex_env_os, os_getdents = ex_names, os_open_pipe = ex_pipe,
     os_posix_spawn = (\<lambda>s f as e. if f = ''/usr/bin/prog'' then None else Some ENOENT),
     os_pieces = (\<lambda>bs. if bs = [] then [] else [Inr bs]), os_exec_error = G_SPAWN_EXEC_ERROR,
     os_child_faults = (\<lambda>_. []), os_wait_status = (\<lambda>_ e. case e of Exited n \<Rightarrow> 256 * n | _ \<Rightarrow> 0)\<rparr>"

definition ex_parent :: proc where
  "ex_parent = \<lparr>fds = [0 \<mapsto> (Other_File 0, False), 1 \<mapsto> (Other_File 1, False), 2 \<mapsto> (Other_File 2, False)],
     open_max = 9, cwd = ''/'', disp = (\<lambda>_. Default), faults = [], next_pipe = 0, next_pid = 100,
     children = [], orphans = [], pipe_data = (\<lambda>_. [])\<rparr>"

lemma ex_pipe_law: "pipe_law ex_os"
proof -
  have "a \<noteq> b \<and> 0 \<le> a \<and> 0 \<le> b \<and> fds p a = None \<and> fds p b = None"
    if "lowest_fd p = Some a" "lowest_fd (p\<lparr>fds := (fds p)(a \<mapsto> x)\<rparr>) = Some b" for p a b x
    using lowest_fd_free [OF that(1)] lowest_fd_free [OF that(2)] by (auto split: if_splits)
  then show ?thesis
    by (auto simp: pipe_law_def ex_os_def ex_pipe_def split: option.splits)
qed

lemma ex_parent_fresh: "fresh_pid ex_parent"
  by (simp add: fresh_pid_def ex_parent_def)

lemma ex_lists_open: "lists_open (os_getdents ex_os)"
proof -
  have "fd \<in> filename_to_fd ` set (concat (ex_names p))"
    if "0 \<le> fd" "fd < int (open_max p)" "fd \<le> G_MAXINT" "fds p fd \<noteq> None" for p fd
    using that
    by (intro image_eqI [of _ _ "print_decimal (nat fd)"])
      (auto simp: filename_to_fd_print ex_names_def nat_less_iff)
  then show ?thesis by (simp add: lists_open_def ex_os_def)
qed

lemma ex_table_ok: "table_ok ex_parent"
  by (auto simp: table_ok_def ex_parent_def G_MAXINT_def split: if_splits)

subsection \<open>Finding the program\<close>

text \<open>C15: \<open>g_execute\<close> is \<open>execvp\<close>: it tries the file in the directories of the path in their order, an empty
  directory being the current one, and ends with the first attempt that is not one of the errors that mean
  \<open>not here\<close>; if there is none, with \<open>EACCES\<close> if some attempt was refused, else with the last error.\<close>

theorem g_execute_searches_path:
  "g_execute ee file argv envp sp spe =
    (if file = [] then Failed ENOENT
     else if (sp \<or> spe) \<and> CHR ''/'' \<notin> set file
     then first_decisive False (map (\<lambda>name. try_name (ee_exec ee) name argv envp)
       (exec_candidates file (search_path_value ee envp sp spe)))
     else try_name (ee_exec ee) file argv envp)"
  by (simp add: g_execute_def search_loop_eq)

text \<open>A file without a known format is run as \<open>/bin/sh file\<close> with the other arguments; but for an empty
  argument vector the copy writes no terminating null pointer, and \<open>execve\<close> reads past its end.\<close>

theorem script_execute_arguments:
  "script_execute ex file argv envp =
    (if argv = [] then Unterminated
     else case ex bin_sh (bin_sh # file # tl argv) envp of
            None \<Rightarrow> Replaced bin_sh (bin_sh # file # tl argv) | Some e \<Rightarrow> Failed e)"
  by (cases "argv = []") (simp_all add: script_execute_def script_argv_nonempty script_argv_empty)

subsection \<open>Descriptor numbers and transfers\<close>

text \<open>C16: the parser of the names in \<open>/proc/self/fd\<close> accepts exactly the non-empty digit strings whose value is
  an \<open>int\<close>, so that no step of it overflows, and gives back every descriptor the kernel prints.\<close>

theorem filename_to_fd_parses_decimals:
  "filename_to_fd s =
      (if s \<noteq> [] \<and> list_all is_digit s \<and> decimal 0 s \<le> G_MAXINT then decimal 0 s else - 1) \<and>
    (int n \<le> G_MAXINT \<longrightarrow> filename_to_fd (print_decimal n) = int n)"
  using filename_to_fd_eq filename_to_fd_print by blast

theorem filename_to_fd_parses_decimals_witness:
  "int 42 \<le> G_MAXINT \<and> filename_to_fd (print_decimal 42) = 42"
  using filename_to_fd_parses_decimals [of "[]" 42] by (simp add: G_MAXINT_def)

text \<open>\<open>write_all\<close> reports success exactly if nothing is left to write, and gives up only after an error other
  than \<open>EINTR\<close>.\<close>

theorem write_all_writes_all:
  assumes "write_all n as = Some (ok, left, as')"
  shows "(ok \<longleftrightarrow> left = 0) \<and> (\<not> ok \<longrightarrow> (\<exists>e. e \<noteq> EINTR \<and> Inl e \<in> set as))"
  using write_all_result [OF assms] by blast

theorem write_all_writes_all_witness:
  "write_all 5 [Inl EINTR, Inr 2, Inr 3] = Some (True, 0, []) \<and> (True \<longleftrightarrow> (0::nat) = 0)"
proof -
  have w: "write_all 5 [Inl EINTR, Inr 2, Inr 3] = Some (True, 0, [])" by (simp add: write_all.simps)
  from write_all_writes_all [OF w] w show ?thesis by blast
qed

text \<open>What a child writes before it gives up, the parent reads back: however the pipe splits the eight bytes
  and however often the reads are interrupted, \<open>read_ints\<close> returns two integers, the message and the error.\<close>

theorem error_report_roundtrip:
  assumes "delivers as (err_report msg en)" "- (2 ^ 31) \<le> msg" "msg < 2 ^ 31" "- (2 ^ 31) \<le> en" "en < 2 ^ 31"
  shows "\<exists>buf rest. read_ints 2 (as @ [Inr []]) = Some (Inr (buf, 2), rest) \<and>
    bytes_int buf = msg \<and> bytes_int (drop 4 buf) = en"
  using read_ints_delivers [OF assms(1), of 2] err_report_decoded [OF assms(2-5)]
  by (auto simp: err_report_def)

theorem error_report_roundtrip_witness:
  "\<exists>buf rest. read_ints 2 ([Inr (int_bytes 1), Inl EINTR, Inr (int_bytes 13)] @ [Inr []]) = Some (Inr (buf, 2), rest) \<and>
    bytes_int buf = 1 \<and> bytes_int (drop 4 buf) = 13"
  by (rule error_report_roundtrip) (auto simp: delivers_def err_report_def int_bytes_def)

subsection \<open>The descriptors of the child\<close>

definition ex_opts :: spawn_opts where
  "ex_opts = \<lparr>so_working_directory = None, so_argv = [''prog''], so_envp = None, so_close_descriptors = True,
     so_search_path = True, so_search_path_from_envp = False, so_stdout_to_null = True, so_stderr_to_null = False,
     so_child_inherits_stdin = False, so_file_and_argv_zero = False, so_child_setup = None\<rparr>"

definition ex_child :: proc where
  "ex_child = ex_parent\<lparr>fds := (fds ex_parent)(3 \<mapsto> (Pipe_Write 0, True), 4 \<mapsto> (Other_File 4, False),
     5 \<mapsto> (Other_File 5, False))\<rparr>"

fun started :: "child_end \<Rightarrow> (string \<times> string list) option" where
  "started (Running f as im) = Some (f, as)"
| "started _ = None"

lemma startedD: "started e = Some (f, as) \<Longrightarrow> \<exists>im. e = Running f as im"
  by (cases e) auto

lemma ex_child_ok: "table_ok ex_child" "quiet ex_child"
  by (auto simp: table_ok_def ex_child_def ex_parent_def G_MAXINT_def quiet_def split: if_splits)

text \<open>C17: a program that a forked child starts has as standard descriptors what the caller asked for. A descriptor
  that was passed arrives in the program, whatever calls fail. Where \<open>/dev/null\<close> was asked for, the
  program may instead have what the process itself had there: the results of \<open>dup2\<close>, and for \<open>stderr\<close> of \<open>open\<close>, are
  ignored, and if the standard descriptor was closed, \<open>open\<close> returns its very number and the code closes it
  again (\<open>std_redirected\<close>). If calls fail with nothing but \<open>EINTR\<close> and the descriptors 0, 1 and 2 are open, this happens for
  \<open>stderr\<close> only. With the descriptors to be closed, no other one is left open. The statement is about calls without a
  \<open>child_setup\<close> function, whose descriptors, and the pipe for the report, are none of 0, 1 and 2, and a
  \<open>/proc/self/fd\<close> that lists what is open.\<close>

theorem do_exec_sets_standard_descriptors:
  assumes "do_exec os opts err i o' e p = (Running f as im, p')" "so_child_setup opts = None"
    "table_ok p" "lists_open (os_getdents os)" "0 \<le> err" "not_std err" "not_std i" "not_std o'" "not_std e"
  shows "std_redirected p im i 0 (\<not> so_child_inherits_stdin opts) Null_Read \<and>
    std_redirected p im o' 1 (so_stdout_to_null opts) Null_Write \<and>
    std_redirected p im e 2 (so_stderr_to_null opts) Null_Write \<and>
    (quiet p \<and> fds p 0 \<noteq> None \<and> fds p 1 \<noteq> None \<and> fds p 2 \<noteq> None \<longrightarrow>
      im_fds im 0 = std_file p i 0 (\<not> so_child_inherits_stdin opts) Null_Read \<and>
      im_fds im 1 = std_file p o' 1 (so_stdout_to_null opts) Null_Write) \<and>
    (so_close_descriptors opts \<longrightarrow> (\<forall>fd. 3 \<le> fd \<longrightarrow> im_fds im fd = None))"
  using do_exec_std_any [OF assms] do_exec_std [OF assms(1-6) _ assms(7-9)] do_exec_outcome(2) [OF assms(1-5) refl]
  by auto

theorem do_exec_sets_standard_descriptors_witness:
  "\<exists>im p'. do_exec ex_os ex_opts 3 4 (- 1) 5 ex_child = (Running ''/usr/bin/prog'' [''prog''] im, p') \<and>
    im_fds im 0 = Some (Other_File 4) \<and> im_fds im 1 = Some Null_Write \<and> im_fds im 2 = Some (Other_File 5) \<and>
    im_fds im 3 = None"
proof -
  have "started (fst (do_exec ex_os ex_opts 3 4 (- 1) 5 ex_child)) = Some (''/usr/bin/prog'', [''prog''])"
    by code_simp
  from startedD [OF this] obtain im where im: "fst (do_exec ex_os ex_opts 3 4 (- 1) 5 ex_child) =
    Running ''/usr/bin/prog'' [''prog''] im" by blast
  then obtain p' where r: "do_exec ex_os ex_opts 3 4 (- 1) 5 ex_child = (Running ''/usr/bin/prog'' [''prog''] im, p')"
    by (cases "do_exec ex_os ex_opts 3 4 (- 1) 5 ex_child") simp
  show ?thesis
    using do_exec_sets_standard_descriptors [OF r _ ex_child_ok(1) ex_lists_open] r ex_child_ok(2)
    by (simp add: ex_opts_def not_std_def std_file_def std_redirected_def ex_child_def ex_parent_def)
qed

text \<open>A caller that passes descriptor 0 as the standard input of the child gets a program that has no standard
  input: \<open>do_exec\<close> sets the close-on-exec flag of the number it has just redirected to itself.\<close>

theorem do_exec_loses_stdin_zero:
  assumes "do_exec os opts err 0 o' e p = (Running f as im, p')" "so_child_setup opts = None"
  shows "im_fds im 0 = None"
  using assms by (rule do_exec_stdin_zero)

theorem do_exec_loses_stdin_zero_witness:
  "\<exists>im p'. do_exec ex_os ex_opts 3 0 (- 1) 5 ex_child = (Running ''/usr/bin/prog'' [''prog''] im, p') \<and>
    im_fds im 0 = None"
proof -
  have "started (fst (do_exec ex_os ex_opts 3 0 (- 1) 5 ex_child)) = Some (''/usr/bin/prog'', [''prog''])"
    by code_simp
  from startedD [OF this] obtain im where im: "fst (do_exec ex_os ex_opts 3 0 (- 1) 5 ex_child) =
    Running ''/usr/bin/prog'' [''prog''] im" by blast
  then obtain p' where r: "do_exec ex_os ex_opts 3 0 (- 1) 5 ex_child = (Running ''/usr/bin/prog'' [''prog''] im, p')"
    by (cases "do_exec ex_os ex_opts 3 0 (- 1) 5 ex_child") simp
  show ?thesis using do_exec_loses_stdin_zero [OF r] r by (simp add: ex_opts_def)
qed

text \<open>A program that runs holds no writing end of the pipe its report would have gone through, so the parent's
  read ends; this needs the pipe to lie above the standard descriptors.\<close>

theorem do_exec_releases_error_pipe:
  assumes "do_exec os opts err i o' e p = (Running f as im, p')" "so_child_setup opts = None"
    "table_ok p" "lists_open (os_getdents os)" "0 \<le> err" "not_std err" "sole_writer n err p"
    "fds p err \<noteq> None" "i \<noteq> err" "o' \<noteq> err" "e \<noteq> err"
  shows "im_fds im fd \<noteq> Some (Pipe_Write n)"
  using assms by (rule do_exec_pipe_free)

theorem do_exec_releases_error_pipe_witness:
  "\<exists>im p'. do_exec ex_os ex_opts 3 (- 1) 4 5 ex_child = (Running ''/usr/bin/prog'' [''prog''] im, p') \<and>
    im_fds im 3 \<noteq> Some (Pipe_Write 0)"
proof -
  have "started (fst (do_exec ex_os ex_opts 3 (- 1) 4 5 ex_child)) = Some (''/usr/bin/prog'', [''prog''])"
    by code_simp
  from startedD [OF this] obtain im where im: "fst (do_exec ex_os ex_opts 3 (- 1) 4 5 ex_child) =
    Running ''/usr/bin/prog'' [''prog''] im" by blast
  then obtain p' where r: "do_exec ex_os ex_opts 3 (- 1) 4 5 ex_child = (Running ''/usr/bin/prog'' [''prog''] im, p')"
    by (cases "do_exec ex_os ex_opts 3 (- 1) 4 5 ex_child") simp
  have "sole_writer 0 3 ex_child" by (auto simp: sole_writer_def ex_child_def ex_parent_def split: if_splits)
  from do_exec_releases_error_pipe [OF r _ ex_child_ok(1) ex_lists_open _ _ this] r show ?thesis
    by (simp add: ex_opts_def not_std_def ex_child_def)
qed

subsection \<open>The caller\<close>

text \<open>\<open>do_posix_spawn\<close> leaves the descriptors of its caller as they were, on every path; a failed call leaves no
  child, a successful one exactly the child whose number it returns.\<close>

theorem posix_spawn_restores_the_caller:
  assumes "do_posix_spawn os opts ccf i o' e p = Some (r, p')"
  shows "fds p' = fds p \<and> orphans p' = orphans p \<and>
    (case r of
       Inl _ \<Rightarrow> children p' = children p
     | Inr pid \<Rightarrow> pid = next_pid p \<and> (\<exists>f as im. children p' = (pid, Running f as im) # children p))"
  using do_posix_spawn_parent [OF assms] by (auto split: sum.splits)

theorem posix_spawn_restores_the_caller_witness:
  "\<exists>p'. do_posix_spawn ex_os (ex_opts\<lparr>so_argv := [''/usr/bin/prog'']\<rparr>) None (- 1) (- 1) (- 1) ex_parent = Some (Inr 100, p') \<and>
    fds p' = fds ex_parent"
proof -
  have "map_option fst (do_posix_spawn ex_os (ex_opts\<lparr>so_argv := [''/usr/bin/prog'']\<rparr>) None (- 1) (- 1) (- 1) ex_parent) =
    Some (Inr 100)" by code_simp
  then obtain p' where "do_posix_spawn ex_os (ex_opts\<lparr>so_argv := [''/usr/bin/prog'']\<rparr>) None (- 1) (- 1) (- 1) ex_parent =
    Some (Inr 100, p')" by (auto simp: map_option_eq_Some)
  from posix_spawn_restores_the_caller [OF this] this show ?thesis by blast
qed

text \<open>C18: \<open>g_spawn_sync\<close> leaks nothing: whether it succeeds, its arguments are refused, a pipe, the start or a
  read fails, afterwards the caller has the descriptors and the children it had before.\<close>

theorem g_spawn_sync_leaks_nothing:
  assumes "pipe_law os" "fresh_pid p"
    and "g_spawn_sync os io wd args envp flags setup wo we p = Some (res, p')"
  shows "fds p' = fds p \<and> children p' = children p"
  using assms by (rule g_spawn_sync_leaves_nothing)

definition ex_io :: sync_io where
  "ex_io = \<lparr>io_select = [Ready True False, Select_Error EINTR, Ready True True],
     io_out = [Inr [104, 105], Inr []], io_err = [Inr []]\<rparr>"

theorem g_spawn_sync_leaks_nothing_witness:
  "\<exists>p' res. g_spawn_sync ex_os ex_io None (Some [''/usr/bin/prog'']) None {G_SPAWN_LEAVE_DESCRIPTORS_OPEN} None True True ex_parent = Some (Inr res, p') \<and>
    sr_output res = Some [104, 105] \<and> fds p' = fds ex_parent \<and> children p' = []"
proof -
  let ?r = "g_spawn_sync ex_os ex_io None (Some [''/usr/bin/prog'']) None {G_SPAWN_LEAVE_DESCRIPTORS_OPEN} None True True ex_parent"
  have "map_option (\<lambda>x. case_sum (\<lambda>_. None) sr_output (fst x)) ?r = Some (Some [104, 105])" by code_simp
  then obtain x p' where x: "?r = Some (x, p')" "case_sum (\<lambda>_. None) sr_output x = Some [104, 105]"
    by (auto simp: map_option_eq_Some)
  then obtain res where r: "?r = Some (Inr res, p')" "sr_output res = Some [104, 105]" by (cases x) auto
  have "children ex_parent = []" by (simp add: ex_parent_def)
  then show ?thesis using g_spawn_sync_leaks_nothing [OF ex_pipe_law ex_parent_fresh r(1)] r by auto
qed

text \<open>When the read loop of \<open>g_spawn_sync\<close> ends without a failure, both pipes are closed and the two strings are
  exactly the bytes the pipes delivered up to their ends, whatever the order in which they became ready.\<close>

theorem sync_loop_collects_output:
  assumes "sync_loop sel outpipe errpipe [] [] ro re p = Some (False, o', e', outs, errs, p')"
    and "0 \<le> outpipe" "0 \<le> errpipe"
  shows "outs = delivered ro \<and> errs = delivered re \<and> o' < 0 \<and> e' < 0"
  using sync_loop_gathers [OF assms(1)] assms(2,3) by (simp add: gathered_def)

theorem sync_loop_collects_output_witness:
  "\<exists>p'. sync_loop (io_select ex_io) 3 4 [] [] (io_out ex_io) (io_err ex_io) ex_parent =
      Some (False, - 1, - 1, [104, 105], [], p') \<and> [104, 105] = delivered (io_out ex_io)"
proof -
  have "\<exists>p'. sync_loop (io_select ex_io) 3 4 [] [] (io_out ex_io) (io_err ex_io) ex_parent =
      Some (False, - 1, - 1, [104, 105], [], p')"
    by (simp add: ex_io_def sync_loop.simps sync_read_def close_and_invalidate_def)
  then show ?thesis using sync_loop_collects_output by fastforce
qed

text \<open>The list of the parent's pipe ends that a child is to close has no effect when the caller does not pipe the
  standard input: it then starts with \<open>-1\<close>, which also ends it, so the parent's ends of the output pipes are not closed.\<close>

theorem close_list_ignored_without_stdin_pipe:
  "fork_exec_with_fds os opts g cl (Some (- 1 # ends)) i o' e p = fork_exec_with_fds os opts g cl None i o' e p"
proof -
  have cb: "child_body os opts g ep pp (Some (- 1 # ends)) i o' e = child_body os opts g ep pp None i o' e" for ep pp
    by (simp add: child_body_def fun_eq_iff)
  have f: "fork_and_report os opts g cl (Some (- 1 # ends)) i o' e q = fork_and_report os opts g cl None i o' e q" for q
    unfolding fork_and_report_def cb by (rule refl)
  have "do_posix_spawn os opts (Some (- 1 # ends)) i o' e p = do_posix_spawn os opts None i o' e p"
    by (cases "so_argv opts") (simp_all add: do_posix_spawn_def)
  then show ?thesis unfolding fork_exec_with_fds_def f by simp
qed

end
