(* ===== verification/Glibc_System.thy ===== *)
theory Glibc_System
  imports Linux_Prelude
begin

text \<open>
  \<open>system\<close> of glibc (\<open>StartProcess/code/glibc-2.32/system.c\<close> and \<open>glibc-2.27/system.c\<close>) as threads
  execute it side by side. A call runs through phases; a section under the lock is one step, and so
  is every system call outside of it. The static variables \<open>intr\<close>, \<open>quit\<close> and \<open>sa_refcntr\<close> are
  shared by all threads, the signal mask belongs to a thread.
\<close>

subsection \<open>State\<close>

datatype signo = SIGINT | SIGQUIT | SIGCHLD | SIG_NR nat
datatype sigdisp = SIG_DFL | SIG_IGN | Catch nat

text \<open>
  What a thread has done: \<open>Blocked\<close> holds the local \<open>omask\<close>, \<open>Waiting\<close> also the child, \<open>Finished\<close> the
  local \<open>ret\<close> and \<open>status\<close>. A cancelled thread unwinds and does not come back.
\<close>

datatype phase =
    Outside | Entered | Blocked "signo set" | Waiting "signo set" int
  | Finished "signo set" "errno option" int | Unwinding

text \<open>A child is the program, its arguments, and the mask and the dispositions it starts with.\<close>

record started_child =
  sc_pid :: int
  sc_args :: "string list"
  sc_mask :: "signo set"
  sc_disp :: "signo \<Rightarrow> sigdisp"

record system_state =
  sy_disp :: "signo \<Rightarrow> sigdisp"
  sy_intr :: sigdisp
  sy_quit :: sigdisp
  sa_refcntr :: int
  sy_mask :: "nat \<Rightarrow> signo set"
  sy_phase :: "nat \<Rightarrow> phase"
  sy_result :: "nat \<Rightarrow> int option"
  sy_errno :: "nat \<Rightarrow> errno option"
  sy_children :: "started_child list"
  sy_killed :: "int list"

definition set_phase :: "nat \<Rightarrow> phase \<Rightarrow> system_state \<Rightarrow> system_state" where
  "set_phase t ph s = s\<lparr>sy_phase := (sy_phase s)(t := ph)\<rparr>"

definition set_mask :: "nat \<Rightarrow> signo set \<Rightarrow> system_state \<Rightarrow> system_state" where
  "set_mask t m s = s\<lparr>sy_mask := (sy_mask s)(t := m)\<rparr>"

definition set_disp :: "signo \<Rightarrow> sigdisp \<Rightarrow> system_state \<Rightarrow> system_state" where
  "set_disp sig d s = s\<lparr>sy_disp := (sy_disp s)(sig := d)\<rparr>"

definition set_errno :: "nat \<Rightarrow> errno \<Rightarrow> system_state \<Rightarrow> system_state" where
  "set_errno t e s = s\<lparr>sy_errno := (sy_errno s)(t := Some e)\<rparr>"

text \<open>The function returns: the status, and \<open>errno\<close> where it was set.\<close>

definition returns :: "nat \<Rightarrow> int \<Rightarrow> errno option \<Rightarrow> system_state \<Rightarrow> system_state" where
  "returns t status e s =
    (let s = (case e of None \<Rightarrow> s | Some e \<Rightarrow> set_errno t e s)
     in (set_phase t Outside s)\<lparr>sy_result := (sy_result s)(t := Some status)\<rparr>)"

text \<open>The dispositions a program starts with: handlers are gone.\<close>

definition exec_disp :: "(signo \<Rightarrow> sigdisp) \<Rightarrow> signo \<Rightarrow> sigdisp" where
  "exec_disp d = (\<lambda>sig. if d sig = SIG_IGN then SIG_IGN else SIG_DFL)"

definition shell_args :: "string \<Rightarrow> string list" where
  "shell_args line = [''sh'', ''-c'', line]"

subsection \<open>Version 2.32\<close>

definition enter_232 :: "nat \<Rightarrow> system_state \<Rightarrow> system_state" where
  "enter_232 t s =
    (let old = sa_refcntr s;
         s = s\<lparr>sa_refcntr := old + 1\<rparr>;
         s = (if old = 0
              then let s = s\<lparr>sy_intr := sy_disp s SIGINT\<rparr>;
                       s = set_disp SIGINT SIG_IGN s;
                       s = s\<lparr>sy_quit := sy_disp s SIGQUIT\<rparr>
                   in set_disp SIGQUIT SIG_IGN s
              else s)
     in set_phase t Entered s)"

definition block_sigchld :: "nat \<Rightarrow> system_state \<Rightarrow> system_state" where
  "block_sigchld t s =
    (let omask = sy_mask s t
     in set_phase t (Blocked omask) (set_mask t (insert SIGCHLD omask) s))"

definition spawn_232 :: "nat \<Rightarrow> string \<Rightarrow> signo set \<Rightarrow> errno + int \<Rightarrow> system_state \<Rightarrow> system_state" where
  "spawn_232 t line omask ret s =
    (let reset = (if sy_intr s \<noteq> SIG_IGN then {SIGINT} else {}) \<union>
                 (if sy_quit s \<noteq> SIG_IGN then {SIGQUIT} else {})
     in case ret of
          Inl e \<Rightarrow> set_phase t (Finished omask (Some e) (- 1)) s
        | Inr pid \<Rightarrow>
            set_phase t (Waiting omask pid)
              (s\<lparr>sy_children := \<lparr>sc_pid = pid, sc_args = shell_args line, sc_mask = omask,
                  sc_disp = exec_disp (\<lambda>sig. if sig \<in> reset then SIG_DFL else sy_disp s sig)\<rparr> # sy_children s\<rparr>))"

text \<open>One return of \<open>waitpid\<close>; after \<open>EINTR\<close> it is called again.\<close>

definition wait_shell :: "nat \<Rightarrow> signo set \<Rightarrow> errno + int \<Rightarrow> system_state \<Rightarrow> system_state" where
  "wait_shell t omask w s =
    (case w of
       Inr status \<Rightarrow> set_phase t (Finished omask None status) s
     | Inl e \<Rightarrow>
         (let s = set_errno t e s in if e = EINTR then s else set_phase t (Finished omask None (- 1)) s))"

definition leave_232 :: "nat \<Rightarrow> signo set \<Rightarrow> errno option \<Rightarrow> int \<Rightarrow> system_state \<Rightarrow> system_state" where
  "leave_232 t omask ret status s =
    (let s = s\<lparr>sa_refcntr := sa_refcntr s - 1\<rparr>;
         s = (if sa_refcntr s = 0
              then set_mask t omask (set_disp SIGQUIT (sy_quit s) (set_disp SIGINT (sy_intr s) s))
              else s)
     in returns t status ret s)"

definition cancel_handler :: "nat \<Rightarrow> int \<Rightarrow> system_state \<Rightarrow> system_state" where
  "cancel_handler t pid s =
    (let s = s\<lparr>sy_killed := pid # sy_killed s\<rparr>;
         s = s\<lparr>sa_refcntr := sa_refcntr s - 1\<rparr>;
         s = (if sa_refcntr s = 0
              then set_disp SIGINT (sy_intr s) (set_disp SIGQUIT (sy_quit s) s) else s)
     in set_phase t Unwinding s)"

inductive step_232 :: "system_state \<Rightarrow> system_state \<Rightarrow> bool" where
  enter: "sy_phase s t = Outside \<Longrightarrow> step_232 s (enter_232 t s)"
| block: "sy_phase s t = Entered \<Longrightarrow> step_232 s (block_sigchld t s)"
| spawn: "sy_phase s t = Blocked omask \<Longrightarrow> step_232 s (spawn_232 t line omask ret s)"
| waited: "sy_phase s t = Waiting omask pid \<Longrightarrow> step_232 s (wait_shell t omask w s)"
| leave: "sy_phase s t = Finished omask ret status \<Longrightarrow> step_232 s (leave_232 t omask ret status s)"
| cancelled: "sy_phase s t = Waiting omask pid \<Longrightarrow> step_232 s (cancel_handler t pid s)"

text \<open>A call that nothing interrupts: \<open>ws\<close> are the returns of \<open>waitpid\<close>. \<open>None\<close>: the shell has not ended.\<close>

fun wait_retry :: "nat \<Rightarrow> signo set \<Rightarrow> (errno + int) list \<Rightarrow> system_state \<Rightarrow> system_state option" where
  "wait_retry t omask [] s = None"
| "wait_retry t omask (w # ws) s =
    (let s = wait_shell t omask w s in if w = Inl EINTR then wait_retry t omask ws s else Some s)"

definition do_system_232 ::
    "nat \<Rightarrow> string \<Rightarrow> errno + int \<Rightarrow> (errno + int) list \<Rightarrow> system_state \<Rightarrow> (int \<times> system_state) option" where
  "do_system_232 t line ret ws s =
    (let s = enter_232 t s;
         omask = sy_mask s t;
         s = block_sigchld t s;
         s = spawn_232 t line omask ret s
     in case ret of
          Inl e \<Rightarrow> Some (- 1, leave_232 t omask (Some e) (- 1) s)
        | Inr pid \<Rightarrow>
            do { s \<leftarrow> wait_retry t omask ws s;
                 (case sy_phase s t of
                    Finished omask r status \<Rightarrow> Some (status, leave_232 t omask r status s)
                  | _ \<Rightarrow> None) })"

definition libc_system_232 ::
    "nat \<Rightarrow> string option \<Rightarrow> errno + int \<Rightarrow> (errno + int) list \<Rightarrow> system_state \<Rightarrow> (int \<times> system_state) option" where
  "libc_system_232 t line ret ws s =
    (case line of
       None \<Rightarrow> map_option (\<lambda>(status, s). (if status = 0 then 1 else 0, s)) (do_system_232 t ''exit 0'' ret ws s)
     | Some line \<Rightarrow> do_system_232 t line ret ws s)"

subsection \<open>Version 2.27\<close>

text \<open>
  The results of the calls of \<open>sigaction\<close> and \<open>sigprocmask\<close> the code looks at are arguments; a failed
  call changes nothing. Where it ignores the result, the call succeeds.
\<close>

definition enter_227 :: "nat \<Rightarrow> errno option \<Rightarrow> errno option \<Rightarrow> system_state \<Rightarrow> system_state" where
  "enter_227 t r_int r_quit s =
    (let old = sa_refcntr s;
         s = s\<lparr>sa_refcntr := old + 1\<rparr>
     in if old \<noteq> 0 then set_phase t Entered s
        else if r_int \<noteq> None
        then returns t (- 1) r_int (s\<lparr>sa_refcntr := sa_refcntr s - 1\<rparr>)
        else
          let s = s\<lparr>sy_intr := sy_disp s SIGINT\<rparr>;
              s = set_disp SIGINT SIG_IGN s
          in if r_quit \<noteq> None
             then let s = s\<lparr>sa_refcntr := sa_refcntr s - 1\<rparr>
                  in returns t (- 1) r_quit (set_disp SIGINT (sy_intr s) s)
             else let s = s\<lparr>sy_quit := sy_disp s SIGQUIT\<rparr>
                  in set_phase t Entered (set_disp SIGQUIT SIG_IGN s))"

definition block_227 :: "nat \<Rightarrow> errno option \<Rightarrow> system_state \<Rightarrow> system_state" where
  "block_227 t r s =
    (case r of
       None \<Rightarrow> block_sigchld t s
     | Some e \<Rightarrow>
         (let s = s\<lparr>sa_refcntr := sa_refcntr s - 1\<rparr>;
              s = (if sa_refcntr s = 0
                   then set_disp SIGINT (sy_intr s) (set_disp SIGQUIT (sy_quit s) s) else s)
          in returns t (- 1) (Some e) s))"

text \<open>The forked child restores what it has inherited and starts the shell.\<close>

definition spawn_227 :: "nat \<Rightarrow> string \<Rightarrow> signo set \<Rightarrow> errno + int \<Rightarrow> system_state \<Rightarrow> system_state" where
  "spawn_227 t line omask ret s =
    (case ret of
       Inl e \<Rightarrow> set_phase t (Finished omask None (- 1)) (set_errno t e s)
     | Inr pid \<Rightarrow>
         (let disp = (sy_disp s)(SIGINT := sy_intr s, SIGQUIT := sy_quit s)
          in set_phase t (Waiting omask pid)
               (s\<lparr>sy_children := \<lparr>sc_pid = pid, sc_args = shell_args line, sc_mask = omask,
                   sc_disp = exec_disp disp\<rparr> # sy_children s\<rparr>)))"

definition leave_227 ::
    "nat \<Rightarrow> signo set \<Rightarrow> int \<Rightarrow> errno option \<Rightarrow> errno option \<Rightarrow> errno option \<Rightarrow> system_state \<Rightarrow> system_state" where
  "leave_227 t omask status r_int r_quit r_mask s =
    (let s = s\<lparr>sa_refcntr := sa_refcntr s - 1\<rparr>;
         last = (sa_refcntr s = 0);
         s = (if last \<and> r_int = None then set_disp SIGINT (sy_intr s) s else s);
         s = (if last \<and> r_quit = None then set_disp SIGQUIT (sy_quit s) s else s)
     in if last \<and> r_quit \<noteq> None then returns t (- 1) r_quit s
        else if last \<and> r_int \<noteq> None then returns t (- 1) r_int s
        else if r_mask \<noteq> None then returns t (- 1) r_mask s
        else returns t status None (set_mask t omask s))"

record answers_227 =
  an_int :: "errno option"
  an_quit :: "errno option"
  an_block :: "errno option"
  an_fork :: "errno + int"
  an_waits :: "(errno + int) list"
  an_int_back :: "errno option"
  an_quit_back :: "errno option"
  an_mask_back :: "errno option"

definition outcome :: "nat \<Rightarrow> system_state \<Rightarrow> (int \<times> system_state) option" where
  "outcome t s = map_option (\<lambda>status. (status, s)) (sy_result s t)"

definition do_system_227 ::
    "nat \<Rightarrow> string \<Rightarrow> answers_227 \<Rightarrow> system_state \<Rightarrow> (int \<times> system_state) option" where
  "do_system_227 t line an s =
    (let s = enter_227 t (an_int an) (an_quit an) s
     in if sy_phase s t = Outside then outcome t s
        else
          let omask = sy_mask s t; s = block_227 t (an_block an) s
          in if sy_phase s t = Outside then outcome t s
             else
               let s = spawn_227 t line omask (an_fork an) s
               in do { s \<leftarrow> (case an_fork an of Inl _ \<Rightarrow> Some s | Inr _ \<Rightarrow> wait_retry t omask (an_waits an) s);
                       (case sy_phase s t of
                          Finished omask r status \<Rightarrow>
                            outcome t (leave_227 t omask status (an_int_back an) (an_quit_back an) (an_mask_back an) s)
                        | _ \<Rightarrow> None) })"

definition libc_system_227 ::
    "nat \<Rightarrow> string option \<Rightarrow> answers_227 \<Rightarrow> system_state \<Rightarrow> (int \<times> system_state) option" where
  "libc_system_227 t line an s =
    (case line of
       None \<Rightarrow> map_option (\<lambda>(status, s). (if status = 0 then 1 else 0, s)) (do_system_227 t ''exit 0'' an s)
     | Some line \<Rightarrow> do_system_227 t line an s)"

text \<open>A kernel in which the calls that restore what was saved succeed.\<close>

inductive step_227 :: "system_state \<Rightarrow> system_state \<Rightarrow> bool" where
  enter: "sy_phase s t = Outside \<Longrightarrow> step_227 s (enter_227 t r_int r_quit s)"
| block: "sy_phase s t = Entered \<Longrightarrow> step_227 s (block_227 t r s)"
| spawn: "sy_phase s t = Blocked omask \<Longrightarrow> step_227 s (spawn_227 t line omask ret s)"
| waited: "sy_phase s t = Waiting omask pid \<Longrightarrow> step_227 s (wait_shell t omask w s)"
| leave: "sy_phase s t = Finished omask ret status \<Longrightarrow> step_227 s (leave_227 t omask status None None None s)"

subsection \<open>The shared dispositions\<close>

definition inside :: "system_state \<Rightarrow> nat set" where
  "inside s = {t. sy_phase s t \<noteq> Outside \<and> sy_phase s t \<noteq> Unwinding}"

text \<open>
  \<open>i0\<close> and \<open>q0\<close> are the dispositions of the program. While a thread is inside, both signals are ignored and the
  dispositions are saved; otherwise they are in place.
\<close>

definition shared_ok :: "sigdisp \<Rightarrow> sigdisp \<Rightarrow> system_state \<Rightarrow> bool" where
  "shared_ok i0 q0 s \<longleftrightarrow>
    finite (inside s) \<and> sa_refcntr s = int (card (inside s)) \<and>
    (if inside s = {} then sy_disp s SIGINT = i0 \<and> sy_disp s SIGQUIT = q0
     else sy_disp s SIGINT = SIG_IGN \<and> sy_disp s SIGQUIT = SIG_IGN \<and> sy_intr s = i0 \<and> sy_quit s = q0)"

text \<open>The three kinds of steps: a thread comes in, goes out, or neither.\<close>

definition comes_in :: "system_state \<Rightarrow> system_state \<Rightarrow> bool" where
  "comes_in s s' \<longleftrightarrow> (\<exists>t. t \<notin> inside s \<and> inside s' = insert t (inside s)) \<and>
    sa_refcntr s' = sa_refcntr s + 1 \<and>
    (if sa_refcntr s = 0
     then sy_intr s' = sy_disp s SIGINT \<and> sy_quit s' = sy_disp s SIGQUIT \<and>
       sy_disp s' = (sy_disp s)(SIGINT := SIG_IGN, SIGQUIT := SIG_IGN)
     else sy_intr s' = sy_intr s \<and> sy_quit s' = sy_quit s \<and> sy_disp s' = sy_disp s)"

definition goes_out :: "system_state \<Rightarrow> system_state \<Rightarrow> bool" where
  "goes_out s s' \<longleftrightarrow> (\<exists>t. t \<in> inside s \<and> inside s' = inside s - {t}) \<and>
    sa_refcntr s' = sa_refcntr s - 1 \<and> sy_intr s' = sy_intr s \<and> sy_quit s' = sy_quit s \<and>
    sy_disp s' = (if sa_refcntr s = 1 then (sy_disp s)(SIGINT := sy_intr s, SIGQUIT := sy_quit s) else sy_disp s)"

definition stays_in :: "system_state \<Rightarrow> system_state \<Rightarrow> bool" where
  "stays_in s s' \<longleftrightarrow> inside s' = inside s \<and> sa_refcntr s' = sa_refcntr s \<and> sy_disp s' = sy_disp s \<and>
    (sa_refcntr s \<noteq> 0 \<longrightarrow> sy_intr s' = sy_intr s \<and> sy_quit s' = sy_quit s)"

lemma comes_in_ok: "comes_in s s' \<Longrightarrow> shared_ok i0 q0 s \<Longrightarrow> shared_ok i0 q0 s'"
  by (auto simp: comes_in_def shared_ok_def split: if_splits)

lemma goes_out_ok: "goes_out s s' \<Longrightarrow> shared_ok i0 q0 s \<Longrightarrow> shared_ok i0 q0 s'"
proof -
  assume g: "goes_out s s'" and ok: "shared_ok i0 q0 s"
  obtain t where t: "t \<in> inside s" "inside s' = inside s - {t}" using g unfolding goes_out_def by blast
  have fin: "finite (inside s)" using ok by (simp add: shared_ok_def)
  have c: "card (inside s) = Suc (card (inside s'))" unfolding t(2) by (rule card.remove [OF fin t(1)])
  have ref: "sa_refcntr s = int (card (inside s))" using ok by (simp add: shared_ok_def)
  have busy: "inside s \<noteq> {}" using t(1) by blast
  have s: "sy_disp s SIGINT = SIG_IGN" "sy_disp s SIGQUIT = SIG_IGN" "sy_intr s = i0" "sy_quit s = q0"
    using ok busy by (simp_all add: shared_ok_def)
  have one: "sa_refcntr s = 1 \<longleftrightarrow> inside s' = {}" using fin t(2) by (simp add: ref c)
  have s': "sa_refcntr s' = sa_refcntr s - 1" "sy_intr s' = i0" "sy_quit s' = q0"
    "sy_disp s' = (if inside s' = {} then (sy_disp s)(SIGINT := i0, SIGQUIT := q0) else sy_disp s)"
    using g s(3,4) by (simp_all add: goes_out_def one)
  have fin': "finite (inside s')" using fin t(2) by simp
  show ?thesis
    using fin' ref c s(1,2) by (cases "inside s' = {}") (simp_all add: shared_ok_def s')
qed

lemma stays_in_ok: "stays_in s s' \<Longrightarrow> shared_ok i0 q0 s \<Longrightarrow> shared_ok i0 q0 s'"
  by (auto simp: stays_in_def shared_ok_def split: if_splits)

text \<open>The contract both versions meet, and what follows from it.\<close>

locale shared_dispositions =
  fixes step :: "system_state \<Rightarrow> system_state \<Rightarrow> bool"
  assumes kinds: "step s s' \<Longrightarrow> comes_in s s' \<or> goes_out s s' \<or> stays_in s s'"

sublocale shared_dispositions \<subseteq> disp: invariant_system step "shared_ok i0 q0" for i0 q0
  by unfold_locales (use kinds comes_in_ok goes_out_ok stays_in_ok in blast)

context shared_dispositions begin

lemma dispositions_restored:
  assumes "rtranclp step s s'" "inside s = {}" "sa_refcntr s = 0"
  shows "sa_refcntr s' = int (card (inside s'))"
    "inside s' = {} \<Longrightarrow> sy_disp s' SIGINT = sy_disp s SIGINT \<and> sy_disp s' SIGQUIT = sy_disp s SIGQUIT"
    "inside s' \<noteq> {} \<Longrightarrow> sy_disp s' SIGINT = SIG_IGN \<and> sy_disp s' SIGQUIT = SIG_IGN \<and>
      sy_intr s' = sy_disp s SIGINT \<and> sy_quit s' = sy_disp s SIGQUIT"
proof -
  have "shared_ok (sy_disp s SIGINT) (sy_disp s SIGQUIT) s" using assms(2,3) by (simp add: shared_ok_def)
  from disp.reaches_inv [OF assms(1) this]
  have ok: "shared_ok (sy_disp s SIGINT) (sy_disp s SIGQUIT) s'" .
  then show "sa_refcntr s' = int (card (inside s'))" by (simp add: shared_ok_def)
  show "sy_disp s' SIGINT = sy_disp s SIGINT \<and> sy_disp s' SIGQUIT = sy_disp s SIGQUIT" if "inside s' = {}"
    using ok that by (simp add: shared_ok_def)
  show "sy_disp s' SIGINT = SIG_IGN \<and> sy_disp s' SIGQUIT = SIG_IGN \<and>
      sy_intr s' = sy_disp s SIGINT \<and> sy_quit s' = sy_disp s SIGQUIT" if "inside s' \<noteq> {}"
    using ok that by (simp add: shared_ok_def)
qed

end


subsection \<open>The steps are of these kinds\<close>

lemma inside_simps [simp]:
  "inside (s\<lparr>sy_disp := a\<rparr>) = inside s" "inside (s\<lparr>sy_intr := b\<rparr>) = inside s"
  "inside (s\<lparr>sy_quit := b\<rparr>) = inside s" "inside (s\<lparr>sa_refcntr := c\<rparr>) = inside s"
  "inside (s\<lparr>sy_mask := d\<rparr>) = inside s" "inside (s\<lparr>sy_result := e\<rparr>) = inside s"
  "inside (s\<lparr>sy_errno := f\<rparr>) = inside s" "inside (s\<lparr>sy_children := g\<rparr>) = inside s"
  "inside (s\<lparr>sy_killed := h\<rparr>) = inside s"
  by (simp_all add: inside_def)

lemma inside_set_phase:
  "inside (set_phase t ph s) =
    (if ph = Outside \<or> ph = Unwinding then inside s - {t} else insert t (inside s))"
  by (auto simp: inside_def set_phase_def)

lemmas setter_defs = set_mask_def set_disp_def set_errno_def

lemma set_phase_fields [simp]:
  "sy_disp (set_phase t ph s) = sy_disp s" "sy_intr (set_phase t ph s) = sy_intr s"
  "sy_quit (set_phase t ph s) = sy_quit s" "sa_refcntr (set_phase t ph s) = sa_refcntr s"
  "sy_mask (set_phase t ph s) = sy_mask s" "sy_phase (set_phase t ph s) = (sy_phase s)(t := ph)"
  "sy_children (set_phase t ph s) = sy_children s" "sy_errno (set_phase t ph s) = sy_errno s"
  "sy_result (set_phase t ph s) = sy_result s" "sy_killed (set_phase t ph s) = sy_killed s"
  by (simp_all add: set_phase_def)

lemma returns_fields [simp]:
  "sy_disp (returns t x e s) = sy_disp s" "sy_intr (returns t x e s) = sy_intr s"
  "sy_quit (returns t x e s) = sy_quit s" "sa_refcntr (returns t x e s) = sa_refcntr s"
  "sy_mask (returns t x e s) = sy_mask s" "sy_phase (returns t x e s) = (sy_phase s)(t := Outside)"
  "sy_children (returns t x e s) = sy_children s" "sy_killed (returns t x e s) = sy_killed s"
  "sy_result (returns t x e s) = (sy_result s)(t := Some x)"
  "inside (returns t x e s) = inside s - {t}"
  by (simp_all add: returns_def setter_defs inside_set_phase split: option.split)

lemma in_inside: "t \<in> inside s \<longleftrightarrow> sy_phase s t \<noteq> Outside \<and> sy_phase s t \<noteq> Unwinding"
  by (simp add: inside_def)

lemma enter_232_comes_in: "sy_phase s t = Outside \<Longrightarrow> comes_in s (enter_232 t s)"
  by (auto simp: comes_in_def enter_232_def Let_def inside_set_phase setter_defs in_inside)

lemma block_stays_in: "sy_phase s t = Entered \<Longrightarrow> stays_in s (block_sigchld t s)"
  by (auto simp: stays_in_def block_sigchld_def Let_def inside_set_phase setter_defs in_inside)

lemma spawn_232_stays_in: "sy_phase s t = Blocked om \<Longrightarrow> stays_in s (spawn_232 t line omask ret s)"
  by (auto simp: stays_in_def spawn_232_def Let_def inside_set_phase in_inside split: sum.split)

lemma wait_stays_in: "sy_phase s t = Waiting om pid \<Longrightarrow> stays_in s (wait_shell t omask w s)"
  by (auto simp: stays_in_def wait_shell_def Let_def inside_set_phase setter_defs in_inside split: sum.split)

lemma leave_232_goes_out: "sy_phase s t = Finished om r st \<Longrightarrow> goes_out s (leave_232 t omask ret status s)"
  unfolding goes_out_def
  by (intro conjI exI [of _ t]) (simp_all add: leave_232_def Let_def setter_defs in_inside fun_upd_twist)

lemma cancel_goes_out: "sy_phase s t = Waiting om pid \<Longrightarrow> goes_out s (cancel_handler t pid s)"
  unfolding goes_out_def
  by (intro conjI exI [of _ t]) (simp_all add: cancel_handler_def Let_def setter_defs in_inside inside_set_phase fun_upd_twist)

lemma spawn_227_stays_in: "sy_phase s t = Blocked om \<Longrightarrow> stays_in s (spawn_227 t line omask ret s)"
  by (auto simp: stays_in_def spawn_227_def Let_def inside_set_phase setter_defs in_inside split: sum.split)

lemma leave_227_goes_out:
  "sy_phase s t = Finished om r st \<Longrightarrow> goes_out s (leave_227 t omask status None None r_mask s)"
  unfolding goes_out_def
  by (intro conjI exI [of _ t]) (simp_all add: leave_227_def Let_def setter_defs in_inside)

lemma enter_227_kind:
  assumes "sy_phase s t = Outside"
  shows "comes_in s (enter_227 t a b s) \<or> goes_out s (enter_227 t a b s) \<or> stays_in s (enter_227 t a b s)"
proof (cases "sa_refcntr s \<noteq> 0 \<or> a = None \<and> b = None")
  case True
  moreover have "t \<notin> inside s" using assms by (simp add: in_inside)
  ultimately have "comes_in s (enter_227 t a b s)"
    unfolding comes_in_def
    by (intro conjI exI [of _ t]) (auto simp: enter_227_def Let_def inside_set_phase setter_defs)
  then show ?thesis ..
next
  case False
  moreover have "inside s - {t} = inside s" using assms by (simp add: in_inside)
  ultimately have "stays_in s (enter_227 t a b s)"
    by (cases a; cases b) (simp_all add: stays_in_def enter_227_def Let_def inside_set_phase setter_defs fun_upd_idem_iff)
  then show ?thesis by blast
qed

lemma block_227_kind:
  assumes "sy_phase s t = Entered"
  shows "comes_in s (block_227 t r s) \<or> goes_out s (block_227 t r s) \<or> stays_in s (block_227 t r s)"
proof (cases r)
  case None
  then show ?thesis using block_stays_in [OF assms] by (simp add: block_227_def)
next
  case (Some e)
  have "goes_out s (block_227 t r s)"
    unfolding goes_out_def
    by (intro conjI exI [of _ t])
      (simp_all add: assms Some block_227_def Let_def setter_defs in_inside fun_upd_twist)
  then show ?thesis by blast
qed

interpretation v232: shared_dispositions step_232
proof unfold_locales
  fix s s' assume "step_232 s s'"
  then show "comes_in s s' \<or> goes_out s s' \<or> stays_in s s'"
    by cases (simp_all add: enter_232_comes_in block_stays_in spawn_232_stays_in wait_stays_in
        leave_232_goes_out cancel_goes_out)
qed

interpretation v227: shared_dispositions step_227
proof unfold_locales
  fix s s' assume "step_227 s s'"
  then show "comes_in s s' \<or> goes_out s s' \<or> stays_in s s'"
    by cases (simp_all add: enter_227_kind block_227_kind spawn_227_stays_in wait_stays_in
        leave_227_goes_out)
qed


subsection \<open>The signal mask\<close>

fun mask_ok :: "signo set \<Rightarrow> phase \<Rightarrow> signo set \<Rightarrow> bool" where
  "mask_ok m Outside cur = (cur = m)"
| "mask_ok m Entered cur = (cur = m)"
| "mask_ok m (Blocked om) cur = (om = m \<and> cur = insert SIGCHLD m)"
| "mask_ok m (Waiting om pid) cur = (om = m \<and> cur = insert SIGCHLD m)"
| "mask_ok m (Finished om r status) cur = (om = m \<and> cur = insert SIGCHLD m)"
| "mask_ok m Unwinding cur = False"

definition masks_ok :: "(nat \<Rightarrow> signo set) \<Rightarrow> system_state \<Rightarrow> bool" where
  "masks_ok m0 s \<longleftrightarrow> (\<forall>t. mask_ok (m0 t) (sy_phase s t) (sy_mask s t))"

lemma masks_ok_change:
  assumes "masks_ok m0 s" "\<And>u. u \<noteq> t \<Longrightarrow> sy_phase s' u = sy_phase s u \<and> sy_mask s' u = sy_mask s u"
    "mask_ok (m0 t) (sy_phase s' t) (sy_mask s' t)"
  shows "masks_ok m0 s'"
  using assms unfolding masks_ok_def by metis

lemma masks_ok_at: "masks_ok m0 s \<Longrightarrow> mask_ok (m0 t) (sy_phase s t) (sy_mask s t)"
  by (simp add: masks_ok_def)

lemma step_227_masks_ok:
  assumes "step_227 s s'" "masks_ok m0 s"
  shows "masks_ok m0 s'"
  using assms(1)
proof cases
  case (enter t a b)
  then show ?thesis
    using masks_ok_at [OF assms(2), of t]
    by (intro masks_ok_change [OF assms(2), of t])
      (simp_all add: enter_227_def Let_def setter_defs)
next
  case (block t r)
  then show ?thesis
    using masks_ok_at [OF assms(2), of t]
    by (intro masks_ok_change [OF assms(2), of t])
      (simp_all add: block_227_def block_sigchld_def Let_def setter_defs split: option.split)
next
  case (spawn t om line ret)
  then show ?thesis
    using masks_ok_at [OF assms(2), of t]
    by (intro masks_ok_change [OF assms(2), of t])
      (simp_all add: spawn_227_def Let_def setter_defs split: sum.split)
next
  case (waited t om pid w)
  then show ?thesis
    using masks_ok_at [OF assms(2), of t]
    by (intro masks_ok_change [OF assms(2), of t])
      (simp_all add: wait_shell_def Let_def setter_defs split: sum.split)
next
  case (leave t om r x)
  then show ?thesis
    using masks_ok_at [OF assms(2), of t]
    by (intro masks_ok_change [OF assms(2), of t])
      (simp_all add: leave_227_def Let_def setter_defs)
qed

interpretation mask_227: invariant_system step_227 "masks_ok m0" for m0
  by unfold_locales (rule step_227_masks_ok)

subsection \<open>The child\<close>

lemma spawn_same_child:
  assumes "shared_ok i0 q0 s" "t \<in> inside s"
  shows "spawn_232 t line om (Inr pid) s = spawn_227 t line om (Inr pid) s"
proof -
  have "sy_disp s SIGINT = SIG_IGN" "sy_disp s SIGQUIT = SIG_IGN"
    using assms by (auto simp: shared_ok_def split: if_splits)
  then show ?thesis
    by (simp add: spawn_232_def spawn_227_def Let_def exec_disp_def fun_eq_iff)
qed

subsection \<open>A call on its own\<close>

lemma wait_retry_run:
  assumes "wait_retry t om ws s = Some s'" "sy_phase s t = Waiting om pid"
  shows "rtranclp step_232 s s' \<and> rtranclp step_227 s s' \<and> (\<exists>x. sy_phase s' t = Finished om None x)"
  using assms
proof (induction t om ws s rule: wait_retry.induct)
  case (2 t om w ws s)
  have st: "step_232 s (wait_shell t om w s)" "step_227 s (wait_shell t om w s)"
    using 2(3) by (auto intro: step_232.waited step_227.waited)
  show ?case
  proof (cases "w = Inl EINTR")
    case True
    then have "sy_phase (wait_shell t om w s) t = Waiting om pid"
      using 2(3) by (simp add: wait_shell_def setter_defs)
    then show ?thesis using 2 True st by (auto intro: converse_rtranclp_into_rtranclp)
  next
    case False
    then show ?thesis using 2(2) st
      by (auto simp: wait_shell_def Let_def split: sum.splits)
  qed
qed simp

lemma wait_retry_fields:
  "wait_retry t om ws s = Some s' \<Longrightarrow> sy_disp s' = sy_disp s \<and> sy_intr s' = sy_intr s \<and>
    sy_quit s' = sy_quit s \<and> sa_refcntr s' = sa_refcntr s \<and> sy_mask s' = sy_mask s \<and>
    sy_children s' = sy_children s \<and> sy_killed s' = sy_killed s"
  by (induction t om ws s rule: wait_retry.induct)
    (auto simp: wait_shell_def Let_def setter_defs split: sum.splits if_splits)


lemma spawn_232_child:
  assumes "sy_disp s = d(SIGINT := SIG_IGN, SIGQUIT := SIG_IGN)" "sy_intr s = d SIGINT" "sy_quit s = d SIGQUIT"
  shows "sy_children (spawn_232 t line om ret s) = (case ret of Inl _ \<Rightarrow> sy_children s
      | Inr pid \<Rightarrow> \<lparr>sc_pid = pid, sc_args = shell_args line, sc_mask = om, sc_disp = exec_disp d\<rparr> # sy_children s)"
  by (simp add: spawn_232_def Let_def assms exec_disp_def fun_eq_iff split: sum.split)

lemma spawn_232_frame:
  "sy_disp (spawn_232 t line om ret s) = sy_disp s" "sy_intr (spawn_232 t line om ret s) = sy_intr s"
  "sy_quit (spawn_232 t line om ret s) = sy_quit s" "sa_refcntr (spawn_232 t line om ret s) = sa_refcntr s"
  "sy_mask (spawn_232 t line om ret s) = sy_mask s"
  by (simp_all add: spawn_232_def Let_def split: sum.split)

text \<open>The state between \<open>posix_spawn\<close> and the lock at the end.\<close>

definition begun_232 :: "nat \<Rightarrow> string \<Rightarrow> errno + int \<Rightarrow> system_state \<Rightarrow> system_state" where
  "begun_232 t line ret s =
    (let s' = block_sigchld t (enter_232 t s) in spawn_232 t line (sy_mask s t) ret s')"

lemma enter_232_mask [simp]: "sy_mask (enter_232 t s) = sy_mask s" "sy_phase (enter_232 t s) t = Entered"
  "sy_children (enter_232 t s) = sy_children s"
  by (simp_all add: enter_232_def Let_def setter_defs)

lemma do_system_232_begun:
  "do_system_232 t line ret ws s =
    (let s' = begun_232 t line ret s; om = sy_mask s t
     in case ret of
          Inl e \<Rightarrow> Some (- 1, leave_232 t om (Some e) (- 1) s')
        | Inr pid \<Rightarrow>
            do { s' \<leftarrow> wait_retry t om ws s';
                 (case sy_phase s' t of
                    Finished omask r status \<Rightarrow> Some (status, leave_232 t omask r status s')
                  | _ \<Rightarrow> None) })"
  by (simp add: do_system_232_def begun_232_def Let_def split: sum.split)

lemma begun_232_run:
  assumes "sy_phase s t = Outside"
  shows "rtranclp step_232 s (begun_232 t line ret s)"
proof -
  let ?a = "enter_232 t s"
  let ?b = "block_sigchld t ?a"
  have a: "step_232 s ?a" using assms by (rule step_232.enter)
  have b: "step_232 ?a ?b" by (rule step_232.block) simp
  have c: "step_232 ?b (begun_232 t line ret s)"
    unfolding begun_232_def Let_def
    by (rule step_232.spawn) (simp add: block_sigchld_def Let_def setter_defs)
  have "rtranclp step_232 s ?b"
    using r_into_rtranclp [where r = step_232, OF a] b by (rule rtranclp.rtrancl_into_rtrancl)
  then show ?thesis using c by (rule rtranclp.rtrancl_into_rtrancl)
qed

lemma begun_232_phase:
  "sy_phase (begun_232 t line ret s) t =
    (case ret of Inl e \<Rightarrow> Finished (sy_mask s t) (Some e) (- 1) | Inr pid \<Rightarrow> Waiting (sy_mask s t) pid)"
  by (simp add: begun_232_def spawn_232_def Let_def split: sum.split)

lemma begun_232_alone:
  assumes "sa_refcntr s = 0"
    and s'_def: "s' = begun_232 t line ret s"
  shows "sa_refcntr s' = 1" "sy_intr s' = sy_disp s SIGINT" "sy_quit s' = sy_disp s SIGQUIT"
    "sy_disp s' = (sy_disp s)(SIGINT := SIG_IGN, SIGQUIT := SIG_IGN)"
    "sy_mask s' = (sy_mask s)(t := insert SIGCHLD (sy_mask s t))"
    "sy_children s' = (case ret of Inl _ \<Rightarrow> sy_children s
      | Inr pid \<Rightarrow> \<lparr>sc_pid = pid, sc_args = shell_args line, sc_mask = sy_mask s t,
          sc_disp = exec_disp (sy_disp s)\<rparr> # sy_children s)"
proof -
  let ?b = "block_sigchld t (enter_232 t s)"
  have b: "sa_refcntr ?b = 1" "sy_intr ?b = sy_disp s SIGINT" "sy_quit ?b = sy_disp s SIGQUIT"
    "sy_disp ?b = (sy_disp s)(SIGINT := SIG_IGN, SIGQUIT := SIG_IGN)"
    "sy_mask ?b = (sy_mask s)(t := insert SIGCHLD (sy_mask s t))" "sy_children ?b = sy_children s"
    using assms(1) by (simp_all add: block_sigchld_def enter_232_def Let_def setter_defs)
  show "sa_refcntr s' = 1" "sy_intr s' = sy_disp s SIGINT" "sy_quit s' = sy_disp s SIGQUIT"
    "sy_disp s' = (sy_disp s)(SIGINT := SIG_IGN, SIGQUIT := SIG_IGN)"
    "sy_mask s' = (sy_mask s)(t := insert SIGCHLD (sy_mask s t))"
    by (simp_all only: s'_def begun_232_def Let_def spawn_232_frame b)
  show "sy_children s' = (case ret of Inl _ \<Rightarrow> sy_children s
      | Inr pid \<Rightarrow> \<lparr>sc_pid = pid, sc_args = shell_args line, sc_mask = sy_mask s t,
          sc_disp = exec_disp (sy_disp s)\<rparr> # sy_children s)"
    unfolding s'_def begun_232_def Let_def spawn_232_child [OF b(4,2,3)] b(6) by (rule refl)
qed

text \<open>A successful or failed call, once the shell is reaped.\<close>

lemma do_system_232_cases:
  assumes "do_system_232 t line ret ws s = Some (status, s')"
  obtains e where "ret = Inl e" "status = - 1"
      "s' = leave_232 t (sy_mask s t) (Some e) (- 1) (begun_232 t line ret s)"
    | pid w where "ret = Inr pid" "wait_retry t (sy_mask s t) ws (begun_232 t line ret s) = Some w"
      "sy_phase w t = Finished (sy_mask s t) None status"
      "s' = leave_232 t (sy_mask s t) None status w"
proof (cases ret)
  case (Inl e)
  show ?thesis
    using assms by (intro that(1) [OF Inl]) (auto simp: do_system_232_begun Let_def Inl)
next
  case (Inr pid)
  then obtain w where w: "wait_retry t (sy_mask s t) ws (begun_232 t line ret s) = Some w"
    using assms by (auto simp: do_system_232_begun Let_def split: bind_splits)
  obtain x where x: "sy_phase w t = Finished (sy_mask s t) None x"
    using wait_retry_run [OF w, of pid] by (auto simp: begun_232_phase Inr)
  show ?thesis
    using assms w x by (intro that(2) [OF Inr w]) (auto simp: do_system_232_begun Let_def Inr)
qed

lemma do_system_232_run:
  assumes call: "do_system_232 t line ret ws s = Some (status, s')" and out: "sy_phase s t = Outside"
  shows "rtranclp step_232 s s' \<and> sy_phase s' t = Outside \<and> sy_result s' t = Some status"
  using call
proof (cases rule: do_system_232_cases)
  case (1 e)
  have "step_232 (begun_232 t line ret s) s'"
    unfolding 1(3) by (rule step_232.leave) (simp add: begun_232_phase 1(1))
  then show ?thesis
    using begun_232_run [OF out, of line ret] 1
    by (auto simp: leave_232_def Let_def setter_defs)
next
  case (2 pid w)
  have "step_232 w s'" unfolding 2(4) by (rule step_232.leave) (rule 2(3))
  moreover have "rtranclp step_232 (begun_232 t line ret s) w"
    using wait_retry_run [OF 2(2), of pid] by (simp add: begun_232_phase 2(1))
  ultimately show ?thesis
    using begun_232_run [OF out, of line ret] 2(4)
    by (auto simp: leave_232_def Let_def setter_defs)
qed

lemma leave_232_last:
  "sa_refcntr s = 1 \<Longrightarrow>
    sy_disp (leave_232 t om r x s) = (sy_disp s)(SIGINT := sy_intr s, SIGQUIT := sy_quit s) \<and>
    sy_mask (leave_232 t om r x s) = (sy_mask s)(t := om) \<and> sa_refcntr (leave_232 t om r x s) = 0 \<and>
    sy_children (leave_232 t om r x s) = sy_children s"
  by (simp add: leave_232_def Let_def setter_defs)

lemma do_system_232_alone:
  assumes call: "do_system_232 t line ret ws s = Some (status, s')" and idle: "sa_refcntr s = 0"
  shows "sy_disp s' = sy_disp s \<and> sy_mask s' = sy_mask s \<and> sa_refcntr s' = 0 \<and>
    sy_children s' = (case ret of Inl _ \<Rightarrow> sy_children s
      | Inr pid \<Rightarrow> \<lparr>sc_pid = pid, sc_args = shell_args line, sc_mask = sy_mask s t,
          sc_disp = exec_disp (sy_disp s)\<rparr> # sy_children s)"
  using call
proof (cases rule: do_system_232_cases)
  case (1 e)
  then show ?thesis
    using leave_232_last [of "begun_232 t line ret s" t "sy_mask s t" "Some e" "- 1"] begun_232_alone [OF idle refl, of t line ret]
    by (simp add: fun_upd_idem_iff fun_upd_twist)
next
  case (2 pid w)
  then show ?thesis
    using leave_232_last [of w t "sy_mask s t" None status] begun_232_alone [OF idle refl, of t line ret]
      wait_retry_fields [OF 2(2)]
    by (simp add: fun_upd_idem_iff fun_upd_twist)
qed

lemma wait_retry_returns:
  "w \<noteq> Inl EINTR \<Longrightarrow> \<exists>s'. wait_retry t om (replicate n (Inl EINTR) @ w # ws) s = Some s'"
  by (induction n arbitrary: s) (simp_all add: Let_def)

lemma do_system_232_returns:
  assumes "w \<noteq> Inl EINTR"
  shows "\<exists>status s'. do_system_232 t line ret (replicate n (Inl EINTR) @ w # ws) s = Some (status, s')"
proof (cases ret)
  case (Inl e)
  then show ?thesis by (simp add: do_system_232_begun Let_def)
next
  case (Inr pid)
  obtain s' where s': "wait_retry t (sy_mask s t) (replicate n (Inl EINTR) @ w # ws) (begun_232 t line ret s) = Some s'"
    using wait_retry_returns [OF assms] by blast
  then obtain x where "sy_phase s' t = Finished (sy_mask s t) None x"
    using wait_retry_run [OF s', of pid] by (auto simp: begun_232_phase Inr)
  then show ?thesis using s' by (simp add: do_system_232_begun Let_def Inr)
qed


subsection \<open>The versions agree on a call on its own\<close>

definition all_succeed :: "errno + int \<Rightarrow> (errno + int) list \<Rightarrow> answers_227" where
  "all_succeed ret ws =
    \<lparr>an_int = None, an_quit = None, an_block = None, an_fork = ret, an_waits = ws,
     an_int_back = None, an_quit_back = None, an_mask_back = None\<rparr>"

lemma all_succeed_fields [simp]:
  "an_int (all_succeed ret ws) = None" "an_quit (all_succeed ret ws) = None"
  "an_block (all_succeed ret ws) = None" "an_fork (all_succeed ret ws) = ret"
  "an_waits (all_succeed ret ws) = ws" "an_int_back (all_succeed ret ws) = None"
  "an_quit_back (all_succeed ret ws) = None" "an_mask_back (all_succeed ret ws) = None"
  by (simp_all add: all_succeed_def)

lemma enter_same: "enter_227 t None None s = enter_232 t s"
  by (simp add: enter_227_def enter_232_def Let_def)

lemma leave_same: "sa_refcntr s = 1 \<Longrightarrow> leave_227 t om x None None None s = leave_232 t om None x s"
  by (simp add: leave_227_def leave_232_def Let_def setter_defs)

lemma leave_same_error:
  "sa_refcntr s = 1 \<Longrightarrow> leave_227 t om x None None None (set_phase t ph (set_errno t e s)) = leave_232 t om (Some e) x (set_phase t ph s)"
  by (simp add: leave_227_def leave_232_def Let_def setter_defs returns_def set_phase_def)

lemma do_system_same:
  assumes idle: "sa_refcntr s = 0" and out: "sy_phase s t = Outside"
  shows "do_system_227 t line (all_succeed ret ws) s = do_system_232 t line ret ws s"
proof -
  let ?b = "block_sigchld t (enter_232 t s)"
  have b: "sy_phase ?b t = Blocked (sy_mask s t)" "sa_refcntr ?b = 1"
    "sy_disp ?b = (sy_disp s)(SIGINT := SIG_IGN, SIGQUIT := SIG_IGN)"
    using idle by (simp_all add: block_sigchld_def enter_232_def Let_def setter_defs)
  have same: "do_system_227 t line (all_succeed ret ws) s =
    do { s' \<leftarrow> (case ret of Inl _ \<Rightarrow> Some (spawn_227 t line (sy_mask s t) ret ?b)
          | Inr _ \<Rightarrow> wait_retry t (sy_mask s t) ws (spawn_227 t line (sy_mask s t) ret ?b));
       (case sy_phase s' t of
          Finished omask r status \<Rightarrow> outcome t (leave_227 t omask status None None None s') | _ \<Rightarrow> None) }"
    unfolding do_system_227_def all_succeed_fields enter_same
    by (simp add: block_227_def Let_def b(1))
  show ?thesis
  proof (cases ret)
    case (Inl e)
    have "begun_232 t line ret s = set_phase t (Finished (sy_mask s t) (Some e) (- 1)) ?b"
      by (simp add: begun_232_def spawn_232_def Let_def Inl)
    then show ?thesis
      using b(2) unfolding same do_system_232_begun
      by (simp add: spawn_227_def Inl Let_def leave_same_error outcome_def)
        (simp add: leave_232_def returns_def set_phase_def setter_defs Let_def)
  next
    case (Inr pid)
    have spawn: "spawn_227 t line (sy_mask s t) ret ?b = begun_232 t line ret s"
      by (simp add: begun_232_def spawn_227_def spawn_232_def Let_def Inr b(3) exec_disp_def fun_eq_iff)
    show ?thesis
    proof (cases "wait_retry t (sy_mask s t) ws (begun_232 t line ret s)")
      case None
      then show ?thesis unfolding same spawn do_system_232_begun by (simp add: Inr Let_def)
    next
      case (Some w)
      obtain x where x: "sy_phase w t = Finished (sy_mask s t) None x"
        using wait_retry_run [OF Some, of pid] by (auto simp: begun_232_phase Inr)
      have "sa_refcntr w = 1"
        using wait_retry_fields [OF Some] begun_232_alone(1) [OF idle refl] by simp
      then show ?thesis
        using Some x unfolding same spawn do_system_232_begun
        by (simp add: Inr Let_def outcome_def leave_same) (simp add: leave_232_def Let_def)
    qed
  qed
qed

subsection \<open>The mask of a thread that is not the last\<close>

text \<open>
  Two calls of version 2.32 overlap: the thread that comes back first keeps \<open>SIGCHLD\<close> blocked.
\<close>

lemma mask_leaks_232:
  assumes out: "\<forall>v. sy_phase s v = Outside" and idle: "sa_refcntr s = 0" and "t \<noteq> u"
  shows "\<exists>s'. rtranclp step_232 s s' \<and> (\<forall>v. sy_phase s' v = Outside) \<and> sa_refcntr s' = 0 \<and>
    sy_result s' t = Some 0 \<and> sy_mask s' t = insert SIGCHLD (sy_mask s t)"
proof -
  define a where "a = begun_232 t [] (Inr 1) s"
  define b where "b = wait_shell t (sy_mask s t) (Inr 0) a"
  define c where "c = enter_232 u b"
  define d where "d = leave_232 t (sy_mask s t) None 0 c"
  define e where "e = block_sigchld u d"
  define f where "f = spawn_232 u [] (sy_mask s u) (Inl EAGAIN) e"
  define g where "g = leave_232 u (sy_mask s u) (Some EAGAIN) (- 1) f"
  have A: "sa_refcntr a = 1" "sy_mask a = (sy_mask s)(t := insert SIGCHLD (sy_mask s t))"
    using begun_232_alone [OF idle refl] by (simp_all add: a_def)
  have pa: "sy_phase a = (\<lambda>v. if v = t then Waiting (sy_mask s t) 1 else Outside)"
    using out by (simp add: a_def begun_232_def spawn_232_def block_sigchld_def enter_232_def Let_def setter_defs fun_eq_iff)
  have B: "sa_refcntr b = 1" "sy_mask b = sy_mask a"
    "sy_phase b = (\<lambda>v. if v = t then Finished (sy_mask s t) None 0 else Outside)"
    by (simp_all add: b_def wait_shell_def A(1) pa fun_eq_iff)
  have C: "sa_refcntr c = 2" "sy_mask c = sy_mask a"
    "sy_phase c = (\<lambda>v. if v = t then Finished (sy_mask s t) None 0 else if v = u then Entered else Outside)"
    using \<open>t \<noteq> u\<close> by (simp_all add: c_def enter_232_def Let_def B fun_eq_iff)
  have D: "sa_refcntr d = 1" "sy_mask d = sy_mask a" "sy_result d t = Some 0"
    "sy_phase d = (\<lambda>v. if v = u then Entered else Outside)"
    using \<open>t \<noteq> u\<close> by (simp_all add: d_def leave_232_def Let_def C fun_eq_iff)
  have mu: "sy_mask d u = sy_mask s u" using \<open>t \<noteq> u\<close> by (simp add: D A)
  have E: "sa_refcntr e = 1" "sy_mask e t = insert SIGCHLD (sy_mask s t)" "sy_result e t = Some 0"
    "sy_phase e = (\<lambda>v. if v = u then Blocked (sy_mask s u) else Outside)"
    using \<open>t \<noteq> u\<close> by (simp_all add: e_def block_sigchld_def Let_def setter_defs D A mu fun_eq_iff)
  have F: "sa_refcntr f = 1" "sy_mask f t = insert SIGCHLD (sy_mask s t)" "sy_result f t = Some 0"
    "sy_phase f = (\<lambda>v. if v = u then Finished (sy_mask s u) (Some EAGAIN) (- 1) else Outside)"
    using \<open>t \<noteq> u\<close> by (simp_all add: f_def spawn_232_def Let_def E fun_eq_iff)
  have G: "sa_refcntr g = 0" "sy_mask g t = insert SIGCHLD (sy_mask s t)" "sy_result g t = Some 0"
    "\<forall>v. sy_phase g v = Outside"
    using \<open>t \<noteq> u\<close> by (simp_all add: g_def leave_232_def Let_def setter_defs F)
  have ab: "step_232 a b" unfolding b_def by (rule step_232.waited) (simp add: pa)
  have bc: "step_232 b c" unfolding c_def using \<open>t \<noteq> u\<close> by (intro step_232.enter) (simp add: B)
  have cd: "step_232 c d" unfolding d_def by (rule step_232.leave) (simp add: C)
  have de: "step_232 d e" unfolding e_def by (rule step_232.block) (simp add: D)
  have ef: "step_232 e f" unfolding f_def by (rule step_232.spawn) (simp add: E)
  have fg: "step_232 f g" unfolding g_def by (rule step_232.leave) (simp add: F)
  have "rtranclp step_232 s a" using begun_232_run out by (simp add: a_def)
  then have "rtranclp step_232 s g"
    using ab bc cd de ef fg by (auto intro: rtranclp.rtrancl_into_rtrancl)
  then show ?thesis using G by blast
qed

end
