(* ===== verification/Glibc_Popen.thy ===== *)
theory Glibc_Popen
  imports Spawn_Contract
begin

text \<open>
  \<open>popen\<close> and \<open>pclose\<close> of glibc (\<open>StartProcess/code/glibc-2.32/iopopen.c\<close>, which uses \<open>posix_spawn\<close>, and
  \<open>glibc-2.27/iopopen.c\<close>, which forks). A process is the one of \<open>Spawn_Fds\<close>; a stream is the part of
  \<open>struct _IO_proc_file\<close> these functions use, at an address of the heap; \<open>proc_file_chain\<close> is the list
  of the addresses along \<open>next\<close>. \<open>posix_spawn\<close> and its file actions are those of \<open>Spawn_Fds\<close>, which
  \<open>gspawn.c\<close> relies on too.
\<close>

subsection \<open>State\<close>

record stream =
  st_fileno :: int
  st_no_reads :: bool
  st_no_writes :: bool
  st_pid :: int

record popen_state =
  ps_proc :: proc
  ps_heap :: "nat \<Rightarrow> stream option"
  ps_chain :: "nat list"
  ps_errno :: "errno option"

definition set_popen_errno :: "errno \<Rightarrow> popen_state \<Rightarrow> popen_state" where
  "set_popen_errno e s = s\<lparr>ps_errno := Some e\<rparr>"

definition on_stream :: "nat \<Rightarrow> (stream \<Rightarrow> stream) \<Rightarrow> popen_state \<Rightarrow> popen_state" where
  "on_stream fp g s = s\<lparr>ps_heap := (ps_heap s)(fp := map_option g (ps_heap s fp))\<rparr>"

definition io_fileno :: "popen_state \<Rightarrow> nat \<Rightarrow> int" where
  "io_fileno s fp = (case ps_heap s fp of None \<Rightarrow> - 1 | Some st \<Rightarrow> st_fileno st)"

subsection \<open>System calls\<close>

definition sys_pipe2 :: "bool \<Rightarrow> proc \<Rightarrow> (errno + int \<times> int) \<times> proc" where
  "sys_pipe2 cloexec p =
    (case next_fault p of
       (Some e, p) \<Rightarrow> (Inl e, p)
     | (None, p) \<Rightarrow>
         (case lowest_fd p of
            None \<Rightarrow> (Inl EMFILE, p)
          | Some a \<Rightarrow>
              (let q = p\<lparr>fds := (fds p)(a \<mapsto> (Pipe_Read (next_pipe p), cloexec))\<rparr>
               in case lowest_fd q of
                    None \<Rightarrow> (Inl EMFILE, p)
                  | Some b \<Rightarrow>
                      (Inr (a, b),
                       q\<lparr>fds := (fds q)(b \<mapsto> (Pipe_Write (next_pipe p), cloexec)), next_pipe := next_pipe p + 1,
                         pipe_data := (pipe_data q)(next_pipe p := [])\<rparr>))))"

text \<open>\<open>fcntl (fd, F_DUPFD_CLOEXEC, 0)\<close> and \<open>fcntl (fd, F_SETFD, 0)\<close>.\<close>

definition sys_dupfd_cloexec :: "int \<Rightarrow> proc \<Rightarrow> (errno + int) \<times> proc" where
  "sys_dupfd_cloexec fd p =
    (case next_fault p of
       (Some e, p) \<Rightarrow> (Inl e, p)
     | (None, p) \<Rightarrow>
         (case fds p fd of
            None \<Rightarrow> (Inl EBADF, p)
          | Some (f, _) \<Rightarrow>
              (case lowest_fd p of
                 None \<Rightarrow> (Inl EMFILE, p)
               | Some tmp \<Rightarrow> (Inr tmp, p\<lparr>fds := (fds p)(tmp \<mapsto> (f, True))\<rparr>))))"

definition clear_cloexec :: "int \<Rightarrow> proc \<Rightarrow> proc" where
  "clear_cloexec fd p =
    (case fds p fd of None \<Rightarrow> p | Some (f, _) \<Rightarrow> p\<lparr>fds := (fds p)(fd \<mapsto> (f, False))\<rparr>)"

text \<open>On Linux the descriptor is gone even where \<open>close\<close> reports an error.\<close>

definition sys_close :: "int \<Rightarrow> proc \<Rightarrow> errno option \<times> proc" where
  "sys_close fd p =
    (case fds p fd of
       None \<Rightarrow> (Some EBADF, p)
     | Some _ \<Rightarrow> (case next_fault p of (f, p) \<Rightarrow> (f, close_fd fd p)))"

definition close_nocancel :: "int \<Rightarrow> proc \<Rightarrow> proc" where
  "close_nocancel fd p = snd (sys_close fd p)"

subsection \<open>The mode\<close>

fun scan_mode :: "string \<Rightarrow> bool \<times> bool \<times> bool \<Rightarrow> (bool \<times> bool \<times> bool) option" where
  "scan_mode [] m = Some m"
| "scan_mode (c # cs) (do_read, do_write, do_cloexec) =
    (if c = CHR ''r'' then scan_mode cs (True, do_write, do_cloexec)
     else if c = CHR ''w'' then scan_mode cs (do_read, True, do_cloexec)
     else if c = CHR ''e'' then scan_mode cs (do_read, do_write, True)
     else None)"

text \<open>\<open>do_read\<close> and \<open>do_cloexec\<close>, or \<open>None\<close> for the label \<open>errout\<close>.\<close>

definition popen_mode :: "string \<Rightarrow> (bool \<times> bool) option" where
  "popen_mode mode =
    (case scan_mode mode (False, False, False) of
       None \<Rightarrow> None
     | Some (do_read, do_write, do_cloexec) \<Rightarrow>
         if do_read = do_write then None else Some (do_read, do_cloexec))"

definition sh_args :: "string \<Rightarrow> string list" where
  "sh_args command = [''sh'', ''-c'', command]"

subsection \<open>Version 2.32\<close>

text \<open>The loop that adds a close action for every stream in the chain; \<open>None\<close> where a call fails.\<close>

fun add_closes :: "int \<Rightarrow> int list \<Rightarrow> file_action list \<Rightarrow> proc \<Rightarrow> file_action list option \<times> proc" where
  "add_closes child_pipe_fd [] fa p = (Some fa, p)"
| "add_closes child_pipe_fd (fd # l) fa p =
    (if fd = child_pipe_fd then add_closes child_pipe_fd l fa p
     else case next_fault p of
            (Some e, p) \<Rightarrow> (None, p)
          | (None, p) \<Rightarrow> add_closes child_pipe_fd l (fa @ [Close fd]) p)"

definition spawn_process ::
    "spawn_os \<Rightarrow> file_action list \<Rightarrow> nat \<Rightarrow> string \<Rightarrow> bool \<Rightarrow> int list \<Rightarrow> nat \<Rightarrow> nat \<Rightarrow> int
      \<Rightarrow> popen_state \<Rightarrow> bool \<times> popen_state" where
  "spawn_process os fa fp command do_cloexec pipe_fds parent_end child_end child_pipe_fd s =
    (case add_closes child_pipe_fd (map (io_fileno s) (ps_chain s)) fa (ps_proc s) of
       (None, p) \<Rightarrow> (False, s\<lparr>ps_proc := p\<rparr>)
     | (Some fa, p) \<Rightarrow>
         (case spawn_child os False bin_sh fa {} (sh_args command) None p of
            Inl e \<Rightarrow> (False, s\<lparr>ps_proc := p\<rparr>)
          | Inr (pid, p) \<Rightarrow>
              (let s = on_stream fp (\<lambda>st. st\<lparr>st_pid := pid\<rparr>) s;
                   p = close_nocancel (pipe_fds ! child_end) p;
                   p = (if do_cloexec then p else clear_cloexec (pipe_fds ! parent_end) p);
                   s = on_stream fp (\<lambda>st. st\<lparr>st_fileno := pipe_fds ! parent_end\<rparr>) s
               in (True, s\<lparr>ps_proc := p, ps_chain := fp # ps_chain s\<rparr>))))"

text \<open>The label \<open>spawn_failure\<close>.\<close>

definition spawn_failure :: "int list \<Rightarrow> nat \<Rightarrow> nat \<Rightarrow> popen_state \<Rightarrow> popen_state" where
  "spawn_failure pipe_fds parent_end child_end s =
    set_popen_errno ENOMEM
      (s\<lparr>ps_proc := close_nocancel (pipe_fds ! parent_end) (close_nocancel (pipe_fds ! child_end) (ps_proc s))\<rparr>)"

text \<open>The descriptor is moved where it already is the one the child will use.\<close>

definition move_child_end :: "int list \<Rightarrow> nat \<Rightarrow> int \<Rightarrow> proc \<Rightarrow> (errno + int list) \<times> proc" where
  "move_child_end pipe_fds child_end child_pipe_fd p =
    (if pipe_fds ! child_end = child_pipe_fd
     then case sys_dupfd_cloexec child_pipe_fd p of
            (Inl e, p) \<Rightarrow> (Inl e, p)
          | (Inr tmp, p) \<Rightarrow> (Inr (pipe_fds[child_end := tmp]), close_nocancel (pipe_fds ! child_end) p)
     else (Inr pipe_fds, p))"

definition mask_flags :: "nat \<Rightarrow> bool \<Rightarrow> popen_state \<Rightarrow> popen_state" where
  "mask_flags fp do_read s = on_stream fp (\<lambda>st. st\<lparr>st_no_reads := \<not> do_read, st_no_writes := do_read\<rparr>) s"

definition proc_open_232 ::
    "spawn_os \<Rightarrow> nat \<Rightarrow> string \<Rightarrow> string \<Rightarrow> popen_state \<Rightarrow> nat option \<times> popen_state" where
  "proc_open_232 os fp command mode s =
    (case popen_mode mode of
       None \<Rightarrow> (None, set_popen_errno EINVAL s)
     | Some (do_read, do_cloexec) \<Rightarrow>
       if 0 \<le> io_fileno s fp then (None, s)
       else
         (case sys_pipe2 True (ps_proc s) of
            (Inl e, p) \<Rightarrow> (None, set_popen_errno e (s\<lparr>ps_proc := p\<rparr>))
          | (Inr (r, w), p) \<Rightarrow>
            (let pipe_fds = [r, w];
                 parent_end = (if do_read then 0 else 1);
                 child_end = (if do_read then 1 else 0);
                 child_pipe_fd = (if do_read then 1 else 0)
             in case move_child_end pipe_fds child_end child_pipe_fd p of
                  (Inl e, p) \<Rightarrow> (None, spawn_failure pipe_fds parent_end child_end (s\<lparr>ps_proc := p\<rparr>))
                | (Inr pipe_fds, p) \<Rightarrow>
                  (case next_fault p of
                     (Some e, p) \<Rightarrow> (None, spawn_failure pipe_fds parent_end child_end (s\<lparr>ps_proc := p\<rparr>))
                   | (None, p) \<Rightarrow>
                     (case spawn_process os [Dup2 (pipe_fds ! child_end) child_pipe_fd] fp command do_cloexec
                             pipe_fds parent_end child_end child_pipe_fd (s\<lparr>ps_proc := p\<rparr>) of
                        (False, s) \<Rightarrow> (None, spawn_failure pipe_fds parent_end child_end s)
                      | (True, s) \<Rightarrow> (Some fp, mask_flags fp do_read s))))))"

subsection \<open>Version 2.27\<close>

text \<open>The forked child; the results of its calls are ignored.\<close>

definition popen_child ::
    "spawn_os \<Rightarrow> int \<Rightarrow> int \<Rightarrow> int list \<Rightarrow> string \<Rightarrow> proc \<Rightarrow> child_end \<times> proc" where
  "popen_child os child_end child_std_end earlier command p =
    (let p = (if child_end \<noteq> child_std_end then snd (sys_dup2 child_end child_std_end p)
              else clear_cloexec child_end p);
         p = fold (\<lambda>fd p. if fd \<noteq> child_std_end then close_nocancel fd p else p) earlier p
     in case ee_exec (os_env os) bin_sh (sh_args command) None of
          None \<Rightarrow> (Running bin_sh (sh_args command) (image_of p), p)
        | Some e \<Rightarrow> (Exited 127, p))"

definition proc_open_227 ::
    "spawn_os \<Rightarrow> nat \<Rightarrow> string \<Rightarrow> string \<Rightarrow> popen_state \<Rightarrow> nat option \<times> popen_state" where
  "proc_open_227 os fp command mode s =
    (case popen_mode mode of
       None \<Rightarrow> (None, set_popen_errno EINVAL s)
     | Some (do_read, do_cloexec) \<Rightarrow>
       if 0 \<le> io_fileno s fp then (None, s)
       else
         (case sys_pipe2 True (ps_proc s) of
            (Inl e, p) \<Rightarrow> (None, set_popen_errno e (s\<lparr>ps_proc := p\<rparr>))
          | (Inr (r, w), p) \<Rightarrow>
            (let parent_end = (if do_read then r else w);
                 child_end = (if do_read then w else r);
                 child_std_end = (if do_read then 1 else 0)
             in case fork_child os (popen_child os child_end child_std_end (map (io_fileno s) (ps_chain s)) command) p of
                  (Inl e, p) \<Rightarrow>
                    (None, set_popen_errno e (on_stream fp (\<lambda>st. st\<lparr>st_pid := - 1\<rparr>)
                      (s\<lparr>ps_proc := close_nocancel parent_end (close_nocancel child_end p)\<rparr>)))
                | (Inr pid, p) \<Rightarrow>
                  (let s = on_stream fp (\<lambda>st. st\<lparr>st_pid := pid\<rparr>) s;
                       p = close_nocancel child_end p;
                       p = (if do_cloexec then p else clear_cloexec parent_end p);
                       s = on_stream fp (\<lambda>st. st\<lparr>st_fileno := parent_end\<rparr>) s;
                       s = s\<lparr>ps_proc := p, ps_chain := fp # ps_chain s\<rparr>
                   in (Some fp, mask_flags fp do_read s)))))"

subsection \<open>\<open>popen\<close> and \<open>pclose\<close>\<close>

text \<open>\<open>new_f\<close> is what \<open>malloc\<close> returns; the two versions of \<open>popen\<close> differ in \<open>proc_open\<close> only.\<close>

definition popen_with ::
    "(nat \<Rightarrow> string \<Rightarrow> string \<Rightarrow> popen_state \<Rightarrow> nat option \<times> popen_state)
      \<Rightarrow> nat option \<Rightarrow> string \<Rightarrow> string \<Rightarrow> popen_state \<Rightarrow> nat option \<times> popen_state" where
  "popen_with proc_open new_f command mode s =
    (case new_f of
       None \<Rightarrow> (None, set_popen_errno ENOMEM s)
     | Some fp \<Rightarrow>
         (let s = s\<lparr>ps_heap := (ps_heap s)(fp \<mapsto>
                \<lparr>st_fileno = - 1, st_no_reads = False, st_no_writes = False, st_pid = 0\<rparr>)\<rparr>
          in case proc_open fp command mode s of
               (Some fp, s) \<Rightarrow> (Some fp, s)
             | (None, s) \<Rightarrow> (None, s\<lparr>ps_heap := (ps_heap s)(fp := None)\<rparr>)))"

definition popen_232 where "popen_232 os = popen_with (proc_open_232 os)"
definition popen_227 where "popen_227 os = popen_with (proc_open_227 os)"

text \<open>The loop over the chain; \<open>None\<close> where the stream is not in it.\<close>

fun unlink_proc_file :: "nat \<Rightarrow> nat list \<Rightarrow> nat list option" where
  "unlink_proc_file fp [] = None"
| "unlink_proc_file fp (p # chain) =
    (if p = fp then Some chain else map_option (Cons p) (unlink_proc_file fp chain))"

definition proc_close :: "spawn_os \<Rightarrow> nat \<Rightarrow> popen_state \<Rightarrow> int \<times> popen_state" where
  "proc_close os fp s =
    (case unlink_proc_file fp (ps_chain s) of
       None \<Rightarrow> (- 1, s)
     | Some chain \<Rightarrow>
         (let s = s\<lparr>ps_chain := chain\<rparr>
          in case sys_close (io_fileno s fp) (ps_proc s) of
               (Some e, p) \<Rightarrow> (- 1, set_popen_errno e (s\<lparr>ps_proc := p\<rparr>))
             | (None, p) \<Rightarrow>
                 (case wait_child os (case ps_heap s fp of None \<Rightarrow> - 1 | Some st \<Rightarrow> st_pid st) p of
                    (Inl e, p) \<Rightarrow> (- 1, set_popen_errno e (s\<lparr>ps_proc := p\<rparr>))
                  | (Inr wstatus, p) \<Rightarrow> (wstatus, s\<lparr>ps_proc := p\<rparr>))))"


subsection \<open>The mode\<close>

lemma scan_mode_iff:
  "scan_mode m (r, w, e) = Some (r', w', e') \<longleftrightarrow>
    set m \<subseteq> {CHR ''r'', CHR ''w'', CHR ''e''} \<and> r' = (r \<or> CHR ''r'' \<in> set m) \<and>
    w' = (w \<or> CHR ''w'' \<in> set m) \<and> e' = (e \<or> CHR ''e'' \<in> set m)"
  by (induction m arbitrary: r w e) auto

lemma popen_mode_iff:
  "popen_mode m = Some (do_read, do_cloexec) \<longleftrightarrow>
    set m \<subseteq> {CHR ''r'', CHR ''w'', CHR ''e''} \<and> do_read = (CHR ''r'' \<in> set m) \<and>
    do_read \<noteq> (CHR ''w'' \<in> set m) \<and> do_cloexec = (CHR ''e'' \<in> set m)"
proof (cases "scan_mode m (False, False, False)")
  case None
  then have "\<not> set m \<subseteq> {CHR ''r'', CHR ''w'', CHR ''e''}"
    using scan_mode_iff [of m False False False] by (metis option.distinct(1))
  then show ?thesis using None by (simp add: popen_mode_def)
next
  case (Some x)
  obtain r w e where x: "x = (r, w, e)" by (cases x)
  show ?thesis using Some scan_mode_iff [of m False False False r w e] by (auto simp: popen_mode_def x)
qed

subsection \<open>What the calls change\<close>

definition only_fds :: "proc \<Rightarrow> proc \<Rightarrow> bool" where
  "only_fds p q \<longleftrightarrow> children q = children p \<and> orphans q = orphans p \<and> disp q = disp p \<and> cwd q = cwd p \<and>
    open_max q = open_max p \<and> next_pid q = next_pid p"

lemma only_fds_refl [simp]: "only_fds p p"
  by (simp add: only_fds_def)

lemma only_fds_trans: "only_fds p q \<Longrightarrow> only_fds q r \<Longrightarrow> only_fds p r"
  by (simp add: only_fds_def)

lemma next_fault_only:
  assumes "next_fault p = (f, q)" shows "fds q = fds p" "only_fds p q" "next_pipe q = next_pipe p"
  using next_fault_faults [OF assms] by (auto simp: only_fds_def)

lemma close_nocancel_only [simp]:
  "fds (close_nocancel fd p) = (fds p)(fd := None)" "only_fds p (close_nocancel fd p)"
proof -
  obtain f q where f: "next_fault p = (f, q)" by fastforce
  show "fds (close_nocancel fd p) = (fds p)(fd := None)" "only_fds p (close_nocancel fd p)"
    using next_fault_only [OF f]
    by (auto simp: close_nocancel_def sys_close_def f close_fd_def only_fds_def fun_upd_idem split: option.split)
qed

lemma clear_cloexec_only [simp]:
  "fds (clear_cloexec fd p) = (fds p)(fd := map_option (\<lambda>(f, _). (f, False)) (fds p fd))"
  "only_fds p (clear_cloexec fd p)"
  by (auto simp: clear_cloexec_def only_fds_def fun_upd_idem split: option.split)

lemma only_fds_fields:
  "only_fds p q \<Longrightarrow> children q = children p" "only_fds p q \<Longrightarrow> orphans q = orphans p"
  "only_fds p q \<Longrightarrow> disp q = disp p" "only_fds p q \<Longrightarrow> cwd q = cwd p"
  "only_fds p q \<Longrightarrow> open_max q = open_max p" "only_fds p q \<Longrightarrow> next_pid q = next_pid p"
  by (simp_all add: only_fds_def)

lemmas [simp] = close_nocancel_only(2) [THEN only_fds_fields(1)] close_nocancel_only(2) [THEN only_fds_fields(2)]
  close_nocancel_only(2) [THEN only_fds_fields(3)] close_nocancel_only(2) [THEN only_fds_fields(4)]
  close_nocancel_only(2) [THEN only_fds_fields(5)] close_nocancel_only(2) [THEN only_fds_fields(6)]
  clear_cloexec_only(2) [THEN only_fds_fields(1)] clear_cloexec_only(2) [THEN only_fds_fields(2)]
  clear_cloexec_only(2) [THEN only_fds_fields(3)] clear_cloexec_only(2) [THEN only_fds_fields(4)]
  clear_cloexec_only(2) [THEN only_fds_fields(5)] clear_cloexec_only(2) [THEN only_fds_fields(6)]

lemma only_fds_close [simp]: "only_fds p (close_nocancel fd q) = only_fds p q"
  using close_nocancel_only(2) [of q fd] by (auto simp: only_fds_def)

lemma only_fds_clear [simp]: "only_fds p (clear_cloexec fd q) = only_fds p q"
  using clear_cloexec_only(2) [of q fd] by (auto simp: only_fds_def)

lemma sys_pipe2_cases:
  assumes "sys_pipe2 c p = (r, q)"
  obtains e where "r = Inl e" "fds q = fds p" "only_fds p q"
  | a b where "r = Inr (a, b)" "0 \<le> a" "0 \<le> b" "a \<noteq> b" "fds p a = None" "fds p b = None"
      "fds q = (fds p)(a \<mapsto> (Pipe_Read (next_pipe p), c), b \<mapsto> (Pipe_Write (next_pipe p), c))" "only_fds p q"
proof -
  obtain f p1 where f: "next_fault p = (f, p1)" by fastforce
  note n = next_fault_only [OF f]
  let ?p2 = "\<lambda>a. p1\<lparr>fds := (fds p1)(a \<mapsto> (Pipe_Read (next_pipe p1), c))\<rparr>"
  consider (fail) e where "r = Inl e" "q = p1"
    | (ok) a b where "lowest_fd p1 = Some a" "lowest_fd (?p2 a) = Some b" "r = Inr (a, b)"
        "fds q = (fds p1)(a \<mapsto> (Pipe_Read (next_pipe p1), c), b \<mapsto> (Pipe_Write (next_pipe p1), c))" "only_fds p1 q"
  proof (cases "f = None \<and> lowest_fd p1 \<noteq> None \<and> lowest_fd (?p2 (the (lowest_fd p1))) \<noteq> None")
    case True
    then obtain a b where ab: "f = None" "lowest_fd p1 = Some a" "lowest_fd (?p2 a) = Some b" by auto
    have "sys_pipe2 c p = (Inr (a, b), (?p2 a)\<lparr>fds := (fds (?p2 a))(b \<mapsto> (Pipe_Write (next_pipe p1), c)),
        next_pipe := next_pipe p1 + 1, pipe_data := (pipe_data p1)(next_pipe p1 := [])\<rparr>)"
      by (simp add: sys_pipe2_def f Let_def ab)
    then have "r = Inr (a, b)" "q = (?p2 a)\<lparr>fds := (fds (?p2 a))(b \<mapsto> (Pipe_Write (next_pipe p1), c)),
        next_pipe := next_pipe p1 + 1, pipe_data := (pipe_data p1)(next_pipe p1 := [])\<rparr>"
      using assms by simp_all
    then have "r = Inr (a, b)" "fds q = (fds p1)(a \<mapsto> (Pipe_Read (next_pipe p1), c), b \<mapsto> (Pipe_Write (next_pipe p1), c))"
      "only_fds p1 q"
      by (simp_all add: only_fds_def)
    then show ?thesis by (rule ok [OF ab(2,3)])
  next
    case False
    have "\<exists>e. (r, q) = (Inl e, p1)"
      using assms [symmetric] False
      by (cases f; cases "lowest_fd p1"; cases "lowest_fd (?p2 (the (lowest_fd p1)))")
        (simp_all add: sys_pipe2_def f Let_def)
    then show ?thesis using fail by blast
  qed
  then show ?thesis
  proof cases
    case fail
    then show ?thesis using that(1) n by blast
  next
    case ok
    have "fds p a = None" "0 \<le> a" using lowest_fd_free [OF ok(1)] n by simp_all
    moreover have "fds p b = None" "0 \<le> b" "a \<noteq> b"
      using lowest_fd_free [OF ok(2)] n by (auto split: if_splits)
    ultimately show ?thesis using ok(3-5) n only_fds_trans [OF n(2)] by (intro that(2)) simp_all
  qed
qed

text \<open>The two ends are open beside what was open before: the parent's and the one for the child.\<close>

definition pipe_ready :: "proc \<Rightarrow> int \<Rightarrow> ofile \<Rightarrow> int \<Rightarrow> ofile \<Rightarrow> proc \<Rightarrow> bool" where
  "pipe_ready p parent pf child cf q \<longleftrightarrow>
    0 \<le> parent \<and> parent \<noteq> child \<and> fds p parent = None \<and> fds p child = None \<and>
    fds q = (fds p)(parent \<mapsto> (pf, True), child \<mapsto> (cf, True)) \<and> only_fds p q"

lemma pipe_ready_fault: "pipe_ready p a f b g q \<Longrightarrow> fds r = fds q \<Longrightarrow> only_fds q r \<Longrightarrow> pipe_ready p a f b g r"
  by (auto simp: pipe_ready_def intro: only_fds_trans)

lemma pipe_ready_dropped:
  "pipe_ready p a f b g q \<Longrightarrow> fds (close_nocancel a (close_nocancel b q)) = fds p"
  by (auto simp: pipe_ready_def fun_eq_iff)

lemma pipe_ready_kept:
  "pipe_ready p a f b g q \<Longrightarrow>
    fds (if e then close_nocancel b q else clear_cloexec a (close_nocancel b q)) = (fds p)(a \<mapsto> (f, e))"
  by (auto simp: pipe_ready_def fun_eq_iff)

lemma move_child_end_cases:
  assumes ready: "pipe_ready p (pfs ! pe) f (pfs ! ce) g q" and ix: "pe < length pfs" "ce < length pfs" "pe \<noteq> ce"
    and call: "move_child_end pfs ce std q = (r, q')"
  obtains e where "r = Inl e" "pipe_ready p (pfs ! pe) f (pfs ! ce) g q'"
  | pfs' where "r = Inr pfs'" "pfs' ! pe = pfs ! pe" "pfs' ! ce \<noteq> std"
      "pipe_ready p (pfs' ! pe) f (pfs' ! ce) g q'"
proof (cases "pfs ! ce = std")
  case False
  then show ?thesis using call ready by (intro that(2)) (simp_all add: move_child_end_def)
next
  case True
  obtain x q1 where x: "next_fault q = (x, q1)" by fastforce
  note n = next_fault_only [OF x]
  have at: "fds q std = Some (g, True)" using ready True by (simp add: pipe_ready_def)
  have at1: "fds q1 std = Some (g, True)" using at n by simp
  consider (fail) e where "r = Inl e" "q' = q1"
    | (ok) tmp where "lowest_fd q1 = Some tmp" "r = Inr (pfs[ce := tmp])"
        "q' = close_nocancel std (q1\<lparr>fds := (fds q1)(tmp \<mapsto> (g, True))\<rparr>)"
    by (cases x; cases "lowest_fd q1")
      (use call in \<open>auto simp: move_child_end_def sys_dupfd_cloexec_def x True at1\<close>)
  then show ?thesis
  proof cases
    case fail
    then show ?thesis using that(1) pipe_ready_fault [OF ready n(1,2)] by blast
  next
    case ok
    have free: "fds q tmp = None" using lowest_fd_free(1) [OF ok(1)] n by simp
    have tmp: "fds p tmp = None" "tmp \<noteq> pfs ! pe" "tmp \<noteq> std"
      using free ready True by (auto simp: pipe_ready_def split: if_splits)
    have f': "fds q' = (fds p)(pfs ! pe \<mapsto> (f, True), tmp \<mapsto> (g, True))"
      using ready True n(1) tmp by (auto simp: ok(3) pipe_ready_def fun_eq_iff)
    have "only_fds q q'"
      using n(2) close_nocancel_only(2) [of "q1\<lparr>fds := (fds q1)(tmp \<mapsto> (g, True))\<rparr>" std]
      by (simp add: ok(3) only_fds_def)
    then have "only_fds p q'" using ready only_fds_trans by (auto simp: pipe_ready_def)
    then have "pipe_ready p (pfs[ce := tmp] ! pe) f (pfs[ce := tmp] ! ce) g q'"
      using ready ix tmp f' by (simp add: pipe_ready_def)
    then show ?thesis using ok(2) ix tmp by (intro that(2) [of "pfs[ce := tmp]"]) simp_all
  qed
qed


subsection \<open>The child\<close>

text \<open>What the child starts with: the pipe as its standard stream, none of the earlier streams, and no other end.\<close>

definition popen_image :: "int \<Rightarrow> ofile \<Rightarrow> int set \<Rightarrow> proc \<Rightarrow> image" where
  "popen_image std f earlier p =
    \<lparr>im_fds = (\<lambda>fd. if fd = std then Some f else if fd \<in> earlier then None
        else case fds p fd of Some (g, False) \<Rightarrow> Some g | _ \<Rightarrow> None),
     im_cwd = cwd p, im_disp = (\<lambda>s. if disp p s = Ignored then Ignored else Default)\<rparr>"

lemma run_actions_closes: "run_actions (map Close l) t = Inr (\<lambda>fd. if fd \<in> set l then None else t fd)"
  by (induction l arbitrary: t) (auto simp: fun_eq_iff)

lemma add_closes_effect:
  "add_closes std l fa p = (r, q) \<Longrightarrow> fds q = fds p \<and> only_fds p q \<and>
    (r = None \<or> r = Some (fa @ map Close (filter (\<lambda>fd. fd \<noteq> std) l)))"
proof (induction std l fa p arbitrary: r rule: add_closes.induct)
  case (2 std fd l fa p)
  obtain x p1 where x: "next_fault p = (x, p1)" by fastforce
  note n = next_fault_only [OF x]
  show ?case
  proof (cases "fd = std")
    case True
    then show ?thesis using 2(1) 2(3) by simp
  next
    case False
    show ?thesis
    proof (cases x)
      case None
      have "add_closes std l (fa @ [Close fd]) p1 = (r, q)" using 2(3) False x None by simp
      from 2(2) [OF False x [symmetric, unfolded None] refl this]
      show ?thesis using n only_fds_trans [OF n(2)] False by auto
    next
      case (Some e)
      then show ?thesis using 2(3) False x n by auto
    qed
  qed
qed simp

lemma image_popen:
  assumes "pipe_ready p a f b g q" "only_fds q r"
    "t = (\<lambda>fd. if fd \<in> earlier - {std} then None else ((fds q)(std \<mapsto> (g, False))) fd)"
  shows "image_of (r\<lparr>fds := t, disp := disp r\<rparr>) = popen_image std g earlier p"
proof -
  have "cwd r = cwd p" "disp r = disp p" using assms(1,2) by (simp_all add: pipe_ready_def only_fds_def)
  moreover have "(case t fd of Some (f, False) \<Rightarrow> Some f | _ \<Rightarrow> None) = im_fds (popen_image std g earlier p) fd" for fd
    using assms(1) by (auto simp: pipe_ready_def assms(3) popen_image_def)
  ultimately show ?thesis by (simp add: image_of_def popen_image_def fun_eq_iff)
qed

lemma spawn_child_popen:
  assumes ready: "pipe_ready p a f b g q" "std \<noteq> b" and r: "fds r = fds q" "only_fds q r"
    and call: "spawn_child os False prog (Dup2 b std # map Close (filter (\<lambda>fd. fd \<noteq> std) l)) {} args None r = x"
  shows "(\<exists>e. x = Inl e) \<or> x = Inr (next_pid p, r\<lparr>next_pid := next_pid p + 1,
      children := (next_pid p, Running prog args (popen_image std g (set l) p)) # children p\<rparr>)"
proof -
  have at: "fds r b = Some (g, True)" using ready r by (simp add: pipe_ready_def)
  let ?t = "\<lambda>fd. if fd \<in> set l - {std} then None else ((fds q)(std \<mapsto> (g, False))) fd"
  have t: "run_actions (Dup2 b std # map Close (filter (\<lambda>fd. fd \<noteq> std) l)) (fds r) = Inr ?t"
    by (simp add: at run_actions_closes fun_eq_iff) (simp add: r)
  have im: "image_of (r\<lparr>fds := ?t, disp := disp r\<rparr>) = popen_image std g (set l) p"
    by (rule image_popen [OF ready(1) r(2) refl])
  have p: "next_pid r = next_pid p" "children r = children p"
    using ready r by (simp_all add: pipe_ready_def only_fds_def)
  show ?thesis
    using call im unfolding spawn_child_def t
    by (cases "os_posix_spawn os False prog args None") (auto simp: p Let_def)
qed


subsection \<open>The contract of \<open>popen\<close>\<close>

definition popen_left :: "popen_state \<Rightarrow> popen_state \<Rightarrow> bool" where
  "popen_left s s' \<longleftrightarrow> fds (ps_proc s') = fds (ps_proc s) \<and> only_fds (ps_proc s) (ps_proc s') \<and>
    ps_chain s' = ps_chain s \<and> ps_heap s' = ps_heap s"

definition popen_stream :: "bool \<Rightarrow> int \<Rightarrow> int \<Rightarrow> stream" where
  "popen_stream do_read fd pid =
    \<lparr>st_fileno = fd, st_no_reads = \<not> do_read, st_no_writes = do_read, st_pid = pid\<rparr>"

lemma popen_stream_upd:
  "st\<lparr>st_pid := pid, st_fileno := fd, st_no_reads := \<not> r, st_no_writes := r\<rparr> = popen_stream r fd pid"
  by (cases st) (simp add: popen_stream_def)

text \<open>
  The stream is new in the chain and in the heap, the process has one more descriptor, the end of a pipe, and one more
  child.
\<close>

definition popen_opens :: "popen_state \<Rightarrow> bool \<Rightarrow> bool \<Rightarrow> nat \<Rightarrow> int \<Rightarrow> ofile \<Rightarrow> child_end \<Rightarrow> popen_state \<Rightarrow> bool" where
  "popen_opens s do_read do_cloexec fp fd f ending s' \<longleftrightarrow>
    0 \<le> fd \<and> fds (ps_proc s) fd = None \<and>
    (\<exists>r w q. sys_pipe2 True (ps_proc s) = (Inr (r, w), q) \<and> fd = (if do_read then r else w)) \<and>
    fds (ps_proc s') = (fds (ps_proc s))(fd \<mapsto> (f, do_cloexec)) \<and>
    only_fds ((ps_proc s)\<lparr>next_pid := next_pid (ps_proc s) + 1,
      children := (next_pid (ps_proc s), ending) # children (ps_proc s)\<rparr>) (ps_proc s') \<and>
    ps_chain s' = fp # ps_chain s \<and>
    ps_heap s' = (ps_heap s)(fp \<mapsto> popen_stream do_read fd (next_pid (ps_proc s)))"

text \<open>The files at the parent's and at the child's end.\<close>

definition near_end :: "bool \<Rightarrow> proc \<Rightarrow> ofile" where
  "near_end do_read p = (if do_read then Pipe_Read (next_pipe p) else Pipe_Write (next_pipe p))"

definition far_end :: "bool \<Rightarrow> proc \<Rightarrow> ofile" where
  "far_end do_read p = (if do_read then Pipe_Write (next_pipe p) else Pipe_Read (next_pipe p))"

definition std_of :: "bool \<Rightarrow> int" where
  "std_of do_read = (if do_read then 1 else 0)"

lemma on_stream_fields [simp]:
  "ps_proc (on_stream fp g s) = ps_proc s" "ps_chain (on_stream fp g s) = ps_chain s"
  "ps_heap (on_stream fp g s) = (ps_heap s)(fp := map_option g (ps_heap s fp))"
  "ps_proc (set_popen_errno e s) = ps_proc s" "ps_chain (set_popen_errno e s) = ps_chain s"
  "ps_heap (set_popen_errno e s) = ps_heap s"
  "ps_proc (mask_flags fp r s) = ps_proc s" "ps_chain (mask_flags fp r s) = ps_chain s"
  by (simp_all add: on_stream_def set_popen_errno_def mask_flags_def)

lemma spawn_failure_left:
  assumes "pipe_ready p (pfs ! pe) f (pfs ! ce) g (ps_proc s)"
  shows "fds (ps_proc (spawn_failure pfs pe ce s)) = fds p \<and> only_fds p (ps_proc (spawn_failure pfs pe ce s)) \<and>
    ps_chain (spawn_failure pfs pe ce s) = ps_chain s \<and> ps_heap (spawn_failure pfs pe ce s) = ps_heap s"
proof -
  have "only_fds p (close_nocancel (pfs ! pe) (close_nocancel (pfs ! ce) (ps_proc s)))"
    using assms by (simp add: pipe_ready_def)
  then show ?thesis using pipe_ready_dropped [OF assms] by (simp add: spawn_failure_def)
qed

lemma spawn_process_cases:
  assumes call: "spawn_process os [Dup2 (pfs ! ce) std] fp command e pfs pe ce std s = (ok, s')"
    and ready: "pipe_ready p (pfs ! pe) f (pfs ! ce) g (ps_proc s)" "std \<noteq> pfs ! ce" and st: "ps_heap s fp = Some st"
  shows "if ok then
      fds (ps_proc s') = (fds p)(pfs ! pe \<mapsto> (f, e)) \<and>
      only_fds (p\<lparr>next_pid := next_pid p + 1,
        children := (next_pid p, Running bin_sh (sh_args command)
          (popen_image std g (set (map (io_fileno s) (ps_chain s))) p)) # children p\<rparr>) (ps_proc s') \<and>
      ps_chain s' = fp # ps_chain s \<and>
      ps_heap s' = (ps_heap s)(fp \<mapsto> st\<lparr>st_pid := next_pid p, st_fileno := pfs ! pe\<rparr>)
    else pipe_ready p (pfs ! pe) f (pfs ! ce) g (ps_proc s') \<and> ps_chain s' = ps_chain s \<and> ps_heap s' = ps_heap s"
proof -
  let ?l = "map (io_fileno s) (ps_chain s)"
  obtain fa q where fa: "add_closes std ?l [Dup2 (pfs ! ce) std] (ps_proc s) = (fa, q)" by fastforce
  note eff = add_closes_effect [OF fa]
  have rq: "pipe_ready p (pfs ! pe) f (pfs ! ce) g q" using pipe_ready_fault [OF ready(1)] eff by blast
  show ?thesis
  proof (cases fa)
    case None
    then have "ok = False" "s' = s\<lparr>ps_proc := q\<rparr>" using call fa by (simp_all add: spawn_process_def)
    then show ?thesis using rq by simp
  next
    case (Some acts)
    then have acts: "acts = Dup2 (pfs ! ce) std # map Close (filter (\<lambda>fd. fd \<noteq> std) ?l)" using eff by simp
    obtain x where x: "spawn_child os False bin_sh acts {} (sh_args command) None q = x" by blast
    from spawn_child_popen [OF ready(1,2) _ _ x [unfolded acts]] eff
    consider (bad) er where "x = Inl er"
      | (good) "x = Inr (next_pid p, q\<lparr>next_pid := next_pid p + 1, children := (next_pid p, Running bin_sh (sh_args command)
          (popen_image std g (set ?l) p)) # children p\<rparr>)" by blast
    then show ?thesis
    proof cases
      case bad
      then have "ok = False" "s' = s\<lparr>ps_proc := q\<rparr>" using call fa x Some by (simp_all add: spawn_process_def)
      then show ?thesis using rq by simp
    next
      case good
      let ?q = "q\<lparr>next_pid := next_pid p + 1, children := (next_pid p, Running bin_sh (sh_args command)
          (popen_image std g (set ?l) p)) # children p\<rparr>"
      let ?c = "close_nocancel (pfs ! ce) ?q"
      let ?d = "if e then ?c else clear_cloexec (pfs ! pe) ?c"
      have s': "ok = True" "s' = (on_stream fp (\<lambda>st. st\<lparr>st_fileno := pfs ! pe\<rparr>)
          (on_stream fp (\<lambda>st. st\<lparr>st_pid := next_pid p\<rparr>) s))\<lparr>ps_proc := ?d, ps_chain := fp # ps_chain s\<rparr>"
        using call fa x Some good by (cases e; auto simp: spawn_process_def Let_def)+
      have "only_fds ?q ?d" by simp
      moreover have "only_fds (p\<lparr>next_pid := next_pid p + 1, children := (next_pid p, Running bin_sh (sh_args command)
          (popen_image std g (set ?l) p)) # children p\<rparr>) ?q"
        using rq by (simp add: pipe_ready_def only_fds_def)
      ultimately have only: "only_fds (p\<lparr>next_pid := next_pid p + 1, children := (next_pid p, Running bin_sh (sh_args command)
          (popen_image std g (set ?l) p)) # children p\<rparr>) ?d" by (rule only_fds_trans [rotated])
      have "fds ?d = (fds p)(pfs ! pe \<mapsto> (f, e))"
        using rq by (auto simp: pipe_ready_def fun_eq_iff)
      then show ?thesis using s' only st by simp
    qed
  qed
qed


definition open_left :: "nat \<Rightarrow> popen_state \<Rightarrow> popen_state \<Rightarrow> bool" where
  "open_left fp s s' \<longleftrightarrow> fds (ps_proc s') = fds (ps_proc s) \<and> only_fds (ps_proc s) (ps_proc s') \<and>
    ps_chain s' = ps_chain s \<and> (\<forall>a. a \<noteq> fp \<longrightarrow> ps_heap s' a = ps_heap s a)"

text \<open>The child of a \<open>popen\<close> that goes through, as it starts.\<close>

definition popen_running :: "string \<Rightarrow> bool \<Rightarrow> popen_state \<Rightarrow> child_end" where
  "popen_running command do_read s =
    Running bin_sh (sh_args command)
      (popen_image (std_of do_read) (far_end do_read (ps_proc s)) (io_fileno s ` set (ps_chain s)) (ps_proc s))"

locale proc_opener =
  fixes proc_open :: "nat \<Rightarrow> string \<Rightarrow> string \<Rightarrow> popen_state \<Rightarrow> nat option \<times> popen_state"
    and child :: "string \<Rightarrow> bool \<Rightarrow> popen_state \<Rightarrow> child_end \<Rightarrow> bool"
  assumes contract: "proc_open fp command mode s = (r, s') \<Longrightarrow> ps_heap s fp = Some st \<Longrightarrow> st_fileno st = - 1 \<Longrightarrow>
    (case r of
       None \<Rightarrow> open_left fp s s'
     | Some fp' \<Rightarrow> fp' = fp \<and> (\<exists>do_read e fd ending. popen_mode mode = Some (do_read, e) \<and>
         child command do_read s ending \<and> popen_opens s do_read e fp fd (near_end do_read (ps_proc s)) ending s'))"
    and child_cong: "child command do_read s ending \<Longrightarrow> ps_proc s' = ps_proc s \<Longrightarrow> ps_chain s' = ps_chain s \<Longrightarrow>
      (\<And>a. a \<in> set (ps_chain s) \<Longrightarrow> io_fileno s' a = io_fileno s a) \<Longrightarrow> child command do_read s' ending"

lemma pipe_ready_pipe2:
  assumes "sys_pipe2 True p = (Inr (a, b), q)"
  shows "pipe_ready p (if do_read then a else b) (near_end do_read p) (if do_read then b else a) (far_end do_read p) q"
  using assms by (cases rule: sys_pipe2_cases) (auto simp: pipe_ready_def near_end_def far_end_def fun_upd_twist)

lemma sys_pipe2_error: "sys_pipe2 c p = (Inl e, q) \<Longrightarrow> fds q = fds p \<and> only_fds p q"
  by (cases rule: sys_pipe2_cases) auto

text \<open>The spawn, once the child's end is in place.\<close>

lemma popen_232_spawn:
  assumes ready: "pipe_ready (ps_proc s) (pfs ! pe) (near_end do_read (ps_proc s)) (pfs ! ce) (far_end do_read (ps_proc s)) q"
    and ne: "std_of do_read \<noteq> pfs ! ce" and st: "ps_heap s fp = Some st"
    and x: "\<exists>r w q. sys_pipe2 True (ps_proc s) = (Inr (r, w), q) \<and> pfs ! pe = (if do_read then r else w)"
    and rs: "(r, s') = (case spawn_process os [Dup2 (pfs ! ce) (std_of do_read)] fp command e pfs pe ce (std_of do_read)
          (s\<lparr>ps_proc := q\<rparr>) of
        (False, s) \<Rightarrow> (None, spawn_failure pfs pe ce s)
      | (True, s) \<Rightarrow> (Some fp, mask_flags fp do_read s))"
  shows "case r of
       None \<Rightarrow> open_left fp s s'
     | Some fp' \<Rightarrow> fp' = fp \<and>
         popen_opens s do_read e fp (pfs ! pe) (near_end do_read (ps_proc s)) (popen_running command do_read s) s'"
proof -
  obtain ok u where u: "spawn_process os [Dup2 (pfs ! ce) (std_of do_read)] fp command e pfs pe ce (std_of do_read)
      (s\<lparr>ps_proc := q\<rparr>) = (ok, u)" by fastforce
  have io: "io_fileno (s\<lparr>ps_proc := q\<rparr>) = io_fileno s" by (simp add: io_fileno_def fun_eq_iff)
  have "pipe_ready (ps_proc s) (pfs ! pe) (near_end do_read (ps_proc s)) (pfs ! ce) (far_end do_read (ps_proc s))
      (ps_proc (s\<lparr>ps_proc := q\<rparr>))" "std_of do_read \<noteq> pfs ! ce" "ps_heap (s\<lparr>ps_proc := q\<rparr>) fp = Some st"
    using ready ne st by simp_all
  note sp = spawn_process_cases [OF u this, unfolded io]
  show ?thesis
  proof (cases ok)
    case False
    then have "pipe_ready (ps_proc s) (pfs ! pe) (near_end do_read (ps_proc s)) (pfs ! ce) (far_end do_read (ps_proc s))
        (ps_proc u)" "ps_chain u = ps_chain s" "ps_heap u = ps_heap s" using sp by simp_all
    then have "open_left fp s (spawn_failure pfs pe ce u)" using spawn_failure_left by (simp add: open_left_def)
    then show ?thesis using rs u False by simp
  next
    case True
    have r: "r = Some fp" and s': "s' = mask_flags fp do_read u" using rs u True by simp_all
    have "popen_opens s do_read e fp (pfs ! pe) (near_end do_read (ps_proc s)) (popen_running command do_read s) s'"
      using sp True ready x
      by (simp add: popen_opens_def s' popen_running_def mask_flags_def pipe_ready_def popen_stream_upd)
    then show ?thesis using r by simp
  qed
qed

lemma proc_open_232_contract:
  assumes call: "proc_open_232 os fp command mode s = (r, s')" and st: "ps_heap s fp = Some st" "st_fileno st = - 1"
  shows "case r of
       None \<Rightarrow> open_left fp s s'
     | Some fp' \<Rightarrow> fp' = fp \<and> (\<exists>do_read e fd ending. popen_mode mode = Some (do_read, e) \<and>
         ending = popen_running command do_read s \<and>
         popen_opens s do_read e fp fd (near_end do_read (ps_proc s)) ending s')"
proof (cases "popen_mode mode")
  case None
  then show ?thesis using call by (auto simp: proc_open_232_def open_left_def)
next
  case (Some m)
  obtain do_read e where m: "m = (do_read, e)" by (cases m)
  have closed: "\<not> 0 \<le> io_fileno s fp" using st by (simp add: io_fileno_def)
  obtain x q where x: "sys_pipe2 True (ps_proc s) = (x, q)" by fastforce
  show ?thesis
  proof (cases x)
    case (Inl er)
    then show ?thesis using call sys_pipe2_error [OF x [unfolded Inl]]
      by (auto simp: proc_open_232_def Some m closed x open_left_def)
  next
    case (Inr ab)
    obtain a b where ab: "ab = (a, b)" by (cases ab)
    define pe where "pe = (if do_read then 0 else 1 :: nat)"
    define ce where "ce = (if do_read then 1 else 0 :: nat)"
    define std where "std = std_of do_read"
    have rest: "(r, s') =
      (case move_child_end [a, b] ce std q of
         (Inl e, p) \<Rightarrow> (None, spawn_failure [a, b] pe ce (s\<lparr>ps_proc := p\<rparr>))
       | (Inr pipe_fds, p) \<Rightarrow>
         (case next_fault p of
            (Some e, p) \<Rightarrow> (None, spawn_failure pipe_fds pe ce (s\<lparr>ps_proc := p\<rparr>))
          | (None, p) \<Rightarrow>
            (case spawn_process os [Dup2 (pipe_fds ! ce) std] fp command e pipe_fds pe ce std (s\<lparr>ps_proc := p\<rparr>) of
               (False, s) \<Rightarrow> (None, spawn_failure pipe_fds pe ce s)
             | (True, s) \<Rightarrow> (Some fp, mask_flags fp do_read s))))"
      using call unfolding proc_open_232_def Some m option.case prod.case x Inr ab sum.case Let_def
        pe_def ce_def std_def std_of_def by (simp add: closed)
    have ready: "pipe_ready (ps_proc s) ([a, b] ! pe) (near_end do_read (ps_proc s)) ([a, b] ! ce) (far_end do_read (ps_proc s)) q"
      using pipe_ready_pipe2 [OF x [unfolded Inr ab], of do_read] by (cases do_read) (simp_all add: pe_def ce_def)
    have ix: "pe < length [a, b]" "ce < length [a, b]" "pe \<noteq> ce" by (simp_all add: pe_def ce_def)
    have fail: "open_left fp s (spawn_failure pfs pe ce u)"
      if "pipe_ready (ps_proc s) (pfs ! pe) f (pfs ! ce) g (ps_proc u)" "ps_chain u = ps_chain s" "ps_heap u = ps_heap s" for pfs f g u
      using spawn_failure_left [OF that(1)] that(2,3) by (simp add: open_left_def)
    obtain y q1 where y: "move_child_end [a, b] ce std q = (y, q1)" by fastforce
    from ready ix y show ?thesis
    proof (cases rule: move_child_end_cases)
      case (1 er)
      then show ?thesis using rest y fail by simp
    next
      case (2 pfs)
      obtain z q2 where z: "next_fault q1 = (z, q2)" by fastforce
      have ready2: "pipe_ready (ps_proc s) (pfs ! pe) (near_end do_read (ps_proc s)) (pfs ! ce) (far_end do_read (ps_proc s)) q2"
        using pipe_ready_fault [OF 2(4)] next_fault_only [OF z] by blast
      show ?thesis
      proof (cases z)
        case (Some er)
        then show ?thesis using rest y 2(1) z fail ready2 by simp
      next
        case None
        have px: "\<exists>r w q. sys_pipe2 True (ps_proc s) = (Inr (r, w), q) \<and> pfs ! pe = (if do_read then r else w)"
          using x [unfolded Inr ab] 2(2) by (simp add: pe_def)
        have sx: "(r, s') = (case spawn_process os [Dup2 (pfs ! ce) std] fp command e pfs pe ce std (s\<lparr>ps_proc := q2\<rparr>) of
               (False, s) \<Rightarrow> (None, spawn_failure pfs pe ce s)
             | (True, s) \<Rightarrow> (Some fp, mask_flags fp do_read s))"
          unfolding rest y 2(1) z None prod.case sum.case option.case ..
        from popen_232_spawn [OF ready2 2(3) [unfolded std_def, symmetric] st(1) px sx [unfolded std_def]]
        show ?thesis using Some m by (cases r) auto
      qed
    qed
  qed
qed


text \<open>Version 2.27: the child is known exactly where its own calls meet no error.\<close>

definition child_227 :: "spawn_os \<Rightarrow> string \<Rightarrow> bool \<Rightarrow> popen_state \<Rightarrow> child_end \<Rightarrow> bool" where
  "child_227 os command do_read s ending \<longleftrightarrow>
    (os_child_faults os (next_pid (ps_proc s)) = [] \<longrightarrow>
      ending = (case ee_exec (os_env os) bin_sh (sh_args command) None of
                  None \<Rightarrow> popen_running command do_read s | Some _ \<Rightarrow> Exited 127))"

lemma fold_close:
  "fds (fold (\<lambda>fd p. if fd \<noteq> std then close_nocancel fd p else p) l p) =
    (\<lambda>fd. if fd \<in> set l - {std} then None else fds p fd) \<and>
   only_fds p (fold (\<lambda>fd p. if fd \<noteq> std then close_nocancel fd p else p) l p)"
proof (induction l arbitrary: p)
  case (Cons a l)
  show ?case
  proof (cases "a = std")
    case True
    then show ?thesis using Cons [of p] by (auto simp: fun_eq_iff)
  next
    case False
    have "only_fds p (fold (\<lambda>fd p. if fd \<noteq> std then close_nocancel fd p else p) l (close_nocancel a p))"
      using Cons [of "close_nocancel a p"] by (auto simp: only_fds_def)
    then show ?thesis using False Cons [of "close_nocancel a p"] by (auto simp: fun_eq_iff)
  qed
qed auto

lemma close_nocancel_data [simp]: "pipe_data (close_nocancel fd p) = pipe_data p" "next_pipe (close_nocancel fd p) = next_pipe p"
  by (auto simp: close_nocancel_def sys_close_def close_fd_def next_fault_def split: option.split list.split)

lemma fold_close_data:
  "pipe_data (fold (\<lambda>fd p. if fd \<noteq> std then close_nocancel fd p else p) l p) = pipe_data p"
  by (induction l arbitrary: p) auto

lemma popen_child_effect:
  assumes "popen_child os c std earlier command p = (ending, q)"
  shows "only_fds p q" "pipe_data q = pipe_data p"
proof -
  let ?d = "if c \<noteq> std then snd (sys_dup2 c std p) else clear_cloexec c p"
  have q: "q = fold (\<lambda>fd p. if fd \<noteq> std then close_nocancel fd p else p) earlier ?d"
    using assms by (simp add: popen_child_def Let_def split: option.splits if_splits)
  have d: "only_fds p ?d \<and> pipe_data ?d = pipe_data p"
  proof (cases "c = std")
    case True
    then show ?thesis using clear_cloexec_only(2) [of p c]
      by (simp del: clear_cloexec_only(2)) (simp add: clear_cloexec_def split: option.split)
  next
    case False
    obtain r p1 where d: "sys_dup2 c std p = (r, p1)" by fastforce
    then show ?thesis using False by (cases rule: sys_dup2_cases) (auto simp: only_fds_def d)
  qed
  show "only_fds p q" unfolding q using d fold_close only_fds_trans by blast
  show "pipe_data q = pipe_data p" unfolding q fold_close_data using d by blast
qed

lemma popen_child_ending:
  assumes "faults p = []" "fds p c = Some (g, True)"
  shows "fst (popen_child os c std earlier command p) =
    (case ee_exec (os_env os) bin_sh (sh_args command) None of
       None \<Rightarrow> Running bin_sh (sh_args command) (image_of (p\<lparr>fds :=
         (\<lambda>fd. if fd \<in> set earlier - {std} then None else ((fds p)(std \<mapsto> (g, False))) fd)\<rparr>))
     | Some _ \<Rightarrow> Exited 127)"
proof -
  define d where "d = (if c \<noteq> std then snd (sys_dup2 c std p) else clear_cloexec c p)"
  let ?q = "fold (\<lambda>fd p. if fd \<noteq> std then close_nocancel fd p else p) earlier d"
  have d: "fds d = (fds p)(std \<mapsto> (g, False))" "only_fds p d"
    using assms by (auto simp: d_def sys_dup2_def next_fault_def only_fds_def)
  have "fds ?q = (\<lambda>fd. if fd \<in> set earlier - {std} then None else ((fds p)(std \<mapsto> (g, False))) fd)"
    using fold_close [of std earlier d] unfolding d(1) by blast
  moreover have "cwd ?q = cwd p" "disp ?q = disp p"
    using only_fds_trans [OF d(2)] fold_close [of std earlier d] by (auto simp: only_fds_def)
  ultimately have "image_of ?q = image_of (p\<lparr>fds :=
         (\<lambda>fd. if fd \<in> set earlier - {std} then None else ((fds p)(std \<mapsto> (g, False))) fd)\<rparr>)"
    by (simp add: image_of_def)
  moreover have "popen_child os c std earlier command p =
      (case ee_exec (os_env os) bin_sh (sh_args command) None of
         None \<Rightarrow> (Running bin_sh (sh_args command) (image_of ?q), ?q) | Some e \<Rightarrow> (Exited 127, ?q))"
    unfolding popen_child_def Let_def d_def by (rule refl)
  ultimately show ?thesis by (simp split: option.split)
qed


lemma fork_child_cases:
  assumes "fork_child os body p = (r, q)"
  obtains e where "r = Inl e" "fds q = fds p" "only_fds p q"
  | fs ending c where "r = Inr (next_pid p)"
      "body (start_child os (next_pid p) (p\<lparr>faults := fs, next_pid := next_pid p + 1\<rparr>)) = (ending, c)"
      "q = p\<lparr>faults := fs, next_pid := next_pid c, pipe_data := pipe_data c,
        children := (next_pid p, ending) # children p, orphans := orphans c @ orphans p\<rparr>"
proof -
  obtain x p1 where x: "next_fault p = (x, p1)" by fastforce
  obtain fs where p1: "p1 = p\<lparr>faults := fs\<rparr>" using next_fault_faults [OF x] by blast
  show ?thesis
  proof (cases x)
    case (Some e)
    then show ?thesis using assms x p1 that(1) [of e] by (auto simp: fork_child_def only_fds_def)
  next
    case None
    obtain ending c where c: "body (start_child os (next_pid p) (p1\<lparr>next_pid := next_pid p + 1\<rparr>)) = (ending, c)"
      by fastforce
    have "r = Inr (next_pid p)" "q = p\<lparr>faults := fs, next_pid := next_pid c, pipe_data := pipe_data c,
        children := (next_pid p, ending) # children p, orphans := orphans c @ orphans p\<rparr>"
      using assms x None c by (auto simp: fork_child_def p1 Let_def)
    then show ?thesis using c p1 by (intro that(2)) simp_all
  qed
qed

lemma popen_227_child:
  assumes ready: "pipe_ready (ps_proc s) pe (near_end do_read (ps_proc s)) ce (far_end do_read (ps_proc s)) q"
    and body: "popen_child os ce (std_of do_read) (map (io_fileno s) (ps_chain s)) command
      (start_child os (next_pid q) (q\<lparr>faults := fs, next_pid := next_pid q + 1\<rparr>)) = (ending, c)"
  shows "child_227 os command do_read s ending"
  unfolding child_227_def
proof
  let ?p = "ps_proc s" and ?std = "std_of do_read"
  let ?c = "start_child os (next_pid q) (q\<lparr>faults := fs, next_pid := next_pid q + 1\<rparr>)"
  have qf: "only_fds ?p q" using ready by (simp add: pipe_ready_def)
  have at: "fds ?c ce = Some (far_end do_read ?p, True)" using ready by (simp add: pipe_ready_def start_child_def)
  assume "os_child_faults os (next_pid ?p) = []"
  then have f: "faults ?c = []" using qf by (simp add: start_child_def only_fds_def)
  have fc: "fds ?c = fds q" by (simp add: start_child_def)
  have "only_fds q (?c\<lparr>next_pid := next_pid q, children := children q, orphans := orphans q\<rparr>)"
    by (simp add: start_child_def only_fds_def)
  from image_popen [OF ready this refl, of "set (map (io_fileno s) (ps_chain s))" ?std]
  have im: "image_of (?c\<lparr>fds := (\<lambda>fd. if fd \<in> set (map (io_fileno s) (ps_chain s)) - {?std} then None
        else ((fds q)(?std \<mapsto> (far_end do_read ?p, False))) fd)\<rparr>) =
      popen_image ?std (far_end do_read ?p) (io_fileno s ` set (ps_chain s)) ?p"
    by (simp add: image_of_def start_child_def)
  show "ending = (case ee_exec (os_env os) bin_sh (sh_args command) None of
            None \<Rightarrow> popen_running command do_read s | Some _ \<Rightarrow> Exited 127)"
    using popen_child_ending [OF f at, of os ?std "map (io_fileno s) (ps_chain s)" command] body
    unfolding fc im unfolding popen_running_def by simp
qed

text \<open>The parent closes the child's end and keeps the other one.\<close>

lemma popen_227_parent:
  assumes ready: "pipe_ready (ps_proc s) pe (near_end do_read (ps_proc s)) ce (far_end do_read (ps_proc s)) q"
    and c: "next_pid c = next_pid (ps_proc s) + 1" "orphans c = []" "pipe_data c = pipe_data q"
    and q1: "q1 = q\<lparr>faults := fs, next_pid := next_pid c, pipe_data := pipe_data c,
        children := (next_pid q, ending) # children q, orphans := orphans c @ orphans q\<rparr>"
    and q3: "q3 = (if e then close_nocancel ce q1 else clear_cloexec pe (close_nocancel ce q1))"
    and x: "\<exists>r w q. sys_pipe2 True (ps_proc s) = (Inr (r, w), q) \<and> pe = (if do_read then r else w)"
    and st: "ps_heap s fp = Some st"
    and s': "s' = mask_flags fp do_read ((on_stream fp (\<lambda>st. st\<lparr>st_fileno := pe\<rparr>)
          (on_stream fp (\<lambda>st. st\<lparr>st_pid := next_pid q\<rparr>) s))\<lparr>ps_proc := q3, ps_chain := fp # ps_chain s\<rparr>)"
  shows "popen_opens s do_read e fp pe (near_end do_read (ps_proc s)) ending s'"
proof -
  let ?p = "ps_proc s"
  have qf: "only_fds ?p q" using ready by (simp add: pipe_ready_def)
  have "fds q3 = (fds ?p)(pe \<mapsto> (near_end do_read ?p, e))"
    using ready by (auto simp: q3 q1 pipe_ready_def fun_eq_iff)
  moreover have "only_fds (?p\<lparr>next_pid := next_pid ?p + 1, children := (next_pid ?p, ending) # children ?p\<rparr>) q3"
    using qf c by (simp add: q3 q1 only_fds_def)
  moreover have "next_pid q = next_pid ?p" using qf by (simp add: only_fds_def)
  ultimately show ?thesis
    using ready st x by (simp add: popen_opens_def s' mask_flags_def pipe_ready_def popen_stream_upd)
qed

lemma proc_open_227_contract:
  assumes call: "proc_open_227 os fp command mode s = (r, s')" and st: "ps_heap s fp = Some st" "st_fileno st = - 1"
  shows "case r of
       None \<Rightarrow> open_left fp s s'
     | Some fp' \<Rightarrow> fp' = fp \<and> (\<exists>do_read e fd ending. popen_mode mode = Some (do_read, e) \<and>
         child_227 os command do_read s ending \<and>
         popen_opens s do_read e fp fd (near_end do_read (ps_proc s)) ending s')"
proof (cases "popen_mode mode")
  case None
  then show ?thesis using call by (auto simp: proc_open_227_def open_left_def)
next
  case (Some m)
  obtain do_read e where m: "m = (do_read, e)" by (cases m)
  have closed: "\<not> 0 \<le> io_fileno s fp" using st by (simp add: io_fileno_def)
  obtain x q where x: "sys_pipe2 True (ps_proc s) = (x, q)" by fastforce
  show ?thesis
  proof (cases x)
    case (Inl er)
    then show ?thesis using call sys_pipe2_error [OF x [unfolded Inl]]
      by (auto simp: proc_open_227_def Some m closed x open_left_def)
  next
    case (Inr ab)
    obtain a b where ab: "ab = (a, b)" by (cases ab)
    define pe where "pe = (if do_read then a else b)"
    define ce where "ce = (if do_read then b else a)"
    define std where "std = std_of do_read"
    let ?body = "popen_child os ce std (map (io_fileno s) (ps_chain s)) command"
    have rest: "(r, s') =
      (case fork_child os ?body q of
         (Inl e, p) \<Rightarrow>
           (None, set_popen_errno e (on_stream fp (\<lambda>st. st\<lparr>st_pid := - 1\<rparr>)
             (s\<lparr>ps_proc := close_nocancel pe (close_nocancel ce p)\<rparr>)))
       | (Inr pid, p) \<Rightarrow>
           (let s = on_stream fp (\<lambda>st. st\<lparr>st_pid := pid\<rparr>) s;
                p = close_nocancel ce p;
                p = (if e then p else clear_cloexec pe p);
                s = on_stream fp (\<lambda>st. st\<lparr>st_fileno := pe\<rparr>) s;
                s = s\<lparr>ps_proc := p, ps_chain := fp # ps_chain s\<rparr>
            in (Some fp, mask_flags fp do_read s)))"
      using call unfolding proc_open_227_def Some m option.case prod.case x Inr ab sum.case Let_def
        pe_def ce_def std_def std_of_def by (simp add: closed)
    have ready: "pipe_ready (ps_proc s) pe (near_end do_read (ps_proc s)) ce (far_end do_read (ps_proc s)) q"
      using pipe_ready_pipe2 [OF x [unfolded Inr ab], of do_read] by (simp add: pe_def ce_def)
    obtain y q1 where y: "fork_child os ?body q = (y, q1)" by fastforce
    then show ?thesis
    proof (cases rule: fork_child_cases)
      case (1 er)
      have "pipe_ready (ps_proc s) pe (near_end do_read (ps_proc s)) ce (far_end do_read (ps_proc s)) q1"
        by (rule pipe_ready_fault [OF ready 1(2,3)])
      then have "fds (close_nocancel pe (close_nocancel ce q1)) = fds (ps_proc s)" "only_fds (ps_proc s) q1"
        by (rule pipe_ready_dropped) (use ready 1(3) only_fds_trans in \<open>auto simp: pipe_ready_def\<close>)
      moreover have "r = None" "s' = set_popen_errno er (on_stream fp (\<lambda>st. st\<lparr>st_pid := - 1\<rparr>)
             (s\<lparr>ps_proc := close_nocancel pe (close_nocancel ce q1)\<rparr>))"
        using rest y 1(1) by simp_all
      ultimately show ?thesis by (simp add: open_left_def)
    next
      case (2 fs ending c)
      have qf: "only_fds (ps_proc s) q" using ready by (simp add: pipe_ready_def)
      note cf = popen_child_effect [OF 2(2)]
      have c: "next_pid c = next_pid (ps_proc s) + 1" "orphans c = []" "pipe_data c = pipe_data q"
        using cf qf by (simp_all add: only_fds_def start_child_def)
      have child: "child_227 os command do_read s ending"
        using popen_227_child [OF ready] 2(2) unfolding std_def by blast
      let ?q2 = "close_nocancel ce q1"
      let ?q3 = "if e then ?q2 else clear_cloexec pe ?q2"
      have rs: "r = Some fp" "s' = mask_flags fp do_read ((on_stream fp (\<lambda>st. st\<lparr>st_fileno := pe\<rparr>)
          (on_stream fp (\<lambda>st. st\<lparr>st_pid := next_pid q\<rparr>) s))\<lparr>ps_proc := ?q3, ps_chain := fp # ps_chain s\<rparr>)"
        using rest unfolding y 2(1) prod.case sum.case Let_def by simp_all
      have "\<exists>r w q. sys_pipe2 True (ps_proc s) = (Inr (r, w), q) \<and> pe = (if do_read then r else w)"
        using x [unfolded Inr ab] by (simp add: pe_def)
      from popen_227_parent [OF ready c 2(3) refl this st(1) rs(2)] show ?thesis
        using Some m rs(1) child by auto
    qed
  qed
qed


subsection \<open>What holds for every opener\<close>

text \<open>The open streams: each has a descriptor of its own that is open.\<close>

definition streams_ok :: "popen_state \<Rightarrow> bool" where
  "streams_ok s \<longleftrightarrow> distinct (map (io_fileno s) (ps_chain s)) \<and>
    (\<forall>a \<in> set (ps_chain s). 0 \<le> io_fileno s a \<and> fds (ps_proc s) (io_fileno s a) \<noteq> None)"

text \<open>
  A run of the program: it opens and closes streams, \<open>fclose\<close> frees what \<open>pclose\<close> has unlinked, and everything else it
  does leaves the descriptors of the streams alone.
\<close>

inductive popen_step :: "(nat \<Rightarrow> string \<Rightarrow> string \<Rightarrow> popen_state \<Rightarrow> nat option \<times> popen_state)
    \<Rightarrow> spawn_os \<Rightarrow> popen_state \<Rightarrow> popen_state \<Rightarrow> bool" for proc_open os where
  popened: "ps_heap s fp = None \<Longrightarrow> popen_with proc_open (Some fp) command mode s = (r, s') \<Longrightarrow> popen_step proc_open os s s'"
| pclosed: "proc_close os fp s = (status, s') \<Longrightarrow> popen_step proc_open os s s'"
| freed: "fp \<notin> set (ps_chain s) \<Longrightarrow> popen_step proc_open os s (s\<lparr>ps_heap := (ps_heap s)(fp := None)\<rparr>)"
| elsewhere: "(\<And>a. a \<in> set (ps_chain s) \<Longrightarrow> fds p (io_fileno s a) = fds (ps_proc s) (io_fileno s a)) \<Longrightarrow>
    popen_step proc_open os s (s\<lparr>ps_proc := p\<rparr>)"

lemma streams_ok_in_heap: "streams_ok s \<Longrightarrow> ps_heap s fp = None \<Longrightarrow> fp \<notin> set (ps_chain s)"
  by (auto simp: streams_ok_def io_fileno_def)

lemma streams_ok_cong:
  "streams_ok s \<Longrightarrow> ps_chain s' = ps_chain s \<Longrightarrow>
    (\<And>a. a \<in> set (ps_chain s) \<Longrightarrow> io_fileno s' a = io_fileno s a \<and> fds (ps_proc s') (io_fileno s a) = fds (ps_proc s) (io_fileno s a)) \<Longrightarrow>
    streams_ok s'"
  by (simp add: streams_ok_def cong: map_cong)

lemma popen_opens_ok:
  assumes "popen_opens s r e fp fd f ending s'" "streams_ok s" "fp \<notin> set (ps_chain s)"
  shows "streams_ok s'"
proof -
  have io: "io_fileno s' fp = fd" "\<And>a. a \<in> set (ps_chain s) \<Longrightarrow> io_fileno s' a = io_fileno s a"
    using assms(1,3) by (auto simp: popen_opens_def io_fileno_def popen_stream_def)
  have "fd \<noteq> io_fileno s a" if "a \<in> set (ps_chain s)" for a
    using assms(1,2) that by (auto simp: popen_opens_def streams_ok_def)
  moreover have "map (io_fileno s') (ps_chain s) = map (io_fileno s) (ps_chain s)" using io(2) by simp
  then have "distinct (map (io_fileno s') (ps_chain s))"
    by (rule ssubst) (use assms(2) in \<open>simp add: streams_ok_def\<close>)
  ultimately show ?thesis
    using assms(1,2) io by (auto simp: popen_opens_def streams_ok_def)
qed

lemma unlink_proc_file_iff:
  "unlink_proc_file fp chain = (if fp \<in> set chain then Some (remove1 fp chain) else None)"
  by (induction chain) auto

lemma sys_close_fds: "sys_close fd p = (e, q) \<Longrightarrow> fds q = (fds p)(fd := None)"
  using close_nocancel_only(1) [of fd p] by (simp add: close_nocancel_def)

lemma proc_close_fields:
  assumes "proc_close os fp s = (status, s')"
  shows "fp \<notin> set (ps_chain s) \<and> s' = s \<and> status = - 1 \<or> fp \<in> set (ps_chain s) \<and>
    ps_chain s' = remove1 fp (ps_chain s) \<and> ps_heap s' = ps_heap s \<and>
    fds (ps_proc s') = (fds (ps_proc s))(io_fileno s fp := None)"
proof (cases "fp \<in> set (ps_chain s)")
  case False
  then show ?thesis using assms by (simp add: proc_close_def unlink_proc_file_iff)
next
  case True
  let ?s = "s\<lparr>ps_chain := remove1 fp (ps_chain s)\<rparr>"
  have io: "io_fileno ?s fp = io_fileno s fp" by (simp add: io_fileno_def)
  obtain e p where e: "sys_close (io_fileno s fp) (ps_proc s) = (e, p)" by fastforce
  obtain r q where r: "wait_child os (case ps_heap s fp of None \<Rightarrow> - 1 | Some st \<Rightarrow> st_pid st) p = (r, q)" by fastforce
  have "fds q = fds p" using wait_child_effect [OF r] by blast
  then have f: "fds q = (fds (ps_proc s))(io_fileno s fp := None)" "fds p = (fds (ps_proc s))(io_fileno s fp := None)"
    using sys_close_fds [OF e] by simp_all
  have "ps_chain s' = remove1 fp (ps_chain s) \<and> ps_heap s' = ps_heap s \<and> (ps_proc s' = p \<or> ps_proc s' = q)"
    using assms True by (cases e; cases r) (auto simp: proc_close_def unlink_proc_file_iff Let_def io e r)
  then show ?thesis using f True by auto
qed

lemma proc_close_ok:
  assumes "proc_close os fp s = (status, s')" "streams_ok s"
  shows "streams_ok s'"
  using proc_close_fields [OF assms(1)]
proof
  assume a: "fp \<in> set (ps_chain s) \<and> ps_chain s' = remove1 fp (ps_chain s) \<and> ps_heap s' = ps_heap s \<and>
    fds (ps_proc s') = (fds (ps_proc s))(io_fileno s fp := None)"
  have io: "io_fileno s' = io_fileno s" using a by (simp add: io_fileno_def fun_eq_iff)
  have d: "distinct (map (io_fileno s) (ps_chain s))" using assms(2) by (simp add: streams_ok_def)
  then have dc: "distinct (ps_chain s)" by (simp add: distinct_map)
  have "distinct (map (io_fileno s) (remove1 fp (ps_chain s)))"
    using d by (auto simp: distinct_map dc intro: inj_on_subset)
  moreover have "io_fileno s b \<noteq> io_fileno s fp" if "b \<in> set (remove1 fp (ps_chain s))" for b
    using d that a by (auto simp: distinct_map inj_on_def dc)
  ultimately show ?thesis
    using assms(2) a dc by (auto simp: streams_ok_def io)
qed (use assms(2) in simp)

context proc_opener begin

lemma popen_contract:
  assumes call: "popen_with proc_open new command mode s = (r, s')"
    and fresh: "\<And>fp. new = Some fp \<Longrightarrow> ps_heap s fp = None \<and> fp \<notin> set (ps_chain s)"
  shows "case r of
       None \<Rightarrow> popen_left s s'
     | Some fp \<Rightarrow> new = Some fp \<and> (\<exists>do_read e fd ending. popen_mode mode = Some (do_read, e) \<and>
         child command do_read s ending \<and> popen_opens s do_read e fp fd (near_end do_read (ps_proc s)) ending s')"
proof (cases new)
  case None
  then show ?thesis using call by (auto simp: popen_with_def popen_left_def)
next
  case (Some fp)
  let ?i = "\<lparr>st_fileno = - 1, st_no_reads = False, st_no_writes = False, st_pid = 0\<rparr>"
  let ?s = "s\<lparr>ps_heap := (ps_heap s)(fp \<mapsto> ?i)\<rparr>"
  obtain x u where x: "proc_open fp command mode ?s = (x, u)" by fastforce
  have c: "case x of
       None \<Rightarrow> open_left fp ?s u
     | Some fp' \<Rightarrow> fp' = fp \<and> (\<exists>do_read e fd ending. popen_mode mode = Some (do_read, e) \<and>
         child command do_read ?s ending \<and> popen_opens ?s do_read e fp fd (near_end do_read (ps_proc ?s)) ending u)"
    by (rule contract [OF x, where st = ?i]) simp_all
  show ?thesis
  proof (cases x)
    case None
    then have "r = None" "s' = u\<lparr>ps_heap := (ps_heap u)(fp := None)\<rparr>"
      using call Some x by (auto simp: popen_with_def)
    then show ?thesis using c None fresh [OF Some] by (auto simp: open_left_def popen_left_def fun_eq_iff)
  next
    case (Some fp')
    then have r: "r = Some fp" "s' = u"
      using call \<open>new = Some fp\<close> x c by (auto simp: popen_with_def)
    obtain do_read e fd ending where h: "popen_mode mode = Some (do_read, e)" "child command do_read ?s ending"
        "popen_opens ?s do_read e fp fd (near_end do_read (ps_proc s)) ending u"
      using c Some by auto
    have "child command do_read s ending"
      by (rule child_cong [OF h(2)]) (use fresh [OF \<open>new = Some fp\<close>] in \<open>auto simp: io_fileno_def\<close>)
    moreover have "popen_opens s do_read e fp fd (near_end do_read (ps_proc s)) ending s'"
      using h(3) r(2) by (simp add: popen_opens_def)
    ultimately show ?thesis using h(1) r(1) \<open>new = Some fp\<close> by auto
  qed
qed

lemma popen_keeps_streams:
  assumes "popen_with proc_open new command mode s = (r, s')" "streams_ok s"
    and "\<And>fp. new = Some fp \<Longrightarrow> ps_heap s fp = None"
  shows "streams_ok s'"
proof -
  have fresh: "ps_heap s fp = None \<and> fp \<notin> set (ps_chain s)" if "new = Some fp" for fp
    using assms(3) [OF that] streams_ok_in_heap [OF assms(2)] by blast
  note c = popen_contract [OF assms(1) fresh]
  show ?thesis
  proof (cases r)
    case None
    then show ?thesis using c by (intro streams_ok_cong [OF assms(2)]) (simp_all add: popen_left_def io_fileno_def)
  next
    case (Some fp)
    then show ?thesis using c fresh popen_opens_ok [OF _ assms(2)] by auto
  qed
qed

lemma popen_step_ok: "popen_step proc_open os s s' \<Longrightarrow> streams_ok s \<Longrightarrow> streams_ok s'"
proof (induction rule: popen_step.induct)
  case (popened s fp command mode r s')
  then show ?case using popen_keeps_streams by blast
next
  case (pclosed fp s status s')
  then show ?case using proc_close_ok by blast
next
  case (freed fp s)
  then show ?case by (intro streams_ok_cong [OF freed(2)]) (auto simp: io_fileno_def)
next
  case (elsewhere s p)
  then show ?case by (intro streams_ok_cong [OF elsewhere(2)]) (auto simp: io_fileno_def)
qed

end

sublocale proc_opener \<subseteq> streams: invariant_system "popen_step proc_open os" streams_ok for os
  by unfold_locales (rule popen_step_ok)

lemma popen_running_cong:
  assumes "ps_proc s' = ps_proc s" "ps_chain s' = ps_chain s" "\<And>a. a \<in> set (ps_chain s) \<Longrightarrow> io_fileno s' a = io_fileno s a"
  shows "popen_running command do_read s' = popen_running command do_read s"
  using assms by (simp add: popen_running_def cong: image_cong)

interpretation o232: proc_opener "proc_open_232 os" "\<lambda>command do_read s ending. ending = popen_running command do_read s" for os
proof unfold_locales
  show "case r of None \<Rightarrow> open_left fp s s'
     | Some fp' \<Rightarrow> fp' = fp \<and> (\<exists>do_read e fd ending. popen_mode mode = Some (do_read, e) \<and>
         ending = popen_running command do_read s \<and>
         popen_opens s do_read e fp fd (near_end do_read (ps_proc s)) ending s')"
    if "proc_open_232 os fp command mode s = (r, s')" "ps_heap s fp = Some st" "st_fileno st = - 1"
    for fp command mode s r s' st
    using that by (rule proc_open_232_contract)
  show "ending = popen_running command do_read s'"
    if "ending = popen_running command do_read s" "ps_proc s' = ps_proc s" "ps_chain s' = ps_chain s"
      "\<And>a. a \<in> set (ps_chain s) \<Longrightarrow> io_fileno s' a = io_fileno s a" for command do_read s ending s'
    using popen_running_cong [OF that(2-4)] that(1) by simp
qed

interpretation o227: proc_opener "proc_open_227 os" "child_227 os" for os
proof unfold_locales
  show "case r of None \<Rightarrow> open_left fp s s'
     | Some fp' \<Rightarrow> fp' = fp \<and> (\<exists>do_read e fd ending. popen_mode mode = Some (do_read, e) \<and>
         child_227 os command do_read s ending \<and>
         popen_opens s do_read e fp fd (near_end do_read (ps_proc s)) ending s')"
    if "proc_open_227 os fp command mode s = (r, s')" "ps_heap s fp = Some st" "st_fileno st = - 1"
    for fp command mode s r s' st
    using that by (rule proc_open_227_contract)
  show "child_227 os command do_read s' ending"
    if "child_227 os command do_read s ending" "ps_proc s' = ps_proc s" "ps_chain s' = ps_chain s"
      "\<And>a. a \<in> set (ps_chain s) \<Longrightarrow> io_fileno s' a = io_fileno s a" for command do_read s ending s'
    using that(1,2) popen_running_cong [OF that(2-4), of command do_read]
    by (simp add: child_227_def split: option.split)
qed


context proc_opener begin

text \<open>The wait for a child that is there, interrupted however often.\<close>

lemma wait_child_result:
  assumes "wait_child os pid p = (r, q)" "map_of (children p) pid = Some ending"
  shows "r = (if disp p SIG_CHLD = Ignored then Inl ECHILD else Inr (os_wait_status os pid ending))"
  using assms
proof (induction os pid p rule: wait_child.induct)
  case (1 os pid p)
  obtain f p1 where nf: "next_fault p = (f, p1)" by fastforce
  from next_fault_faults [OF nf] obtain fs where p1: "p1 = p\<lparr>faults := fs\<rparr>" by blast
  show ?case
  proof (cases "f = Some EINTR")
    case True
    then have "wait_child os pid p1 = (r, q)"
      using 1(2) nf by (subst (asm) wait_child.simps) simp
    from 1(1) [OF nf [symmetric] True this] 1(3) show ?thesis by (simp add: p1)
  next
    case False
    then show ?thesis using 1(2,3) nf by (subst (asm) wait_child.simps) (auto simp: p1 split: if_splits)
  qed
qed

text \<open>
  A stream that is closed at once leaves no descriptor, and the status is that of its child. Where
  \<open>close\<close> reports an error, the child is not waited for.
\<close>

lemma popen_pclose:
  assumes call: "popen_with proc_open (Some fp) command mode s = (Some fp', s')"
    and ok: "streams_ok s" "ps_heap s fp = None" "fresh_pid (ps_proc s)"
    and close: "proc_close os' fp' s' = (status, s'')"
  shows "\<exists>do_read e ending. popen_mode mode = Some (do_read, e) \<and> child command do_read s ending \<and>
    children (ps_proc s') = (next_pid (ps_proc s), ending) # children (ps_proc s) \<and>
    fds (ps_proc s'') = fds (ps_proc s) \<and> ps_chain s'' = ps_chain s \<and>
    (if fst (next_fault (ps_proc s')) = None
     then children (ps_proc s'') = children (ps_proc s) \<and>
       status = (if disp (ps_proc s) SIG_CHLD = Ignored then - 1
                 else os_wait_status os' (next_pid (ps_proc s)) ending)
     else children (ps_proc s'') = children (ps_proc s') \<and> status = - 1)"
proof -
  let ?p = "ps_proc s"
  have "ps_heap s a = None \<and> a \<notin> set (ps_chain s)" if "Some fp = Some a" for a
    using that ok(2) streams_ok_in_heap [OF ok(1,2)] by simp
  from popen_contract [OF call this]
  obtain do_read e fd ending where o: "fp' = fp" "popen_mode mode = Some (do_read, e)" "child command do_read s ending"
    "popen_opens s do_read e fp fd (near_end do_read ?p) ending s'" by auto
  define p' where "p' = ps_proc s'"
  have fd: "fds ?p fd = None" "fds p' = (fds ?p)(fd \<mapsto> (near_end do_read ?p, e))" "io_fileno s' fp = fd"
    "ps_heap s' fp = Some (popen_stream do_read fd (next_pid ?p))" "ps_chain s' = fp # ps_chain s"
    "children p' = (next_pid ?p, ending) # children ?p" "disp p' = disp ?p"
    using o(4) by (simp_all add: p'_def popen_opens_def io_fileno_def popen_stream_def only_fds_def)
  have io: "io_fileno (s'\<lparr>ps_chain := c\<rparr>) fp = fd" for c using fd(3) by (simp add: io_fileno_def)
  have pid: "(case ps_heap s' fp of None \<Rightarrow> - 1 | Some st \<Rightarrow> st_pid st) = next_pid ?p"
    by (simp add: fd(4) popen_stream_def)
  obtain f q where nf: "next_fault p' = (f, q)" by fastforce
  from next_fault_faults [OF nf] obtain fs where q: "q = p'\<lparr>faults := fs\<rparr>" by blast
  have cl: "sys_close fd p' = (f, close_fd fd q)" using fd(2) nf by (simp add: sys_close_def)
  have table: "fds (close_fd fd q) = fds ?p" using fd(1,2) by (simp add: q close_fd_def fun_upd_idem)
  have "fds (ps_proc s'') = fds ?p \<and> ps_chain s'' = ps_chain s \<and>
    (if f = None
     then children (ps_proc s'') = children ?p \<and>
       status = (if disp ?p SIG_CHLD = Ignored then - 1 else os_wait_status os' (next_pid ?p) ending)
     else children (ps_proc s'') = children p' \<and> status = - 1)"
  proof (cases f)
    case (Some x)
    have "status = - 1" "ps_proc s'' = close_fd fd q" "ps_chain s'' = ps_chain s"
      using close cl Some
      by (auto simp: proc_close_def o(1) fd(5) io Let_def set_popen_errno_def simp flip: p'_def)
    then show ?thesis using Some table by (simp add: q close_fd_def)
  next
    case None
    obtain r u where w: "wait_child os' (next_pid ?p) (close_fd fd q) = (r, u)" by fastforce
    have r: "r = (if disp ?p SIG_CHLD = Ignored then Inl ECHILD else Inr (os_wait_status os' (next_pid ?p) ending))"
      using wait_child_result [OF w, of ending] fd(6,7) by (simp add: q close_fd_def)
    have "fds u = fds ?p" "children u = children ?p"
      using wait_child_effect [OF w] table fresh_pid_filter [OF ok(3)] fd(6) by (simp_all add: q close_fd_def)
    moreover have "status = (case r of Inl _ \<Rightarrow> - 1 | Inr x \<Rightarrow> x)" "ps_proc s'' = u" "ps_chain s'' = ps_chain s"
      using close cl None w pid
      by (auto simp: proc_close_def o(1) fd(5) io Let_def set_popen_errno_def simp flip: p'_def split: sum.splits)
    ultimately show ?thesis using None r by simp
  qed
  then show ?thesis using o(2,3) fd(6) nf by (auto simp: p'_def)
qed

end

subsection \<open>The versions agree\<close>

lemma proc_open_227_succeeds:
  assumes "popen_mode mode = Some (do_read, e)" "ps_heap s fp = Some st" "st_fileno st = - 1"
    "sys_pipe2 True (ps_proc s) = (Inr (a, b), q)" "faults (ps_proc s) = []"
  shows "fst (proc_open_227 os fp command mode s) = Some fp"
proof -
  have "faults q = []"
    using assms(4,5) by (auto simp: sys_pipe2_def next_fault_def Let_def split: option.splits)
  then have "fst (fork_child os body q) = Inr (next_pid q)" for body
    by (simp add: fork_child_def next_fault_def Let_def split: prod.split)
  moreover define v where "v body = snd (fork_child os body q)" for body
  ultimately have "fork_child os body q = (Inr (next_pid q), v body)" for body
    by (metis prod.collapse)
  then show ?thesis
    using assms(1-4) by (simp add: proc_open_227_def io_fileno_def Let_def)
qed

lemma popen_227_succeeds:
  assumes "popen_mode mode = Some (do_read, e)" "sys_pipe2 True (ps_proc s) = (Inr (a, b), q)" "faults (ps_proc s) = []"
  shows "\<exists>u. popen_227 os (Some fp) command mode s = (Some fp, u)"
proof -
  let ?i = "\<lparr>st_fileno = - 1, st_no_reads = False, st_no_writes = False, st_pid = 0\<rparr>"
  let ?s = "s\<lparr>ps_heap := (ps_heap s)(fp \<mapsto> ?i)\<rparr>"
  have "fst (proc_open_227 os fp command mode ?s) = Some fp"
    by (rule proc_open_227_succeeds [OF assms(1), where st = ?i]) (use assms(2,3) in simp_all)
  then show ?thesis
    by (cases "proc_open_227 os fp command mode ?s") (simp add: popen_227_def popen_with_def)
qed

lemma popen_opens_same:
  assumes "popen_opens s r e fp fd f ending s'" "popen_opens s r e fp fd' f ending u"
  shows "fds (ps_proc u) = fds (ps_proc s') \<and> only_fds (ps_proc s') (ps_proc u) \<and>
    ps_chain u = ps_chain s' \<and> ps_heap u = ps_heap s'"
proof -
  have "fd' = fd" using assms unfolding popen_opens_def by (metis Pair_inject sum.inject(2))
  then show ?thesis using assms by (simp add: popen_opens_def only_fds_def)
qed

lemma popen_versions_same:
  assumes call: "popen_232 os (Some fp) command mode s = (Some fp', s')"
    and ok: "streams_ok s" "ps_heap s fp = None"
    and quiet: "faults (ps_proc s) = []" "os_child_faults os (next_pid (ps_proc s)) = []"
      "ee_exec (os_env os) bin_sh (sh_args command) None = None"
  shows "\<exists>u. popen_227 os (Some fp) command mode s = (Some fp', u) \<and>
    fds (ps_proc u) = fds (ps_proc s') \<and> only_fds (ps_proc s') (ps_proc u) \<and>
    ps_chain u = ps_chain s' \<and> ps_heap u = ps_heap s'"
proof -
  have fresh: "ps_heap s a = None \<and> a \<notin> set (ps_chain s)" if "Some fp = Some a" for a
    using that ok(2) streams_ok_in_heap [OF ok] by simp
  obtain do_read e fd where o: "fp' = fp" "popen_mode mode = Some (do_read, e)"
    "popen_opens s do_read e fp fd (near_end do_read (ps_proc s)) (popen_running command do_read s) s'"
    using o232.popen_contract [OF call [unfolded popen_232_def] fresh] by auto
  obtain a b q where "sys_pipe2 True (ps_proc s) = (Inr (a, b), q)"
    using o(3) by (auto simp: popen_opens_def)
  then obtain u where u: "popen_227 os (Some fp) command mode s = (Some fp, u)"
    using popen_227_succeeds [OF o(2) _ quiet(1)] by blast
  obtain do_read' e' fd' ending where o': "popen_mode mode = Some (do_read', e')" "child_227 os command do_read' s ending"
    "popen_opens s do_read' e' fp fd' (near_end do_read' (ps_proc s)) ending u"
    using o227.popen_contract [OF u [unfolded popen_227_def] fresh] by auto
  have "ending = popen_running command do_read' s" using o'(2) quiet by (simp add: child_227_def)
  then show ?thesis using popen_opens_same [OF o(3)] o' o(1,2) u by simp
qed

end
