(* ===== verification/Glibc_Properties.thy ===== *)
theory Glibc_Properties
  imports Glibc_System Glibc_Popen Spawn_Properties
begin

text \<open>
  The properties of \<open>system\<close> and \<open>popen\<close> of glibc, with instances: a program that catches \<open>SIGINT\<close> and ignores
  \<open>SIGQUIT\<close>, and the process of \<open>Spawn_Properties\<close> with a kernel that can start a shell.
\<close>

subsection \<open>Concrete systems\<close>

definition ex_sys :: system_state where
  "ex_sys = \<lparr>sy_disp = (\<lambda>sig. if sig = SIGINT then Catch 1 else if sig = SIGQUIT then SIG_IGN else SIG_DFL),
     sy_intr = SIG_DFL, sy_quit = SIG_DFL, sa_refcntr = 0, sy_mask = (\<lambda>_. {SIG_NR 10}),
     sy_phase = (\<lambda>_. Outside), sy_result = (\<lambda>_. None), sy_errno = (\<lambda>_. None), sy_children = [], sy_killed = []\<rparr>"

lemma ex_sys_idle: "inside ex_sys = {}" "sa_refcntr ex_sys = 0" "sy_phase ex_sys t = Outside"
  by (simp_all add: ex_sys_def inside_def)

definition ex_sh_os :: spawn_os where
  "ex_sh_os = ex_os\<lparr>os_posix_spawn := (\<lambda>search prog args envp. None)\<rparr>"

definition ex_streams :: popen_state where
  "ex_streams = \<lparr>ps_proc = ex_parent, ps_heap = (\<lambda>_. None), ps_chain = [], ps_errno = None\<rparr>"

lemma ex_streams_ok: "streams_ok ex_streams" "ps_heap ex_streams a = None" "ps_proc ex_streams = ex_parent"
  by (simp_all add: ex_streams_def streams_ok_def)

lemma ex_popen: "fst (popen_232 ex_sh_os (Some 1) ''ls'' ''re'' ex_streams) = Some 1"
  "faults (ps_proc (snd (popen_232 ex_sh_os (Some 1) ''ls'' ''re'' ex_streams))) = []"
  by code_simp+

lemma ex_popenE:
  obtains s' where "popen_232 ex_sh_os (Some 1) ''ls'' ''re'' ex_streams = (Some 1, s')" "faults (ps_proc s') = []"
  using ex_popen by (metis prod.collapse)

subsection \<open>\<open>system\<close>\<close>

text \<open>C19: however the calls of \<open>system\<close> of several threads overlap, fail or, in version 2.32, are cancelled, the
  reference count is the number of threads inside; while there is one, both signals are ignored and the
  program's dispositions are saved, and when the last is gone they are in place. The calls that put dispositions and masks
  back succeed, as \<open>system.c\<close> says they must; in version 2.27, which looks at their results, those that set them up may fail.\<close>

theorem system_restores_dispositions:
  assumes "rtranclp step_232 s s' \<or> rtranclp step_227 s s'" "inside s = {}" "sa_refcntr s = 0"
  shows "sa_refcntr s' = int (card (inside s')) \<and>
    (if inside s' = {} then sy_disp s' SIGINT = sy_disp s SIGINT \<and> sy_disp s' SIGQUIT = sy_disp s SIGQUIT
     else sy_disp s' SIGINT = SIG_IGN \<and> sy_disp s' SIGQUIT = SIG_IGN \<and>
       sy_intr s' = sy_disp s SIGINT \<and> sy_quit s' = sy_disp s SIGQUIT)"
  using assms(1)
proof
  assume "rtranclp step_232 s s'"
  from v232.dispositions_restored [OF this assms(2,3)] show ?thesis by simp
next
  assume "rtranclp step_227 s s'"
  from v227.dispositions_restored [OF this assms(2,3)] show ?thesis by simp
qed

theorem system_restores_dispositions_witness:
  "\<exists>s'. rtranclp step_232 ex_sys s' \<and> inside s' = {0} \<and> sy_intr s' = Catch 1 \<and> sy_disp s' SIGINT = SIG_IGN"
proof -
  let ?s = "begun_232 0 ''ls'' (Inr 7) ex_sys"
  have run: "rtranclp step_232 ex_sys ?s" by (rule begun_232_run) (rule ex_sys_idle)
  have "inside ?s = {0}"
    by (auto simp: inside_def begun_232_def spawn_232_def block_sigchld_def enter_232_def Let_def setter_defs ex_sys_def)
  then show ?thesis
    using system_restores_dispositions [of ex_sys ?s] run ex_sys_idle
    by (intro exI [of _ ?s]) (auto simp: ex_sys_def)
qed

text \<open>C20: in version 2.27 a thread that is back from \<open>system\<close> has the signal mask it had before, and one that
  waits for its shell has \<open>SIGCHLD\<close> blocked besides, provided that the call that puts the mask back succeeds, as
  \<open>system.c\<close> says it must.\<close>

theorem system_227_keeps_masks:
  assumes "rtranclp step_227 s s'" "\<forall>t. sy_phase s t = Outside"
  shows "(sy_phase s' t = Outside \<longrightarrow> sy_mask s' t = sy_mask s t) \<and>
    (\<forall>omask pid. sy_phase s' t = Waiting omask pid \<longrightarrow>
      omask = sy_mask s t \<and> sy_mask s' t = insert SIGCHLD (sy_mask s t))"
proof -
  have "masks_ok (sy_mask s) s" using assms(2) by (simp add: masks_ok_def)
  from masks_ok_at [OF mask_227.reaches_inv [OF assms(1) this], of t]
  show ?thesis by auto
qed

theorem system_227_keeps_masks_witness:
  "\<exists>s'. rtranclp step_227 ex_sys s' \<and> sy_phase s' 0 = Blocked {SIG_NR 10} \<and>
    sy_phase s' 1 = Outside \<and> sy_mask s' 1 = {SIG_NR 10}"
proof -
  let ?a = "enter_227 0 None None ex_sys"
  let ?b = "block_227 0 None ?a"
  have p: "sy_phase ?a 0 = Entered" "sy_phase ?b 0 = Blocked {SIG_NR 10}" "sy_phase ?b 1 = Outside"
    by (simp_all add: enter_227_def block_227_def block_sigchld_def Let_def setter_defs ex_sys_def)
  have "step_227 ex_sys ?a" "step_227 ?a ?b"
    using ex_sys_idle(3) p(1) by (auto intro: step_227.enter step_227.block)
  then have run: "rtranclp step_227 ex_sys ?b" by (rule converse_rtranclp_into_rtranclp [OF _ r_into_rtranclp])
  have "sy_mask ?b 1 = sy_mask ex_sys 1"
    using system_227_keeps_masks [OF run, of 1] p(3) ex_sys_idle(3) by blast
  then show ?thesis using run p by (intro exI [of _ ?b]) (simp add: ex_sys_def)
qed

text \<open>C21: in version 2.32 only the last thread to leave restores its mask: whenever no call is under way, two threads
  can call \<open>system\<close> such that both return and the first is left with \<open>SIGCHLD\<close> blocked.\<close>

theorem system_232_leaks_the_mask:
  assumes "\<forall>v. sy_phase s v = Outside" "sa_refcntr s = 0" "t \<noteq> u"
  shows "\<exists>s'. rtranclp step_232 s s' \<and> (\<forall>v. sy_phase s' v = Outside) \<and> sa_refcntr s' = 0 \<and>
    sy_result s' t = Some 0 \<and> sy_mask s' t = insert SIGCHLD (sy_mask s t)"
  by (rule mask_leaks_232 [OF assms])

theorem system_232_leaks_the_mask_witness:
  "\<exists>s'. rtranclp step_232 ex_sys s' \<and> (\<forall>v. sy_phase s' v = Outside) \<and> sy_mask s' 0 = {SIGCHLD, SIG_NR 10}"
proof -
  have "\<exists>s'. rtranclp step_232 ex_sys s' \<and> (\<forall>v. sy_phase s' v = Outside) \<and> sa_refcntr s' = 0 \<and>
    sy_result s' 0 = Some 0 \<and> sy_mask s' 0 = insert SIGCHLD (sy_mask ex_sys 0)"
    by (rule system_232_leaks_the_mask [where u = 1]) (simp_all add: ex_sys_idle)
  then show ?thesis by (auto simp: ex_sys_def)
qed

text \<open>C22: a call on its own returns as soon as \<open>waitpid\<close> answers with anything but \<open>EINTR\<close>, however often it is
  interrupted before. It is a run of the system; dispositions, mask and counter are as before, and
  the shell was started with the caller's mask and the program's dispositions.\<close>

theorem system_alone_restores_everything:
  assumes "sa_refcntr s = 0" "sy_phase s t = Outside" "w \<noteq> Inl EINTR"
  shows "\<exists>status s'. do_system_232 t line ret (replicate n (Inl EINTR) @ w # ws) s = Some (status, s') \<and>
    rtranclp step_232 s s' \<and> sy_phase s' t = Outside \<and>
    sy_disp s' = sy_disp s \<and> sy_mask s' = sy_mask s \<and> sa_refcntr s' = 0 \<and>
    sy_children s' = (case ret of Inl _ \<Rightarrow> sy_children s
      | Inr pid \<Rightarrow> \<lparr>sc_pid = pid, sc_args = [''sh'', ''-c'', line], sc_mask = sy_mask s t,
          sc_disp = exec_disp (sy_disp s)\<rparr> # sy_children s)"
proof -
  obtain status s' where r: "do_system_232 t line ret (replicate n (Inl EINTR) @ w # ws) s = Some (status, s')"
    using do_system_232_returns [OF assms(3)] by blast
  show ?thesis
    using r do_system_232_run [OF r assms(2)] do_system_232_alone [OF r assms(1), unfolded shell_args_def] by blast
qed

theorem system_alone_restores_everything_witness:
  "\<exists>status s'. do_system_232 0 ''ls'' (Inr 7) [Inl EINTR, Inl EINTR, Inr 256] ex_sys = Some (status, s') \<and>
    sy_mask s' = sy_mask ex_sys"
  using system_alone_restores_everything [of ex_sys 0 "Inr 256" "''ls''" "Inr 7" 2 "[]"] ex_sys_idle
  by (auto simp: numeral_2_eq_2)

text \<open>C23: on a call on its own, with every other system call succeeding, the two versions of \<open>system\<close> return the same
  status and leave the same state, the started shell included, for a line and for \<open>NULL\<close>.\<close>

theorem system_versions_agree:
  assumes "sa_refcntr s = 0" "sy_phase s t = Outside"
  shows "libc_system_227 t line (all_succeed ret ws) s = libc_system_232 t line ret ws s"
  by (cases line) (simp_all add: libc_system_227_def libc_system_232_def do_system_same [OF assms])

theorem system_versions_agree_witness:
  "libc_system_227 0 None (all_succeed (Inr 7) [Inr 0]) ex_sys = libc_system_232 0 None (Inr 7) [Inr 0] ex_sys \<and>
    map_option fst (libc_system_232 0 None (Inr 7) [Inr 0] ex_sys) = Some 1"
proof
  show "libc_system_227 0 None (all_succeed (Inr 7) [Inr 0]) ex_sys = libc_system_232 0 None (Inr 7) [Inr 0] ex_sys"
    by (rule system_versions_agree) (rule ex_sys_idle)+
  have "map_option fst (do_system_232 0 ''exit 0'' (Inr 7) [Inr 0] ex_sys) = Some 0"
    by (simp add: do_system_232_begun begun_232_phase wait_shell_def Let_def)
  then show "map_option fst (libc_system_232 0 None (Inr 7) [Inr 0] ex_sys) = Some 1"
    by (auto simp: libc_system_232_def)
qed

subsection \<open>\<open>popen\<close>\<close>

text \<open>C24: a \<open>popen\<close> that fails, in either version and at whichever call, leaves no descriptor, no child, no stream in the
  chain and no memory behind.\<close>

theorem popen_failure_leaves_nothing:
  assumes "popen_232 os new command mode s = (None, s') \<or> popen_227 os new command mode s = (None, s')"
    and "streams_ok s" "\<forall>fp. new = Some fp \<longrightarrow> ps_heap s fp = None"
  shows "fds (ps_proc s') = fds (ps_proc s) \<and> children (ps_proc s') = children (ps_proc s) \<and>
    ps_chain s' = ps_chain s \<and> ps_heap s' = ps_heap s"
proof -
  have fresh: "ps_heap s fp = None \<and> fp \<notin> set (ps_chain s)" if "new = Some fp" for fp
    using assms(3) that streams_ok_in_heap [OF assms(2)] by blast
  have "popen_left s s'"
    using assms(1)
  proof
    assume "popen_232 os new command mode s = (None, s')"
    from o232.popen_contract [OF this [unfolded popen_232_def] fresh] show ?thesis by simp
  next
    assume "popen_227 os new command mode s = (None, s')"
    from o227.popen_contract [OF this [unfolded popen_227_def] fresh] show ?thesis by simp
  qed
  then show ?thesis by (simp add: popen_left_def only_fds_def)
qed

theorem popen_failure_leaves_nothing_witness:
  "\<exists>s'. popen_232 ex_os (Some 1) ''ls'' ''r'' ex_streams = (None, s') \<and> fds (ps_proc s') = fds ex_parent"
proof -
  have "fst (popen_232 ex_os (Some 1) ''ls'' ''r'' ex_streams) = None" by code_simp
  then obtain s' where r: "popen_232 ex_os (Some 1) ''ls'' ''r'' ex_streams = (None, s')" by (metis prod.collapse)
  then show ?thesis
    using popen_failure_leaves_nothing [OF disjI1 [OF r] ex_streams_ok(1)] by (simp add: ex_streams_ok)
qed

text \<open>C25: the shell that \<open>popen\<close> of version 2.32 starts has its end of the pipe as standard input or output and, of
  everything else that was open, exactly what is not close-on-exec and not a stream of an earlier \<open>popen\<close>. The caller has
  one new descriptor, the other end, close-on-exec exactly if the mode has an \<open>e\<close>.\<close>

theorem popen_child_gets_one_end:
  assumes "popen_232 os (Some fp) command mode s = (Some fp', s')" "streams_ok s" "ps_heap s fp = None"
  shows "\<exists>im fd. children (ps_proc s') = (next_pid (ps_proc s), Running bin_sh [''sh'', ''-c'', command] im) # children (ps_proc s) \<and>
    (\<forall>n. im_fds im n =
      (if n = (if CHR ''r'' \<in> set mode then 1 else 0)
       then Some ((if CHR ''r'' \<in> set mode then Pipe_Write else Pipe_Read) (next_pipe (ps_proc s)))
       else if n \<in> io_fileno s ` set (ps_chain s) then None
       else case fds (ps_proc s) n of Some (f, False) \<Rightarrow> Some f | _ \<Rightarrow> None)) \<and>
    fds (ps_proc s) fd = None \<and> fds (ps_proc s') = (fds (ps_proc s))(fd \<mapsto>
      ((if CHR ''r'' \<in> set mode then Pipe_Read else Pipe_Write) (next_pipe (ps_proc s)), CHR ''e'' \<in> set mode))"
proof -
  have fresh: "ps_heap s a = None \<and> a \<notin> set (ps_chain s)" if "Some fp = Some a" for a
    using that assms(3) streams_ok_in_heap [OF assms(2,3)] by simp
  obtain do_read e fd where o: "popen_mode mode = Some (do_read, e)"
    "popen_opens s do_read e fp fd (near_end do_read (ps_proc s)) (popen_running command do_read s) s'"
    using o232.popen_contract [OF assms(1) [unfolded popen_232_def] fresh] by auto
  have m: "do_read = (CHR ''r'' \<in> set mode)" "e = (CHR ''e'' \<in> set mode)"
    using o(1) by (simp_all add: popen_mode_iff)
  show ?thesis
    using o(2)
    by (intro exI [of _ "popen_image (std_of do_read) (far_end do_read (ps_proc s)) (io_fileno s ` set (ps_chain s)) (ps_proc s)"]
        exI [of _ fd])
      (auto simp: popen_opens_def only_fds_def popen_running_def sh_args_def popen_image_def near_end_def far_end_def std_of_def m)
qed

theorem popen_child_gets_one_end_witness:
  "\<exists>s' im fd. popen_232 ex_sh_os (Some 1) ''ls'' ''re'' ex_streams = (Some 1, s') \<and>
    children (ps_proc s') = [(100, Running bin_sh [''sh'', ''-c'', ''ls''] im)] \<and>
    im_fds im 0 = Some (Other_File 0) \<and> im_fds im 1 = Some (Pipe_Write 0) \<and> im_fds im 3 = None \<and>
    fds (ps_proc s') fd = Some (Pipe_Read 0, True)"
proof -
  obtain s' where r: "popen_232 ex_sh_os (Some 1) ''ls'' ''re'' ex_streams = (Some 1, s')" by (rule ex_popenE)
  show ?thesis
    using popen_child_gets_one_end [OF r ex_streams_ok(1,2)] r
    by (auto simp: ex_streams_def ex_parent_def)
qed


text \<open>C26: closing a stream right after it was opened takes its descriptor and its place in the chain away
  again, in both versions, whatever fails. If \<open>close\<close> reports no error, the child is reaped, however
  often the wait is interrupted, and the result is its wait status, or - 1 in a process that ignores \<open>SIGCHLD\<close>,
  where the kernel keeps no status. If \<open>close\<close> reports an error, the result is - 1 and the child is not waited for: it stays
  a child of the process. The chain is sound (\<open>streams_ok\<close>), the block for the stream is new, and the
  kernel does not reuse the number of a child that is not reaped (\<open>fresh_pid\<close>).\<close>

theorem popen_then_pclose:
  assumes "popen_232 os (Some fp) command mode s = (Some fp', s') \<or> popen_227 os (Some fp) command mode s = (Some fp', s')"
    and "streams_ok s" "ps_heap s fp = None" "fresh_pid (ps_proc s)"
    and "proc_close os fp' s' = (status, s'')"
  shows "fds (ps_proc s'') = fds (ps_proc s) \<and> ps_chain s'' = ps_chain s \<and>
    (\<exists>ending. children (ps_proc s') = (next_pid (ps_proc s), ending) # children (ps_proc s) \<and>
      (if fst (next_fault (ps_proc s')) = None
       then children (ps_proc s'') = children (ps_proc s) \<and>
         status = (if disp (ps_proc s) SIG_CHLD = Ignored then - 1
                   else os_wait_status os (next_pid (ps_proc s)) ending)
       else children (ps_proc s'') = children (ps_proc s') \<and> status = - 1))"
  using assms(1)
proof
  assume "popen_232 os (Some fp) command mode s = (Some fp', s')"
  from o232.popen_pclose [OF this [unfolded popen_232_def] assms(2-5)] show ?thesis by blast
next
  assume "popen_227 os (Some fp) command mode s = (Some fp', s')"
  from o227.popen_pclose [OF this [unfolded popen_227_def] assms(2-5)] show ?thesis by blast
qed

theorem popen_then_pclose_witness:
  "\<exists>s' s''. popen_232 ex_sh_os (Some 1) ''ls'' ''re'' ex_streams = (Some 1, s') \<and>
    proc_close ex_sh_os 1 s' = (0, s'') \<and> children (ps_proc s'') = [] \<and> fds (ps_proc s'') = fds (ps_proc ex_streams)"
proof -
  obtain s' where r: "popen_232 ex_sh_os (Some 1) ''ls'' ''re'' ex_streams = (Some 1, s')" "faults (ps_proc s') = []"
    by (rule ex_popenE)
  obtain status s'' where c: "proc_close ex_sh_os 1 s' = (status, s'')" by fastforce
  have f: "fresh_pid (ps_proc ex_streams)" "disp (ps_proc ex_streams) SIG_CHLD \<noteq> Ignored"
    "fst (next_fault (ps_proc s')) = None"
    using ex_parent_fresh r(2) by (simp_all add: ex_streams_ok ex_parent_def next_fault_def)
  from popen_then_pclose [OF disjI1 [OF r(1)] ex_streams_ok(1,2) f(1) c] f(2,3)
  obtain ending where e: "children (ps_proc s') = [(100, ending)]" "fds (ps_proc s'') = fds (ps_proc ex_streams)"
    "status = os_wait_status ex_sh_os 100 ending" "children (ps_proc s'') = []"
    by (auto simp: ex_streams_ok ex_parent_def)
  have "map (\<lambda>(c, x). case x of Running f as im \<Rightarrow> True | _ \<Rightarrow> False)
      (children (ps_proc (snd (popen_232 ex_sh_os (Some 1) ''ls'' ''re'' ex_streams)))) = [True]"
    by code_simp
  then have "\<exists>f as im. ending = Running f as im" using r(1) e(1) by (simp split: child_end.splits)
  then show ?thesis using r(1) c e by (auto simp: ex_sh_os_def ex_os_def)
qed

text \<open>Along every run of a program that opens streams, closes them in any order, frees them and otherwise leaves their
  descriptors alone, the open streams have distinct descriptors, all of them open.\<close>

theorem streams_keep_their_descriptors:
  assumes "rtranclp (popen_step (proc_open_232 os) os) s s' \<or> rtranclp (popen_step (proc_open_227 os) os) s s'"
    and "ps_chain s = []"
  shows "distinct (ps_chain s') \<and> distinct (map (io_fileno s') (ps_chain s')) \<and>
    (\<forall>fp \<in> set (ps_chain s'). 0 \<le> io_fileno s' fp \<and> fds (ps_proc s') (io_fileno s' fp) \<noteq> None)"
proof -
  have ok: "streams_ok s" using assms(2) by (simp add: streams_ok_def)
  have "streams_ok s'"
    using assms(1) o232.streams.reaches_inv [OF _ ok] o227.streams.reaches_inv [OF _ ok] by blast
  then show ?thesis by (simp add: streams_ok_def distinct_map)
qed

theorem streams_keep_their_descriptors_witness:
  "\<exists>s'. rtranclp (popen_step (proc_open_232 ex_sh_os) ex_sh_os) ex_streams s' \<and>
    (\<forall>fp \<in> set (ps_chain s'). fds (ps_proc s') (io_fileno s' fp) \<noteq> None) \<and> ps_chain s' = [1]"
proof -
  obtain s' where r: "popen_232 ex_sh_os (Some 1) ''ls'' ''re'' ex_streams = (Some 1, s')" by (rule ex_popenE)
  have "popen_step (proc_open_232 ex_sh_os) ex_sh_os ex_streams s'"
    using r by (intro popen_step.popened [where fp = 1]) (simp_all add: popen_232_def ex_streams_ok)
  then have run: "rtranclp (popen_step (proc_open_232 ex_sh_os) ex_sh_os) ex_streams s'" by (rule r_into_rtranclp)
  have "ps_chain (snd (popen_232 ex_sh_os (Some 1) ''ls'' ''re'' ex_streams)) = [1]" by code_simp
  then have "ps_chain s' = [1]" using r by simp
  then show ?thesis
    using streams_keep_their_descriptors [OF disjI1 [OF run]] run by (auto simp: ex_streams_def)
qed

text \<open>Where nothing fails and the shell can be started, \<open>popen\<close> through \<open>fork\<close> does what it does through
  \<open>posix_spawn\<close>: if version 2.32 returns a stream, version 2.27 returns it too, with the same descriptors, the same
  child started in the same way, and the same streams.\<close>

theorem popen_versions_agree:
  assumes "popen_232 os (Some fp) command mode s = (Some fp', s')" "streams_ok s" "ps_heap s fp = None"
    and "faults (ps_proc s) = []" "os_child_faults os (next_pid (ps_proc s)) = []"
      "ee_exec (os_env os) bin_sh [''sh'', ''-c'', command] None = None"
  shows "\<exists>u. popen_227 os (Some fp) command mode s = (Some fp', u) \<and>
    fds (ps_proc u) = fds (ps_proc s') \<and> children (ps_proc u) = children (ps_proc s') \<and>
    ps_chain u = ps_chain s' \<and> ps_heap u = ps_heap s'"
  using popen_versions_same [OF assms(1-5) assms(6) [folded sh_args_def]] by (auto simp: only_fds_def)

theorem popen_versions_agree_witness:
  "\<exists>s' u. popen_232 ex_sh_os (Some 1) ''ls'' ''re'' ex_streams = (Some 1, s') \<and>
    popen_227 ex_sh_os (Some 1) ''ls'' ''re'' ex_streams = (Some 1, u) \<and>
    children (ps_proc u) = children (ps_proc s')"
proof -
  obtain s' where r: "popen_232 ex_sh_os (Some 1) ''ls'' ''re'' ex_streams = (Some 1, s')" by (rule ex_popenE)
  show ?thesis
    using popen_versions_agree [OF r ex_streams_ok(1,2)] r
    by (auto simp: ex_streams_ok ex_parent_def ex_sh_os_def ex_os_def ex_env_os_def ex_exec_def bin_sh_def)
qed

end
