(* ===== verification/Frame_Ipc.thy ===== *)
theory Frame_Ipc
  imports Spawn_Util
begin

text \<open>
  The library \<open>InterProcessComm/code/shm+sem/frame_ipc.c\<close>: frames handed from a sender to a receiver
  through a System V shared memory segment, with a semaphore that counts them. The kernel objects are
  shared by all processes; \<open>g_flag\<close> and \<open>g_addr\<close> belong to the process that sends. A receiver that blocks
  in \<open>semop\<close> is \<open>Stuck\<close>, an access outside of a mapping has \<open>Crashed\<close>.
\<close>

subsection \<open>The kernel\<close>

text \<open>A segment whose key is gone is removed with its last attachment.\<close>

record shm_segment =
  sg_mem :: "8 word list"
  sg_size :: int
  sg_nattch :: nat
  sg_key :: "int option"

record sysv =
  sv_segs :: "int \<Rightarrow> shm_segment option"
  sv_shm_keys :: "int \<Rightarrow> int option"
  sv_sems :: "int \<Rightarrow> (int \<times> int) option"
  sv_sem_keys :: "int \<Rightarrow> int option"
  sv_undo :: "nat \<Rightarrow> int \<Rightarrow> int"
  sv_next :: int
  sv_shmmax :: int

datatype shm_ptr = NullPtr | BadPtr | Mapped int

datatype 'a call_end = Returned 'a | Stuck | Crashed

definition ERANGE :: errno where "ERANGE = E_OTHER 34"

definition SEMVMX :: int where "SEMVMX = 32767"
definition SEMAEM :: int where "SEMAEM = 32767"

definition page_round :: "int \<Rightarrow> nat" where
  "page_round n = nat ((n + 4095) div 4096 * 4096)"

text \<open>\<open>shmget\<close> with \<open>IPC_CREAT | IPC_EXCL\<close>, or with neither.\<close>

definition sys_shmget :: "int \<Rightarrow> int \<Rightarrow> bool \<Rightarrow> sysv \<Rightarrow> (errno + int) \<times> sysv" where
  "sys_shmget key n creat k =
    (case sv_shm_keys k key of
       Some i \<Rightarrow>
         if creat then (Inl EEXIST, k)
         else (case sv_segs k i of
                 None \<Rightarrow> (Inl ENOENT, k)
               | Some sg \<Rightarrow> if sg_size sg < n then (Inl EINVAL, k) else (Inr i, k))
     | None \<Rightarrow>
         if \<not> creat then (Inl ENOENT, k)
         else if n \<le> 0 \<or> sv_shmmax k < n then (Inl EINVAL, k)
         else
           (let i = sv_next k
            in (Inr i, k\<lparr>sv_next := i + 1, sv_shm_keys := (sv_shm_keys k)(key \<mapsto> i),
                sv_segs := (sv_segs k)(i \<mapsto> \<lparr>sg_mem = replicate (page_round n) 0, sg_size = n, sg_nattch = 0,
                  sg_key = Some key\<rparr>)\<rparr>)))"

definition sys_shmat :: "int \<Rightarrow> sysv \<Rightarrow> shm_ptr \<times> sysv" where
  "sys_shmat i k =
    (case sv_segs k i of
       None \<Rightarrow> (BadPtr, k)
     | Some sg \<Rightarrow> (Mapped i, k\<lparr>sv_segs := (sv_segs k)(i \<mapsto> sg\<lparr>sg_nattch := sg_nattch sg + 1\<rparr>)\<rparr>))"

definition sys_shmdt :: "shm_ptr \<Rightarrow> sysv \<Rightarrow> sysv" where
  "sys_shmdt addr k =
    (case addr of
       Mapped i \<Rightarrow>
         (case sv_segs k i of
            None \<Rightarrow> k
          | Some sg \<Rightarrow>
              (let n = sg_nattch sg - 1
               in k\<lparr>sv_segs := (sv_segs k)(i := (if n = 0 \<and> sg_key sg = None then None
                    else Some (sg\<lparr>sg_nattch := n\<rparr>)))\<rparr>))
     | _ \<Rightarrow> k)"

definition shm_rmid :: "int \<Rightarrow> sysv \<Rightarrow> sysv" where
  "shm_rmid i k =
    (case sv_segs k i of
       None \<Rightarrow> k
     | Some sg \<Rightarrow>
         k\<lparr>sv_shm_keys := (case sg_key sg of None \<Rightarrow> sv_shm_keys k | Some key \<Rightarrow> (sv_shm_keys k)(key := None)),
           sv_segs := (sv_segs k)(i := (if sg_nattch sg = 0 then None else Some (sg\<lparr>sg_key := None\<rparr>)))\<rparr>)"

text \<open>A set of one semaphore is its key and its value.\<close>

definition sys_semget :: "int \<Rightarrow> bool \<Rightarrow> sysv \<Rightarrow> (errno + int) \<times> sysv" where
  "sys_semget key creat k =
    (case sv_sem_keys k key of
       Some i \<Rightarrow> if creat then (Inl EEXIST, k) else (Inr i, k)
     | None \<Rightarrow>
         if \<not> creat then (Inl ENOENT, k)
         else
           (let i = sv_next k
            in (Inr i, k\<lparr>sv_next := i + 1, sv_sem_keys := (sv_sem_keys k)(key \<mapsto> i),
                sv_sems := (sv_sems k)(i \<mapsto> (key, 0)), sv_undo := (\<lambda>pid. (sv_undo k pid)(i := 0))\<rparr>)))"

definition sem_rmid :: "int \<Rightarrow> sysv \<Rightarrow> sysv" where
  "sem_rmid i k =
    (case sv_sems k i of
       None \<Rightarrow> k
     | Some (key, v) \<Rightarrow>
         k\<lparr>sv_sem_keys := (sv_sem_keys k)(key := None), sv_sems := (sv_sems k)(i := None)\<rparr>)"

text \<open>\<open>SETVAL\<close> clears what the processes would undo.\<close>

definition sem_setval :: "int \<Rightarrow> int \<Rightarrow> sysv \<Rightarrow> sysv" where
  "sem_setval i v k =
    (case sv_sems k i of
       None \<Rightarrow> k
     | Some (key, _) \<Rightarrow>
         k\<lparr>sv_sems := (sv_sems k)(i \<mapsto> (key, v)), sv_undo := (\<lambda>pid. (sv_undo k pid)(i := 0))\<rparr>)"

text \<open>\<open>semop\<close> of one operation with \<open>SEM_UNDO\<close>, as the kernel decides it.\<close>

definition sys_semop :: "nat \<Rightarrow> int \<Rightarrow> int \<Rightarrow> sysv \<Rightarrow> (errno option \<times> sysv) call_end" where
  "sys_semop pid i n k =
    (case sv_sems k i of
       None \<Rightarrow> Returned (Some EINVAL, k)
     | Some (key, v) \<Rightarrow>
         (let r = v + n; undo = sv_undo k pid i - n
          in if r < 0 then Stuck
             else if r > SEMVMX then Returned (Some ERANGE, k)
             else if undo < - SEMAEM - 1 \<or> undo > SEMAEM then Returned (Some ERANGE, k)
             else Returned (None, k\<lparr>sv_sems := (sv_sems k)(i \<mapsto> (key, r)),
               sv_undo := (sv_undo k)(pid := (sv_undo k pid)(i := undo))\<rparr>)))"

text \<open>The end of a process: what it has done to the semaphore is undone, within the limits of its value.\<close>

definition exit_sem :: "nat \<Rightarrow> int \<Rightarrow> sysv \<Rightarrow> sysv" where
  "exit_sem pid i k =
    (case sv_sems k i of
       None \<Rightarrow> k
     | Some (key, v) \<Rightarrow>
         k\<lparr>sv_sems := (sv_sems k)(i \<mapsto> (key, max 0 (min SEMVMX (v + sv_undo k pid i)))),
           sv_undo := (sv_undo k)(pid := (sv_undo k pid)(i := 0))\<rparr>)"

subsection \<open>Memory\<close>

definition mem_at :: "shm_ptr \<Rightarrow> sysv \<Rightarrow> 8 word list option" where
  "mem_at addr k = (case addr of Mapped i \<Rightarrow> map_option sg_mem (sv_segs k i) | _ \<Rightarrow> None)"

definition poke :: "shm_ptr \<Rightarrow> int \<Rightarrow> 8 word list \<Rightarrow> sysv \<Rightarrow> sysv option" where
  "poke addr off bs k =
    (case addr of
       Mapped i \<Rightarrow>
         (case sv_segs k i of
            None \<Rightarrow> None
          | Some sg \<Rightarrow>
              if off < 0 \<or> int (length (sg_mem sg)) < off + int (length bs) then None
              else Some (k\<lparr>sv_segs := (sv_segs k)(i \<mapsto> sg\<lparr>sg_mem :=
                take (nat off) (sg_mem sg) @ bs @ drop (nat off + length bs) (sg_mem sg)\<rparr>)\<rparr>))
     | _ \<Rightarrow> None)"

text \<open>\<open>memcpy\<close> of \<open>n\<close> bytes from a buffer; the guard of the caller is \<open>buf \<noteq> NULL \<and> n > 0\<close>.\<close>

definition copy_in :: "shm_ptr \<Rightarrow> int \<Rightarrow> 8 word list option \<Rightarrow> int \<Rightarrow> sysv \<Rightarrow> sysv option" where
  "copy_in addr off buf n k =
    (case buf of
       None \<Rightarrow> Some k
     | Some bs \<Rightarrow>
         if n \<le> 0 then Some k
         else if int (length bs) < n then None
         else poke addr off (take (nat n) bs) k)"

subsection \<open>The library\<close>

record ipc_ids =
  shm_id :: int
  sem_id :: int

record frame_proc =
  fp_pid :: nat
  g_flag :: int
  g_addr :: "shm_ptr list"

definition CREAT :: int where "CREAT = 0"

definition sem_op :: "bool \<Rightarrow> nat \<Rightarrow> int \<Rightarrow> sysv \<Rightarrow> (int \<times> sysv) call_end" where
  "sem_op p pid i k =
    (case sys_semop pid i (if p then - 1 else 1) k of
       Returned (None, k) \<Rightarrow> Returned (0, k)
     | Returned (Some e, k) \<Rightarrow> Returned (- 1, k)
     | Stuck \<Rightarrow> Stuck
     | Crashed \<Rightarrow> Crashed)"

definition id_of :: "errno + int \<Rightarrow> int" where
  "id_of r = (case r of Inl e \<Rightarrow> - 1 | Inr i \<Rightarrow> i)"

definition create_shm :: "int \<Rightarrow> int \<Rightarrow> sysv \<Rightarrow> int \<times> sysv" where
  "create_shm key n k =
    (case sys_shmget key n True k of
       (Inr i, k) \<Rightarrow> (i, k)
     | (Inl e, k) \<Rightarrow>
         if e = EEXIST then
           (case sys_shmget key 0 False k of (r, k) \<Rightarrow>
             (case sys_shmget key n True (shm_rmid (id_of r) k) of (r, k) \<Rightarrow> (id_of r, k)))
         else (- 1, k))"

definition create_sem :: "int \<Rightarrow> sysv \<Rightarrow> int \<times> sysv" where
  "create_sem key k =
    (case sys_semget key True k of
       (Inr i, k) \<Rightarrow> (i, k)
     | (Inl e, k) \<Rightarrow>
         if e = EEXIST then
           (case sys_semget key False k of (r, k) \<Rightarrow>
             (case sys_semget key True (sem_rmid (id_of r) k) of (r, k) \<Rightarrow> (id_of r, k)))
         else (- 1, k))"

text \<open>\<open>ftok\<close> gives the key for a path and a project number; the path is always \<open>/usr/lib\<close>.\<close>

definition create_shared_frame ::
    "(int \<Rightarrow> int) \<Rightarrow> int \<Rightarrow> frame_proc \<Rightarrow> sysv \<Rightarrow> (ipc_ids \<times> frame_proc \<times> sysv) call_end" where
  "create_shared_frame ftok n p k =
    (case create_shm (ftok (115 + g_flag p)) n k of (shm, k) \<Rightarrow>
     (case create_sem (ftok (97 + g_flag p)) k of (sem, k) \<Rightarrow>
      (let k = sem_setval sem 0 k
       in case sys_shmat shm k of (addr, k) \<Rightarrow>
         (case poke addr 0 (int_bytes 0) k of
            None \<Rightarrow> Crashed
          | Some k \<Rightarrow>
              (let k = sys_shmdt addr k; flag = g_flag p + 1
               in Returned (\<lparr>shm_id = shm, sem_id = sem\<rparr>,
                   p\<lparr>g_flag := flag, g_addr := replicate (nat flag) NullPtr\<rparr>, k))))))"

text \<open>
  The first word of the frame says whether it is in use. It is read before the address is compared with the
  one that reports an error.
\<close>

definition send_shared_frame ::
    "nat \<Rightarrow> ipc_ids \<Rightarrow> 8 word list option \<Rightarrow> int \<Rightarrow> 8 word list option \<Rightarrow> int \<Rightarrow> frame_proc \<Rightarrow> sysv
      \<Rightarrow> (int \<times> frame_proc \<times> sysv) call_end" where
  "send_shared_frame flag ids extra_data extra_len data len p k =
    (if flag \<ge> length (g_addr p) then Crashed
     else
       (case (if g_addr p ! flag = NullPtr then sys_shmat (shm_id ids) k else (g_addr p ! flag, k)) of (addr, k) \<Rightarrow>
         (let p = p\<lparr>g_addr := (g_addr p)[flag := addr]\<rparr>
          in case mem_at addr k of
               None \<Rightarrow> Crashed
             | Some mem \<Rightarrow>
                 if bytes_int (take 4 mem) = 0 then
                   (case copy_in addr 0 extra_data extra_len k of
                      None \<Rightarrow> Crashed
                    | Some k \<Rightarrow>
                        (case copy_in addr extra_len data len k of
                           None \<Rightarrow> Crashed
                         | Some k \<Rightarrow>
                             (case sem_op False (fp_pid p) (sem_id ids) k of
                                Returned (_, k) \<Rightarrow> Returned (0, p, k)
                              | Stuck \<Rightarrow> Stuck
                              | Crashed \<Rightarrow> Crashed)))
                 else Returned (- 1, p, k))))"

definition get_frame_start :: "(int \<Rightarrow> int) \<Rightarrow> int \<Rightarrow> sysv \<Rightarrow> int \<times> ipc_ids" where
  "get_frame_start ftok flag k =
    (let shm = id_of (fst (sys_shmget (ftok (115 + flag)) 0 False k));
         sem = id_of (fst (sys_semget (ftok (97 + flag)) False k))
     in (if shm < 0 \<or> sem < 0 then - 1 else 0, \<lparr>shm_id = shm, sem_id = sem\<rparr>))"

text \<open>The result of \<open>sem_op_\<close> is not looked at.\<close>

definition attach_shared_frame ::
    "nat \<Rightarrow> ipc_ids \<Rightarrow> nat \<Rightarrow> sysv \<Rightarrow> (shm_ptr \<times> 8 word list \<times> sysv) call_end" where
  "attach_shared_frame pid ids len k =
    (case sem_op True pid (sem_id ids) k of
       Stuck \<Rightarrow> Stuck
     | Crashed \<Rightarrow> Crashed
     | Returned (_, k) \<Rightarrow>
         (case sys_shmat (shm_id ids) k of (addr, k) \<Rightarrow>
           (case mem_at addr k of
              None \<Rightarrow> Crashed
            | Some mem \<Rightarrow> if length mem < len then Crashed else Returned (addr, take len mem, k))))"

definition deattach_shared_frame :: "shm_ptr \<Rightarrow> sysv \<Rightarrow> sysv call_end" where
  "deattach_shared_frame addr k =
    (case poke addr 0 (int_bytes 0) k of
       None \<Rightarrow> Crashed
     | Some k \<Rightarrow> Returned (sys_shmdt addr k))"

definition destroy_shared_frame :: "ipc_ids \<Rightarrow> sysv \<Rightarrow> sysv" where
  "destroy_shared_frame ids k = sem_rmid (sem_id ids) (shm_rmid (shm_id ids) k)"


subsection \<open>A sender and a receiver\<close>

text \<open>
  One process sends with a word in front that is not 0, another one takes frames of \<open>len\<close> bytes. What the receiver
  holds between \<open>AttachSharedFrame\<close> and \<open>DeattachSharedFrame\<close> is the address. An event that crashes has no
  result; a receiver that blocks has not done anything.
\<close>

record frame_sys =
  fs_k :: sysv
  fs_send :: frame_proc
  fs_recv :: "shm_ptr option"

datatype frame_event = Send "8 word list" "8 word list" | Attach | Deattach
datatype frame_answer = Accepted | Refused | Got "8 word list" | Blocked | Released

fun frame_step ::
    "nat \<Rightarrow> ipc_ids \<Rightarrow> nat \<Rightarrow> nat \<Rightarrow> frame_event \<Rightarrow> frame_sys \<Rightarrow> (frame_answer \<times> frame_sys) option" where
  "frame_step flag ids rpid len (Send extra data) s =
    (case send_shared_frame flag ids (Some extra) (int (length extra)) (Some data) (int (length data))
            (fs_send s) (fs_k s) of
       Returned (r, p, k) \<Rightarrow> Some (if r = 0 then Accepted else Refused, s\<lparr>fs_k := k, fs_send := p\<rparr>)
     | _ \<Rightarrow> None)"
| "frame_step flag ids rpid len Attach s =
    (case attach_shared_frame rpid ids len (fs_k s) of
       Returned (addr, f, k) \<Rightarrow> Some (Got f, s\<lparr>fs_k := k, fs_recv := Some addr\<rparr>)
     | Stuck \<Rightarrow> Some (Blocked, s)
     | Crashed \<Rightarrow> None)"
| "frame_step flag ids rpid len Deattach s =
    (case fs_recv s of
       None \<Rightarrow> None
     | Some addr \<Rightarrow>
         (case deattach_shared_frame addr (fs_k s) of
            Returned k \<Rightarrow> Some (Released, s\<lparr>fs_k := k, fs_recv := None\<rparr>)
          | _ \<Rightarrow> None))"

fun frame_run ::
    "nat \<Rightarrow> ipc_ids \<Rightarrow> nat \<Rightarrow> nat \<Rightarrow> frame_event list \<Rightarrow> frame_sys \<Rightarrow> (frame_answer list \<times> frame_sys) option" where
  "frame_run flag ids rpid len [] s = Some ([], s)"
| "frame_run flag ids rpid len (e # es) s =
    do { (a, s) \<leftarrow> frame_step flag ids rpid len e s;
         (as, s) \<leftarrow> frame_run flag ids rpid len es s;
         Some (a # as, s) }"

text \<open>What it is meant to be: a place for one frame, which is free again when the receiver has let go of it.\<close>

datatype slot = Empty | Full "8 word list" | Taken

fun slot_step :: "nat \<Rightarrow> frame_event \<Rightarrow> slot \<Rightarrow> frame_answer \<times> slot" where
  "slot_step len (Send extra data) Empty = (Accepted, Full (extra @ data))"
| "slot_step len (Send extra data) sl = (Refused, sl)"
| "slot_step len Attach (Full f) = (Got (take len f), Taken)"
| "slot_step len Attach sl = (Blocked, sl)"
| "slot_step len Deattach sl = (Released, Empty)"

fun slot_run :: "nat \<Rightarrow> frame_event list \<Rightarrow> slot \<Rightarrow> frame_answer list \<times> slot" where
  "slot_run len [] sl = ([], sl)"
| "slot_run len (e # es) sl =
    (case slot_step len e sl of (a, sl) \<Rightarrow> case slot_run len es sl of (as, sl) \<Rightarrow> (a # as, sl))"

text \<open>Frames start with a word that is not 0 and fit; only a frame that was taken is let go of.\<close>

definition frame_legal :: "nat \<Rightarrow> nat \<Rightarrow> frame_event \<Rightarrow> slot \<Rightarrow> bool" where
  "frame_legal cap len e sl =
    (case e of
       Send extra data \<Rightarrow> bytes_int (take 4 (extra @ data)) \<noteq> 0 \<and> 4 \<le> length (extra @ data) \<and>
         len \<le> length (extra @ data) \<and> length (extra @ data) \<le> cap
     | Attach \<Rightarrow> True
     | Deattach \<Rightarrow> sl = Taken)"

fun frames_legal :: "nat \<Rightarrow> nat \<Rightarrow> frame_event list \<Rightarrow> slot \<Rightarrow> bool" where
  "frames_legal cap len [] sl = True"
| "frames_legal cap len (e # es) sl = (frame_legal cap len e sl \<and> frames_legal cap len es (snd (slot_step len e sl)))"

lemma frame_legal_mono: "frame_legal m len e sl \<Longrightarrow> m \<le> cap \<Longrightarrow> frame_legal cap len e sl"
  by (auto simp: frame_legal_def split: frame_event.splits)

lemma frames_legal_mono: "frames_legal m len es sl \<Longrightarrow> m \<le> cap \<Longrightarrow> frames_legal cap len es sl"
  by (induction es arbitrary: sl) (auto intro: frame_legal_mono)

lemma frame_step_pid:
  "frame_step flag ids rpid len e s = Some (a, s') \<Longrightarrow> fp_pid (fs_send s') = fp_pid (fs_send s)"
  by (cases e) (auto simp: send_shared_frame_def Let_def split: if_splits prod.splits call_end.splits option.splits)

text \<open>
  How the state stands for the slot. \<open>a\<close> and \<open>b\<close> count the frames sent and taken: the kernel keeps them as what the
  processes would undo.
\<close>

definition channel :: "nat \<Rightarrow> ipc_ids \<Rightarrow> nat \<Rightarrow> nat \<Rightarrow> nat \<Rightarrow> nat \<Rightarrow> slot \<Rightarrow> frame_sys \<Rightarrow> bool" where
  "channel flag ids rpid cap a b sl s \<longleftrightarrow>
    fp_pid (fs_send s) \<noteq> rpid \<and> flag < length (g_addr (fs_send s)) \<and>
    g_addr (fs_send s) ! flag \<in> {NullPtr, Mapped (shm_id ids)} \<and> 4 \<le> cap \<and>
    (\<exists>key. sv_sems (fs_k s) (sem_id ids) = Some (key, case sl of Full _ \<Rightarrow> 1 | _ \<Rightarrow> 0)) \<and>
    sv_undo (fs_k s) (fp_pid (fs_send s)) (sem_id ids) = - int a \<and> sv_undo (fs_k s) rpid (sem_id ids) = int b \<and>
    (\<exists>sg. sv_segs (fs_k s) (shm_id ids) = Some sg \<and> sg_key sg \<noteq> None \<and> length (sg_mem sg) = cap \<and>
      (case sl of
         Empty \<Rightarrow> bytes_int (take 4 (sg_mem sg)) = 0 \<and> fs_recv s = None
       | Full f \<Rightarrow> bytes_int (take 4 (sg_mem sg)) \<noteq> 0 \<and> fs_recv s = None \<and> take (length f) (sg_mem sg) = f
       | Taken \<Rightarrow> bytes_int (take 4 (sg_mem sg)) \<noteq> 0 \<and> fs_recv s = Some (Mapped (shm_id ids))))"

text \<open>The sender's address of the segment, which it attaches on the first use.\<close>

definition with_attached :: "nat \<Rightarrow> ipc_ids \<Rightarrow> frame_proc \<Rightarrow> sysv \<Rightarrow> sysv" where
  "with_attached flag ids p k = (if g_addr p ! flag = NullPtr then snd (sys_shmat (shm_id ids) k) else k)"

lemma with_attached_mem:
  assumes "sv_segs k (shm_id ids) = Some sg"
  shows "\<exists>n. with_attached flag ids p k = k\<lparr>sv_segs := (sv_segs k)(shm_id ids \<mapsto> sg\<lparr>sg_nattch := n\<rparr>)\<rparr>"
proof (cases "g_addr p ! flag = NullPtr")
  case True
  then show ?thesis using assms by (auto simp: with_attached_def sys_shmat_def)
next
  case False
  then show ?thesis
    using assms by (intro exI [of _ "sg_nattch sg"]) (simp add: with_attached_def fun_upd_idem)
qed

lemma copy_in_mem:
  assumes "sv_segs k i = Some sg" "off + length bs \<le> length (sg_mem sg)"
  shows "copy_in (Mapped i) (int off) (Some bs) (int (length bs)) k =
    Some (k\<lparr>sv_segs := (sv_segs k)(i \<mapsto> sg\<lparr>sg_mem := take off (sg_mem sg) @ bs @ drop (off + length bs) (sg_mem sg)\<rparr>)\<rparr>)"
  using assms by (simp add: copy_in_def poke_def nat_add_distrib fun_upd_idem)

text \<open>Header and data together replace the front of the segment.\<close>

lemma copy_frame:
  assumes "sv_segs k i = Some sg" "length (x @ d) \<le> length (sg_mem sg)"
  shows "\<exists>k'. copy_in (Mapped i) 0 (Some x) (int (length x)) k = Some k' \<and>
    copy_in (Mapped i) (int (length x)) (Some d) (int (length d)) k' =
      Some (k\<lparr>sv_segs := (sv_segs k)(i \<mapsto> sg\<lparr>sg_mem := (x @ d) @ drop (length (x @ d)) (sg_mem sg)\<rparr>)\<rparr>)"
proof -
  let ?sg = "sg\<lparr>sg_mem := x @ drop (length x) (sg_mem sg)\<rparr>"
  let ?k = "k\<lparr>sv_segs := (sv_segs k)(i \<mapsto> ?sg)\<rparr>"
  have "copy_in (Mapped i) 0 (Some x) (int (length x)) k = Some ?k"
    using copy_in_mem [OF assms(1), of 0 x] assms(2) by simp
  moreover have "copy_in (Mapped i) (int (length x)) (Some d) (int (length d)) ?k =
      Some (?k\<lparr>sv_segs := (sv_segs ?k)(i \<mapsto> ?sg\<lparr>sg_mem := take (length x) (sg_mem ?sg) @ d @ drop (length x + length d) (sg_mem ?sg)\<rparr>)\<rparr>)"
    using assms(2) by (intro copy_in_mem) simp_all
  ultimately show ?thesis by (auto simp: add.commute)
qed

text \<open>What \<open>SendSharedFrame\<close> does in a state with the segment in place.\<close>

lemma send_cases:
  assumes seg: "sv_segs k (shm_id ids) = Some sg" "length (sg_mem sg) = cap" "4 \<le> cap"
    and addr: "flag < length (g_addr p)" "g_addr p ! flag \<in> {NullPtr, Mapped (shm_id ids)}"
    and fits: "length (x @ d) \<le> cap"
  obtains n where "bytes_int (take 4 (sg_mem sg)) \<noteq> 0"
      "send_shared_frame flag ids (Some x) (int (length x)) (Some d) (int (length d)) p k =
        Returned (- 1, p\<lparr>g_addr := (g_addr p)[flag := Mapped (shm_id ids)]\<rparr>,
          k\<lparr>sv_segs := (sv_segs k)(shm_id ids \<mapsto> sg\<lparr>sg_nattch := n\<rparr>)\<rparr>)"
  | n where "bytes_int (take 4 (sg_mem sg)) = 0"
      "send_shared_frame flag ids (Some x) (int (length x)) (Some d) (int (length d)) p k =
        (case sem_op False (fp_pid p) (sem_id ids)
            (k\<lparr>sv_segs := (sv_segs k)(shm_id ids \<mapsto> sg\<lparr>sg_nattch := n, sg_mem := (x @ d) @ drop (length (x @ d)) (sg_mem sg)\<rparr>)\<rparr>) of
           Returned (_, k) \<Rightarrow> Returned (0, p\<lparr>g_addr := (g_addr p)[flag := Mapped (shm_id ids)]\<rparr>, k)
         | Stuck \<Rightarrow> Stuck
         | Crashed \<Rightarrow> Crashed)"
proof -
  let ?p = "p\<lparr>g_addr := (g_addr p)[flag := Mapped (shm_id ids)]\<rparr>"
  obtain n where n: "with_attached flag ids p k = k\<lparr>sv_segs := (sv_segs k)(shm_id ids \<mapsto> sg\<lparr>sg_nattch := n\<rparr>)\<rparr>"
    using with_attached_mem [OF seg(1)] by blast
  have at: "(if g_addr p ! flag = NullPtr then sys_shmat (shm_id ids) k else (g_addr p ! flag, k)) =
      (Mapped (shm_id ids), k\<lparr>sv_segs := (sv_segs k)(shm_id ids \<mapsto> sg\<lparr>sg_nattch := n\<rparr>)\<rparr>)"
    using addr(2) n seg(1) by (auto simp: with_attached_def sys_shmat_def split: if_splits)
  let ?k = "k\<lparr>sv_segs := (sv_segs k)(shm_id ids \<mapsto> sg\<lparr>sg_nattch := n\<rparr>)\<rparr>"
  have m: "mem_at (Mapped (shm_id ids)) ?k = Some (sg_mem sg)" by (simp add: mem_at_def)
  show thesis
  proof (cases "bytes_int (take 4 (sg_mem sg)) = 0")
    case False
    then show ?thesis
      using that(1) [of n] addr(1) m unfolding send_shared_frame_def at by (simp add: Let_def)
  next
    case True
    obtain k' where k': "copy_in (Mapped (shm_id ids)) 0 (Some x) (int (length x)) ?k = Some k'"
      "copy_in (Mapped (shm_id ids)) (int (length x)) (Some d) (int (length d)) k' =
        Some (?k\<lparr>sv_segs := (sv_segs ?k)(shm_id ids \<mapsto> (sg\<lparr>sg_nattch := n\<rparr>)\<lparr>sg_mem := (x @ d) @ drop (length (x @ d)) (sg_mem (sg\<lparr>sg_nattch := n\<rparr>))\<rparr>)\<rparr>)"
      using copy_frame [of ?k "shm_id ids" "sg\<lparr>sg_nattch := n\<rparr>" x d] fits seg(2) by auto
    show ?thesis
      using that(2) [of n] True addr(1) m k' unfolding send_shared_frame_def at by (simp add: Let_def)
  qed
qed


lemma sem_op_v:
  assumes "sv_sems k i = Some (key, v)" "v < SEMVMX" "0 \<le> v" "- SEMAEM - 1 \<le> sv_undo k pid i - 1" "sv_undo k pid i \<le> SEMAEM"
  shows "sem_op False pid i k = Returned (0, k\<lparr>sv_sems := (sv_sems k)(i \<mapsto> (key, v + 1)),
    sv_undo := (sv_undo k)(pid := (sv_undo k pid)(i := sv_undo k pid i - 1))\<rparr>)"
  using assms by (simp add: sem_op_def sys_semop_def Let_def)

lemma sem_op_p:
  assumes "sv_sems k i = Some (key, v)" "v \<le> SEMVMX" "0 < v" "sv_undo k pid i + 1 \<le> SEMAEM" "- SEMAEM - 1 \<le> sv_undo k pid i"
  shows "sem_op True pid i k = Returned (0, k\<lparr>sv_sems := (sv_sems k)(i \<mapsto> (key, v - 1)),
    sv_undo := (sv_undo k)(pid := (sv_undo k pid)(i := sv_undo k pid i + 1))\<rparr>)"
  using assms by (simp add: sem_op_def sys_semop_def Let_def)

lemma sem_op_waits: "sv_sems k i = Some (key, 0) \<Longrightarrow> sem_op True pid i k = Stuck"
  by (simp add: sem_op_def sys_semop_def)

lemma channel_send:
  assumes ch: "channel flag ids rpid cap a b sl s" and legal: "frame_legal cap len (Send x d) sl" and a: "a \<le> 32767"
  shows "\<exists>s'. frame_step flag ids rpid len (Send x d) s = Some (fst (slot_step len (Send x d) sl), s') \<and>
    channel flag ids rpid cap (if sl = Empty then a + 1 else a) b (snd (slot_step len (Send x d) sl)) s'"
proof -
  let ?k = "fs_k s" and ?p = "fs_send s"
  obtain sg key where c: "fp_pid ?p \<noteq> rpid" "flag < length (g_addr ?p)" "g_addr ?p ! flag \<in> {NullPtr, Mapped (shm_id ids)}"
    "4 \<le> cap" "sv_sems ?k (sem_id ids) = Some (key, case sl of Full _ \<Rightarrow> 1 | _ \<Rightarrow> 0)"
    "sv_undo ?k (fp_pid ?p) (sem_id ids) = - int a" "sv_undo ?k rpid (sem_id ids) = int b"
    "sv_segs ?k (shm_id ids) = Some sg" "sg_key sg \<noteq> None" "length (sg_mem sg) = cap"
    and mem: "case sl of
         Empty \<Rightarrow> bytes_int (take 4 (sg_mem sg)) = 0 \<and> fs_recv s = None
       | Full f \<Rightarrow> bytes_int (take 4 (sg_mem sg)) \<noteq> 0 \<and> fs_recv s = None \<and> take (length f) (sg_mem sg) = f
       | Taken \<Rightarrow> bytes_int (take 4 (sg_mem sg)) \<noteq> 0 \<and> fs_recv s = Some (Mapped (shm_id ids))"
    using ch unfolding channel_def by blast
  have l: "bytes_int (take 4 (x @ d)) \<noteq> 0" "4 \<le> length (x @ d)" "length (x @ d) \<le> cap"
    using legal by (simp_all add: frame_legal_def)
  have zero: "bytes_int (take 4 (sg_mem sg)) = 0 \<longleftrightarrow> sl = Empty" using mem by (auto split: slot.splits)
  show ?thesis
  proof (cases rule: send_cases [OF c(8) c(10) c(4) c(2,3) l(3)])
    case (1 n)
    show ?thesis
    proof (intro exI conjI)
      have sl: "sl \<noteq> Empty" using 1 zero by simp
      then have st: "slot_step len (Send x d) sl = (Refused, sl)" by (cases sl) auto
      let ?s = "s\<lparr>fs_k := ?k\<lparr>sv_segs := (sv_segs ?k)(shm_id ids \<mapsto> sg\<lparr>sg_nattch := n\<rparr>)\<rparr>,
        fs_send := ?p\<lparr>g_addr := (g_addr ?p)[flag := Mapped (shm_id ids)]\<rparr>\<rparr>"
      show "frame_step flag ids rpid len (Send x d) s = Some (fst (slot_step len (Send x d) sl), ?s)"
        using 1(2) by (simp add: st)
      show "channel flag ids rpid cap (if sl = Empty then a + 1 else a) b (snd (slot_step len (Send x d) sl)) ?s"
        using c mem sl by (simp add: channel_def st split: slot.splits)
    qed
  next
    case (2 n)
    then have sl: "sl = Empty" using zero by simp
    let ?sg = "sg\<lparr>sg_nattch := n, sg_mem := (x @ d) @ drop (length (x @ d)) (sg_mem sg)\<rparr>"
    let ?k1 = "?k\<lparr>sv_segs := (sv_segs ?k)(shm_id ids \<mapsto> ?sg)\<rparr>"
    let ?k2 = "?k1\<lparr>sv_sems := (sv_sems ?k1)(sem_id ids \<mapsto> (key, 0 + 1)),
      sv_undo := (sv_undo ?k1)(fp_pid ?p := (sv_undo ?k1 (fp_pid ?p))(sem_id ids := sv_undo ?k1 (fp_pid ?p) (sem_id ids) - 1))\<rparr>"
    have v: "sem_op False (fp_pid ?p) (sem_id ids) ?k1 = Returned (0, ?k2)"
      by (rule sem_op_v) (use c(5,6) sl a in \<open>simp_all add: SEMVMX_def SEMAEM_def\<close>)
    let ?s = "s\<lparr>fs_k := ?k2, fs_send := ?p\<lparr>g_addr := (g_addr ?p)[flag := Mapped (shm_id ids)]\<rparr>\<rparr>"
    show ?thesis
    proof (intro exI conjI)
      show "frame_step flag ids rpid len (Send x d) s = Some (fst (slot_step len (Send x d) sl), ?s)"
        unfolding frame_step.simps 2(2) v by (simp add: sl)
      have "take 4 (sg_mem ?sg) = take 4 (x @ d)" using l(2) by (simp only: take_append) simp
      then show "channel flag ids rpid cap (if sl = Empty then a + 1 else a) b (snd (slot_step len (Send x d) sl)) ?s"
        using c mem l by (simp add: channel_def sl)
    qed
  qed
qed

lemma channel_attach:
  assumes ch: "channel flag ids rpid cap a b sl s" and b: "b < 32767"
    and len: "\<And>f. sl = Full f \<Longrightarrow> len \<le> length f"
  shows "\<exists>s'. frame_step flag ids rpid len Attach s = Some (fst (slot_step len Attach sl), s') \<and>
    channel flag ids rpid cap a (case sl of Full _ \<Rightarrow> b + 1 | _ \<Rightarrow> b) (snd (slot_step len Attach sl)) s'"
proof -
  let ?k = "fs_k s" and ?p = "fs_send s"
  obtain sg key where c: "fp_pid ?p \<noteq> rpid" "flag < length (g_addr ?p)" "g_addr ?p ! flag \<in> {NullPtr, Mapped (shm_id ids)}"
    "4 \<le> cap" "sv_sems ?k (sem_id ids) = Some (key, case sl of Full _ \<Rightarrow> 1 | _ \<Rightarrow> 0)"
    "sv_undo ?k (fp_pid ?p) (sem_id ids) = - int a" "sv_undo ?k rpid (sem_id ids) = int b"
    "sv_segs ?k (shm_id ids) = Some sg" "sg_key sg \<noteq> None" "length (sg_mem sg) = cap"
    and mem: "case sl of
         Empty \<Rightarrow> bytes_int (take 4 (sg_mem sg)) = 0 \<and> fs_recv s = None
       | Full f \<Rightarrow> bytes_int (take 4 (sg_mem sg)) \<noteq> 0 \<and> fs_recv s = None \<and> take (length f) (sg_mem sg) = f
       | Taken \<Rightarrow> bytes_int (take 4 (sg_mem sg)) \<noteq> 0 \<and> fs_recv s = Some (Mapped (shm_id ids))"
    using ch unfolding channel_def by blast
  show ?thesis
  proof (cases "\<exists>f. sl = Full f")
    case False
    then have "sv_sems ?k (sem_id ids) = Some (key, 0)" using c(5) by (cases sl) auto
    from sem_op_waits [OF this] show ?thesis
      using ch False by (cases sl) (simp_all add: attach_shared_frame_def)
  next
    case True
    then obtain f where sl: "sl = Full f" by blast
    let ?k1 = "?k\<lparr>sv_sems := (sv_sems ?k)(sem_id ids \<mapsto> (key, 1 - 1)),
      sv_undo := (sv_undo ?k)(rpid := (sv_undo ?k rpid)(sem_id ids := sv_undo ?k rpid (sem_id ids) + 1))\<rparr>"
    let ?k2 = "?k1\<lparr>sv_segs := (sv_segs ?k1)(shm_id ids \<mapsto> sg\<lparr>sg_nattch := sg_nattch sg + 1\<rparr>)\<rparr>"
    have p: "sem_op True rpid (sem_id ids) ?k = Returned (0, ?k1)"
      by (rule sem_op_p) (use c(5,7) sl b in \<open>simp_all add: SEMVMX_def SEMAEM_def\<close>)
    have at: "sys_shmat (shm_id ids) ?k1 = (Mapped (shm_id ids), ?k2)" using c(8) by (simp add: sys_shmat_def)
    have m: "mem_at (Mapped (shm_id ids)) ?k2 = Some (sg_mem sg)" by (simp add: mem_at_def)
    have tf: "take (length f) (sg_mem sg) = f" using mem sl by simp
    then have lf: "length f \<le> cap" using c(10) by (metis length_take min.cobounded1)
    have "take len (sg_mem sg) = take len f"
      using tf len [OF sl] by (metis min.absorb1 take_take)
    then have "attach_shared_frame rpid ids len ?k = Returned (Mapped (shm_id ids), take len f, ?k2)"
      unfolding attach_shared_frame_def p using at m lf len [OF sl] c(10) by simp
    moreover have "channel flag ids rpid cap a (b + 1) Taken (s\<lparr>fs_k := ?k2, fs_recv := Some (Mapped (shm_id ids))\<rparr>)"
      using c mem sl by (simp add: channel_def)
    ultimately show ?thesis using sl by simp
  qed
qed

text \<open>A frame that is taken is in the memory the receiver sees.\<close>

lemma attach_memory:
  assumes ch: "channel flag ids rpid cap a b (Full f) s"
    and at: "attach_shared_frame rpid ids len (fs_k s) = Returned (addr, g, k)"
  shows "\<exists>m. mem_at addr k = Some m \<and> take (length f) m = f"
proof -
  obtain sg where sg: "sv_segs (fs_k s) (shm_id ids) = Some sg" "take (length f) (sg_mem sg) = f"
    using ch by (auto simp: channel_def)
  obtain r k' where p: "sem_op True rpid (sem_id ids) (fs_k s) = Returned (r, k')"
    using at by (auto simp: attach_shared_frame_def split: call_end.splits)
  have "sv_segs k' = sv_segs (fs_k s)"
    using p by (auto simp: sem_op_def sys_semop_def Let_def split: option.splits if_splits)
  then show ?thesis
    using at p sg by (auto simp: attach_shared_frame_def sys_shmat_def mem_at_def split: if_splits)
qed

lemma channel_deattach:
  assumes ch: "channel flag ids rpid cap a b Taken s"
  shows "\<exists>s'. frame_step flag ids rpid len Deattach s = Some (Released, s') \<and>
    channel flag ids rpid cap a b Empty s'"
proof -
  let ?k = "fs_k s" and ?p = "fs_send s"
  obtain sg where c: "sv_segs ?k (shm_id ids) = Some sg" "sg_key sg \<noteq> None" "length (sg_mem sg) = cap" "4 \<le> cap"
    "fs_recv s = Some (Mapped (shm_id ids))"
    using ch unfolding channel_def by auto
  let ?sg = "sg\<lparr>sg_mem := int_bytes 0 @ drop 4 (sg_mem sg)\<rparr>"
  have l4: "length (int_bytes 0) = 4" by (simp add: int_bytes_def)
  have "poke (Mapped (shm_id ids)) 0 (int_bytes 0) ?k = Some (?k\<lparr>sv_segs := (sv_segs ?k)(shm_id ids \<mapsto> ?sg)\<rparr>)"
    using c l4 by (simp add: poke_def)
  then have r: "deattach_shared_frame (Mapped (shm_id ids)) ?k = Returned
      (?k\<lparr>sv_segs := (sv_segs ?k)(shm_id ids \<mapsto> ?sg\<lparr>sg_nattch := sg_nattch sg - 1\<rparr>)\<rparr>)"
    using c(2) by (auto simp: deattach_shared_frame_def sys_shmdt_def Let_def)
  have "bytes_int (take 4 (int_bytes 0 @ drop 4 (sg_mem sg))) = 0"
    by (simp add: bytes_int_def int_bytes_def upt_rec)
  then show ?thesis
    using ch c r l4 by (simp add: channel_def)
qed


subsection \<open>The channel is the slot\<close>

lemma channel_step:
  assumes ch: "channel flag ids rpid cap a b sl s" and legal: "frame_legal cap len e sl"
    and full: "\<And>f. sl = Full f \<Longrightarrow> len \<le> length f" and room: "a < 32767" "b < 32767"
  shows "\<exists>a' b' s'. frame_step flag ids rpid len e s = Some (fst (slot_step len e sl), s') \<and>
    channel flag ids rpid cap a' b' (snd (slot_step len e sl)) s' \<and> a' \<le> a + 1 \<and> b' \<le> b + 1"
proof (cases e)
  case (Send x d)
  then show ?thesis using channel_send [OF ch, of len x d] legal room
    by (metis le_add1 less_imp_le_nat order_refl)
next
  case Attach
  obtain s' where "frame_step flag ids rpid len Attach s = Some (fst (slot_step len Attach sl), s')"
    "channel flag ids rpid cap a (case sl of Full _ \<Rightarrow> b + 1 | _ \<Rightarrow> b) (snd (slot_step len Attach sl)) s'"
    using channel_attach [OF ch room(2) full] by blast
  then show ?thesis unfolding Attach by (intro exI conjI) (auto split: slot.split)
next
  case Deattach
  then have "sl = Taken" using legal by (simp add: frame_legal_def)
  then show ?thesis using channel_deattach [of flag ids rpid cap a b s len] ch Deattach
    by (metis fst_conv le_add1 slot_step.simps(7) snd_conv)
qed

lemma slot_step_full: "frame_legal cap len e sl \<Longrightarrow> (\<And>f. sl = Full f \<Longrightarrow> len \<le> length f) \<Longrightarrow>
    snd (slot_step len e sl) = Full f \<Longrightarrow> len \<le> length f"
  by (cases e; cases sl) (auto simp: frame_legal_def)

lemma channel_run:
  assumes "channel flag ids rpid cap a b sl s" "frames_legal cap len es sl"
    and "\<And>f. sl = Full f \<Longrightarrow> len \<le> length f" "a + length es \<le> 32767" "b + length es \<le> 32767"
  shows "\<exists>a' b' s'. frame_run flag ids rpid len es s = Some (fst (slot_run len es sl), s') \<and>
    channel flag ids rpid cap a' b' (snd (slot_run len es sl)) s'"
  using assms
proof (induction es arbitrary: a b sl s)
  case Nil
  then show ?case by auto
next
  case (Cons e es)
  have legal: "frame_legal cap len e sl" "frames_legal cap len es (snd (slot_step len e sl))" using Cons.prems(2) by simp_all
  have room: "a < 32767" "b < 32767" using Cons.prems(4,5) by simp_all
  obtain a1 b1 s1 where s1: "frame_step flag ids rpid len e s = Some (fst (slot_step len e sl), s1)"
    "channel flag ids rpid cap a1 b1 (snd (slot_step len e sl)) s1" "a1 \<le> a + 1" "b1 \<le> b + 1"
    using channel_step [OF Cons.prems(1) legal(1) Cons.prems(3) room] by blast
  have "\<exists>a' b' s'. frame_run flag ids rpid len es s1 = Some (fst (slot_run len es (snd (slot_step len e sl))), s') \<and>
    channel flag ids rpid cap a' b' (snd (slot_run len es (snd (slot_step len e sl)))) s'"
    by (rule Cons.IH [OF s1(2) legal(2)]) (use slot_step_full [OF legal(1)] Cons.prems(3,4,5) s1(3,4) in auto)
  then obtain a' b' s' where s': "frame_run flag ids rpid len es s1 = Some (fst (slot_run len es (snd (slot_step len e sl))), s')"
    "channel flag ids rpid cap a' b' (snd (slot_run len es (snd (slot_step len e sl)))) s'" by blast
  show ?case
    by (intro exI [of _ a'] exI [of _ b'] exI [of _ s']) (use s1(1) s' in \<open>simp add: case_prod_beta\<close>)
qed

subsection \<open>The limit of \<open>SEM_UNDO\<close>\<close>

definition frame_round :: "8 word list \<Rightarrow> 8 word list \<Rightarrow> frame_event list" where
  "frame_round x d = [Send x d, Attach, Deattach]"

lemma frame_run_append:
  "frame_run flag ids rpid len (es @ fs) s =
    do { (as, s) \<leftarrow> frame_run flag ids rpid len es s;
         (bs, s) \<leftarrow> frame_run flag ids rpid len fs s;
         Some (as @ bs, s) }"
  by (induction es arbitrary: s)
    (simp_all add: case_prod_beta bind_eq_Some_conv split: bind_split)

lemma channel_round:
  assumes ch: "channel flag ids rpid cap a b Empty s" and legal: "frame_legal cap len (Send x d) Empty"
    and room: "a \<le> 32767" "b < 32767"
  shows "\<exists>s'. frame_run flag ids rpid len (frame_round x d) s = Some ([Accepted, Got (take len (x @ d)), Released], s') \<and>
    channel flag ids rpid cap (a + 1) (b + 1) Empty s'"
proof -
  obtain s1 where s1: "frame_step flag ids rpid len (Send x d) s = Some (Accepted, s1)"
    "channel flag ids rpid cap (a + 1) b (Full (x @ d)) s1"
    using channel_send [OF ch legal room(1)] by auto
  have "len \<le> length (x @ d)" using legal by (simp add: frame_legal_def)
  then obtain s2 where s2: "frame_step flag ids rpid len Attach s1 = Some (Got (take len (x @ d)), s2)"
    "channel flag ids rpid cap (a + 1) (b + 1) Taken s2"
    using channel_attach [OF s1(2) room(2), of len] by auto
  obtain s3 where s3: "frame_step flag ids rpid len Deattach s2 = Some (Released, s3)"
    "channel flag ids rpid cap (a + 1) (b + 1) Empty s3"
    using channel_deattach [OF s2(2)] by blast
  show ?thesis using s1 s2 s3 by (simp add: frame_round_def del: frame_step.simps)
qed

lemma channel_rounds:
  assumes "channel flag ids rpid cap a a Empty s" "frame_legal cap len (Send x d) Empty" "a + n \<le> 32767"
  shows "\<exists>as s'. frame_run flag ids rpid len (concat (replicate n (frame_round x d))) s = Some (as, s') \<and>
    channel flag ids rpid cap (a + n) (a + n) Empty s'"
  using assms
proof (induction n arbitrary: a s)
  case (Suc n)
  obtain s1 where s1: "frame_run flag ids rpid len (frame_round x d) s = Some ([Accepted, Got (take len (x @ d)), Released], s1)"
    "channel flag ids rpid cap (a + 1) (a + 1) Empty s1"
    using channel_round [OF Suc.prems(1,2)] Suc.prems(3) by auto
  obtain as s2 where "frame_run flag ids rpid len (concat (replicate n (frame_round x d))) s1 = Some (as, s2)"
    "channel flag ids rpid cap (a + 1 + n) (a + 1 + n) Empty s2"
    using Suc.IH [OF s1(2) Suc.prems(2)] Suc.prems(3) by auto
  then show ?case using s1(1) by (auto simp: frame_run_append)
qed auto


text \<open>Past the limit the receiver's operation fails at once, and it takes what is in the segment.\<close>

lemma attach_past_limit:
  assumes "sv_sems k (sem_id ids) = Some (key, v)" "0 < v" "v \<le> SEMVMX" "sv_undo k rpid (sem_id ids) = SEMAEM"
    "sv_segs k (shm_id ids) = Some sg" "len \<le> length (sg_mem sg)"
  shows "attach_shared_frame rpid ids len k = Returned (Mapped (shm_id ids), take len (sg_mem sg),
    k\<lparr>sv_segs := (sv_segs k)(shm_id ids \<mapsto> sg\<lparr>sg_nattch := sg_nattch sg + 1\<rparr>)\<rparr>)"
proof -
  have "sem_op True rpid (sem_id ids) k = Returned (- 1, k)"
    using assms(1-4) by (simp add: sem_op_def sys_semop_def Let_def)
  then show ?thesis using assms(5,6) by (simp add: attach_shared_frame_def sys_shmat_def mem_at_def)
qed

lemma channel_exhausted:
  assumes ch: "channel flag ids rpid cap 32767 32767 Empty s" and legal: "frame_legal cap len (Send x d) Empty"
  shows "\<exists>g s'. frame_run flag ids rpid len [Send x d, Attach, Deattach, Attach] s =
    Some ([Accepted, Got (take len (x @ d)), Released, Got g], s')"
proof -
  have l: "len \<le> length (x @ d)" "length (x @ d) \<le> cap" using legal by (simp_all add: frame_legal_def)
  obtain s1 where s1: "frame_step flag ids rpid len (Send x d) s = Some (Accepted, s1)"
    "channel flag ids rpid cap 32768 32767 (Full (x @ d)) s1"
    using channel_send [OF ch legal] by auto
  let ?k = "fs_k s1"
  obtain sg key where c: "sv_sems ?k (sem_id ids) = Some (key, 1)" "sv_undo ?k rpid (sem_id ids) = SEMAEM"
    "sv_segs ?k (shm_id ids) = Some sg" "sg_key sg \<noteq> None" "length (sg_mem sg) = cap" "4 \<le> cap"
    "take (length (x @ d)) (sg_mem sg) = x @ d"
    using s1(2) unfolding channel_def by (auto simp: SEMAEM_def)
  have tk: "take len (sg_mem sg) = take len (x @ d)" using c(7) l(1) by (metis min.absorb1 take_take)
  let ?k2 = "?k\<lparr>sv_segs := (sv_segs ?k)(shm_id ids \<mapsto> sg\<lparr>sg_nattch := sg_nattch sg + 1\<rparr>)\<rparr>"
  have a1: "attach_shared_frame rpid ids len ?k = Returned (Mapped (shm_id ids), take len (x @ d), ?k2)"
    using attach_past_limit [OF c(1) _ _ c(2,3), of len] l c(5) by (simp add: SEMVMX_def tk)
  let ?sg = "sg\<lparr>sg_mem := int_bytes 0 @ drop 4 (sg_mem sg)\<rparr>"
  have l4: "length (int_bytes 0) = 4" by (simp add: int_bytes_def)
  have d: "deattach_shared_frame (Mapped (shm_id ids)) ?k2 = Returned (?k\<lparr>sv_segs := (sv_segs ?k)(shm_id ids \<mapsto> ?sg)\<rparr>)"
    using c l4 by (auto simp: deattach_shared_frame_def poke_def sys_shmdt_def Let_def)
  have a2: "attach_shared_frame rpid ids len (?k\<lparr>sv_segs := (sv_segs ?k)(shm_id ids \<mapsto> ?sg)\<rparr>) =
    Returned (Mapped (shm_id ids), take len (sg_mem ?sg),
      (?k\<lparr>sv_segs := (sv_segs ?k)(shm_id ids \<mapsto> ?sg)\<rparr>)\<lparr>sv_segs := (sv_segs (?k\<lparr>sv_segs := (sv_segs ?k)(shm_id ids \<mapsto> ?sg)\<rparr>))
        (shm_id ids \<mapsto> ?sg\<lparr>sg_nattch := sg_nattch ?sg + 1\<rparr>)\<rparr>)"
    by (rule attach_past_limit) (use c l l4 in \<open>auto simp: SEMVMX_def\<close>)
  show ?thesis using s1(1) a1 d a2 by (simp del: frame_step.simps(1))
qed

subsection \<open>The end of the sender\<close>

lemma sender_exit_blocks:
  assumes ch: "channel flag ids rpid cap a b (Full f) s" and "1 \<le> a" and fits: "length (x @ d) \<le> cap"
  defines "t \<equiv> s\<lparr>fs_k := exit_sem (fp_pid (fs_send s)) (sem_id ids) (fs_k s)\<rparr>"
  shows "frame_step flag ids rpid len Attach t = Some (Blocked, t) \<and>
    (\<exists>t'. frame_step flag ids rpid len (Send x d) t = Some (Refused, t'))"
proof -
  let ?k = "fs_k s" and ?p = "fs_send s"
  obtain sg key where c: "flag < length (g_addr ?p)" "g_addr ?p ! flag \<in> {NullPtr, Mapped (shm_id ids)}" "4 \<le> cap"
    "sv_sems ?k (sem_id ids) = Some (key, 1)" "sv_undo ?k (fp_pid ?p) (sem_id ids) = - int a"
    "sv_segs ?k (shm_id ids) = Some sg" "length (sg_mem sg) = cap" "bytes_int (take 4 (sg_mem sg)) \<noteq> 0"
    using ch unfolding channel_def by auto
  have k: "sv_sems (fs_k t) (sem_id ids) = Some (key, 0)" "sv_segs (fs_k t) (shm_id ids) = Some sg" "fs_send t = ?p"
    using c(4-6) \<open>1 \<le> a\<close> by (simp_all add: t_def exit_sem_def)
  have "frame_step flag ids rpid len Attach t = Some (Blocked, t)"
    using sem_op_waits [OF k(1)] by (simp add: attach_shared_frame_def)
  moreover have "\<exists>t'. frame_step flag ids rpid len (Send x d) t = Some (Refused, t')"
    using c(8) by (cases rule: send_cases [OF k(2) c(7) c(3) c(1,2) fits]) (auto simp: k(3))
  ultimately show ?thesis by blast
qed


subsection \<open>Creating a channel\<close>

definition sysv_ok :: "sysv \<Rightarrow> bool" where
  "sysv_ok k \<longleftrightarrow> 0 \<le> sv_next k \<and>
    (\<forall>key i. sv_shm_keys k key = Some i \<longrightarrow> i < sv_next k \<and> (\<exists>sg. sv_segs k i = Some sg \<and> sg_key sg = Some key \<and> 0 \<le> sg_size sg)) \<and>
    (\<forall>i. sv_segs k i \<noteq> None \<longrightarrow> 0 \<le> i \<and> i < sv_next k) \<and>
    (\<forall>key i. sv_sem_keys k key = Some i \<longrightarrow> i < sv_next k \<and> (\<exists>v. sv_sems k i = Some (key, v))) \<and>
    (\<forall>i. sv_sems k i \<noteq> None \<longrightarrow> i < sv_next k)"

text \<open>Whatever has the key before, afterwards a new segment has it.\<close>

lemma create_shm_new:
  assumes ok: "sysv_ok k" and n: "0 < n" "n \<le> sv_shmmax k"
  shows "\<exists>k'. create_shm key n k = (sv_next k, k') \<and> sv_shm_keys k' key = Some (sv_next k) \<and>
    sv_segs k' (sv_next k) = Some \<lparr>sg_mem = replicate (page_round n) 0, sg_size = n, sg_nattch = 0, sg_key = Some key\<rparr> \<and>
    sv_next k' = sv_next k + 1 \<and> sv_sems k' = sv_sems k \<and> sv_sem_keys k' = sv_sem_keys k \<and> sv_undo k' = sv_undo k"
proof (cases "sv_shm_keys k key")
  case None
  then show ?thesis using n by (simp add: create_shm_def sys_shmget_def Let_def)
next
  case (Some i)
  then obtain sg where sg: "sv_segs k i = Some sg" "sg_key sg = Some key" "0 \<le> sg_size sg"
    using ok unfolding sysv_ok_def by blast
  have excl: "sys_shmget key n True k = (Inl EEXIST, k)" "sys_shmget key 0 False k = (Inr i, k)"
    using Some sg by (simp_all add: sys_shmget_def)
  have "sv_shm_keys (shm_rmid i k) key = None" "sv_next (shm_rmid i k) = sv_next k" "sv_shmmax (shm_rmid i k) = sv_shmmax k"
    "sv_sems (shm_rmid i k) = sv_sems k" "sv_sem_keys (shm_rmid i k) = sv_sem_keys k" "sv_undo (shm_rmid i k) = sv_undo k"
    using sg by (simp_all add: shm_rmid_def)
  then show ?thesis
    using n by (simp add: create_shm_def excl id_of_def) (simp add: sys_shmget_def Let_def)
qed

lemma create_sem_new:
  assumes ok: "\<And>key i. sv_sem_keys k key = Some i \<Longrightarrow> \<exists>v. sv_sems k i = Some (key, v)"
  shows "\<exists>k'. create_sem key k = (sv_next k, k') \<and> sv_sem_keys k' key = Some (sv_next k) \<and>
    sv_sems k' (sv_next k) = Some (key, 0) \<and> (\<forall>pid. sv_undo k' pid (sv_next k) = 0) \<and>
    sv_shm_keys k' = sv_shm_keys k \<and> sv_segs k' = sv_segs k"
proof (cases "sv_sem_keys k key")
  case None
  then show ?thesis by (simp add: create_sem_def sys_semget_def Let_def)
next
  case (Some i)
  then obtain v where v: "sv_sems k i = Some (key, v)" using ok by blast
  have excl: "sys_semget key True k = (Inl EEXIST, k)" "sys_semget key False k = (Inr i, k)"
    using Some by (simp_all add: sys_semget_def)
  have "sv_sem_keys (sem_rmid i k) key = None" "sv_next (sem_rmid i k) = sv_next k"
    "sv_shm_keys (sem_rmid i k) = sv_shm_keys k" "sv_segs (sem_rmid i k) = sv_segs k"
    using v by (simp_all add: sem_rmid_def)
  then show ?thesis
    by (simp add: create_sem_def excl id_of_def) (simp add: sys_semget_def Let_def)
qed

lemma page_round_bound: "0 < n \<Longrightarrow> n \<le> int (page_round n) \<and> 4 \<le> page_round n"
proof -
  assume "0 < n"
  then have "1 \<le> (n + 4095) div 4096" "n \<le> (n + 4095) div 4096 * 4096" by linarith+
  then show ?thesis by (simp add: page_round_def)
qed

lemma create_makes_channel:
  assumes ok: "sysv_ok k" and n: "0 < n" "n \<le> sv_shmmax k" and p: "0 \<le> g_flag p" "fp_pid p \<noteq> rpid"
  shows "\<exists>ids p' k'. create_shared_frame ftok n p k = Returned (ids, p', k') \<and>
    get_frame_start ftok (g_flag p) k' = (0, ids) \<and> g_flag p' = g_flag p + 1 \<and>
    channel (nat (g_flag p)) ids rpid (page_round n) 0 0 Empty \<lparr>fs_k = k', fs_send = p', fs_recv = None\<rparr>"
proof -
  let ?i = "sv_next k"
  obtain k1 where k1: "create_shm (ftok (115 + g_flag p)) n k = (?i, k1)" "sv_shm_keys k1 (ftok (115 + g_flag p)) = Some ?i"
    "sv_segs k1 ?i = Some \<lparr>sg_mem = replicate (page_round n) 0, sg_size = n, sg_nattch = 0, sg_key = Some (ftok (115 + g_flag p))\<rparr>"
    "sv_next k1 = ?i + 1" "sv_sems k1 = sv_sems k" "sv_sem_keys k1 = sv_sem_keys k"
    using create_shm_new [OF ok n] by blast
  have "\<exists>v. sv_sems k1 i = Some (key, v)" if "sv_sem_keys k1 key = Some i" for key i
    using ok that k1(5,6) unfolding sysv_ok_def by simp
  from create_sem_new [OF this]
  obtain k2 where k2: "create_sem (ftok (97 + g_flag p)) k1 = (?i + 1, k2)" "sv_sem_keys k2 (ftok (97 + g_flag p)) = Some (?i + 1)"
    "sv_sems k2 (?i + 1) = Some (ftok (97 + g_flag p), 0)" "\<forall>pid. sv_undo k2 pid (?i + 1) = 0"
    "sv_shm_keys k2 = sv_shm_keys k1" "sv_segs k2 = sv_segs k1"
    using k1(4) by force
  let ?k3 = "sem_setval (?i + 1) 0 k2"
  let ?sg = "\<lparr>sg_mem = replicate (page_round n) 0, sg_size = n, sg_nattch = 0, sg_key = Some (ftok (115 + g_flag p))\<rparr>"
  let ?sg' = "?sg\<lparr>sg_mem := int_bytes 0 @ replicate (page_round n - 4) 0\<rparr>"
  have l4: "length (int_bytes 0) = 4" by (simp add: int_bytes_def)
  have pr: "4 \<le> page_round n" using page_round_bound [OF n(1)] by simp
  have s3: "sv_segs ?k3 ?i = Some ?sg" "sv_sems ?k3 (?i + 1) = Some (ftok (97 + g_flag p), 0)"
    "sv_undo ?k3 pid (?i + 1) = 0" "sv_shm_keys ?k3 = sv_shm_keys k1" "sv_sem_keys ?k3 = sv_sem_keys k2" for pid
    using k1(3) k2 by (simp_all add: sem_setval_def)
  let ?k4 = "?k3\<lparr>sv_segs := (sv_segs ?k3)(?i \<mapsto> ?sg\<lparr>sg_nattch := 1\<rparr>)\<rparr>"
  have at: "sys_shmat ?i ?k3 = (Mapped ?i, ?k4)" using s3(1) by (simp add: sys_shmat_def)
  let ?k5 = "?k3\<lparr>sv_segs := (sv_segs ?k3)(?i \<mapsto> ?sg'\<lparr>sg_nattch := 1\<rparr>)\<rparr>"
  have pk: "poke (Mapped ?i) 0 (int_bytes 0) ?k4 = Some ?k5" using pr l4 by (simp add: poke_def)
  let ?k6 = "?k3\<lparr>sv_segs := (sv_segs ?k3)(?i \<mapsto> ?sg')\<rparr>"
  have dt: "sys_shmdt (Mapped ?i) ?k5 = ?k6" by (simp add: sys_shmdt_def)
  let ?ids = "\<lparr>shm_id = ?i, sem_id = ?i + 1\<rparr>"
  let ?p = "p\<lparr>g_flag := g_flag p + 1, g_addr := replicate (nat (g_flag p + 1)) NullPtr\<rparr>"
  have r: "create_shared_frame ftok n p k = Returned (?ids, ?p, ?k6)"
    unfolding create_shared_frame_def k1(1) k2(1) prod.case Let_def at pk option.case dt by (rule refl)
  have i0: "0 \<le> ?i" using ok by (simp add: sysv_ok_def)
  have start: "get_frame_start ftok (g_flag p) ?k6 = (0, ?ids)"
    using k1(2) s3(4,5) k2(2) i0 n(1) by (simp add: get_frame_start_def sys_shmget_def sys_semget_def id_of_def Let_def)
  have "take 4 (sg_mem ?sg') = int_bytes 0" using l4 by simp
  moreover have "bytes_int (int_bytes 0) = 0" by (simp add: bytes_int_def int_bytes_def upt_rec)
  ultimately have "channel (nat (g_flag p)) ?ids rpid (page_round n) 0 0 Empty \<lparr>fs_k = ?k6, fs_send = ?p, fs_recv = None\<rparr>"
    using p s3(2,3) pr l4 by (simp add: channel_def)
  then show ?thesis using r start by auto
qed

lemma created_channel:
  assumes "sysv_ok k" "0 < n" "n \<le> sv_shmmax k" "0 \<le> g_flag p" "fp_pid p \<noteq> rpid"
    and "create_shared_frame ftok n p k = Returned (ids, p', k')"
  shows "channel (nat (g_flag p)) ids rpid (page_round n) 0 0 Empty \<lparr>fs_k = k', fs_send = p', fs_recv = None\<rparr>"
    and "nat n \<le> page_round n"
  using create_makes_channel [OF assms(1-5), of ftok] assms(6) page_round_bound [OF assms(2)] by auto

text \<open>Without a segment the address is the one that reports an error, and the word is written to it.\<close>

lemma create_sem_segs: "sv_segs (snd (create_sem key k)) = sv_segs k"
  by (auto simp: create_sem_def sys_semget_def sem_rmid_def Let_def split: option.splits prod.splits)

lemma create_shm_refused:
  assumes ok: "sysv_ok k" and n: "\<not> (0 < n \<and> n \<le> sv_shmmax k)"
  shows "\<exists>k'. create_shm key n k = (- 1, k') \<and> sv_segs k' (- 1) = None"
proof -
  have seg: "sv_segs k (- 1) = None" using ok unfolding sysv_ok_def by force
  show ?thesis
  proof (cases "sv_shm_keys k key")
    case None
    then show ?thesis using n seg by (auto simp: create_shm_def sys_shmget_def)
  next
    case (Some i)
    then obtain sg where sg: "sv_segs k i = Some sg" "sg_key sg = Some key" "0 \<le> sg_size sg"
      using ok unfolding sysv_ok_def by blast
    have excl: "sys_shmget key n True k = (Inl EEXIST, k)" "sys_shmget key 0 False k = (Inr i, k)"
      using Some sg by (simp_all add: sys_shmget_def)
    have r: "sv_shm_keys (shm_rmid i k) key = None" "sv_shmmax (shm_rmid i k) = sv_shmmax k"
      "sv_segs (shm_rmid i k) (- 1) = None"
      using sg seg by (auto simp: shm_rmid_def)
    have "sys_shmget key n True (shm_rmid i k) = (Inl EINVAL, shm_rmid i k)"
      using n r by (auto simp: sys_shmget_def)
    then show ?thesis using r(3) by (simp add: create_shm_def excl id_of_def)
  qed
qed

lemma create_without_segment:
  assumes ok: "sysv_ok k" and n: "\<not> (0 < n \<and> n \<le> sv_shmmax k)"
  shows "create_shared_frame ftok n p k = Crashed"
proof -
  obtain k1 where k1: "create_shm (ftok (115 + g_flag p)) n k = (- 1, k1)" "sv_segs k1 (- 1) = None"
    using create_shm_refused [OF ok n] by blast
  obtain sem k2 where k2: "create_sem (ftok (97 + g_flag p)) k1 = (sem, k2)" by fastforce
  then have "sv_segs k2 (- 1) = None" using create_sem_segs [of "ftok (97 + g_flag p)" k1] k1(2) by simp
  then have "sv_segs (sem_setval sem 0 k2) (- 1) = None" by (simp add: sem_setval_def split: option.splits)
  then show ?thesis by (simp add: create_shared_frame_def k1(1) k2 sys_shmat_def poke_def Let_def)
qed

end
