(* ===== verification/Ipc_Channel.thy ===== *)
theory Ipc_Channel
  imports Frame_Ipc
begin

text \<open>
  The class \<open>Ipc\<close> of \<open>InterProcessComm/code/ipc/ipc.cpp\<close>: one interface over a pair of datagram sockets or a
  message queue. The fields \<open>ipc_mq\<close> and \<open>socket\<close> of its union are the same four bytes. A system call that may fail for want of
  resources has the error as an argument; logging is left out.
\<close>

subsection \<open>State\<close>

datatype ipc_type = SOCKET | MQUEUE
datatype role_type = SERVER | CLIENT
datatype ret_type = SUCCESS | FAIL | NULLPTR | STR_EMPTY | UNKNOWN_TYPE

record ipc_info =
  ii_type :: ipc_type
  ii_fd :: int
  ii_role :: role_type

type_synonym msg = "8 word list"

text \<open>
  A descriptor refers to a queue of messages, which lives on when its name is gone. A socket has the datagrams sent
  to it and its send timeout.
\<close>

datatype ipc_desc = Queue nat | Datagrams

record ipc_kernel =
  ik_name :: "nat option"
  ik_queues :: "nat \<Rightarrow> msg list"
  ik_next_queue :: nat
  ik_files :: "string \<Rightarrow> int option"
  ik_dgrams :: "int \<Rightarrow> msg list"
  ik_sndtimeo :: "int \<Rightarrow> int \<times> int"
  ik_descs :: "int \<Rightarrow> ipc_desc option"
  ik_next :: int

definition SOCKET_SERVER_NAME :: string where "SOCKET_SERVER_NAME = ''/var/master_server.sock''"
definition SOCKET_CLIENT_NAME :: string where "SOCKET_CLIENT_NAME = ''/var/master_client.sock''"
definition MAX_MSG_NUM :: nat where "MAX_MSG_NUM = 5"
definition MSG_LEN :: nat where "MSG_LEN = 16"

definition own_name :: "role_type \<Rightarrow> string" where
  "own_name role = (if role = SERVER then SOCKET_SERVER_NAME else SOCKET_CLIENT_NAME)"

definition peer_name :: "role_type \<Rightarrow> string" where
  "peer_name role = (if role = SERVER then SOCKET_CLIENT_NAME else SOCKET_SERVER_NAME)"

subsection \<open>System calls\<close>

definition EMSGSIZE :: errno where "EMSGSIZE = E_OTHER 90"
definition EADDRINUSE :: errno where "EADDRINUSE = E_OTHER 98"
definition ECONNREFUSED :: errno where "ECONNREFUSED = E_OTHER 111"

definition sys_unlink :: "string \<Rightarrow> ipc_kernel \<Rightarrow> ipc_kernel" where
  "sys_unlink path k = k\<lparr>ik_files := (ik_files k)(path := None)\<rparr>"

definition sys_socket :: "errno option \<Rightarrow> ipc_kernel \<Rightarrow> (errno + int) \<times> ipc_kernel" where
  "sys_socket fault k =
    (case fault of
       Some e \<Rightarrow> (Inl e, k)
     | None \<Rightarrow>
         (let fd = ik_next k
          in (Inr fd, k\<lparr>ik_next := fd + 1, ik_descs := (ik_descs k)(fd \<mapsto> Datagrams),
              ik_dgrams := (ik_dgrams k)(fd := []), ik_sndtimeo := (ik_sndtimeo k)(fd := (0, 0))\<rparr>)))"

definition sys_bind :: "errno option \<Rightarrow> int \<Rightarrow> string \<Rightarrow> ipc_kernel \<Rightarrow> errno option \<times> ipc_kernel" where
  "sys_bind fault fd path k =
    (if fault \<noteq> None then (fault, k)
     else if ik_files k path \<noteq> None then (Some EADDRINUSE, k)
     else (None, k\<lparr>ik_files := (ik_files k)(path \<mapsto> fd)\<rparr>))"

definition close_desc :: "int \<Rightarrow> ipc_kernel \<Rightarrow> ipc_kernel" where
  "close_desc fd k = k\<lparr>ik_descs := (ik_descs k)(fd := None)\<rparr>"

text \<open>\<open>mq_open\<close> with \<open>O_CREAT | O_EXCL\<close> or without.\<close>

definition sys_mq_open :: "errno option \<Rightarrow> bool \<Rightarrow> ipc_kernel \<Rightarrow> (errno + int) \<times> ipc_kernel" where
  "sys_mq_open fault creat k =
    (case fault of
       Some e \<Rightarrow> (Inl e, k)
     | None \<Rightarrow>
         (let fd = ik_next k
          in case ik_name k of
               Some q \<Rightarrow>
                 if creat then (Inl EEXIST, k)
                 else (Inr fd, k\<lparr>ik_next := fd + 1, ik_descs := (ik_descs k)(fd \<mapsto> Queue q)\<rparr>)
             | None \<Rightarrow>
                 if \<not> creat then (Inl ENOENT, k)
                 else
                   (let q = ik_next_queue k
                    in (Inr fd, k\<lparr>ik_next := fd + 1, ik_next_queue := q + 1, ik_name := Some q,
                        ik_queues := (ik_queues k)(q := []), ik_descs := (ik_descs k)(fd \<mapsto> Queue q)\<rparr>))))"

definition mq_unlink :: "ipc_kernel \<Rightarrow> ipc_kernel" where
  "mq_unlink k = k\<lparr>ik_name := None\<rparr>"

text \<open>What a call that would have to wait does: without a deadline it waits, with one it ends when it is over.\<close>

definition mq_wait :: "(int \<times> int) option \<Rightarrow> errno call_end" where
  "mq_wait deadline =
    (case deadline of
       None \<Rightarrow> Stuck
     | Some (sec, nsec) \<Rightarrow> Returned (if sec < 0 \<or> nsec < 0 \<or> 1000000000 \<le> nsec then EINVAL else ETIMEDOUT))"

definition sys_mq_send ::
    "(int \<times> int) option \<Rightarrow> int \<Rightarrow> msg \<Rightarrow> ipc_kernel \<Rightarrow> (errno option \<times> ipc_kernel) call_end" where
  "sys_mq_send deadline fd m k =
    (case ik_descs k fd of
       Some (Queue q) \<Rightarrow>
         if MSG_LEN < length m then Returned (Some EMSGSIZE, k)
         else if length (ik_queues k q) < MAX_MSG_NUM
         then Returned (None, k\<lparr>ik_queues := (ik_queues k)(q := ik_queues k q @ [m])\<rparr>)
         else (case mq_wait deadline of
                 Returned e \<Rightarrow> Returned (Some e, k) | Stuck \<Rightarrow> Stuck | Crashed \<Rightarrow> Crashed)
     | _ \<Rightarrow> Returned (Some EBADF, k))"

definition sys_mq_receive ::
    "(int \<times> int) option \<Rightarrow> int \<Rightarrow> nat \<Rightarrow> ipc_kernel \<Rightarrow> ((errno + msg) \<times> ipc_kernel) call_end" where
  "sys_mq_receive deadline fd len k =
    (case ik_descs k fd of
       Some (Queue q) \<Rightarrow>
         if len < MSG_LEN then Returned (Inl EMSGSIZE, k)
         else (case ik_queues k q of
                 m # ms \<Rightarrow> Returned (Inr m, k\<lparr>ik_queues := (ik_queues k)(q := ms)\<rparr>)
               | [] \<Rightarrow> (case mq_wait deadline of
                          Returned e \<Rightarrow> Returned (Inl e, k) | Stuck \<Rightarrow> Stuck | Crashed \<Rightarrow> Crashed))
     | _ \<Rightarrow> Returned (Inl EBADF, k))"

text \<open>The full queue of a receiver or a datagram that is too long: the argument says how the call ends then.\<close>

definition sys_sendto ::
    "errno call_end option \<Rightarrow> int \<Rightarrow> msg \<Rightarrow> string \<Rightarrow> ipc_kernel \<Rightarrow> ((errno + nat) \<times> ipc_kernel) call_end" where
  "sys_sendto full fd m path k =
    (if ik_descs k fd \<noteq> Some Datagrams then Returned (Inl EBADF, k)
     else case ik_files k path of
       None \<Rightarrow> Returned (Inl ENOENT, k)
     | Some peer \<Rightarrow>
         if ik_descs k peer \<noteq> Some Datagrams then Returned (Inl ECONNREFUSED, k)
         else (case full of
             None \<Rightarrow> Returned (Inr (length m), k\<lparr>ik_dgrams := (ik_dgrams k)(peer := ik_dgrams k peer @ [m])\<rparr>)
           | Some (Returned e) \<Rightarrow> Returned (Inl e, k)
           | Some Stuck \<Rightarrow> Stuck
           | Some Crashed \<Rightarrow> Crashed))"

text \<open>A datagram that is longer than the buffer is cut off.\<close>

definition sys_recvfrom :: "int \<Rightarrow> nat \<Rightarrow> ipc_kernel \<Rightarrow> ((errno + msg) \<times> ipc_kernel) call_end" where
  "sys_recvfrom fd len k =
    (if ik_descs k fd \<noteq> Some Datagrams then Returned (Inl EBADF, k)
     else case ik_dgrams k fd of
       [] \<Rightarrow> Stuck
     | m # ms \<Rightarrow> Returned (Inr (take len m), k\<lparr>ik_dgrams := (ik_dgrams k)(fd := ms)\<rparr>))"

subsection \<open>The class\<close>

text \<open>\<open>Open\<close>: the errors of \<open>socket\<close>, \<open>bind\<close> and \<open>mq_open\<close> are given; \<open>setsockopt\<close> only warns.\<close>

definition ipc_open ::
    "ipc_type \<Rightarrow> role_type \<Rightarrow> errno option \<Rightarrow> errno option \<Rightarrow> ipc_info \<Rightarrow> ipc_kernel
      \<Rightarrow> ret_type \<times> ipc_info \<times> ipc_kernel" where
  "ipc_open type role fault bind_fault i k =
    (let i = i\<lparr>ii_type := type\<rparr>
     in case type of
          SOCKET \<Rightarrow>
            (let i = i\<lparr>ii_role := role\<rparr>;
                 k = (if role = SERVER then sys_unlink SOCKET_SERVER_NAME k else sys_unlink SOCKET_CLIENT_NAME k)
             in case sys_socket fault k of
                  (Inl e, k) \<Rightarrow> (FAIL, i, k)
                | (Inr fd, k) \<Rightarrow>
                    (case sys_bind bind_fault fd (own_name role) k of
                       (Some e, k) \<Rightarrow> (FAIL, i, close_desc fd k)
                     | (None, k) \<Rightarrow> (SUCCESS, i\<lparr>ii_fd := fd\<rparr>, k)))
        | MQUEUE \<Rightarrow>
            (case sys_mq_open fault (role = SERVER) k of
               (Inl e, k) \<Rightarrow> (FAIL, i, mq_unlink k)
             | (Inr fd, k) \<Rightarrow> (SUCCESS, i\<lparr>ii_fd := fd\<rparr>, k)))"

text \<open>The absolute time of the end of a timeout in milliseconds.\<close>

definition abs_timeout :: "int \<Rightarrow> int \<times> int \<Rightarrow> int \<times> int" where
  "abs_timeout timeout now =
    (let tv_sec = fst now + timeout div 1000;
         tv_nsec = snd now + (timeout mod 1000) * 1000 * 1000
     in if tv_nsec > 1000000000 then (tv_sec + 1, tv_nsec - 1000000000) else (tv_sec, tv_nsec))"

definition deadline_of :: "int \<Rightarrow> int \<times> int \<Rightarrow> (int \<times> int) option" where
  "deadline_of timeout now = (if timeout \<le> 0 then None else Some (abs_timeout timeout now))"

text \<open>The result is a \<open>size_t\<close>; the bytes are what the buffer gets.\<close>

definition read_size :: "errno + msg \<Rightarrow> 64 word \<times> msg" where
  "read_size r = (case r of Inl e \<Rightarrow> (- 1, []) | Inr m \<Rightarrow> (of_nat (length m), m))"

definition ipc_read ::
    "ipc_info \<Rightarrow> nat \<Rightarrow> int \<Rightarrow> int \<times> int \<Rightarrow> ipc_kernel \<Rightarrow> (64 word \<times> msg \<times> ipc_kernel) call_end" where
  "ipc_read i len timeout now k =
    (case ii_type i of
       SOCKET \<Rightarrow>
         if timeout > 0 \<and> (ik_descs k (ii_fd i) \<noteq> Some Datagrams \<or> ik_dgrams k (ii_fd i) = [])
         then Returned (0, [], k)
         else (case sys_recvfrom (ii_fd i) len k of
                 Returned (r, k) \<Rightarrow> (case read_size r of (n, m) \<Rightarrow> Returned (n, m, k))
               | Stuck \<Rightarrow> Stuck
               | Crashed \<Rightarrow> Crashed)
     | MQUEUE \<Rightarrow>
         (case sys_mq_receive (deadline_of timeout now) (ii_fd i) len k of
            Returned (r, k) \<Rightarrow> (case read_size r of (n, m) \<Rightarrow> Returned (n, m, k))
          | Stuck \<Rightarrow> Stuck
          | Crashed \<Rightarrow> Crashed))"

definition set_send_timeout :: "int \<Rightarrow> int \<Rightarrow> ipc_kernel \<Rightarrow> ipc_kernel" where
  "set_send_timeout fd timeout k =
    (let sec = timeout div 1000; usec = (timeout mod 1000) * 1000
     in if ik_sndtimeo k fd \<noteq> (sec, usec) then k\<lparr>ik_sndtimeo := (ik_sndtimeo k)(fd := (sec, usec))\<rparr> else k)"

text \<open>For a socket the variable \<open>ret_type\<close> is never set to \<open>SUCCESS\<close>.\<close>

definition ipc_write ::
    "ipc_info \<Rightarrow> msg \<Rightarrow> int \<Rightarrow> int \<times> int \<Rightarrow> errno call_end option \<Rightarrow> ipc_kernel \<Rightarrow> (ret_type \<times> ipc_kernel) call_end" where
  "ipc_write i m timeout now full k =
    (case ii_type i of
       SOCKET \<Rightarrow>
         (let k = (if timeout \<le> 0 then k else set_send_timeout (ii_fd i) timeout k)
          in case sys_sendto full (ii_fd i) m (peer_name (ii_role i)) k of
               Returned (r, k) \<Rightarrow> Returned (FAIL, k)
             | Stuck \<Rightarrow> Stuck
             | Crashed \<Rightarrow> Crashed)
     | MQUEUE \<Rightarrow>
         (case sys_mq_send (deadline_of timeout now) (ii_fd i) m k of
            Returned (e, k) \<Rightarrow> Returned (if e = None then SUCCESS else FAIL, k)
          | Stuck \<Rightarrow> Stuck
          | Crashed \<Rightarrow> Crashed))"

definition ipc_close :: "ipc_info \<Rightarrow> ipc_kernel \<Rightarrow> ipc_kernel" where
  "ipc_close i k =
    (case ii_type i of
       SOCKET \<Rightarrow> close_desc (ii_fd i) k
     | MQUEUE \<Rightarrow> close_desc (ii_fd i) (mq_unlink k))"

subsection \<open>Deadlines\<close>

lemma abs_timeout_correct:
  assumes "0 \<le> nsec" "nsec < 1000000000" "0 < timeout" "abs_timeout timeout (sec, nsec) = (s, n)"
  shows "s * 1000000000 + n = sec * 1000000000 + nsec + timeout * 1000000" "0 \<le> n" "n \<le> 1000000000"
    "n = 1000000000 \<longleftrightarrow> nsec + timeout mod 1000 * 1000000 = 1000000000"
proof -
  define q r where "q = timeout div 1000" and "r = timeout mod 1000"
  have t: "timeout = 1000 * q + r" "0 \<le> r" "r < 1000" by (simp_all add: q_def r_def)
  have sn: "(s, n) = (if nsec + r * 1000000 > 1000000000 then (sec + q + 1, nsec + r * 1000000 - 1000000000)
      else (sec + q, nsec + r * 1000000))"
    unfolding assms(4)[symmetric] abs_timeout_def Let_def q_def r_def fst_conv snd_conv by simp
  show "s * 1000000000 + n = sec * 1000000000 + nsec + timeout * 1000000" "0 \<le> n" "n \<le> 1000000000"
    using sn t assms(1,2) by (auto split: if_splits)
  show "n = 1000000000 \<longleftrightarrow> nsec + timeout mod 1000 * 1000000 = 1000000000"
    using sn t assms(1,2) by (auto split: if_splits simp flip: r_def)
qed

subsection \<open>Two ends\<close>

text \<open>
  A run of both ends, in any interleaving: each event is a \<open>Write\<close> or a \<open>Read\<close> of the server or of the client, with the
  timeout and the time of the call. The log has what each call gave back.
\<close>

datatype ipc_event = Write msg int "int \<times> int" | Read int "int \<times> int"

datatype ipc_result = Put_Result ret_type | Get_Result "64 word" msg

definition log_then :: "ipc_result \<Rightarrow> (ipc_result list \<times> 's) call_end \<Rightarrow> (ipc_result list \<times> 's) call_end" where
  "log_then x r =
    (case r of Returned (l, s) \<Rightarrow> Returned (x # l, s) | Stuck \<Rightarrow> Stuck | Crashed \<Rightarrow> Crashed)"

fun ends_run ::
    "(role_type \<Rightarrow> msg \<Rightarrow> int \<Rightarrow> int \<times> int \<Rightarrow> 's \<Rightarrow> (ret_type \<times> 's) call_end)
      \<Rightarrow> (role_type \<Rightarrow> int \<Rightarrow> int \<times> int \<Rightarrow> 's \<Rightarrow> (64 word \<times> msg \<times> 's) call_end)
      \<Rightarrow> (role_type \<times> ipc_event) list \<Rightarrow> 's \<Rightarrow> (ipc_result list \<times> 's) call_end" where
  "ends_run put get [] s = Returned ([], s)"
| "ends_run put get ((e, Write m t now) # es) s =
    (case put e m t now s of
       Returned (r, s) \<Rightarrow> log_then (Put_Result r) (ends_run put get es s)
     | Stuck \<Rightarrow> Stuck
     | Crashed \<Rightarrow> Crashed)"
| "ends_run put get ((e, Read t now) # es) s =
    (case get e t now s of
       Returned (cnt, m, s) \<Rightarrow> log_then (Get_Result cnt m) (ends_run put get es s)
     | Stuck \<Rightarrow> Stuck
     | Crashed \<Rightarrow> Crashed)"

text \<open>
  What it amounts to: queues of messages. \<open>dest\<close> names the queue an end writes to, \<open>src\<close> the one it reads from,
  \<open>code\<close> what a write reports; \<open>room\<close> says for how many pending messages one more fits.
\<close>

fun fifo_log ::
    "(role_type \<Rightarrow> role_type) \<Rightarrow> (role_type \<Rightarrow> role_type) \<Rightarrow> ret_type \<Rightarrow> (role_type \<times> ipc_event) list
      \<Rightarrow> (role_type \<Rightarrow> msg list) \<Rightarrow> ipc_result list" where
  "fifo_log dest src code [] q = []"
| "fifo_log dest src code ((e, Write m t now) # es) q =
    Put_Result code # fifo_log dest src code es (q(dest e := q (dest e) @ [m]))"
| "fifo_log dest src code ((e, Read t now) # es) q =
    Get_Result (of_nat (length (hd (q (src e))))) (hd (q (src e)))
      # fifo_log dest src code es (q(src e := tl (q (src e))))"

fun fifo_legal ::
    "(role_type \<Rightarrow> role_type) \<Rightarrow> (role_type \<Rightarrow> role_type) \<Rightarrow> (msg \<Rightarrow> bool) \<Rightarrow> (nat \<Rightarrow> bool)
      \<Rightarrow> (role_type \<times> ipc_event) list \<Rightarrow> (role_type \<Rightarrow> msg list) \<Rightarrow> bool" where
  "fifo_legal dest src fits room [] q = True"
| "fifo_legal dest src fits room ((e, Write m t now) # es) q =
    (fits m \<and> room (length (q (dest e))) \<and> fifo_legal dest src fits room es (q(dest e := q (dest e) @ [m])))"
| "fifo_legal dest src fits room ((e, Read t now) # es) q =
    (q (src e) \<noteq> [] \<and> fifo_legal dest src fits room es (q(src e := tl (q (src e)))))"

text \<open>What a transport has to keep for that.\<close>

locale transport =
  fixes put :: "role_type \<Rightarrow> msg \<Rightarrow> int \<Rightarrow> int \<times> int \<Rightarrow> 's \<Rightarrow> (ret_type \<times> 's) call_end"
    and get :: "role_type \<Rightarrow> int \<Rightarrow> int \<times> int \<Rightarrow> 's \<Rightarrow> (64 word \<times> msg \<times> 's) call_end"
    and dest :: "role_type \<Rightarrow> role_type" and src :: "role_type \<Rightarrow> role_type"
    and code :: ret_type
    and pending :: "'s \<Rightarrow> role_type \<Rightarrow> msg list"
    and ready :: "'s \<Rightarrow> bool"
    and fits :: "msg \<Rightarrow> bool"
    and room :: "nat \<Rightarrow> bool"
  assumes put_appends: "ready s \<Longrightarrow> fits m \<Longrightarrow> room (length (pending s (dest e))) \<Longrightarrow>
      \<exists>s'. put e m t now s = Returned (code, s') \<and> ready s' \<and>
        pending s' = (pending s)(dest e := pending s (dest e) @ [m])"
    and get_takes: "ready s \<Longrightarrow> pending s (src e) = m # ms \<Longrightarrow> fits m \<Longrightarrow>
      \<exists>s'. get e t now s = Returned (of_nat (length m), m, s') \<and> ready s' \<and> pending s' = (pending s)(src e := ms)"
begin

lemma is_fifo:
  assumes "ready s" "fifo_legal dest src fits room es (pending s)" "\<And>e. list_all fits (pending s e)"
  shows "\<exists>s'. ends_run put get es s = Returned (fifo_log dest src code es (pending s), s') \<and> ready s'"
  using assms
proof (induction es arbitrary: s)
  case (Cons x es)
  obtain e a where x: "x = (e, a)" by (cases x)
  show ?case
  proof (cases a)
    case (Write m t now)
    then obtain s' where s': "put e m t now s = Returned (code, s')" "ready s'"
      "pending s' = (pending s)(dest e := pending s (dest e) @ [m])"
      using put_appends [of s m e t now] Cons.prems x by auto
    have l: "fifo_legal dest src fits room es (pending s')" using Cons.prems(2) x Write by (simp add: s'(3))
    have "list_all fits (pending s' d)" for d using Cons.prems(2,3) x Write by (simp add: s'(3))
    then obtain s'' where "ends_run put get es s' = Returned (fifo_log dest src code es (pending s'), s'')" "ready s''"
      using Cons.IH [OF s'(2) l] by blast
    then show ?thesis by (simp add: x Write s'(1) log_then_def flip: s'(3))
  next
    case (Read t now)
    then obtain m ms where q: "pending s (src e) = m # ms"
      using Cons.prems x by (cases "pending s (src e)") auto
    have f: "fits m" "list_all fits ms" using Cons.prems(3) [of "src e"] q by simp_all
    then obtain s' where s': "get e t now s = Returned (of_nat (length m), m, s')" "ready s'"
      "pending s' = (pending s)(src e := ms)"
      using get_takes [of s e m ms t now] Cons.prems q by auto
    have l: "fifo_legal dest src fits room es (pending s')" using Cons.prems(2) x Read q by (simp add: s'(3))
    have "list_all fits (pending s' d)" for d using Cons.prems(3) [of d] f by (simp add: s'(3))
    then obtain s'' where "ends_run put get es s' = Returned (fifo_log dest src code es (pending s'), s'')" "ready s''"
      using Cons.IH [OF s'(2) l] by blast
    then show ?thesis by (simp add: x Read s'(1) log_then_def q flip: s'(3))
  qed
qed simp

end

text \<open>The ends of a message queue are on one queue, those of a pair of sockets have one each.\<close>

definition end_of :: "ipc_info \<Rightarrow> ipc_info \<Rightarrow> role_type \<Rightarrow> ipc_info" where
  "end_of i j e = (if e = SERVER then i else j)"

definition other_end :: "role_type \<Rightarrow> role_type" where
  "other_end e = (if e = SERVER then CLIENT else SERVER)"

definition one_queue :: "nat \<Rightarrow> ipc_kernel \<Rightarrow> role_type \<Rightarrow> msg list" where
  "one_queue q k = (\<lambda>_. [])(SERVER := ik_queues k q)"

definition two_queues :: "ipc_info \<Rightarrow> ipc_info \<Rightarrow> ipc_kernel \<Rightarrow> role_type \<Rightarrow> msg list" where
  "two_queues i j k e = ik_dgrams k (ii_fd (end_of i j e))"

definition queue_ends :: "ipc_info \<Rightarrow> ipc_info \<Rightarrow> nat \<Rightarrow> nat \<Rightarrow> ipc_kernel \<Rightarrow> bool" where
  "queue_ends i j q len k \<longleftrightarrow> ii_type i = MQUEUE \<and> ii_type j = MQUEUE \<and> MSG_LEN \<le> len \<and>
    ik_descs k (ii_fd i) = Some (Queue q) \<and> ik_descs k (ii_fd j) = Some (Queue q)"

definition socket_ends :: "ipc_info \<Rightarrow> ipc_info \<Rightarrow> ipc_kernel \<Rightarrow> bool" where
  "socket_ends i j k \<longleftrightarrow> ii_type i = SOCKET \<and> ii_type j = SOCKET \<and> ii_fd i \<noteq> ii_fd j \<and>
    ii_role i = SERVER \<and> ii_role j = CLIENT \<and>
    ik_descs k (ii_fd i) = Some Datagrams \<and> ik_descs k (ii_fd j) = Some Datagrams \<and>
    ik_files k SOCKET_SERVER_NAME = Some (ii_fd i) \<and> ik_files k SOCKET_CLIENT_NAME = Some (ii_fd j)"

lemma queue_put:
  assumes "queue_ends i j q len k" "length m \<le> MSG_LEN" "length (ik_queues k q) < MAX_MSG_NUM"
  shows "ipc_write (end_of i j e) m t now full k =
    Returned (SUCCESS, k\<lparr>ik_queues := (ik_queues k)(q := ik_queues k q @ [m])\<rparr>)"
  using assms by (cases e) (simp_all add: queue_ends_def end_of_def ipc_write_def sys_mq_send_def)

lemma queue_get:
  assumes "queue_ends i j q len k" "ik_queues k q = m # ms"
  shows "ipc_read (end_of i j e) len t now k =
    Returned (of_nat (length m), m, k\<lparr>ik_queues := (ik_queues k)(q := ms)\<rparr>)"
  using assms by (cases e) (simp_all add: queue_ends_def end_of_def ipc_read_def sys_mq_receive_def read_size_def)

interpretation mq: transport "\<lambda>e m t now. ipc_write (end_of i j e) m t now full" "\<lambda>e. ipc_read (end_of i j e) len"
    "\<lambda>_. SERVER" "\<lambda>_. SERVER" SUCCESS "one_queue q" "queue_ends i j q len" "\<lambda>m. length m \<le> MSG_LEN"
    "\<lambda>n. n < MAX_MSG_NUM"
    for i j q len full
proof
  show "\<exists>s'. ipc_write (end_of i j e) m t now full s = Returned (SUCCESS, s') \<and> queue_ends i j q len s' \<and>
      one_queue q s' = (one_queue q s)(SERVER := one_queue q s SERVER @ [m])"
    if "queue_ends i j q len s" "length m \<le> MSG_LEN" "length (one_queue q s SERVER) < MAX_MSG_NUM" for s m e t now
    using queue_put [OF that(1,2)] that by (simp add: queue_ends_def one_queue_def)
  show "\<exists>s'. ipc_read (end_of i j e) len t now s = Returned (of_nat (length m), m, s') \<and> queue_ends i j q len s' \<and>
      one_queue q s' = (one_queue q s)(SERVER := ms)"
    if "queue_ends i j q len s" "one_queue q s SERVER = m # ms" for s e m ms t now
    using queue_get [OF that(1)] that by (simp add: queue_ends_def one_queue_def)
qed

lemma set_send_timeout_keeps [simp]:
  "ik_descs (set_send_timeout fd t k) = ik_descs k" "ik_files (set_send_timeout fd t k) = ik_files k"
  "ik_dgrams (set_send_timeout fd t k) = ik_dgrams k"
  by (simp_all add: set_send_timeout_def Let_def)

lemma socket_put:
  assumes "socket_ends i j k"
  shows "\<exists>k'. ipc_write (end_of i j e) m t now None k = Returned (FAIL, k') \<and> socket_ends i j k' \<and>
    ik_dgrams k' = (ik_dgrams k)(ii_fd (end_of i j (other_end e)) := ik_dgrams k (ii_fd (end_of i j (other_end e))) @ [m])"
  using assms
  by (cases e) (simp_all add: socket_ends_def end_of_def other_end_def peer_name_def ipc_write_def sys_sendto_def Let_def)

lemma socket_get:
  assumes "socket_ends i j k" "ik_dgrams k (ii_fd (end_of i j e)) = m # ms" "length m \<le> len"
  shows "ipc_read (end_of i j e) len t now k =
    Returned (of_nat (length m), m, k\<lparr>ik_dgrams := (ik_dgrams k)(ii_fd (end_of i j e) := ms)\<rparr>)"
  using assms by (cases e) (simp_all add: socket_ends_def end_of_def ipc_read_def sys_recvfrom_def read_size_def)

lemma two_queues_upd:
  "ii_fd i \<noteq> ii_fd j \<Longrightarrow> ik_dgrams k' = (ik_dgrams k)(ii_fd (end_of i j e) := x) \<Longrightarrow>
    two_queues i j k' = (two_queues i j k)(e := x)"
  by (intro ext, rename_tac d, case_tac d; cases e) (simp_all add: two_queues_def end_of_def)

interpretation sock: transport "\<lambda>e m t now. ipc_write (end_of i j e) m t now None" "\<lambda>e. ipc_read (end_of i j e) len"
    other_end "\<lambda>e. e" FAIL "two_queues i j" "socket_ends i j" "\<lambda>m. length m \<le> len" "\<lambda>n. True"
    for i j len
proof
  show "\<exists>s'. ipc_write (end_of i j e) m t now None s = Returned (FAIL, s') \<and> socket_ends i j s' \<and>
      two_queues i j s' = (two_queues i j s)(other_end e := two_queues i j s (other_end e) @ [m])"
    if "socket_ends i j s" for s m e t now
    using socket_put [OF that, of e m t now] two_queues_upd [of i j] that
    unfolding two_queues_def [of i j s "other_end e"] by (fastforce simp: socket_ends_def)
  show "\<exists>s'. ipc_read (end_of i j e) len t now s = Returned (of_nat (length m), m, s') \<and> socket_ends i j s' \<and>
      two_queues i j s' = (two_queues i j s)(e := ms)"
    if "socket_ends i j s" "two_queues i j s e = m # ms" "length m \<le> len" for s e m ms t now
    using socket_get [OF that(1) that(2) [unfolded two_queues_def] that(3), of t now] that(1)
    by (auto simp: socket_ends_def intro!: two_queues_upd)
qed

subsection \<open>Opening and closing\<close>

lemma open_queue_ends:
  assumes "ik_name k = None" "MSG_LEN \<le> len"
    "ipc_open MQUEUE SERVER None bf i k = (c, i1, k1)" "ipc_open MQUEUE CLIENT None bf' j k1 = (c', j1, k2)"
  shows "c = SUCCESS \<and> c' = SUCCESS \<and> queue_ends i1 j1 (ik_next_queue k) len k2 \<and>
    ik_queues k2 (ik_next_queue k) = []"
proof -
  let ?k1 = "k\<lparr>ik_next := ik_next k + 1, ik_next_queue := ik_next_queue k + 1, ik_name := Some (ik_next_queue k),
    ik_queues := (ik_queues k)(ik_next_queue k := []), ik_descs := (ik_descs k)(ik_next k \<mapsto> Queue (ik_next_queue k))\<rparr>"
  have 1: "c = SUCCESS" "i1 = i\<lparr>ii_type := MQUEUE, ii_fd := ik_next k\<rparr>" "k1 = ?k1"
    using assms(1,3) by (auto simp: ipc_open_def sys_mq_open_def Let_def)
  have 2: "c' = SUCCESS" "j1 = j\<lparr>ii_type := MQUEUE, ii_fd := ik_next k + 1\<rparr>"
    "k2 = ?k1\<lparr>ik_next := ik_next k + 2, ik_descs := (ik_descs ?k1)(ik_next k + 1 \<mapsto> Queue (ik_next_queue k))\<rparr>"
    using assms(4) by (auto simp: ipc_open_def sys_mq_open_def Let_def 1(3))
  show ?thesis using assms(2) by (simp add: queue_ends_def 1(1,2) 2)
qed

text \<open>Sockets that other processes left under the names do not matter: they are unlinked.\<close>

lemma open_socket_ends:
  assumes "ipc_open SOCKET SERVER None None i k = (c, i1, k1)" "ipc_open SOCKET CLIENT None None j k1 = (c', j1, k2)"
  shows "c = SUCCESS \<and> c' = SUCCESS \<and> socket_ends i1 j1 k2 \<and>
    ik_dgrams k2 (ii_fd i1) = [] \<and> ik_dgrams k2 (ii_fd j1) = []"
proof -
  note defs = ipc_open_def sys_unlink_def sys_socket_def sys_bind_def own_name_def Let_def
  let ?k1 = "k\<lparr>ik_next := ik_next k + 1, ik_files := (ik_files k)(SOCKET_SERVER_NAME \<mapsto> ik_next k),
    ik_descs := (ik_descs k)(ik_next k \<mapsto> Datagrams), ik_dgrams := (ik_dgrams k)(ik_next k := []),
    ik_sndtimeo := (ik_sndtimeo k)(ik_next k := (0, 0))\<rparr>"
  have 1: "c = SUCCESS" "i1 = i\<lparr>ii_type := SOCKET, ii_role := SERVER, ii_fd := ik_next k\<rparr>" "k1 = ?k1"
    using assms(1) by (auto simp: defs)
  have 2: "c' = SUCCESS" "j1 = j\<lparr>ii_type := SOCKET, ii_role := CLIENT, ii_fd := ik_next k + 1\<rparr>"
    "k2 = ?k1\<lparr>ik_next := ik_next k + 2, ik_files := (ik_files ?k1)(SOCKET_CLIENT_NAME \<mapsto> ik_next k + 1),
      ik_descs := (ik_descs ?k1)(ik_next k + 1 \<mapsto> Datagrams), ik_dgrams := (ik_dgrams ?k1)(ik_next k + 1 := []),
      ik_sndtimeo := (ik_sndtimeo ?k1)(ik_next k + 1 := (0, 0))\<rparr>"
    using assms(2) by (auto simp: defs 1(3))
  have "SOCKET_SERVER_NAME \<noteq> SOCKET_CLIENT_NAME" by (simp add: SOCKET_SERVER_NAME_def SOCKET_CLIENT_NAME_def)
  then show ?thesis by (simp add: socket_ends_def 1(1,2) 2)
qed

text \<open>A failed open of the queue, or the close of either end, takes the name away: nobody can join any more.\<close>

lemma queue_name_gone:
  assumes "ipc_open MQUEUE role fault bf i k = (FAIL, i', k') \<or> ii_type i = MQUEUE \<and> k' = ipc_close i k"
  shows "ik_name k' = None \<and> ik_queues k' = ik_queues k \<and>
    (\<forall>j bf'. \<exists>j'. ipc_open MQUEUE CLIENT None bf' j k' = (FAIL, j', k'))"
proof -
  have "ik_name k' = None \<and> ik_queues k' = ik_queues k"
    using assms
    by (auto simp: ipc_open_def ipc_close_def close_desc_def mq_unlink_def sys_mq_open_def Let_def
        split: prod.splits sum.splits option.splits if_splits)
  moreover from this have "mq_unlink k' = k'" by (simp add: mq_unlink_def)
  ultimately show ?thesis by (simp add: ipc_open_def sys_mq_open_def Let_def)
qed

end
