(* ===== verification/Ipc_Properties.thy ===== *)
theory Ipc_Properties
  imports Frame_Ipc Ipc_Channel
begin

text \<open>
  The properties of the two libraries for communication between processes, with instances: a kernel
  without objects, a sender with process number 1 and a receiver with process number 2; and the two ends of
  the class \<open>Ipc\<close> in a kernel without a queue.
\<close>

subsection \<open>Concrete systems\<close>

definition ex_sysv :: sysv where
  "ex_sysv = \<lparr>sv_segs = (\<lambda>_. None), sv_shm_keys = (\<lambda>_. None), sv_sems = (\<lambda>_. None), sv_sem_keys = (\<lambda>_. None),
     sv_undo = (\<lambda>_ _. 0), sv_next = 0, sv_shmmax = 65536\<rparr>"

definition ex_sender :: frame_proc where
  "ex_sender = \<lparr>fp_pid = 1, g_flag = 0, g_addr = []\<rparr>"

definition ex_events :: "frame_event list" where
  "ex_events = [Attach, Send [1, 0, 0, 0] [7], Send [2, 0, 0, 0] [8], Attach, Send [2, 0, 0, 0] [8], Deattach]"

lemma ex_sysv_ok: "sysv_ok ex_sysv" "sv_shmmax ex_sysv = 65536" "g_flag ex_sender = 0" "fp_pid ex_sender = 1"
  by (simp_all add: ex_sysv_def ex_sender_def sysv_ok_def)

lemma ex_created:
  obtains ids p k where "create_shared_frame id 5 ex_sender ex_sysv = Returned (ids, p, k)"
  using create_makes_channel [OF ex_sysv_ok(1), of 5 ex_sender 2 id] by (auto simp: ex_sysv_ok)

lemma ex_events_legal: "frames_legal 5 5 ex_events Empty" "length ex_events \<le> 32767"
    "slot_run 5 ex_events Empty = ([Blocked, Accepted, Refused, Got [1, 0, 0, 0, 7], Refused, Released], Empty)"
  by code_simp+

lemma ex_frame_legal: "frame_legal 5 5 (Send [1, 0, 0, 0] [7]) Empty" by code_simp

definition ex_ipc :: ipc_kernel where
  "ex_ipc = \<lparr>ik_name = None, ik_queues = (\<lambda>_. []), ik_next_queue = 0, ik_files = (\<lambda>_. None), ik_dgrams = (\<lambda>_. []),
     ik_sndtimeo = (\<lambda>_. (0, 0)), ik_descs = (\<lambda>_. None), ik_next = 3\<rparr>"

definition ex_end :: ipc_info where "ex_end = \<lparr>ii_type = SOCKET, ii_fd = 0, ii_role = SERVER\<rparr>"

lemma ipc_openE: obtains c i' k' where "ipc_open type role fault bf i k = (c, i', k')" by (cases "ipc_open type role fault bf i k")

subsection \<open>Frames in shared memory\<close>

text \<open>C27: \<open>CreateSharedFrame\<close> ends well exactly when the size is positive and allowed: then, whatever had the keys before,
  a receiver's \<open>GetFrameStart\<close> finds the new objects, and the frame is zero. Otherwise it writes to the
  address that stands for the error.\<close>

theorem create_shared_frame_outcome:
  assumes "sysv_ok k" "0 \<le> g_flag p"
  shows "if 0 < n \<and> n \<le> sv_shmmax k
    then \<exists>ids p' k' sg. create_shared_frame ftok n p k = Returned (ids, p', k') \<and>
      get_frame_start ftok (g_flag p) k' = (0, ids) \<and> g_flag p' = g_flag p + 1 \<and>
      sv_segs k' (shm_id ids) = Some sg \<and> n \<le> int (length (sg_mem sg)) \<and> bytes_int (take 4 (sg_mem sg)) = 0
    else create_shared_frame ftok n p k = Crashed"
proof (cases "0 < n \<and> n \<le> sv_shmmax k")
  case True
  have "fp_pid p \<noteq> Suc (fp_pid p)" by simp
  with create_makes_channel [OF assms(1) _ _ assms(2) this, of n ftok] True
  obtain ids p' k' where r: "create_shared_frame ftok n p k = Returned (ids, p', k')"
    "get_frame_start ftok (g_flag p) k' = (0, ids)" "g_flag p' = g_flag p + 1"
    "channel (nat (g_flag p)) ids (Suc (fp_pid p)) (page_round n) 0 0 Empty \<lparr>fs_k = k', fs_send = p', fs_recv = None\<rparr>"
    by blast
  then obtain sg where "sv_segs k' (shm_id ids) = Some sg" "length (sg_mem sg) = page_round n"
    "bytes_int (take 4 (sg_mem sg)) = 0"
    by (auto simp: channel_def)
  then show ?thesis using True r page_round_bound [of n] by auto
next
  case False
  then show ?thesis using create_without_segment [OF assms(1)] by auto
qed

theorem create_shared_frame_outcome_witness:
  "(\<exists>ids p k. create_shared_frame id 5 ex_sender ex_sysv = Returned (ids, p, k)) \<and>
    create_shared_frame id 65537 ex_sender ex_sysv = Crashed"
  using create_shared_frame_outcome [OF ex_sysv_ok(1), of ex_sender 5 id]
    create_shared_frame_outcome [OF ex_sysv_ok(1), of ex_sender 65537 id] by (auto simp: ex_sysv_ok)

text \<open>C28: a channel that \<open>CreateSharedFrame\<close> made is a place for one frame: any sequence of up to 32767 calls of
  \<open>SendSharedFrame\<close>, \<open>AttachSharedFrame\<close> and \<open>DeattachSharedFrame\<close> in which frames start with a word that is not 0
  and only a frame that was taken is let go of has the answers of the slot.\<close>

theorem frame_channel_refines_slot:
  assumes "sysv_ok k" "0 < n" "n \<le> sv_shmmax k" "0 \<le> g_flag p" "fp_pid p \<noteq> rpid"
    and "create_shared_frame ftok n p k = Returned (ids, p', k')"
    and "frames_legal (nat n) len es Empty" "length es \<le> 32767"
  shows "\<exists>s. frame_run (nat (g_flag p)) ids rpid len es \<lparr>fs_k = k', fs_send = p', fs_recv = None\<rparr> =
    Some (fst (slot_run len es Empty), s)"
proof -
  note ch = created_channel(1) [OF assms(1-6)]
  from channel_run [OF ch frames_legal_mono [OF assms(7) created_channel(2) [OF assms(1-6)]]] show ?thesis using assms(8) by auto
qed

theorem frame_channel_refines_slot_witness:
  "\<exists>ids p k s. create_shared_frame id 5 ex_sender ex_sysv = Returned (ids, p, k) \<and>
    frame_run 0 ids 2 5 ex_events \<lparr>fs_k = k, fs_send = p, fs_recv = None\<rparr> =
      Some ([Blocked, Accepted, Refused, Got [1, 0, 0, 0, 7], Refused, Released], s)"
proof -
  obtain ids p k where c: "create_shared_frame id 5 ex_sender ex_sysv = Returned (ids, p, k)" by (rule ex_created)
  show ?thesis
    using frame_channel_refines_slot [OF ex_sysv_ok(1), of 5 ex_sender 2 id, OF _ _ _ _ c, of 5 ex_events] c ex_events_legal
    by (auto simp: ex_sysv_ok)
qed

text \<open>C29: the operations of sender and receiver on the semaphore can be undone, and the kernel limits what there is
  to undo: after 32767 frames the receiver's operation fails, its result is not looked at, and a receiver no
  longer waits for a frame: it takes what is in the segment.\<close>

theorem receiver_stops_waiting:
  assumes "sysv_ok k" "0 < n" "n \<le> sv_shmmax k" "0 \<le> g_flag p" "fp_pid p \<noteq> rpid"
    and "create_shared_frame ftok n p k = Returned (ids, p', k')" "frame_legal (nat n) len (Send x d) Empty"
  shows "\<exists>as g s. frame_run (nat (g_flag p)) ids rpid len
      (concat (replicate 32767 (frame_round x d)) @ [Send x d, Attach, Deattach, Attach])
      \<lparr>fs_k = k', fs_send = p', fs_recv = None\<rparr> =
    Some (as @ [Accepted, Got (take len (x @ d)), Released, Got g], s)"
proof -
  note ch = created_channel(1) [OF assms(1-6)]
  note legal = frame_legal_mono [OF assms(7) created_channel(2) [OF assms(1-6)]]
  obtain as s where "frame_run (nat (g_flag p)) ids rpid len (concat (replicate 32767 (frame_round x d)))
      \<lparr>fs_k = k', fs_send = p', fs_recv = None\<rparr> = Some (as, s)"
    and s: "channel (nat (g_flag p)) ids rpid (page_round n) 32767 32767 Empty s"
    using channel_rounds [OF ch legal, of 32767] by auto
  moreover obtain g s' where "frame_run (nat (g_flag p)) ids rpid len [Send x d, Attach, Deattach, Attach] s =
      Some ([Accepted, Got (take len (x @ d)), Released, Got g], s')"
    using channel_exhausted [OF s legal] by blast
  ultimately show ?thesis unfolding frame_run_append by (auto simp del: frame_run.simps)
qed

theorem receiver_stops_waiting_witness:
  "\<exists>ids p k as g s. create_shared_frame id 5 ex_sender ex_sysv = Returned (ids, p, k) \<and>
    frame_run 0 ids 2 5 (concat (replicate 32767 (frame_round [1, 0, 0, 0] [7])) @
        [Send [1, 0, 0, 0] [7], Attach, Deattach, Attach]) \<lparr>fs_k = k, fs_send = p, fs_recv = None\<rparr> =
      Some (as @ [Accepted, Got (take 5 ([1, 0, 0, 0] @ [7])), Released, Got g], s)"
proof -
  obtain ids p k where c: "create_shared_frame id 5 ex_sender ex_sysv = Returned (ids, p, k)" by (rule ex_created)
  have "\<exists>as g s. frame_run (nat (g_flag ex_sender)) ids 2 5
      (concat (replicate 32767 (frame_round [1, 0, 0, 0] [7])) @ [Send [1, 0, 0, 0] [7], Attach, Deattach, Attach])
      \<lparr>fs_k = k, fs_send = p, fs_recv = None\<rparr> =
    Some (as @ [Accepted, Got (take 5 ([1, 0, 0, 0] @ [7])), Released, Got g], s)"
    by (rule receiver_stops_waiting [OF ex_sysv_ok(1) _ _ _ _ c]) (use ex_frame_legal in \<open>simp_all add: ex_sysv_ok\<close>)
  then show ?thesis using c unfolding ex_sysv_ok(3) nat_0 by blast
qed

text \<open>When the sender ends while a frame waits, the kernel undoes what it did to the semaphore: the receiver
  blocks although the frame is there, and a process that takes the sender's place is refused.\<close>

theorem sender_exit_loses_frame:
  assumes "sysv_ok k" "0 < n" "n \<le> sv_shmmax k" "0 \<le> g_flag p" "fp_pid p \<noteq> rpid"
    and "create_shared_frame ftok n p k = Returned (ids, p', k')" "frame_legal (nat n) len (Send x d) Empty"
  shows "\<exists>s t t'. frame_run (nat (g_flag p)) ids rpid len [Send x d] \<lparr>fs_k = k', fs_send = p', fs_recv = None\<rparr> =
      Some ([Accepted], s) \<and> t = s\<lparr>fs_k := exit_sem (fp_pid p') (sem_id ids) (fs_k s)\<rparr> \<and>
    frame_run (nat (g_flag p)) ids rpid len [Attach, Send x d] t = Some ([Blocked, Refused], t')"
proof -
  note ch = created_channel(1) [OF assms(1-6)]
  note legal = frame_legal_mono [OF assms(7) created_channel(2) [OF assms(1-6)]]
  from legal have fits: "length (x @ d) \<le> page_round n" by (simp add: frame_legal_def)
  obtain s where s: "frame_step (nat (g_flag p)) ids rpid len (Send x d) \<lparr>fs_k = k', fs_send = p', fs_recv = None\<rparr> =
      Some (Accepted, s)" "channel (nat (g_flag p)) ids rpid (page_round n) 1 0 (Full (x @ d)) s"
    using channel_send [OF ch legal] by auto
  have pid: "fp_pid (fs_send s) = fp_pid p'" using s(1) by (rule frame_step_pid [where s = "\<lparr>fs_k = k', fs_send = p', fs_recv = None\<rparr>", simplified])
  from sender_exit_blocks [OF s(2) _ fits, of len] show ?thesis
    unfolding pid using s(1) by (auto simp del: frame_step.simps)
qed

theorem sender_exit_loses_frame_witness:
  "\<exists>ids p k s t t'. create_shared_frame id 5 ex_sender ex_sysv = Returned (ids, p, k) \<and>
    frame_run 0 ids 2 5 [Send [1, 0, 0, 0] [7]] \<lparr>fs_k = k, fs_send = p, fs_recv = None\<rparr> = Some ([Accepted], s) \<and>
    t = s\<lparr>fs_k := exit_sem (fp_pid p) (sem_id ids) (fs_k s)\<rparr> \<and>
    frame_run 0 ids 2 5 [Attach, Send [1, 0, 0, 0] [7]] t = Some ([Blocked, Refused], t')"
proof -
  obtain ids p k where c: "create_shared_frame id 5 ex_sender ex_sysv = Returned (ids, p, k)" by (rule ex_created)
  show ?thesis
    using sender_exit_loses_frame [OF ex_sysv_ok(1) _ _ _ _ c ex_frame_legal [folded nat_numeral], of 2] c
    by (simp add: ex_sysv_ok del: frame_run.simps)
qed

subsection \<open>The class \<open>Ipc\<close>\<close>

definition ex_ipc_events :: "(role_type \<times> ipc_event) list" where
  "ex_ipc_events = [(SERVER, Write [1] 0 (0, 0)), (CLIENT, Write [2, 2] 0 (0, 0)), (SERVER, Read 20 (0, 0)),
     (CLIENT, Write [3] 5 (0, 0))]"

definition ex_sock_events :: "(role_type \<times> ipc_event) list" where
  "ex_sock_events = [(SERVER, Write [1] 0 (0, 0)), (CLIENT, Write [2, 2] 0 (0, 0)), (SERVER, Read 20 (0, 0)),
     (CLIENT, Read 0 (0, 0))]"

lemma ex_ipc_legal: "fifo_legal (\<lambda>_. SERVER) (\<lambda>_. SERVER) (\<lambda>m. length m \<le> MSG_LEN) (\<lambda>n. n < MAX_MSG_NUM) ex_ipc_events (\<lambda>_. [])"
    "fifo_legal other_end (\<lambda>e. e) (\<lambda>m. length m \<le> 16) (\<lambda>n. True) ex_sock_events (\<lambda>_. [])"
    "ik_name ex_ipc = None" "MSG_LEN \<le> 16"
  by code_simp+

lemma ex_ipc_log: "fifo_log (\<lambda>_. SERVER) (\<lambda>_. SERVER) SUCCESS ex_ipc_events (\<lambda>_. []) =
    [Put_Result SUCCESS, Put_Result SUCCESS, Get_Result 1 [1], Put_Result SUCCESS]"
    "fifo_log other_end (\<lambda>e. e) FAIL ex_sock_events (\<lambda>_. []) =
    [Put_Result FAIL, Put_Result FAIL, Get_Result 2 [2, 2], Get_Result 1 [1]]"
  by (simp_all add: ex_ipc_events_def ex_sock_events_def other_end_def)

text \<open>C30: a server that opens the queue and a client that joins it share ONE first-in-first-out queue: whatever the two
  ends write and read, in any interleaving and with any timeouts, as long as at most five messages of at most 16
  bytes wait and nothing is read from the empty queue, every write reports \<open>SUCCESS\<close> and every read gets the oldest
  message that is left, whichever end wrote it. So the order is kept for one direction, but an end that
  writes and then reads may get its own message.\<close>

theorem queue_is_fifo:
  assumes "ik_name k = None" "MSG_LEN \<le> len"
    and "ipc_open MQUEUE SERVER None bf i k = (c, i1, k1)" "ipc_open MQUEUE CLIENT None bf' j k1 = (c', j1, k2)"
    and "fifo_legal (\<lambda>_. SERVER) (\<lambda>_. SERVER) (\<lambda>m. length m \<le> MSG_LEN) (\<lambda>n. n < MAX_MSG_NUM) es (\<lambda>_. [])"
  shows "c = SUCCESS \<and> c' = SUCCESS \<and>
    (\<exists>k'. ends_run (\<lambda>e m t now. ipc_write (end_of i1 j1 e) m t now full) (\<lambda>e. ipc_read (end_of i1 j1 e) len) es k2 =
      Returned (fifo_log (\<lambda>_. SERVER) (\<lambda>_. SERVER) SUCCESS es (\<lambda>_. []), k'))"
proof -
  note o = open_queue_ends [OF assms(1-4)]
  then have q: "one_queue (ik_next_queue k) k2 = (\<lambda>_. [])" by (simp add: one_queue_def fun_eq_iff)
  show ?thesis
    using mq.is_fifo [of i1 j1 "ik_next_queue k" len k2 es full] assms(5) o unfolding q by auto
qed

theorem queue_is_fifo_witness:
  "\<exists>i k1 j k2 k'. ipc_open MQUEUE SERVER None None ex_end ex_ipc = (SUCCESS, i, k1) \<and>
    ipc_open MQUEUE CLIENT None None ex_end k1 = (SUCCESS, j, k2) \<and>
    ends_run (\<lambda>e m t now. ipc_write (end_of i j e) m t now None) (\<lambda>e. ipc_read (end_of i j e) 16) ex_ipc_events k2 =
      Returned ([Put_Result SUCCESS, Put_Result SUCCESS, Get_Result 1 [1], Put_Result SUCCESS], k')"
proof -
  obtain c i k1 where 1: "ipc_open MQUEUE SERVER None None ex_end ex_ipc = (c, i, k1)" by (rule ipc_openE)
  obtain c' j k2 where 2: "ipc_open MQUEUE CLIENT None None ex_end k1 = (c', j, k2)" by (rule ipc_openE)
  show ?thesis
    using queue_is_fifo [OF ex_ipc_legal(3,4) 1 2 ex_ipc_legal(1), of None] 1 2 unfolding ex_ipc_log by blast
qed

text \<open>C31: two sockets that were opened one after the other have a first-in-first-out queue in each direction: in any
  interleaving of the writes and reads of the two ends in which no message is longer than the buffer it is read into and
  nothing is read that was not written, each read gets the oldest message of the other end. But every \<open>Write\<close>
  reports \<open>FAIL\<close>, though it delivers its message. The kernel has room for the messages.\<close>

theorem sockets_are_fifo_but_report_failure:
  assumes "ipc_open SOCKET SERVER None None i k = (c, i1, k1)" "ipc_open SOCKET CLIENT None None j k1 = (c', j1, k2)"
    and "fifo_legal other_end (\<lambda>e. e) (\<lambda>m. length m \<le> len) (\<lambda>n. True) es (\<lambda>_. [])"
  shows "c = SUCCESS \<and> c' = SUCCESS \<and>
    (\<exists>k'. ends_run (\<lambda>e m t now. ipc_write (end_of i1 j1 e) m t now None) (\<lambda>e. ipc_read (end_of i1 j1 e) len) es k2 =
      Returned (fifo_log other_end (\<lambda>e. e) FAIL es (\<lambda>_. []), k'))"
proof -
  note o = open_socket_ends [OF assms(1,2)]
  then have q: "two_queues i1 j1 k2 = (\<lambda>_. [])" by (simp add: two_queues_def end_of_def fun_eq_iff)
  show ?thesis
    using sock.is_fifo [of i1 j1 k2 len es] assms(3) o unfolding q by auto
qed

theorem sockets_are_fifo_but_report_failure_witness:
  "\<exists>i k1 j k2 k'. ipc_open SOCKET SERVER None None ex_end ex_ipc = (SUCCESS, i, k1) \<and>
    ipc_open SOCKET CLIENT None None ex_end k1 = (SUCCESS, j, k2) \<and>
    ends_run (\<lambda>e m t now. ipc_write (end_of i j e) m t now None) (\<lambda>e. ipc_read (end_of i j e) 16) ex_sock_events k2 =
      Returned ([Put_Result FAIL, Put_Result FAIL, Get_Result 2 [2, 2], Get_Result 1 [1]], k')"
proof -
  obtain c i k1 where 1: "ipc_open SOCKET SERVER None None ex_end ex_ipc = (c, i, k1)" by (rule ipc_openE)
  obtain c' j k2 where 2: "ipc_open SOCKET CLIENT None None ex_end k1 = (c', j, k2)" by (rule ipc_openE)
  show ?thesis
    using sockets_are_fifo_but_report_failure [OF 1 2 ex_ipc_legal(2)] 1 2 unfolding ex_ipc_log by blast
qed

text \<open>When \<open>Open\<close> of a queue fails, even that of a client or of a second server, or one end is closed, the
  messages stay but the queue has no name any more: no client can open it.\<close>

theorem queue_cannot_be_joined:
  assumes "ipc_open MQUEUE role fault bf i k = (FAIL, i', k') \<or> ii_type i = MQUEUE \<and> k' = ipc_close i k"
  shows "ik_queues k' = ik_queues k \<and> (\<exists>j'. ipc_open MQUEUE CLIENT None bf' j k' = (FAIL, j', k'))"
  using queue_name_gone [OF assms] by blast

theorem queue_cannot_be_joined_witness:
  "\<exists>i k j'. ipc_open MQUEUE SERVER None None ex_end ex_ipc = (SUCCESS, i, k) \<and>
    ipc_open MQUEUE CLIENT None None ex_end (ipc_close i k) = (FAIL, j', ipc_close i k)"
proof -
  obtain c i k1 where 1: "ipc_open MQUEUE SERVER None None ex_end ex_ipc = (c, i, k1)" by (rule ipc_openE)
  obtain c' j k2 where 2: "ipc_open MQUEUE CLIENT None None ex_end k1 = (c', j, k2)" by (rule ipc_openE)
  note o = open_queue_ends [OF ex_ipc_legal(3,4) 1 2]
  then have "ii_type i = MQUEUE" by (simp add: queue_ends_def)
  then show ?thesis
    using queue_cannot_be_joined [of SERVER None None i k1 i "ipc_close i k1" None ex_end] 1 o by blast
qed

text \<open>The deadline for a timeout in milliseconds is exact, but its nanoseconds may be a full second: a call that has to
  wait then fails at once with \<open>EINVAL\<close> and not with \<open>ETIMEDOUT\<close> at the deadline.\<close>

theorem deadline_of_milliseconds:
  assumes "0 \<le> sec" "0 \<le> nsec" "nsec < 1000000000" "0 < timeout"
  shows "\<exists>s n. deadline_of timeout (sec, nsec) = Some (s, n) \<and>
    s * 1000000000 + n = sec * 1000000000 + nsec + timeout * 1000000 \<and> 0 \<le> n \<and> n \<le> 1000000000 \<and>
    mq_wait (deadline_of timeout (sec, nsec)) =
      Returned (if nsec + timeout mod 1000 * 1000000 = 1000000000 then EINVAL else ETIMEDOUT)"
proof -
  obtain s n where sn: "abs_timeout timeout (sec, nsec) = (s, n)" by fastforce
  note c = abs_timeout_correct [OF assms(2-4) sn]
  have "0 \<le> s"
  proof (rule ccontr)
    assume "\<not> 0 \<le> s"
    then have "s * 1000000000 + n \<le> 0" using c(3) by linarith
    then show False using c(1) assms by linarith
  qed
  then have "mq_wait (Some (s, n)) = Returned (if n = 1000000000 then EINVAL else ETIMEDOUT)"
    using c(2,3) by (auto simp: mq_wait_def)
  then show ?thesis using sn c assms(4) by (simp add: deadline_of_def)
qed

theorem deadline_of_milliseconds_witness:
  "mq_wait (deadline_of 1500 (7, 500000000)) = Returned EINVAL"
  using deadline_of_milliseconds [of 7 500000000 1500] by auto

end
