(* ===== verification/Move_Dir.thy ===== *)
theory Move_Dir
  imports Linux_Prelude
begin

text \<open>
  \<open>ltrace/code/move.c\<close>: \<open>move_dir\<close> moves the entries of a directory into another one, with \<open>rename\<close> where that succeeds
  and with \<open>sendfile\<close> where it does not. A path is the list of the words that \<open>snprintf\<close> joins with slashes; the files
  are a list of paths with what is there, in the order in which \<open>readdir\<close> meets them.
\<close>

subsection \<open>Files\<close>

type_synonym path = "string list"

text \<open>A \<open>Sock\<close> stands for the kinds of files that \<open>move_dir\<close> leaves where they are.\<close>

datatype node = Reg u32 string | Lnk string | Dir u32 | Sock

type_synonym fsys = "(path \<times> node) list"

text \<open>
  The parameters: where the text of a link leads that stands in a directory, the calls that fail for a reason outside of
  the model (\<open>EXDEV\<close>, permissions), the bytes for which there is room at a path, the \<open>st_size\<close> of a directory, the umask.
\<close>

datatype fs_call = C_opendir path | C_rename path path | C_mkdir path | C_open path | C_unlink path | C_symlink path | C_chmod path

record move_env =
  me_follow :: "path \<Rightarrow> string \<Rightarrow> path"
  me_refuses :: "fs_call \<Rightarrow> bool"
  me_room :: "path \<Rightarrow> nat"
  me_dir_size :: nat
  me_umask :: u32

definition fs_put :: "path \<Rightarrow> node \<Rightarrow> fsys \<Rightarrow> fsys" where
  "fs_put p n fs = (p, n) # filter (\<lambda>e. fst e \<noteq> p) fs"

definition fs_del :: "path \<Rightarrow> fsys \<Rightarrow> fsys" where
  "fs_del p fs = filter (\<lambda>e. fst e \<noteq> p) fs"

definition fs_names :: "path \<Rightarrow> fsys \<Rightarrow> string list" where
  "fs_names p fs = remdups (map (\<lambda>e. last (fst e)) (filter (\<lambda>e. fst e \<noteq> [] \<and> butlast (fst e) = p) fs))"

text \<open>The kernel's walk along a path, with the number of links it may still follow; \<open>final\<close> is for calls that follow a last link.\<close>

function walk :: "(path \<Rightarrow> string \<Rightarrow> path) \<Rightarrow> fsys \<Rightarrow> bool \<Rightarrow> nat \<Rightarrow> path \<Rightarrow> path \<Rightarrow> path option" where
  "walk follow fs final n here [] = Some here"
| "walk follow fs final n here (x # rest) =
    (case map_of fs (here @ [x]) of
       None \<Rightarrow> if rest = [] then Some (here @ [x]) else None
     | Some (Dir _) \<Rightarrow> walk follow fs final n (here @ [x]) rest
     | Some (Lnk t) \<Rightarrow>
         if rest = [] \<and> \<not> final then Some (here @ [x])
         else if n = 0 then None else walk follow fs final (n - 1) [] (follow here t @ rest)
     | Some _ \<Rightarrow> if rest = [] then Some (here @ [x]) else None)"
  by pat_completeness auto

termination
  by (relation "measures [\<lambda>(follow, fs, final, n, here, rest). n, \<lambda>(follow, fs, final, n, here, rest). length rest]") auto

definition MAXSYMLINKS :: nat where "MAXSYMLINKS = 40"

definition resolve :: "move_env \<Rightarrow> fsys \<Rightarrow> bool \<Rightarrow> path \<Rightarrow> path option" where
  "resolve env fs final p = (if p = [] then None else walk (me_follow env) fs final MAXSYMLINKS [] p)"

subsection \<open>System calls\<close>

definition sys_lstat :: "move_env \<Rightarrow> path \<Rightarrow> fsys \<Rightarrow> node option" where
  "sys_lstat env p fs = do { q \<leftarrow> resolve env fs False p; map_of fs q }"

definition sys_stat :: "move_env \<Rightarrow> path \<Rightarrow> fsys \<Rightarrow> node option" where
  "sys_stat env p fs = do { q \<leftarrow> resolve env fs True p; map_of fs q }"

definition sys_access :: "move_env \<Rightarrow> path \<Rightarrow> fsys \<Rightarrow> bool" where
  "sys_access env p fs \<longleftrightarrow> sys_stat env p fs \<noteq> None"

fun st_size :: "move_env \<Rightarrow> node \<Rightarrow> nat" where
  "st_size env (Reg m c) = length c"
| "st_size env (Lnk t) = length t"
| "st_size env (Dir m) = me_dir_size env"
| "st_size env Sock = 0"

definition sys_opendir :: "move_env \<Rightarrow> path \<Rightarrow> fsys \<Rightarrow> string list option" where
  "sys_opendir env p fs =
    (if me_refuses env (C_opendir p) then None
     else case resolve env fs True p of
       None \<Rightarrow> None
     | Some q \<Rightarrow> (case map_of fs q of Some (Dir _) \<Rightarrow> Some (''.'' # ''..'' # fs_names q fs) | _ \<Rightarrow> None))"

definition sys_unlink :: "move_env \<Rightarrow> path \<Rightarrow> fsys \<Rightarrow> fsys" where
  "sys_unlink env p fs =
    (if me_refuses env (C_unlink p) then fs
     else case resolve env fs False p of
       None \<Rightarrow> fs
     | Some q \<Rightarrow> (case map_of fs q of None \<Rightarrow> fs | Some (Dir _) \<Rightarrow> fs | Some _ \<Rightarrow> fs_del q fs))"

definition sys_rmdir :: "move_env \<Rightarrow> path \<Rightarrow> fsys \<Rightarrow> fsys" where
  "sys_rmdir env p fs =
    (if me_refuses env (C_unlink p) then fs
     else case resolve env fs False p of
       None \<Rightarrow> fs
     | Some q \<Rightarrow> (case map_of fs q of Some (Dir _) \<Rightarrow> if fs_names q fs = [] then fs_del q fs else fs | _ \<Rightarrow> fs))"

definition S_IRWXU :: u32 where "S_IRWXU = 448"

definition sys_mkdir :: "move_env \<Rightarrow> path \<Rightarrow> fsys \<Rightarrow> errno option \<times> fsys" where
  "sys_mkdir env p fs =
    (case resolve env fs False p of
       None \<Rightarrow> (Some ENOENT, fs)
     | Some q \<Rightarrow>
         if map_of fs q \<noteq> None then (Some EEXIST, fs)
         else if me_refuses env (C_mkdir p) then (Some EACCES, fs)
         else (None, fs_put q (Dir (S_IRWXU AND NOT (me_umask env))) fs))"

text \<open>\<open>rename\<close> of something that is no directory, and whether it succeeded.\<close>

definition sys_rename :: "move_env \<Rightarrow> path \<Rightarrow> path \<Rightarrow> fsys \<Rightarrow> bool \<times> fsys" where
  "sys_rename env old new fs =
    (if me_refuses env (C_rename old new) then (False, fs)
     else case (resolve env fs False old, resolve env fs False new) of
       (Some p, Some q) \<Rightarrow>
         (case (map_of fs p, map_of fs q) of
            (None, _) \<Rightarrow> (False, fs)
          | (Some (Dir _), _) \<Rightarrow> (False, fs)
          | (Some _, Some (Dir _)) \<Rightarrow> (False, fs)
          | (Some n, _) \<Rightarrow> if p = q then (True, fs) else (True, fs_put q n (fs_del p fs)))
     | _ \<Rightarrow> (False, fs))"

text \<open>\<open>readlink\<close> into an array of zeros, which stays as it is when the call fails; a link cannot be empty.\<close>

definition sys_readlink :: "move_env \<Rightarrow> path \<Rightarrow> fsys \<Rightarrow> string" where
  "sys_readlink env p fs = (case sys_lstat env p fs of Some (Lnk t) \<Rightarrow> t | _ \<Rightarrow> [])"

definition sys_symlink :: "move_env \<Rightarrow> string \<Rightarrow> path \<Rightarrow> fsys \<Rightarrow> fsys" where
  "sys_symlink env t p fs =
    (if t = [] \<or> me_refuses env (C_symlink p) then fs
     else case resolve env fs False p of
       None \<Rightarrow> fs
     | Some q \<Rightarrow> if map_of fs q = None then fs_put q (Lnk t) fs else fs)"

definition sys_chmod :: "move_env \<Rightarrow> path \<Rightarrow> u32 \<Rightarrow> fsys \<Rightarrow> fsys" where
  "sys_chmod env p m fs =
    (if me_refuses env (C_chmod p) then fs
     else case resolve env fs True p of
       None \<Rightarrow> fs
     | Some q \<Rightarrow>
         (case map_of fs q of
            Some (Reg _ c) \<Rightarrow> fs_put q (Reg m c) fs
          | Some (Dir _) \<Rightarrow> fs_put q (Dir m) fs
          | _ \<Rightarrow> fs))"

text \<open>A descriptor is the place of a regular file.\<close>

definition open_read :: "move_env \<Rightarrow> path \<Rightarrow> fsys \<Rightarrow> path option" where
  "open_read env p fs =
    (if me_refuses env (C_open p) then None
     else do { q \<leftarrow> resolve env fs True p; case map_of fs q of Some (Reg _ _) \<Rightarrow> Some q | _ \<Rightarrow> None })"

definition open_creat :: "move_env \<Rightarrow> path \<Rightarrow> fsys \<Rightarrow> path option \<times> fsys" where
  "open_creat env p fs =
    (if me_refuses env (C_open p) then (None, fs)
     else case resolve env fs True p of
       None \<Rightarrow> (None, fs)
     | Some q \<Rightarrow>
         (case map_of fs q of
            None \<Rightarrow> (Some q, fs_put q (Reg (511 AND NOT (me_umask env)) []) fs)
          | Some (Reg _ _) \<Rightarrow> (Some q, fs)
          | Some _ \<Rightarrow> (None, fs)))"

text \<open>The calls of \<open>sendfile\<close>, each of up to 32768 bytes, and the bytes that they have moved.\<close>

function send_all :: "nat \<Rightarrow> string \<Rightarrow> string" where
  "send_all room rest =
    (let n = min 0x8000 (min room (length rest))
     in if n > 0 then take n rest @ send_all (room - n) (drop n rest) else [])"
  by pat_completeness auto

termination by (relation "measure fst") auto

declare send_all.simps [simp del]

definition sys_sendfile :: "move_env \<Rightarrow> path option \<Rightarrow> path option \<Rightarrow> fsys \<Rightarrow> fsys" where
  "sys_sendfile env dst src fs =
    (case (dst, src) of
       (Some d, Some s) \<Rightarrow>
         (case (map_of fs d, map_of fs s) of
            (Some (Reg m old), Some (Reg _ c)) \<Rightarrow>
              (let new = send_all (me_room env d) c in fs_put d (Reg m (new @ drop (length new) old)) fs)
          | _ \<Rightarrow> fs)
     | _ \<Rightarrow> fs)"

subsection \<open>\<open>move_dir\<close>\<close>

fun path_text :: "path \<Rightarrow> string" where
  "path_text [] = []"
| "path_text [x] = x"
| "path_text (x # y # p) = x @ CHR ''/'' # path_text (y # p)"

lemma path_text_snoc: "p \<noteq> [] \<Longrightarrow> path_text (p @ [x]) = path_text p @ CHR ''/'' # x"
  by (induction p rule: path_text.induct) auto

definition PATH_BUF :: nat where "PATH_BUF = 512"
definition LINK_BUF :: nat where "LINK_BUF = 128"

text \<open>A link whose text fills \<open>linkPath\<close> has no end there: \<open>symlink\<close> reads past the array.\<close>

definition move_link :: "move_env \<Rightarrow> path \<Rightarrow> path \<Rightarrow> fsys \<Rightarrow> fsys option" where
  "move_link env srcPath dstPath fs =
    (let there = sys_access env dstPath fs;
         is_link = (case sys_lstat env dstPath fs of Some (Lnk _) \<Rightarrow> True | _ \<Rightarrow> False)
     in if there \<and> is_link then Some (sys_unlink env srcPath fs)
        else
          let fs = (if there then sys_unlink env dstPath fs else fs)
          in (case sys_rename env srcPath dstPath fs of
                (True, fs) \<Rightarrow> Some fs
              | (False, fs) \<Rightarrow>
                  let linkPath = sys_readlink env srcPath fs
                  in if length linkPath < LINK_BUF
                     then Some (sys_unlink env srcPath (sys_symlink env linkPath dstPath fs))
                     else None))"

definition copy_file :: "move_env \<Rightarrow> path \<Rightarrow> path \<Rightarrow> u32 \<Rightarrow> fsys \<Rightarrow> fsys" where
  "copy_file env srcPath dstPath mode fs =
    (let srcFd = open_read env srcPath fs
     in case open_creat env dstPath fs of
          (dstFd, fs) \<Rightarrow>
            let fs = sys_sendfile env dstFd srcFd fs;
                fs = sys_chmod env dstPath mode fs
            in sys_unlink env srcPath fs)"

definition move_file :: "move_env \<Rightarrow> path \<Rightarrow> path \<Rightarrow> u32 \<Rightarrow> nat \<Rightarrow> fsys \<Rightarrow> fsys" where
  "move_file env srcPath dstPath mode len fs =
    (let there = sys_stat env dstPath fs
     in if there \<noteq> None \<and> st_size env (the there) = len then sys_unlink env srcPath fs
        else
          let fs = (if there \<noteq> None then sys_unlink env dstPath fs else fs)
          in (case sys_rename env srcPath dstPath fs of
                (True, fs) \<Rightarrow> fs
              | (False, fs) \<Rightarrow> copy_file env srcPath dstPath mode fs))"

definition path_room :: "path \<Rightarrow> nat" where
  "path_room p = (if p = [] then PATH_BUF + 1 else PATH_BUF - length (path_text p))"

lemma path_room_snoc: "length (path_text (p @ [x])) < PATH_BUF \<Longrightarrow> path_room (p @ [x]) < path_room p"
  by (cases "p = []") (auto simp: path_room_def path_text_snoc)

text \<open>
  \<open>None\<close> is a run that does not end well: the directory cannot be opened, and \<open>readdir\<close> gets a null pointer, or a link is
  too long. The recursion ends because the paths grow and have 511 characters at most.
\<close>

function move_dir :: "move_env \<Rightarrow> path \<Rightarrow> path \<Rightarrow> fsys \<Rightarrow> (int \<times> fsys) option"
  and move_entries :: "move_env \<Rightarrow> path \<Rightarrow> path \<Rightarrow> string list \<Rightarrow> fsys \<Rightarrow> (int \<times> fsys) option" where
  "move_dir env srcDir dstDir fs =
    (case sys_opendir env srcDir fs of
       None \<Rightarrow> None
     | Some names \<Rightarrow>
         (case move_entries env srcDir dstDir names fs of
            None \<Rightarrow> None
          | Some (ret, fs) \<Rightarrow> Some (ret, sys_rmdir env srcDir fs)))"
| "move_entries env srcDir dstDir [] fs = Some (0, fs)"
| "move_entries env srcDir dstDir (x # xs) fs =
    (if x = ''.'' \<or> x = ''..'' then move_entries env srcDir dstDir xs fs
     else
       let srcPath = srcDir @ [x]; dstPath = dstDir @ [x]
       in if PATH_BUF \<le> length (path_text srcPath) \<or> PATH_BUF \<le> length (path_text dstPath) then Some (- 1, fs)
          else (case sys_lstat env srcPath fs of
              None \<Rightarrow> Some (- 1, fs)
            | Some (Lnk _) \<Rightarrow>
                (case move_link env srcPath dstPath fs of
                   None \<Rightarrow> None
                 | Some fs \<Rightarrow> move_entries env srcDir dstDir xs fs)
            | Some (Dir m) \<Rightarrow>
                (case sys_mkdir env dstPath fs of
                   (e, fs) \<Rightarrow>
                     if e \<noteq> None \<and> e \<noteq> Some EEXIST then Some (- 1, fs)
                     else (case move_dir env srcPath dstPath fs of
                         None \<Rightarrow> None
                       | Some (r, fs) \<Rightarrow>
                           if r \<noteq> 0 then Some (- 1, fs) else move_entries env srcDir dstDir xs fs))
            | Some (Reg m c) \<Rightarrow> move_entries env srcDir dstDir xs (move_file env srcPath dstPath m (length c) fs)
            | Some Sock \<Rightarrow> move_entries env srcDir dstDir xs fs))"
  by pat_completeness auto

termination
  by (relation "measures
      [\<lambda>a. case a of Inl (env, s, d, fs) \<Rightarrow> path_room s | Inr (env, s, d, xs, fs) \<Rightarrow> path_room s,
       \<lambda>a. case a of Inl _ \<Rightarrow> 1 | Inr _ \<Rightarrow> 0,
       \<lambda>a. case a of Inl _ \<Rightarrow> 0 | Inr (env, s, d, xs, fs) \<Rightarrow> length xs]")
    (auto simp: path_room_snoc not_le)

declare move_dir.simps [simp del] move_entries.simps [simp del]

text \<open>With the pointers of the code.\<close>

definition move_dir_ptr :: "move_env \<Rightarrow> path option \<Rightarrow> path option \<Rightarrow> fsys \<Rightarrow> (int \<times> fsys) option" where
  "move_dir_ptr env srcDir dstDir fs =
    (case (srcDir, dstDir) of
       (Some s, Some d) \<Rightarrow> move_dir env s d fs
     | _ \<Rightarrow> Some (- 1, fs))"

end
