(* ===== verification/Move_Merge.thy ===== *)
theory Move_Merge
  imports Move_Dir
begin

text \<open>
  What \<open>move_dir\<close> is meant to do, as a function on the files, and the lemmas that it does it when the two directories fit
  together. The calls keep the files a tree whatever fails.
\<close>

subsection \<open>The tree\<close>

type_synonym tree = "path \<Rightarrow> node option"

definition is_dir :: "tree \<Rightarrow> path \<Rightarrow> bool" where
  "is_dir t p \<longleftrightarrow> (case t p of Some (Dir _) \<Rightarrow> True | _ \<Rightarrow> False)"

definition fs_ok :: "fsys \<Rightarrow> bool" where
  "fs_ok fs \<longleftrightarrow> distinct (map fst fs) \<and> is_dir (map_of fs) [] \<and>
    (\<forall>e \<in> set fs. fst e = [] \<or> is_dir (map_of fs) (butlast (fst e)))"

definition tree_ok :: "tree \<Rightarrow> bool" where
  "tree_ok t \<longleftrightarrow> is_dir t [] \<and> (\<forall>p x. t (p @ [x]) \<noteq> None \<longrightarrow> is_dir t p)"

lemma is_dirE: "is_dir t p \<Longrightarrow> (\<And>m. t p = Some (Dir m) \<Longrightarrow> P) \<Longrightarrow> P"
  by (auto simp: is_dir_def split: option.splits node.splits)

lemma map_of_fs_put [simp]: "map_of (fs_put p n fs) = (map_of fs)(p \<mapsto> n)"
proof
  fix q
  have "p \<noteq> q \<Longrightarrow> map_of (filter (\<lambda>e. fst e \<noteq> p) fs) q = map_of fs q" by (induction fs) auto
  then show "map_of (fs_put p n fs) q = ((map_of fs)(p \<mapsto> n)) q" by (simp add: fs_put_def)
qed

lemma map_of_fs_del [simp]: "map_of (fs_del p fs) = (map_of fs)(p := None)"
  by (induction fs) (auto simp: fs_del_def fun_eq_iff)

lemma map_of_entry: "e \<in> set fs \<Longrightarrow> map_of fs (fst e) \<noteq> None"
  by (simp add: map_of_eq_None_iff)

lemma tree_ok_parent: "tree_ok t \<Longrightarrow> t (p @ [x]) \<noteq> None \<Longrightarrow> is_dir t p"
  unfolding tree_ok_def by blast

lemma distinct_fs_put: "distinct (map fst fs) \<Longrightarrow> distinct (map fst (fs_put p n fs))"
  by (auto simp: fs_put_def distinct_map_filter)

lemma distinct_fs_del: "distinct (map fst fs) \<Longrightarrow> distinct (map fst (fs_del p fs))"
  by (simp add: fs_del_def distinct_map_filter)

lemma fs_names_distinct [simp]: "distinct (fs_names p fs)"
  by (simp add: fs_names_def)

lemma set_fs_names [simp]: "set (fs_names p fs) = {x. map_of fs (p @ [x]) \<noteq> None}"
proof (intro set_eqI iffI)
  fix x
  assume "x \<in> set (fs_names p fs)"
  then obtain e where e: "e \<in> set fs" "fst e \<noteq> []" "butlast (fst e) = p" "last (fst e) = x" by (auto simp: fs_names_def)
  then have "fst e = p @ [x]" by (metis append_butlast_last_id)
  then show "x \<in> {x. map_of fs (p @ [x]) \<noteq> None}" using map_of_entry [OF e(1)] by simp
next
  fix x
  assume "x \<in> {x. map_of fs (p @ [x]) \<noteq> None}"
  then obtain e where "e \<in> set fs" "fst e = p @ [x]" by (auto simp: map_of_eq_None_iff)
  then show "x \<in> set (fs_names p fs)" by (force simp: fs_names_def)
qed

lemma fs_ok_tree: "fs_ok fs \<longleftrightarrow> distinct (map fst fs) \<and> tree_ok (map_of fs)"
proof -
  have "(\<forall>e \<in> set fs. fst e = [] \<or> is_dir (map_of fs) (butlast (fst e))) \<longleftrightarrow>
    (\<forall>p x. map_of fs (p @ [x]) \<noteq> None \<longrightarrow> is_dir (map_of fs) p)"
  proof (intro iffI allI impI ballI)
    fix p x
    assume *: "\<forall>e \<in> set fs. fst e = [] \<or> is_dir (map_of fs) (butlast (fst e))" "map_of fs (p @ [x]) \<noteq> None"
    then obtain e where "e \<in> set fs" "fst e = p @ [x]" by (auto simp: map_of_eq_None_iff)
    then show "is_dir (map_of fs) p" using *(1) by force
  next
    fix e
    assume *: "\<forall>p x. map_of fs (p @ [x]) \<noteq> None \<longrightarrow> is_dir (map_of fs) p" "e \<in> set fs"
    then have "map_of fs (fst e) \<noteq> None" by (rule_tac map_of_entry)
    then show "fst e = [] \<or> is_dir (map_of fs) (butlast (fst e))"
      using *(1) by (cases "fst e" rule: rev_cases) auto
  qed
  then show ?thesis by (simp add: fs_ok_def tree_ok_def)
qed

lemma tree_ok_prefix: "tree_ok t \<Longrightarrow> is_dir t (p @ q) \<Longrightarrow> is_dir t p"
proof (induction q rule: rev_induct)
  case (snoc x q)
  then have "t ((p @ q) @ [x]) \<noteq> None" by (auto elim: is_dirE)
  then show ?case using snoc.IH snoc.prems(1) tree_ok_parent by blast
qed simp

lemma tree_ok_below: "tree_ok t \<Longrightarrow> \<not> is_dir t p \<Longrightarrow> q \<noteq> [] \<Longrightarrow> t (p @ q) = None"
proof (rule ccontr)
  assume a: "tree_ok t" "\<not> is_dir t p" "q \<noteq> []" "t (p @ q) \<noteq> None"
  then have "t ((p @ butlast q) @ [last q]) \<noteq> None" by simp
  then have "is_dir t (p @ butlast q)" by (rule tree_ok_parent [OF a(1)])
  then show False using tree_ok_prefix [OF a(1)] a(2) by blast
qed

subsection \<open>Walking\<close>

lemma walk_plain:
  assumes "\<And>q r. rest = q @ r \<Longrightarrow> q \<noteq> [] \<Longrightarrow> r \<noteq> [] \<Longrightarrow> is_dir (map_of fs) (here @ q)"
    and "final \<Longrightarrow> \<forall>t. map_of fs (here @ rest) \<noteq> Some (Lnk t)"
  shows "walk follow fs final n here rest = Some (here @ rest)"
  using assms
proof (induction rest arbitrary: here)
  case (Cons x rest)
  show ?case
  proof (cases "rest = []")
    case True
    then show ?thesis using Cons.prems(2) by (auto split: option.splits node.splits)
  next
    case False
    then have d: "is_dir (map_of fs) (here @ [x])" using Cons.prems(1) [of "[x]" rest] by simp
    have "walk follow fs final n (here @ [x]) rest = Some ((here @ [x]) @ rest)"
      using Cons.prems(1) [of "x # q" r for q r] Cons.prems(2) by (intro Cons.IH) auto
    then show ?thesis using d by (auto elim: is_dirE)
  qed
qed simp

lemma resolve_entry:
  assumes "tree_ok (map_of fs)" "is_dir (map_of fs) p" "final \<Longrightarrow> \<forall>t. map_of fs (p @ [x]) \<noteq> Some (Lnk t)"
  shows "resolve env fs final (p @ [x]) = Some (p @ [x])"
proof -
  have "is_dir (map_of fs) q" if "p @ [x] = q @ r" "r \<noteq> []" for q r
  proof -
    have "p = q @ butlast r" using that by (metis butlast_append butlast_snoc)
    then show ?thesis using assms(1,2) tree_ok_prefix by metis
  qed
  then show ?thesis using assms(3) by (simp add: resolve_def) (rule walk_plain [of "p @ [x]" fs "[]", simplified], auto)
qed

lemma resolve_dir:
  assumes "tree_ok (map_of fs)" "is_dir (map_of fs) p" "p \<noteq> []"
  shows "resolve env fs final p = Some p"
  using assms resolve_entry [of fs "butlast p" final "last p" env] tree_ok_prefix [of "map_of fs" "butlast p" "[last p]"]
  by (auto elim: is_dirE)

text \<open>Wherever a walk ends, there is a directory in front of the last word.\<close>

lemma walk_parent:
  "tree_ok (map_of fs) \<Longrightarrow> is_dir (map_of fs) here \<Longrightarrow> walk follow fs final n here rest = Some q \<Longrightarrow>
    q = [] \<or> is_dir (map_of fs) (butlast q)"
proof (induction follow fs final n here rest rule: walk.induct)
  case (1 follow fs final n here)
  then show ?case
    using tree_ok_prefix [of "map_of fs" "butlast here" "[last here]"] by (cases here rule: rev_cases) auto
next
  case (2 follow fs final n here x rest)
  then show ?case
    by (auto split: option.splits node.splits if_splits simp: is_dir_def [of _ "_ @ _"] tree_ok_def)
qed

subsection \<open>The calls keep the tree\<close>

lemma fs_ok_put:
  assumes "fs_ok fs" "q = [] \<or> is_dir (map_of fs) (butlast q)" "is_dir (map_of fs) q \<Longrightarrow> \<exists>m. n = Dir m"
  shows "fs_ok (fs_put q n fs)"
proof -
  have t: "tree_ok (map_of fs)" "distinct (map fst fs)" using assms(1) by (simp_all add: fs_ok_tree)
  have d: "is_dir (map_of (fs_put q n fs)) p" if "is_dir (map_of fs) p" for p
    using that assms(3) by (cases "p = q") (auto simp: is_dir_def)
  have "tree_ok (map_of (fs_put q n fs))"
    unfolding tree_ok_def
  proof (intro conjI allI impI)
    show "is_dir (map_of (fs_put q n fs)) []" using t(1) d by (simp only: tree_ok_def)
    fix p x
    assume *: "map_of (fs_put q n fs) (p @ [x]) \<noteq> None"
    show "is_dir (map_of (fs_put q n fs)) p"
    proof (cases "p @ [x] = q")
      case True
      then show ?thesis using assms(2) d [of p] by auto
    next
      case False
      then show ?thesis using * d [of p] tree_ok_parent [OF t(1), of p x] by auto
    qed
  qed
  then show ?thesis using t(2) distinct_fs_put by (simp only: fs_ok_tree)
qed

lemma fs_ok_del:
  assumes "fs_ok fs" "q \<noteq> []" "\<not> is_dir (map_of fs) q \<or> fs_names q fs = []"
  shows "fs_ok (fs_del q fs)"
proof -
  have t: "tree_ok (map_of fs)" "distinct (map fst fs)" using assms(1) by (simp_all add: fs_ok_tree)
  have n: "map_of fs (q @ [x]) = None" for x
    using assms(3) tree_ok_parent [OF t(1), of q x] set_fs_names [of q fs] by (cases "map_of fs (q @ [x])") auto
  have "tree_ok (map_of (fs_del q fs))"
    unfolding tree_ok_def
  proof (intro conjI allI impI)
    show "is_dir (map_of (fs_del q fs)) []" using t(1) assms(2) by (simp add: tree_ok_def is_dir_def)
    fix p x
    assume *: "map_of (fs_del q fs) (p @ [x]) \<noteq> None"
    then have "p \<noteq> q" using n [of x] by (cases "p @ [x] = q") auto
    then show "is_dir (map_of (fs_del q fs)) p"
      using * tree_ok_parent [OF t(1), of p x] by (auto simp: is_dir_def split: if_splits)
  qed
  then show ?thesis using t(2) distinct_fs_del by (simp only: fs_ok_tree)
qed

lemma resolve_parent: "fs_ok fs \<Longrightarrow> resolve env fs final p = Some q \<Longrightarrow> q = [] \<or> is_dir (map_of fs) (butlast q)"
  unfolding resolve_def fs_ok_tree
  by (rule walk_parent [of fs "[]"]) (auto simp: tree_ok_def split: if_splits)

text \<open>A path that does not lead through a last link does not end at the start.\<close>

lemma walk_not_start: "walk follow fs False n here rest = Some q \<Longrightarrow> rest \<noteq> [] \<Longrightarrow> q \<noteq> []"
  by (induction follow fs False n here rest rule: walk.induct)
    (auto split: option.splits node.splits if_splits elim: walk.elims)

lemma resolve_not_start: "resolve env fs False p = Some q \<Longrightarrow> q \<noteq> []"
  unfolding resolve_def by (auto split: if_splits dest: walk_not_start)

lemma root_is_dir: "fs_ok fs \<Longrightarrow> is_dir (map_of fs) []"
  by (simp add: fs_ok_def)

lemma sys_unlink_ok [inv_intros]: "fs_ok fs \<Longrightarrow> fs_ok (sys_unlink env p fs)"
  by (auto simp: sys_unlink_def is_dir_def dest: resolve_not_start intro!: fs_ok_del split: option.splits node.splits)

lemma sys_rmdir_ok [inv_intros]: "fs_ok fs \<Longrightarrow> fs_ok (sys_rmdir env p fs)"
  by (auto simp: sys_rmdir_def dest: resolve_not_start intro!: fs_ok_del split: option.splits node.splits)

lemma sys_mkdir_ok [inv_intros]: "fs_ok fs \<Longrightarrow> fs_ok (snd (sys_mkdir env p fs))"
  by (auto simp: sys_mkdir_def dest: resolve_parent intro!: fs_ok_put split: option.splits)

lemma sys_symlink_ok [inv_intros]: "fs_ok fs \<Longrightarrow> fs_ok (sys_symlink env t p fs)"
  by (auto simp: sys_symlink_def is_dir_def dest: resolve_parent intro!: fs_ok_put split: option.splits)

lemma sys_chmod_ok [inv_intros]: "fs_ok fs \<Longrightarrow> fs_ok (sys_chmod env p m fs)"
  by (auto simp: sys_chmod_def is_dir_def [of _ p] dest: resolve_parent intro!: fs_ok_put split: option.splits node.splits)
    (auto simp: is_dir_def)

lemma open_creat_ok [inv_intros]: "fs_ok fs \<Longrightarrow> fs_ok (snd (open_creat env p fs))"
  by (auto simp: open_creat_def dest: resolve_parent intro!: fs_ok_put split: option.splits node.splits)
    (auto simp: is_dir_def)

lemma sys_sendfile_ok [inv_intros]:
  assumes "fs_ok fs"
  shows "fs_ok (sys_sendfile env d s fs)"
proof -
  have "fs_ok (fs_put q (Reg m c) fs)" if "map_of fs q = Some (Reg m' c')" for q m c m' c'
  proof (rule fs_ok_put [OF assms])
    show "q = [] \<or> is_dir (map_of fs) (butlast q)"
      using that assms tree_ok_parent [of "map_of fs" "butlast q" "last q"] by (cases "q = []") (auto simp: fs_ok_tree)
  qed (use that in \<open>simp add: is_dir_def\<close>)
  then show ?thesis using assms by (auto simp: sys_sendfile_def Let_def split: option.splits node.splits)
qed

lemma sys_rename_ok [inv_intros]:
  assumes "fs_ok fs"
  shows "fs_ok (snd (sys_rename env old new fs))"
proof -
  have "fs_ok (fs_put q n (fs_del p fs))"
    if "resolve env fs False old = Some p" "resolve env fs False new = Some q" "map_of fs p = Some n" "\<not> is_dir (map_of fs) p"
      "\<not> is_dir (map_of fs) q" for p q n
  proof (rule fs_ok_put)
    show "fs_ok (fs_del p fs)" using that resolve_not_start assms by (intro fs_ok_del) auto
    show "q = [] \<or> is_dir (map_of (fs_del p fs)) (butlast q)"
      using resolve_parent [OF assms that(2)] that(4) by (auto simp: is_dir_def)
  qed (use that(5) in \<open>auto simp: is_dir_def split: if_splits\<close>)
  then show ?thesis
    using assms by (auto simp: sys_rename_def is_dir_def split: option.splits node.splits)
qed

lemma move_link_ok: "fs_ok fs \<Longrightarrow> move_link env s d fs = Some fs' \<Longrightarrow> fs_ok fs'"
  using sys_rename_ok [of "if sys_access env d fs then sys_unlink env d fs else fs" env s d]
  by (auto simp: move_link_def Let_def sys_unlink_ok split: if_splits prod.splits bool.splits intro: sys_unlink_ok sys_symlink_ok)

lemma move_file_ok: "fs_ok fs \<Longrightarrow> fs_ok (move_file env s d m n fs)"
  using sys_rename_ok [of "if sys_stat env d fs \<noteq> None then sys_unlink env d fs else fs" env s d]
    open_creat_ok [of "snd (sys_rename env s d (if sys_stat env d fs \<noteq> None then sys_unlink env d fs else fs))" env d]
  by (auto simp: move_file_def copy_file_def Let_def sys_unlink_ok split: prod.splits bool.splits
      intro!: sys_unlink_ok sys_chmod_ok sys_sendfile_ok)

lemma move_dir_keeps_tree:
  shows "fs_ok fs \<Longrightarrow> move_dir env s d fs = Some (r, fs') \<Longrightarrow> fs_ok fs'"
    and "fs_ok fs \<Longrightarrow> move_entries env s d xs fs = Some (r, fs') \<Longrightarrow> fs_ok fs'"
proof (induction env s d fs and env s d xs fs arbitrary: r fs' and r fs' rule: move_dir_move_entries.induct)
  case (1 env s d fs)
  then show ?case by (auto simp: move_dir.simps split: option.splits prod.splits intro: sys_rmdir_ok)
next
  case (2 env s d fs)
  then show ?case by (simp add: move_entries.simps)
next
  case (3 env s d x xs fs)
  have m: "fs_ok (snd (sys_mkdir env (d @ [x]) fs))" by (rule sys_mkdir_ok [OF "3.prems"(1)])
  note e = "3.prems"(2) [unfolded move_entries.simps(2) [of env s d x xs]]
  note IH = "3.IH"
  note l = move_link_ok [OF "3.prems"(1)] and f = move_file_ok [OF "3.prems"(1)]
  show ?case
  proof (cases "x = ''.'' \<or> x = ''..''")
    case True
    then show ?thesis using IH(1) e "3.prems"(1) by simp
  next
    case False
    show ?thesis
    proof (cases "PATH_BUF \<le> length (path_text (s @ [x])) \<or> PATH_BUF \<le> length (path_text (d @ [x]))")
      case True
      then show ?thesis using False e "3.prems"(1) by (simp add: Let_def)
    next
      case short: False
      note IH = IH(2-) [OF False refl refl short]
      note e = e [simplified Let_def if_not_P [OF False] if_not_P [OF short]]
      show ?thesis
      proof (cases "sys_lstat env (s @ [x]) fs")
        case (Some n)
        note IH = IH [OF Some]
        show ?thesis
        proof (cases n)
          case (Reg mo c)
          then show ?thesis using e IH(1) [OF Reg f] by (simp add: Some)
        next
          case (Lnk t)
          then show ?thesis using e l IH(2) [OF Lnk] by (auto simp: Some split: option.splits)
        next
          case (Dir mo)
          obtain r1 fs1 where k: "sys_mkdir env (d @ [x]) fs = (r1, fs1)" by force
          note IH = IH(3,4) [OF Dir k [symmetric]]
          have "fs_ok fs1" using m k by simp
          show ?thesis
          proof (cases "r1 \<noteq> None \<and> r1 \<noteq> Some EEXIST")
            case True
            then show ?thesis using e \<open>fs_ok fs1\<close> by (simp add: Some Dir k)
          next
            case go: False
            then have ok: "r1 = None \<or> r1 = Some EEXIST" by blast
            note IH = IH [OF go]
            show ?thesis
            proof (cases "move_dir env (s @ [x]) (d @ [x]) fs1")
              case None
              then show ?thesis using e ok by (elim disjE) (simp_all add: Some Dir k)
            next
              case mv: (Some z)
              obtain r2 fs2 where z: "z = (r2, fs2)" by force
              have "fs_ok fs2" using IH(1) [OF \<open>fs_ok fs1\<close>] mv z by simp
              then show ?thesis
                using e ok IH(2) [OF mv] z mv by (elim disjE) (simp_all add: Some Dir k split: if_splits)
            qed
          qed
        next
          case Sock
          then show ?thesis using e IH(5) [OF Sock] "3.prems"(1) by (simp add: Some)
        qed
      qed (use e "3.prems"(1) in simp)
    qed
  qed
qed

subsection \<open>What a move is meant to be\<close>

fun strip :: "path \<Rightarrow> path \<Rightarrow> path option" where
  "strip [] p = Some p"
| "strip (x # xs) [] = None"
| "strip (x # xs) (y # ys) = (if x = y then strip xs ys else None)"

lemma strip_Some: "strip s p = Some q \<longleftrightarrow> p = s @ q"
  by (induction s p rule: strip.induct) auto

lemma strip_None: "strip s p = None \<longleftrightarrow> (\<forall>q. p \<noteq> s @ q)"
  by (cases "strip s p") (simp_all add: strip_Some, metis option.distinct(1) strip_Some)

lemma strip_append [simp]: "strip s (s @ q) = Some q"
  by (simp add: strip_Some)

text \<open>What is at a place when the first argument has been moved there: files of the same size are left alone, directories are
  joined, a new directory gets the mode of \<open>mkdir\<close>.\<close>

fun merge_node :: "u32 \<Rightarrow> node option \<Rightarrow> node option \<Rightarrow> node option" where
  "merge_node umask None old = old"
| "merge_node umask (Some (Dir m)) None = Some (Dir (S_IRWXU AND NOT umask))"
| "merge_node umask (Some (Dir m)) (Some old) = Some old"
| "merge_node umask (Some (Reg m c)) (Some (Reg m' c')) = Some (if length c = length c' then Reg m' c' else Reg m c)"
| "merge_node umask (Some n) _ = Some n"

text \<open>The entries of \<open>s\<close> whose names are in \<open>X\<close> have been moved to \<open>d\<close>.\<close>

definition moved :: "u32 \<Rightarrow> (string \<Rightarrow> bool) \<Rightarrow> path \<Rightarrow> path \<Rightarrow> tree \<Rightarrow> tree" where
  "moved umask X s d t p =
    (case (strip d p, strip s p) of
       (Some (x # q), _) \<Rightarrow> if X x then merge_node umask (t (s @ x # q)) (t p) else t p
     | (_, Some (x # q)) \<Rightarrow> if X x then None else t p
     | _ \<Rightarrow> t p)"

definition merged :: "u32 \<Rightarrow> path \<Rightarrow> path \<Rightarrow> tree \<Rightarrow> tree" where
  "merged umask s d t = (moved umask (\<lambda>x. True) s d t)(s := None)"

fun fits :: "move_env \<Rightarrow> path \<Rightarrow> node \<Rightarrow> node option \<Rightarrow> bool" where
  "fits env dp (Reg m c) old \<longleftrightarrow> length c \<le> me_room env dp \<and> (case old of None \<Rightarrow> True | Some (Reg _ _) \<Rightarrow> True | _ \<Rightarrow> False)"
| "fits env dp (Lnk t) old \<longleftrightarrow> t \<noteq> [] \<and> length t < LINK_BUF \<and> (case old of None \<Rightarrow> True | Some (Reg _ _) \<Rightarrow> True | _ \<Rightarrow> False)"
| "fits env dp (Dir m) old \<longleftrightarrow> (case old of None \<Rightarrow> True | Some (Dir _) \<Rightarrow> True | _ \<Rightarrow> False)"
| "fits env dp Sock old \<longleftrightarrow> False"

definition entry_fits :: "move_env \<Rightarrow> tree \<Rightarrow> path \<Rightarrow> path \<Rightarrow> path \<Rightarrow> bool" where
  "entry_fits env t s d q \<longleftrightarrow> last q \<noteq> ''.'' \<and> last q \<noteq> ''..'' \<and> length (path_text (s @ q)) < PATH_BUF \<and>
    length (path_text (d @ q)) < PATH_BUF \<and> fits env (d @ q) (the (t (s @ q))) (t (d @ q))"

text \<open>Two directories, neither inside the other one, whose entries fit together.\<close>

definition apart :: "path \<Rightarrow> path \<Rightarrow> bool" where
  "apart s d \<longleftrightarrow> strip s d = None \<and> strip d s = None"

definition mergeable :: "move_env \<Rightarrow> path \<Rightarrow> path \<Rightarrow> fsys \<Rightarrow> bool" where
  "mergeable env s d fs \<longleftrightarrow> fs_ok fs \<and> is_dir (map_of fs) s \<and> is_dir (map_of fs) d \<and> apart s d \<and>
    (\<forall>e \<in> set fs. case strip s (fst e) of Some (x # q) \<Rightarrow> entry_fits env (map_of fs) s d (x # q) | _ \<Rightarrow> True)"

definition mergeable_tree :: "move_env \<Rightarrow> path \<Rightarrow> path \<Rightarrow> tree \<Rightarrow> bool" where
  "mergeable_tree env s d t \<longleftrightarrow> tree_ok t \<and> is_dir t s \<and> is_dir t d \<and> apart s d \<and>
    (\<forall>x q. t (s @ x # q) \<noteq> None \<longrightarrow> entry_fits env t s d (x # q))"

lemma mergeable_map_of: "mergeable env s d fs \<Longrightarrow> mergeable_tree env s d (map_of fs)"
  unfolding mergeable_def mergeable_tree_def fs_ok_tree
proof (elim conjE, intro conjI allI impI)
  fix x q
  assume *: "\<forall>e \<in> set fs. case strip s (fst e) of Some (x # q) \<Rightarrow> entry_fits env (map_of fs) s d (x # q) | _ \<Rightarrow> True"
    "map_of fs (s @ x # q) \<noteq> None"
  then obtain e where "e \<in> set fs" "fst e = s @ x # q" by (auto simp: map_of_eq_None_iff)
  then show "entry_fits env (map_of fs) s d (x # q)" using *(1) by (auto dest!: bspec)
qed

subsection \<open>Moved trees\<close>

lemma apart_paths: "apart s d \<Longrightarrow> s @ p \<noteq> d @ q"
  unfolding apart_def strip_None by (auto simp: append_eq_append_conv2)

lemma apart_sym: "apart s d \<Longrightarrow> apart d s"
  by (simp add: apart_def)

lemma apart_strip [simp]: "apart s d \<Longrightarrow> strip s (d @ q) = None" "apart s d \<Longrightarrow> strip d (s @ q) = None"
  using apart_paths [of s d] apart_paths [of d s] apart_sym [of s d] by (simp_all add: strip_None)

lemma apart_snoc: "apart s d \<Longrightarrow> apart (s @ x) (d @ y)"
  using apart_paths [of s d "x @ q" y for q] apart_paths [of s d x "y @ q" for q]
  by (subst apart_def) (simp add: strip_None, metis)

lemma apart_ne: "apart s d \<Longrightarrow> s \<noteq> []" "apart s d \<Longrightarrow> d \<noteq> []"
  by (auto simp: apart_def)

lemma moved_at:
  assumes "apart s d"
  shows "moved um X s d t (d @ x # q) = (if X x then merge_node um (t (s @ x # q)) (t (d @ x # q)) else t (d @ x # q))"
    "moved um X s d t (s @ x # q) = (if X x then None else t (s @ x # q))"
    "moved um X s d t d = t d" "moved um X s d t s = t s"
  using assms apart_strip(1) [OF assms, of "[]"] apart_strip(2) [OF assms, of "[]"] strip_append [of d "[]"] strip_append [of s "[]"]
  by (simp_all add: moved_def)

text \<open>The three regions of a tree.\<close>

lemma path_cases:
  obtains (Target) x q where "p = d @ x # q" | (Source) x q where "p = s @ x # q"
  | (Else) "\<And>x q. p \<noteq> d @ x # q" "\<And>x q. p \<noteq> s @ x # q"
  by blast

lemma moved_else: "(\<And>x q. p \<noteq> d @ x # q) \<Longrightarrow> (\<And>x q. p \<noteq> s @ x # q) \<Longrightarrow> moved um X s d t p = t p"
  by (auto simp: moved_def strip_Some split: option.splits list.splits)

lemma moved_none: "moved um (\<lambda>x. False) s d t = t"
  by (auto simp: moved_def split: option.splits list.splits)

lemma moved_moved:
  assumes "apart s d" "\<And>x. X x \<Longrightarrow> \<not> Y x"
  shows "moved um Y s d (moved um X s d t) = moved um (\<lambda>x. X x \<or> Y x) s d t"
proof
  fix p
  show "moved um Y s d (moved um X s d t) p = moved um (\<lambda>x. X x \<or> Y x) s d t p"
    by (cases p rule: path_cases [where d = d and s = s])
      (use assms(2) in \<open>auto simp: moved_at [OF assms(1)] moved_else\<close>)
qed

subsection \<open>Moving one entry\<close>

definition only_renames_fail :: "move_env \<Rightarrow> bool" where
  "only_renames_fail env \<longleftrightarrow> (\<forall>c. me_refuses env c \<longrightarrow> (case c of C_rename _ _ \<Rightarrow> True | _ \<Rightarrow> False))"

lemma only_renames_failD [simp]:
  assumes "only_renames_fail env"
  shows "\<not> me_refuses env (C_opendir p)" "\<not> me_refuses env (C_mkdir p)" "\<not> me_refuses env (C_open p)"
    "\<not> me_refuses env (C_unlink p)" "\<not> me_refuses env (C_symlink p)" "\<not> me_refuses env (C_chmod p)"
  using assms unfolding only_renames_fail_def by fastforce+

lemma resolve_nofollow: "fs_ok fs \<Longrightarrow> is_dir (map_of fs) p \<Longrightarrow> resolve env fs False (p @ [x]) = Some (p @ [x])"
  by (rule resolve_entry) (auto simp: fs_ok_tree)

lemma resolve_follow:
  "fs_ok fs \<Longrightarrow> is_dir (map_of fs) p \<Longrightarrow> \<forall>t. map_of fs (p @ [x]) \<noteq> Some (Lnk t) \<Longrightarrow>
    resolve env fs final (p @ [x]) = Some (p @ [x])"
  by (rule resolve_entry) (auto simp: fs_ok_tree)

lemma is_dir_upd [simp]: "p \<noteq> q \<Longrightarrow> is_dir (t(q := v)) p = is_dir t p"
  by (simp add: is_dir_def)

lemma send_all_take: "send_all room c = take room c"
proof (induction room c rule: send_all.induct)
  case (1 room rest)
  let ?n = "min 0x8000 (min room (length rest))"
  show ?case
  proof (cases "?n > 0")
    case True
    have "take ?n rest @ take (room - ?n) (drop ?n rest) = take room rest"
      using take_add [of ?n "room - ?n" rest] by simp
    then show ?thesis using True 1 [OF refl True] by (subst send_all.simps) (simp only: Let_def if_P)
  next
    case False
    then show ?thesis by (subst send_all.simps) (auto simp: Let_def)
  qed
qed

text \<open>A regular file or a link, with nothing at its new place.\<close>

definition ready_to_move :: "move_env \<Rightarrow> path \<Rightarrow> path \<Rightarrow> fsys \<Rightarrow> bool" where
  "ready_to_move env s d fs \<longleftrightarrow> fs_ok fs \<and> is_dir (map_of fs) s \<and> is_dir (map_of fs) d \<and> apart s d \<and> only_renames_fail env"

lemma ready_to_moveD:
  assumes "ready_to_move env s d fs"
  shows "fs_ok fs" "is_dir (map_of fs) s" "is_dir (map_of fs) d" "apart s d" "only_renames_fail env"
  using assms by (simp_all add: ready_to_move_def)

lemma apart_places:
  assumes ap: "apart s d"
  shows "s @ [x] \<noteq> d @ [x]" "d @ [x] \<noteq> s @ [x]" "s \<noteq> d @ [x]" "d \<noteq> s @ [x]" "s \<noteq> s @ [x]" "d \<noteq> d @ [x]"
  using apart_paths [OF ap, of "[x]" "[x]"] apart_paths [OF ap, of "[]" "[x]"] apart_paths [OF ap, of "[x]" "[]"] by auto

lemma unlinked:
  assumes ok: "fs_ok fs" and calm: "only_renames_fail env"
    and "map_of fs (p @ [x]) = Some n" "\<not> is_dir (map_of fs) (p @ [x])" "is_dir (map_of fs) p"
  shows "sys_unlink env (p @ [x]) fs = fs_del (p @ [x]) fs"
  using assms(3,4) resolve_nofollow [OF ok assms(5)] calm by (auto simp: sys_unlink_def is_dir_def split: node.splits)

lemma target_cleared:
  assumes L: "ready_to_move env s d fs"
    and "map_of fs (d @ [x]) \<noteq> None" "\<not> is_dir (map_of fs) (d @ [x])"
  shows "ready_to_move env s d (fs_del (d @ [x]) fs)" "sys_unlink env (d @ [x]) fs = fs_del (d @ [x]) fs"
  using assms(2,3) apart_places [OF ready_to_moveD(4) [OF L], of x] ready_to_moveD [OF L]
  by (auto simp: ready_to_move_def intro!: fs_ok_del unlinked)

lemma renamed:
  assumes L: "ready_to_move env s d fs"
    and "map_of fs (s @ [x]) = Some n" "\<not> is_dir (map_of fs) (s @ [x])" "map_of fs (d @ [x]) = None"
    and "sys_rename env (s @ [x]) (d @ [x]) fs = (True, fs')"
  shows "map_of fs' = (map_of fs)(s @ [x] := None, d @ [x] \<mapsto> n)"
  using assms(2-) apart_places [OF ready_to_moveD(4) [OF L], of x]
    resolve_nofollow [OF ready_to_moveD(1,2) [OF L]] resolve_nofollow [OF ready_to_moveD(1,3) [OF L]]
  by (auto simp: sys_rename_def is_dir_def split: if_splits node.splits)

lemma not_renamed: "sys_rename env p q fs = (False, fs') \<Longrightarrow> fs' = fs"
  by (auto simp: sys_rename_def split: if_splits option.splits node.splits prod.splits)

lemma copied:
  assumes L: "ready_to_move env s d fs"
    and "map_of fs (s @ [x]) = Some (Reg m c)" "map_of fs (d @ [x]) = None"
  shows "map_of (copy_file env (s @ [x]) (d @ [x]) m fs) =
    (map_of fs)(s @ [x] := None, d @ [x] \<mapsto> Reg m (take (me_room env (d @ [x])) c))"
proof -
  note ok = ready_to_moveD(1) [OF L] and dirs = ready_to_moveD(2,3) [OF L] and calm = ready_to_moveD(5) [OF L]
  note places = apart_places [OF ready_to_moveD(4) [OF L], of x] and assms = assms(2-)
  let ?sp = "s @ [x]" and ?dp = "d @ [x]"
  let ?n = "take (me_room env ?dp) c" and ?m = "511 AND NOT (me_umask env)"
  let ?fs1 = "fs_put ?dp (Reg ?m []) fs" and ?fs2 = "fs_put ?dp (Reg ?m ?n) (fs_put ?dp (Reg ?m []) fs)"
  let ?fs3 = "fs_put ?dp (Reg m ?n) ?fs2"
  have ok1: "fs_ok ?fs1" using ok dirs assms by (intro fs_ok_put) (auto simp: is_dir_def)
  have ok2: "fs_ok ?fs2" using ok1 dirs places by (intro fs_ok_put [OF ok1]) (auto simp: is_dir_def)
  have ok3: "fs_ok ?fs3" using ok2 dirs places by (intro fs_ok_put [OF ok2]) (auto simp: is_dir_def)
  have r: "open_read env ?sp fs = Some ?sp"
    using assms resolve_follow [OF ok dirs(1), of x] calm by (simp add: open_read_def)
  have o: "open_creat env ?dp fs = (Some ?dp, ?fs1)"
    using assms resolve_follow [OF ok dirs(2), of x] calm by (simp add: open_creat_def)
  have se: "sys_sendfile env (Some ?dp) (Some ?sp) ?fs1 = ?fs2"
    using assms places by (simp add: sys_sendfile_def Let_def send_all_take)
  have ch: "sys_chmod env ?dp m ?fs2 = ?fs3"
    using resolve_follow [OF ok2, of d x] dirs(2) places calm by (simp add: sys_chmod_def)
  have un: "sys_unlink env ?sp ?fs3 = fs_del ?sp ?fs3"
    using unlinked [OF ok3 calm, of s x "Reg m c"] dirs assms(1) places by (simp add: is_dir_def)
  show ?thesis
    using places by (simp add: copy_file_def r o se ch un fun_eq_iff)
qed

lemma file_moved:
  assumes L: "ready_to_move env s d fs"
    and "map_of fs (s @ [x]) = Some (Reg m c)" "map_of fs (d @ [x]) = None"
  shows "map_of (case sys_rename env (s @ [x]) (d @ [x]) fs of
      (True, fs) \<Rightarrow> fs | (False, fs) \<Rightarrow> copy_file env (s @ [x]) (d @ [x]) m fs) =
    (map_of fs)(s @ [x] := None, d @ [x] \<mapsto>
      Reg m (if fst (sys_rename env (s @ [x]) (d @ [x]) fs) then c else take (me_room env (d @ [x])) c))"
  using renamed [OF L assms(2) _ assms(3)] not_renamed [of env "s @ [x]" "d @ [x]" fs] copied [OF assms]
  by (auto simp: is_dir_def assms(2) split: prod.splits bool.splits)

lemma link_moved:
  assumes L: "ready_to_move env s d fs"
    and "map_of fs (s @ [x]) = Some (Lnk t)" "t \<noteq> []" "length t < LINK_BUF" "map_of fs (d @ [x]) = None"
  shows "\<exists>fs'. (case sys_rename env (s @ [x]) (d @ [x]) fs of
      (True, fs) \<Rightarrow> Some fs
    | (False, fs) \<Rightarrow>
        let linkPath = sys_readlink env (s @ [x]) fs
        in if length linkPath < LINK_BUF
           then Some (sys_unlink env (s @ [x]) (sys_symlink env linkPath (d @ [x]) fs)) else None) = Some fs' \<and>
    map_of fs' = (map_of fs)(s @ [x] := None, d @ [x] \<mapsto> Lnk t)"
proof (cases "sys_rename env (s @ [x]) (d @ [x]) fs")
  note ok = ready_to_moveD(1) [OF L] and dirs = ready_to_moveD(2,3) [OF L] and calm = ready_to_moveD(5) [OF L]
  note places = apart_places [OF ready_to_moveD(4) [OF L], of x] and assms = assms(2-)
  case (Pair b fs')
  show ?thesis
  proof (cases b)
    case True
    then show ?thesis using renamed [OF L assms(1) _ assms(4), of fs'] Pair by (simp add: is_dir_def assms(1))
  next
    case False
    then have fs': "fs' = fs" using not_renamed Pair by simp
    let ?fs1 = "fs_put (d @ [x]) (Lnk t) fs"
    have l: "sys_readlink env (s @ [x]) fs = t"
      using resolve_nofollow [OF ok dirs(1)] assms(1) by (simp add: sys_readlink_def sys_lstat_def)
    have y: "sys_symlink env t (d @ [x]) fs = ?fs1"
      using resolve_nofollow [OF ok dirs(2)] assms(2,4) calm by (simp add: sys_symlink_def)
    have "fs_ok ?fs1" using ok dirs assms(4) by (intro fs_ok_put) (auto simp: is_dir_def)
    then have u: "sys_unlink env (s @ [x]) ?fs1 = fs_del (s @ [x]) ?fs1"
      using unlinked [OF _ calm, of ?fs1 s x "Lnk t"] dirs assms(1) places by (simp add: is_dir_def)
    show ?thesis using assms(3) places by (simp add: Pair False fs' l y u fun_eq_iff)
  qed
qed

text \<open>One entry in terms of the specification.\<close>

lemma moved_leaf:
  assumes "apart s d" "tree_ok t" "t (s @ [x]) = Some n" "\<not> is_dir t (s @ [x])"
  shows "t(s @ [x] := None, d @ [x] := merge_node um (Some n) (t (d @ [x]))) = moved um ((=) x) s d t"
proof
  fix p
  have below: "t (s @ x # q) = None" if "q \<noteq> []" for q
    using tree_ok_below [OF assms(2,4) that] by simp
  show "(t(s @ [x] := None, d @ [x] := merge_node um (Some n) (t (d @ [x])))) p = moved um ((=) x) s d t p"
  proof (cases p rule: path_cases [where d = d and s = s])
    case (Target y q)
    then show ?thesis
      using apart_paths [OF assms(1), of "[x]" "y # q"] below [of q] assms(3)
      by (cases "q = []") (auto simp: moved_at [OF assms(1)])
  next
    case (Source y q)
    then show ?thesis
      using apart_paths [OF assms(1), of "y # q" "[x]"] below [of q] by (cases "q = []") (auto simp: moved_at [OF assms(1)])
  next
    case Else
    then have "p \<noteq> d @ [x]" "p \<noteq> s @ [x]" by blast+
    then show ?thesis using moved_else [OF Else, of um "(=) x"] by simp
  qed
qed

definition can_merge :: "move_env \<Rightarrow> path \<Rightarrow> path \<Rightarrow> fsys \<Rightarrow> bool" where
  "can_merge env s d fs \<longleftrightarrow> fs_ok fs \<and> mergeable_tree env s d (map_of fs) \<and> only_renames_fail env"

lemma can_mergeD:
  assumes "can_merge env s d fs"
  shows "fs_ok fs" "tree_ok (map_of fs)" "ready_to_move env s d fs" "apart s d" "only_renames_fail env"
    "is_dir (map_of fs) s" "is_dir (map_of fs) d"
    "map_of fs (s @ x # q) \<noteq> None \<Longrightarrow> entry_fits env (map_of fs) s d (x # q)"
  using assms by (auto simp: can_merge_def mergeable_tree_def ready_to_move_def)

text \<open>Whatever the target has, the file is gone from the source; only a rename brings all of it there for certain.\<close>

definition arriving :: "move_env \<Rightarrow> path \<Rightarrow> path \<Rightarrow> string \<Rightarrow> string" where
  "arriving env sp dp c = (if me_refuses env (C_rename sp dp) then take (me_room env dp) c else c)"

fun left_over :: "move_env \<Rightarrow> u32 \<Rightarrow> string \<Rightarrow> nat \<Rightarrow> node option \<Rightarrow> node option" where
  "left_over env m c n None = Some (Reg m c)"
| "left_over env m c n (Some (Dir m')) = Some (Dir (if me_dir_size env = n then m' else m))"
| "left_over env m c n (Some old) = Some (if st_size env old = n then old else Reg m c)"

lemma file_moved_arriving:
  assumes L: "ready_to_move env s d fs" and sp: "map_of fs (s @ [x]) = Some (Reg m c)" and dp: "map_of fs (d @ [x]) = None"
  shows "map_of (case sys_rename env (s @ [x]) (d @ [x]) fs of
      (True, fs) \<Rightarrow> fs | (False, fs) \<Rightarrow> copy_file env (s @ [x]) (d @ [x]) m fs) =
    (map_of fs)(s @ [x] := None, d @ [x] \<mapsto> Reg m (arriving env (s @ [x]) (d @ [x]) c))"
proof -
  have "fst (sys_rename env (s @ [x]) (d @ [x]) fs) \<longleftrightarrow> \<not> me_refuses env (C_rename (s @ [x]) (d @ [x]))"
    using resolve_nofollow [OF ready_to_moveD(1,2) [OF L]] resolve_nofollow [OF ready_to_moveD(1,3) [OF L]]
    by (simp add: sys_rename_def sp dp)
  then show ?thesis using file_moved [OF L sp dp] by (simp add: arriving_def)
qed

text \<open>Onto a directory: nothing is copied, and the directory gets the mode of the file.\<close>

lemma file_onto_dir:
  assumes L: "ready_to_move env s d fs" and sp: "map_of fs (s @ [x]) = Some (Reg m c)" and dp: "map_of fs (d @ [x]) = Some (Dir m')"
  shows "sys_unlink env (d @ [x]) fs = fs" "fst (sys_rename env (s @ [x]) (d @ [x]) fs) = False"
    "map_of (copy_file env (s @ [x]) (d @ [x]) m fs) = (map_of fs)(s @ [x] := None, d @ [x] \<mapsto> Dir m)"
proof -
  note ok = ready_to_moveD(1) [OF L] and dirs = ready_to_moveD(2,3) [OF L] and calm = ready_to_moveD(5) [OF L]
  note places = apart_places [OF ready_to_moveD(4) [OF L], of x]
  have r: "resolve env fs b (d @ [x]) = Some (d @ [x])" "resolve env fs b (s @ [x]) = Some (s @ [x])" for b
    using resolve_follow [OF ok dirs(2)] resolve_follow [OF ok dirs(1)] sp dp by simp_all
  show "sys_unlink env (d @ [x]) fs = fs" "fst (sys_rename env (s @ [x]) (d @ [x]) fs) = False"
    by (simp_all add: sys_unlink_def sys_rename_def r sp dp)
  let ?fs1 = "fs_put (d @ [x]) (Dir m) fs"
  have ok1: "fs_ok ?fs1" using ok dirs dp by (intro fs_ok_put) auto
  have "sys_chmod env (d @ [x]) m fs = ?fs1" using calm by (simp add: sys_chmod_def r dp)
  moreover have "sys_unlink env (s @ [x]) ?fs1 = fs_del (s @ [x]) ?fs1"
    using unlinked [OF ok1 calm, of s x "Reg m c"] dirs sp places by (simp add: is_dir_def)
  moreover have "open_creat env (d @ [x]) fs = (None, fs)" by (simp add: open_creat_def r dp)
  ultimately show "map_of (copy_file env (s @ [x]) (d @ [x]) m fs) = (map_of fs)(s @ [x] := None, d @ [x] \<mapsto> Dir m)"
    using places by (simp add: copy_file_def sys_sendfile_def fun_eq_iff)
qed

lemma move_file_outcome:
  assumes L: "ready_to_move env s d fs" and sp: "map_of fs (s @ [x]) = Some (Reg m c)"
    and dp: "\<forall>t. map_of fs (d @ [x]) \<noteq> Some (Lnk t)"
  shows "map_of (move_file env (s @ [x]) (d @ [x]) m (length c) fs) =
    (map_of fs)(s @ [x] := None,
      d @ [x] := left_over env m (arriving env (s @ [x]) (d @ [x]) c) (length c) (map_of fs (d @ [x])))"
proof (cases "map_of fs (d @ [x])")
  let ?sp = "s @ [x]" and ?dp = "d @ [x]"
  note ok = ready_to_moveD(1) [OF L] and dirs = ready_to_moveD(2,3) [OF L] and calm = ready_to_moveD(5) [OF L]
  note places = apart_places [OF ready_to_moveD(4) [OF L], of x]
  have st: "sys_stat env ?dp fs = map_of fs ?dp" using resolve_follow [OF ok dirs(2) dp] by (simp add: sys_stat_def)
  {
    case None
    then show ?thesis using file_moved_arriving [OF L sp None] by (simp add: move_file_def st)
  next
    case (Some n)
    show ?thesis
    proof (cases "st_size env n = length c")
      case True
      then have "move_file env ?sp ?dp m (length c) fs = fs_del ?sp fs"
        using unlinked [OF ok calm sp _ dirs(1)] by (simp add: move_file_def st Some is_dir_def sp)
      then show ?thesis using True places Some by (cases n) (auto simp: fun_eq_iff)
    next
      case False
      show ?thesis
      proof (cases "is_dir (map_of fs) ?dp")
        case True
        then obtain m' where n: "map_of fs ?dp = Some (Dir m')" by (rule is_dirE)
        note D = file_onto_dir [OF L sp n]
        obtain fs1 where re: "sys_rename env ?sp ?dp fs = (False, fs1)" using D(2) by (cases "sys_rename env ?sp ?dp fs") auto
        then have "fs1 = fs" by (rule not_renamed)
        then show ?thesis using False Some n D(1,3) re by (auto simp: move_file_def st)
      next
        case nd: False
        note T = target_cleared [OF L _ nd]
        have "map_of (fs_del ?dp fs) ?sp = Some (Reg m c)" using sp places by simp
        note M = file_moved_arriving [OF T(1) this]
        show ?thesis
          using False nd dp Some M T by (cases n) (auto simp: move_file_def st is_dir_def fun_upd_twist places)
      qed
    qed
  }
qed

lemma file_step:
  assumes C: "can_merge env s d fs" and "map_of fs (s @ [x]) = Some (Reg m c)"
  shows "map_of (move_file env (s @ [x]) (d @ [x]) m (length c) fs) = moved (me_umask env) ((=) x) s d (map_of fs)"
proof -
  let ?t = "map_of fs" and ?sp = "s @ [x]" and ?dp = "d @ [x]"
  have fit: "length c \<le> me_room env ?dp" "?t ?dp = None \<or> (\<exists>m' c'. ?t ?dp = Some (Reg m' c'))"
    using can_mergeD(8) [OF C, of x "[]"] assms(2) by (auto simp: entry_fits_def split: option.splits node.splits)
  have "left_over env m (arriving env ?sp ?dp c) (length c) (?t ?dp) = merge_node (me_umask env) (Some (Reg m c)) (?t ?dp)"
    using fit by (auto simp: arriving_def)
  moreover have "\<not> is_dir ?t ?sp" using assms(2) by (simp add: is_dir_def)
  ultimately show ?thesis
    using moved_leaf [OF can_mergeD(4,2) [OF C] assms(2)] move_file_outcome [OF can_mergeD(3) [OF C] assms(2)] fit(2) by auto
qed

lemma link_step:
  assumes C: "can_merge env s d fs" and "map_of fs (s @ [x]) = Some (Lnk t)"
  shows "\<exists>fs'. move_link env (s @ [x]) (d @ [x]) fs = Some fs' \<and> map_of fs' = moved (me_umask env) ((=) x) s d (map_of fs)"
proof -
  let ?t = "map_of fs" and ?sp = "s @ [x]" and ?dp = "d @ [x]"
  have fit: "t \<noteq> []" "length t < LINK_BUF" "?t ?dp = None \<or> (\<exists>m' c'. ?t ?dp = Some (Reg m' c'))"
    using can_mergeD(8) [OF C, of x "[]"] assms(2) by (auto simp: entry_fits_def split: option.splits node.splits)
  have st: "sys_stat env ?dp fs = ?t ?dp" "sys_lstat env ?dp fs = ?t ?dp"
    using resolve_follow [OF can_mergeD(1,7) [OF C], of x] fit(3) by (auto simp: sys_stat_def sys_lstat_def)
  have nd: "\<not> is_dir ?t ?sp" using assms(2) by (simp add: is_dir_def)
  have mn: "merge_node (me_umask env) (Some (Lnk t)) old = Some (Lnk t)" for old by (cases old) auto
  have L: "?t(?sp := None, ?dp := Some (Lnk t)) = moved (me_umask env) ((=) x) s d ?t"
    using moved_leaf [OF can_mergeD(4,2) [OF C] assms(2) nd] by (simp add: mn)
  note move = link_moved [OF _ _ fit(1,2), where s = s and d = d and x = x and env = env]
  show ?thesis
  proof (cases "?t ?dp")
    case None
    then show ?thesis
      using move [OF can_mergeD(3) [OF C] assms(2) None] L by (simp add: move_link_def sys_access_def st Let_def)
  next
    case (Some n)
    then obtain m' c' where n: "?t ?dp = Some (Reg m' c')" using fit(3) by auto
    then have nd': "\<not> is_dir ?t ?dp" by (simp add: is_dir_def)
    note T = target_cleared [OF can_mergeD(3) [OF C] _ nd']
    have s: "map_of (fs_del ?dp fs) ?sp = Some (Lnk t)"
      using assms(2) apart_places [OF can_mergeD(4) [OF C], of x] by simp
    have "sys_unlink env ?dp fs = fs_del ?dp fs" "ready_to_move env s d (fs_del ?dp fs)" using T n by simp_all
    then show ?thesis
      using move [of "fs_del ?dp fs", OF _ s] n L by (simp add: move_link_def sys_access_def st Let_def fun_upd_twist)
  qed
qed

lemma moved_cong:
  assumes "apart s d" "tree_ok t" "\<And>x. X x \<noteq> Y x \<Longrightarrow> t (s @ [x]) = None"
  shows "moved um X s d t = moved um Y s d t"
proof
  fix p
  have "t (s @ x # q) = None" if "X x \<noteq> Y x" for x q
  proof -
    have "\<not> is_dir t (s @ [x])" "t (s @ [x]) = None" using assms(3) [OF that] by (simp_all add: is_dir_def)
    then show ?thesis using tree_ok_below [OF assms(2), of "s @ [x]" q] by (cases "q = []") simp_all
  qed
  then show "moved um X s d t p = moved um Y s d t p"
    by (cases p rule: path_cases [where d = d and s = s]) (auto simp: moved_at [OF assms(1)] moved_else)
qed

text \<open>What is moved later still fits.\<close>

lemma can_merge_moved:
  assumes C: "can_merge env s d fs" and "fs_ok fs'" "map_of fs' = moved um ((=) x) s d (map_of fs)"
  shows "can_merge env s d fs'"
proof -
  note ap = can_mergeD(4) [OF C]
  have "entry_fits env (map_of fs') s d (y # q)" if "map_of fs' (s @ y # q) \<noteq> None" for y q
  proof -
    have y: "x \<noteq> y" "map_of fs (s @ y # q) \<noteq> None" using that by (auto simp: assms(3) moved_at [OF ap] split: if_splits)
    then show ?thesis
      using can_mergeD(8) [OF C, of y q] by (simp add: entry_fits_def assms(3) moved_at [OF ap])
  qed
  moreover have "is_dir (map_of fs') s" "is_dir (map_of fs') d"
    using can_mergeD(6,7) [OF C] by (simp_all add: is_dir_def assms(3) moved_at [OF ap])
  ultimately show ?thesis
    using assms(2) can_mergeD(4,5) [OF C] by (simp add: can_merge_def mergeable_tree_def fs_ok_tree)
qed

lemma mkdir_step:
  assumes C: "can_merge env s d fs" and "map_of fs (s @ [x]) = Some (Dir m)"
  obtains e fs1 where "sys_mkdir env (d @ [x]) fs = (e, fs1)" "e = None \<or> e = Some EEXIST"
    "can_merge env (s @ [x]) (d @ [x]) fs1"
    "map_of fs1 = (map_of fs)(d @ [x] := merge_node (me_umask env) (Some (Dir m)) (map_of fs (d @ [x])))"
proof -
  let ?t = "map_of fs" and ?sp = "s @ [x]" and ?dp = "d @ [x]"
  have fit: "?t ?dp = None \<or> (\<exists>m'. ?t ?dp = Some (Dir m'))"
    using can_mergeD(8) [OF C, of x "[]"] assms(2) by (auto simp: entry_fits_def split: option.splits node.splits)
  obtain e fs1 where k: "sys_mkdir env ?dp fs = (e, fs1)" by force
  have r: "resolve env fs False ?dp = Some ?dp" using resolve_nofollow [OF can_mergeD(1,7) [OF C]] .
  have e: "e = None \<or> e = Some EEXIST"
    "map_of fs1 = ?t(?dp := merge_node (me_umask env) (Some (Dir m)) (?t ?dp))"
    using k fit r can_mergeD(5) [OF C] by (auto simp: sys_mkdir_def)
  note places = apart_places [OF can_mergeD(4) [OF C], of x] and paths = apart_paths [OF can_mergeD(4) [OF C]]
  have fs1: "map_of fs1 (s @ y # q) = ?t (s @ y # q)" "q \<noteq> [] \<Longrightarrow> map_of fs1 (d @ y # q) = ?t (d @ y # q)" for y q
    using paths [of "y # q" "[x]"] by (simp_all add: e(2))
  have "entry_fits env (map_of fs1) ?sp ?dp (y # q)" if "map_of fs1 (?sp @ y # q) \<noteq> None" for y q
    using can_mergeD(8) [OF C, of x "y # q"] that fs1(1) [of x "y # q"] fs1(2) [of "y # q" x] by (simp add: entry_fits_def)
  moreover have "is_dir (map_of fs1) ?sp" "is_dir (map_of fs1) ?dp"
    using fit assms(2) places by (auto simp: e(2) is_dir_def)
  moreover have "fs_ok fs1" using sys_mkdir_ok [OF can_mergeD(1) [OF C], where env = env and p = ?dp] k by simp
  ultimately have "can_merge env ?sp ?dp fs1"
    using can_mergeD(4,5) [OF C] apart_snoc by (simp add: can_merge_def mergeable_tree_def fs_ok_tree)
  then show thesis using that k e by blast
qed

lemma merged_dir:
  assumes C: "can_merge env s d fs" and "map_of fs (s @ [x]) = Some (Dir m)"
    and t1: "t1 = (map_of fs)(d @ [x] := merge_node um (Some (Dir m)) (map_of fs (d @ [x])))"
  shows "merged um (s @ [x]) (d @ [x]) t1 = moved um ((=) x) s d (map_of fs)"
proof
  fix p
  note ap = can_mergeD(4) [OF C] and paths = apart_paths [OF can_mergeD(4) [OF C]]
  have ap': "apart (s @ [x]) (d @ [x])" using apart_snoc [OF ap] .
  show "merged um (s @ [x]) (d @ [x]) t1 p = moved um ((=) x) s d (map_of fs) p"
  proof (cases p rule: path_cases [where d = d and s = s])
    case (Target y q)
    show ?thesis
    proof (cases "y = x")
      case True
      then show ?thesis
        using moved_at(1) [OF ap', of um "\<lambda>x. True" t1 "hd q" "tl q"] moved_at(3) [OF ap', of um "\<lambda>x. True" t1]
          paths [of "[x]" "x # q"] paths [of "x # q" "[x]"] Target assms(2)
        by (cases q) (simp_all add: merged_def moved_at(1) [OF ap] t1)
    next
      case False
      then have "\<And>z r. p \<noteq> (d @ [x]) @ z # r" "\<And>z r. p \<noteq> (s @ [x]) @ z # r" "p \<noteq> s @ [x]" "p \<noteq> d @ [x]"
        using Target by (auto simp: paths paths [THEN not_sym])
      then show ?thesis
        using False Target by (simp add: merged_def moved_else moved_at(1) [OF ap]) (simp add: t1)
    qed
  next
    case (Source y q)
    show ?thesis
    proof (cases "y = x")
      case True
      then show ?thesis
        using moved_at(2) [OF ap', of um "\<lambda>x. True" t1 "hd q" "tl q"] Source
        by (cases q) (simp_all add: merged_def moved_at(2) [OF ap])
    next
      case False
      then have "\<And>z r. p \<noteq> (d @ [x]) @ z # r" "\<And>z r. p \<noteq> (s @ [x]) @ z # r" "p \<noteq> s @ [x]" "p \<noteq> d @ [x]"
        using Source by (auto simp: paths paths [THEN not_sym])
      then show ?thesis
        using False Source by (simp add: merged_def moved_else moved_at(2) [OF ap]) (simp add: t1)
    qed
  next
    case Else
    then have "\<And>z r. p \<noteq> (d @ [x]) @ z # r" "\<And>z r. p \<noteq> (s @ [x]) @ z # r" "p \<noteq> s @ [x]" "p \<noteq> d @ [x]" by auto
    then show ?thesis using moved_else [OF Else, of um "(=) x" "map_of fs"] by (simp add: merged_def moved_else) (simp add: t1)
  qed
qed

subsection \<open>The whole move\<close>

lemma move_entries_eq:
  assumes "x \<noteq> ''.''" "x \<noteq> ''..''" "length (path_text (s @ [x])) < PATH_BUF" "length (path_text (d @ [x])) < PATH_BUF"
  shows "sys_lstat env (s @ [x]) fs = Some (Reg m c) \<Longrightarrow>
      move_entries env s d (x # xs) fs = move_entries env s d xs (move_file env (s @ [x]) (d @ [x]) m (length c) fs)"
    "sys_lstat env (s @ [x]) fs = Some (Lnk t) \<Longrightarrow> move_link env (s @ [x]) (d @ [x]) fs = Some fs1 \<Longrightarrow>
      move_entries env s d (x # xs) fs = move_entries env s d xs fs1"
    "sys_lstat env (s @ [x]) fs = Some (Dir m) \<Longrightarrow> sys_mkdir env (d @ [x]) fs = (e, fs1) \<Longrightarrow>
      e = None \<or> e = Some EEXIST \<Longrightarrow> move_dir env (s @ [x]) (d @ [x]) fs1 = Some (0, fs2) \<Longrightarrow>
      move_entries env s d (x # xs) fs = move_entries env s d xs fs2"
  using assms by (auto simp: move_entries.simps(2) Let_def)

lemma opendir_names:
  assumes "fs_ok fs" "is_dir (map_of fs) s" "s \<noteq> []" "only_renames_fail env"
  shows "sys_opendir env s fs = Some (''.'' # ''..'' # fs_names s fs)"
  using resolve_dir [OF _ assms(2,3), of env True] assms by (auto simp: sys_opendir_def fs_ok_tree elim: is_dirE)

text \<open>The directory is removed when all its entries have been.\<close>

lemma move_dir_emptied:
  assumes "fs_ok fs" "is_dir (map_of fs) s" "s \<noteq> []" "only_renames_fail env"
    and "move_entries env s d (''.'' # ''..'' # fs_names s fs) fs = Some (0, fs1)"
    and "is_dir (map_of fs1) s" "\<And>x. map_of fs1 (s @ [x]) = None"
  shows "move_dir env s d fs = Some (0, fs_del s fs1)"
proof -
  have ok: "fs_ok fs1" using move_dir_keeps_tree(2) [OF assms(1,5)] .
  have "set (fs_names s fs1) = {}" using assms(7) by simp
  then have "fs_names s fs1 = []" by (simp only: set_empty)
  then have "sys_rmdir env s fs1 = fs_del s fs1"
    using resolve_dir [OF _ assms(6,3), of env False] ok assms(4,6) by (auto simp: sys_rmdir_def fs_ok_tree elim: is_dirE)
  then show ?thesis using opendir_names [OF assms(1-4)] assms(5) by (simp add: move_dir.simps)
qed

abbreviation listed :: "string list \<Rightarrow> string \<Rightarrow> bool" where
  "listed xs x \<equiv> x \<in> set xs \<and> x \<noteq> ''.'' \<and> x \<noteq> ''..''"

lemma after_entries:
  assumes "can_merge env s d fs" "x \<noteq> ''.''" "x \<noteq> ''..''" "x \<notin> set xs"
    and "fs_ok fs1" "map_of fs1 = moved um ((=) x) s d (map_of fs)"
    and "map_of fs' = moved um (listed xs) s d (map_of fs1)"
  shows "map_of fs' = moved um (listed (x # xs)) s d (map_of fs)"
proof -
  have "(\<lambda>y. x = y \<or> listed xs y) = listed (x # xs)" using assms(2,3) by auto
  then show ?thesis using moved_moved [OF can_mergeD(4) [OF assms(1)], of "(=) x" "listed xs" um "map_of fs"] assms(4,6,7) by simp
qed

lemma move_dir_merges:
  "can_merge env s d fs \<Longrightarrow>
    \<exists>fs'. move_dir env s d fs = Some (0, fs') \<and> map_of fs' = merged (me_umask env) s d (map_of fs)"
  "can_merge env s d fs \<Longrightarrow> distinct xs \<Longrightarrow> \<forall>x \<in> set xs. x = ''.'' \<or> x = ''..'' \<or> map_of fs (s @ [x]) \<noteq> None \<Longrightarrow>
    \<exists>fs'. move_entries env s d xs fs = Some (0, fs') \<and> map_of fs' = moved (me_umask env) (listed xs) s d (map_of fs)"
proof (induction env s d fs and env s d xs fs rule: move_dir_move_entries.induct)
  case (1 env s d fs)
  note C = "1.prems" and ap = can_mergeD(4) [OF "1.prems"]
  let ?xs = "''.'' # ''..'' # fs_names s fs" and ?um = "me_umask env"
  have dots: "map_of fs (s @ [''.'']) = None" "map_of fs (s @ [''..'']) = None"
    using can_mergeD(8) [OF C, of "''.''" "[]"] can_mergeD(8) [OF C, of "''..''" "[]"]
    by (cases "map_of fs (s @ [''.''])"; cases "map_of fs (s @ [''..''])"; simp add: entry_fits_def)+
  have "distinct ?xs" using dots by simp
  then obtain fs1 where e: "move_entries env s d ?xs fs = Some (0, fs1)" "map_of fs1 = moved ?um (listed ?xs) s d (map_of fs)"
    using "1.IH" [OF opendir_names [OF can_mergeD(1,6) [OF C] apart_ne(1) [OF ap] can_mergeD(5) [OF C]] C] by auto
  have m: "map_of fs1 = moved ?um (\<lambda>x. True) s d (map_of fs)"
    unfolding e(2) by (rule moved_cong [OF ap can_mergeD(2) [OF C]]) (use dots in auto)
  have "is_dir (map_of fs1) s" using can_mergeD(6) [OF C] by (simp add: is_dir_def m moved_at [OF ap])
  from move_dir_emptied [OF can_mergeD(1,6) [OF C] apart_ne(1) [OF ap] can_mergeD(5) [OF C] e(1) this]
  show ?case by (simp add: m moved_at [OF ap] merged_def fun_eq_iff)
next
  case (2 env s d fs)
  then show ?case by (simp add: move_entries.simps moved_none)
next
  case (3 env s d x xs fs)
  note C = "3.prems"(1)
  let ?um = "me_umask env"
  show ?case
  proof (cases "x = ''.'' \<or> x = ''..''")
    case True
    then have "listed (x # xs) = listed xs" by auto
    then show ?thesis using "3.IH"(1) [OF True C] True "3.prems"(2,3) by (simp add: move_entries.simps)
  next
    case False
    have x: "map_of fs (s @ [x]) \<noteq> None" "x \<notin> set xs" "distinct xs" using "3.prems"(2,3) False by auto
    have short: "\<not> (PATH_BUF \<le> length (path_text (s @ [x])) \<or> PATH_BUF \<le> length (path_text (d @ [x])))"
      using can_mergeD(8) [OF C, of x "[]"] x(1) by (auto simp: entry_fits_def)
    have ls: "sys_lstat env (s @ [x]) fs = map_of fs (s @ [x])"
      using resolve_nofollow [OF can_mergeD(1,6) [OF C]] by (simp add: sys_lstat_def)
    note eqs = move_entries_eq [of x s d env fs, unfolded ls]
    have rest: "\<exists>fs'. move_entries env s d xs fs1 = Some (0, fs') \<and> map_of fs' = moved ?um (listed (x # xs)) s d (map_of fs)"
      if f1: "fs_ok fs1" and m1: "map_of fs1 = moved ?um ((=) x) s d (map_of fs)"
        and IH: "can_merge env s d fs1 \<Longrightarrow> distinct xs \<Longrightarrow>
          \<forall>x \<in> set xs. x = ''.'' \<or> x = ''..'' \<or> map_of fs1 (s @ [x]) \<noteq> None \<Longrightarrow>
          \<exists>fs'. move_entries env s d xs fs1 = Some (0, fs') \<and> map_of fs' = moved ?um (listed xs) s d (map_of fs1)" for fs1
    proof -
      have "map_of fs1 (s @ [y]) = map_of fs (s @ [y])" if "y \<in> set xs" for y
        using that x(2) m1 by (auto simp: moved_at [OF can_mergeD(4) [OF C]])
      then obtain fs' where "move_entries env s d xs fs1 = Some (0, fs')" "map_of fs' = moved ?um (listed xs) s d (map_of fs1)"
        using IH [OF can_merge_moved [OF C f1 m1] x(3)] "3.prems"(3) by auto
      then show ?thesis using after_entries [OF C _ _ x(2) f1 m1] False by blast
    qed
    note IH = "3.IH"(2-) [OF False refl refl short]
    obtain n where n: "map_of fs (s @ [x]) = Some n" using x(1) by blast
    note IH = IH [unfolded ls, OF n]
    show ?thesis
    proof (cases n)
      case (Reg m c)
      let ?fs1 = "move_file env (s @ [x]) (d @ [x]) m (length c) fs"
      have "fs_ok ?fs1" "map_of ?fs1 = moved ?um ((=) x) s d (map_of fs)"
        using move_file_ok [OF can_mergeD(1) [OF C]] file_step [OF C] n Reg by simp_all
      from rest [OF this IH(1) [OF Reg]] show ?thesis using eqs(1) [of m c] n Reg False short by simp
    next
      case (Lnk t)
      then obtain fs1 where l: "move_link env (s @ [x]) (d @ [x]) fs = Some fs1" "map_of fs1 = moved ?um ((=) x) s d (map_of fs)"
        using link_step [OF C] n by blast
      from rest [OF move_link_ok [OF can_mergeD(1) [OF C] l(1)] l(2) IH(2) [OF Lnk l(1)]]
      show ?thesis using eqs(2) [of t fs1] l(1) n Lnk False short by simp
    next
      case (Dir m)
      obtain e fs1 where k: "sys_mkdir env (d @ [x]) fs = (e, fs1)" "e = None \<or> e = Some EEXIST"
        "can_merge env (s @ [x]) (d @ [x]) fs1"
        "map_of fs1 = (map_of fs)(d @ [x] := merge_node ?um (Some (Dir m)) (map_of fs (d @ [x])))"
        using mkdir_step [OF C] n Dir by metis
      have go: "\<not> (e \<noteq> None \<and> e \<noteq> Some EEXIST)" using k(2) by blast
      obtain fs2 where mv: "move_dir env (s @ [x]) (d @ [x]) fs1 = Some (0, fs2)"
        "map_of fs2 = merged ?um (s @ [x]) (d @ [x]) (map_of fs1)"
        using IH(3) [OF Dir k(1) [symmetric] go k(3)] by blast
      have m2: "map_of fs2 = moved ?um ((=) x) s d (map_of fs)"
        unfolding mv(2) using merged_dir [OF C _ k(4)] n Dir by simp
      from rest [OF move_dir_keeps_tree(1) [OF can_mergeD(1) [OF k(3)] mv(1)] m2
          IH(4) [OF Dir k(1) [symmetric] go mv(1) refl]]
      show ?thesis using eqs(3) [of m e fs1 fs2] k(1,2) mv(1) n Dir False short by simp
    next
      case Sock
      then show ?thesis using can_mergeD(8) [OF C, of x "[]"] n by (simp add: entry_fits_def)
    qed
  qed
qed

lemma move_one_file:
  assumes L: "ready_to_move env s d fs" and names: "fs_names s fs = [x]" and sp: "map_of fs (s @ [x]) = Some (Reg m c)"
    and dp: "\<forall>t. map_of fs (d @ [x]) \<noteq> Some (Lnk t)"
    and short: "x \<noteq> ''.''" "x \<noteq> ''..''" "length (path_text (s @ [x])) < PATH_BUF" "length (path_text (d @ [x])) < PATH_BUF"
  shows "\<exists>fs'. move_dir env s d fs = Some (0, fs') \<and> map_of fs' = (map_of fs)(s := None, s @ [x] := None,
    d @ [x] := left_over env m (arriving env (s @ [x]) (d @ [x]) c) (length c) (map_of fs (d @ [x])))"
proof -
  note D = ready_to_moveD [OF L]
  note places = apart_places [OF D(4), of x]
  let ?fs1 = "move_file env (s @ [x]) (d @ [x]) m (length c) fs"
  have m: "map_of ?fs1 = (map_of fs)(s @ [x] := None,
      d @ [x] := left_over env m (arriving env (s @ [x]) (d @ [x]) c) (length c) (map_of fs (d @ [x])))"
    using move_file_outcome [OF L sp dp] .
  have "sys_lstat env (s @ [x]) fs = Some (Reg m c)"
    using resolve_nofollow [OF D(1,2)] sp by (simp add: sys_lstat_def)
  then have "move_entries env s d (''.'' # ''..'' # fs_names s fs) fs = Some (0, ?fs1)"
    using short by (simp add: names move_entries.simps Let_def)
  moreover have "is_dir (map_of ?fs1) s" using D(2) places by (simp add: m)
  moreover have "map_of ?fs1 (s @ [y]) = None" for y
    using names set_fs_names [of s fs] apart_paths [OF D(4), of "[y]" "[x]"] by (auto simp: m)
  ultimately show ?thesis
    using move_dir_emptied [OF D(1,2) apart_ne(1) [OF D(4)] D(5)] places
      apart_paths [OF D(4), of "[x]" "[]"] by (auto simp: m fun_upd_twist)
qed

end
