(* ===== verification/Action_Systems.thy ===== *)
theory Action_Systems
  imports Linux_Prelude
begin

text \<open>
  Programs of several threads as systems of actions: an action changes the state or is not possible (\<open>None\<close>).
\<close>

definition acts :: "('a \<Rightarrow> 's \<Rightarrow> 's option) \<Rightarrow> 's \<Rightarrow> 's \<Rightarrow> bool" where
  "acts act s t \<longleftrightarrow> (\<exists>a. act a s = Some t)"

fun act_run :: "('a \<Rightarrow> 's \<Rightarrow> 's option) \<Rightarrow> 'a list \<Rightarrow> 's \<Rightarrow> 's option" where
  "act_run act [] s = Some s"
| "act_run act (a # more) s = do { s \<leftarrow> act a s; act_run act more s }"

lemma actsI: "act a s = Some t \<Longrightarrow> acts act s t"
  by (auto simp: acts_def)

lemma act_run_reaches: "act_run act w s = Some t \<Longrightarrow> rtranclp (acts act) s t"
  by (induction w arbitrary: s) (auto simp: bind_eq_Some_conv intro: converse_rtranclp_into_rtranclp actsI)

end
