(* ===== verification/Lock_Cycle.thy ===== *)
theory Lock_Cycle
  imports Action_Systems
begin

text \<open>
  The targets of the chapters on \<open>strace\<close> and \<open>pstack\<close>: threads that lock mutexes in a loop. A thread is the list of the
  operations of one turn; \<open>pc\<close> is the number of the next one.
\<close>

subsection \<open>Threads and mutexes\<close>

datatype 'm lock_op = Lock 'm | Unlock 'm | Sleep

record ('w, 'm) lock_sys =
  pc :: "'w \<Rightarrow> nat"
  owner :: "'m \<Rightarrow> 'w option"

definition all_start :: "('w, 'm) lock_sys" where
  "all_start = \<lparr>pc = (\<lambda>w. 0), owner = (\<lambda>m. None)\<rparr>"

definition advance :: "('w \<Rightarrow> 'm lock_op list) \<Rightarrow> 'w \<Rightarrow> ('w, 'm) lock_sys \<Rightarrow> ('w, 'm) lock_sys" where
  "advance prog w s = s\<lparr>pc := (pc s)(w := (pc s w + 1) mod length (prog w))\<rparr>"

definition lock_act :: "('w \<Rightarrow> 'm lock_op list) \<Rightarrow> 'w \<Rightarrow> ('w, 'm) lock_sys \<Rightarrow> ('w, 'm) lock_sys option" where
  "lock_act prog w s =
    (case prog w ! pc s w of
       Lock m \<Rightarrow> if owner s m = None then Some (advance prog w (s\<lparr>owner := (owner s)(m := Some w)\<rparr>)) else None
     | Unlock m \<Rightarrow> Some (advance prog w (s\<lparr>owner := (owner s)(m := None)\<rparr>))
     | Sleep \<Rightarrow> Some (advance prog w s))"

definition stuck :: "('w \<Rightarrow> 'm lock_op list) \<Rightarrow> 'w list \<Rightarrow> ('w, 'm) lock_sys \<Rightarrow> bool" where
  "stuck prog ws s \<longleftrightarrow> list_all (\<lambda>w. lock_act prog w s = None) ws"

subsection \<open>The owner of a mutex\<close>

text \<open>What a thread holds after some operations.\<close>

fun held :: "'m lock_op list \<Rightarrow> 'm list \<Rightarrow> 'm list" where
  "held [] ms = ms"
| "held (Lock m # p) ms = held p (m # ms)"
| "held (Unlock m # p) ms = held p (removeAll m ms)"
| "held (Sleep # p) ms = held p ms"

lemma held_snoc: "held (p @ [a]) ms = held [a] (held p ms)"
  by (induction p ms rule: held.induct) auto

text \<open>A turn unlocks only what it has locked, and all of it.\<close>

definition balanced :: "'m lock_op list \<Rightarrow> bool" where
  "balanced p \<longleftrightarrow> p \<noteq> [] \<and> held p [] = [] \<and>
    list_all (\<lambda>i. case p ! i of Unlock m \<Rightarrow> m \<in> set (held (take i p) []) | _ \<Rightarrow> True) [0..<length p]"

definition lock_inv :: "('w \<Rightarrow> 'm lock_op list) \<Rightarrow> ('w, 'm) lock_sys \<Rightarrow> bool" where
  "lock_inv prog s \<longleftrightarrow> (\<forall>w. balanced (prog w) \<and> pc s w < length (prog w)) \<and>
    (\<forall>m w. owner s m = Some w \<longleftrightarrow> m \<in> set (held (take (pc s w) (prog w)) []))"

lemma held_next:
  assumes "balanced (prog w)" "pc s w < length (prog w)"
  shows "held (take (pc (advance prog w s) w) (prog w)) [] = held [prog w ! pc s w] (held (take (pc s w) (prog w)) [])"
proof -
  have n: "held (take (pc s w + 1) (prog w)) [] = held [prog w ! pc s w] (held (take (pc s w) (prog w)) [])"
    using assms(2) by (simp add: take_Suc_conv_app_nth held_snoc)
  show ?thesis
  proof (cases "pc s w + 1 = length (prog w)")
    case True
    then have "held (take (pc s w + 1) (prog w)) [] = []" using assms(1) by (simp add: balanced_def)
    then show ?thesis using n True by (simp add: advance_def)
  next
    case False
    then show ?thesis using n assms(2) by (simp add: advance_def)
  qed
qed

lemma lock_act_inv:
  assumes inv: "lock_inv prog s" and act: "lock_act prog w s = Some t"
  shows "lock_inv prog t"
proof -
  let ?a = "prog w ! pc s w"
  have b: "balanced (prog v)" "pc s v < length (prog v)" for v using inv by (simp_all add: lock_inv_def)
  have own: "owner s m = Some v \<longleftrightarrow> m \<in> set (held (take (pc s v) (prog v)) [])" for m v
    using inv by (simp add: lock_inv_def)
  have pc: "pc t = pc (advance prog w s)"
    using act by (auto simp: lock_act_def advance_def split: lock_op.splits if_splits)
  have others: "pc t v = pc s v" if "v \<noteq> w" for v using that by (simp add: pc advance_def)
  have mine: "held (take (pc t w) (prog w)) [] = held [?a] (held (take (pc s w) (prog w)) [])"
    unfolding pc by (rule held_next [OF b])
  have "owner t m = Some v \<longleftrightarrow> m \<in> set (held (take (pc t v) (prog v)) [])" for m v
  proof (cases ?a)
    case (Lock k)
    then have "owner s k = None" "owner t = (owner s)(k := Some w)"
      using act by (auto simp: lock_act_def advance_def split: if_splits)
    then show ?thesis using own [of m v] own [of k v] mine others [of v] Lock by (cases "v = w") auto
  next
    case (Unlock k)
    then have "owner t = (owner s)(k := None)" using act by (auto simp: lock_act_def advance_def)
    moreover have "owner s k = Some w"
      using b [of w] Unlock own [of k w] by (auto simp: balanced_def list_all_iff dest!: bspec [of _ _ "pc s w"])
    ultimately show ?thesis using own [of m v] mine others [of v] Unlock by (cases "v = w"; cases "m = k") auto
  next
    case Sleep
    then have "owner t = owner s" using act by (auto simp: lock_act_def advance_def)
    then show ?thesis using own [of m v] mine others [of v] Sleep by (cases "v = w") auto
  qed
  moreover have "pc t v < length (prog v)" for v
    using b [of v] others [of v] by (cases "v = w") (auto simp: pc advance_def balanced_def)
  ultimately show ?thesis using b by (simp add: lock_inv_def)
qed

interpretation lock_sys: invariant_system "acts (lock_act prog)" "lock_inv prog" for prog
  by unfold_locales (auto simp: acts_def intro: lock_act_inv)

lemma lock_inv_start: "(\<And>w. balanced (prog w)) \<Longrightarrow> lock_inv prog all_start"
  by (simp add: lock_inv_def all_start_def) (simp add: balanced_def)

lemmas locks_reached = lock_sys.reaches_inv [OF _ lock_inv_start]

lemma stuck_waits: "stuck prog ws s \<Longrightarrow> w \<in> set ws \<Longrightarrow> \<exists>m v. prog w ! pc s w = Lock m \<and> owner s m = Some v"
proof -
  assume "stuck prog ws s" "w \<in> set ws"
  then have "lock_act prog w s = None" by (simp add: stuck_def list_all_iff)
  then show ?thesis by (auto simp: lock_act_def split: lock_op.splits if_splits)
qed

subsection \<open>The programs\<close>

datatype worker = Func1 | Func2 | Func3
datatype mutex = Value1 | Value2 | Value3

text \<open>\<open>strace/code/main.c\<close>\<close>

fun thread_func :: "worker \<Rightarrow> mutex lock_op list" where
  "thread_func Func1 = [Lock Value1, Lock Value2, Unlock Value2, Unlock Value1, Sleep]"
| "thread_func Func2 = [Lock Value2, Sleep, Lock Value3, Unlock Value3, Unlock Value2, Sleep]"
| "thread_func Func3 = [Lock Value3, Sleep, Lock Value1, Unlock Value1, Unlock Value3, Sleep]"

definition workers :: "worker list" where "workers = [Func1, Func2, Func3]"

text \<open>\<open>pstack/code/main.c\<close>: printing is no operation on mutexes.\<close>

definition routine :: "worker \<Rightarrow> unit lock_op list" where
  "routine w = [Lock (), Unlock (), Sleep]"

lemma thread_func_balanced: "balanced (thread_func w)"
proof -
  have "balanced (thread_func Func1)" "balanced (thread_func Func2)" "balanced (thread_func Func3)" by code_simp+
  then show ?thesis by (cases w) simp_all
qed

lemma routine_balanced: "balanced (routine w)"
  by (simp add: routine_def balanced_def upt_rec)

lemma thread_func_stuck:
  assumes "rtranclp (acts (lock_act thread_func)) all_start s" "stuck thread_func workers s"
  shows "pc s Func1 = 1 \<and> pc s Func2 = 2 \<and> pc s Func3 = 2"
proof -
  have inv: "lock_inv thread_func s" using locks_reached [OF assms(1) thread_func_balanced] .
  have len: "pc s w < length (thread_func w)" for w using inv by (simp add: lock_inv_def)
  have own: "owner s m = Some w \<longleftrightarrow> m \<in> set (held (take (pc s w) (thread_func w)) [])" for m w
    using inv by (simp add: lock_inv_def)
  have wait: "\<exists>m v. thread_func w ! pc s w = Lock m \<and> m \<in> set (held (take (pc s v) (thread_func v)) [])" for w
    using stuck_waits [OF assms(2), of w] own by (cases w) (fastforce simp: workers_def)+
  have p1: "pc s Func1 = 0 \<or> pc s Func1 = 1" and p2: "pc s Func2 = 0 \<or> pc s Func2 = 2"
    and p3: "pc s Func3 = 0 \<or> pc s Func3 = 2"
    using wait [of Func1] wait [of Func2] wait [of Func3] len [of Func1] len [of Func2] len [of Func3]
    by (auto simp: less_Suc_eq numeral_eq_Suc nth_Cons')
  have all: "P Func1 \<or> P Func2 \<or> P Func3" if "\<exists>v. P v" for P using that by (metis worker.exhaust)
  show ?thesis
    using p1 p2 p3 wait [of Func1] wait [of Func2] wait [of Func3]
    by (auto dest!: all simp: numeral_2_eq_2)
qed

end
