(* ===== verification/Stack_Stock.thy ===== *)
theory Stack_Stock
  imports Nptl_System
begin

text \<open>
  What the pool of stacks promises its clients. The \<open>stock\<close> of the library is two lists of
  stacks with their sizes: the ones in the cache and the ones lent to threads. Creating a thread
  lends the smallest free stack that fits, unless it is more than four times as large as asked
  for, or a fresh one (\<open>lends\<close>); joining a thread puts its stack at the head of the free ones
  (\<open>taken_back\<close>). The lemmas \<open>create_lends\<close> and \<open>join_takes_back\<close> show that \<open>pthread_create\<close> and
  \<open>pthread_join\<close> do exactly that, on a library all of whose free stacks belong to threads that have
  ended, and that both return: what they need of the kernel are the hypotheses \<open>kernel_serves\<close>.
\<close>

subsection \<open>The stock\<close>

type_synonym stock = "(u64 \<times> u64) list \<times> (u64 \<times> u64) list"

definition sized :: "nptl \<Rightarrow> u64 \<Rightarrow> u64 \<times> u64" where
  "sized s p = (p, pd_stackblock_size (pds s p))"

definition stock :: "nptl \<Rightarrow> stock" where
  "stock s = (map (sized s) (stack_cache s), map (sized s) (stack_used s))"

definition pick :: "u64 \<Rightarrow> (u64 \<times> u64) list \<Rightarrow> (u64 \<times> u64) option" where
  "pick n free =
    (let c = filter (\<lambda>b. n \<le> snd b) free; b = arg_min_list snd c
     in if c = [] \<or> snd b > 4 * n then None else Some b)"

definition lends :: "u64 \<Rightarrow> stock \<Rightarrow> u64 \<Rightarrow> stock \<Rightarrow> bool" where
  "lends n st p st' \<longleftrightarrow>
    (case pick n (fst st) of
       Some b \<Rightarrow> p = fst b \<and> st' = (remove1 b (fst st), b # snd st)
     | None \<Rightarrow> p \<notin> fst ` (set (fst st) \<union> set (snd st)) \<and> st' = (fst st, (p, n) # snd st))"

definition taken_back :: "u64 \<Rightarrow> stock \<Rightarrow> stock" where
  "taken_back p st =
    (filter (\<lambda>b. fst b = p) (snd st) @ fst st, filter (\<lambda>b. fst b \<noteq> p) (snd st))"

lemma sized_sel [simp]: "fst (sized s p) = p" "snd (sized s p) = pd_stackblock_size (pds s p)"
  by (simp_all add: sized_def)

lemma sized_inj: "inj (sized s)"
  by (rule injI) (simp add: sized_def)

lemma arg_min_list_map: "xs \<noteq> [] \<Longrightarrow> arg_min_list f (map g xs) = g (arg_min_list (\<lambda>x. f (g x)) xs)"
proof (induction xs)
  case (Cons x xs)
  then show ?case by (cases xs) (simp_all add: Let_def)
qed simp

text \<open>On a cache whose stacks are all free, \<open>pick\<close> is the best fit of the search.\<close>

lemma pick_best_fit:
  assumes "\<forall>p \<in> set (stack_cache s). FREE_P (pds s p)"
  shows "pick n (fst (stock s)) =
    (case best_fit (pds s) n (stack_cache s) of
       None \<Rightarrow> None
     | Some p \<Rightarrow> if pd_stackblock_size (pds s p) > 4 * n then None else Some (sized s p))"
proof -
  let ?c = "candidates (pds s) n (stack_cache s)"
  have c: "filter (\<lambda>b. n \<le> snd b) (fst (stock s)) = map (sized s) ?c"
    using assms by (simp add: stock_def candidates_def filter_map comp_def cong: filter_cong)
  show ?thesis
  proof (cases "?c = []")
    case True
    then show ?thesis using c by (simp add: pick_def best_fit_def)
  next
    case False
    then show ?thesis using c by (simp add: pick_def best_fit_def Let_def arg_min_list_map)
  qed
qed

lemma remove1_sized: "remove1 (sized s p) (map (sized s) xs) = map (sized s) (remove1 p xs)"
  by (induction xs) (auto simp: sized_def)

lemma map_sized_cong:
  "(\<And>p. p \<in> set xs \<Longrightarrow> pd_stackblock_size (pds t p) = pd_stackblock_size (pds s p)) \<Longrightarrow>
    map (sized t) xs = map (sized s) xs"
  by (simp add: sized_def)

lemma same_pool_stock: "same_pool s t \<Longrightarrow> stock t = stock s"
  by (simp add: stock_def same_pool_def same_block_def sized_def)

subsection \<open>What the kernel is relied on for\<close>

text \<open>
  \<open>regular\<close> describes the mappings the kernel has handed out so far. As long as there are fewer
  than \<open>n\<close> of them it finds a place for up to 16 MB, apart from the others and from the
  descriptor of the initial thread; protections can be changed and memory be unmapped, and there
  is room for the TLS blocks.
\<close>

definition kernel_serves :: "kern \<Rightarrow> u64 \<Rightarrow> ((u64 \<rightharpoonup> u64) \<Rightarrow> bool) \<Rightarrow> nat \<Rightarrow> bool" where
  "kernel_serves k self regular n \<longleftrightarrow>
    (\<forall>m sz. regular m \<and> card (dom m) < n \<and> sz \<le> 0x1000000 \<longrightarrow> (\<exists>mem. sys_mmap k m sz = Inr mem)) \<and>
    (\<forall>m sz mem. regular m \<and> sys_mmap k m sz = Inr mem \<longrightarrow>
       mem \<noteq> 0 \<and> unat mem + unat sz < 2 ^ 47 \<and> mem \<notin> dom m \<and> regular (m(mem \<mapsto> sz)) \<and>
       \<not> in_range mem sz self \<and> (\<forall>b l. m b = Some l \<longrightarrow> disjoint_ranges mem sz b l)) \<and>
    (\<forall>b l p. sys_mprotect k b l p = None) \<and> munmap_ok k \<and> (\<forall>pd. \<exists>d. dl_allocate_tls k pd = Inr d)"

lemma kernel_servesD:
  assumes "kernel_serves k self regular n"
  shows "munmap_ok k" "sys_mprotect k b l p = None" "race_ok k x1 x2"
    "\<exists>d. dl_allocate_tls k pd = Inr d"
    "regular m \<Longrightarrow> card (dom m) < n \<Longrightarrow> sz \<le> 0x1000000 \<Longrightarrow> \<exists>mem. sys_mmap k m sz = Inr mem"
    "regular m \<Longrightarrow> sys_mmap k m sz = Inr mem \<Longrightarrow>
       mem \<noteq> 0 \<and> unat mem + unat sz < 2 ^ 47 \<and> mem \<notin> dom m \<and> regular (m(mem \<mapsto> sz)) \<and>
       \<not> in_range mem sz self \<and> (\<forall>b l. m b = Some l \<longrightarrow> disjoint_ranges mem sz b l)"
  using assms by (simp_all add: kernel_serves_def race_ok_def)

lemma kernel_serves_env:
  assumes "kernel_serves k self regular n" "platform_ok k" "regular (maps s)" "stack_user s = []"
  shows "alloc_env_ok k x1 x2 s"
  using assms kernel_servesD [OF assms(1)] by (simp add: alloc_env_ok_def kernel_ok_def mmap_ok_def)

lemma mprotect_serves:
  assumes "kernel_serves k self regular n"
  shows "mprotect k b l p s = (None, s\<lparr>prots := (\<lambda>a. if in_range b l a then p else prots s a)\<rparr>)"
  using kernel_servesD(2) [OF assms] by (simp add: mprotect_def)

lemma map_stack_serves:
  assumes ks: "kernel_serves k self regular n" and k: "platform_ok k"
    and m: "sys_mmap k (maps s) sz = Inr mem" "mem \<noteq> 0"
  shows "\<exists>t. map_stack k x1 x2 sz g s = Some (Inr (place_descriptor k mem sz, mem, sz), t)"
proof -
  obtain d where d: "dl_allocate_tls k (place_descriptor k mem sz) = Inr d"
    using kernel_servesD(4) [OF ks] by blast
  have mpa: "multi_page_aliasing k = 0" using k by (simp add: platform_ok_def)
  show ?thesis
    by (simp add: map_stack_def Let_def mpa m d setup_stack_prot_def recheck_perm_def
        change_stack_perm_def mprotect_serves [OF ks])
qed

subsection \<open>A block from the cache or a fresh one\<close>

lemma not_in_stock: "p \<notin> fst ` (set (fst (stock s)) \<union> set (snd (stock s))) \<longleftrightarrow> p \<notin> set (sys_stacks s)"
  by (simp add: stock_def sys_stacks_def image_image image_Un)

lemma obtain_block_serves:
  assumes ks: "kernel_serves k self regular n" and k: "platform_ok k"
    and s: "regular (maps s)" "card (dom (maps s)) < n" and sz: "sz \<le> 0x1000000"
  shows "\<exists>x t. obtain_block k x1 x2 sz g s = Some (Inr x, t)"
proof (cases "get_cached_stack k sz s")
  case (Pair r t)
  show ?thesis
  proof (cases r)
    case None
    have "maps t = maps s" using get_cached_stack_None(1) [of k sz s t] Pair None by (simp add: same_pool_def)
    moreover obtain mem where "sys_mmap k (maps s) sz = Inr mem"
      using kernel_servesD(5) [OF ks s sz] by blast
    moreover have "mem \<noteq> 0" using kernel_servesD(6) [OF ks s(1) calculation(2)] by simp
    ultimately show ?thesis
      using map_stack_serves [OF ks k, of t sz mem x1 x2 g] Pair None by (auto simp: obtain_block_def)
  next
    case (Some y)
    then show ?thesis using Pair by (cases y) (simp add: obtain_block_def)
  qed
qed

text \<open>The two ways a block is lent: from the cache, and fresh.\<close>

lemma cached_lends:
  assumes inv: "pool_inv s" and free: "\<forall>p \<in> set (stack_cache s). FREE_P (pds s p)"
    and r: "get_cached_stack k sz s = (Some (p, n, mem), t)"
  shows "lends sz (stock s) p (stock t)" "p \<in> set (sys_stacks s)" "pd_cancelhandling (pds t p) = {}"
    "maps t = maps s" "stack_user t = remove1 p (stack_user s)" "set (stack_cache t) \<subseteq> set (stack_cache s)"
proof -
  note g = get_cached_stack_Some [OF r]
  note b = best_fitD(1) [OF g(1)]
  have nu: "remove1 p (stack_used s) = stack_used s"
    using inv b(1) by (auto simp: pool_inv_def intro!: remove1_idem)
  have f: "stack_cache t = remove1 p (stack_cache s)" "stack_used t = p # remove1 p (stack_used s)"
    using g(5) by simp_all
  have sized: "sized t = sized s" using g(5) by (auto simp: sized_def fun_eq_iff)
  have "stock t = (remove1 (sized s p) (fst (stock s)), sized s p # snd (stock s))"
    using f by (simp add: stock_def sized nu remove1_sized)
  moreover have "\<not> pd_stackblock_size (pds s p) > 4 * sz" using g(2,4) by simp
  ultimately show "lends sz (stock s) p (stock t)"
    using g(1) by (simp add: lends_def pick_best_fit [OF free])
  show "p \<in> set (sys_stacks s)" using b by (simp add: sys_stacks_def)
  show "set (stack_cache t) \<subseteq> set (stack_cache s)" using f(1) by (auto dest: set_mp [OF set_remove1_subset])
  show "pd_cancelhandling (pds t p) = {}" "maps t = maps s" "stack_user t = remove1 p (stack_user s)"
    using g(5) by simp_all
qed

lemma fresh_block:
  assumes k: "platform_ok k" and ks: "kernel_serves k self regular n"
    and s: "pool_inv s" "stack_user s = []" "regular (maps s)"
    and rs: "round_sizes k attr sz0 = Some (Inr (sz, g))"
    and m: "sys_mmap k (maps s) sz = Inr mem"
  shows "place_descriptor k mem sz \<notin> set (sys_stacks s)" "place_descriptor k mem sz \<noteq> 0"
    "place_descriptor k mem sz \<noteq> self"
proof -
  let ?p = "place_descriptor k mem sz"
  note sv = kernel_servesD(6) [OF ks s(3) m]
  have b: "unat sz < 2 ^ 47" "unat mem + unat sz < 2 ^ 64" using sv by simp_all
  have pd: "in_range mem sz ?p"
    by (rule place_descriptor_bounds(3) [OF k b(2) round_sizes_room(2) [OF rs k b(1)]])
  show "?p \<notin> set (sys_stacks s)" using not_on_lists [OF s(1) pd] sv s(2) by (simp add: sys_stacks_def)
  show "?p \<noteq> self" using pd sv by auto
  show "?p \<noteq> 0"
  proof
    assume "?p = 0"
    then have "unat mem = 0" using pd in_range_nat [OF b(2)] by simp
    then show False using sv by (simp add: unat_eq_zero)
  qed
qed

lemma fresh_lends:
  assumes k: "platform_ok k" and ks: "kernel_serves k self regular n"
    and s: "pool_inv s" "stack_user s = []" "regular (maps s)" "pick sz (fst (stock s)) = None"
    and rs: "round_sizes k attr sz0 = Some (Inr (sz, g))"
    and r: "map_stack k x1 x2 sz g s = Some (Inr (p, mem, bs), t)"
  shows "lends sz (stock s) p (stock t)" "p \<noteq> 0" "p \<noteq> self" "pd_cancelhandling (pds t p) = {}"
    "regular (maps t)" "stack_user t = []" "stack_cache t = stack_cache s"
proof -
  have env: "munmap_ok k" using kernel_servesD [OF ks] by simp
  have "lends sz (stock s) p (stock t) \<and> p \<noteq> 0 \<and> p \<noteq> self \<and> pd_cancelhandling (pds t p) = {} \<and>
      regular (maps t) \<and> stack_user t = [] \<and> stack_cache t = stack_cache s"
    using k env r
  proof (cases rule: map_stack_cases)
    case (mapped m q)
    note new = fresh_block [OF k ks s(1-3) rs mapped(2), folded mapped(3)]
    have q: "q = p" using mapped(1) by simp
    have "pd_stackblock_size (pds t x) = pd_stackblock_size (pds s x)" if "x \<in> set (sys_stacks s)" for x
      using new(1) that mapped(8) by metis
    then have "stock t = (fst (stock s), (q, sz) # snd (stock s))"
      using mapped(5,10,11) by (simp add: stock_def sys_stacks_def sized_def)
    then have "lends sz (stock s) q (stock t)" using new(1) by (simp add: lends_def s(4) not_in_stock)
    moreover have "regular (maps t)"
      unfolding mapped(14) using kernel_servesD(6) [OF ks s(3) mapped(2)] by blast
    moreover have "pd_cancelhandling (pds t q) = {}" by (subst mapped(17)) (simp add: zero_pthread_def)
    ultimately show ?thesis using new(2,3) mapped(10,12) s(2) q by simp
  qed simp_all
  then show "lends sz (stock s) p (stock t)" "p \<noteq> 0" "p \<noteq> self" "pd_cancelhandling (pds t p) = {}"
    "regular (maps t)" "stack_user t = []" "stack_cache t = stack_cache s"
    by simp_all
qed

lemma obtain_block_lends:
  assumes inv: "pool_inv s" and free: "\<forall>p \<in> set (stack_cache s). FREE_P (pds s p)"
    and u: "stack_user s = []" and k: "platform_ok k" and ks: "kernel_serves k self regular n"
    and reg: "regular (maps s)" and rs: "round_sizes k attr sz0 = Some (Inr (sz, g))"
    and r: "obtain_block k x1 x2 sz g s = Some (Inr (pd, mem, bs), t)"
  shows "lends sz (stock s) pd (stock t)" "regular (maps t)" "pd_cancelhandling (pds t pd) = {}"
    "\<And>q. q \<notin> set (sys_stacks s) \<Longrightarrow> q = self \<or> q = 0 \<Longrightarrow> pd \<noteq> q" "stack_user t = []"
    "set (stack_cache t) \<subseteq> set (stack_cache s)"
proof -
  have "lends sz (stock s) pd (stock t) \<and> regular (maps t) \<and> pd_cancelhandling (pds t pd) = {} \<and>
    (\<forall>q. q \<notin> set (sys_stacks s) \<longrightarrow> q = self \<or> q = 0 \<longrightarrow> pd \<noteq> q) \<and> stack_user t = [] \<and>
    set (stack_cache t) \<subseteq> set (stack_cache s)"
    using r
  proof (cases rule: obtain_block_cases)
    case (cached p)
    then show ?thesis using cached_lends [OF inv free cached(1)] reg u by auto
  next
    case (fresh v)
    have v: "maps v = maps s" "stack_user v = []" "stack_cache v = stack_cache s"
      using fresh(2) u by (simp_all add: same_pool_def)
    have "pick sz (fst (stock s)) = None"
      using get_cached_stack_miss [of k sz s] fresh(1)
      by (auto simp: pick_best_fit [OF free] split: option.split)
    then have miss: "pick sz (fst (stock v)) = None" using same_pool_stock [OF fresh(2)] by simp
    have iv: "pool_inv v" by (rule same_pool_inv [OF fresh(2) inv])
    have rv: "regular (maps v)" using reg v(1) by simp
    from fresh_lends [OF k ks iv v(2) rv miss rs fresh(4)] show ?thesis
      using same_pool_stock [OF fresh(2)] v(3) by auto
  qed
  then show "lends sz (stock s) pd (stock t)" "regular (maps t)" "pd_cancelhandling (pds t pd) = {}"
    "\<And>q. q \<notin> set (sys_stacks s) \<Longrightarrow> q = self \<or> q = 0 \<Longrightarrow> pd \<noteq> q" "stack_user t = []"
    "set (stack_cache t) \<subseteq> set (stack_cache s)"
    by auto
qed

subsection \<open>A settled library\<close>

text \<open>
  What holds between the calls of a program whose threads are joinable and end by themselves. The
  stacks in the cache belong to threads that have ended; nobody has joined the others yet. The
  limits are the ones the library starts with: 40 MB for the cache, 8 MB for a stack.
\<close>

definition settled :: "u64 \<Rightarrow> ((u64 \<rightharpoonup> u64) \<Rightarrow> bool) \<Rightarrow> nptl \<Rightarrow> bool" where
  "settled self regular s \<longleftrightarrow>
    pool_inv s \<and> stack_user s = [] \<and> regular (maps s) \<and>
    stack_cache_maxsize s = 0x2800000 \<and> default_stacksize s = 0x800000 \<and>
    (\<forall>p \<in> set (stack_cache s). FREE_P (pds s p)) \<and>
    (\<forall>p \<in> set (stack_used s). pd_joinid (pds s p) = 0 \<and>
       TERMINATED \<notin> pd_cancelhandling (pds s p) \<and> 0 \<le> pd_tid (pds s p)) \<and>
    self \<notin> set (sys_stacks s) \<and> 0 \<notin> set (sys_stacks s) \<and> pd_joinid (pds s self) = 0"

lemma settledD:
  assumes "settled self regular s"
  shows "pool_inv s" "stack_user s = []" "regular (maps s)" "stack_cache_maxsize s = 0x2800000"
    "default_stacksize s = 0x800000" "\<forall>p \<in> set (stack_cache s). FREE_P (pds s p)"
    "self \<notin> set (sys_stacks s)" "0 \<notin> set (sys_stacks s)" "pd_joinid (pds s self) = 0"
    "p \<in> set (stack_used s) \<Longrightarrow> pd_joinid (pds s p) = 0"
    "p \<in> set (stack_used s) \<Longrightarrow> TERMINATED \<notin> pd_cancelhandling (pds s p)"
    "p \<in> set (stack_used s) \<Longrightarrow> 0 \<le> pd_tid (pds s p)"
  using assms by (simp_all add: settled_def)

text \<open>
  What the threads and the rest of the program do between two calls: they leave the pool alone,
  and of the descriptors they change what is left open here; a thread may end.
\<close>

definition calm_step :: "u64 \<Rightarrow> nptl \<Rightarrow> nptl \<Rightarrow> bool" where
  "calm_step self s t \<longleftrightarrow>
    same_pool s t \<and> stack_cache_maxsize t = stack_cache_maxsize s \<and>
    default_stacksize t = default_stacksize s \<and>
    (\<forall>p. pd_joinid (pds t p) = pd_joinid (pds s p) \<and>
       pd_cancelhandling (pds t p) \<inter> {TERMINATED} = pd_cancelhandling (pds s p) \<inter> {TERMINATED} \<and>
       (pd_tid (pds t p) = pd_tid (pds s p) \<or> pd_tid (pds t p) = 0))"

lemma calm_step_settled:
  assumes "calm_step self s t" "settled self regular s"
  shows "settled self regular t" "stock t = stock s"
proof -
  note c = assms(1) [unfolded calm_step_def]
  have sp: "same_pool s t" using c by simp
  then show "stock t = stock s" by (rule same_pool_stock)
  have tm: "TERMINATED \<in> pd_cancelhandling (pds t p) \<longleftrightarrow> TERMINATED \<in> pd_cancelhandling (pds s p)" for p
    using c by blast
  have td: "pd_tid (pds t p) = pd_tid (pds s p) \<or> pd_tid (pds t p) = 0" for p using c by simp
  have "FREE_P (pds t p)" if "FREE_P (pds s p)" for p
    using td [of p] that by (auto simp: FREE_P_def)
  moreover have "0 \<le> pd_tid (pds t p)" if "0 \<le> pd_tid (pds s p)" for p using td [of p] that by auto
  moreover have "stack_cache t = stack_cache s" "stack_used t = stack_used s" "stack_user t = stack_user s"
    "maps t = maps s" using sp by (simp_all add: same_pool_def)
  moreover have "pool_inv t" by (rule same_pool_inv [OF sp settledD(1) [OF assms(2)]])
  ultimately show "settled self regular t"
    using assms(2) c tm by (simp add: settled_def sys_stacks_def)
qed

lemma settled_card:
  assumes "settled self regular s"
  shows "card (dom (maps s)) \<le> length (fst (stock s)) + length (snd (stock s))"
proof -
  have "dom (maps s) = (\<lambda>p. pd_stackblock (pds s p)) ` set (sys_stacks s)"
    using settledD(1) [OF assms] by (simp add: pool_inv_def)
  then have "card (dom (maps s)) \<le> card (set (sys_stacks s))" by (simp add: card_image_le)
  also have "\<dots> \<le> length (sys_stacks s)" by (rule card_length)
  finally show ?thesis by (simp add: sys_stacks_def stock_def)
qed

subsection \<open>Allocation and creation\<close>

lemma resize_guard_serves:
  assumes "kernel_serves k self regular n"
  shows "fst (resize_guard k p pd mem bs sz g s) = None"
  by (simp add: resize_guard_def Let_def mprotect_serves [OF assms])

text \<open>The part of an allocation that concerns the stock.\<close>

lemma allocate_stack_lends:
  assumes st: "settled self regular s" and k: "platform_ok k" and ks: "kernel_serves k self regular n"
    and few: "length (fst (stock s)) + length (snd (stock s)) < n"
    and a: "ATTR_STACKADDR \<notin> at_flags attr"
    and rs: "round_sizes k attr (fst (stack_size_of attr s)) = Some (Inr (sz, g))" "sz \<le> 0x1000000"
  obtains pd t where "allocate_stack k x1 x2 attr s = Some (Inr (pd, stacktop_of k pd), t)"
    "lends sz (stock s) pd (stock t)" "regular (maps t)" "TERMINATED \<notin> pd_cancelhandling (pds t pd)"
    "pd \<noteq> self" "pd \<noteq> 0" "stack_user t = []" "set (stack_cache t) \<subseteq> set (stack_cache s)"
    "stack_used t = pd # stack_used s" "\<And>q. q \<noteq> pd \<Longrightarrow> pds t q = pds s q" "pool_inv t" "thread_frame s t"
proof -
  note S = settledD [OF st]
  let ?s = "snd (stack_size_of attr s)"
  note same = stack_size_of_same [where attr = attr and s = s]
  have eq: "pds ?s = pds s" "stack_cache ?s = stack_cache s" "stack_used ?s = stack_used s"
    by (simp_all add: stack_size_of_def Let_def)
  have stock: "stock ?s = stock s" by (rule same_pool_stock [OF same(1)])
  have inv: "pool_inv ?s" by (rule same_pool_inv [OF same(1) S(1)])
  have sys: "sys_stacks ?s = sys_stacks s" by (simp add: sys_stacks_def eq)
  have card: "card (dom (maps ?s)) < n" using settled_card [OF st] few by (simp add: same)
  have reg: "regular (maps ?s)" "stack_user ?s = []" using S by (simp_all add: same)
  obtain x u where "obtain_block k x1 x2 sz g ?s = Some (Inr x, u)"
    using obtain_block_serves [OF ks k reg(1) card rs(2)] by blast
  then obtain pd mem bs where o: "obtain_block k x1 x2 sz g ?s = Some (Inr (pd, mem, bs), u)"
    by (cases x) auto
  have free: "\<forall>p \<in> set (stack_cache ?s). FREE_P (pds ?s p)" using S(6) by (simp add: eq)
  note l = obtain_block_lends [OF inv free reg(2) k ks reg(1) rs(1) o]
  have env: "kernel_ok k ?s" by (rule alloc_env_kernel [OF kernel_serves_env [OF ks k reg]])
  note ob = obtain_block_spec [OF inv env o]
  obtain v where r: "resize_guard k (if x1 then PROT_RWX else PROT_RW) pd mem bs sz g u = (None, v)"
    using resize_guard_serves [OF ks] by (metis prod.collapse)
  have "pool_inv u" using obtain_block_inv [OF inv env rs(1) o] by simp
  then have old: "pd_guardsize (pds u pd) \<le> bs"
    using ob(1,3) by (auto simp: pool_inv_def sys_stacks_def guard_ok_def Let_def)
  note g = resize_guard_spec [OF kernel_servesD(1) [OF ks] r
      less_imp_le [OF round_sizes_bounds(5) [OF rs(1)]] ob(4) old]
  have can: "pd_cancelhandling (pds v pd) = pd_cancelhandling (pds u pd)"
    using resize_guard_cases [OF kernel_servesD(1) [OF ks] r]
    by cases auto
  define t where "t = init_lock_and_robust pd v"
  have t: "stack_cache t = stack_cache u" "stack_used t = stack_used u" "stack_user t = []" "maps t = maps u"
    "pds t = (pds v)(pd := (pds v pd)\<lparr>pd_lock := False, pd_list_op_pending := 0, pd_robust_list := pd\<rparr>)"
    using g l(5) by (simp_all add: t_def init_lock_and_robust_def)
  have "sized t = sized u" using g t by (auto simp: sized_def fun_eq_iff)
  then have stk: "stock t = stock u" using t by (simp add: stock_def)
  have al: "allocate_stack k x1 x2 attr s = Some (Inr (pd, stacktop_of k pd), t)"
    using k a
    by (simp add: allocate_stack_def platform_ok_def case_prod_beta allocate_system_stack_def rs o r t_def)
  show thesis
  proof (rule that [OF al])
    show "lends sz (stock s) pd (stock t)" using l(1) stk stock by simp
    show "regular (maps t)" using l(2) t by simp
    show "TERMINATED \<notin> pd_cancelhandling (pds t pd)" using l(3) can t by simp
    show "pd \<noteq> self" "pd \<noteq> 0" using l(4) S(7,8) sys by auto
    show "stack_user t = []" by (rule t(3))
    show "set (stack_cache t) \<subseteq> set (stack_cache s)" using l(6) t eq by simp
    show "stack_used t = pd # stack_used s" using ob(5) t eq by simp
    show "pds t q = pds s q" if "q \<noteq> pd" for q using that g(11) ob(7) t eq by simp
    show "pool_inv t"
      by (rule allocate_stack_keeps_inv [OF S(1) _ _ al])
        (use kernel_serves_env [OF ks k S(3,2)] a in auto)
    show "thread_frame s t" by (rule allocate_stack_frame [OF al])
  qed
qed

text \<open>Everything a call of the kernel can refuse a new thread is granted.\<close>

definition clone_serves :: "thread_ops \<Rightarrow> bool" where
  "clone_serves ops \<longleftrightarrow> ops_ok ops \<and> (\<forall>pd stktop s. \<exists>tid. op_clone ops pd stktop s = Inr tid \<and> 0 < tid)"

definition plain_attr :: "kern \<Rightarrow> pthread_attr \<Rightarrow> bool" where
  "plain_attr k a \<longleftrightarrow>
    at_flags a = {} \<and> at_extension a = None \<and> at_guardsize a = pagesize_m1 k + 1"

lemma create_thread_serves:
  assumes "plain_attr k a"
    and "op_clone ops pd stktop (if b then upd_pd pd (\<lambda>p. p\<lparr>pd_lock := True\<rparr>)
      (upd_pd pd (\<lambda>p. p\<lparr>pd_stopped_start := b\<rparr>) s) else upd_pd pd (\<lambda>p. p\<lparr>pd_stopped_start := b\<rparr>) s) = Inr tid"
  shows "create_thread ops pd (Some a) b stktop s =
    Some (None, b, True, upd_pd pd (\<lambda>p. p\<lparr>pd_tid := tid\<rparr>) (if b then upd_pd pd (\<lambda>p. p\<lparr>pd_lock := True\<rparr>)
      (upd_pd pd (\<lambda>p. p\<lparr>pd_stopped_start := b\<rparr>) s) else upd_pd pd (\<lambda>p. p\<lparr>pd_stopped_start := b\<rparr>) s))"
  using assms by (cases b) (simp_all add: create_thread_def Let_def plain_attr_def set_attributes_def)

text \<open>The changes a launch makes to the descriptors, with the report to the debugger or without.\<close>

definition launched :: "bool \<Rightarrow> int \<Rightarrow> int set \<Rightarrow> u64 \<Rightarrow> u64 \<Rightarrow> nptl \<Rightarrow> nptl" where
  "launched b tid sg self pd s =
    (let s = upd_pd pd (\<lambda>p. p\<lparr>pd_stopped_start := b\<rparr>) s;
         s = (if b then upd_pd pd (\<lambda>p. p\<lparr>pd_lock := True\<rparr>) s else s);
         s = upd_pd pd (\<lambda>p. p\<lparr>pd_tid := tid\<rparr>) s;
         s = (if b then enqueue_event TD_CREATE pd s else s);
         s = s\<lparr>self_sigmask := sg\<rparr>;
         s = (if b then upd_pd pd (\<lambda>p. p\<lparr>pd_lock := False\<rparr>) s else s)
     in upd_pd self (\<lambda>p. p\<lparr>pd_multiple_threads := True\<rparr>) s)"

lemma launched_pool: "same_pool s (launched b tid sg self pd s)"
  by (cases b) (simp_all add: launched_def Let_def same_pool_def same_block_def enqueue_event_def)

lemma launched_sel [simp]:
  "stack_cache_maxsize (launched b tid sg self pd s) = stack_cache_maxsize s"
  "default_stacksize (launched b tid sg self pd s) = default_stacksize s"
  "pd_joinid (pds (launched b tid sg self pd s) q) = pd_joinid (pds s q)"
  "pd_cancelhandling (pds (launched b tid sg self pd s) q) = pd_cancelhandling (pds s q)"
  "pd_tid (pds (launched b tid sg self pd s) q) = (if q = pd then tid else pd_tid (pds s q))"
  by (cases b; simp add: launched_def Let_def enqueue_event_def)+

lemma launch_thread_serves:
  assumes "clone_serves ops" "plain_attr k a"
  obtains b tid where "0 < tid" "launch_thread k ops self a pd stktop s =
    Some (None, launched b tid (self_sigmask s) self pd (init_sigmask ops a (self_sigmask s) pd
      (s\<lparr>nptl_nthreads := nptl_nthreads s + 1, self_sigmask := UNIV\<rparr>)))"
proof -
  let ?s = "init_sigmask ops a (self_sigmask s) pd
    (s\<lparr>nptl_nthreads := nptl_nthreads s + 1, self_sigmask := UNIV\<rparr>)"
  define b where "b = report_thread_creation self pd ?s"
  let ?u = "upd_pd pd (\<lambda>p. p\<lparr>pd_stopped_start := b\<rparr>) ?s"
  let ?v = "if b then upd_pd pd (\<lambda>p. p\<lparr>pd_lock := True\<rparr>) ?u else ?u"
  obtain tid where tid: "op_clone ops pd stktop ?v = Inr tid" "0 < tid"
    using assms(1) unfolding clone_serves_def by blast
  note c = create_thread_serves [OF assms(2) tid(1)]
  have "launch_thread k ops self a pd stktop s = Some (None, launched b tid (self_sigmask s) self pd ?s)"
    using c by (cases b) (simp_all add: launch_thread_def Let_def b_def [symmetric] launched_def)
  then show thesis using tid(2) that by blast
qed

text \<open>
  Creating a thread on a settled library lends one stack and succeeds, whether a cached stack fits
  or a fresh one is mapped.
\<close>

lemma create_lends:
  assumes st: "settled self regular s" and k: "platform_ok k" and ks: "kernel_serves k self regular n"
    and ops: "clone_serves ops" and few: "length (fst (stock s)) + length (snd (stock s)) < n"
    and eff: "effective_attr ops attr s = (Inr a, u)" "calm_step self s u" and pa: "plain_attr k a"
    and rs: "round_sizes k a (fst (stack_size_of a u)) = Some (Inr (sz, g))" "sz \<le> 0x1000000"
  obtains p t where "pthread_create_2_1 k ops x1 x2 self attr f x s = Some (None, Some p, t)"
    "lends sz (stock s) p (stock t)" "settled self regular t"
proof -
  note cu = calm_step_settled [OF eff(2) st]
  note S = settledD [OF cu(1)]
  have a: "ATTR_STACKADDR \<notin> at_flags a" using pa by (simp add: plain_attr_def)
  have few': "length (fst (stock u)) + length (snd (stock u)) < n" using few cu(2) by simp
  obtain p v where al: "allocate_stack k x1 x2 a u = Some (Inr (p, stacktop_of k p), v)"
    and v: "lends sz (stock u) p (stock v)" "regular (maps v)" "TERMINATED \<notin> pd_cancelhandling (pds v p)"
      "p \<noteq> self" "p \<noteq> 0" "stack_user v = []" "set (stack_cache v) \<subseteq> set (stack_cache u)"
      "stack_used v = p # stack_used u" "\<And>q. q \<noteq> p \<Longrightarrow> pds v q = pds u q" "pool_inv v" "thread_frame u v"
    using allocate_stack_lends [where ?x1.0 = x1 and ?x2.0 = x2, OF cu(1) k ks few' a rs] by metis
  define w where "w = init_tcb self a f x (attr = ATTR_C11_THREAD) p v"
  have isch: "init_sched ops a p w = w" using pa by (simp add: init_sched_def plain_attr_def)
  let ?y = "init_sigmask ops a (self_sigmask w) p (w\<lparr>nptl_nthreads := nptl_nthreads w + 1, self_sigmask := UNIV\<rparr>)"
  obtain b tid where la: "0 < tid" "launch_thread k ops self a p (stacktop_of k p) w =
      Some (None, launched b tid (self_sigmask w) self p ?y)"
    using launch_thread_serves [OF ops pa] by blast
  define t where "t = launched b tid (self_sigmask w) self p ?y"
  have "same_pool v w" by (simp add: w_def)
  moreover have "same_pool w ?y" by (rule same_pool_trans [OF _ init_sigmask_pool]) simp
  ultimately have wy: "same_pool v ?y" by (rule same_pool_trans)
  have vt: "same_pool v t" unfolding t_def by (rule same_pool_trans [OF wy launched_pool])
  have create: "pthread_create_2_1 k ops x1 x2 self attr f x s = Some (None, Some p, t)"
  proof -
    have "attr_destroy a t = t" using pa by (simp add: attr_destroy_def plain_attr_def)
    then show ?thesis using eff(1) al la(2) isch
      by (cases attr) (auto simp: pthread_create_2_1_def effective_attr_def Let_def w_def t_def)
  qed
  have lists: "stack_cache t = stack_cache v" "stack_used t = p # stack_used u" "stack_user t = []"
    "maps t = maps v" using vt v by (simp_all add: same_pool_def)
  have pdt: "pd_joinid (pds t q) = (if q = p then 0 else pd_joinid (pds u q))"
    "TERMINATED \<in> pd_cancelhandling (pds t q) \<longleftrightarrow> q \<noteq> p \<and> TERMINATED \<in> pd_cancelhandling (pds u q)"
    "pd_tid (pds t q) = (if q = p then tid else pd_tid (pds u q))" for q
    using v(3,9) pa by (auto simp: t_def w_def init_tcb_def init_sigmask_def plain_attr_def Let_def)
  have inv: "pool_inv t" by (rule same_pool_inv [OF vt v(10)])
  have new: "p \<notin> set (stack_cache v)" using v(8,10) by (auto simp: pool_inv_def)
  have lim: "stack_cache_maxsize t = 0x2800000" "default_stacksize t = 0x800000"
    using v(11) S(4,5) by (simp_all add: t_def w_def init_tcb_def init_sigmask_def thread_frame_def Let_def)
  have "FREE_P (pds t q)" if "q \<in> set (stack_cache t)" for q
  proof -
    have "q \<noteq> p" "q \<in> set (stack_cache u)" using that lists(1) new v(7) by auto
    then show ?thesis using S(6) pdt(3) [of q] by (simp add: FREE_P_def)
  qed
  moreover have "self \<notin> set (sys_stacks t)" "0 \<notin> set (sys_stacks t)"
    using S(7,8) v(4,5,7) lists by (auto simp: sys_stacks_def)
  ultimately have "settled self regular t"
    using inv lim lists S v(2,4) la(1) pdt by (simp add: settled_def)
  moreover have "lends sz (stock s) p (stock t)"
    using v(1) same_pool_stock [OF vt] cu(2) by simp
  ultimately show thesis using that create by blast
qed

subsection \<open>Joining\<close>

definition join_tests_ok :: "join_ops \<Rightarrow> bool" where
  "join_tests_ok jo \<longleftrightarrow> (\<forall>d. 0 \<le> pd_tid d \<longrightarrow> \<not> jo_invalid_not_terminated jo d)"

lemma filter_eq_distinct: "distinct xs \<Longrightarrow> p \<in> set xs \<Longrightarrow> filter (\<lambda>q. q = p) xs = [p]"
  by (induction xs) (auto simp: filter_empty_conv)

lemma free_tcb_frees:
  assumes "TERMINATED \<notin> pd_cancelhandling (pds s p)" "p \<in> set (stack_used s)"
  obtains t where "free_tcb k ops p s = deallocate_stack k p t" "same_pool s t"
    "\<And>q. pd_joinid (pds t q) = pd_joinid (pds s q)" "\<And>q. pd_tid (pds t q) = pd_tid (pds s q)"
    "\<And>q. q \<noteq> p \<Longrightarrow> pds t q = pds s q" "stack_cache_maxsize t = stack_cache_maxsize s"
    "default_stacksize t = default_stacksize s"
proof -
  define u where "u = upd_pd p (\<lambda>d. d\<lparr>pd_cancelhandling := insert TERMINATED (pd_cancelhandling d)\<rparr>) s"
  define v where "v = (if op_debugging ops then unlock_cache (lock_cache u) else u)"
  define t where "t = (if pd_tpp (pds v p) \<noteq> 0
    then free_ptr (pd_tpp (pds v p)) (upd_pd p (\<lambda>d. d\<lparr>pd_tpp := 0\<rparr>) v) else v)"
  have v: "(if op_debugging ops then find_in_stack_list p u else (Some p, u)) = (Some p, v)"
    using assms(2) by (simp add: v_def u_def find_in_stack_list_eq)
  have eq: "free_tcb k ops p s = deallocate_stack k p t"
    using assms(1) v by (simp add: free_tcb_def u_def [symmetric] t_def Let_def)
  have pv: "pds v = pds u" "stack_cache_maxsize v = stack_cache_maxsize s"
    "default_stacksize v = default_stacksize s"
    by (simp_all add: v_def u_def lock_cache_def unlock_cache_def)
  have sv: "same_pool s v" by (auto simp: v_def u_def)
  have st: "same_pool s t" using sv by (auto simp: t_def)
  show thesis
    by (rule that [OF eq st]) (auto simp: t_def pv u_def free_ptr_def)
qed

text \<open>The stack goes to the head of the cache, as there is room for it.\<close>

lemma deallocate_takes_back:
  assumes inv: "pool_inv x" and p: "p \<in> set (stack_used x)" and u: "stack_user x = []"
    and room: "sum_list (map snd (fst (stock x))) + pd_stackblock_size (pds x p) \<le> stack_cache_maxsize x"
  obtains t where "deallocate_stack k p x = Some t" "stock t = taken_back p (stock x)" "pool_inv t"
    "stack_cache t = p # stack_cache x" "stack_used t = filter (\<lambda>q. q \<noteq> p) (stack_used x)"
    "stack_user t = []" "maps t = maps x" "pds t = pds x" "stack_cache_maxsize t = stack_cache_maxsize x"
    "default_stacksize t = default_stacksize x"
proof -
  define t where "t = unlock_cache (queued p (lock_cache x))"
  have ub: "\<not> pd_user_stack (pds x p)"
    using inv p by (auto simp: pool_inv_def sys_stacks_def block_ok_def Let_def)
  have "stack_cache_actsize x = sum_list (map snd (fst (stock x)))"
    using inv by (simp add: pool_inv_def stock_def comp_def)
  then have de: "deallocate_stack k p x = Some t"
    unfolding t_def by (intro deallocate_stack_cached [OF ub]) (use room in simp)
  have px: "p \<notin> set (stack_cache x)" using p inv by (auto simp: pool_inv_def)
  have lists: "stack_cache t = p # stack_cache x" "stack_used t = filter (\<lambda>q. q \<noteq> p) (stack_used x)"
    "stack_user t = []" "maps t = maps x" "pds t = pds x"
    using px inv u
    by (simp_all add: t_def remove1_idem distinct_remove1_removeAll removeAll_filter_not_eq pool_inv_def
        eq_commute [of p])
  have "sized t = sized x" using lists by (simp add: sized_def fun_eq_iff)
  moreover have "filter (\<lambda>q. q = p) (stack_used x) = [p]"
    using p inv by (simp add: pool_inv_def filter_eq_distinct)
  ultimately have stk: "stock t = taken_back p (stock x)"
    using lists by (auto simp: taken_back_def stock_def filter_map comp_def)
  have lim: "stack_cache_maxsize t = stack_cache_maxsize x" "default_stacksize t = default_stacksize x"
    by (simp_all add: t_def queued_def lock_cache_def unlock_cache_def stack_list_del_def
        stack_list_add_def Let_def)
  show thesis
    by (rule that [OF de stk _ lists lim]) (use deallocate_stack_inv [OF inv _ de] p in simp)
qed

text \<open>What a join does once the thread has ended.\<close>

lemma free_joined:
  assumes st: "settled self regular u" and p: "p \<in> set (stack_used u)"
    and room: "sum_list (map snd (fst (stock u))) + pd_stackblock_size (pds u p) \<le> 0x2800000"
  obtains t where "free_tcb k ops p (upd_pd p (\<lambda>d. d\<lparr>pd_tid := - 1\<rparr>) u) = Some t"
    "stock t = taken_back p (stock u)" "settled self regular t"
proof -
  note U = settledD [OF st]
  let ?v = "upd_pd p (\<lambda>d. d\<lparr>pd_tid := - 1\<rparr>) u"
  have v: "TERMINATED \<notin> pd_cancelhandling (pds ?v p)" "p \<in> set (stack_used ?v)" using U(11) [OF p] p by simp_all
  obtain x where x: "free_tcb k ops p ?v = deallocate_stack k p x" "same_pool ?v x"
    "\<And>q. pd_joinid (pds x q) = pd_joinid (pds ?v q)" "\<And>q. pd_tid (pds x q) = pd_tid (pds ?v q)"
    "\<And>q. q \<noteq> p \<Longrightarrow> pds x q = pds ?v q" "stack_cache_maxsize x = stack_cache_maxsize ?v"
    "default_stacksize x = default_stacksize ?v"
    using free_tcb_frees [OF v] by metis
  have ux: "same_pool u x" by (rule same_pool_trans [OF _ x(2)]) auto
  note xf = ux [unfolded same_pool_def same_block_def] and stk = same_pool_stock [OF ux]
  have px: "p \<in> set (stack_used x)" "stack_user x = []" using xf p U(2) by simp_all
  have rx: "sum_list (map snd (fst (stock x))) + pd_stackblock_size (pds x p) \<le> stack_cache_maxsize x"
    using room stk x(6) U(4) xf by simp
  obtain t where t: "deallocate_stack k p x = Some t" "stock t = taken_back p (stock x)" "pool_inv t"
    "stack_cache t = p # stack_cache x" "stack_used t = filter (\<lambda>q. q \<noteq> p) (stack_used x)"
    "stack_user t = []" "maps t = maps x" "pds t = pds x" "stack_cache_maxsize t = stack_cache_maxsize x"
    "default_stacksize t = default_stacksize x"
    using deallocate_takes_back [OF same_pool_inv [OF ux U(1)] px rx] by metis
  have "FREE_P (pds t q)" if "q \<in> set (stack_cache t)" for q
    using that U(6) x(4) [of q] t(4,8) xf by (auto simp: FREE_P_def split: if_splits)
  moreover have "stack_cache x = stack_cache u" "stack_used x = stack_used u" using xf by simp_all
  then have "set (sys_stacks t) = set (sys_stacks u)" using t(4,5) px(1) by (auto simp: sys_stacks_def)
  moreover have "pd_joinid (pds t q) = pd_joinid (pds u q)" for q using x(3) t(8) by simp
  moreover have "pds t q = pds u q" if "q \<noteq> p" for q using x(5) that t(8) by simp
  ultimately have "settled self regular t"
    using t x(6,7) st xf by (auto simp: settled_def)
  then show thesis using that [of t] x(1) t(1,2) stk by simp
qed

lemma join_register_idle:
  assumes "pd_joinid (pds s p) = 0" "self \<noteq> 0"
  shows "join_register spurious self p s = (False, s)"
proof -
  have "(pds s p)\<lparr>pd_joinid := 0\<rparr> = pds s p"
    using assms(1) pthread.surjective [of "pds s p"] by (metis pthread.update_convs(13))
  then have "s\<lparr>pds := (pds s)(p := (pds s p)\<lparr>pd_joinid := 0\<rparr>)\<rparr> = s" by simp
  then show ?thesis using assms by (simp add: join_register_eq upd_pd_def)
qed

text \<open>
  A join of a thread that comes to its end returns and gives the stack back: \<open>u\<close> is the state in
  which the wait is over.
\<close>

lemma join_takes_back:
  assumes st: "settled self regular s" and p: "p \<in> set (stack_used s)" and jo: "join_tests_ok jo"
    and w: "join_wait p evs s = Some (Returns None, u)" "calm_step self s u" and self: "self \<noteq> 0"
    and room: "sum_list (map snd (fst (stock s))) + pd_stackblock_size (pds s p) \<le> 0x2800000"
  obtains t where "pthread_join k ops jo spurious self p tr evs s =
      Some (Returns None, if tr then Some (pd_result (pds u p)) else None, t)"
    "stock t = taken_back p (stock s)" "settled self regular t"
proof -
  note S = settledD [OF st] and cu = calm_step_settled [OF w(2) st]
  have pu: "p \<in> set (stack_used u)" "pd_stackblock_size (pds u p) = pd_stackblock_size (pds s p)"
    using w(2) p by (simp_all add: calm_step_def same_pool_def same_block_def)
  have ne: "p \<noteq> self" "p \<noteq> 0" using p S(7,8) by (auto simp: sys_stacks_def)
  have "sum_list (map snd (fst (stock u))) + pd_stackblock_size (pds u p) \<le> 0x2800000"
    using room cu(2) pu(2) by simp
  then obtain t where t: "free_tcb k ops p (upd_pd p (\<lambda>d. d\<lparr>pd_tid := - 1\<rparr>) u) = Some t"
    "stock t = taken_back p (stock u)" "settled self regular t"
    using free_joined [OF cu(1) pu(1)] by metis
  have "pthread_join k ops jo spurious self p tr evs s =
      Some (Returns None, if tr then Some (pd_result (pds u p)) else None, t)"
    using S(9) S(10) [OF p] S(12) [OF p] ne jo w(1) t(1) join_register_idle [OF S(10) [OF p] self]
    by (simp add: pthread_join_def clockjoin_ex_def join_tests_ok_def join_deadlock_def)
  then show thesis using that t(2,3) cu(2) by simp
qed

end
