(* ===== verification/Stack_Cache_Test.thy ===== *)
theory Stack_Cache_Test
  imports Stack_Stock
begin

text \<open>
  The programs \<open>main.c\<close> and \<open>test_stack_cache.c\<close> of \<open>Memory/HiddenOOM/ThreadStackLeaked/code\<close>, run
  on the thread library of the sibling theories. A program is the list of its calls, \<open>run_calls\<close>
  runs them one after the other; before each call the other threads take a step, and a join sees
  the joined thread end. \<open>te_self\<close> is the descriptor of the initial thread; the attribute functions whose
  code is not in the repository are fields of \<open>test_env\<close> too. \<open>promise\<close> computes what such a program
  may rely on from the stock of stacks alone, and the locale \<open>stack_lender\<close>, interpreted on the
  library, transfers it to the run.
\<close>

record test_env =
  te_kern :: kern
  te_ops :: thread_ops
  te_join :: join_ops
  te_attr_init :: pthread_attr
  te_set_detached :: "pthread_attr \<Rightarrow> pthread_attr"
  te_set_stacksize :: "pthread_attr \<Rightarrow> u64 \<Rightarrow> pthread_attr"
  te_self :: u64
  te_exec :: bool
  te_others :: "nat \<Rightarrow> nptl \<Rightarrow> nptl"
  te_ends :: "u64 \<Rightarrow> (timespec option \<times> wait_event) list"

subsection \<open>The program\<close>

definition pthread_spawn ::
    "test_env \<Rightarrow> u32 \<Rightarrow> u64 \<Rightarrow> u64 \<Rightarrow> nptl \<Rightarrow> (errno option \<times> u64 option \<times> nptl) option" where
  "pthread_spawn te flag start_routine arg s =
    (let attr = te_attr_init te;
         attr = (if flag AND 1 \<noteq> 0 then te_set_detached te attr else attr);
         attr = (if flag > 1 then te_set_stacksize te attr (ucast flag AND NOT 1) else attr)
     in pthread_create_2_1 (te_kern te) (te_ops te) (te_exec te) (te_exec te) (te_self te)
          (ATTR_USER attr) start_routine arg s)"

text \<open>
  What a thread prints: itself, the lowest address of its stack and the size of its stack.
  \<open>uninit\<close> is the attribute variable before \<open>pthread_getattr_np\<close>; \<open>pthread_attr_getstack\<close> reads the
  address and the size from the attribute.
\<close>

definition start_routine ::
    "kern \<Rightarrow> proc_env \<Rightarrow> (errno + pthread_attr) \<Rightarrow> (u64 \<Rightarrow> errno + 8 word list) \<Rightarrow> pthread_attr \<Rightarrow> u64
      \<Rightarrow> nptl \<Rightarrow> (u64 \<times> u64 \<times> u64) \<times> nptl" where
  "start_routine k pe attr_init getaff uninit thread s =
    (let (_, attr, s) = getattr_np k pe attr_init getaff thread s;
         attr = (case attr of Some a \<Rightarrow> a | None \<Rightarrow> uninit);
         stackaddr = at_stackaddr attr - at_stacksize attr; stacksize = at_stacksize attr;
         s = attr_destroy attr s
     in ((thread, stackaddr, stacksize), s))"

definition stacksizes :: "u32 list" where
  "stacksizes = [0, 128 * 1024, 512 * 1024, 2048 * 1024, 128 * 1024, 256 * 1024, 1024 * 1024, 0]"

datatype test_call = Create_default nat | Spawn nat | Join nat

text \<open>\<open>main\<close> of \<open>test_stack_cache.c\<close>, compiled with \<open>STACK_LEAK\<close> or without.\<close>

definition test_calls :: "bool \<Rightarrow> test_call list" where
  "test_calls stack_leak =
    (if \<not> stack_leak then map Spawn [0..<4] else Create_default 0 # map Spawn [1..<4]) @
    (if \<not> stack_leak then map Join [0..<4] else map Join [1..<4]) @
    map Spawn [4..<7] @ [Spawn 7] @ map Join [4..<8]"

text \<open>\<open>main\<close> of \<open>main.c\<close>, up to the loop that never ends.\<close>

definition leak_calls :: "test_call list" where
  "leak_calls = [Create_default 0]"

text \<open>
  One call; the array \<open>thread\<close> is a function, and the results of the calls are ignored. The routine has
  the address 1. On x86-64 the exchange in \<open>pthread_join\<close> does not fail spuriously.
\<close>

definition store_thread :: "nat \<Rightarrow> u64 option \<Rightarrow> (nat \<Rightarrow> u64) \<Rightarrow> nat \<Rightarrow> u64" where
  "store_thread i newthread th = (case newthread of Some p \<Rightarrow> th(i := p) | None \<Rightarrow> th)"

fun exec_call :: "test_env \<Rightarrow> test_call \<Rightarrow> (nat \<Rightarrow> u64) \<times> nptl \<Rightarrow> ((nat \<Rightarrow> u64) \<times> nptl) option" where
  "exec_call te (Create_default i) (th, s) =
    map_option (\<lambda>(_, newthread, s). (store_thread i newthread th, s))
      (pthread_create_2_1 (te_kern te) (te_ops te) (te_exec te) (te_exec te) (te_self te) ATTR_NULL 1 0 s)"
| "exec_call te (Spawn i) (th, s) =
    map_option (\<lambda>(_, newthread, s). (store_thread i newthread th, s))
      (pthread_spawn te (stacksizes ! i) 1 0 s)"
| "exec_call te (Join i) (th, s) =
    map_option (\<lambda>(_, _, s). (th, s))
      (pthread_join (te_kern te) (te_ops te) (te_join te) False (te_self te) (th i) True (te_ends te (th i)) s)"

text \<open>
  A run of such a program: before the \<open>n\<close>-th call the other threads take the step \<open>others n\<close>.
\<close>

fun run_calls ::
    "(test_call \<Rightarrow> (nat \<Rightarrow> u64) \<times> 's \<Rightarrow> ((nat \<Rightarrow> u64) \<times> 's) option) \<Rightarrow> (nat \<Rightarrow> 's \<Rightarrow> 's) \<Rightarrow> nat
      \<Rightarrow> test_call list \<Rightarrow> (nat \<Rightarrow> u64) \<times> 's \<Rightarrow> ((nat \<Rightarrow> u64) \<times> 's) option" where
  "run_calls exec others n [] st = Some st"
| "run_calls exec others n (c # cs) (th, s) =
    Option.bind (exec c (th, others n s)) (run_calls exec others (Suc n) cs)"

definition run_test :: "test_env \<Rightarrow> test_call list \<Rightarrow> (nat \<Rightarrow> u64) \<times> nptl \<Rightarrow> ((nat \<Rightarrow> u64) \<times> nptl) option" where
  "run_test te cs st = run_calls (exec_call te) (te_others te) 0 cs st"

subsection \<open>The same program on the stock\<close>

text \<open>The size of the block a call asks for, with its guard.\<close>

fun block_asked :: "test_call \<Rightarrow> u64" where
  "block_asked (Spawn i) =
    (if stacksizes ! i = 0 then 0x800000 else ucast (stacksizes ! i)) + 0x1000"
| "block_asked c = 0x801000"

text \<open>
  \<open>promise cs Q\<close>: whatever fresh stacks are lent, the calls \<open>cs\<close> find what they need and end in \<open>Q\<close>.
\<close>

fun promise :: "test_call list \<Rightarrow> ((nat \<Rightarrow> u64) \<Rightarrow> stock \<Rightarrow> bool) \<Rightarrow> (nat \<Rightarrow> u64) \<Rightarrow> stock \<Rightarrow> bool" where
  "promise [] Q th st = Q th st"
| "promise (Join i # cs) Q th st =
    (\<exists>m. map_of (snd st) (th i) = Some m \<and> sum_list (map snd (fst st)) + m \<le> 0x2800000 \<and>
       promise cs Q th (taken_back (th i) st))"
| "promise (Create_default i # cs) Q th st =
    (length (fst st) + length (snd st) < 5 \<and>
     (\<forall>p st'. lends (block_asked (Create_default i)) st p st' \<longrightarrow> promise cs Q (th(i := p)) st'))"
| "promise (Spawn i # cs) Q th st =
    (length (fst st) + length (snd st) < 5 \<and> stacksizes ! i \<in> {0, 0x20000, 0x40000, 0x80000, 0x100000, 0x200000} \<and>
     (\<forall>p st'. lends (block_asked (Spawn i)) st p st' \<longrightarrow> promise cs Q (th(i := p)) st'))"

text \<open>
  The contract between such a program and what runs it: a call lends or takes back what the stock
  says, and succeeds. The client's lemma carries a promise along the whole run.
\<close>

locale stack_lender =
  fixes ok :: "'s \<Rightarrow> bool" and stock_of :: "'s \<Rightarrow> stock"
    and exec :: "test_call \<Rightarrow> (nat \<Rightarrow> u64) \<times> 's \<Rightarrow> ((nat \<Rightarrow> u64) \<times> 's) option"
    and others :: "nat \<Rightarrow> 's \<Rightarrow> 's"
  assumes others_ok: "ok s \<Longrightarrow> ok (others n s) \<and> stock_of (others n s) = stock_of s"
    and default_ok: "ok s \<Longrightarrow> length (fst (stock_of s)) + length (snd (stock_of s)) < 5 \<Longrightarrow>
      \<exists>p t. exec (Create_default i) (th, s) = Some (th(i := p), t) \<and>
        lends (block_asked (Create_default i)) (stock_of s) p (stock_of t) \<and> ok t"
    and spawn_ok: "ok s \<Longrightarrow> length (fst (stock_of s)) + length (snd (stock_of s)) < 5 \<Longrightarrow>
      stacksizes ! i \<in> {0, 0x20000, 0x40000, 0x80000, 0x100000, 0x200000} \<Longrightarrow>
      \<exists>p t. exec (Spawn i) (th, s) = Some (th(i := p), t) \<and>
        lends (block_asked (Spawn i)) (stock_of s) p (stock_of t) \<and> ok t"
    and join_ok: "ok s \<Longrightarrow> map_of (snd (stock_of s)) (th i) = Some m \<Longrightarrow>
      sum_list (map snd (fst (stock_of s))) + m \<le> 0x2800000 \<Longrightarrow>
      \<exists>t. exec (Join i) (th, s) = Some (th, t) \<and> stock_of t = taken_back (th i) (stock_of s) \<and> ok t"
begin

lemma run_keeps_promise:
  assumes "promise cs Q th (stock_of s)" "ok s"
  shows "\<exists>th' t. run_calls exec others n cs (th, s) = Some (th', t) \<and> Q th' (stock_of t) \<and> ok t"
  using assms
proof (induction cs arbitrary: n th s)
  case Nil
  then show ?case by simp
next
  case (Cons c cs)
  note o = others_ok [OF Cons.prems(2), of n]
  have step: "\<exists>th' t. run_calls exec others n (c # cs) (th, s) = Some (th', t) \<and> Q th' (stock_of t) \<and> ok t"
    if "exec c (th, others n s) = Some (th', t)" "promise cs Q th' (stock_of t)" "ok t" for th' t
    using Cons.IH [OF that(2,3)] that(1) by simp
  show ?case
  proof (cases c)
    case (Create_default i)
    with Cons.prems(1) o obtain p t where "exec c (th, others n s) = Some (th(i := p), t)"
      "lends (block_asked c) (stock_of s) p (stock_of t)" "ok t"
      using default_ok [of "others n s" i th] by auto
    with Cons.prems(1) show ?thesis using step unfolding Create_default promise.simps by blast
  next
    case (Spawn i)
    have few: "length (fst (stock_of s)) + length (snd (stock_of s)) < 5"
      and i: "stacksizes ! i \<in> {0, 0x20000, 0x40000, 0x80000, 0x100000, 0x200000}"
      using Cons.prems(1) unfolding Spawn promise.simps by blast+
    obtain p t where "exec c (th, others n s) = Some (th(i := p), t)"
      "lends (block_asked c) (stock_of s) p (stock_of t)" "ok t"
      using spawn_ok [of "others n s" i th] few i o unfolding Spawn by metis
    with Cons.prems(1) show ?thesis using step unfolding Spawn promise.simps by blast
  next
    case (Join i)
    with Cons.prems(1) obtain m where "map_of (snd (stock_of s)) (th i) = Some m"
      "sum_list (map snd (fst (stock_of s))) + m \<le> 0x2800000" "promise cs Q th (taken_back (th i) (stock_of s))"
      by auto
    with join_ok [of "others n s" th i m] o step show ?thesis unfolding Join by metis
  qed
qed

end

subsection \<open>The environment\<close>

definition platform_x86_64 :: "kern \<Rightarrow> bool" where
  "platform_x86_64 k \<longleftrightarrow>
    platform_ok k \<and> pagesize_m1 k = 0xFFF \<and> static_tls_align_m1 k = 0x3F \<and>
    static_tls_size k \<le> 0x10000 \<and> pthread_stack_min k \<le> 0x20000"

text \<open>
  The documented behaviour of the attribute functions, of the clone and the clock of the kernel, and
  threads that leave the pool alone and come to their end.
\<close>

definition test_env_ok :: "test_env \<Rightarrow> ((u64 \<rightharpoonup> u64) \<Rightarrow> bool) \<Rightarrow> bool" where
  "test_env_ok te regular \<longleftrightarrow>
    platform_x86_64 (te_kern te) \<and> kernel_serves (te_kern te) (te_self te) regular 5 \<and>
    clone_serves (te_ops te) \<and> join_tests_ok (te_join te) \<and> te_self te \<noteq> 0 \<and>
    plain_attr (te_kern te) (te_attr_init te) \<and> at_stacksize (te_attr_init te) = 0 \<and>
    (\<forall>a n. pthread_stack_min (te_kern te) \<le> n \<longrightarrow> te_set_stacksize te a n = a\<lparr>at_stacksize := n\<rparr>) \<and>
    (\<forall>s. \<exists>a u. op_getattr_default (te_ops te) s = (Inr a, u) \<and> plain_attr (te_kern te) a \<and>
       at_stacksize a = default_stacksize s \<and> calm_step (te_self te) s u) \<and>
    (\<forall>n s. calm_step (te_self te) s (te_others te n s)) \<and>
    (\<forall>p s. 0 \<le> pd_tid (pds s p) \<longrightarrow>
       (\<exists>u. join_wait p (te_ends te p) s = Some (Returns None, u) \<and> calm_step (te_self te) s u))"

lemma test_env_okD:
  assumes "test_env_ok te regular"
  shows "platform_x86_64 (te_kern te)" "kernel_serves (te_kern te) (te_self te) regular 5"
    "clone_serves (te_ops te)" "join_tests_ok (te_join te)" "te_self te \<noteq> 0"
    "plain_attr (te_kern te) (te_attr_init te)" "at_stacksize (te_attr_init te) = 0"
    "pthread_stack_min (te_kern te) \<le> n \<Longrightarrow> te_set_stacksize te a n = a\<lparr>at_stacksize := n\<rparr>"
    "\<exists>a u. op_getattr_default (te_ops te) s = (Inr a, u) \<and> plain_attr (te_kern te) a \<and>
       at_stacksize a = default_stacksize s \<and> calm_step (te_self te) s u"
    "calm_step (te_self te) s (te_others te m s)"
    "0 \<le> pd_tid (pds s p) \<Longrightarrow>
       \<exists>u. join_wait p (te_ends te p) s = Some (Returns None, u) \<and> calm_step (te_self te) s u"
  using assms by (simp_all add: test_env_ok_def)

lemma calm_step_trans: "calm_step self s t \<Longrightarrow> calm_step self t u \<Longrightarrow> calm_step self s u"
  unfolding calm_step_def by (metis same_pool_trans)

lemma calm_single_threaded: "calm_step self s (s\<lparr>libc_single_threaded := b\<rparr>)"
  by (simp add: calm_step_def)

lemma round_sizes_test:
  assumes k: "platform_x86_64 k" and a: "plain_attr k a"
    and sz: "sz \<in> {0x20000, 0x40000, 0x80000, 0x100000, 0x200000, 0x800000}"
  shows "round_sizes k a sz = Some (Inr (sz + 0x1000, 0x1000))"
proof -
  note c = k [unfolded platform_x86_64_def] a [unfolded plain_attr_def]
  have al: "sz AND NOT 0x3F = sz" "sz \<noteq> 0" "\<not> sz + 0x1000 < 0x1000" "0x21000 \<le> sz + 0x1000" using sz by auto
  have "(0x1000 + static_tls_size k + MINIMAL_REST_STACK + 0xFFF) AND NOT 0xFFF
      \<le> 0x1000 + static_tls_size k + MINIMAL_REST_STACK + 0xFFF" by (rule and_not_mask_le)
  also have "\<dots> = static_tls_size k + 0x2FFF" by (simp add: MINIMAL_REST_STACK_def)
  also have "\<dots> \<le> 0x12FFF"
  proof -
    have "unat (static_tls_size k) \<le> 0x10000" using c(1) by (simp add: word_le_nat_alt)
    then show ?thesis by (simp add: word_le_nat_alt unat_word_ariths)
  qed
  also have "\<dots> < sz + 0x1000" using sz by auto
  finally show ?thesis using c al by (simp add: round_sizes_def Let_def)
qed

lemma call_creates:
  assumes te: "test_env_ok te regular" and st: "settled (te_self te) regular s"
    and few: "length (fst (stock s)) + length (snd (stock s)) < 5"
    and eff: "effective_attr (te_ops te) attr s = (Inr a, u)" "calm_step (te_self te) s u"
    and pa: "plain_attr (te_kern te) a"
    and sz: "fst (stack_size_of a u) \<in> {0x20000, 0x40000, 0x80000, 0x100000, 0x200000, 0x800000}"
  obtains p t where "pthread_create_2_1 (te_kern te) (te_ops te) (te_exec te) (te_exec te) (te_self te) attr f x s =
      Some (None, Some p, t)"
    "lends (fst (stack_size_of a u) + 0x1000) (stock s) p (stock t)" "settled (te_self te) regular t"
proof -
  note T = test_env_okD [OF te]
  have k: "platform_ok (te_kern te)" using T(1) by (simp add: platform_x86_64_def)
  have le: "fst (stack_size_of a u) + 0x1000 \<le> 0x1000000" using sz by auto
  from create_lends [OF st k T(2,3) few eff pa round_sizes_test [OF T(1) pa sz] le] show thesis
    using that by blast
qed

subsection \<open>The run keeps the promise\<close>

lemma stack_size_of_calm:
  assumes "calm_step self s u" "settled self regular s"
  shows "fst (stack_size_of a u) = (if at_stacksize a = 0 then 0x800000 else at_stacksize a)"
  using settledD(5) [OF calm_step_settled(1) [OF assms]] by (simp add: stack_size_of_def Let_def)

lemma default_call:
  assumes te: "test_env_ok te regular" and st: "settled (te_self te) regular s"
    and few: "length (fst (stock s)) + length (snd (stock s)) < 5"
  obtains p t where "exec_call te (Create_default i) (th, s) = Some (th(i := p), t)"
    "lends (block_asked (Create_default i)) (stock s) p (stock t)" "settled (te_self te) regular t"
proof -
  let ?s = "s\<lparr>libc_single_threaded := False\<rparr>"
  obtain a u where a: "op_getattr_default (te_ops te) ?s = (Inr a, u)" "plain_attr (te_kern te) a"
    "at_stacksize a = default_stacksize ?s" "calm_step (te_self te) ?s u"
    using test_env_okD(9) [OF te] by blast
  have eff: "effective_attr (te_ops te) ATTR_NULL s = (Inr a, u)" using a(1) by (simp add: effective_attr_def)
  have calm: "calm_step (te_self te) s u" by (rule calm_step_trans [OF calm_single_threaded a(4)])
  have sz: "fst (stack_size_of a u) = 0x800000"
    using stack_size_of_calm [OF calm st] a(3) settledD(5) [OF st] by simp
  show thesis
    by (rule call_creates [OF te st few eff calm a(2), where f = 1 and x = 0])
      (use that sz in \<open>simp_all add: store_thread_def\<close>)
qed

lemma spawn_call:
  assumes te: "test_env_ok te regular" and st: "settled (te_self te) regular s"
    and few: "length (fst (stock s)) + length (snd (stock s)) < 5"
    and i: "stacksizes ! i \<in> {0, 0x20000, 0x40000, 0x80000, 0x100000, 0x200000}"
  obtains p t where "exec_call te (Spawn i) (th, s) = Some (th(i := p), t)"
    "lends (block_asked (Spawn i)) (stock s) p (stock t)" "settled (te_self te) regular t"
proof -
  note T = test_env_okD [OF te]
  let ?f = "stacksizes ! i"
  define a where "a = (if ?f = 0 then te_attr_init te else (te_attr_init te)\<lparr>at_stacksize := ucast ?f\<rparr>)"
  have "pthread_stack_min (te_kern te) \<le> ucast ?f" if "?f \<noteq> 0"
  proof -
    have "(0x20000 :: u64) \<le> ucast ?f" using i that by auto
    with T(1) show ?thesis unfolding platform_x86_64_def by (blast intro: order.trans)
  qed
  then have set: "te_set_stacksize te (te_attr_init te) (ucast ?f) = a" if "?f \<noteq> 0"
    using T(8) that by (simp add: a_def)
  have "(ucast ?f :: u64) AND NOT 1 = ucast ?f" "?f AND 1 = 0" "?f \<noteq> 0 \<longrightarrow> 1 < ?f" using i by auto
  then have eq: "pthread_spawn te ?f 1 0 s = pthread_create_2_1 (te_kern te) (te_ops te) (te_exec te) (te_exec te)
      (te_self te) (ATTR_USER a) 1 0 s"
    using set by (cases "?f = 0") (simp_all add: pthread_spawn_def Let_def a_def)
  have pa: "plain_attr (te_kern te) a" using T(6) by (simp add: a_def plain_attr_def)
  have eff: "effective_attr (te_ops te) (ATTR_USER a) s = (Inr a, s\<lparr>libc_single_threaded := False\<rparr>)"
    by (simp add: effective_attr_def)
  have as: "at_stacksize a = ucast ?f" using T(7) by (simp add: a_def)
  have sz: "fst (stack_size_of a (s\<lparr>libc_single_threaded := False\<rparr>)) = (if ?f = 0 then 0x800000 else ucast ?f)"
    using stack_size_of_calm [OF calm_single_threaded st, of a False] i as by auto
  have "fst (stack_size_of a (s\<lparr>libc_single_threaded := False\<rparr>))
      \<in> {0x20000, 0x40000, 0x80000, 0x100000, 0x200000, 0x800000}"
    unfolding sz using i by auto
  from call_creates [OF te st few eff calm_single_threaded pa this, where f = 1 and x = 0] obtain p t
    where "pthread_spawn te ?f 1 0 s = Some (None, Some p, t)"
      "lends (block_asked (Spawn i)) (stock s) p (stock t)" "settled (te_self te) regular t"
    unfolding eq sz by auto
  then show thesis using that by (simp add: store_thread_def)
qed

lemma join_call:
  assumes te: "test_env_ok te regular" and st: "settled (te_self te) regular s"
    and m: "map_of (snd (stock s)) (th i) = Some m" "sum_list (map snd (fst (stock s))) + m \<le> 0x2800000"
  obtains t where "exec_call te (Join i) (th, s) = Some (th, t)"
    "stock t = taken_back (th i) (stock s)" "settled (te_self te) regular t"
proof -
  note T = test_env_okD [OF te]
  have p: "th i \<in> set (stack_used s)" "m = pd_stackblock_size (pds s (th i))"
    using map_of_SomeD [OF m(1)] by (auto simp: stock_def sized_def)
  obtain u where u: "join_wait (th i) (te_ends te (th i)) s = Some (Returns None, u)"
    "calm_step (te_self te) s u" using T(11) settledD(12) [OF st p(1)] by blast
  have room: "sum_list (map snd (fst (stock s))) + pd_stackblock_size (pds s (th i)) \<le> 0x2800000"
    using m(2) p(2) by simp
  from join_takes_back [OF st p(1) T(4) u T(5) room, where k = "te_kern te" and ops = "te_ops te" and tr = True
      and spurious = False] show thesis
    using that by fastforce
qed

interpretation lender: stack_lender "\<lambda>s. test_env_ok te regular \<and> settled (te_self te) regular s" stock
    "exec_call te" "te_others te" for te regular
proof unfold_locales
  fix s n i and th :: "nat \<Rightarrow> u64"
  assume ok: "test_env_ok te regular \<and> settled (te_self te) regular s"
  show "(test_env_ok te regular \<and> settled (te_self te) regular (te_others te n s)) \<and>
      stock (te_others te n s) = stock s"
    using ok calm_step_settled test_env_okD(10) by blast
  assume few: "length (fst (stock s)) + length (snd (stock s)) < 5"
  show "\<exists>p t. exec_call te (Create_default i) (th, s) = Some (th(i := p), t) \<and>
      lends (block_asked (Create_default i)) (stock s) p (stock t) \<and>
      test_env_ok te regular \<and> settled (te_self te) regular t"
    using default_call ok few by metis
  assume "stacksizes ! i \<in> {0, 0x20000, 0x40000, 0x80000, 0x100000, 0x200000}"
  then show "\<exists>p t. exec_call te (Spawn i) (th, s) = Some (th(i := p), t) \<and>
      lends (block_asked (Spawn i)) (stock s) p (stock t) \<and>
      test_env_ok te regular \<and> settled (te_self te) regular t"
    using spawn_call ok few by metis
next
  fix s i m and th :: "nat \<Rightarrow> u64"
  assume "test_env_ok te regular \<and> settled (te_self te) regular s"
    "map_of (snd (stock s)) (th i) = Some m" "sum_list (map snd (fst (stock s))) + m \<le> 0x2800000"
  then show "\<exists>t. exec_call te (Join i) (th, s) = Some (th, t) \<and> stock t = taken_back (th i) (stock s) \<and>
      test_env_ok te regular \<and> settled (te_self te) regular t"
    using join_call by metis
qed

subsection \<open>The routine of the threads\<close>

text \<open>
  A thread of the test touches the heap and the lock of its own descriptor only, so that it may run
  at any time; and it prints the stack above its guard.
\<close>

definition heap_step :: "nptl \<Rightarrow> nptl \<Rightarrow> bool" where
  "heap_step s t \<longleftrightarrow>
    pds t = pds s \<and> same_pool s t \<and> stack_cache_maxsize t = stack_cache_maxsize s \<and>
    default_stacksize t = default_stacksize s"

lemma heap_step_simps [simp]:
  "heap_step s s" "heap_step s (free_ptr q t) = heap_step s t"
  "heap_step s (t\<lparr>bytes_at := b\<rparr>) = heap_step s t" "heap_step s (t\<lparr>mallocs := m\<rparr>) = heap_step s t"
  "heap_step s (attr_destroy a t) = heap_step s t"
  by (simp_all add: heap_step_def same_pool_def free_ptr_def attr_destroy_def split: option.split)

lemma heap_step_allocs:
  "malloc k n s = (r, t) \<Longrightarrow> heap_step s t" "realloc k q n s = (r, t) \<Longrightarrow> heap_step s t"
  by (auto simp: malloc_def realloc_def split: option.splits if_splits)

lemma heap_step_trans: "heap_step s t \<Longrightarrow> heap_step t u \<Longrightarrow> heap_step s u"
  unfolding heap_step_def by (metis same_pool_trans)

lemma affinity_loop_heap: "affinity_loop k getaff i c s = (r, n, c', t) \<Longrightarrow> heap_step s t"
proof (induction k getaff i c s rule: affinity_loop.induct)
  case (1 k getaff i c s)
  obtain p u where p: "realloc k c (of_nat (32 * 2 ^ i)) s = (p, u)" by fastforce
  note u = heap_step_allocs(2) [OF p]
  show ?case
  proof (cases p)
    case None
    then show ?thesis using "1.prems" p u by (simp add: affinity_loop.simps [of k getaff i c s])
  next
    case (Some q)
    show ?thesis
    proof (cases "\<exists>e. getaff (of_nat (32 * 2 ^ i)) = Inl e \<and> e = EINVAL \<and> 32 * 2 ^ i < (1024 * 1024 :: nat)")
      case True
      then have "affinity_loop k getaff (Suc i) q u = (r, n, c', t)"
        using "1.prems" p Some by (simp add: affinity_loop.simps [of k getaff i c s])
      from "1.IH" [OF refl p [symmetric] Some _ _ this] True u show ?thesis
        by (auto intro: heap_step_trans)
    next
      case False
      then show ?thesis using "1.prems" p Some u
        by (auto simp: affinity_loop.simps [of k getaff i c s] Let_def split: sum.splits if_splits)
    qed
  qed
qed

lemma getattr_cpuset_heap:
  assumes "getattr_cpuset k getaff a s = (r, b, t)" shows "heap_step s t"
proof -
  have sa: "heap_step u v" if "attr_setaffinity k x n c u = (q, y, v)" for x n c u q y v
    using that
    by (auto simp: attr_setaffinity_def attr_extension_def store_cpuset_def Let_def
        split: if_splits option.splits prod.splits
        dest!: heap_step_allocs intro: heap_step_trans)
  obtain q n c u where u: "affinity_loop k getaff 0 0 s = (q, n, c, u)" by (metis prod_cases4)
  show ?thesis using assms affinity_loop_heap [OF u] u
    by (auto simp: getattr_cpuset_def Let_def split: if_splits prod.splits
        dest!: sa intro: heap_step_trans)
qed

lemma start_routine_calm:
  "calm_step self s (snd (start_routine k pe attr_init getaff uninit thread s))"
proof (cases attr_init)
  case (Inl e)
  have "heap_step s (attr_destroy uninit s)" by simp
  then show ?thesis using Inl
    by (simp add: start_routine_def getattr_np_def calm_step_def heap_step_def)
next
  case (Inr a)
  let ?s = "upd_pd thread (\<lambda>p. p\<lparr>pd_lock := True\<rparr>) s"
  obtain q b where b: "getattr_base pe a thread ?s = (q, b)" by fastforce
  obtain x c u where u: "(if q = None then getattr_cpuset k getaff b ?s else (q, b, ?s)) = (x, c, u)"
    by (metis prod_cases3)
  have "heap_step ?s u" using u by (auto split: if_splits dest: getattr_cpuset_heap)
  moreover obtain d v where "snd (start_routine k pe attr_init getaff uninit thread s) = attr_destroy d v"
    "heap_step (upd_pd thread (\<lambda>p. p\<lparr>pd_lock := False\<rparr>) u) v"
    using Inr b u by (cases "x = None"; cases "q = None") (auto simp: start_routine_def getattr_np_def Let_def)
  ultimately have w: "heap_step ?s u" "heap_step (upd_pd thread (\<lambda>p. p\<lparr>pd_lock := False\<rparr>) u)
      (snd (start_routine k pe attr_init getaff uninit thread s))" by simp_all
  have "same_pool s ?s" "same_pool u (upd_pd thread (\<lambda>p. p\<lparr>pd_lock := False\<rparr>) u)" by auto
  then have "same_pool s (snd (start_routine k pe attr_init getaff uninit thread s))"
    using w unfolding heap_step_def by (blast intro: same_pool_trans)
  then show ?thesis using w by (auto simp: calm_step_def heap_step_def)
qed

text \<open>The size printed is the size of the block less the guard in force.\<close>

lemma start_routine_prints:
  assumes "getattr_np k pe (Inr a) getaff thread s = (None, Some b, t)" "pd_stackblock (pds s thread) \<noteq> 0"
  shows "fst (start_routine k pe (Inr a) getaff uninit thread s) =
    (thread, pd_stackblock (pds s thread) + pd_guardsize (pds s thread),
     pd_stackblock_size (pds s thread) - pd_guardsize (pds s thread))"
proof -
  note r = getattr_np_report [OF assms]
  have "at_stacksize b = at_stackaddr b - (at_stackaddr b - at_stacksize b)" by simp
  also have "\<dots> = pd_stackblock_size (pds s thread) - pd_guardsize (pds s thread)"
    unfolding r(2) unfolding r(1) by simp
  finally show ?thesis using r(2) assms(1) by (simp add: start_routine_def)
qed

subsection \<open>The two programs\<close>


text \<open>
  With all threads joined, the second round gets the stacks of the first: 128 KB the one of 128 KB,
  256 KB the one of 512 KB, 1 MB the one of 2 MB, and the default size the one of the default size.
  With \<open>STACK_LEAK\<close> the stack of the first thread is never seen again.
\<close>

lemma test_promise:
  "promise (test_calls leak) (\<lambda>th st. th 4 = th 1 \<and> th 5 = th 2 \<and> th 6 = th 3 \<and> (th 7 = th 0 \<longleftrightarrow> \<not> leak) \<and>
     st = ([(th 7, 0x801000), (th 3, 0x201000), (th 2, 0x81000), (th 1, 0x21000)],
           if leak then [(th 0, 0x801000)] else [])) th ([], [])"
proof (cases leak)
  case True
  then show ?thesis
    by (simp add: test_calls_def stacksizes_def lends_def pick_def taken_back_def upt_rec Let_def)
next
  case False
  then show ?thesis
    by (simp add: test_calls_def stacksizes_def lends_def pick_def taken_back_def upt_rec Let_def)
qed


text \<open>The thread of \<open>main.c\<close> keeps its stack: nothing in the program takes it back.\<close>

lemma leak_promise:
  "promise leak_calls (\<lambda>th st. st = ([], [(th 0, 0x801000)])) th ([], [])"
  by (simp add: leak_calls_def lends_def pick_def)

end
