(* ===== verification/Tool_Properties.thy ===== *)
theory Tool_Properties
  imports Move_Merge Lock_Cycle Stack_Cache_Test Nptl_Examples
begin

text \<open>
  The properties of the programs of the chapters on \<open>ltrace\<close>, \<open>strace\<close>, \<open>pstack\<close> and leaked thread stacks: \<open>move_dir\<close>,
  threads with mutexes, and the test of the cache of stacks.
\<close>

subsection \<open>Moving a directory\<close>

text \<open>The instance: two file systems, so that every \<open>rename\<close> fails, and links that lead to the name they have.\<close>

definition ex_env :: move_env where
  "ex_env = \<lparr>me_follow = (\<lambda>p t. p @ [t]), me_refuses = (\<lambda>c. case c of C_rename _ _ \<Rightarrow> True | _ \<Rightarrow> False),
    me_room = (\<lambda>p. 4), me_dir_size = 4096, me_umask = 18\<rparr>"

definition ex_files :: fsys where
  "ex_files = [([], Dir 493), ([''a''], Dir 493), ([''b''], Dir 493), ([''a'', ''f''], Reg 420 ''new''),
    ([''a'', ''sub''], Dir 493), ([''a'', ''sub'', ''g''], Reg 420 ''g''), ([''a'', ''l''], Lnk ''f''),
    ([''b'', ''f''], Reg 384 ''older''), ([''b'', ''h''], Reg 384 ''kept'')]"

lemma ex_env_calm: "only_renames_fail ex_env"
  by (simp add: only_renames_fail_def ex_env_def split: fs_call.splits)

text \<open>C32: \<open>move_dir\<close> moves everything: when the two directories lie apart and their entries fit together, it returns 0, the
  source is gone, and the target has what it had, with the entries of the source; a file of the same size is left
  alone. It does not matter which calls of \<open>rename\<close> succeed, nor in which order the entries come.\<close>

theorem move_dir_moves_everything:
  assumes "mergeable env s d fs" "only_renames_fail env"
  shows "\<exists>fs'. move_dir_ptr env (Some s) (Some d) fs = Some (0, fs') \<and> map_of fs' = merged (me_umask env) s d (map_of fs)"
proof -
  have "can_merge env s d fs"
    using assms mergeable_map_of by (simp add: can_merge_def) (simp add: mergeable_def)
  from move_dir_merges(1) [OF this] show ?thesis by (simp add: move_dir_ptr_def)
qed

theorem move_dir_moves_everything_witness:
  "\<exists>fs'. move_dir_ptr ex_env (Some [''a'']) (Some [''b'']) ex_files = Some (0, fs') \<and>
    map_of fs' [''b'', ''f''] = Some (Reg 420 ''new'') \<and> map_of fs' [''b'', ''sub'', ''g''] = Some (Reg 420 ''g'') \<and>
    map_of fs' [''b'', ''sub''] = Some (Dir 448) \<and> map_of fs' [''a''] = None"
proof -
  have m: "mergeable ex_env [''a''] [''b''] ex_files" by code_simp
  have v: "merged 18 [''a''] [''b''] (map_of ex_files) [''b'', ''f''] = Some (Reg 420 ''new'')"
    "merged 18 [''a''] [''b''] (map_of ex_files) [''b'', ''sub'', ''g''] = Some (Reg 420 ''g'')"
    "merged 18 [''a''] [''b''] (map_of ex_files) [''b'', ''sub''] = Some (Dir 448)"
    "merged 18 [''a''] [''b''] (map_of ex_files) [''a''] = None"
    by code_simp+
  have "me_umask ex_env = 18" by (simp add: ex_env_def)
  then show ?thesis using move_dir_moves_everything [OF m ex_env_calm] v by metis
qed

text \<open>C33: a directory with one file, when the target has nothing, a file, a directory or a socket under that name, but no symbolic
  link (which the code would follow), and no system call fails but \<open>rename\<close> and a copy that runs out of room:
  \<open>move_dir\<close> returns 0 and removes the source, but the file has arrived completely only if \<open>rename\<close> succeeded or there was room
  for a copy, and nothing was in its way: a directory stays, with the mode of the file, and anything of the same size
  stays.\<close>

theorem move_dir_one_file:
  assumes "fs_ok fs" "is_dir (map_of fs) s" "is_dir (map_of fs) d" "apart s d" "only_renames_fail env"
    and "fs_names s fs = [x]" "map_of fs (s @ [x]) = Some (Reg m c)" "\<forall>t. map_of fs (d @ [x]) \<noteq> Some (Lnk t)"
    and "x \<noteq> ''.''" "x \<noteq> ''..''" "length (path_text (s @ [x])) < 512" "length (path_text (d @ [x])) < 512"
  shows "\<exists>fs'. move_dir_ptr env (Some s) (Some d) fs = Some (0, fs') \<and> map_of fs' = (map_of fs)(s := None, s @ [x] := None,
    d @ [x] := (let there = (if me_refuses env (C_rename (s @ [x]) (d @ [x])) then take (me_room env (d @ [x])) c else c)
      in case map_of fs (d @ [x]) of
           None \<Rightarrow> Some (Reg m there)
         | Some old \<Rightarrow>
             if st_size env old = length c then Some old
             else (case old of Dir _ \<Rightarrow> Some (Dir m) | _ \<Rightarrow> Some (Reg m there))))"
proof -
  have "ready_to_move env s d fs" using assms(1-5) by (simp add: ready_to_move_def)
  from move_one_file [OF this assms(6-10) assms(11,12) [folded PATH_BUF_def]] assms(8) show ?thesis
    by (auto simp: move_dir_ptr_def arriving_def Let_def split: option.splits node.splits)
qed

theorem move_dir_one_file_witness:
  "\<exists>fs'. move_dir_ptr ex_env (Some [''a'']) (Some [''b''])
      [([], Dir 493), ([''a''], Dir 493), ([''b''], Dir 493), ([''a'', ''f''], Reg 420 ''contents'')] = Some (0, fs') \<and>
    map_of fs' [''b'', ''f''] = Some (Reg 420 ''cont'') \<and> map_of fs' [''a'', ''f''] = None"
proof -
  let ?fs = "[([], Dir 493), ([''a''], Dir 493), ([''b''], Dir 493), ([''a'', ''f''], Reg 420 ''contents'')] :: fsys"
  have h: "fs_ok ?fs" "is_dir (map_of ?fs) [''a'']" "is_dir (map_of ?fs) [''b'']" "apart [''a''] [''b'']"
    "fs_names [''a''] ?fs = [''f'']" "length (path_text ([''a''] @ [''f''])) < 512" "length (path_text ([''b''] @ [''f''])) < 512"
    by code_simp+
  have "me_refuses ex_env (C_rename p q)" "me_room ex_env p = 4" for p q by (simp_all add: ex_env_def)
  then obtain fs' where "move_dir_ptr ex_env (Some [''a'']) (Some [''b'']) ?fs = Some (0, fs')"
    "map_of fs' = (map_of ?fs)([''a''] := None, [''a'', ''f''] := None, [''b'', ''f''] \<mapsto> Reg 420 ''cont'')"
    using move_dir_one_file [of ?fs "[''a'']" "[''b'']" ex_env "''f''" 420 "''contents''"] h ex_env_calm
    by (auto simp: Let_def)
  then show ?thesis by simp
qed

subsection \<open>Threads that wait for each other\<close>

text \<open>C35: the three threads of \<open>strace/code/main.c\<close> can all wait at once, and only in one way: each of them waits for a mutex that the
  next one has, in a circle.\<close>

theorem strace_threads_deadlock:
  assumes "rtranclp (acts (lock_act thread_func)) all_start s"
  shows "stuck thread_func workers s \<longleftrightarrow>
    (thread_func Func1 ! pc s Func1 = Lock Value2 \<and> owner s Value2 = Some Func2) \<and>
    (thread_func Func2 ! pc s Func2 = Lock Value3 \<and> owner s Value3 = Some Func3) \<and>
    (thread_func Func3 ! pc s Func3 = Lock Value1 \<and> owner s Value1 = Some Func1)"
proof
  assume "stuck thread_func workers s"
  note p = thread_func_stuck [OF assms this]
  have "owner s m = Some w \<longleftrightarrow> m \<in> set (held (take (pc s w) (thread_func w)) [])" for m w
    using locks_reached [OF assms thread_func_balanced] by (simp add: lock_inv_def)
  then show "(thread_func Func1 ! pc s Func1 = Lock Value2 \<and> owner s Value2 = Some Func2) \<and>
    (thread_func Func2 ! pc s Func2 = Lock Value3 \<and> owner s Value3 = Some Func3) \<and>
    (thread_func Func3 ! pc s Func3 = Lock Value1 \<and> owner s Value1 = Some Func1)"
    using p by (simp add: numeral_2_eq_2)
qed (simp add: stuck_def workers_def lock_act_def)

theorem strace_threads_deadlock_witness:
  "\<exists>s. act_run (lock_act thread_func) [Func3, Func1, Func2, Func2, Func3] all_start = Some s \<and> stuck thread_func workers s"
proof -
  obtain s where s: "act_run (lock_act thread_func) [Func3, Func1, Func2, Func2, Func3] all_start = Some s"
    "pc s Func1 = 1" "pc s Func2 = 2" "pc s Func3 = 2" "owner s Value1 = Some Func1" "owner s Value2 = Some Func2"
    "owner s Value3 = Some Func3"
    by (simp add: lock_act_def advance_def all_start_def)
  show ?thesis using strace_threads_deadlock [OF act_run_reaches [OF s(1)]] s by (simp add: numeral_2_eq_2)
qed

text \<open>With one mutex, as in \<open>pstack/code/main.c\<close>, some thread can always go on.\<close>

theorem pstack_threads_go_on:
  assumes "rtranclp (acts (lock_act routine)) all_start s"
  shows "\<not> stuck routine workers s"
proof
  assume st: "stuck routine workers s"
  have inv: "lock_inv routine s" using locks_reached [OF assms routine_balanced] .
  obtain v where v: "owner s () = Some v"
    using stuck_waits [OF st, of Func1] by (auto simp: workers_def)
  then have h: "() \<in> set (held (take (pc s v) (routine v)) [])" "pc s v < length (routine v)"
    using inv by (auto simp: lock_inv_def)
  then have "pc s v = 0 \<or> pc s v = 1 \<or> pc s v = 2" by (auto simp: routine_def)
  then have "pc s v = 1" using h(1) by (auto simp: routine_def numeral_2_eq_2)
  moreover obtain m where "routine v ! pc s v = Lock m"
    using stuck_waits [OF st, of v] by (cases v) (auto simp: workers_def)
  ultimately show False by (simp add: routine_def)
qed

subsection \<open>The test of the cache of stacks\<close>

text \<open>C10: The test program finds the cache of stacks: run on a library that has lent nothing, it comes to its end whatever the
  threads do besides; the second round of threads gets the stacks of the first, 128 KB that of 128 KB, 256 KB that of
  512 KB, 1 MB that of 2 MB; the last thread gets the stack of thread 0 exactly if thread 0 was joined. Compiled with
  \<open>STACK_LEAK\<close>, the program ends with the 8 MB of thread 0 still lent, and has mapped another 8 MB.\<close>

theorem test_reuses_stacks:
  assumes "test_env_ok te regular" "settled (te_self te) regular s" "stock s = ([], [])"
  shows "\<exists>th t. run_test te (test_calls leak) (th0, s) = Some (th, t) \<and>
    th 4 = th 1 \<and> th 5 = th 2 \<and> th 6 = th 3 \<and> (th 7 = th 0 \<longleftrightarrow> \<not> leak) \<and>
    stock t = ([(th 7, 0x801000), (th 3, 0x201000), (th 2, 0x81000), (th 1, 0x21000)],
      if leak then [(th 0, 0x801000)] else [])"
  using lender.run_keeps_promise [OF test_promise [of leak th0, folded assms(3)], of te regular 0] assms(1,2)
  unfolding run_test_def by blast

text \<open>The instance: a kernel with five places for mappings, threads that end when they are waited for.\<close>

definition ex_places :: "u64 list" where
  "ex_places = [0x100000000, 0x200000000, 0x300000000, 0x400000000, 0x500000000]"

definition ex_regular :: "(u64 \<rightharpoonup> u64) \<Rightarrow> bool" where
  "ex_regular m \<longleftrightarrow> dom m \<subseteq> set ex_places \<and> (\<forall>b l. m b = Some l \<longrightarrow> l \<le> 0x1000000)"

definition ex_place_kern :: kern where
  "ex_place_kern = ex_kern\<lparr>sys_mmap := (\<lambda>m sz.
     case find (\<lambda>b. m b = None) ex_places of
       Some b \<Rightarrow> if sz \<le> 0x1000000 then Inr b else Inl ENOMEM
     | None \<Rightarrow> Inl ENOMEM)\<rparr>"

definition ex_test_env :: test_env where
  "ex_test_env = \<lparr>te_kern = ex_place_kern,
     te_ops = ex_ops\<lparr>op_getattr_default := (\<lambda>s. (Inr (ex_attr\<lparr>at_stacksize := default_stacksize s\<rparr>), s))\<rparr>,
     te_join = ex_join, te_attr_init = ex_attr\<lparr>at_stacksize := 0\<rparr>,
     te_set_detached = (\<lambda>a. a\<lparr>at_flags := insert ATTR_DETACHSTATE (at_flags a)\<rparr>),
     te_set_stacksize = (\<lambda>a n. a\<lparr>at_stacksize := n\<rparr>), te_self = 0x1000, te_exec = False,
     te_others = (\<lambda>_ s. s), te_ends = (\<lambda>p. [(None, Wakes (kernel_clears_tid p))])\<rparr>"

lemma ex_places_apart:
  assumes "a \<in> set ex_places" "b \<in> set ex_places" "a \<noteq> b" "m \<le> 0x1000000" "n \<le> 0x1000000"
  shows "disjoint_ranges a m b n"
proof (rule disjoint_rangesI)
  have l: "unat m \<le> 0x1000000" "unat n \<le> 0x1000000" using assms by (simp_all add: word_le_nat_alt)
  show "unat a + unat m < 2 ^ 64" "unat b + unat n < 2 ^ 64"
    "unat a + unat m \<le> unat b \<or> unat b + unat n \<le> unat a"
    using assms(1,2,3) l by (auto simp: ex_places_def)
qed

lemma ex_kernel_serves: "kernel_serves ex_place_kern 0x1000 ex_regular 5"
proof -
  have free: "\<exists>mem. sys_mmap ex_place_kern m sz = Inr mem"
    if "ex_regular m" "card (dom m) < 5" "sz \<le> 0x1000000" for m sz
  proof -
    have "card (set ex_places) = 5" by (simp add: ex_places_def)
    then have "\<not> set ex_places \<subseteq> dom m"
      using that(2) card_mono [of "dom m" "set ex_places"] that(1) finite_subset [of "dom m" "set ex_places"]
      by (auto simp: ex_regular_def)
    then have "find (\<lambda>b. m b = None) ex_places \<noteq> None" by (auto simp: find_None_iff)
    then show ?thesis using that(3) by (auto simp: ex_place_kern_def)
  qed
  have good: "mem \<noteq> 0 \<and> unat mem + unat sz < 2 ^ 47 \<and> mem \<notin> dom m \<and> ex_regular (m(mem \<mapsto> sz)) \<and>
      \<not> in_range mem sz 0x1000 \<and> (\<forall>b l. m b = Some l \<longrightarrow> disjoint_ranges mem sz b l)"
    if m: "ex_regular m" "sys_mmap ex_place_kern m sz = Inr mem" for m sz mem
  proof -
    have f: "mem \<in> set ex_places" "m mem = None" "sz \<le> 0x1000000"
      using m(2) by (auto simp: ex_place_kern_def find_Some_iff split: option.splits if_splits)
    have l: "unat sz \<le> 0x1000000" using f(3) by (simp add: word_le_nat_alt)
    have b: "unat mem + unat sz < 2 ^ 47" "0x1000 < unat mem" using f(1) l by (auto simp: ex_places_def)
    have r: "\<not> in_range mem sz 0x1000" using b by (subst in_range_nat) auto
    have "disjoint_ranges mem sz b l" if "m b = Some l" for b l
      using ex_places_apart [OF f(1) _ _ f(3)] that m(1) f(2) by (fastforce simp: ex_regular_def)
    then show ?thesis using f m(1) b r by (auto simp: ex_regular_def)
  qed
  have "(\<forall>b l p. sys_mprotect ex_place_kern b l p = None) \<and> munmap_ok ex_place_kern \<and>
      (\<forall>pd. \<exists>d. dl_allocate_tls ex_place_kern pd = Inr d)"
    by (simp add: munmap_ok_def ex_place_kern_def) (simp add: ex_kern_def)
  then show ?thesis unfolding kernel_serves_def using free good by blast
qed

lemma ex_test_env_ok: "test_env_ok ex_test_env ex_regular"
proof -
  have calm: "calm_step q s (kernel_clears_tid p s)" "calm_step q s s" for q p s
    by (simp_all add: calm_step_def kernel_clears_tid_def same_pool_def same_block_def)
  have k: "platform_x86_64 ex_place_kern"
    by (simp add: platform_x86_64_def platform_ok_def ex_place_kern_def ex_kern_def low_mask_def word_le_nat_alt)
  have ops: "clone_serves (te_ops ex_test_env)" "join_tests_ok ex_join"
    using ex_ops_ok
    by (simp_all add: clone_serves_def ex_test_env_def ops_ok_def pool_neutral_def join_tests_ok_def ex_join_def)
      (simp add: ex_ops_def)
  have ends: "\<exists>u. join_wait p [(None, Wakes (kernel_clears_tid p))] s = Some (Returns None, u) \<and> calm_step q s u"
    for p q s using calm by (cases "pd_tid (pds s p) = 0") (auto simp: kernel_clears_tid_def)
  show ?thesis
    using k ops ex_kernel_serves calm ends
    by (simp add: test_env_ok_def)
      (simp add: ex_test_env_def plain_attr_def ex_place_kern_def ex_kern_def)
qed

theorem test_reuses_stacks_witness:
  "\<exists>th t. run_test ex_test_env (test_calls True) (\<lambda>_. 0, ex_start) = Some (th, t) \<and>
    th 4 = th 1 \<and> th 7 \<noteq> th 0 \<and> snd (stock t) = [(th 0, 0x801000)]"
proof -
  have st: "settled (te_self ex_test_env) ex_regular ex_start" "stock ex_start = ([], [])"
    using ex_start_inv
    by (simp_all add: settled_def stock_def ex_start_def ex_regular_def sys_stacks_def zero_pthread_def)
  show ?thesis
    using test_reuses_stacks [OF ex_test_env_ok st, of True "\<lambda>_. 0"] by auto
qed

end
