(* ===== verification/Pair_Queues.thy ===== *)
theory Pair_Queues
  imports Action_Systems
begin

text \<open>
  The program \<open>InterProcessComm/code/test2.cpp\<close>: two threads put items into a queue each and wake a third one, which
  takes them in pairs. It is built with a semaphore (\<open>SEM\<close>) or with a flag, a mutex and a condition variable. A
  section under a mutex is one step; an item is a number.
\<close>

subsection \<open>The queues\<close>

datatype side = First | Second

text \<open>A producer puts an item into its queue and then posts.\<close>

datatype notify_pc = Pushing | Posting

record pairs =
  queue1 :: "nat list"
  queue2 :: "nat list"
  npc :: "side \<Rightarrow> notify_pc"

definition push4 :: "nat \<Rightarrow> nat list \<Rightarrow> nat list" where
  "push4 x q = (let q = q @ [x] in if length q > 4 then tl q else q)"

definition push_info :: "side \<Rightarrow> nat \<Rightarrow> 'a pairs_scheme \<Rightarrow> 'a pairs_scheme" where
  "push_info i x s =
    (let s = (case i of First \<Rightarrow> s\<lparr>queue1 := push4 x (queue1 s)\<rparr> | Second \<Rightarrow> s\<lparr>queue2 := push4 x (queue2 s)\<rparr>)
     in s\<lparr>npc := (npc s)(i := Posting)\<rparr>)"

definition take_pair :: "'a pairs_scheme \<Rightarrow> 'a pairs_scheme" where
  "take_pair s =
    (if length (queue1 s) > 0 \<and> length (queue2 s) > 0
     then s\<lparr>queue1 := tl (queue1 s), queue2 := tl (queue2 s)\<rparr> else s)"

datatype pair_act = Push side nat | Notify side | Await | Recheck | Drain

subsection \<open>With a semaphore\<close>

record sem_sys = pairs +
  sem :: nat
  woken :: bool

text \<open>\<open>Await\<close> is \<open>sem_wait\<close>, \<open>Drain\<close> the section under the mutexes of both queues.\<close>

fun sem_act :: "pair_act \<Rightarrow> sem_sys \<Rightarrow> sem_sys option" where
  "sem_act (Push i x) s = (if npc s i = Pushing then Some (push_info i x s) else None)"
| "sem_act (Notify i) s =
    (if npc s i = Posting then Some (s\<lparr>sem := sem s + 1, npc := (npc s)(i := Pushing)\<rparr>) else None)"
| "sem_act Await s = (if \<not> woken s \<and> sem s > 0 then Some (s\<lparr>sem := sem s - 1, woken := True\<rparr>) else None)"
| "sem_act Drain s = (if woken s then Some ((take_pair s)\<lparr>woken := False\<rparr>) else None)"
| "sem_act Recheck s = None"

subsection \<open>With a condition variable\<close>

text \<open>
  The waiter before it locks \<open>mutex_thread\<close>, at the test of the flag, asleep, awake but without the mutex, and behind
  the loop. It holds the mutex when it tests and until it has taken a pair.
\<close>

datatype wait_pc = Locking | Testing | Asleep | Relocking | Taking

record cond_sys = pairs +
  ready :: bool
  wpc :: wait_pc

definition mutex_free :: "cond_sys \<Rightarrow> bool" where
  "mutex_free s \<longleftrightarrow> wpc s \<noteq> Testing \<and> wpc s \<noteq> Taking"

text \<open>\<open>notify\<close>: it needs the mutex; \<open>notify_all\<close> wakes the waiter if it is asleep.\<close>

definition notify :: "side \<Rightarrow> cond_sys \<Rightarrow> cond_sys" where
  "notify i s = s\<lparr>ready := True, wpc := (if wpc s = Asleep then Relocking else wpc s), npc := (npc s)(i := Pushing)\<rparr>"

text \<open>\<open>Await\<close> locks the mutex or, asleep, wakes up for no reason.\<close>

fun cond_act :: "pair_act \<Rightarrow> cond_sys \<Rightarrow> cond_sys option" where
  "cond_act (Push i x) s = (if npc s i = Pushing then Some (push_info i x s) else None)"
| "cond_act (Notify i) s = (if npc s i = Posting \<and> mutex_free s then Some (notify i s) else None)"
| "cond_act Await s =
    (case wpc s of
       Locking \<Rightarrow> Some (s\<lparr>wpc := Testing\<rparr>)
     | Relocking \<Rightarrow> Some (s\<lparr>wpc := Testing\<rparr>)
     | Asleep \<Rightarrow> Some (s\<lparr>wpc := Relocking\<rparr>)
     | _ \<Rightarrow> None)"
| "cond_act Recheck s =
    (if wpc s = Testing
     then Some (if ready s then s\<lparr>ready := False, wpc := Taking\<rparr> else s\<lparr>wpc := Asleep\<rparr>) else None)"
| "cond_act Drain s = (if wpc s = Taking then Some ((take_pair s)\<lparr>wpc := Locking\<rparr>) else None)"

subsection \<open>Invariants\<close>

definition queues_short :: "'a pairs_scheme \<Rightarrow> bool" where
  "queues_short s \<longleftrightarrow> length (queue1 s) \<le> 4 \<and> length (queue2 s) \<le> 4"

lemma push_info_short: "queues_short s \<Longrightarrow> queues_short (push_info i x s)"
  by (cases i) (auto simp: queues_short_def push_info_def push4_def Let_def)

lemma take_pair_short: "queues_short s \<Longrightarrow> queues_short (take_pair s)"
  by (auto simp: queues_short_def take_pair_def)

text \<open>The number of pairs, and the number of wake-ups that are still to come.\<close>

definition pairs_ready :: "'a pairs_scheme \<Rightarrow> nat" where
  "pairs_ready s = min (length (queue1 s)) (length (queue2 s))"

definition posts_due :: "'a pairs_scheme \<Rightarrow> nat" where
  "posts_due s = (if npc s First = Posting then 1 else 0) + (if npc s Second = Posting then 1 else 0)"

definition sem_inv :: "sem_sys \<Rightarrow> bool" where
  "sem_inv s \<longleftrightarrow> queues_short s \<and> pairs_ready s \<le> sem s + posts_due s + (if woken s then 1 else 0)"

lemma push_info_counts:
  assumes "npc s i = Pushing"
  shows "pairs_ready (push_info i x s) \<le> pairs_ready s + 1" "posts_due (push_info i x s) = posts_due s + 1"
  using assms by (cases i; auto simp: pairs_ready_def posts_due_def push_info_def push4_def Let_def)+

lemma take_pair_counts: "pairs_ready (take_pair s) = pairs_ready s - 1" "posts_due (take_pair s) = posts_due s"
  by (auto simp: pairs_ready_def posts_due_def take_pair_def)

lemma push_info_fields [simp]: "sem (push_info i x s) = sem s" "woken (push_info i x s) = woken s"
  by (cases i; simp add: push_info_def Let_def)+

lemma take_pair_fields [simp]: "sem (take_pair s) = sem s" "woken (take_pair s) = woken s"
  by (simp_all add: take_pair_def)

lemma sem_act_inv:
  assumes "sem_inv s" "sem_act a s = Some t"
  shows "sem_inv t"
proof (cases a)
  case (Push i x)
  then have t: "t = push_info i x s" "npc s i = Pushing" using assms(2) by (auto split: if_splits)
  show ?thesis
    using assms(1) push_info_short [of s i x] push_info_counts [OF t(2), of x] by (auto simp: sem_inv_def t(1))
next
  case (Notify i)
  then have t: "t = s\<lparr>sem := sem s + 1, npc := (npc s)(i := Pushing)\<rparr>" "npc s i = Posting"
    using assms(2) by (auto split: if_splits)
  have "posts_due t + 1 = posts_due s" using t(2) by (cases i) (auto simp: t(1) posts_due_def)
  moreover have "pairs_ready t = pairs_ready s" "queues_short t = queues_short s" "sem t = sem s + 1" "woken t = woken s"
    by (simp_all add: t(1) pairs_ready_def queues_short_def)
  ultimately show ?thesis using assms(1) by (simp add: sem_inv_def)
next
  case Await
  then show ?thesis
    using assms by (auto simp: sem_inv_def queues_short_def pairs_ready_def posts_due_def split: if_splits)
next
  case Drain
  then have t: "t = (take_pair s)\<lparr>woken := False\<rparr>" "woken s" using assms(2) by (auto split: if_splits)
  have "pairs_ready t = pairs_ready s - 1" "posts_due t = posts_due s" "queues_short t = queues_short (take_pair s)"
    "sem t = sem s" "\<not> woken t"
    using take_pair_counts [of s] by (simp_all add: t(1) pairs_ready_def posts_due_def queues_short_def)
  then show ?thesis using assms(1) t(2) take_pair_short [of s] by (auto simp: sem_inv_def)
qed (use assms in simp)

interpretation sem_sys: invariant_system "acts sem_act" sem_inv
  by unfold_locales (auto simp: acts_def intro: sem_act_inv)

text \<open>Asleep, the waiter has not missed the flag.\<close>

definition cond_inv :: "cond_sys \<Rightarrow> bool" where
  "cond_inv s \<longleftrightarrow> queues_short s \<and> (wpc s = Asleep \<longrightarrow> \<not> ready s)"

lemma cond_act_inv:
  assumes "cond_inv s" "cond_act a s = Some t"
  shows "cond_inv t"
proof (cases a)
  case (Push i x)
  then have "t = push_info i x s" using assms(2) by (auto split: if_splits)
  moreover have "wpc (push_info i x s) = wpc s" "ready (push_info i x s) = ready s"
    by (cases i; simp add: push_info_def Let_def)+
  ultimately show ?thesis using assms(1) push_info_short [of s i x] by (simp add: cond_inv_def)
next
  case Drain
  then have "t = (take_pair s)\<lparr>wpc := Locking\<rparr>" using assms(2) by (auto split: if_splits)
  then show ?thesis using assms(1) take_pair_short [of s] by (simp add: cond_inv_def queues_short_def)
qed (use assms in \<open>auto simp: cond_inv_def queues_short_def notify_def split: if_splits wait_pc.splits\<close>)

interpretation cond_sys: invariant_system "acts cond_act" cond_inv
  by unfold_locales (auto simp: acts_def intro: cond_act_inv)

end
