(* ===== verification/Backtrace.thy ===== *)
theory Backtrace
  imports Linux_Prelude
begin

text \<open>
  The library \<open>Debugging tools/Applications/backtrace/code/libbacktrace/backtrace.c\<close>: the walk over the frames of the
  stack, and the text for their addresses. The unwinder gives the instruction addresses of the frames, the
  innermost first, and \<open>dladdr\<close> what is known of an address; both are arguments. A store outside of an array
  and a failed assertion are \<open>None\<close>.
\<close>

subsection \<open>The walk\<close>

record trace_arg =
  ta_array :: "u64 list"
  ta_cnt :: int
  ta_size :: int

text \<open>The flag says that the walk goes on.\<close>

definition backtrace_helper :: "u64 \<Rightarrow> trace_arg \<Rightarrow> (bool \<times> trace_arg) option" where
  "backtrace_helper ip arg =
    (let cnt = ta_cnt arg
     in if cnt \<noteq> - 1 \<and> \<not> (0 \<le> cnt \<and> nat cnt < length (ta_array arg)) then None
        else
          (let arr = (if cnt \<noteq> - 1 then (ta_array arg)[nat cnt := ip] else ta_array arg)
           in Some (cnt + 1 \<noteq> ta_size arg, arg\<lparr>ta_array := arr, ta_cnt := cnt + 1\<rparr>)))"

fun unwind_backtrace :: "u64 list \<Rightarrow> trace_arg \<Rightarrow> trace_arg option" where
  "unwind_backtrace [] arg = Some arg"
| "unwind_backtrace (ip # ips) arg =
    (case backtrace_helper ip arg of
       None \<Rightarrow> None
     | Some (go, arg) \<Rightarrow> if go then unwind_backtrace ips arg else Some arg)"

definition backtrace :: "u64 list \<Rightarrow> u64 list \<Rightarrow> int \<Rightarrow> (int \<times> u64 list) option" where
  "backtrace ips arr size' =
    (let arg = \<lparr>ta_array = arr, ta_cnt = - 1, ta_size = size'\<rparr>
     in case (if size' \<ge> 1 then unwind_backtrace ips arg else Some arg) of
          None \<Rightarrow> None
        | Some arg \<Rightarrow>
            (let cnt = (if ta_cnt arg > 1 \<and> ta_array arg ! nat (ta_cnt arg - 1) = 0 then ta_cnt arg - 1 else ta_cnt arg)
             in Some (if cnt \<noteq> - 1 then cnt else 0, ta_array arg)))"

text \<open>What it is meant to be: the callers, as many as fit, without a null at the end.\<close>

definition callers :: "u64 list \<Rightarrow> nat \<Rightarrow> u64 list" where
  "callers ips n =
    (let ads = take n (tl ips) in if length ads > 1 \<and> last ads = 0 then butlast ads else ads)"

lemma unwind_fills:
  assumes "k \<le> length arr" "n \<le> length arr" "k < n"
  shows "unwind_backtrace ips \<lparr>ta_array = arr, ta_cnt = int k, ta_size = int n\<rparr> =
    (let ads = take (n - k) ips
     in Some \<lparr>ta_array = take k arr @ ads @ drop (k + length ads) arr, ta_cnt = int (k + length ads), ta_size = int n\<rparr>)"
  using assms
proof (induction ips arbitrary: k arr)
  case (Cons ip ips)
  have h: "backtrace_helper ip \<lparr>ta_array = arr, ta_cnt = int k, ta_size = int n\<rparr> =
      Some (k + 1 \<noteq> n, \<lparr>ta_array = arr[k := ip], ta_cnt = int (k + 1), ta_size = int n\<rparr>)"
    using Cons.prems by (auto simp: backtrace_helper_def Let_def)
  have upd: "arr[k := ip] = take k arr @ ip # drop (k + 1) arr"
    using Cons.prems by (simp add: upd_conv_take_nth_drop)
  have nk: "n - k = Suc (n - (k + 1))" using Cons.prems by simp
  show ?case
  proof (cases "k + 1 = n")
    case True
    then have "take (n - k) (ip # ips) = [ip]" unfolding nk by simp
    then show ?thesis using True h upd by (simp add: Let_def)
  next
    case False
    then have "unwind_backtrace ips \<lparr>ta_array = arr[k := ip], ta_cnt = int (k + 1), ta_size = int n\<rparr> =
        (let ads = take (n - (k + 1)) ips
         in Some \<lparr>ta_array = take (k + 1) (arr[k := ip]) @ ads @ drop (k + 1 + length ads) (arr[k := ip]),
              ta_cnt = int (k + 1 + length ads), ta_size = int n\<rparr>)"
      using Cons.prems by (intro Cons.IH) simp_all
    moreover have "take (k + 1) (arr[k := ip]) = take k arr @ [ip]"
      using Cons.prems by (simp add: upd)
    moreover have "drop (k + 1 + length ads) (arr[k := ip]) = drop (k + 1 + length ads) arr" for ads :: "u64 list"
      using Cons.prems by simp
    ultimately show ?thesis using False h unfolding nk by (simp add: Let_def)
  qed
qed (simp add: Let_def)

lemma nth_last_append: "xs \<noteq> [] \<Longrightarrow> (xs @ ys) ! (length xs - 1) = last xs"
  by (simp add: nth_append last_conv_nth)

lemma backtrace_collects:
  assumes "1 \<le> n" "n \<le> length arr"
  shows "\<exists>arr'. backtrace (self # ips) arr (int n) = Some (int (length (callers (self # ips) n)), arr') \<and>
    length arr' = length arr \<and> take (length (callers (self # ips) n)) arr' = callers (self # ips) n \<and>
    drop n arr' = drop n arr"
proof -
  let ?ads = "take n ips" and ?arr = "take n ips @ drop (length (take n ips)) arr"
  have h: "backtrace_helper self \<lparr>ta_array = arr, ta_cnt = - 1, ta_size = int n\<rparr> =
      Some (True, \<lparr>ta_array = arr, ta_cnt = int 0, ta_size = int n\<rparr>)"
    using assms by (simp add: backtrace_helper_def)
  have u: "unwind_backtrace (self # ips) \<lparr>ta_array = arr, ta_cnt = - 1, ta_size = int n\<rparr> =
      Some \<lparr>ta_array = ?arr, ta_cnt = int (length ?ads), ta_size = int n\<rparr>"
    using unwind_fills [of 0 arr n ips] assms h by (simp add: Let_def)
  have l: "length ?arr = length arr" "drop n ?arr = drop n arr" using assms by auto
  have null: "?arr ! nat (int (length ?ads) - 1) = last ?ads" if "length ?ads > 1"
  proof -
    have "nat (int (length ?ads) - 1) = length ?ads - 1" "?ads \<noteq> []" using that by auto
    then show ?thesis using nth_last_append by metis
  qed
  have bt: "backtrace (self # ips) arr (int n) =
      Some (if length ?ads > 1 \<and> last ?ads = 0 then int (length ?ads) - 1 else int (length ?ads), ?arr)"
    using assms u null by (auto simp: backtrace_def Let_def)
  have c: "callers (self # ips) n = (if length ?ads > 1 \<and> last ?ads = 0 then butlast ?ads else ?ads)"
    by (simp add: callers_def Let_def)
  show ?thesis
  proof (intro exI conjI)
    show "backtrace (self # ips) arr (int n) = Some (int (length (callers (self # ips) n)), ?arr)"
      unfolding bt c by (auto simp: of_nat_diff)
    show "take (length (callers (self # ips) n)) ?arr = callers (self # ips) n"
      unfolding c by (auto simp: butlast_conv_take min_def)
  qed (use l in auto)
qed

subsection \<open>The text\<close>

fun hex_digits :: "nat \<Rightarrow> string" where
  "hex_digits n = (if n < 16 then [''0123456789abcdef'' ! n] else hex_digits (n div 16) @ [''0123456789abcdef'' ! (n mod 16)])"

declare hex_digits.simps [simp del]

text \<open>\<open>%#lx\<close> and \<open>%p\<close>.\<close>

definition alt_hex :: "u64 \<Rightarrow> string" where
  "alt_hex w = (if w = 0 then ''0'' else ''0x'' @ hex_digits (unat w))"

definition ptr_text :: "u64 \<Rightarrow> string" where
  "ptr_text w = (if w = 0 then ''(nil)'' else ''0x'' @ hex_digits (unat w))"

record dl_info =
  dli_fname :: "string option"
  dli_sname :: "string option"
  dli_saddr :: u64

definition WORD_WIDTH :: nat where "WORD_WIDTH = 16"

definition file_of :: "dl_info option \<Rightarrow> string option" where
  "file_of info = (case info of None \<Rightarrow> None | Some i \<Rightarrow> if dli_fname i = Some [] then None else dli_fname i)"

definition symbol_room :: "dl_info option \<Rightarrow> nat" where
  "symbol_room info =
    (case (info, file_of info) of
       (Some i, Some f) \<Rightarrow>
         length f + (case dli_sname i of Some s \<Rightarrow> length s + 3 + WORD_WIDTH + 3 | None \<Rightarrow> 1) + WORD_WIDTH + 5
     | _ \<Rightarrow> 5 + WORD_WIDTH)"

definition offset_text :: "u64 \<Rightarrow> u64 \<Rightarrow> string" where
  "offset_text a saddr = (if a \<ge> saddr then ''+'' @ alt_hex (a - saddr) else ''-'' @ alt_hex (saddr - a))"

definition symbol_text :: "dl_info option \<Rightarrow> u64 \<Rightarrow> string" where
  "symbol_text info a =
    (case (info, file_of info) of
       (Some i, Some f) \<Rightarrow>
         f @ (case dli_sname i of Some s \<Rightarrow> ''('' @ s @ offset_text a (dli_saddr i) @ '') '' | None \<Rightarrow> '' '') @
         ''['' @ ptr_text a @ '']''
     | _ \<Rightarrow> ''['' @ ptr_text a @ '']'')"

text \<open>The lines are written one behind the other into the bytes behind the pointers.\<close>

fun lay_out :: "(u64 \<Rightarrow> string) \<Rightarrow> u64 list \<Rightarrow> nat \<Rightarrow> char list \<Rightarrow> (nat list \<times> nat \<times> char list) option" where
  "lay_out line [] off mem = Some ([], off, mem)"
| "lay_out line (a # ads) off mem =
    (let t = line a @ [CHR 0x00]
     in if length mem < off + length t then None
        else case lay_out line ads (off + length t) (take off mem @ t @ drop (off + length t) mem) of
               None \<Rightarrow> None
             | Some (ps, off', mem) \<Rightarrow> Some (off # ps, off', mem))"

definition backtrace_symbols ::
    "(u64 \<Rightarrow> dl_info option) \<Rightarrow> u64 list \<Rightarrow> nat \<Rightarrow> char list \<Rightarrow> (nat list \<times> char list) option" where
  "backtrace_symbols dladdr ads max_len mem =
    (case lay_out (\<lambda>a. symbol_text (dladdr a) a) ads (8 * length ads) mem of
       None \<Rightarrow> None
     | Some (ps, off, mem) \<Rightarrow> if off \<le> max_len then Some (ps, mem) else None)"

definition c_string :: "char list \<Rightarrow> nat \<Rightarrow> string" where
  "c_string mem p = takeWhile (\<lambda>c. c \<noteq> CHR 0x00) (drop p mem)"

definition MAX_SYS_TRACE_LAYER :: nat where "MAX_SYS_TRACE_LAYER = 15"
definition MAX_SYS_TRACE_PRINT :: nat where "MAX_SYS_TRACE_PRINT = 1536"

text \<open>\<open>printf ("#%02d %s\n")\<close> for a number below 100.\<close>

definition numbered :: "nat \<Rightarrow> string \<Rightarrow> string" where
  "numbered i t = ''#'' @ [''0123456789'' ! (i div 10), ''0123456789'' ! (i mod 10)] @ '' '' @ t @ [CHR 0x0A]"

definition watch_backtrace :: "(u64 \<Rightarrow> dl_info option) \<Rightarrow> u64 list \<Rightarrow> string list option" where
  "watch_backtrace dladdr ips =
    (case backtrace ips (replicate MAX_SYS_TRACE_LAYER 0) (int MAX_SYS_TRACE_LAYER) of
       None \<Rightarrow> None
     | Some (n, arr) \<Rightarrow>
         (case backtrace_symbols dladdr (take (nat n) arr) MAX_SYS_TRACE_PRINT
                 (replicate (8 * MAX_SYS_TRACE_PRINT) (CHR 0x00)) of
            None \<Rightarrow> None
          | Some (name, mem) \<Rightarrow> Some (map (\<lambda>i. numbered i (c_string mem (name ! i))) [0..<nat n])))"

subsection \<open>The handler\<close>

datatype handler = Default | Handler_func

datatype report_line = Exception_Signal int int string | Report_Start | Report_Frame string | Report_End

text \<open>\<open>SIGSEGV\<close> and \<open>SIGABRT\<close>. The handler prints and then raises the signal with its default action.\<close>

definition backtrace_reg :: "(int \<Rightarrow> handler) \<Rightarrow> int \<Rightarrow> handler" where
  "backtrace_reg d = d(11 := Handler_func, 6 := Handler_func)"

definition handler_func ::
    "int \<Rightarrow> int \<Rightarrow> string \<Rightarrow> (u64 \<Rightarrow> dl_info option) \<Rightarrow> u64 list \<Rightarrow> (int \<Rightarrow> handler)
      \<Rightarrow> (report_line list \<times> (int \<Rightarrow> handler) \<times> int) option" where
  "handler_func signalnum pid pthread_name dladdr ips d =
    (case watch_backtrace dladdr ips of
       None \<Rightarrow> None
     | Some ls \<Rightarrow>
         Some ([Exception_Signal signalnum pid pthread_name, Report_Start] @ map Report_Frame ls @ [Report_End],
           d(signalnum := Default), signalnum))"

subsection \<open>Lengths\<close>

lemma hex_digits_length: "n < 16 ^ k \<Longrightarrow> 0 < k \<Longrightarrow> length (hex_digits n) \<le> k"
proof (induction k arbitrary: n)
  case (Suc k)
  show ?case
  proof (cases "n < 16")
    case True
    then show ?thesis by (subst hex_digits.simps) simp
  next
    case False
    then have "0 < k" using Suc.prems by (cases k) auto
    moreover have "n div 16 < 16 ^ k" using Suc.prems(1) by (simp add: less_mult_imp_div_less mult.commute)
    ultimately have "length (hex_digits (n div 16)) \<le> k" using Suc.IH by blast
    then show ?thesis using False by (subst hex_digits.simps) simp
  qed
qed simp

lemma word_hex_length: "length (hex_digits (unat (w :: u64))) \<le> 16"
proof (rule hex_digits_length)
  have "unat w < 2 ^ 64" by (rule order.strict_trans2 [OF unsigned_less]) simp
  then show "unat w < 16 ^ 16" by simp
qed simp

lemma ptr_text_length: "length (ptr_text w) \<le> 18"
  using word_hex_length [of w] by (simp add: ptr_text_def)

lemma offset_text_length: "length (offset_text a s) \<le> 19"
  using word_hex_length [of "a - s"] word_hex_length [of "s - a"] by (simp add: offset_text_def alt_hex_def)

lemma symbol_text_length: "length (symbol_text info a) + 1 \<le> symbol_room info"
proof (cases "\<exists>i f. info = Some i \<and> file_of info = Some f")
  case True
  then obtain i f where i: "info = Some i" "file_of info = Some f" by blast
  show ?thesis
    using ptr_text_length [of a] offset_text_length [of a "dli_saddr i"] i
    by (cases "dli_sname i") (simp_all add: symbol_text_def symbol_room_def WORD_WIDTH_def)
next
  case False
  then have "symbol_text info a = ''['' @ ptr_text a @ '']''" "symbol_room info = 5 + WORD_WIDTH"
    by (auto simp: symbol_text_def symbol_room_def split: option.splits)
  then show ?thesis using ptr_text_length [of a] by (simp add: WORD_WIDTH_def)
qed

subsection \<open>The lines\<close>

definition text_bytes :: "(u64 \<Rightarrow> string) \<Rightarrow> u64 list \<Rightarrow> nat" where
  "text_bytes line ads = (\<Sum>a\<leftarrow>ads. length (line a) + 1)"

lemma lay_out_ends:
  "lay_out line ads off mem = Some (ps, off', mem') \<Longrightarrow> off' = off + text_bytes line ads"
  by (induction line ads off mem arbitrary: ps rule: lay_out.induct)
    (auto simp: Let_def text_bytes_def split: if_splits option.splits)

lemma takeWhile_nul: "CHR 0x00 \<notin> set t \<Longrightarrow> takeWhile (\<lambda>c. c \<noteq> CHR 0x00) (t @ CHR 0x00 # r) = t"
  by (induction t) auto

text \<open>What lies before the first position is kept, and each pointer leads to its line.\<close>

lemma lay_out_fits:
  assumes "off + text_bytes line ads \<le> length mem" "\<forall>a \<in> set ads. CHR 0x00 \<notin> set (line a)"
  shows "\<exists>ps mem'. lay_out line ads off mem = Some (ps, off + text_bytes line ads, mem') \<and> length mem' = length mem \<and>
    length ps = length ads \<and> take off mem' = take off mem \<and> map (c_string mem') ps = map line ads"
  using assms
proof (induction ads arbitrary: off mem)
  case (Cons a ads)
  let ?t = "line a @ [CHR 0x00]"
  let ?mem = "take off mem @ ?t @ drop (off + length ?t) mem"
  have fit: "off + length ?t + text_bytes line ads \<le> length mem" using Cons.prems(1) by (simp add: text_bytes_def)
  then have l: "length ?mem = length mem" by simp
  then have p: "off + length ?t + text_bytes line ads \<le> length ?mem" using fit by linarith
  have nz: "\<forall>a \<in> set ads. CHR 0x00 \<notin> set (line a)" using Cons.prems(2) by simp
  from Cons.IH [OF p nz]
  obtain ps mem' where r: "lay_out line ads (off + length ?t) ?mem = Some (ps, off + length ?t + text_bytes line ads, mem')"
    "length mem' = length ?mem" "length ps = length ads" "take (off + length ?t) mem' = take (off + length ?t) ?mem"
    "map (c_string mem') ps = map line ads"
    by blast
  have front: "take (off + length ?t) ?mem = take off mem @ ?t" using fit by simp
  then have mem': "mem' = (take off mem @ ?t) @ drop (off + length ?t) mem'"
    using r(4) append_take_drop_id by metis
  have tp: "length (take off mem) = off" using fit by simp
  have "drop off mem' = ?t @ drop (off + length ?t) mem'" by (subst mem') (use tp in simp)
  then have "c_string mem' off = line a" using Cons.prems(2) by (simp add: c_string_def takeWhile_nul)
  moreover have "take off mem' = take off mem" by (subst mem') (use tp in simp)
  ultimately show ?case using r fit l by (auto simp: Let_def text_bytes_def)
qed (simp add: text_bytes_def)

lemma backtrace_symbols_exact:
  assumes "\<forall>a \<in> set ads. CHR 0x00 \<notin> set (symbol_text (dladdr a) a)" "max_len \<le> length mem"
  shows "if 8 * length ads + text_bytes (\<lambda>a. symbol_text (dladdr a) a) ads \<le> max_len
    then \<exists>ps mem'. backtrace_symbols dladdr ads max_len mem = Some (ps, mem') \<and> length ps = length ads \<and>
      map (c_string mem') ps = map (\<lambda>a. symbol_text (dladdr a) a) ads
    else backtrace_symbols dladdr ads max_len mem = None"
proof (cases "8 * length ads + text_bytes (\<lambda>a. symbol_text (dladdr a) a) ads \<le> max_len")
  case True
  then show ?thesis
    using lay_out_fits [of "8 * length ads" "\<lambda>a. symbol_text (dladdr a) a" ads mem] assms
    by (auto simp: backtrace_symbols_def)
next
  case False
  then show ?thesis
    using lay_out_ends [of "\<lambda>a. symbol_text (dladdr a) a" ads "8 * length ads" mem]
    by (auto simp: backtrace_symbols_def split: option.splits)
qed

lemma watch_backtrace_lines:
  fixes dladdr self ips
  defines "ads \<equiv> callers (self # ips) MAX_SYS_TRACE_LAYER" and "line \<equiv> \<lambda>a. symbol_text (dladdr a) a"
  assumes "\<forall>a \<in> set ads. CHR 0x00 \<notin> set (line a)"
  shows "watch_backtrace dladdr (self # ips) =
    (if 8 * length ads + text_bytes line ads \<le> MAX_SYS_TRACE_PRINT
     then Some (map (\<lambda>i. numbered i (line (ads ! i))) [0..<length ads]) else None)"
proof -
  obtain arr where bt: "backtrace (self # ips) (replicate MAX_SYS_TRACE_LAYER 0) (int MAX_SYS_TRACE_LAYER) =
      Some (int (length ads), arr)" "take (length ads) arr = ads"
    using backtrace_collects [of MAX_SYS_TRACE_LAYER "replicate MAX_SYS_TRACE_LAYER 0" self ips]
    unfolding ads_def by (auto simp: MAX_SYS_TRACE_LAYER_def)
  let ?mem = "replicate (8 * MAX_SYS_TRACE_PRINT) (CHR 0x00)"
  have x: "if 8 * length ads + text_bytes line ads \<le> MAX_SYS_TRACE_PRINT
    then \<exists>ps mem'. backtrace_symbols dladdr ads MAX_SYS_TRACE_PRINT ?mem = Some (ps, mem') \<and> length ps = length ads \<and>
      map (c_string mem') ps = map line ads
    else backtrace_symbols dladdr ads MAX_SYS_TRACE_PRINT ?mem = None"
    using backtrace_symbols_exact [of ads dladdr MAX_SYS_TRACE_PRINT ?mem] assms unfolding line_def by simp
  show ?thesis
  proof (cases "8 * length ads + text_bytes line ads \<le> MAX_SYS_TRACE_PRINT")
    case True
    then obtain ps mem' where r: "backtrace_symbols dladdr ads MAX_SYS_TRACE_PRINT ?mem = Some (ps, mem')"
      "length ps = length ads" "map (c_string mem') ps = map line ads"
      using x by auto
    have "c_string mem' (ps ! i) = line (ads ! i)" if "i < length ads" for i
      using r(2,3) that by (metis nth_map)
    then show ?thesis using True bt r(1) by (simp add: watch_backtrace_def)
  next
    case False
    then show ?thesis using x bt by (simp add: watch_backtrace_def)
  qed
qed

end
