(* ===== verification/Create_Process.thy ===== *)
theory Create_Process
  imports Glibc_System
begin

text \<open>
  \<open>CreateProcess\<close> and \<open>CreateProcess_ex\<close> of \<open>StartProcess/code/main.c\<close>, and the \<open>CreateProcess_ex\<close> of
  \<open>Schedule/code/main.c\<close>, which also sets a priority. Both ignore signals and block \<open>SIGCHLD\<close> like \<open>system\<close>, but what they
  restore is in local variables. The second one takes the command line apart itself. The answers of the
  system calls are those of \<open>Glibc_System\<close>; where a result is ignored, the call succeeds.
\<close>

subsection \<open>Signals\<close>

record cp_state =
  cp_disp :: "signo \<Rightarrow> sigdisp"
  cp_mask :: "nat \<Rightarrow> signo set"

record cp_frame =
  saveintr :: sigdisp
  savequit :: sigdisp
  savemask :: "signo set"

text \<open>No frame: the function has returned - 1.\<close>

definition cp_enter :: "sigdisp \<Rightarrow> nat \<Rightarrow> answers_227 \<Rightarrow> cp_state \<Rightarrow> cp_frame option \<times> cp_state" where
  "cp_enter ignore t an s =
    (if an_int an \<noteq> None then (None, s)
     else
       let intr = cp_disp s SIGINT;
           s = s\<lparr>cp_disp := (cp_disp s)(SIGINT := ignore)\<rparr>
       in if an_quit an \<noteq> None then (None, s)
          else
            let quit = cp_disp s SIGQUIT;
                s = s\<lparr>cp_disp := (cp_disp s)(SIGQUIT := ignore)\<rparr>
            in if an_block an \<noteq> None then (None, s)
               else (Some \<lparr>saveintr = intr, savequit = quit, savemask = cp_mask s t\<rparr>,
                     s\<lparr>cp_mask := (cp_mask s)(t := insert SIGCHLD (cp_mask s t))\<rparr>))"

fun cp_wait :: "(errno + int) list \<Rightarrow> int option" where
  "cp_wait [] = None"
| "cp_wait (Inr status # ws) = Some status"
| "cp_wait (Inl e # ws) = (if e \<noteq> EINTR then Some (- 1) else cp_wait ws)"

definition cp_leave :: "nat \<Rightarrow> cp_frame \<Rightarrow> answers_227 \<Rightarrow> int \<Rightarrow> cp_state \<Rightarrow> int \<times> cp_state" where
  "cp_leave t fr an status s =
    (if an_int_back an \<noteq> None then (- 1, s)
     else
       let s = s\<lparr>cp_disp := (cp_disp s)(SIGINT := saveintr fr)\<rparr>
       in if an_quit_back an \<noteq> None then (- 1, s)
          else
            let s = s\<lparr>cp_disp := (cp_disp s)(SIGQUIT := savequit fr)\<rparr>
            in if an_mask_back an \<noteq> None then (- 1, s)
               else (if status = - 1 then - 1 else 0, s\<lparr>cp_mask := (cp_mask s)(t := savemask fr)\<rparr>))"

text \<open>The dispositions the child restores before it starts the program.\<close>

definition child_disp :: "cp_frame \<Rightarrow> cp_state \<Rightarrow> signo \<Rightarrow> sigdisp" where
  "child_disp fr s = (cp_disp s)(SIGINT := saveintr fr, SIGQUIT := savequit fr)"

text \<open>Both functions: \<open>child\<close> is what the new process does. With \<open>NO_WAIT\<close> the status stays 0.\<close>

definition cp_run ::
    "sigdisp \<Rightarrow> bool \<Rightarrow> nat \<Rightarrow> answers_227 \<Rightarrow> (int \<Rightarrow> cp_frame \<Rightarrow> cp_state \<Rightarrow> 'c) \<Rightarrow> cp_state
      \<Rightarrow> (int \<times> 'c option \<times> cp_state) option" where
  "cp_run ignore no_wait t an child s =
    (case cp_enter ignore t an s of
       (None, s) \<Rightarrow> Some (- 1, None, s)
     | (Some fr, s) \<Rightarrow>
         (case an_fork an of
            Inl e \<Rightarrow> (case cp_leave t fr an (- 1) s of (r, s) \<Rightarrow> Some (r, None, s))
          | Inr pid \<Rightarrow>
              do { status \<leftarrow> (if no_wait then Some 0 else cp_wait (an_waits an));
                   (case cp_leave t fr an status s of (r, s') \<Rightarrow> Some (r, Some (child pid fr s), s')) }))"

definition create_process ::
    "bool \<Rightarrow> nat \<Rightarrow> string option \<Rightarrow> answers_227 \<Rightarrow> cp_state \<Rightarrow> (int \<times> started_child option \<times> cp_state) option" where
  "create_process no_wait t cmdstring an s =
    (case cmdstring of
       None \<Rightarrow> Some (1, None, s)
     | Some line \<Rightarrow>
         cp_run SIG_IGN no_wait t an
           (\<lambda>pid fr s. \<lparr>sc_pid = pid, sc_args = shell_args line, sc_mask = savemask fr,
              sc_disp = exec_disp (child_disp fr s)\<rparr>) s)"

subsection \<open>The command line\<close>

function split_cmd :: "string \<Rightarrow> string list" where
  "split_cmd cs =
    (if cs = [] then []
     else case dropWhile (\<lambda>c. c \<noteq> CHR '' '') cs of
            [] \<Rightarrow> [cs]
          | _ # rest \<Rightarrow> takeWhile (\<lambda>c. c \<noteq> CHR '' '') cs # split_cmd rest)"
  by auto
termination
proof (relation "measure length")
  fix cs :: string and c rest
  assume "dropWhile (\<lambda>c. c \<noteq> CHR '' '') cs = c # rest"
  then have "length (c # rest) \<le> length cs" by (metis length_dropWhile_le)
  then show "(rest, cs) \<in> measure length" by simp
qed simp

declare split_cmd.simps [simp del]

text \<open>
  The name that is looked up for an element that starts with \<open>$\<close>. The brace is looked for behind the first
  character that is left, and then all but nothing of the name is erased.
\<close>

definition env_name :: "string \<Rightarrow> string" where
  "env_name e =
    (let e = drop 1 e
     in if 1 < length e \<and> e ! 1 = CHR ''{'' \<and> last e = CHR ''}''
        then let e = take 1 e in take (length e - 1) e
        else e)"

definition PROCESS_MAX_PARAMS :: nat where "PROCESS_MAX_PARAMS = 32"

record parse_state =
  pa_args :: "string list"
  pa_redirection :: bool
  pa_stdout :: "string option"

text \<open>A write outside of \<open>args\<close> has no result.\<close>

definition push_arg :: "string \<Rightarrow> parse_state \<Rightarrow> parse_state option" where
  "push_arg e st =
    (if length (pa_args st) < PROCESS_MAX_PARAMS + 3 then Some (st\<lparr>pa_args := pa_args st @ [e]\<rparr>) else None)"

definition parse_elem ::
    "(string \<Rightarrow> string option) \<Rightarrow> (string \<Rightarrow> bool) \<Rightarrow> string \<Rightarrow> parse_state \<Rightarrow> parse_state option" where
  "parse_elem getenv opens e st =
    (case (if e \<noteq> [] \<and> hd e = CHR ''$'' \<and> length e \<ge> 2 then getenv (env_name e) else Some e) of
       None \<Rightarrow> Some st
     | Some e \<Rightarrow>
         if pa_redirection st
         then Some (st\<lparr>pa_redirection := False, pa_stdout := (if opens e then Some e else pa_stdout st)\<rparr>)
         else if e = ''>'' then Some (st\<lparr>pa_redirection := True\<rparr>)
         else push_arg e st)"

fun parse_elems ::
    "(string \<Rightarrow> string option) \<Rightarrow> (string \<Rightarrow> bool) \<Rightarrow> string list \<Rightarrow> parse_state \<Rightarrow> parse_state option" where
  "parse_elems getenv opens [] st = Some st"
| "parse_elems getenv opens (e # es) st = do { st \<leftarrow> parse_elem getenv opens e st; parse_elems getenv opens es st }"

text \<open>The array also gets a null pointer at the end. A command without elements has no first one.\<close>

definition parse_command :: "(string \<Rightarrow> string option) \<Rightarrow> (string \<Rightarrow> bool) \<Rightarrow> string \<Rightarrow> parse_state option" where
  "parse_command getenv opens command =
    (case split_cmd command of
       [] \<Rightarrow> None
     | e # es \<Rightarrow>
         do { st \<leftarrow> parse_elems getenv opens es \<lparr>pa_args = [e, e], pa_redirection = False, pa_stdout = None\<rparr>;
              (if length (pa_args st) < PROCESS_MAX_PARAMS + 3 then Some st else None) })"

subsection \<open>The child\<close>

datatype prio_type = FIFO | NICE

record priority =
  pr_type :: prio_type
  pr_value :: int

datatype sched = Sched_Inherited | Sched_Other int | Sched_Fifo int

text \<open>\<open>sched_getparam\<close> may fail; then nothing is set. The results of the other calls are ignored.\<close>

definition set_priority :: "bool \<Rightarrow> priority \<Rightarrow> sched" where
  "set_priority got p =
    (if got then (if pr_type p = NICE then Sched_Other (pr_value p) else Sched_Fifo (pr_value p)) else Sched_Inherited)"

datatype child_fate = Started started_child "string option" sched | Exited int | Undefined

definition child_ex ::
    "(string \<Rightarrow> string option) \<Rightarrow> (string \<Rightarrow> bool) \<Rightarrow> (string list \<Rightarrow> bool) \<Rightarrow> sched \<Rightarrow> string \<Rightarrow> int \<Rightarrow> cp_frame \<Rightarrow> cp_state
      \<Rightarrow> child_fate" where
  "child_ex getenv opens found sc command pid fr s =
    (case parse_command getenv opens command of
       None \<Rightarrow> Undefined
     | Some st \<Rightarrow>
         if found (drop 1 (pa_args st))
         then Started \<lparr>sc_pid = pid, sc_args = drop 1 (pa_args st), sc_mask = savemask fr,
                sc_disp = exec_disp (child_disp fr s)\<rparr> (pa_stdout st) sc
         else Exited 6)"

text \<open>The results of the first three calls are not looked at, and \<open>ignore\<close> is not initialised.\<close>

definition checks_off :: "answers_227 \<Rightarrow> answers_227" where
  "checks_off an = an\<lparr>an_int := None, an_quit := None, an_block := None\<rparr>"

definition create_process_ex ::
    "sigdisp \<Rightarrow> (string \<Rightarrow> string option) \<Rightarrow> (string \<Rightarrow> bool) \<Rightarrow> (string list \<Rightarrow> bool) \<Rightarrow> bool \<Rightarrow> nat \<Rightarrow> string \<Rightarrow> answers_227
      \<Rightarrow> cp_state \<Rightarrow> (int \<times> child_fate option \<times> cp_state) option" where
  "create_process_ex ignore getenv opens found no_wait t command an s =
    cp_run ignore no_wait t (checks_off an) (child_ex getenv opens found Sched_Inherited command) s"

definition create_process_prio ::
    "sigdisp \<Rightarrow> (string \<Rightarrow> string option) \<Rightarrow> (string \<Rightarrow> bool) \<Rightarrow> (string list \<Rightarrow> bool) \<Rightarrow> bool \<Rightarrow> nat \<Rightarrow> string \<Rightarrow> bool \<Rightarrow> priority
      \<Rightarrow> answers_227 \<Rightarrow> cp_state \<Rightarrow> (int \<times> child_fate option \<times> cp_state) option" where
  "create_process_prio ignore getenv opens found no_wait t command got p an s =
    cp_run ignore no_wait t (checks_off an) (child_ex getenv opens found (set_priority got p) command) s"

subsection \<open>What the caller gets back\<close>

lemma cp_enter_ok:
  "cp_enter ignore t (all_succeed ret ws) s =
    (Some \<lparr>saveintr = cp_disp s SIGINT, savequit = cp_disp s SIGQUIT, savemask = cp_mask s t\<rparr>,
     s\<lparr>cp_disp := (cp_disp s)(SIGINT := ignore, SIGQUIT := ignore), cp_mask := (cp_mask s)(t := insert SIGCHLD (cp_mask s t))\<rparr>)"
  by (simp add: cp_enter_def Let_def)

lemma cp_leave_ok:
  "cp_leave t fr (all_succeed ret ws) status s =
    (if status = - 1 then - 1 else 0,
     s\<lparr>cp_disp := (cp_disp s)(SIGINT := saveintr fr, SIGQUIT := savequit fr), cp_mask := (cp_mask s)(t := savemask fr)\<rparr>)"
  by (simp add: cp_leave_def Let_def)

lemma restored: "d(SIGINT := a, SIGQUIT := b, SIGINT := d SIGINT, SIGQUIT := d SIGQUIT) = d"
  by (auto simp: fun_eq_iff)

text \<open>With no failure everything is restored, whatever \<open>ignore\<close> is.\<close>

lemma cp_run_ok:
  "cp_run ignore no_wait t (all_succeed ret ws) child s =
    (case ret of
       Inl e \<Rightarrow> Some (- 1, None, s)
     | Inr pid \<Rightarrow>
         map_option (\<lambda>status. (if status = - 1 then - 1 else 0,
           Some (child pid \<lparr>saveintr = cp_disp s SIGINT, savequit = cp_disp s SIGQUIT, savemask = cp_mask s t\<rparr>
             (s\<lparr>cp_disp := (cp_disp s)(SIGINT := ignore, SIGQUIT := ignore),
                cp_mask := (cp_mask s)(t := insert SIGCHLD (cp_mask s t))\<rparr>)), s))
           (if no_wait then Some 0 else cp_wait ws))"
  by (cases ret; cases "cp_wait ws") (simp_all add: cp_run_def cp_enter_ok cp_leave_ok restored)

lemma child_restored:
  "child_disp \<lparr>saveintr = cp_disp s SIGINT, savequit = cp_disp s SIGQUIT, savemask = m\<rparr>
    (s\<lparr>cp_disp := (cp_disp s)(SIGINT := i, SIGQUIT := q), cp_mask := x\<rparr>) = cp_disp s"
  by (simp add: child_disp_def restored)

lemma wait_retry_status:
  "wait_retry t om ws s = Some s' \<Longrightarrow> sy_phase s' t = Finished om None status \<Longrightarrow> cp_wait ws = Some status"
proof (induction t om ws s rule: wait_retry.induct)
  case (2 t om w ws s)
  then show ?case
    by (cases w) (auto simp: wait_shell_def Let_def setter_defs set_phase_def split: if_splits)
qed simp

text \<open>On a call on its own \<open>CreateProcess\<close> does what \<open>system\<close> does.\<close>

lemma create_process_system:
  assumes call: "do_system_232 t line ret ws S = Some (status, S')" and idle: "sa_refcntr S = 0"
    and s: "cp_disp s = sy_disp S" "cp_mask s = sy_mask S"
  shows "create_process False t (Some line) (all_succeed ret ws) s =
    Some (if status = - 1 then - 1 else 0, if sy_children S' = sy_children S then None else Some (hd (sy_children S')), s)"
  using call
proof (cases rule: do_system_232_cases)
  case (1 e)
  then show ?thesis
    using do_system_232_alone [OF call idle] by (simp add: create_process_def cp_run_ok)
next
  case (2 pid w)
  have "cp_wait ws = Some status" using wait_retry_status [OF 2(2,3)] .
  then show ?thesis
    using do_system_232_alone [OF call idle] 2(1)
    by (simp add: create_process_def cp_run_ok child_restored flip: s)
qed

text \<open>Calls that overlap but do not nest, and a call that fails half-way, do not.\<close>

lemma overlap_leaves_ignored:
  assumes "cp_enter SIG_IGN t (all_succeed r ws) s = (Some f, s1)" "cp_enter SIG_IGN t' (all_succeed r' ws') s1 = (Some f', s2)"
    and "s4 = snd (cp_leave t' f' (all_succeed r' ws') st' (snd (cp_leave t f (all_succeed r ws) st s2)))"
  shows "cp_disp s4 SIGINT = SIG_IGN \<and> cp_disp s4 SIGQUIT = SIG_IGN"
  using assms by (auto simp: cp_enter_ok cp_leave_ok)

lemma half_way_leaves_ignored:
  assumes "an_int an = None" "an_quit an \<noteq> None"
  shows "create_process no_wait t (Some line) an s =
    Some (- 1, None, s\<lparr>cp_disp := (cp_disp s)(SIGINT := SIG_IGN)\<rparr>)"
  using assms by (simp add: create_process_def cp_run_def cp_enter_def Let_def)

subsection \<open>The words of a command\<close>

fun join_words :: "string list \<Rightarrow> string" where
  "join_words [] = []"
| "join_words [w] = w"
| "join_words (w # ws) = w @ CHR '' '' # join_words ws"

lemma split_cmd_word:
  assumes "CHR '' '' \<notin> set w"
  shows "w \<noteq> [] \<Longrightarrow> split_cmd w = [w]" "split_cmd (w @ CHR '' '' # rest) = w # split_cmd rest"
proof -
  have d: "dropWhile (\<lambda>c. c \<noteq> CHR '' '') w = []" using assms by (auto simp: dropWhile_eq_Nil_conv)
  show "split_cmd w = [w]" if "w \<noteq> []" using that by (subst split_cmd.simps) (simp add: d del: dropWhile_eq_Nil_conv)
  have "dropWhile (\<lambda>c. c \<noteq> CHR '' '') (w @ CHR '' '' # rest) = CHR '' '' # rest"
    "takeWhile (\<lambda>c. c \<noteq> CHR '' '') (w @ CHR '' '' # rest) = w"
    using assms by (induction w) auto
  then show "split_cmd (w @ CHR '' '' # rest) = w # split_cmd rest" by (subst split_cmd.simps) simp
qed

lemma split_join:
  "ws \<noteq> [] \<Longrightarrow> last ws \<noteq> [] \<Longrightarrow> \<forall>w \<in> set ws. CHR '' '' \<notin> set w \<Longrightarrow> split_cmd (join_words ws) = ws"
  by (induction ws rule: join_words.induct) (simp_all add: split_cmd_word)

definition plain_word :: "string \<Rightarrow> bool" where
  "plain_word e \<longleftrightarrow> e \<noteq> ''>'' \<and> \<not> (e \<noteq> [] \<and> hd e = CHR ''$'' \<and> length e \<ge> 2)"

lemma parse_plain:
  assumes "\<forall>e \<in> set es. plain_word e" "\<not> pa_redirection st" "length (pa_args st) \<le> PROCESS_MAX_PARAMS + 3"
  shows "parse_elems getenv opens es st =
    (if length (pa_args st) + length es \<le> PROCESS_MAX_PARAMS + 3 then Some (st\<lparr>pa_args := pa_args st @ es\<rparr>) else None)"
  using assms
proof (induction es arbitrary: st)
  case (Cons e es)
  then have "parse_elem getenv opens e st = push_arg e st" by (auto simp: parse_elem_def plain_word_def)
  then show ?case using Cons by (simp add: push_arg_def)
qed simp

lemma parse_elems_append:
  "parse_elems getenv opens (es @ fs) st =
    do { st \<leftarrow> parse_elems getenv opens es st; parse_elems getenv opens fs st }"
  by (induction es arbitrary: st) (simp_all split: bind_split)

text \<open>A redirection at the end: the file, and whether it could be opened.\<close>

definition redirect_words :: "string option \<Rightarrow> string list" where
  "redirect_words f = (case f of None \<Rightarrow> [] | Some f \<Rightarrow> [''>'', f])"

lemma parse_command_words:
  assumes "\<forall>w \<in> set (w # ws). CHR '' '' \<notin> set w" "\<forall>e \<in> set ws. plain_word e"
    and "last (w # ws @ redirect_words f) \<noteq> []" "\<forall>g. f = Some g \<longrightarrow> CHR '' '' \<notin> set g \<and> plain_word g"
  shows "parse_command getenv opens (join_words (w # ws @ redirect_words f)) =
    (if length ws \<le> PROCESS_MAX_PARAMS
     then Some \<lparr>pa_args = w # w # ws, pa_redirection = False,
       pa_stdout = (case f of Some g \<Rightarrow> if opens g then Some g else None | None \<Rightarrow> None)\<rparr>
     else None)"
proof -
  have sp: "split_cmd (join_words (w # ws @ redirect_words f)) = w # ws @ redirect_words f"
    using assms by (intro split_join) (auto simp: redirect_words_def split: option.splits)
  let ?st = "\<lparr>pa_args = [w, w], pa_redirection = False, pa_stdout = None\<rparr>"
  have p: "parse_elems getenv opens ws ?st =
      (if length ws \<le> PROCESS_MAX_PARAMS + 1 then Some (?st\<lparr>pa_args := [w, w] @ ws\<rparr>) else None)"
    using parse_plain [of ws ?st getenv opens] assms(2) by (simp add: PROCESS_MAX_PARAMS_def)
  show ?thesis
  proof (cases f)
    case None
    then show ?thesis unfolding parse_command_def sp using p by (auto simp: redirect_words_def)
  next
    case (Some g)
    then have "parse_elem getenv opens g st = Some (st\<lparr>pa_redirection := False,
        pa_stdout := (if opens g then Some g else pa_stdout st)\<rparr>)" if "pa_redirection st" for st
      using assms(4) that by (auto simp: parse_elem_def plain_word_def)
    moreover have "parse_elem getenv opens ''>'' st = Some (st\<lparr>pa_redirection := True\<rparr>)" if "\<not> pa_redirection st" for st
      using that by (simp add: parse_elem_def)
    ultimately have "parse_elems getenv opens (ws @ redirect_words f) ?st =
      (if length ws \<le> PROCESS_MAX_PARAMS + 1
       then Some (?st\<lparr>pa_args := [w, w] @ ws, pa_stdout := (if opens g then Some g else None)\<rparr>) else None)"
      unfolding parse_elems_append p by (simp add: redirect_words_def Some)
    then show ?thesis unfolding parse_command_def sp by (auto simp: Some)
  qed
qed

text \<open>A name in braces is looked up with its braces.\<close>

lemma env_name_plain: "\<not> (1 < length x \<and> x ! 1 = CHR ''{'') \<Longrightarrow> env_name (CHR ''$'' # x) = x"
  by (auto simp: env_name_def Let_def)

lemma env_name_braces:
  assumes "x \<noteq> []" "hd x \<noteq> CHR ''{''"
  shows "env_name (CHR ''$'' # CHR ''{'' # x @ ''}'') = CHR ''{'' # x @ ''}''"
  using assms by (cases x) (auto simp: env_name_def Let_def)

end
