(* ===== verification/Inherited_Socket.thy ===== *)
theory Inherited_Socket
  imports Linux_Prelude
begin

text \<open>
  The server of \<open>InheritProcess/code/server.c\<close>: one thread opens a listening socket for each session with a client
  (\<open>client.c\<close>), another one starts a program in between (\<open>subprocess.c\<close>). The three builds differ in how the
  socket gets its close-on-exec flag. An open socket is a number; a process has a map from its sockets to
  their flags.
\<close>

subsection \<open>A session\<close>

text \<open>
  \<open>msg_process\<close> with the results of \<open>recv\<close>: a datum of \<open>n\<close> bytes is followed by a 0 in the buffer of 1024 bytes.
  \<open>Waiting\<close>: the list is used up. Nothing received is not an end.
\<close>

datatype session_end = Quit | Recv_Error | Overflow | Still_Waiting

definition c_prefix :: "string \<Rightarrow> string" where
  "c_prefix bs = takeWhile (\<lambda>c. c \<noteq> CHR 0x00) bs"

fun strstr :: "string \<Rightarrow> string \<Rightarrow> bool" where
  "strstr [] pat = (pat = [])"
| "strstr (c # cs) pat = (take (length pat) (c # cs) = pat \<or> strstr cs pat)"

fun msg_loop :: "(errno + string) list \<Rightarrow> session_end" where
  "msg_loop [] = Still_Waiting"
| "msg_loop (Inl e # rs) = Recv_Error"
| "msg_loop (Inr bs # rs) =
    (if length bs \<noteq> 0
     then if length bs \<ge> 1024 then Overflow
          else if strstr (c_prefix bs) ''quit'' then Quit
          else msg_loop rs
     else msg_loop rs)"

text \<open>The client sends three buffers as a whole.\<close>

definition client_sends :: "string list" where
  "client_sends = map (\<lambda>t. t @ replicate (1024 - length t) (CHR 0x00))
    [''Hello, world!'', ''quit!'', ''Hello, world! Again!'']"

subsection \<open>The descriptors\<close>

datatype build = No_Cloexec | Use_Fd_Cloexec | Use_Sock_Cloexec

datatype server_pc = At_Socket | At_Fcntl | At_Bind | At_Listen | At_Accept | In_Session | Ended

text \<open>The other process before the \<open>fork\<close>, between it and the start of the program, and with the program.\<close>

datatype sub_pc = Not_Forked | Forked "nat \<Rightarrow> bool option" | Executing "nat \<Rightarrow> bool option"

record inherit_sys =
  ih_pc :: server_pc
  ih_next :: nat
  ih_sockfd :: nat
  ih_connect :: nat
  ih_fds :: "nat \<Rightarrow> bool option"
  ih_listening :: "nat set"
  ih_sub :: sub_pc

definition sub_fds :: "sub_pc \<Rightarrow> nat \<Rightarrow> bool option" where
  "sub_fds sub = (case sub of Not_Forked \<Rightarrow> (\<lambda>_. None) | Forked m \<Rightarrow> m | Executing m \<Rightarrow> m)"

text \<open>Some process has a socket that is bound to the port.\<close>

definition port_in_use :: "inherit_sys \<Rightarrow> bool" where
  "port_in_use s \<longleftrightarrow> (\<exists>x \<in> ih_listening s. ih_fds s x \<noteq> None \<or> sub_fds (ih_sub s) x \<noteq> None)"

definition close_on_exec :: "(nat \<Rightarrow> bool option) \<Rightarrow> nat \<Rightarrow> bool option" where
  "close_on_exec m = (\<lambda>x. if m x = Some True then None else m x)"

datatype inherit_act = Do_Socket | Do_Fcntl | Do_Bind bool | Do_Listen | Do_Accept | Do_Session "(errno + string) list"
  | Do_Fork | Do_Exec

text \<open>
  \<open>bind\<close> may fail for any reason, and does when the port is in use. After an error of \<open>recv\<close> both sockets stay
  open; a session that does not end or that has written behind its buffer has no next state.
\<close>

inductive inherit_step :: "build \<Rightarrow> inherit_sys \<Rightarrow> inherit_sys \<Rightarrow> bool" for b :: build where
  socket: "ih_pc s = At_Socket \<Longrightarrow> inherit_step b s
    (s\<lparr>ih_sockfd := ih_next s, ih_next := ih_next s + 1,
       ih_fds := (ih_fds s)(ih_next s \<mapsto> b = Use_Sock_Cloexec),
       ih_pc := (if b = Use_Fd_Cloexec then At_Fcntl else At_Bind)\<rparr>)"
| no_socket: "ih_pc s = At_Socket \<Longrightarrow> inherit_step b s (s\<lparr>ih_pc := Ended\<rparr>)"
| set_flag: "ih_pc s = At_Fcntl \<Longrightarrow> inherit_step b s
    (s\<lparr>ih_fds := (ih_fds s)(ih_sockfd s \<mapsto> True), ih_pc := At_Bind\<rparr>)"
| bound: "ih_pc s = At_Bind \<Longrightarrow> \<not> port_in_use s \<Longrightarrow> inherit_step b s
    (s\<lparr>ih_listening := insert (ih_sockfd s) (ih_listening s), ih_pc := At_Listen\<rparr>)"
| not_bound: "ih_pc s = At_Bind \<Longrightarrow> inherit_step b s (s\<lparr>ih_pc := Ended\<rparr>)"
| listen: "ih_pc s = At_Listen \<Longrightarrow> inherit_step b s (s\<lparr>ih_pc := At_Accept\<rparr>)"
| not_listen: "ih_pc s = At_Listen \<Longrightarrow> inherit_step b s (s\<lparr>ih_pc := Ended\<rparr>)"
| accept: "ih_pc s = At_Accept \<Longrightarrow> inherit_step b s
    (s\<lparr>ih_connect := ih_next s, ih_next := ih_next s + 1, ih_fds := (ih_fds s)(ih_next s \<mapsto> False), ih_pc := In_Session\<rparr>)"
| quit: "ih_pc s = In_Session \<Longrightarrow> msg_loop rs = Quit \<Longrightarrow> inherit_step b s
    (s\<lparr>ih_fds := (ih_fds s)(ih_connect s := None, ih_sockfd s := None), ih_pc := At_Socket\<rparr>)"
| broken: "ih_pc s = In_Session \<Longrightarrow> msg_loop rs = Recv_Error \<Longrightarrow> inherit_step b s (s\<lparr>ih_pc := At_Socket\<rparr>)"
| fork: "ih_sub s = Not_Forked \<Longrightarrow> inherit_step b s (s\<lparr>ih_sub := Forked (ih_fds s)\<rparr>)"
| exec: "ih_sub s = Forked m \<Longrightarrow> inherit_step b s (s\<lparr>ih_sub := Executing (close_on_exec m)\<rparr>)"

definition inherit_start :: inherit_sys where
  "inherit_start = \<lparr>ih_pc = At_Socket, ih_next = 0, ih_sockfd = 0, ih_connect = 0, ih_fds = (\<lambda>_. None),
     ih_listening = {}, ih_sub = Not_Forked\<rparr>"

inductive_cases inherit_stepE: "inherit_step b s s'"

subsection \<open>With \<open>SOCK_CLOEXEC\<close>\<close>

text \<open>No process can bring such a socket into the program. \<open>sockets_fresh\<close>: the next number is not used.\<close>

definition stays_out :: "inherit_sys \<Rightarrow> nat \<Rightarrow> bool" where
  "stays_out s x \<longleftrightarrow> x < ih_next s \<and> ih_fds s x \<noteq> Some False \<and>
    (\<forall>m. ih_sub s = Forked m \<longrightarrow> m x \<noteq> Some False) \<and> (\<forall>m. ih_sub s = Executing m \<longrightarrow> m x = None)"

definition sockets_fresh :: "inherit_sys \<Rightarrow> bool" where
  "sockets_fresh s \<longleftrightarrow> (\<forall>x. ih_next s \<le> x \<longrightarrow> ih_fds s x = None \<and> sub_fds (ih_sub s) x = None)"

definition flags_ok :: "inherit_sys \<Rightarrow> bool" where
  "flags_ok s \<longleftrightarrow> ih_pc s \<noteq> At_Fcntl \<and> sockets_fresh s \<and> (\<forall>x \<in> ih_listening s. stays_out s x) \<and>
    (ih_pc s = At_Bind \<longrightarrow> stays_out s (ih_sockfd s))"

lemma close_on_exec_None: "m x \<noteq> Some False \<Longrightarrow> close_on_exec m x = None"
  by (cases "m x") (auto simp: close_on_exec_def)

lemma stays_out_step:
  "inherit_step Use_Sock_Cloexec s s' \<Longrightarrow> ih_pc s \<noteq> At_Fcntl \<Longrightarrow> stays_out s x \<Longrightarrow> stays_out s' x"
  by (erule inherit_stepE) (simp_all add: stays_out_def close_on_exec_None)

lemma sockets_fresh_step:
  "inherit_step Use_Sock_Cloexec s s' \<Longrightarrow> ih_pc s \<noteq> At_Fcntl \<Longrightarrow> sockets_fresh s \<Longrightarrow> sockets_fresh s'"
  by (erule inherit_stepE) (simp_all add: sockets_fresh_def sub_fds_def close_on_exec_def)

lemma new_socket_stays_out:
  assumes "sockets_fresh s"
  shows "stays_out (s\<lparr>ih_sockfd := ih_next s, ih_next := ih_next s + 1, ih_fds := (ih_fds s)(ih_next s \<mapsto> True), ih_pc := pc\<rparr>) (ih_next s)"
  using assms by (auto simp: stays_out_def sockets_fresh_def sub_fds_def split: sub_pc.splits)

text \<open>What a step does to the set of bound sockets and to the socket that is about to be bound.\<close>

lemma inherit_step_pc: "inherit_step Use_Sock_Cloexec s s' \<Longrightarrow> ih_pc s \<noteq> At_Fcntl \<Longrightarrow> ih_pc s' \<noteq> At_Fcntl"
  by (erule inherit_stepE) simp_all

lemma inherit_step_listening:
  "inherit_step Use_Sock_Cloexec s s' \<Longrightarrow> x \<in> ih_listening s' \<Longrightarrow>
    x \<in> ih_listening s \<or> ih_pc s = At_Bind \<and> x = ih_sockfd s"
  by (erule inherit_stepE) auto

lemma inherit_step_bind:
  "inherit_step Use_Sock_Cloexec s s' \<Longrightarrow> ih_pc s' = At_Bind \<Longrightarrow> ih_pc s \<noteq> At_Fcntl \<Longrightarrow>
    ih_pc s = At_Bind \<and> ih_sockfd s' = ih_sockfd s \<or>
    s' = s\<lparr>ih_sockfd := ih_next s, ih_next := ih_next s + 1, ih_fds := (ih_fds s)(ih_next s \<mapsto> True), ih_pc := At_Bind\<rparr>"
  by (erule inherit_stepE) simp_all

lemma flags_ok_step:
  assumes ok: "flags_ok s" and st: "inherit_step Use_Sock_Cloexec s s'"
  shows "flags_ok s'"
proof -
  have pc: "ih_pc s \<noteq> At_Fcntl" and fresh: "sockets_fresh s" using ok by (simp_all add: flags_ok_def)
  note out = stays_out_step [OF st pc]
  have "stays_out s' x" if "x \<in> ih_listening s'" for x
    using inherit_step_listening [OF st that] ok out by (auto simp: flags_ok_def)
  moreover have "stays_out s' (ih_sockfd s')" if "ih_pc s' = At_Bind"
    using inherit_step_bind [OF st that pc]
  proof
    assume "ih_pc s = At_Bind \<and> ih_sockfd s' = ih_sockfd s"
    then show ?thesis using ok out by (simp add: flags_ok_def)
  next
    assume "s' = s\<lparr>ih_sockfd := ih_next s, ih_next := ih_next s + 1, ih_fds := (ih_fds s)(ih_next s \<mapsto> True), ih_pc := At_Bind\<rparr>"
    then show ?thesis using new_socket_stays_out [OF fresh, of At_Bind] by simp
  qed
  ultimately show ?thesis
    using inherit_step_pc [OF st pc] sockets_fresh_step [OF st pc fresh] by (simp add: flags_ok_def)
qed

interpretation sock_cloexec: invariant_system "inherit_step Use_Sock_Cloexec" flags_ok
  by unfold_locales (rule flags_ok_step)

lemma program_without_listener:
  assumes "rtranclp (inherit_step Use_Sock_Cloexec) inherit_start s" "ih_sub s = Executing m" "x \<in> ih_listening s"
  shows "m x = None"
proof -
  have "flags_ok inherit_start" by (simp add: flags_ok_def inherit_start_def sockets_fresh_def sub_fds_def)
  from sock_cloexec.reaches_inv [OF assms(1) this] show ?thesis
    using assms(2,3) by (simp add: flags_ok_def stays_out_def)
qed

lemma port_used_by_server:
  assumes "rtranclp (inherit_step Use_Sock_Cloexec) inherit_start s" "ih_sub s = Executing m"
  shows "port_in_use s \<longleftrightarrow> (\<exists>x \<in> ih_listening s. ih_fds s x \<noteq> None)"
  using program_without_listener [OF assms] assms(2) by (auto simp: port_in_use_def sub_fds_def)

subsection \<open>With the flag set by \<open>fcntl\<close>, and connections\<close>

text \<open>The state after the first socket was opened, forked and executed, before the flag is set.\<close>

definition raced :: inherit_sys where
  "raced = inherit_start\<lparr>ih_next := 1, ih_fds := [0 \<mapsto> False], ih_pc := At_Fcntl, ih_sub := Executing [0 \<mapsto> False]\<rparr>"

lemma raced_reached: "rtranclp (inherit_step Use_Fd_Cloexec) inherit_start raced"
proof -
  let ?s1 = "inherit_start\<lparr>ih_next := 1, ih_fds := [0 \<mapsto> False], ih_pc := At_Fcntl\<rparr>"
  let ?s2 = "?s1\<lparr>ih_sub := Forked [0 \<mapsto> False]\<rparr>"
  have 1: "inherit_step Use_Fd_Cloexec inherit_start ?s1"
    using inherit_step.socket [of inherit_start Use_Fd_Cloexec] by (simp add: inherit_start_def)
  have 2: "inherit_step Use_Fd_Cloexec ?s1 ?s2"
    using inherit_step.fork [of ?s1 Use_Fd_Cloexec] by (simp add: inherit_start_def)
  have "close_on_exec [0 \<mapsto> False] = [0 \<mapsto> False]" by (auto simp: close_on_exec_def)
  then have 3: "inherit_step Use_Fd_Cloexec ?s2 raced"
    using inherit_step.exec [of ?s2 "[0 \<mapsto> False]" Use_Fd_Cloexec] by (simp add: raced_def)
  note go = rtranclp.rtrancl_into_rtrancl [where r = "inherit_step Use_Fd_Cloexec"]
  show ?thesis by (rule go [OF go [OF go [OF rtranclp.rtrancl_refl 1] 2] 3])
qed

lemma socket_fd:
  "ih_pc s = At_Socket \<Longrightarrow> inherit_step Use_Fd_Cloexec s (s\<lparr>ih_sockfd := ih_next s, ih_next := ih_next s + 1,
    ih_fds := (ih_fds s)(ih_next s \<mapsto> False), ih_pc := At_Fcntl\<rparr>)"
  using inherit_step.socket [of s Use_Fd_Cloexec] by simp

text \<open>From there the server goes on to the end of its session and to its next socket.\<close>

lemma raced_port_in_use:
  "\<exists>s. rtranclp (inherit_step Use_Fd_Cloexec) inherit_start s \<and> ih_pc s = At_Bind \<and> ih_sub s = Executing [0 \<mapsto> False] \<and>
    0 \<in> ih_listening s \<and> port_in_use s"
proof -
  let ?b = Use_Fd_Cloexec
  note go = rtranclp.rtrancl_into_rtrancl [where r = "inherit_step ?b"]
  let ?s1 = "raced\<lparr>ih_fds := [0 \<mapsto> True], ih_pc := At_Bind\<rparr>"
  let ?s2 = "?s1\<lparr>ih_listening := {0}, ih_pc := At_Listen\<rparr>"
  let ?s3 = "?s2\<lparr>ih_pc := At_Accept\<rparr>"
  let ?s4 = "?s3\<lparr>ih_connect := 1, ih_next := 2, ih_fds := [0 \<mapsto> True, 1 \<mapsto> False], ih_pc := In_Session\<rparr>"
  let ?s5 = "?s4\<lparr>ih_fds := (ih_fds ?s4)(ih_connect ?s4 := None, ih_sockfd ?s4 := None), ih_pc := At_Socket\<rparr>"
  let ?s6 = "?s5\<lparr>ih_sockfd := ih_next ?s5, ih_next := ih_next ?s5 + 1, ih_fds := (ih_fds ?s5)(ih_next ?s5 \<mapsto> False), ih_pc := At_Fcntl\<rparr>"
  let ?s7 = "?s6\<lparr>ih_fds := (ih_fds ?s6)(ih_sockfd ?s6 \<mapsto> True), ih_pc := At_Bind\<rparr>"
  note raced = raced_def inherit_start_def
  have 1: "inherit_step ?b raced ?s1"
    using inherit_step.set_flag [of raced ?b] by (simp add: raced)
  have 2: "inherit_step ?b ?s1 ?s2"
    using inherit_step.bound [of ?s1 ?b] by (simp add: raced port_in_use_def)
  have 3: "inherit_step ?b ?s2 ?s3"
    using inherit_step.listen [of ?s2 ?b] by (simp add: raced)
  have 4: "inherit_step ?b ?s3 ?s4"
    using inherit_step.accept [of ?s3 ?b] by (simp add: raced numeral_2_eq_2)
  have "msg_loop [Inr ''quit''] = Quit" by code_simp
  then have 5: "inherit_step ?b ?s4 ?s5" by (intro inherit_step.quit [of ?s4 "[Inr ''quit'']" ?b]) simp_all
  have 6: "inherit_step ?b ?s5 ?s6" by (rule socket_fd) simp
  have 7: "inherit_step ?b ?s6 ?s7" by (rule inherit_step.set_flag) simp
  have "rtranclp (inherit_step ?b) inherit_start ?s7"
    by (rule go [OF go [OF go [OF go [OF go [OF go [OF go [OF raced_reached 1] 2] 3] 4] 5] 6] 7])
  then show ?thesis
    by (intro exI [of _ ?s7]) (simp add: raced port_in_use_def sub_fds_def)
qed

text \<open>A connection is inherited in every build: it never gets the flag.\<close>

lemma connection_inherited:
  "\<exists>s. rtranclp (inherit_step Use_Sock_Cloexec) inherit_start s \<and> ih_pc s = In_Session \<and>
    ih_sub s = Executing [ih_connect s \<mapsto> False]"
proof -
  let ?b = Use_Sock_Cloexec
  note go = rtranclp.rtrancl_into_rtrancl [where r = "inherit_step ?b"]
  let ?s1 = "inherit_start\<lparr>ih_next := 1, ih_fds := [0 \<mapsto> True], ih_pc := At_Bind\<rparr>"
  let ?s2 = "?s1\<lparr>ih_listening := {0}, ih_pc := At_Listen\<rparr>"
  let ?s3 = "?s2\<lparr>ih_pc := At_Accept\<rparr>"
  let ?s4 = "?s3\<lparr>ih_connect := 1, ih_next := 2, ih_fds := [0 \<mapsto> True, 1 \<mapsto> False], ih_pc := In_Session\<rparr>"
  let ?s5 = "?s4\<lparr>ih_sub := Forked [0 \<mapsto> True, 1 \<mapsto> False]\<rparr>"
  let ?s6 = "?s4\<lparr>ih_sub := Executing [1 \<mapsto> False]\<rparr>"
  have 1: "inherit_step ?b inherit_start ?s1"
    using inherit_step.socket [of inherit_start ?b] by (simp add: inherit_start_def)
  have 2: "inherit_step ?b ?s1 ?s2"
    using inherit_step.bound [of ?s1 ?b] by (simp add: inherit_start_def port_in_use_def)
  have 3: "inherit_step ?b ?s2 ?s3"
    using inherit_step.listen [of ?s2 ?b] by (simp add: inherit_start_def)
  have 4: "inherit_step ?b ?s3 ?s4"
    using inherit_step.accept [of ?s3 ?b] by (simp add: inherit_start_def numeral_2_eq_2)
  have 5: "inherit_step ?b ?s4 ?s5"
    using inherit_step.fork [of ?s4 ?b] by (simp add: inherit_start_def)
  have "close_on_exec [0 \<mapsto> True, 1 \<mapsto> False] = [1 \<mapsto> False]" by (auto simp: close_on_exec_def)
  then have 6: "inherit_step ?b ?s5 ?s6"
    using inherit_step.exec [of ?s5 "[0 \<mapsto> True, 1 \<mapsto> False]" ?b] by simp
  have "rtranclp (inherit_step ?b) inherit_start ?s6"
    by (rule go [OF go [OF go [OF go [OF go [OF go [OF rtranclp.rtrancl_refl 1] 2] 3] 4] 5] 6])
  then show ?thesis by (intro exI [of _ ?s6]) simp
qed

text \<open>The buffers of the client are as long as the one of the server.\<close>

lemma client_overflows: "msg_loop (map Inr client_sends) = Overflow"
  by (simp add: client_sends_def)

lemma closed_connection_spins: "msg_loop (replicate n (Inr [])) = Still_Waiting"
  by (induction n) simp_all

end
