(* ===== verification/Shm_Programs.thy ===== *)
theory Shm_Programs
  imports Frame_Ipc
begin

text \<open>
  Programs over the shared memory of \<open>Frame_Ipc\<close>: the sender \<open>shm+sem/a.c\<close> and the receiver \<open>shm+sem/b.c\<close> of the
  library, and \<open>test3.cpp\<close>, which creates, removes and creates a segment again.
\<close>

subsection \<open>The sender and the receiver\<close>

definition BUF :: nat where "BUF = 1024"

definition hello :: "8 word list" where "hello = [104, 101, 108, 108, 111]"

text \<open>One turn of the sender's loop.\<close>

definition a_send :: "ipc_ids \<Rightarrow> frame_proc \<Rightarrow> sysv \<Rightarrow> (int \<times> frame_proc \<times> sysv) call_end" where
  "a_send ids p k =
    (let is_used = int_bytes 1; buf = hello @ replicate (BUF - length hello) 0
     in send_shared_frame 0 ids (Some is_used) (int (length is_used)) (Some buf) (int BUF) p k)"

text \<open>A \<open>frame_t\<close> has 16 bytes; its pointer is set to the text behind the first word of the segment.\<close>

record frame_t =
  is_used :: int
  frame_buf :: "shm_ptr \<times> nat"

definition get_frame :: "nat \<Rightarrow> ipc_ids \<Rightarrow> sysv \<Rightarrow> (frame_t \<times> sysv) call_end" where
  "get_frame pid ids k =
    (case attach_shared_frame pid ids 16 k of
       Returned (shm_addr, bs, k) \<Rightarrow> Returned (\<lparr>is_used = bytes_int (take 4 bs), frame_buf = (shm_addr, 4)\<rparr>, k)
     | Stuck \<Rightarrow> Stuck
     | Crashed \<Rightarrow> Crashed)"

definition free_frame :: "frame_t \<Rightarrow> sysv \<Rightarrow> sysv call_end" where
  "free_frame frame k =
    (case frame_buf frame of (shm_addr, off) \<Rightarrow> if off = 4 then deattach_shared_frame shm_addr k else Crashed)"

text \<open>The text the receiver prints.\<close>

definition frame_text :: "frame_t \<Rightarrow> sysv \<Rightarrow> 8 word list option" where
  "frame_text frame k =
    (case frame_buf frame of (shm_addr, off) \<Rightarrow> map_option (\<lambda>m. takeWhile (\<lambda>b. b \<noteq> 0) (drop off m)) (mem_at shm_addr k))"

lemma a_send_step:
  "frame_step 0 ids rpid 16 (Send (int_bytes 1) (hello @ replicate (BUF - length hello) 0)) s =
    (case a_send ids (fs_send s) (fs_k s) of
       Returned (r, p, k) \<Rightarrow> Some (if r = 0 then Accepted else Refused, s\<lparr>fs_k := k, fs_send := p\<rparr>)
     | _ \<Rightarrow> None)"
  by (simp add: a_send_def Let_def BUF_def hello_def)

lemma a_frame_legal: "1028 \<le> cap \<Longrightarrow> frame_legal cap 16 (Send (int_bytes 1) (hello @ replicate (BUF - length hello) 0)) sl"
proof -
  assume "1028 \<le> cap"
  moreover have "length (int_bytes 1) = 4" "bytes_int (int_bytes 1) = 1"
    by (simp_all add: bytes_int_def int_bytes_def upt_rec)
  ultimately show ?thesis by (simp add: frame_legal_def BUF_def hello_def)
qed

text \<open>A refused frame leaves the segment as it is.\<close>

lemma refused_keeps_memory:
  assumes "send_shared_frame flag ids x xl d dl p k = Returned (- 1, p', k')"
  shows "mem_at addr k' = mem_at addr k"
proof -
  have "mem_at addr (snd (sys_shmat i k)) = mem_at addr k" for i
    by (cases addr) (auto simp: sys_shmat_def mem_at_def split: option.splits)
  then show ?thesis
    using assms unfolding send_shared_frame_def Let_def
    by (auto split: if_splits prod.splits option.splits call_end.splits) (metis snd_conv)+
qed

text \<open>One turn of the sender, one of the receiver, and what the sender is told before the receiver has taken the frame and
  while it has it.\<close>

lemma hello_arrives:
  assumes ch: "channel 0 ids rpid cap a b Empty s" and cap: "1028 \<le> cap" and room: "a < 32767" "b < 32767"
  shows "\<exists>p1 k1 p2 k2 fr k3 p4 k4 k5. a_send ids (fs_send s) (fs_k s) = Returned (0, p1, k1) \<and>
    a_send ids p1 k1 = Returned (- 1, p2, k2) \<and> get_frame rpid ids k2 = Returned (fr, k3) \<and>
    a_send ids p2 k3 = Returned (- 1, p4, k4) \<and>
    is_used fr = 1 \<and> frame_text fr k4 = Some hello \<and> free_frame fr k4 = Returned k5 \<and>
    channel 0 ids rpid cap (a + 1) (b + 1) Empty (s\<lparr>fs_k := k5, fs_send := p4\<rparr>)"
proof -
  let ?x = "int_bytes 1" and ?d = "hello @ replicate (BUF - length hello) 0"
  let ?f = "?x @ ?d"
  note legal = a_frame_legal [OF cap]
  have l: "length ?x = 4" "length ?f = 1028" by (simp_all add: int_bytes_def BUF_def hello_def)
  have r0: "fs_recv s = None" using ch by (auto simp: channel_def)
  obtain s1 where s1: "frame_step 0 ids rpid 16 (Send ?x ?d) s = Some (Accepted, s1)"
    "channel 0 ids rpid cap (a + 1) b (Full ?f) s1"
    using channel_send [OF ch legal] room by auto
  obtain p1 k1 where a1: "a_send ids (fs_send s) (fs_k s) = Returned (0, p1, k1)" "s1 = s\<lparr>fs_k := k1, fs_send := p1\<rparr>"
    using s1(1) unfolding a_send_step by (auto split: call_end.splits if_splits)
  have full: "a_send ids p k = Returned (r, q, k') \<Longrightarrow> r = 0 \<or> r = - 1" for p k r q k'
    unfolding a_send_def
    by (auto simp: send_shared_frame_def Let_def split: if_splits prod.splits option.splits call_end.splits)
  obtain s2 where s2: "frame_step 0 ids rpid 16 (Send ?x ?d) s1 = Some (Refused, s2)"
    "channel 0 ids rpid cap (a + 1) b (Full ?f) s2"
    using channel_send [OF s1(2) legal] room by auto
  obtain p2 k2 r where a2: "a_send ids p1 k1 = Returned (r, p2, k2)" "r \<noteq> 0" "s2 = s\<lparr>fs_k := k2, fs_send := p2\<rparr>"
    using s2(1) unfolding a_send_step by (auto simp: a1(2) split: call_end.splits if_splits)
  have rm: "r = - 1" using full [OF a2(1)] a2(2) by simp
  obtain s3 where s3: "frame_step 0 ids rpid 16 Attach s2 = Some (Got (take 16 ?f), s3)"
    "channel 0 ids rpid cap (a + 1) (b + 1) Taken s3"
    using channel_attach [OF s2(2) room(2), of 16] l by auto
  obtain addr k3 where a3: "attach_shared_frame rpid ids 16 k2 = Returned (addr, take 16 ?f, k3)"
    "s3 = s\<lparr>fs_k := k3, fs_send := p2, fs_recv := Some addr\<rparr>"
    using s3(1) by (auto simp: a2(3) split: call_end.splits)
  let ?fr = "\<lparr>is_used = 1, frame_buf = (addr, 4)\<rparr>"
  have g: "get_frame rpid ids k2 = Returned (?fr, k3)"
    using l(1) by (simp add: get_frame_def a3(1)) (simp add: bytes_int_def int_bytes_def upt_rec)
  obtain s4 where s4: "frame_step 0 ids rpid 16 (Send ?x ?d) s3 = Some (Refused, s4)"
    "channel 0 ids rpid cap (a + 1) (b + 1) Taken s4"
    using channel_send [OF s3(2) legal] room by auto
  obtain p4 k4 r' where a4: "a_send ids p2 k3 = Returned (r', p4, k4)" "r' \<noteq> 0"
    "s4 = s\<lparr>fs_k := k4, fs_send := p4, fs_recv := Some addr\<rparr>"
    using s4(1) unfolding a_send_step by (auto simp: a3(2) split: call_end.splits if_splits)
  have rm': "r' = - 1" using full [OF a4(1)] a4(2) by simp
  have "\<exists>m. mem_at addr k3 = Some m \<and> take (length ?f) m = ?f"
    using attach_memory [OF s2(2)] a3(1) a2(3) by auto
  moreover have "mem_at addr k4 = mem_at addr k3"
    using refused_keeps_memory a4(1) unfolding rm' a_send_def Let_def by blast
  ultimately obtain m where m: "mem_at addr k4 = Some m" "take 1028 m = ?f" unfolding l(2) by auto
  have "m = ?f @ drop 1028 m" using m(2) append_take_drop_id by metis
  then have "drop 4 m = ?d @ drop 1028 m" using l(1) by (metis append_assoc append_eq_conv_conj)
  then have t: "frame_text ?fr k4 = Some hello"
    using m(1) by (simp add: frame_text_def) (simp add: hello_def BUF_def)
  obtain s5 where s5: "frame_step 0 ids rpid 16 Deattach s4 = Some (Released, s5)"
    "channel 0 ids rpid cap (a + 1) (b + 1) Empty s5"
    using channel_deattach [OF s4(2)] by blast
  obtain k5 where f: "free_frame ?fr k4 = Returned k5" "s5 = s\<lparr>fs_k := k5, fs_send := p4, fs_recv := None\<rparr>"
    using s5(1) by (auto simp: a4(3) free_frame_def split: call_end.splits)
  have "s5 = s\<lparr>fs_k := k5, fs_send := p4\<rparr>" using f(2) r0 by simp
  then show ?thesis using a1(1) a2(1) a4(1) rm rm' g t f(1) s5(2) by (intro exI conjI) auto
qed

subsection \<open>Removing a segment\<close>

text \<open>\<open>IPC_STAT\<close> leaves the structure alone when it fails.\<close>

definition stat_nattch :: "int \<Rightarrow> nat \<Rightarrow> sysv \<Rightarrow> nat" where
  "stat_nattch i old k = (case sv_segs k i of None \<Rightarrow> old | Some sg \<Rightarrow> sg_nattch sg)"

text \<open>
  The builds: with \<open>SHMDT\<close> the segments are detached, with \<open>NO_IPC_RMID\<close> the first one is not removed. The result has the
  printed numbers and what is still attached.
\<close>

definition test3_again :: "bool \<Rightarrow> int \<Rightarrow> nat \<Rightarrow> shm_ptr list \<Rightarrow> sysv \<Rightarrow> int \<times> nat list \<times> shm_ptr list \<times> sysv" where
  "test3_again shmdt key n held k =
    (case sys_shmget key 1024 True k of
       (Inl e, k) \<Rightarrow> (- 1, [n], held, k)
     | (Inr i, k) \<Rightarrow>
         (case sys_shmat i k of (addr, k) \<Rightarrow>
           if addr = BadPtr then (- 1, [n], held, k)
           else
             let k = (if shmdt then sys_shmdt addr k else k);
                 m = stat_nattch i n k
             in (0, [n, m], if shmdt then held else addr # held, shm_rmid i k)))"

definition test3_main :: "bool \<Rightarrow> bool \<Rightarrow> int \<Rightarrow> sysv \<Rightarrow> int \<times> nat list \<times> shm_ptr list \<times> sysv" where
  "test3_main shmdt no_rmid key k =
    (case sys_shmget key 1024 True k of
       (Inl e, k) \<Rightarrow> (- 1, [], [], k)
     | (Inr i, k) \<Rightarrow>
         (case sys_shmat i k of (addr, k) \<Rightarrow>
           if addr = BadPtr then (- 1, [], [], k)
           else
             let n = stat_nattch i 0 k;
                 k = (if shmdt then sys_shmdt addr k else k);
                 k = (if no_rmid then k else shm_rmid i k)
             in test3_again shmdt key n (if shmdt then [] else [addr]) k))"

text \<open>The end of the process detaches what it holds.\<close>

definition test3_process :: "bool \<Rightarrow> bool \<Rightarrow> int \<Rightarrow> sysv \<Rightarrow> int \<times> nat list \<times> sysv" where
  "test3_process shmdt no_rmid key k =
    (case test3_main shmdt no_rmid key k of (r, out, held, k) \<Rightarrow> (r, out, fold sys_shmdt held k))"

lemma test3_removes:
  assumes ok: "sysv_ok k" and free: "sv_shm_keys k key = None" and room: "1024 \<le> sv_shmmax k"
  shows "\<exists>k'. test3_process shmdt False key k = (0, [1, if shmdt then 0 else 1], k') \<and> sv_segs k' = sv_segs k \<and>
    sv_shm_keys k' = sv_shm_keys k"
proof -
  have new: "sv_segs k (sv_next k) = None" "sv_segs k (sv_next k + 1) = None"
    using ok unfolding sysv_ok_def by force+
  show ?thesis
    using free room new
    by (cases shmdt)
      (auto simp: test3_process_def test3_main_def test3_again_def sys_shmget_def sys_shmat_def sys_shmdt_def
        shm_rmid_def stat_nattch_def Let_def fun_eq_iff)
qed

lemma test3_leaks:
  assumes ok: "sysv_ok k" and free: "sv_shm_keys k key = None" and room: "1024 \<le> sv_shmmax k"
  shows "\<exists>k'. test3_process shmdt True key k = (- 1, [1], k') \<and> sv_shm_keys k' key = Some (sv_next k) \<and>
    sv_segs k' (sv_next k) \<noteq> None \<and> test3_process shmdt' no_rmid key k' = (- 1, [], k')"
proof -
  have new: "sv_segs k (sv_next k) = None"
    using ok unfolding sysv_ok_def by force
  show ?thesis
    using free room new
    by (cases shmdt)
      (auto simp: test3_process_def test3_main_def test3_again_def sys_shmget_def sys_shmat_def sys_shmdt_def
        shm_rmid_def stat_nattch_def Let_def)
qed

end
