(* ===== verification/Program_Properties.thy ===== *)
theory Program_Properties
  imports Pair_Queues Backtrace Create_Process Inherited_Socket Shm_Programs Ipc_Properties Glibc_Properties
begin

text \<open>
  The properties of the programs and of the library for backtraces, with instances: the two builds of the paired queues,
  a stack of three frames, a command with two words, the server of the inherited socket, and the kernel and sender
  of \<open>Ipc_Properties\<close>.
\<close>

subsection \<open>Paired queues\<close>

definition ex_pairs :: sem_sys where
  "ex_pairs = \<lparr>queue1 = [], queue2 = [], npc = (\<lambda>_. Pushing), sem = 0, woken = False\<rparr>"

definition ex_cond :: cond_sys where
  "ex_cond = \<lparr>queue1 = [], queue2 = [], npc = (\<lambda>_. Pushing), ready = False, wpc = Locking\<rparr>"

text \<open>C36: with the semaphore no pair is forgotten, in whatever order the threads run: the queues never have more than four
  items, and when both producers have posted and the consumer waits on a semaphore that is 0, one queue is empty.\<close>

theorem semaphore_loses_no_pair:
  assumes "rtranclp (acts sem_act) s t" "queue1 s = []" "queue2 s = []"
  shows "length (queue1 t) \<le> 4 \<and> length (queue2 t) \<le> 4 \<and>
    (npc t First = Pushing \<and> npc t Second = Pushing \<and> \<not> woken t \<and> sem t = 0 \<longrightarrow> queue1 t = [] \<or> queue2 t = [])"
proof -
  have "sem_inv s" using assms(2,3) by (simp add: sem_inv_def queues_short_def pairs_ready_def)
  from sem_sys.reaches_inv [OF assms(1) this] show ?thesis
    by (auto simp: sem_inv_def queues_short_def pairs_ready_def posts_due_def min_def split: if_splits)
qed

theorem semaphore_loses_no_pair_witness:
  "\<exists>t. act_run sem_act [Push First 1, Push Second 2, Notify First, Notify Second, Await, Drain, Await, Drain] ex_pairs = Some t \<and>
    (queue1 t = [] \<or> queue2 t = [])"
proof -
  let ?as = "[Push First 1, Push Second 2, Notify First, Notify Second, Await, Drain, Await, Drain]"
  obtain t where t: "act_run sem_act ?as ex_pairs = Some t" "npc t First = Pushing" "npc t Second = Pushing" "\<not> woken t" "sem t = 0"
    by (simp add: ex_pairs_def push_info_def push4_def take_pair_def Let_def)
  have "queue1 ex_pairs = []" "queue2 ex_pairs = []" by (simp_all add: ex_pairs_def)
  from semaphore_loses_no_pair [OF act_run_reaches [OF t(1)] this] t show ?thesis by blast
qed

text \<open>With the flag and the condition variable the consumer may sleep while there are three whole pairs: several
  notifications before it runs count as one.\<close>

theorem condition_strands_pairs:
  "\<exists>t. rtranclp (acts cond_act) ex_cond t \<and> wpc t = Asleep \<and> \<not> ready t \<and> npc t First = Pushing \<and> npc t Second = Pushing \<and>
    length (queue1 t) = 3 \<and> length (queue2 t) = 3"
proof -
  let ?put = "[Push First 1, Push Second 2, Notify First, Notify Second]"
  let ?as = "?put @ ?put @ ?put @ ?put @ [Await, Recheck, Drain, Await, Recheck]"
  have run: "map_option wpc (act_run cond_act ?as ex_cond) = Some Asleep"
    "map_option ready (act_run cond_act ?as ex_cond) = Some False"
    "map_option (\<lambda>t. (npc t First, npc t Second)) (act_run cond_act ?as ex_cond) = Some (Pushing, Pushing)"
    "map_option (\<lambda>t. (length (queue1 t), length (queue2 t))) (act_run cond_act ?as ex_cond) = Some (3, 3)"
    by code_simp+
  then obtain t where t: "act_run cond_act ?as ex_cond = Some t" by blast
  show ?thesis using run act_run_reaches [OF t] unfolding t by (intro exI [of _ t]) simp
qed

text \<open>Asleep, the consumer has not missed the flag, and the queues are short in this build as well.\<close>

theorem condition_keeps_flag:
  assumes "rtranclp (acts cond_act) ex_cond t"
  shows "length (queue1 t) \<le> 4 \<and> length (queue2 t) \<le> 4 \<and> (wpc t = Asleep \<longrightarrow> \<not> ready t)"
proof -
  have "cond_inv ex_cond" by (simp add: cond_inv_def ex_cond_def queues_short_def)
  from cond_sys.reaches_inv [OF assms this] show ?thesis by (auto simp: cond_inv_def queues_short_def)
qed

subsection \<open>Backtraces\<close>

definition ex_dladdr :: "u64 \<Rightarrow> dl_info option" where
  "ex_dladdr a = (if a = 0 then None else Some \<lparr>dli_fname = Some ''a.out'', dli_sname = Some ''main'', dli_saddr = 16\<rparr>)"

text \<open>C37: \<open>watch_backtrace\<close> prints one numbered line for each of the up to 15 callers, innermost first, exactly when the pointers and
  the lines have room in 1536 bytes; otherwise it does not return: the assertion fails, unless the lines have
  already run over the 12288 bytes of the array.\<close>

theorem watch_backtrace_exact:
  assumes "\<forall>a \<in> set (callers (self # ips) 15). CHR 0x00 \<notin> set (symbol_text (dladdr a) a)"
  shows "watch_backtrace dladdr (self # ips) =
    (let cs = callers (self # ips) 15; text = (\<lambda>a. symbol_text (dladdr a) a)
     in if 8 * length cs + (\<Sum>a\<leftarrow>cs. length (text a) + 1) \<le> 1536
        then Some (map (\<lambda>i. numbered i (text (cs ! i))) [0..<length cs]) else None)"
  using watch_backtrace_lines [of self ips dladdr] assms
  by (simp add: MAX_SYS_TRACE_LAYER_def MAX_SYS_TRACE_PRINT_def text_bytes_def Let_def)

theorem watch_backtrace_exact_witness:
  "watch_backtrace ex_dladdr [1, 32, 0] = Some [''#00 a.out(main+0x10) [0x20]'' @ [CHR 0x0A]]"
proof -
  have c: "callers [1, 32, 0] 15 = [32 :: u64]" by code_simp
  have t: "symbol_text (ex_dladdr 32) 32 = ''a.out(main+0x10) [0x20]''" by code_simp
  have n: "numbered 0 t = ''#00 '' @ t @ [CHR 0x0A]" for t by (simp add: numbered_def)
  have z: "\<forall>a \<in> set (callers [1, 32, 0] 15). CHR 0x00 \<notin> set (symbol_text (ex_dladdr a) a)"
    unfolding c by (simp add: t)
  show ?thesis using watch_backtrace_exact [OF z] by (simp add: c t n Let_def)
qed

text \<open>The lengths the code adds up beforehand are enough, and so is the buffer for an offset.\<close>

theorem symbol_text_fits:
  "length (symbol_text info a) + 1 \<le> symbol_room info \<and> length (offset_text a s) + 1 \<le> 20"
  using symbol_text_length [of info a] offset_text_length [of a s] by simp

subsection \<open>Starting a process\<close>

text \<open>C38: the command line of \<open>CreateProcess_ex\<close> is taken apart at the spaces: a program and up to 32 words that are neither \<open>>\<close> nor
  start with a dollar, and perhaps a redirection, come out as they were joined, with the program's name twice; one
  word more, and the array overflows.\<close>

theorem command_words_roundtrip:
  assumes "\<forall>w \<in> set (prog # ws). CHR '' '' \<notin> set w" "\<forall>w \<in> set ws. plain_word w"
    and "last (prog # ws @ redirect_words f) \<noteq> []" "\<forall>g. f = Some g \<longrightarrow> CHR '' '' \<notin> set g \<and> plain_word g"
  shows "parse_command getenv opens (join_words (prog # ws @ redirect_words f)) =
    (if length ws \<le> 32
     then Some \<lparr>pa_args = prog # prog # ws, pa_redirection = False,
       pa_stdout = (case f of Some g \<Rightarrow> if opens g then Some g else None | None \<Rightarrow> None)\<rparr>
     else None)"
  using parse_command_words [OF assms, of getenv opens] by (simp add: PROCESS_MAX_PARAMS_def)

theorem command_words_roundtrip_witness:
  "parse_command (\<lambda>_. None) (\<lambda>_. True) ''ls -l > out'' =
    Some \<lparr>pa_args = [''ls'', ''ls'', ''-l''], pa_redirection = False, pa_stdout = Some ''out''\<rparr>"
proof -
  have j: "join_words (''ls'' # [''-l''] @ redirect_words (Some ''out'')) = ''ls -l > out''" by code_simp
  show ?thesis
    using command_words_roundtrip [of "''ls''" "[''-l'']" "Some ''out''" "\<lambda>_. None" "\<lambda>_. True"]
    unfolding j by (simp add: plain_word_def redirect_words_def)
qed

text \<open>A variable in braces is looked up with its braces, so that in an environment without such names the word is
  dropped.\<close>

theorem braces_are_not_expanded:
  assumes "x \<noteq> []" "hd x \<noteq> CHR ''{''" "getenv (''{'' @ x @ ''}'') = None"
  shows "parse_elem getenv opens (''${'' @ x @ ''}'') st = Some st"
  using assms env_name_braces [OF assms(1,2)] by (simp add: parse_elem_def)

text \<open>C39: a call of \<open>CreateProcess\<close> on its own, in a state like that of a program that calls \<open>system\<close>, starts the same child,
  with the same arguments, signal mask and dispositions, and restores everything; it returns 0 for any status but - 1.
  In both functions the calls of \<open>sigaction\<close> and \<open>sigprocmask\<close>, which have valid arguments, succeed; starting the child
  and waiting for it may fail.\<close>

theorem create_process_is_system:
  assumes "do_system_232 t line ret ws S = Some (status, S')" "sa_refcntr S = 0"
    and "cp_disp s = sy_disp S" "cp_mask s = sy_mask S"
  shows "create_process False t (Some line) (all_succeed ret ws) s =
    Some (if status = - 1 then - 1 else 0, if sy_children S' = sy_children S then None else Some (hd (sy_children S')), s)"
  using assms by (rule create_process_system)

theorem create_process_is_system_witness:
  "\<exists>c. create_process False 0 (Some ''ls'') (all_succeed (Inr 7) [Inl EINTR, Inr 256])
      \<lparr>cp_disp = sy_disp ex_sys, cp_mask = sy_mask ex_sys\<rparr> =
    Some (0, c, \<lparr>cp_disp = sy_disp ex_sys, cp_mask = sy_mask ex_sys\<rparr>)"
proof -
  have "map_option fst (do_system_232 0 ''ls'' (Inr 7) [Inl EINTR, Inr 256] ex_sys) = Some 256"
    by (simp add: do_system_232_begun begun_232_phase wait_shell_def Let_def setter_defs)
  then obtain S' where S': "do_system_232 0 ''ls'' (Inr 7) [Inl EINTR, Inr 256] ex_sys = Some (256, S')" by auto
  show ?thesis
    using create_process_is_system [OF S' ex_sys_idle(2), of "\<lparr>cp_disp = sy_disp ex_sys, cp_mask = sy_mask ex_sys\<rparr>"] by auto
qed

text \<open>Unlike those of \<open>system\<close>, calls of \<open>CreateProcess\<close> by two threads that overlap without being nested leave \<open>SIGINT\<close> and
  \<open>SIGQUIT\<close> ignored for good, although every system call succeeds.\<close>

theorem create_process_overlap:
  assumes "cp_enter SIG_IGN t (all_succeed r ws) s = (Some f, s1)" "cp_enter SIG_IGN t' (all_succeed r' ws') s1 = (Some f', s2)"
    and "cp_leave t f (all_succeed r ws) st s2 = (x, s3)" "cp_leave t' f' (all_succeed r' ws') st' s3 = (x', s4)"
  shows "cp_disp s4 SIGINT = SIG_IGN \<and> cp_disp s4 SIGQUIT = SIG_IGN"
  using overlap_leaves_ignored [OF assms(1,2), of s4 st' st] assms(3,4) by simp

theorem create_process_overlap_witness:
  "\<exists>f f' s1 s2 x x' s3 s4. cp_enter SIG_IGN 0 (all_succeed (Inr 7) []) \<lparr>cp_disp = \<lambda>_. SIG_DFL, cp_mask = \<lambda>_. {}\<rparr> = (Some f, s1) \<and>
    cp_enter SIG_IGN 1 (all_succeed (Inr 8) []) s1 = (Some f', s2) \<and>
    cp_leave 0 f (all_succeed (Inr 7) []) 0 s2 = (x, s3) \<and> cp_leave 1 f' (all_succeed (Inr 8) []) 0 s3 = (x', s4) \<and>
    cp_disp s4 SIGINT = SIG_IGN"
proof -
  obtain f s1 where 1: "cp_enter SIG_IGN 0 (all_succeed (Inr 7) []) \<lparr>cp_disp = \<lambda>_. SIG_DFL, cp_mask = \<lambda>_. {}\<rparr> = (Some f, s1)"
    by (simp add: cp_enter_ok)
  obtain f' s2 where 2: "cp_enter SIG_IGN 1 (all_succeed (Inr 8) []) s1 = (Some f', s2)"
    by (simp add: cp_enter_ok)
  obtain x s3 where 3: "cp_leave 0 f (all_succeed (Inr 7) []) 0 s2 = (x, s3)" by fastforce
  obtain x' s4 where 4: "cp_leave 1 f' (all_succeed (Inr 8) []) 0 s3 = (x', s4)" by fastforce
  show ?thesis using create_process_overlap [OF 1 2 3 4] 1 2 3 4 by blast
qed

text \<open>A call that cannot ignore \<open>SIGQUIT\<close> leaves \<open>SIGINT\<close> ignored.\<close>

theorem create_process_half_way:
  assumes "an_int an = None" "an_quit an \<noteq> None"
  shows "create_process no_wait t (Some line) an s =
    Some (- 1, None, s\<lparr>cp_disp := (cp_disp s)(SIGINT := SIG_IGN)\<rparr>)"
  using assms by (rule half_way_leaves_ignored)

subsection \<open>The inherited socket\<close>

text \<open>With \<open>SOCK_CLOEXEC\<close> the started program never has a socket that was or will be bound, at whatever moment the other
  thread forks: once it runs, only the server itself can keep the port.\<close>

theorem sock_cloexec_frees_port:
  assumes "rtranclp (inherit_step Use_Sock_Cloexec) inherit_start s" "ih_sub s = Executing m"
  shows "(\<forall>x \<in> ih_listening s. m x = None) \<and> (port_in_use s \<longleftrightarrow> (\<exists>x \<in> ih_listening s. ih_fds s x \<noteq> None))"
  using program_without_listener [OF assms] port_used_by_server [OF assms] by blast

theorem sock_cloexec_frees_port_witness:
  "\<exists>(s :: inherit_sys) m. ih_sub s = Executing m \<and> ih_pc s = In_Session \<and> (\<forall>x \<in> ih_listening s. m x = None)"
proof -
  obtain s m where s: "rtranclp (inherit_step Use_Sock_Cloexec) inherit_start s" "ih_pc s = In_Session" "ih_sub s = Executing m"
    using connection_inherited by blast
  have "\<forall>x \<in> ih_listening s. m x = None" using sock_cloexec_frees_port [OF s(1,3)] by blast
  with s(2,3) show ?thesis by blast
qed

text \<open>With \<open>fcntl\<close> the other thread may fork before the flag is set; then the program keeps the port and the server's next
  \<open>bind\<close> fails. A connection is inherited in every build.\<close>

theorem fd_cloexec_races:
  "(\<exists>s. rtranclp (inherit_step Use_Fd_Cloexec) inherit_start s \<and> ih_pc s = At_Bind \<and> port_in_use s \<and>
      (\<exists>m. ih_sub s = Executing m \<and> (\<exists>x \<in> ih_listening s. m x \<noteq> None))) \<and>
    (\<exists>s. rtranclp (inherit_step Use_Sock_Cloexec) inherit_start s \<and> ih_sub s = Executing [ih_connect s \<mapsto> False])"
proof
  obtain s where "rtranclp (inherit_step Use_Fd_Cloexec) inherit_start s" "ih_pc s = At_Bind" "port_in_use s"
    "ih_sub s = Executing [0 \<mapsto> False]" "0 \<in> ih_listening s"
    using raced_port_in_use by blast
  then show "\<exists>s. rtranclp (inherit_step Use_Fd_Cloexec) inherit_start s \<and> ih_pc s = At_Bind \<and> port_in_use s \<and>
      (\<exists>m. ih_sub s = Executing m \<and> (\<exists>x \<in> ih_listening s. m x \<noteq> None))"
    by (intro exI [of _ s]) auto
qed (use connection_inherited in blast)

text \<open>The client's buffers make the server write behind its own; a client that is gone makes it spin.\<close>

theorem client_breaks_session:
  "msg_loop (map Inr client_sends) = Overflow \<and> msg_loop (replicate n (Inr [])) = Still_Waiting"
  using client_overflows closed_connection_spins by blast

subsection \<open>A sender and a receiver\<close>

text \<open>C40: the sender \<open>a.c\<close> creates a channel; its first frame is accepted, its next one refused until the receiver \<open>b.c\<close> has
  released the frame: before the receiver has taken it, and also while the receiver has it and prints \<open>hello\<close>. After that
  the sender is accepted again.\<close>

theorem hello_is_handed_over:
  assumes "sysv_ok k" "1028 \<le> sv_shmmax k" "g_flag p = 0" "fp_pid p \<noteq> rpid"
  shows "\<exists>ids p0 k0 p1 k1 p2 k2 frame k3 p4 k4 k5 p6 k6.
    create_shared_frame ftok 1028 p k = Returned (ids, p0, k0) \<and> get_frame_start ftok 0 k0 = (0, ids) \<and>
    a_send ids p0 k0 = Returned (0, p1, k1) \<and> a_send ids p1 k1 = Returned (- 1, p2, k2) \<and>
    get_frame rpid ids k2 = Returned (frame, k3) \<and> a_send ids p2 k3 = Returned (- 1, p4, k4) \<and>
    is_used frame = 1 \<and> frame_text frame k4 = Some hello \<and> free_frame frame k4 = Returned k5 \<and>
    a_send ids p4 k5 = Returned (0, p6, k6)"
proof -
  obtain ids p0 k0 where c: "create_shared_frame ftok 1028 p k = Returned (ids, p0, k0)" "get_frame_start ftok 0 k0 = (0, ids)"
    "channel 0 ids rpid (page_round 1028) 0 0 Empty \<lparr>fs_k = k0, fs_send = p0, fs_recv = None\<rparr>"
    using create_makes_channel [OF assms(1), of 1028 p rpid ftok] assms(2-4) by auto
  have cap: "1028 \<le> page_round 1028" using page_round_bound [of 1028] by simp
  obtain p1 k1 p2 k2 frame k3 p4 k4 k5 where r: "a_send ids p0 k0 = Returned (0, p1, k1)"
    "a_send ids p1 k1 = Returned (- 1, p2, k2)" "get_frame rpid ids k2 = Returned (frame, k3)"
    "a_send ids p2 k3 = Returned (- 1, p4, k4)" "is_used frame = 1" "frame_text frame k4 = Some hello"
    "free_frame frame k4 = Returned k5"
    "channel 0 ids rpid (page_round 1028) 1 1 Empty \<lparr>fs_k = k5, fs_send = p4, fs_recv = None\<rparr>"
    using hello_arrives [OF c(3) cap] by auto
  obtain p6 k6 where "a_send ids p4 k5 = Returned (0, p6, k6)"
    using hello_arrives [OF r(8) cap] by auto
  then show ?thesis using c(1,2) r(1-7) by blast
qed

theorem hello_is_handed_over_witness:
  "\<exists>ids p0 k0 p1 k1 p2 k2 frame k3 p4 k4. create_shared_frame id 1028 ex_sender ex_sysv = Returned (ids, p0, k0) \<and>
    a_send ids p0 k0 = Returned (0, p1, k1) \<and> a_send ids p1 k1 = Returned (- 1, p2, k2) \<and>
    get_frame 2 ids k2 = Returned (frame, k3) \<and> a_send ids p2 k3 = Returned (- 1, p4, k4) \<and> frame_text frame k4 = Some hello"
proof -
  have "g_flag ex_sender = 0" "fp_pid ex_sender \<noteq> 2" using ex_sysv_ok(2-4) by simp_all
  then show ?thesis
    using hello_is_handed_over [OF ex_sysv_ok(1) _ \<open>g_flag ex_sender = 0\<close> \<open>fp_pid ex_sender \<noteq> 2\<close>, of id] ex_sysv_ok(2) by auto
qed

text \<open>A segment that is removed after it was created can be created again, attached or not, and nothing is left; one that is not
  removed stays behind and stops every later run.\<close>

theorem removal_decides_next_run:
  assumes "sysv_ok k" "sv_shm_keys k key = None" "1024 \<le> sv_shmmax k"
  shows "(\<exists>k'. test3_process shmdt False key k = (0, [1, if shmdt then 0 else 1], k') \<and> sv_segs k' = sv_segs k \<and>
      sv_shm_keys k' = sv_shm_keys k) \<and>
    (\<exists>k'. test3_process shmdt True key k = (- 1, [1], k') \<and> test3_process shmdt' no_rmid key k' = (- 1, [], k'))"
  using test3_removes [OF assms] test3_leaks [OF assms] by blast

end
