(* ===== verification/Sync_Programs.thy ===== *)
theory Sync_Programs
  imports Pair_Queues Frame_Ipc
begin

text \<open>
  Two small programs of \<open>InterProcessComm/code\<close>: \<open>test1.cpp\<close>, a thread that notifies and one that waits, and \<open>sem_test.c\<close>, a
  process that waits for its child with a System V semaphore.
\<close>

subsection \<open>\<open>test1.cpp\<close>\<close>

text \<open>
  The notifier locks the mutex, sets the flag, notifies and sleeps; with \<open>USE_FUNC\<close> it has unlocked the mutex before it
  sleeps. The waiter is that of \<open>Pair_Queues\<close>; \<open>Taking\<close> is behind its loop, where it sleeps with the mutex. The counters are the
  notifications and the lines of the waiter.
\<close>

record flag_sys =
  t1_ready :: bool
  t1_wait :: wait_pc
  t1_sleeping :: bool
  t1_sent :: nat
  t1_seen :: nat

datatype flag_act = Set_ready | Slept | Lock_or_wake | Test_ready | Leave

definition t1_start :: flag_sys where
  "t1_start = \<lparr>t1_ready = False, t1_wait = Locking, t1_sleeping = False, t1_sent = 0, t1_seen = 0\<rparr>"

definition waiter_holds :: "flag_sys \<Rightarrow> bool" where
  "waiter_holds s \<longleftrightarrow> t1_wait s = Testing \<or> t1_wait s = Taking"

definition notifier_holds :: "bool \<Rightarrow> flag_sys \<Rightarrow> bool" where
  "notifier_holds use_func s \<longleftrightarrow> \<not> use_func \<and> t1_sleeping s"

fun notify_routine :: "flag_act \<Rightarrow> flag_sys \<Rightarrow> flag_sys option" where
  "notify_routine Set_ready s =
    (if \<not> t1_sleeping s \<and> \<not> waiter_holds s
     then Some (s\<lparr>t1_ready := True, t1_wait := (if t1_wait s = Asleep then Relocking else t1_wait s), t1_sleeping := True,
       t1_sent := t1_sent s + 1\<rparr>)
     else None)"
| "notify_routine Slept s = (if t1_sleeping s then Some (s\<lparr>t1_sleeping := False\<rparr>) else None)"
| "notify_routine a s = None"

fun wait_routine :: "bool \<Rightarrow> flag_act \<Rightarrow> flag_sys \<Rightarrow> flag_sys option" where
  "wait_routine use_func Lock_or_wake s =
    (case t1_wait s of
       Asleep \<Rightarrow> Some (s\<lparr>t1_wait := Relocking\<rparr>)
     | Testing \<Rightarrow> None
     | Taking \<Rightarrow> None
     | _ \<Rightarrow> if notifier_holds use_func s then None else Some (s\<lparr>t1_wait := Testing\<rparr>))"
| "wait_routine use_func Test_ready s =
    (if t1_wait s = Testing
     then Some (if t1_ready s then s\<lparr>t1_ready := False, t1_wait := Taking, t1_seen := t1_seen s + 1\<rparr>
                else s\<lparr>t1_wait := Asleep\<rparr>)
     else None)"
| "wait_routine use_func Leave s = (if t1_wait s = Taking then Some (s\<lparr>t1_wait := Locking\<rparr>) else None)"
| "wait_routine use_func a s = None"

definition flag_step :: "bool \<Rightarrow> flag_act \<Rightarrow> flag_sys \<Rightarrow> flag_sys option" where
  "flag_step use_func a s = (case notify_routine a s of None \<Rightarrow> wait_routine use_func a s | Some t \<Rightarrow> Some t)"

definition flag_inv :: "bool \<Rightarrow> flag_sys \<Rightarrow> bool" where
  "flag_inv use_func s \<longleftrightarrow> t1_seen s + (if t1_ready s then 1 else 0) \<le> t1_sent s \<and>
    (t1_wait s = Asleep \<longrightarrow> \<not> t1_ready s) \<and> \<not> (waiter_holds s \<and> notifier_holds use_func s)"

lemma flag_step_inv:
  assumes "flag_inv use_func s" "flag_step use_func a s = Some t"
  shows "flag_inv use_func t"
  using assms
  by (cases a) (auto simp: flag_step_def flag_inv_def waiter_holds_def notifier_holds_def split: if_splits wait_pc.splits)

interpretation flag_sys: invariant_system "acts (flag_step use_func)" "flag_inv use_func" for use_func
  by unfold_locales (auto simp: acts_def intro: flag_step_inv)

text \<open>Every line of the waiter has a notification of its own, and the two never have the mutex at once.\<close>

theorem waited_after_ready:
  assumes "rtranclp (acts (flag_step use_func)) t1_start s"
  shows "t1_seen s \<le> t1_sent s \<and> (t1_wait s = Asleep \<longrightarrow> \<not> t1_ready s) \<and> \<not> (waiter_holds s \<and> notifier_holds use_func s)"
proof -
  have "flag_inv use_func t1_start" by (simp add: flag_inv_def t1_start_def waiter_holds_def)
  from flag_sys.reaches_inv [OF assms this] show ?thesis by (auto simp: flag_inv_def split: if_splits)
qed

text \<open>Without \<open>USE_FUNC\<close> the notifier may go on for ever while the waiter waits for the mutex.\<close>

theorem notifier_starves_waiter:
  "\<exists>s. rtranclp (acts (flag_step False)) t1_start s \<and> t1_sent s = n + 1 \<and> t1_seen s = 0 \<and> t1_sleeping s \<and>
    (\<forall>a. wait_routine False a s = None)"
proof -
  let ?s = "\<lambda>n. \<lparr>t1_ready = True, t1_wait = Locking, t1_sleeping = True, t1_sent = n + 1, t1_seen = 0\<rparr>"
  have "rtranclp (acts (flag_step False)) t1_start (?s n)"
  proof (induction n)
    case 0
    have "act_run (flag_step False) [Set_ready] t1_start = Some (?s 0)"
      by (simp add: flag_step_def t1_start_def waiter_holds_def)
    then show ?case by (rule act_run_reaches)
  next
    case (Suc n)
    have "act_run (flag_step False) [Slept, Set_ready] (?s n) = Some (?s (Suc n))"
      by (simp add: flag_step_def waiter_holds_def)
    then show ?case using Suc act_run_reaches by (metis rtranclp_trans)
  qed
  moreover have "wait_routine False a (?s n) = None" for a by (cases a) (simp_all add: notifier_holds_def)
  ultimately show ?thesis by (intro exI [of _ "?s n"]) simp
qed

subsection \<open>\<open>sem_test.c\<close>\<close>

text \<open>\<open>semop\<close> without \<open>SEM_UNDO\<close>, and \<open>semget\<close> with \<open>IPC_CREAT\<close> alone, which takes the set that is there.\<close>

definition semop_no_undo :: "int \<Rightarrow> int \<Rightarrow> sysv \<Rightarrow> (errno option \<times> sysv) call_end" where
  "semop_no_undo i n k =
    (case sv_sems k i of
       None \<Rightarrow> Returned (Some EINVAL, k)
     | Some (key, v) \<Rightarrow>
         if v + n < 0 then Stuck
         else if v + n > SEMVMX then Returned (Some ERANGE, k)
         else Returned (None, k\<lparr>sv_sems := (sv_sems k)(i \<mapsto> (key, v + n))\<rparr>))"

definition semget_creat :: "int \<Rightarrow> sysv \<Rightarrow> int \<times> sysv" where
  "semget_creat key k =
    (case sv_sem_keys k key of
       Some i \<Rightarrow> (i, k)
     | None \<Rightarrow> (case sys_semget key True k of (Inr i, k) \<Rightarrow> (i, k) | (Inl e, k) \<Rightarrow> (- 1, k)))"

text \<open>\<open>sem_op_\<close>, with the flag of the code (0) or that of the text that explains it (\<open>SEM_UNDO\<close>).\<close>

definition sem_op_of :: "bool \<Rightarrow> nat \<Rightarrow> char \<Rightarrow> int \<Rightarrow> sysv \<Rightarrow> (int \<times> sysv) call_end" where
  "sem_op_of undo pid opt semid k =
    (let n = (if opt = CHR ''p'' then - 1 else 1)
     in case (if undo then sys_semop pid semid n k else semop_no_undo semid n k) of
          Returned (Some e, k) \<Rightarrow> Returned (- 1, k)
        | Returned (None, k) \<Rightarrow> Returned (0, k)
        | Stuck \<Rightarrow> Stuck
        | Crashed \<Rightarrow> Crashed)"

datatype sem_line = Child_waits | Child_line | Father_line

datatype child_pc = Ch_start | Ch_wake | Ch_post | Ch_exit | Ch_gone
datatype father_pc = Fa_wait | Fa_print | Fa_delete | Fa_gone

record sem_test =
  st_k :: sysv
  st_id :: int
  st_child :: child_pc
  st_father :: father_pc
  st_out :: "sem_line list"

text \<open>The child has the number 1, its father 0; both return from \<open>fork\<close> here.\<close>

definition sem_test_start :: "int \<Rightarrow> sysv \<Rightarrow> sem_test" where
  "sem_test_start key k =
    (case semget_creat key k of
       (semid, k) \<Rightarrow> \<lparr>st_k = sem_setval semid 0 k, st_id = semid, st_child = Ch_start, st_father = Fa_wait, st_out = []\<rparr>)"

definition child_step :: "bool \<Rightarrow> sem_test \<Rightarrow> sem_test option" where
  "child_step undo s =
    (case st_child s of
       Ch_start \<Rightarrow> Some (s\<lparr>st_child := Ch_wake, st_out := st_out s @ [Child_waits]\<rparr>)
     | Ch_wake \<Rightarrow> Some (s\<lparr>st_child := Ch_post, st_out := st_out s @ [Child_line]\<rparr>)
     | Ch_post \<Rightarrow>
         (case sem_op_of undo 1 (CHR ''v'') (st_id s) (st_k s) of
            Returned (r, k) \<Rightarrow> Some (s\<lparr>st_k := k, st_child := Ch_exit\<rparr>)
          | _ \<Rightarrow> None)
     | Ch_exit \<Rightarrow> Some (s\<lparr>st_k := exit_sem 1 (st_id s) (st_k s), st_child := Ch_gone\<rparr>)
     | Ch_gone \<Rightarrow> None)"

definition father_step :: "bool \<Rightarrow> sem_test \<Rightarrow> sem_test option" where
  "father_step undo s =
    (case st_father s of
       Fa_wait \<Rightarrow>
         (case sem_op_of undo 0 (CHR ''p'') (st_id s) (st_k s) of
            Returned (r, k) \<Rightarrow> Some (s\<lparr>st_k := k, st_father := Fa_print\<rparr>)
          | _ \<Rightarrow> None)
     | Fa_print \<Rightarrow> Some (s\<lparr>st_father := Fa_delete, st_out := st_out s @ [Father_line]\<rparr>)
     | Fa_delete \<Rightarrow> Some (s\<lparr>st_k := sem_rmid (st_id s) (st_k s), st_father := Fa_gone\<rparr>)
     | Fa_gone \<Rightarrow> None)"

definition sem_test_step :: "bool \<Rightarrow> bool \<Rightarrow> sem_test \<Rightarrow> sem_test option" where
  "sem_test_step undo is_child s = (if is_child then child_step undo s else father_step undo s)"

fun child_lines :: "child_pc \<Rightarrow> sem_line list" where
  "child_lines Ch_start = []"
| "child_lines Ch_wake = [Child_waits]"
| "child_lines c = [Child_waits, Child_line]"

definition posted :: "child_pc \<Rightarrow> bool" where
  "posted c \<longleftrightarrow> c = Ch_exit \<or> c = Ch_gone"

definition sem_test_inv :: "int \<Rightarrow> sem_test \<Rightarrow> bool" where
  "sem_test_inv key s \<longleftrightarrow> sv_undo (st_k s) 1 (st_id s) = 0 \<and>
    (case st_father s of
       Fa_wait \<Rightarrow> sv_sems (st_k s) (st_id s) = Some (key, if posted (st_child s) then 1 else 0) \<and>
         st_out s = child_lines (st_child s)
     | Fa_print \<Rightarrow> posted (st_child s) \<and> sv_sems (st_k s) (st_id s) = Some (key, 0) \<and> st_out s = [Child_waits, Child_line]
     | Fa_delete \<Rightarrow> posted (st_child s) \<and> sv_sems (st_k s) (st_id s) = Some (key, 0) \<and>
         st_out s = [Child_waits, Child_line, Father_line]
     | Fa_gone \<Rightarrow> posted (st_child s) \<and> sv_sems (st_k s) (st_id s) = None \<and>
         st_out s = [Child_waits, Child_line, Father_line])"

lemma child_step_inv: "sem_test_inv key s \<Longrightarrow> child_step False s = Some t \<Longrightarrow> sem_test_inv key t"
  by (cases "st_child s"; cases "st_father s")
    (auto simp: sem_test_inv_def child_step_def sem_op_of_def semop_no_undo_def exit_sem_def posted_def SEMVMX_def)

lemma father_step_inv: "sem_test_inv key s \<Longrightarrow> father_step False s = Some t \<Longrightarrow> sem_test_inv key t"
  by (cases "st_child s"; cases "st_father s")
    (auto simp: sem_test_inv_def father_step_def sem_op_of_def semop_no_undo_def sem_rmid_def posted_def SEMVMX_def)

interpretation sem_test: invariant_system "acts (sem_test_step False)" "sem_test_inv key" for key
  by unfold_locales (auto simp: acts_def sem_test_step_def intro: child_step_inv father_step_inv split: if_splits)

lemma sem_test_start_inv:
  assumes "sysv_ok k"
  shows "sem_test_inv key (sem_test_start key k)"
proof (cases "sv_sem_keys k key")
  case None
  then show ?thesis
    by (simp add: sem_test_start_def semget_creat_def sys_semget_def Let_def sem_setval_def sem_test_inv_def posted_def)
next
  case (Some i)
  then obtain v where "sv_sems k i = Some (key, v)" using assms unfolding sysv_ok_def by blast
  then show ?thesis using Some by (simp add: sem_test_start_def semget_creat_def sem_setval_def sem_test_inv_def posted_def)
qed

text \<open>The father prints after his child, and when both can do no more both are gone, and the semaphore as well.\<close>

theorem father_waits_for_child:
  assumes "sysv_ok k" "rtranclp (acts (sem_test_step False)) (sem_test_start key k) s"
  shows "(Father_line \<in> set (st_out s) \<longrightarrow> st_out s = [Child_waits, Child_line, Father_line]) \<and>
    (child_step False s = None \<and> father_step False s = None \<longrightarrow>
      st_out s = [Child_waits, Child_line, Father_line] \<and> sv_sems (st_k s) (st_id s) = None)"
proof -
  have "sem_test_inv key s" using sem_test.reaches_inv [OF assms(2) sem_test_start_inv [OF assms(1)]] .
  then show ?thesis
    by (cases "st_child s"; cases "st_father s")
      (auto simp: sem_test_inv_def child_step_def father_step_def sem_op_of_def semop_no_undo_def posted_def SEMVMX_def)
qed

text \<open>With \<open>SEM_UNDO\<close>, as the text has it, the end of the child takes its post back: a father that comes later waits for ever.\<close>

theorem undo_loses_the_post:
  assumes "sysv_ok k"
  shows "\<exists>s. rtranclp (acts (sem_test_step True)) (sem_test_start key k) s \<and> st_child s = Ch_gone \<and> st_father s = Fa_wait \<and>
    father_step True s = None"
proof -
  let ?s = "sem_test_start key k"
  have "sem_test_inv key ?s" using sem_test_start_inv [OF assms] .
  moreover have c: "st_child ?s = Ch_start" "st_father ?s = Fa_wait"
    by (simp_all add: sem_test_start_def split: prod.splits)
  ultimately have v: "sv_sems (st_k ?s) (st_id ?s) = Some (key, 0)" "sv_undo (st_k ?s) 1 (st_id ?s) = 0"
    by (simp_all add: sem_test_inv_def posted_def)
  obtain s where s: "act_run (sem_test_step True) [True, True, True, True] ?s = Some s" "st_child s = Ch_gone" "st_father s = Fa_wait"
    "father_step True s = None"
    using v c by (simp add: sem_test_step_def child_step_def father_step_def sem_op_of_def sys_semop_def exit_sem_def
        SEMVMX_def SEMAEM_def Let_def)
  then show ?thesis using act_run_reaches [OF s(1)] by blast
qed

end
