(* ===== verification/Spec2Isabelle.thy ===== *)
theory Spec2Isabelle
  imports Nptl_Properties Thread_Properties Process_Properties Spawn_Properties Glibc_Properties
    Ipc_Properties Tool_Properties Program_Properties Sync_Programs
begin

text \<open>
  A model of the C code this repository explains: the thread library of glibc 2.32
  (\<open>Memory/HiddenOOM/ThreadStackLeaked/code/glibc-2.32\<close>), about how the stacks of threads are
  allocated, cached and leaked, the process start of GLib 2.60.7
  (\<open>Process/StartProcess/code/glib-2.60.7/gspawn.c\<close>), \<open>system\<close> and \<open>popen\<close> of glibc 2.27 and 2.32
  (\<open>Process/StartProcess/code/glibc-2.27\<close> and \<open>glibc-2.32\<close>), two libraries for communication between
  processes (\<open>Process/InterProcessComm/code\<close>), one for backtraces (\<open>Debugging tools/Applications/backtrace\<close>), and
  the programs of the repository that have a logic of their own. Paths are below \<open>src/\<close>.

  \<^bold>\<open>Parts.\<close> \<open>Linux_Prelude\<close> has the error numbers, address ranges on 64-bit words, alignment masks
  and the list lemmas the parts share.

  The thread library works on one state, the record \<open>nptl\<close> of \<open>Nptl_Types\<close>: the static variables of
  \<open>allocatestack.c\<close> and \<open>pthread_create.c\<close> under their own names, the thread descriptors by address
  (\<open>struct pthread\<close>, record \<open>pthread\<close>, fields with the prefix \<open>pd_\<close>), and the world they act on, the
  mappings, protections, TLS blocks, heap blocks and signals. What the library calls outside the
  repository is the record \<open>kern\<close> (constants of the platform, \<open>mmap\<close>, \<open>munmap\<close>, \<open>mprotect\<close>, \<open>malloc\<close>, TLS)
  and the records \<open>thread_ops\<close> and \<open>join_ops\<close> (user code, \<open>clone\<close>, the scheduler).

  \<^item> \<open>Stack_Pool\<close>: \<open>stack_list_add\<close>, \<open>stack_list_del\<close>, \<open>get_cached_stack\<close>, \<open>free_stacks\<close>, \<open>queue_stack\<close>,
    \<open>__deallocate_stack\<close> of \<open>allocatestack.c\<close>, \<open>__find_in_stack_list\<close> of \<open>pthread_create.c\<close>; the
    invariant \<open>pool_inv\<close>.
  \<^item> \<open>Stack_Alloc\<close>: \<open>allocate_stack\<close> in the order of the source, from the rounding of the sizes to the
    resized guard, with all error paths.
  \<^item> \<open>Stack_Fork\<close>: \<open>__make_stacks_executable\<close>, \<open>__reclaim_stacks\<close>, \<open>__pthread_init_static_tls\<close>,
    \<open>__wait_lookup_done\<close>. The list operation a \<open>fork\<close> interrupted is repaired on the links
    themselves.
  \<^item> \<open>Thread_Data\<close>: \<open>__nptl_deallocate_tsd\<close>. \<open>Thread_Attr\<close>: the attribute functions and
    \<open>pthread_getattr_np\<close>. \<open>Thread_Life\<close>: \<open>create_thread\<close>, \<open>pthread_create\<close>, \<open>start_thread\<close>,
    \<open>__free_tcb\<close>. \<open>Thread_Join\<close>: \<open>pthread_join\<close> and \<open>pthread_cancel\<close>. \<open>Thread_Setxid\<close>:
    \<open>__nptl_setxid\<close>.
  \<^item> \<open>Stack_Holding\<close>: a stack in use stays as it is during the calls of the others (\<open>holds\<close>).
  \<^item> \<open>Nptl_System\<close>: the calls as steps of a transition system (\<open>nptl_step\<close>, labelled with the call), the two
    events that break the pool (\<open>pool_breaks\<close>), the runs without them (\<open>sound_run\<close>) and those in which one thread is
    left alone (\<open>spares\<close>); the locales \<open>invariant_system\<close> and \<open>block_store\<close> with their interpretations on the model.
  \<^item> \<open>Stack_Stock\<close>: the contract of the pool with a program that creates and joins threads, two lists of stacks
    with their sizes; \<open>pthread_create\<close> lends the best one and \<open>pthread_join\<close> takes it back, and both succeed where the
    kernel serves them. \<open>Stack_Cache_Test\<close>: \<open>test_stack_cache.c\<close> in both builds and \<open>main.c\<close> beside it, clients of that
    contract through the locale \<open>stack_lender\<close>.

  \<open>gspawn.c\<close> works on the record \<open>proc\<close> of \<open>Spawn_Fds\<close>, a process with its descriptor table, its
  close-on-exec flags, its children and the contents of pipes; \<open>spawn_os\<close> is what it calls outside.

  \<^item> \<open>Spawn_Util\<close>: retried transfers, descriptor names, reports, exit statuses. \<open>Spawn_Exec\<close>: the search
    of the path. \<open>Spawn_Fds\<close>: the child's descriptors, \<open>do_exec\<close> and \<open>do_posix_spawn\<close>. \<open>Spawn_Fork\<close>: the
    fork and the reports. \<open>Spawn_Sync\<close>: \<open>g_spawn_sync\<close>.
  \<^item> \<open>Spawn_Contract\<close>: what these functions leave behind in their caller.

  \<open>system\<close> is the transition system of \<open>Glibc_System\<close>: threads in phases, a step for each section under the
  lock and each system call outside of it (\<open>step_232\<close>, \<open>step_227\<close>), and the same operations composed to one
  call (\<open>do_system_232\<close>, \<open>do_system_227\<close>); the locale \<open>shared_dispositions\<close> states what both versions promise.
  \<open>popen\<close> works on \<open>proc\<close> too: \<open>Glibc_Popen\<close> has the chain of streams, \<open>proc_open\<close> through \<open>posix_spawn\<close> and
  through \<open>fork\<close>, and \<open>pclose\<close>; both versions interpret the locale \<open>proc_opener\<close>. The \<open>errno\<close> of a \<open>close\<close> whose
  result is ignored is not tracked.

  \<open>Frame_Ipc\<close> has the functions of \<open>shm+sem/frame_ipc.c\<close> over a kernel with System V segments and semaphores
  (record \<open>sysv\<close>), the sender's and the receiver's calls as events, and what they are meant to be, a
  place for one frame (\<open>slot\<close>). \<open>Ipc_Channel\<close> has the class \<open>Ipc\<close> of \<open>ipc/ipc.cpp\<close> over message queues and datagram
  sockets (record \<open>ipc_kernel\<close>); both interpret the locale \<open>transport\<close>, which makes what the two ends write and read
  queues of messages: one that both ends share for a message queue, one in each direction for sockets.

  The programs: \<open>Shm_Programs\<close> has the sender \<open>a.c\<close> and the receiver \<open>b.c\<close> over \<open>Frame_Ipc\<close>, and \<open>test3.cpp\<close>.
  \<open>Pair_Queues\<close> is \<open>test2.cpp\<close>, with a semaphore or a condition variable. \<open>Create_Process\<close> has \<open>CreateProcess\<close> and
  \<open>CreateProcess_ex\<close> of \<open>StartProcess/code/main.c\<close> and \<open>Schedule/code/main.c\<close>, over the signals and children of
  \<open>Glibc_System\<close>. \<open>Inherited_Socket\<close> is the server of \<open>InheritProcess\<close> with the thread that forks. \<open>Backtrace\<close> is
  \<open>libbacktrace/backtrace.c\<close>. \<open>Sync_Programs\<close> is \<open>test1.cpp\<close> and \<open>sem_test.c\<close>, \<open>Lock_Cycle\<close> the threads of
  \<open>strace/code/main.c\<close> and \<open>pstack/code/main.c\<close>. The transition systems among them interpret \<open>invariant_system\<close>; those of
  several threads are built from actions (\<open>Action_Systems\<close>).

  \<open>Move_Dir\<close> is \<open>ltrace/code/move.c\<close> over a tree of files with links: the walk along a path (40 links at most, as in the
  kernel), the system calls, \<open>move_dir\<close>, which ends because a path has 511 characters at most. \<open>Move_Merge\<close> has what a
  move is meant to be (\<open>merged\<close>) and that \<open>move_dir\<close> does it when the directories fit together.

  \<^bold>\<open>What is shown.\<close> The properties stand in \<open>Nptl_Properties\<close> (the pool along all runs, allocation,
  return), \<open>Thread_Properties\<close> (creation, end, join, cancel), \<open>Process_Properties\<close> (IDs, thread-specific
  data, fork, attributes), \<open>Spawn_Properties\<close> (search, reports, descriptors, leaks), \<open>Glibc_Properties\<close>
  (signal dispositions and masks, streams, agreement of the versions), \<open>Ipc_Properties\<close> (frames, queues,
  deadlines), \<open>Tool_Properties\<close> (moved directories, threads that lock, stacks that are reused) and \<open>Program_Properties\<close> (paired queues,
  backtraces, command lines, inherited sockets). The numbered ones are stated in words and instantiated on the concrete
  system of \<open>Nptl_Examples\<close> or at the head of their theory; the theorems between them, and those of \<open>Sync_Programs\<close>, add
  what is worth knowing beside them. Some state what the code does wrong: the descriptor left
  behind by a failed repair of permissions, the second joiner that is not refused, the child that loses
  descriptor 0, the list of descriptors that is ignored, the signal mask that is not restored, the receiver that
  stops waiting after 32767 frames, the pairs that a flag strands, the signals that overlapping calls leave ignored,
  the file that is removed although its copy is not complete.

  \<^bold>\<open>Conventions.\<close> A machine word is a \<open>64 word\<close>, \<open>NULL\<close> is 0, a bit mask is a set of flags, an intrusive list
  is the list of the descriptors on it. A failed assertion, an abort or a wait that does not end
  is \<open>None\<close>. Where a thread waits, the steps of the others, and where a system call is retried, its answers,
  are a list argument: every function is total, and \<open>None\<close> at the end of the list means that it still waits.

  \<^bold>\<open>Relied on.\<close> What the code needs of the kernel is named: \<open>kernel_ok\<close> (the sizes of the platform, unused memory from
  \<open>mmap\<close>, a \<open>munmap\<close> that does not fail), \<open>steps_ok\<close> and \<open>events_ok\<close> (other threads leave the lists of stacks alone),
  \<open>answers_ok\<close> (a thread loses the mark of a change of IDs only in answer to the signal or when it ends), \<open>pipe_law\<close> and
  \<open>fresh_pid\<close> (new descriptors are unused, numbers of children that are not reaped are not used again),
  \<open>malloc_ok\<close> (a new heap block is not in use). Every one of them holds in an example.

  \<^bold>\<open>Not modelled.\<close> In \<open>start_thread\<close> the walk over the robust mutexes (only compiled without
  \<open>__ASSUME_SET_ROBUST_LIST\<close>), the resolver and ctype state and the jump buffer; the effect of \<open>madvise\<close>; the
  handler of \<open>SIGSETXID\<close>, which is not in the repository. The configuration is x86-64: stacks grow
  down, the TCB lies at the thread pointer. The other programs of the repository (short ones that
  call these functions, print in a loop, crash or corrupt memory on purpose) and \<open>clone.S\<close> are
  left out, as are the log macros and the singleton template of \<open>ipc.hpp\<close>. A new thread that is cancelled by a failing
  \<open>create_thread\<close> while it waits for its lock is modelled as waiting on; \<open>reclaim_stacks\<close> works on lists that
  \<open>repair_lists\<close> has made whole; the child of \<open>system\<close> in version 2.27 is the program it tries to become, without the
  \<open>_exit\<close> behind it, and the steps of that version restore dispositions and masks without an error; a
  bad time is an error of \<open>mq_timedsend\<close> only if the call would wait, as the manual has it. The calls of the two libraries for
  communication are atomic in the model.
\<close>

end
